(* ===== verification/Prelude.thy ===== *)
theory Prelude
  imports Complex_Main "HOL-Library.AList"
begin

text \<open>
  Shared vocabulary of the development: the JavaScript values the modules compute with, the
  SQLite tables they keep, and the lemmas the component theories rest on.

  Numbers.  A JavaScript number that the code treats as a quantity is an exact rational.  A value
  that has gone through \<open>Number(x)\<close> is a \<open>jsnum\<close>: \<open>None\<close> says that it is not a finite number.
  Where the code writes \<open>Number(x) || d\<close>, \<open>None\<close> is \<open>NaN\<close> (an infinite value is outside the
  model there); where it tests \<open>Number.isFinite\<close>, \<open>None\<close> covers \<open>NaN\<close> and both infinities.
  Binary rounding of IEEE doubles is not modelled; \<open>Math.round\<close>, \<open>Math.trunc\<close>, \<open>Math.floor\<close>
  and \<open>Math.ceil\<close> are.

  Strings are character lists over ASCII; \<open>trim\<close> and \<open>toLowerCase\<close> are written out.

  Tables.  A SQLite table with a primary key is an association list in row order; \<open>INSERT\<close> and
  \<open>INSERT OR REPLACE\<close> are \<open>AList.update\<close>, \<open>UPDATE ... WHERE key = ?\<close> is \<open>row_upd\<close>.
\<close>

named_theorems js_simps \<open>evaluation of JavaScript coercions and roundings\<close>
named_theorems row_simps \<open>lookups in an updated table\<close>

section \<open>Numbers\<close>

type_synonym jsnum = "rat option"
type_synonym ms = int

definition num_or :: "jsnum \<Rightarrow> rat \<Rightarrow> rat" where
  "num_or x d = (case x of None \<Rightarrow> d | Some r \<Rightarrow> if r = 0 then d else r)"

definition or_zero :: "jsnum \<Rightarrow> rat" where
  "or_zero x = (case x of None \<Rightarrow> 0 | Some r \<Rightarrow> r)"

definition js_round :: "rat \<Rightarrow> int" where
  "js_round x = \<lfloor>x + 1 / 2\<rfloor>"

definition js_trunc :: "rat \<Rightarrow> int" where
  "js_trunc x = (if 0 \<le> x then \<lfloor>x\<rfloor> else \<lceil>x\<rceil>)"

lemma num_or_simps [simp, js_simps]:
  "num_or None d = d" "r \<noteq> 0 \<Longrightarrow> num_or (Some r) d = r" "num_or (Some 0) d = d"
  by (simp_all add: num_or_def)

lemma or_zero_simps [simp, js_simps]: "or_zero None = 0" "or_zero (Some r) = r"
  by (simp_all add: or_zero_def)

lemma num_or_zero: "num_or x 0 = or_zero x"
  by (cases x) (auto simp: num_or_def)

lemma num_or_pos: "0 < d \<Longrightarrow> 0 \<le> or_zero x \<Longrightarrow> 0 < num_or x d"
  by (auto simp: num_or_def split: option.splits)

lemma js_round_of_int [simp, js_simps]: "js_round (of_int n) = n"
  by (simp add: js_round_def) linarith

lemma js_round_zero [simp, js_simps]: "js_round 0 = 0"
  using js_round_of_int [of 0] by simp

lemma js_round_mono: "x \<le> y \<Longrightarrow> js_round x \<le> js_round y"
  by (simp add: js_round_def floor_mono)

lemma js_round_nonneg: "0 \<le> x \<Longrightarrow> 0 \<le> js_round x"
  using js_round_mono [of 0 x] by simp

lemma js_round_lower: "x - 1 / 2 < of_int (js_round x)"
  unfolding js_round_def by linarith

lemma js_round_upper: "of_int (js_round x) \<le> x + 1 / 2"
  unfolding js_round_def by linarith

lemma js_trunc_of_int [simp, js_simps]: "js_trunc (of_int n) = n"
  by (simp add: js_trunc_def)

lemma js_trunc_nonneg: "0 \<le> x \<Longrightarrow> 0 \<le> js_trunc x"
  by (simp add: js_trunc_def)

lemma js_trunc_le: "0 \<le> x \<Longrightarrow> of_int (js_trunc x) \<le> x"
  by (simp add: js_trunc_def)

section \<open>Strings\<close>

definition is_ws :: "char \<Rightarrow> bool" where
  "is_ws c = ((of_char c :: nat) \<in> {9, 10, 11, 12, 13, 32, 160})"

definition to_lower :: "char \<Rightarrow> char" where
  "to_lower c = (let n = (of_char c :: nat) in if 65 \<le> n \<and> n \<le> 90 then char_of (n + 32) else c)"

definition to_upper :: "char \<Rightarrow> char" where
  "to_upper c = (let n = (of_char c :: nat) in if 97 \<le> n \<and> n \<le> 122 then char_of (n - 32) else c)"

definition js_trim :: "string \<Rightarrow> string" where
  "js_trim s = rev (dropWhile is_ws (rev (dropWhile is_ws s)))"

definition lowercase :: "string \<Rightarrow> string" where
  "lowercase s = map to_lower s"

definition uppercase :: "string \<Rightarrow> string" where
  "uppercase s = map to_upper s"

text \<open>The canonical key every store uses for an e-mail: trimmed and lower-cased.\<close>

definition lc :: "string \<Rightarrow> string" where
  "lc s = lowercase (js_trim s)"

lemma of_char_to_lower:
  "(of_char (to_lower c) :: nat)
     = (let n = (of_char c :: nat) in if 65 \<le> n \<and> n \<le> 90 then n + 32 else n)"
  by (auto simp: to_lower_def Let_def)

lemma to_lower_idem [simp]: "to_lower (to_lower c) = to_lower c"
  using of_char_to_lower [of c] by (auto simp: to_lower_def Let_def)

lemma is_ws_to_lower [simp]: "is_ws (to_lower c) = is_ws c"
  by (auto simp: is_ws_def of_char_to_lower Let_def)

lemma lowercase_idem [simp]: "lowercase (lowercase s) = lowercase s"
  by (simp add: lowercase_def)

lemma dropWhile_ws_map: "dropWhile is_ws (map to_lower s) = map to_lower (dropWhile is_ws s)"
  by (induction s) auto

lemma js_trim_lowercase: "js_trim (lowercase s) = lowercase (js_trim s)"
  by (simp add: js_trim_def lowercase_def dropWhile_ws_map rev_map)

lemma dropWhile_rev_dropWhile:
  "dropWhile P (rev (dropWhile P (rev (dropWhile P s)))) = rev (dropWhile P (rev (dropWhile P s)))"
proof -
  define u where "u = dropWhile P s"
  have hd_u: "u = [] \<or> \<not> P (hd u)"
    unfolding u_def using hd_dropWhile by blast
  have "takeWhile P (rev u) @ dropWhile P (rev u) = rev u" by simp
  then have u: "rev (dropWhile P (rev u)) @ rev (takeWhile P (rev u)) = u"
    by (metis rev_append rev_rev_ident)
  show ?thesis
  proof (cases "rev (dropWhile P (rev u))")
    case Nil
    show ?thesis unfolding u_def [symmetric] Nil by simp
  next
    case (Cons a as)
    with u hd_u have "\<not> P a" by (metis append_Cons list.sel(1) list.distinct(1))
    then show ?thesis unfolding u_def [symmetric] Cons by simp
  qed
qed

lemma js_trim_idem [simp]: "js_trim (js_trim s) = js_trim s"
  by (simp add: js_trim_def dropWhile_rev_dropWhile)

lemma lc_idem [simp]: "lc (lc s) = lc s"
  by (simp add: lc_def js_trim_lowercase)

lemma lowercase_lc [simp]: "lowercase (lc s) = lc s"
  by (simp add: lc_def)

lemma lc_Nil [simp]: "lc [] = []"
  by (simp add: lc_def lowercase_def js_trim_def)

text \<open>\<open>s || null\<close> on a string: the empty string is falsy.\<close>

definition or_null :: "string \<Rightarrow> string option" where
  "or_null s = (if s = [] then None else Some s)"

text \<open>The decimal text of an integer, as string concatenation prints it.\<close>

definition digit_char :: "nat \<Rightarrow> char" where
  "digit_char d = char_of (48 + d)"

fun show_nat :: "nat \<Rightarrow> string" where
  "show_nat n = (if n < 10 then [digit_char n] else show_nat (n div 10) @ [digit_char (n mod 10)])"

declare show_nat.simps [simp del]

definition show_int :: "int \<Rightarrow> string" where
  "show_int k = (if k < 0 then ''-'' @ show_nat (nat (- k)) else show_nat (nat k))"

text \<open>\<open>s.slice(0, n)\<close> with the limit as an integer, so that large limits evaluate.\<close>

fun js_slice :: "int \<Rightarrow> 'a list \<Rightarrow> 'a list" where
  "js_slice n [] = []"
| "js_slice n (c # cs) = (if n \<le> 0 then [] else c # js_slice (n - 1) cs)"

lemma js_slice_take: "js_slice n s = take (nat n) s"
proof (induction s arbitrary: n)
  case (Cons c s)
  show ?case
  proof (cases "n \<le> 0")
    case False
    then have "nat n = Suc (nat (n - 1))" by simp
    then show ?thesis using False Cons by simp
  qed simp
qed simp

text \<open>\<open>xs.slice(-n)\<close> for a positive \<open>n\<close>.\<close>

definition slice_last :: "nat \<Rightarrow> 'a list \<Rightarrow> 'a list" where
  "slice_last n xs = drop (length xs - n) xs"

lemma length_slice_last [simp]: "length (slice_last n xs) = min n (length xs)"
  by (simp add: slice_last_def)

lemma set_slice_last: "set (slice_last n xs) \<subseteq> set xs"
  by (simp add: slice_last_def set_drop_subset)

section \<open>Tables\<close>

definition row_upd :: "'k \<Rightarrow> ('v \<Rightarrow> 'v) \<Rightarrow> ('k \<times> 'v) list \<Rightarrow> ('k \<times> 'v) list" where
  "row_upd k f t = map (\<lambda>(k', r). (k', if k' = k then f r else r)) t"

definition rows_where :: "('k \<Rightarrow> 'v \<Rightarrow> bool) \<Rightarrow> ('k \<times> 'v) list \<Rightarrow> ('k \<times> 'v) list" where
  "rows_where P t = filter (\<lambda>(k, r). P k r) t"

text \<open>
  What the stores rely on: a lookup after an insertion, an update or a deletion.  The laws are
  stated for any implementation; the invariant lemmas are proved once from them.
\<close>

locale keyed_store =
  fixes get :: "'t \<Rightarrow> 'k \<Rightarrow> 'v option"
    and put :: "'k \<Rightarrow> 'v \<Rightarrow> 't \<Rightarrow> 't"
    and upd :: "'k \<Rightarrow> ('v \<Rightarrow> 'v) \<Rightarrow> 't \<Rightarrow> 't"
    and del :: "'k \<Rightarrow> 't \<Rightarrow> 't"
  assumes get_put: "get (put k v t) k' = (if k' = k then Some v else get t k')"
    and get_upd: "get (upd k f t) k' = (if k' = k then map_option f (get t k) else get t k')"
    and get_del: "get (del k t) k' = (if k' = k then None else get t k')"
begin

lemma ok_put:
  assumes "\<forall>k r. get t k = Some r \<longrightarrow> P k r" and "P k v"
  shows "\<forall>k' r. get (put k v t) k' = Some r \<longrightarrow> P k' r"
  using assms by (auto simp: get_put)

lemma ok_upd:
  assumes "\<forall>k r. get t k = Some r \<longrightarrow> P k r" and "\<And>r. get t k = Some r \<Longrightarrow> P k r \<Longrightarrow> P k (f r)"
  shows "\<forall>k' r. get (upd k f t) k' = Some r \<longrightarrow> P k' r"
  using assms by (auto simp: get_upd split: if_splits)

lemma ok_del:
  assumes "\<forall>k r. get t k = Some r \<longrightarrow> P k r"
  shows "\<forall>k' r. get (del k t) k' = Some r \<longrightarrow> P k' r"
  using assms by (auto simp: get_del split: if_splits)

lemma upd_present: "get (upd k f t) k' = None \<longleftrightarrow> get t k' = None"
  by (simp add: get_upd)

lemma upd_same: "get t k = Some r \<Longrightarrow> get (upd k f t) k = Some (f r)"
  by (simp add: get_upd)

lemma upd_other: "k' \<noteq> k \<Longrightarrow> get (upd k f t) k' = get t k'"
  by (simp add: get_upd)

lemma put_other: "k' \<noteq> k \<Longrightarrow> get (put k v t) k' = get t k'"
  by (simp add: get_put)

end

lemma map_of_row_upd [row_simps]:
  "map_of (row_upd k f t) k' = (if k' = k then map_option f (map_of t k) else map_of t k')"
  by (induction t) (auto simp: row_upd_def)

lemma map_of_update [row_simps]:
  "map_of (AList.update k v t) k' = (if k' = k then Some v else map_of t k')"
  by (simp add: update_conv')

lemma map_of_delete [row_simps]:
  "map_of (AList.delete k t) k' = (if k' = k then None else map_of t k')"
  by (simp add: delete_conv')

interpretation tab: keyed_store map_of AList.update row_upd AList.delete
  by unfold_locales (simp_all add: row_simps)

lemma keys_row_upd [simp]: "map fst (row_upd k f t) = map fst t"
  by (simp add: row_upd_def case_prod_unfold comp_def)

lemma set_row_upd:
  "distinct (map fst t) \<Longrightarrow>
   set (row_upd k f t) = (\<lambda>(k', r). (k', if k' = k then f r else r)) ` set t"
  by (simp add: row_upd_def)

lemma distinct_keys_update: "distinct (map fst t) \<Longrightarrow> distinct (map fst (AList.update k v t))"
  by (rule distinct_update)

lemma distinct_keys_delete: "distinct (map fst t) \<Longrightarrow> distinct (map fst (AList.delete k t))"
  by (rule distinct_delete)

lemma distinct_keys_row_upd: "distinct (map fst t) \<Longrightarrow> distinct (map fst (row_upd k f t))"
  by simp

section \<open>Lists\<close>

lemma sum_list_map_mono:
  "(\<And>x. x \<in> set xs \<Longrightarrow> f x \<le> (g x :: rat)) \<Longrightarrow> sum_list (map f xs) \<le> sum_list (map g xs)"
  by (induction xs) (auto intro: add_mono)

lemma sum_list_map_nonneg:
  "(\<And>x. x \<in> set xs \<Longrightarrow> 0 \<le> (f x :: rat)) \<Longrightarrow> 0 \<le> sum_list (map f xs)"
  by (induction xs) auto

lemma find_append: "find P (xs @ ys) = (case find P xs of None \<Rightarrow> find P ys | Some x \<Rightarrow> Some x)"
  by (induction xs) auto

end
