(* ===== verification/Tenancy.thy ===== *)
theory Tenancy
  imports Prelude
begin

text \<open>
  \<open>tenancy.mjs\<close>: the users store (identity, role, status, the sponsored monthly cap) and the
  identity a request carries.  The table is keyed by e-mail; the hash that names a user's data
  directory is the parameter \<open>uid_for\<close> (SHA-256 of the canonical e-mail in the code), and every
  operation that stamps a row takes the time \<open>t\<close>.
\<close>

record user_row =
  u_uid :: string
  u_role :: string
  u_status :: string
  u_consented :: bool
  u_capUsd :: rat
  u_spentUsd :: rat
  u_capPeriod :: "string option"
  u_invited :: bool
  u_tutorialSeen :: bool
  u_trainingOptOut :: bool
  u_createdAt :: ms
  u_updatedAt :: ms

record users =
  us_rows :: "(string \<times> user_row) list"
  us_owner :: string

definition ROLES :: "string list" where
  "ROLES = [''owner'', ''sponsored'', ''credit'']"

text \<open>The store a process opens on an empty database; \<open>ownerEmail\<close> is canonicalised once.\<close>

definition createUsersStore :: "string \<Rightarrow> users" where
  "createUsersStore ownerEmail = \<lparr>us_rows = [], us_owner = lc ownerEmail\<rparr>"

definition new_user_row :: "string \<Rightarrow> string \<Rightarrow> ms \<Rightarrow> user_row" where
  "new_user_row uid role t =
     \<lparr>u_uid = uid, u_role = role, u_status = ''active'', u_consented = False, u_capUsd = 20,
      u_spentUsd = 0, u_capPeriod = None, u_invited = False, u_tutorialSeen = False,
      u_trainingOptOut = False, u_createdAt = t, u_updatedAt = t\<rparr>"

definition get_user :: "string \<Rightarrow> users \<Rightarrow> user_row option" where
  "get_user email us = map_of (us_rows us) (lowercase email)"

definition upd_user :: "string \<Rightarrow> (user_row \<Rightarrow> user_row) \<Rightarrow> users \<Rightarrow> users" where
  "upd_user key f us = us\<lparr>us_rows := row_upd key f (us_rows us)\<rparr>"

definition set_role_row :: "string \<Rightarrow> string \<Rightarrow> ms \<Rightarrow> users \<Rightarrow> users" where
  "set_role_row key role t = upd_user key (\<lambda>r. r\<lparr>u_role := role, u_updatedAt := t\<rparr>)"

text \<open>
  \<open>ensure(email, defaults)\<close>: fetch or create; the owner's role is forced whatever the row says.
  \<open>default_role\<close> is \<open>defaults.role\<close>, with the empty string for a missing one.
\<close>

definition ensure_user ::
  "(string \<Rightarrow> string) \<Rightarrow> ms \<Rightarrow> string \<Rightarrow> string \<Rightarrow> users \<Rightarrow> user_row option \<times> users" where
  "ensure_user uid_for t email default_role us =
     (let e = lc email in
      if e = [] then (None, us)
      else
        let us1 = (case map_of (us_rows us) e of
                     Some _ \<Rightarrow> us
                   | None \<Rightarrow>
                       let role = (if e = us_owner us then ''owner''
                                   else if default_role = [] then ''credit'' else default_role)
                       in us\<lparr>us_rows := AList.update e (new_user_row (uid_for e) role t) (us_rows us)\<rparr>);
            us2 = (case map_of (us_rows us1) e of
                     Some row \<Rightarrow> if e = us_owner us \<and> u_role row \<noteq> ''owner''
                                 then set_role_row e ''owner'' t us1 else us1
                   | None \<Rightarrow> us1)
        in (map_of (us_rows us2) e, us2))"

text \<open>
  The identity a request carries.  \<open>resolved\<close> is the e-mail of \<open>req.dominionIdentity\<close> when the
  entry point stashed one, \<open>header\<close> the raw Access header.  A field the code leaves out of the
  object is read as false by its callers; \<open>id_row\<close> holds the remaining columns of a known user.
\<close>

record identity =
  id_email :: string
  id_uid :: string
  id_role :: string
  id_status :: string
  id_isOwner :: bool
  id_invited :: bool
  id_tutorialSeen :: bool
  id_row :: "user_row option"

definition identify ::
  "(string \<Rightarrow> string) \<Rightarrow> ms \<Rightarrow> string option \<Rightarrow> string \<Rightarrow> bool \<Rightarrow> users \<Rightarrow> identity \<times> users" where
  "identify uid_for t resolved header autocreate us =
     (let email = (case resolved of Some e \<Rightarrow> lc e | None \<Rightarrow> lc header) in
      if email = [] then
        (\<lparr>id_email = [], id_uid = [], id_role = ''anon'', id_status = ''anon'', id_isOwner = False,
          id_invited = False, id_tutorialSeen = False, id_row = None\<rparr>, us)
      else
        let (found, us') = (if autocreate then ensure_user uid_for t email [] us
                            else (map_of (us_rows us) email, us)) in
        case found of
          None \<Rightarrow>
            (\<lparr>id_email = email, id_uid = uid_for email, id_role = ''credit'', id_status = ''active'',
              id_isOwner = (email = us_owner us), id_invited = (email = us_owner us),
              id_tutorialSeen = False, id_row = None\<rparr>, us')
        | Some row \<Rightarrow>
            (\<lparr>id_email = email, id_uid = u_uid row, id_role = u_role row, id_status = u_status row,
              id_isOwner = (u_role row = ''owner''),
              id_invited = (u_role row = ''owner'' \<or> u_invited row),
              id_tutorialSeen = u_tutorialSeen row, id_row = Some row\<rparr>, us'))"

record spend_result =
  sp_over :: bool
  sp_spent :: rat
  sp_cap :: rat

text \<open>
  \<open>addSponsoredSpend\<close>: \<open>period\<close> is the caller's or the current \<open>YYYY-MM\<close>.  An unknown account
  answers \<open>{over: false}\<close> with no totals.
\<close>

definition addSponsoredSpend ::
  "ms \<Rightarrow> string \<Rightarrow> string \<Rightarrow> jsnum \<Rightarrow> users \<Rightarrow> spend_result option \<times> users" where
  "addSponsoredSpend t period email usd us =
     (let e = lowercase email in
      case map_of (us_rows us) e of
        None \<Rightarrow> (None, us)
      | Some row \<Rightarrow>
          let spent = (if u_capPeriod row = Some period then u_spentUsd row else 0) + or_zero usd;
              us1 = upd_user e (\<lambda>r. r\<lparr>u_spentUsd := spent, u_capPeriod := Some period,
                                      u_updatedAt := t\<rparr>) us;
              over = (spent \<ge> u_capUsd row);
              us2 = (if over \<and> u_status row = ''active''
                     then upd_user e (\<lambda>r. r\<lparr>u_status := ''paused'', u_updatedAt := t\<rparr>) us1
                     else us1)
          in (Some \<lparr>sp_over = over, sp_spent = spent, sp_cap = u_capUsd row\<rparr>, us2))"

definition setRole :: "ms \<Rightarrow> string \<Rightarrow> string \<Rightarrow> users \<Rightarrow> bool \<times> users" where
  "setRole t email role us =
     (if role \<notin> set ROLES then (False, us)
      else (True, set_role_row (lowercase email) role t us))"

definition setStatus :: "ms \<Rightarrow> string \<Rightarrow> string \<Rightarrow> users \<Rightarrow> users" where
  "setStatus t email status = upd_user (lowercase email) (\<lambda>r. r\<lparr>u_status := status, u_updatedAt := t\<rparr>)"

definition markConsented :: "ms \<Rightarrow> string \<Rightarrow> users \<Rightarrow> users" where
  "markConsented t email = upd_user (lowercase email) (\<lambda>r. r\<lparr>u_consented := True, u_updatedAt := t\<rparr>)"

definition setTrainingOptOut :: "ms \<Rightarrow> string \<Rightarrow> bool \<Rightarrow> users \<Rightarrow> users" where
  "setTrainingOptOut t email on =
     upd_user (lowercase email) (\<lambda>r. r\<lparr>u_trainingOptOut := on, u_updatedAt := t\<rparr>)"

definition markInvited :: "ms \<Rightarrow> string \<Rightarrow> users \<Rightarrow> users" where
  "markInvited t email = upd_user (lowercase email) (\<lambda>r. r\<lparr>u_invited := True, u_updatedAt := t\<rparr>)"

definition markTutorialSeen :: "ms \<Rightarrow> string \<Rightarrow> users \<Rightarrow> users" where
  "markTutorialSeen t email =
     upd_user (lowercase email) (\<lambda>r. r\<lparr>u_tutorialSeen := True, u_updatedAt := t\<rparr>)"

definition setSponsoredCap :: "ms \<Rightarrow> string \<Rightarrow> jsnum \<Rightarrow> users \<Rightarrow> users" where
  "setSponsoredCap t email usd =
     upd_user (lowercase email) (\<lambda>r. r\<lparr>u_capUsd := or_zero usd, u_updatedAt := t\<rparr>)"

definition resetSponsoredSpend :: "ms \<Rightarrow> string \<Rightarrow> string \<Rightarrow> users \<Rightarrow> users" where
  "resetSponsoredSpend t period email =
     upd_user (lowercase email)
       (\<lambda>r. r\<lparr>u_spentUsd := 0, u_capPeriod := Some period, u_updatedAt := t\<rparr>)"

definition list_users :: "users \<Rightarrow> (string \<times> user_row) list" where
  "list_users us = sort_key (\<lambda>(_, r). u_createdAt r) (us_rows us)"

section \<open>Lemmas\<close>

lemma get_upd_user [row_simps]:
  "map_of (us_rows (upd_user k f us)) k'
     = (if k' = k then map_option f (map_of (us_rows us) k) else map_of (us_rows us) k')"
  by (simp add: upd_user_def row_simps)

lemma owner_upd_user [simp]: "us_owner (upd_user k f us) = us_owner us"
  by (simp add: upd_user_def)

lemma ensure_user_None: "lc email = [] \<Longrightarrow> ensure_user uid_for t email d us = (None, us)"
  by (simp add: ensure_user_def Let_def)

lemma ensure_user_Some:
  assumes "lc email \<noteq> []"
  shows "\<exists>row us'. ensure_user uid_for t email d us = (Some row, us')
    \<and> map_of (us_rows us') (lc email) = Some row
    \<and> us_owner us' = us_owner us
    \<and> (lc email = us_owner us \<longrightarrow> u_role row = ''owner'')
    \<and> (\<forall>k. k \<noteq> lc email \<longrightarrow> map_of (us_rows us') k = map_of (us_rows us) k)"
proof (cases "map_of (us_rows us) (lc email)")
  case None
  with assms show ?thesis
    by (auto simp: ensure_user_def Let_def set_role_row_def row_simps new_user_row_def)
next
  case (Some row)
  with assms show ?thesis
    by (auto simp: ensure_user_def Let_def set_role_row_def row_simps)
qed

lemma ensure_user_known:
  assumes "lc email \<noteq> []" "map_of (us_rows us) (lc email) = Some row"
    and "lc email = us_owner us \<Longrightarrow> u_role row = ''owner''"
  shows "ensure_user uid_for t email d us = (Some row, us)"
  using assms by (auto simp: ensure_user_def Let_def)

section \<open>Properties\<close>

text \<open>resolving a non-empty e-mail always yields a row of the store, the owner's row carries the
  owner role whatever was written to it before, nobody else's row is touched, and a second
  resolution (even with other defaults) returns the same row and changes nothing.\<close>

theorem ensure_user_forces_owner:
  assumes "lc email \<noteq> []"
  shows "\<exists>row us'. ensure_user uid_for t email d us = (Some row, us')
    \<and> map_of (us_rows us') (lc email) = Some row
    \<and> (lc email = us_owner us \<longrightarrow> u_role row = ''owner'')
    \<and> (\<forall>k. k \<noteq> lc email \<longrightarrow> map_of (us_rows us') k = map_of (us_rows us) k)
    \<and> ensure_user uid_for t' email d' us' = (Some row, us')"
proof -
  from ensure_user_Some [OF assms, of uid_for t d us]
  obtain row us' where e: "ensure_user uid_for t email d us = (Some row, us')"
    and r: "map_of (us_rows us') (lc email) = Some row" and o: "us_owner us' = us_owner us"
    and own: "lc email = us_owner us \<longrightarrow> u_role row = ''owner''"
    and others: "\<forall>k. k \<noteq> lc email \<longrightarrow> map_of (us_rows us') k = map_of (us_rows us) k"
    by blast
  have "ensure_user uid_for t' email d' us' = (Some row, us')"
    using assms r own o by (intro ensure_user_known) auto
  with e r own others show ?thesis by blast
qed

lemma ensure_user_forces_owner_witness:
  "\<exists>row us'. ensure_user (\<lambda>e. e) 0 '' Fred@X '' [] (createUsersStore ''fred@x'') = (Some row, us')
    \<and> u_role row = ''owner''"
proof -
  have h: "lc '' Fred@X '' \<noteq> []" by code_simp
  have o: "lc '' Fred@X '' = us_owner (createUsersStore ''fred@x'')" by code_simp
  show ?thesis
    using ensure_user_forces_owner [OF h, of "\<lambda>e. e" 0 "[]" "createUsersStore ''fred@x''" 0 "[]"] o
    by blast
qed

text \<open>after charging a sponsored account, the recorded spend is the charge added to the spend of
  the same period (a new period starts from zero), and an account whose spend reached its cap is
  never left active: it is paused, or keeps the paused or locked status it had.\<close>

theorem sponsored_cap_enforced:
  assumes "map_of (us_rows us) (lowercase email) = Some row"
  shows "\<exists>r row'. fst (addSponsoredSpend t period email usd us) = Some r
    \<and> map_of (us_rows (snd (addSponsoredSpend t period email usd us))) (lowercase email) = Some row'
    \<and> u_spentUsd row' = (if u_capPeriod row = Some period then u_spentUsd row else 0) + or_zero usd
    \<and> u_capPeriod row' = Some period
    \<and> sp_spent r = u_spentUsd row' \<and> sp_over r = (u_spentUsd row' \<ge> u_capUsd row')
    \<and> (u_capUsd row' \<le> u_spentUsd row' \<longrightarrow> u_status row' \<noteq> ''active'')
    \<and> (u_spentUsd row' < u_capUsd row' \<longrightarrow> u_status row' = u_status row)"
  using assms by (auto simp: addSponsoredSpend_def Let_def row_simps)

lemma sponsored_cap_enforced_witness:
  "\<exists>row'. map_of (us_rows (snd (addSponsoredSpend 1 ''2026-08'' ''kid@x'' (Some 25)
        (snd (ensure_user (\<lambda>e. e) 0 ''kid@x'' ''sponsored'' (createUsersStore ''fred@x''))))))
      ''kid@x'' = Some row' \<and> u_status row' \<noteq> ''active''"
proof -
  let ?us = "snd (ensure_user (\<lambda>e. e) 0 ''kid@x'' ''sponsored'' (createUsersStore ''fred@x''))"
  have k: "lowercase ''kid@x'' = ''kid@x''" by code_simp
  have u: "us_rows ?us = [(''kid@x'', new_user_row ''kid@x'' ''sponsored'' 0)]" by code_simp
  have h: "map_of (us_rows ?us) (lowercase ''kid@x'') = Some (new_user_row ''kid@x'' ''sponsored'' 0)"
    unfolding k u by simp
  have c: "u_capUsd (new_user_row ''kid@x'' ''sponsored'' 0) = 20" by (simp add: new_user_row_def)
  have "u_capUsd row' \<le> u_spentUsd row'"
    if "map_of (us_rows (snd (addSponsoredSpend 1 ''2026-08'' ''kid@x'' (Some 25) ?us)))
          (lowercase ''kid@x'') = Some row'" for row'
    using that h by (auto simp: addSponsoredSpend_def Let_def row_simps new_user_row_def)
  with sponsored_cap_enforced [OF h, of 1 "''2026-08''" "Some 25"] show ?thesis
    unfolding k by blast
qed

end
