(* ===== verification/Billing.thy ===== *)
theory Billing
  imports Tenancy
begin

text \<open>
  \<open>billing.mjs\<close>: the credit ledger, the single-use codes, and the auto-recharge and lock state
  machine.  One record holds the four tables.  The users store is injected and optional in the
  code, so the operations that drive it work on a pair \<open>money\<close> of the billing state and an
  optional users store.  The card charge is injected too: it is a parameter that answers one
  request.  A JavaScript exception is the value \<open>None\<close> (the only one this module can raise is the
  \<open>TypeError\<close> of reading a column of the missing row of an empty e-mail, and the constraint
  violation of a colliding code).  Text that is only shown to a reader (ledger reasons, log lines)
  is kept as a tag.
\<close>

section \<open>Prices\<close>

definition CREDITS_PER_USD :: rat where "CREDITS_PER_USD = 100"
definition MARKUP :: rat where "MARKUP = 5 / 4"
definition RECHARGE_THRESHOLD :: rat where "RECHARGE_THRESHOLD = 100"
definition MIN_TOPUP_USD :: rat where "MIN_TOPUP_USD = 25 / 2"
definition FREE_CAP_USD :: rat where "FREE_CAP_USD = 20"
definition MAX_RECHARGE_FAILS :: nat where "MAX_RECHARGE_FAILS = 3"
definition RETRY_INTERVAL_MS :: ms where "RETRY_INTERVAL_MS = 3 * 86400000"
definition CREDIT_DP :: rat where "CREDIT_DP = 1000000"

definition creditsForUsd :: "jsnum \<Rightarrow> int" where
  "creditsForUsd usd = js_round (or_zero usd / MARKUP * CREDITS_PER_USD)"

definition usdValueOfCredits :: "jsnum \<Rightarrow> rat" where
  "usdValueOfCredits credits = or_zero credits / CREDITS_PER_USD"

definition roundCredits :: "rat \<Rightarrow> rat" where
  "roundCredits n = of_int (js_round (n * CREDIT_DP)) / CREDIT_DP"

definition creditsForCostUsd :: "jsnum \<Rightarrow> rat" where
  "creditsForCostUsd usd =
     (let n = or_zero usd in if n \<le> 0 then 0 else roundCredits (n * CREDITS_PER_USD))"

section \<open>Tables\<close>

record credit_row =
  cr_balance :: rat
  cr_autorecharge :: bool
  cr_topupUsd :: rat
  cr_stripeCustomer :: "string option"
  cr_defaultPm :: "string option"
  cr_rechargeFails :: nat
  cr_nextRetryAt :: "ms option"
  cr_pendingPromo :: int
  cr_topOffOptOut :: bool
  cr_createdAt :: ms
  cr_updatedAt :: ms

datatype reason =
  TopUpUsd rat | TopUpSession string | WelcomeBonus | TurnCost rat | AutoRecharge
| CodeGrant string | AdminAdjust | Reason string

record ledger_row =
  lg_email :: string
  lg_delta :: rat
  lg_reason :: reason
  lg_balanceAfter :: rat
  lg_ts :: ms

datatype code_type = Invite | Free
datatype code_status = Unused | Redeemed | Revoked

record code_row =
  cd_type :: code_type
  cd_status :: code_status
  cd_capUsd :: "rat option"
  cd_credits :: int
  cd_note :: string
  cd_createdAt :: ms
  cd_redeemedBy :: "string option"
  cd_redeemedAt :: "ms option"

record paid_row =
  pd_email :: string
  pd_credits :: int
  pd_ts :: ms

text \<open>\<open>bl_ledger\<close> is in \<open>id\<close> order, oldest first.\<close>

record billing =
  bl_credits :: "(string \<times> credit_row) list"
  bl_ledger :: "ledger_row list"
  bl_codes :: "(string \<times> code_row) list"
  bl_paid :: "(string \<times> paid_row) list"

type_synonym money = "billing \<times> users option"

definition createBilling :: billing where
  "createBilling = \<lparr>bl_credits = [], bl_ledger = [], bl_codes = [], bl_paid = []\<rparr>"

definition new_credit_row :: "ms \<Rightarrow> credit_row" where
  "new_credit_row t =
     \<lparr>cr_balance = 0, cr_autorecharge = True, cr_topupUsd = MIN_TOPUP_USD, cr_stripeCustomer = None,
      cr_defaultPm = None, cr_rechargeFails = 0, cr_nextRetryAt = None, cr_pendingPromo = 0,
      cr_topOffOptOut = False, cr_createdAt = t, cr_updatedAt = t\<rparr>"

section \<open>The ledger\<close>

definition upd_credit :: "string \<Rightarrow> (credit_row \<Rightarrow> credit_row) \<Rightarrow> billing \<Rightarrow> billing" where
  "upd_credit key f b = b\<lparr>bl_credits := row_upd key f (bl_credits b)\<rparr>"

definition ensure_account :: "ms \<Rightarrow> string \<Rightarrow> billing \<Rightarrow> credit_row option \<times> billing" where
  "ensure_account t email b =
     (let e = lc email in
      if e = [] then (None, b)
      else case map_of (bl_credits b) e of
             Some row \<Rightarrow> (Some row, b)
           | None \<Rightarrow> (Some (new_credit_row t),
                       b\<lparr>bl_credits := AList.update e (new_credit_row t) (bl_credits b)\<rparr>))"

definition balance_of :: "ms \<Rightarrow> string \<Rightarrow> billing \<Rightarrow> rat \<times> billing" where
  "balance_of t email b =
     (let (row, b') = ensure_account t email b
      in (case row of None \<Rightarrow> 0 | Some r \<Rightarrow> cr_balance r, b'))"

definition apply_credits :: "ms \<Rightarrow> string \<Rightarrow> rat \<Rightarrow> reason \<Rightarrow> billing \<Rightarrow> rat option \<times> billing" where
  "apply_credits t email delta why b =
     (let e = lc email; (row, b1) = ensure_account t e b in
      case row of
        None \<Rightarrow> (None, b1)
      | Some r \<Rightarrow>
          let d = roundCredits delta;
              nxt = max 0 (roundCredits (cr_balance r + d));
              b2 = upd_credit e (\<lambda>r. r\<lparr>cr_balance := nxt, cr_updatedAt := t\<rparr>) b1;
              b3 = b2\<lparr>bl_ledger := bl_ledger b2 @
                       [\<lparr>lg_email = e, lg_delta = d, lg_reason = why, lg_balanceAfter = nxt,
                         lg_ts = t\<rparr>]\<rparr>
          in (Some nxt, b3))"

definition grantUsd :: "ms \<Rightarrow> string \<Rightarrow> rat \<Rightarrow> reason \<Rightarrow> billing \<Rightarrow> rat option \<times> billing" where
  "grantUsd t email usd why = apply_credits t email (of_int (creditsForUsd (Some usd))) why"

definition hasPaid :: "string \<Rightarrow> billing \<Rightarrow> bool" where
  "hasPaid email b = list_ex (\<lambda>(_, p). pd_email p = lc email) (bl_paid b)"

datatype grant_result =
  NoSession
| AlreadyGranted rat
| Granted int rat bool    \<comment> \<open>credited, balance, topOffOptOut\<close>

definition trunc_or_zero :: "jsnum \<Rightarrow> int" where
  "trunc_or_zero x = (case x of None \<Rightarrow> 0 | Some r \<Rightarrow> js_trunc r)"

definition set_recharge :: "string \<Rightarrow> bool \<Rightarrow> rat \<Rightarrow> bool \<Rightarrow> ms \<Rightarrow> billing \<Rightarrow> billing" where
  "set_recharge key on usd optout t =
     upd_credit key (\<lambda>r. r\<lparr>cr_autorecharge := on, cr_topupUsd := usd, cr_topOffOptOut := optout,
                            cr_updatedAt := t\<rparr>)"

definition set_pending :: "string \<Rightarrow> int \<Rightarrow> ms \<Rightarrow> billing \<Rightarrow> billing" where
  "set_pending key n t = upd_credit key (\<lambda>r. r\<lparr>cr_pendingPromo := n, cr_updatedAt := t\<rparr>)"

definition set_fails :: "string \<Rightarrow> nat \<Rightarrow> ms option \<Rightarrow> ms \<Rightarrow> billing \<Rightarrow> billing" where
  "set_fails key n next_at t =
     upd_credit key (\<lambda>r. r\<lparr>cr_rechargeFails := n, cr_nextRetryAt := next_at, cr_updatedAt := t\<rparr>)"

text \<open>\<open>None\<close>: the session row is written and reading the credit row of the empty e-mail throws.\<close>

definition grantSession ::
  "ms \<Rightarrow> string \<Rightarrow> string \<Rightarrow> jsnum \<Rightarrow> billing \<Rightarrow> grant_result option \<times> billing" where
  "grantSession t sid email credits b =
     (if sid = [] then (Some NoSession, b)
      else if map_of (bl_paid b) sid \<noteq> None
        then let (bal, b') = balance_of t email b in (Some (AlreadyGranted bal), b')
      else
        let c = trunc_or_zero credits;
            b1 = b\<lparr>bl_paid := AList.update sid \<lparr>pd_email = lc email, pd_credits = c, pd_ts = t\<rparr>
                               (bl_paid b)\<rparr>;
            (bal, b2) = apply_credits t email (of_int c) (TopUpSession sid) b1;
            (row, b3) = ensure_account t email b2
        in case (bal, row) of
             (Some bal1, Some r) \<Rightarrow>
               let (bal2, b4) =
                     (if cr_pendingPromo r > 0
                      then let (x, b') = apply_credits t email (of_int (cr_pendingPromo r)) WelcomeBonus b3
                           in (x, set_pending (lc email) 0 t b')
                      else (Some bal1, b3));
                   b5 = (if \<not> cr_topOffOptOut r
                         then set_recharge (lc email) True
                                (max MIN_TOPUP_USD (num_or (Some (cr_topupUsd r)) MIN_TOPUP_USD)) False t b4
                         else b4)
               in (map_option (\<lambda>x. Granted c x (cr_topOffOptOut r)) bal2, b5)
           | _ \<Rightarrow> (None, b3))"

record charge_turn_result =
  ct_balance :: rat
  ct_deducted :: rat
  ct_low :: bool

definition chargeTurn ::
  "ms \<Rightarrow> string \<Rightarrow> jsnum \<Rightarrow> billing \<Rightarrow> charge_turn_result option \<times> billing" where
  "chargeTurn t email costUsd b =
     (let deducted = creditsForCostUsd costUsd;
          (bal, b') = apply_credits t email (- deducted) (TurnCost (or_zero costUsd)) b
      in (map_option (\<lambda>x. \<lparr>ct_balance = x, ct_deducted = deducted, ct_low = (x \<le> RECHARGE_THRESHOLD)\<rparr>)
            bal, b'))"

definition canChat :: "ms \<Rightarrow> string \<Rightarrow> billing \<Rightarrow> bool \<times> billing" where
  "canChat t email b = (let (x, b') = balance_of t email b in (x > 0, b'))"

definition adminAdjust :: "ms \<Rightarrow> string \<Rightarrow> rat \<Rightarrow> billing \<Rightarrow> rat option \<times> billing" where
  "adminAdjust t email credits = apply_credits t email credits AdminAdjust"

definition ledger_for :: "string \<Rightarrow> nat \<Rightarrow> billing \<Rightarrow> ledger_row list" where
  "ledger_for email limit b = take limit (rev (filter (\<lambda>l. lg_email l = lc email) (bl_ledger b)))"

definition setStripe :: "ms \<Rightarrow> string \<Rightarrow> string \<Rightarrow> string \<Rightarrow> billing \<Rightarrow> billing" where
  "setStripe t email customer pm b =
     upd_credit (lc email) (\<lambda>r. r\<lparr>cr_stripeCustomer := or_null customer, cr_defaultPm := or_null pm,
                                  cr_updatedAt := t\<rparr>)
       (snd (ensure_account t email b))"

definition setAutorecharge :: "ms \<Rightarrow> string \<Rightarrow> bool \<Rightarrow> jsnum \<Rightarrow> billing \<Rightarrow> rat \<times> billing" where
  "setAutorecharge t email on topupUsd b =
     (let usd = max MIN_TOPUP_USD (num_or topupUsd MIN_TOPUP_USD)
      in (usd, set_recharge (lc email) on usd (\<not> on) t (snd (ensure_account t email b))))"

section \<open>Auto-recharge\<close>

record charge_req =
  rq_email :: string
  rq_usd :: rat
  rq_customer :: string
  rq_pm :: string

datatype charge_res = ChargeOk | ChargeFailed string

datatype recharge_result =
  RechargeThrows
| AutorechargeOff
| NoCharger
| NoPaymentMethod
| Backoff ms nat
| RechargeOk int
| RechargeFailed nat bool string   \<comment> \<open>fails, locked, error\<close>

definition set_user_status :: "ms \<Rightarrow> string \<Rightarrow> string \<Rightarrow> users option \<Rightarrow> users option" where
  "set_user_status t e status = map_option (setStatus t e status)"

text \<open>
  Everything up to the \<open>await charge(...)\<close>: either the answer is decided, or a request leaves with
  the row that was read.  \<open>clock\<close> is \<open>Date.now()\<close>, \<open>t\<close> the injected \<open>now()\<close>.
\<close>

definition autoRecharge_begin ::
  "ms \<Rightarrow> ms \<Rightarrow> bool \<Rightarrow> bool \<Rightarrow> string \<Rightarrow> money \<Rightarrow> (recharge_result + charge_req \<times> credit_row) \<times> money" where
  "autoRecharge_begin clock t has_charge force email m =
     (let e = lc email; (row, b) = ensure_account t e (fst m); us = snd m in
      case row of
        None \<Rightarrow> (Inl RechargeThrows, (b, us))
      | Some r \<Rightarrow>
          if \<not> cr_autorecharge r then (Inl AutorechargeOff, (b, us))
          else if \<not> has_charge then (Inl NoCharger, (b, us))
          else (case (cr_stripeCustomer r, cr_defaultPm r) of
                  (Some cust, Some pm) \<Rightarrow>
                    (case (if force then None else cr_nextRetryAt r) of
                       Some due \<Rightarrow>
                         if due > clock then (Inl (Backoff due (cr_rechargeFails r)), (b, us))
                         else (Inr (\<lparr>rq_email = e, rq_usd = cr_topupUsd r, rq_customer = cust,
                                     rq_pm = pm\<rparr>, r), (b, us))
                     | None \<Rightarrow> (Inr (\<lparr>rq_email = e, rq_usd = cr_topupUsd r, rq_customer = cust,
                                     rq_pm = pm\<rparr>, r), (b, us)))
                | _ \<Rightarrow> (Inl NoPaymentMethod, (b, set_user_status t e ''locked'' us))))"

text \<open>What happens with the processor's answer.\<close>

definition autoRecharge_finish ::
  "ms \<Rightarrow> ms \<Rightarrow> string \<Rightarrow> credit_row \<Rightarrow> charge_res \<Rightarrow> money \<Rightarrow> recharge_result \<times> money" where
  "autoRecharge_finish clock t e r res m =
     (case res of
        ChargeOk \<Rightarrow>
          let b1 = snd (grantUsd t e (cr_topupUsd r) AutoRecharge (fst m));
              b2 = set_fails e 0 None t b1
          in (RechargeOk (creditsForUsd (Some (cr_topupUsd r))),
              (b2, set_user_status t e ''active'' (snd m)))
      | ChargeFailed err \<Rightarrow>
          let fails = Suc (cr_rechargeFails r);
              locked = (fails \<ge> MAX_RECHARGE_FAILS);
              b1 = set_fails e fails (if locked then None else Some (clock + RETRY_INTERVAL_MS)) t (fst m)
          in (RechargeFailed fails locked err,
              (b1, if locked then set_user_status t e ''locked'' (snd m) else snd m)))"

definition autoRecharge ::
  "ms \<Rightarrow> ms \<Rightarrow> (charge_req \<Rightarrow> charge_res) option \<Rightarrow> bool \<Rightarrow> string \<Rightarrow> money \<Rightarrow> recharge_result \<times> money" where
  "autoRecharge clock t charge force email m =
     (case autoRecharge_begin clock t (charge \<noteq> None) force email m of
        (Inl res, m') \<Rightarrow> (res, m')
      | (Inr (req, r), m') \<Rightarrow>
          (case charge of
             None \<Rightarrow> (NoCharger, m')
           | Some f \<Rightarrow> autoRecharge_finish clock t (rq_email req) r (f req) m'))"

definition due_for_retry :: "ms \<Rightarrow> jsnum \<Rightarrow> billing \<Rightarrow> string list" where
  "due_for_retry asof limit b =
     take (nat \<lfloor>max 1 (min 200 (num_or limit 25))\<rfloor>)
       (map fst (sort_key (\<lambda>(_, r). case cr_nextRetryAt r of None \<Rightarrow> 0 | Some d \<Rightarrow> d)
          (rows_where (\<lambda>_ r. cr_autorecharge r
              \<and> (case cr_nextRetryAt r of None \<Rightarrow> False | Some d \<Rightarrow> d \<le> asof)
              \<and> cr_rechargeFails r > 0 \<and> cr_rechargeFails r < MAX_RECHARGE_FAILS
              \<and> cr_defaultPm r \<noteq> None) (bl_credits b))))"

record sweep_counts =
  sw_due :: nat
  sw_ok :: nat
  sw_failed :: nat
  sw_locked :: nat

definition is_locked_result :: "recharge_result \<Rightarrow> bool" where
  "is_locked_result r = (case r of NoPaymentMethod \<Rightarrow> True | RechargeFailed _ l _ \<Rightarrow> l | _ \<Rightarrow> False)"

definition count_result :: "recharge_result \<Rightarrow> sweep_counts \<Rightarrow> sweep_counts" where
  "count_result r c =
     (case r of
        RechargeOk _ \<Rightarrow> c\<lparr>sw_ok := Suc (sw_ok c)\<rparr>
      | _ \<Rightarrow> c\<lparr>sw_failed := Suc (sw_failed c),
               sw_locked := (if is_locked_result r then Suc (sw_locked c) else sw_locked c)\<rparr>)"

fun sweep_loop ::
  "ms \<Rightarrow> ms \<Rightarrow> (charge_req \<Rightarrow> charge_res) option \<Rightarrow> string list \<Rightarrow> sweep_counts \<Rightarrow> money \<Rightarrow> sweep_counts \<times> money" where
  "sweep_loop clock t charge [] c m = (c, m)"
| "sweep_loop clock t charge (e # es) c m =
     (let (r, m') = autoRecharge clock t charge True e m
      in sweep_loop clock t charge es (count_result r c) m')"

definition retryDueRecharges ::
  "ms \<Rightarrow> ms \<Rightarrow> (charge_req \<Rightarrow> charge_res) option \<Rightarrow> ms \<Rightarrow> jsnum \<Rightarrow> money \<Rightarrow> sweep_counts \<times> money" where
  "retryDueRecharges clock t charge asof limit m =
     (let due = due_for_retry asof limit (fst m)
      in sweep_loop clock t charge due
           \<lparr>sw_due = length due, sw_ok = 0, sw_failed = 0, sw_locked = 0\<rparr> m)"

section \<open>Codes\<close>

definition code_alphabet :: string where
  "code_alphabet = ''ABCDEFGHJKMNPQRSTUVWXYZ23456789''"

definition genCode :: "nat list \<Rightarrow> string" where
  "genCode bytes =
     (let s = map (\<lambda>b. code_alphabet ! (b mod length code_alphabet)) (take 8 bytes)
      in ''DOMI-'' @ take 4 s @ ''-'' @ drop 4 s)"

text \<open>The collision loop: \<open>draw i\<close> is the \<open>i\<close>-th draw of eight random bytes, \<open>n\<close> retries are left.\<close>

fun pick_code :: "billing \<Rightarrow> (nat \<Rightarrow> nat list) \<Rightarrow> nat \<Rightarrow> nat \<Rightarrow> string" where
  "pick_code b draw 0 i = genCode (draw i)"
| "pick_code b draw (Suc n) i =
     (if map_of (bl_codes b) (genCode (draw i)) \<noteq> None then pick_code b draw n (Suc i)
      else genCode (draw i))"

definition mintCode ::
  "ms \<Rightarrow> (nat \<Rightarrow> nat list) \<Rightarrow> string \<Rightarrow> jsnum \<Rightarrow> rat \<Rightarrow> string \<Rightarrow> billing
    \<Rightarrow> (string \<times> code_row) option \<times> billing" where
  "mintCode t draw typ capUsd credits note b =
     (let ty = (if typ = ''free'' then Free else Invite);
          code = pick_code b draw 5 0;
          row = \<lparr>cd_type = ty, cd_status = Unused,
                 cd_capUsd = (if ty = Free then Some (num_or capUsd FREE_CAP_USD) else None),
                 cd_credits = max 0 (js_trunc credits), cd_note = note, cd_createdAt = t,
                 cd_redeemedBy = None, cd_redeemedAt = None\<rparr>
      in if map_of (bl_codes b) code \<noteq> None then (None, b)
         else (Some (code, row), b\<lparr>bl_codes := AList.update code row (bl_codes b)\<rparr>))"

datatype redeem_result =
  NoEmail | InvalidCode | CodeUsed | CodeRevoked
| RedeemOk code_type int int   \<comment> \<open>type, credits, held as welcome bonus\<close>

definition upd_code :: "string \<Rightarrow> (code_row \<Rightarrow> code_row) \<Rightarrow> billing \<Rightarrow> billing" where
  "upd_code key f b = b\<lparr>bl_codes := row_upd key f (bl_codes b)\<rparr>"

definition redeem_users ::
  "(string \<Rightarrow> string) \<Rightarrow> ms \<Rightarrow> code_row \<Rightarrow> string \<Rightarrow> users \<Rightarrow> users" where
  "redeem_users uid_for t row e us =
     (let us1 = snd (ensure_user uid_for t e [] us);
          us2 = (case cd_type row of
                   Free \<Rightarrow>
                     let us' = snd (setRole t e ''sponsored'' us1)
                     in (case cd_capUsd row of
                           Some c \<Rightarrow> if c \<noteq> 0 then setSponsoredCap t e (Some c) us' else us'
                         | None \<Rightarrow> us')
                 | Invite \<Rightarrow> snd (setRole t e ''credit'' us1));
          us3 = setStatus t e ''active'' us2
      in markInvited t e us3)"

definition redeem ::
  "(string \<Rightarrow> string) \<Rightarrow> ms \<Rightarrow> string \<Rightarrow> string \<Rightarrow> money \<Rightarrow> redeem_result \<times> money" where
  "redeem uid_for t code email m =
     (let e = lc email; b = fst m; us = snd m; key = uppercase (js_trim code) in
      if e = [] then (NoEmail, m)
      else case map_of (bl_codes b) key of
        None \<Rightarrow> (InvalidCode, m)
      | Some row \<Rightarrow>
          if cd_status row \<noteq> Unused
          then (if cd_status row = Redeemed then CodeUsed else CodeRevoked, m)
          else
            let b1 = upd_code key (\<lambda>r. r\<lparr>cd_status := Redeemed, cd_redeemedBy := Some e,
                                          cd_redeemedAt := Some t\<rparr>) b;
                us1 = map_option (redeem_users uid_for t row e) us;
                b2 = (if cd_credits row > 0 \<and> cd_type row \<noteq> Free then
                        (case ensure_account t e b1 of
                           (Some r, b') \<Rightarrow> set_pending e (cr_pendingPromo r + cd_credits row) t b'
                         | (None, b') \<Rightarrow> b')
                      else if cd_credits row > 0 then
                        snd (apply_credits t e (of_int (cd_credits row)) (CodeGrant key) b1)
                      else b1)
            in (RedeemOk (cd_type row) (cd_credits row) (if cd_type row \<noteq> Free then cd_credits row else 0),
                (b2, us1)))"

definition revokeCode :: "string \<Rightarrow> billing \<Rightarrow> billing" where
  "revokeCode code =
     upd_code (uppercase code) (\<lambda>r. if cd_status r = Unused then r\<lparr>cd_status := Revoked\<rparr> else r)"

definition getCode :: "string \<Rightarrow> billing \<Rightarrow> code_row option" where
  "getCode code b = map_of (bl_codes b) (uppercase code)"

definition listCodes :: "nat \<Rightarrow> billing \<Rightarrow> (string \<times> code_row) list" where
  "listCodes limit b = take limit (sort_key (\<lambda>(_, r). - cd_createdAt r) (bl_codes b))"

record account_view =
  av_balance :: rat
  av_usdValue :: rat
  av_autorecharge :: bool
  av_topupUsd :: rat
  av_hasCard :: bool
  av_rechargeFails :: nat
  av_pendingPromo :: int
  av_hasPaid :: bool
  av_topOffOptOut :: bool

definition account_of :: "ms \<Rightarrow> string \<Rightarrow> billing \<Rightarrow> account_view option \<times> billing" where
  "account_of t email b =
     (let (row, b') = ensure_account t email b
      in (map_option (\<lambda>r. \<lparr>av_balance = cr_balance r, av_usdValue = usdValueOfCredits (Some (cr_balance r)),
            av_autorecharge = cr_autorecharge r, av_topupUsd = cr_topupUsd r,
            av_hasCard = (cr_defaultPm r \<noteq> None), av_rechargeFails = cr_rechargeFails r,
            av_pendingPromo = cr_pendingPromo r, av_hasPaid = hasPaid email b',
            av_topOffOptOut = cr_topOffOptOut r\<rparr>) row, b'))"

end
