(* ===== verification/Billing_Facts.thy ===== *)
theory Billing_Facts
  imports Billing
begin

text \<open>
  What the money engine keeps true.  \<open>money_op\<close> lists every operation of the module with its
  arguments; \<open>run_money\<close> performs a sequence of them in any order (an answer of the card processor
  is an operation of its own, \<open>OpFinish\<close>, so it may arrive after any others).  The locale
  \<open>money_invariant\<close> reduces "every operation keeps \<open>I\<close>" to the primitive writes; it is interpreted
  for the ledger, for paid sessions, for spent codes and for the top-off opt-out.
\<close>

datatype money_op =
  OpAdjust ms string rat
| OpGrantUsd ms string rat reason
| OpSession ms string string jsnum
| OpCharge ms string jsnum
| OpStripe ms string string string
| OpAuto ms string bool jsnum
| OpRecharge ms ms "(charge_req \<Rightarrow> charge_res) option" bool string
| OpFinish ms ms string credit_row charge_res
| OpSweep ms ms "(charge_req \<Rightarrow> charge_res) option" ms jsnum
| OpMint ms "nat \<Rightarrow> nat list" string jsnum rat string
| OpRedeem ms string string
| OpRevoke string
| OpRead ms string

fun exec_money :: "(string \<Rightarrow> string) \<Rightarrow> money_op \<Rightarrow> money \<Rightarrow> money" where
  "exec_money uf (OpAdjust t e d) m = (snd (adminAdjust t e d (fst m)), snd m)"
| "exec_money uf (OpGrantUsd t e d w) m = (snd (grantUsd t e d w (fst m)), snd m)"
| "exec_money uf (OpSession t s e c) m = (snd (grantSession t s e c (fst m)), snd m)"
| "exec_money uf (OpCharge t e d) m = (snd (chargeTurn t e d (fst m)), snd m)"
| "exec_money uf (OpStripe t e c p) m = (setStripe t e c p (fst m), snd m)"
| "exec_money uf (OpAuto t e on u) m = (snd (setAutorecharge t e on u (fst m)), snd m)"
| "exec_money uf (OpRecharge c t f force e) m = snd (autoRecharge c t f force e m)"
| "exec_money uf (OpFinish c t e r res) m = snd (autoRecharge_finish c t e r res m)"
| "exec_money uf (OpSweep c t f a l) m = snd (retryDueRecharges c t f a l m)"
| "exec_money uf (OpMint t d ty cap cr n) m = (snd (mintCode t d ty cap cr n (fst m)), snd m)"
| "exec_money uf (OpRedeem t c e) m = snd (redeem uf t c e m)"
| "exec_money uf (OpRevoke c) m = (revokeCode c (fst m), snd m)"
| "exec_money uf (OpRead t e) m = (snd (account_of t e (fst m)), snd m)"

fun run_money :: "(string \<Rightarrow> string) \<Rightarrow> money_op list \<Rightarrow> money \<Rightarrow> money" where
  "run_money uf [] m = m"
| "run_money uf (op # ops) m = run_money uf ops (exec_money uf op m)"

section \<open>Primitive writes\<close>

lemma upd_credit_sel [simp]:
  "bl_ledger (upd_credit k f b) = bl_ledger b" "bl_codes (upd_credit k f b) = bl_codes b"
  "bl_paid (upd_credit k f b) = bl_paid b"
  by (simp_all add: upd_credit_def)

lemma upd_code_sel [simp]:
  "bl_ledger (upd_code k f b) = bl_ledger b" "bl_credits (upd_code k f b) = bl_credits b"
  "bl_paid (upd_code k f b) = bl_paid b"
  by (simp_all add: upd_code_def)

lemma get_upd_credit [row_simps]:
  "map_of (bl_credits (upd_credit k f b)) k'
     = (if k' = k then map_option f (map_of (bl_credits b) k) else map_of (bl_credits b) k')"
  by (simp add: upd_credit_def row_simps)

lemma get_upd_code [row_simps]:
  "map_of (bl_codes (upd_code k f b)) k'
     = (if k' = k then map_option f (map_of (bl_codes b) k) else map_of (bl_codes b) k')"
  by (simp add: upd_code_def row_simps)

lemma ensure_account_sel [simp]:
  "bl_ledger (snd (ensure_account t e b)) = bl_ledger b"
  "bl_codes (snd (ensure_account t e b)) = bl_codes b"
  "bl_paid (snd (ensure_account t e b)) = bl_paid b"
  by (auto simp: ensure_account_def Let_def split: option.splits)

lemma ensure_account_get:
  "map_of (bl_credits (snd (ensure_account t e b))) k
     = (if k = lc e \<and> k \<noteq> [] \<and> map_of (bl_credits b) k = None then Some (new_credit_row t)
        else map_of (bl_credits b) k)"
  by (auto simp: ensure_account_def Let_def row_simps split: option.splits)

lemma ensure_account_fst:
  "fst (ensure_account t e b) = (if lc e = [] then None
     else Some (case map_of (bl_credits b) (lc e) of None \<Rightarrow> new_credit_row t | Some r \<Rightarrow> r))"
  by (auto simp: ensure_account_def Let_def split: option.splits)

lemma ensure_account_known:
  "lc e \<noteq> [] \<Longrightarrow> map_of (bl_credits b) (lc e) = Some r \<Longrightarrow> ensure_account t e b = (Some r, b)"
  by (simp add: ensure_account_def Let_def)

lemma apply_credits_sel [simp]:
  "bl_codes (snd (apply_credits t e d w b)) = bl_codes b"
  "bl_paid (snd (apply_credits t e d w b)) = bl_paid b"
  by (simp_all add: apply_credits_def Let_def case_prod_beta split: option.splits)

text \<open>Exact form of a successful application, given the row it reads.\<close>

lemma apply_credits_Some:
  assumes "lc e \<noteq> []" and "map_of (bl_credits b) (lc e) = Some r"
  shows "apply_credits t e d w b =
    (Some (max 0 (roundCredits (cr_balance r + roundCredits d))),
     (upd_credit (lc e)
        (\<lambda>r'. r'\<lparr>cr_balance := max 0 (roundCredits (cr_balance r + roundCredits d)), cr_updatedAt := t\<rparr>) b)
       \<lparr>bl_ledger := bl_ledger b @
          [\<lparr>lg_email = lc e, lg_delta = roundCredits d, lg_reason = w,
            lg_balanceAfter = max 0 (roundCredits (cr_balance r + roundCredits d)), lg_ts = t\<rparr>]\<rparr>)"
  using assms ensure_account_known [of "lc e" b r t] by (simp add: apply_credits_def Let_def)

lemma apply_credits_ensure:
  "apply_credits t e d w b = apply_credits t e d w (snd (ensure_account t e b))"
proof (cases "lc e = []")
  case True
  then show ?thesis by (simp add: apply_credits_def ensure_account_def Let_def)
next
  case False
  show ?thesis
  proof (cases "map_of (bl_credits b) (lc e)")
    case None
    with False show ?thesis
      by (simp add: apply_credits_def ensure_account_def Let_def row_simps)
  next
    case (Some r)
    with False show ?thesis by (simp add: ensure_account_def Let_def)
  qed
qed

lemma apply_credits_row:
  "map_of (bl_credits (snd (apply_credits t e d w b))) k
     = map_option (\<lambda>r. if k = lc e \<and> k \<noteq> [] then
           r\<lparr>cr_balance := max 0 (roundCredits (cr_balance r + roundCredits d)), cr_updatedAt := t\<rparr>
         else r) (map_of (bl_credits (snd (ensure_account t e b))) k)"
proof (cases "lc e = []")
  case True
  then show ?thesis
    by (simp add: apply_credits_def ensure_account_def Let_def option.map_ident)
next
  case False
  define b' where "b' = snd (ensure_account t e b)"
  obtain r where r: "map_of (bl_credits b') (lc e) = Some r"
    unfolding b'_def using False
    by (cases "map_of (bl_credits b) (lc e)") (auto simp: ensure_account_get)
  have "map_of (bl_credits (snd (apply_credits t e d w b'))) k
     = map_option (\<lambda>r. if k = lc e \<and> k \<noteq> [] then
           r\<lparr>cr_balance := max 0 (roundCredits (cr_balance r + roundCredits d)), cr_updatedAt := t\<rparr>
         else r) (map_of (bl_credits b') k)"
    using False r by (simp add: apply_credits_Some [OF False r] row_simps upd_credit_def option.map_ident)
  then show ?thesis using apply_credits_ensure [of t e d w b] by (simp add: b'_def)
qed

lemma apply_credits_Nil: "lc e = [] \<Longrightarrow> apply_credits t e d w b = (None, b)"
  by (simp add: apply_credits_def ensure_account_def Let_def)

text \<open>So an operation on the credit rows keeps a property when \<open>ensure\<close> and the exact write do.\<close>

lemma apply_credits_keeps:
  assumes ens: "I (snd (ensure_account t e b))" and nil: "I b"
    and wr: "\<And>r b'. b' = snd (ensure_account t e b) \<Longrightarrow> lc e \<noteq> [] \<Longrightarrow> map_of (bl_credits b') (lc e) = Some r
        \<Longrightarrow> I b' \<Longrightarrow> I (snd (apply_credits t e d w b'))"
  shows "I (snd (apply_credits t e d w b))"
proof (cases "lc e = []")
  case True
  then show ?thesis using nil by (simp add: apply_credits_Nil)
next
  case False
  then obtain r where "map_of (bl_credits (snd (ensure_account t e b))) (lc e) = Some r"
    by (cases "map_of (bl_credits b) (lc e)") (auto simp: ensure_account_get)
  with False ens wr show ?thesis by (metis apply_credits_ensure)
qed

section \<open>The invariant locale\<close>

locale money_invariant =
  fixes I :: "billing \<Rightarrow> bool" and allowed :: "money_op \<Rightarrow> bool"
  assumes I_ensure: "I b \<Longrightarrow> I (snd (ensure_account t e b))"
    and I_apply: "I b \<Longrightarrow> I (snd (apply_credits t e d w b))"
    and I_fails: "I b \<Longrightarrow> I (set_fails k n nx t b)"
    and I_pending: "I b \<Longrightarrow> I (set_pending k n' t b)"
    and I_stripe: "I b \<Longrightarrow> I (setStripe t e c p b)"
    and I_session: "I b \<Longrightarrow> I (snd (grantSession t s e cr b))"
    and I_auto: "I b \<Longrightarrow> allowed (OpAuto t e on u) \<Longrightarrow> I (snd (setAutorecharge t e on u b))"
    and I_mint: "I b \<Longrightarrow> map_of (bl_codes b) k = None \<Longrightarrow> I (b\<lparr>bl_codes := AList.update k row (bl_codes b)\<rparr>)"
    and I_redeem: "I b \<Longrightarrow>
          I (upd_code k (\<lambda>r. r\<lparr>cd_status := Redeemed, cd_redeemedBy := who, cd_redeemedAt := tm\<rparr>) b)"
    and I_revoke: "I b \<Longrightarrow> I (revokeCode c b)"
begin

lemma I_recharge_begin: "I (fst m) \<Longrightarrow> I (fst (snd (autoRecharge_begin c t h force e m)))"
  using I_ensure [of "fst m" t "lc e"]
  by (auto simp: autoRecharge_begin_def Let_def split: prod.splits option.splits)

lemma I_recharge_finish: "I (fst m) \<Longrightarrow> I (fst (snd (autoRecharge_finish c t e r res m)))"
  by (auto simp: autoRecharge_finish_def grantUsd_def Let_def split: charge_res.splits
      intro!: I_fails I_apply)

lemma I_recharge: "I (fst m) \<Longrightarrow> I (fst (snd (autoRecharge c t f force e m)))"
  using I_recharge_begin [of m c t "f \<noteq> None" force e]
  by (auto simp: autoRecharge_def I_recharge_finish split: prod.splits sum.splits option.splits)

lemma I_sweep_loop: "I (fst m) \<Longrightarrow> I (fst (snd (sweep_loop c t f es n m)))"
proof (induction es arbitrary: n m)
  case Nil
  then show ?case by simp
next
  case (Cons e es)
  have "I (fst (snd (autoRecharge c t f True e m)))" using Cons.prems by (rule I_recharge)
  then show ?case by (auto simp: Cons.IH split: prod.splits)
qed

lemma I_redeem_op: "I (fst m) \<Longrightarrow> I (fst (snd (redeem uf t c e m)))"
proof -
  assume I: "I (fst m)"
  let ?k = "uppercase (js_trim c)"
  define b1 where "b1 = upd_code ?k (\<lambda>r. r\<lparr>cd_status := Redeemed, cd_redeemedBy := Some (lc e),
                                          cd_redeemedAt := Some t\<rparr>) (fst m)"
  have b1: "I b1" unfolding b1_def by (rule I_redeem [OF I])
  have "I (snd (ensure_account t (lc e) b1))" using b1 by (rule I_ensure)
  then have "I (case ensure_account t (lc e) b1 of
      (Some r, b') \<Rightarrow> set_pending (lc e) (cr_pendingPromo r + n) t b' | (None, b') \<Rightarrow> b')" for n
    by (auto split: prod.splits option.splits intro: I_pending)
  moreover have "I (snd (apply_credits t (lc e) d w b1))" for d w using b1 by (rule I_apply)
  ultimately show ?thesis
    using I b1 by (auto simp: redeem_def Let_def b1_def split: option.splits)
qed

lemma I_exec: "I (fst m) \<Longrightarrow> allowed op \<Longrightarrow> I (fst (exec_money uf op m))"
proof (cases op)
  case (OpMint t d ty cap cr n)
  then show "I (fst m) \<Longrightarrow> ?thesis" by (auto simp: mintCode_def Let_def intro!: I_mint)
next
  case (OpRead t e)
  then show "I (fst m) \<Longrightarrow> ?thesis"
    using I_ensure [of "fst m" t e] by (auto simp: account_of_def Let_def split: prod.splits)
next
  case (OpCharge t e d)
  then show "I (fst m) \<Longrightarrow> ?thesis"
    using I_apply [of "fst m" t e] by (auto simp: chargeTurn_def Let_def split: prod.splits) (metis snd_conv)
qed (auto simp: adminAdjust_def grantUsd_def retryDueRecharges_def Let_def
      intro: I_apply I_session I_stripe I_auto I_recharge I_recharge_finish I_sweep_loop I_redeem_op I_revoke)

lemma I_run: "I (fst m) \<Longrightarrow> \<forall>op\<in>set ops. allowed op \<Longrightarrow> I (fst (run_money uf ops m))"
proof (induction ops arbitrary: m)
  case Nil
  then show ?case by simp
next
  case (Cons op ops)
  then have "I (fst (exec_money uf op m))" by (auto intro: I_exec)
  with Cons show ?case by simp
qed

end

section \<open>The ledger\<close>

definition last_after :: "string \<Rightarrow> ledger_row list \<Rightarrow> rat" where
  "last_after e l = foldl (\<lambda>x r. if lg_email r = e then lg_balanceAfter r else x) 0 l"

definition is_micro :: "rat \<Rightarrow> bool" where
  "is_micro x \<longleftrightarrow> (\<exists>k. x = of_int k / CREDIT_DP)"

definition ledger_inv :: "billing \<Rightarrow> bool" where
  "ledger_inv b \<longleftrightarrow> distinct (map fst (bl_credits b))
     \<and> (\<forall>e r. map_of (bl_credits b) e = Some r \<longrightarrow> cr_balance r = last_after e (bl_ledger b))
     \<and> (\<forall>e. 0 \<le> last_after e (bl_ledger b) \<and> is_micro (last_after e (bl_ledger b)))
     \<and> (\<forall>l\<in>set (bl_ledger b). map_of (bl_credits b) (lg_email l) \<noteq> None)"

lemma last_after_append [simp]:
  "last_after e (l @ [r]) = (if lg_email r = e then lg_balanceAfter r else last_after e l)"
  by (simp add: last_after_def)

lemma last_after_none: "\<forall>r\<in>set l. lg_email r \<noteq> e \<Longrightarrow> last_after e l = 0"
  by (induction l rule: rev_induct) (auto simp: last_after_def)

lemma is_micro_round [simp]: "is_micro (roundCredits x)"
  by (auto simp: is_micro_def roundCredits_def)

lemma is_micro_zero [simp]: "is_micro 0"
  unfolding is_micro_def by (rule exI [of _ 0]) simp

lemma is_micro_max [simp]: "is_micro x \<Longrightarrow> is_micro y \<Longrightarrow> is_micro (max x y)"
  by (simp add: max_def)

lemma round_micro: "is_micro x \<Longrightarrow> roundCredits x = x"
  by (auto simp: is_micro_def roundCredits_def CREDIT_DP_def)

lemma is_micro_add: "is_micro x \<Longrightarrow> is_micro y \<Longrightarrow> is_micro (x + y)"
  unfolding is_micro_def by (metis add_divide_distrib of_int_add)

lemma is_micro_minus: "is_micro x \<Longrightarrow> is_micro (- x)"
  unfolding is_micro_def by (metis minus_divide_left of_int_minus)

lemma is_micro_of_int [simp]: "is_micro (of_int n)"
  unfolding is_micro_def by (rule exI [of _ "n * 1000000"]) (simp add: CREDIT_DP_def)

lemma ledger_inv_upd:
  "ledger_inv b \<Longrightarrow> (\<And>r. cr_balance (f r) = cr_balance r) \<Longrightarrow> ledger_inv (upd_credit k f b)"
  by (auto simp: ledger_inv_def row_simps upd_credit_def simp del: map_of_eq_Some_iff split: if_splits)

lemma ledger_inv_other [simp]:
  "ledger_inv (b\<lparr>bl_paid := x\<rparr>) = ledger_inv b" "ledger_inv (b\<lparr>bl_codes := y\<rparr>) = ledger_inv b"
  "ledger_inv (upd_code k f b) = ledger_inv b"
  by (simp_all add: ledger_inv_def upd_code_def)

lemma ledger_inv_ensure: "ledger_inv b \<Longrightarrow> ledger_inv (snd (ensure_account t e b))"
proof (cases "lc e \<noteq> [] \<and> map_of (bl_credits b) (lc e) = None")
  case True
  assume inv: "ledger_inv b"
  with True have "last_after (lc e) (bl_ledger b) = 0"
    by (intro last_after_none) (auto simp: ledger_inv_def)
  with True inv show ?thesis
    by (auto simp: ledger_inv_def ensure_account_def Let_def new_credit_row_def row_simps
        distinct_keys_update simp del: map_of_eq_Some_iff split: if_splits)
next
  case False
  then show "ledger_inv b \<Longrightarrow> ?thesis"
    by (auto simp: ensure_account_def Let_def split: option.splits)
qed

lemma ledger_inv_apply: "ledger_inv b \<Longrightarrow> ledger_inv (snd (apply_credits t e d w b))"
proof (rule apply_credits_keeps [where I = ledger_inv])
  fix r b'
  assume "lc e \<noteq> []" and "map_of (bl_credits b') (lc e) = Some r" and "ledger_inv b'"
  then show "ledger_inv (snd (apply_credits t e d w b'))"
    by (auto simp: apply_credits_Some ledger_inv_def row_simps upd_credit_def
        simp del: map_of_eq_Some_iff split: if_splits)
qed (auto intro: ledger_inv_ensure)

text \<open>A paid session is a sequence of the primitive writes.\<close>

lemma grantSession_keeps:
  assumes I: "I b"
    and paid: "\<And>b row. I b \<Longrightarrow> map_of (bl_paid b) s = None \<Longrightarrow> I (b\<lparr>bl_paid := AList.update s row (bl_paid b)\<rparr>)"
    and ens: "\<And>b. I b \<Longrightarrow> I (snd (ensure_account t e b))"
    and app: "\<And>b d w. I b \<Longrightarrow> I (snd (apply_credits t e d w b))"
    and pend: "\<And>b n. I b \<Longrightarrow> I (set_pending (lc e) n t b)"
    and arm: "\<And>b u. I b \<Longrightarrow> (\<And>r. map_of (bl_credits b) (lc e) = Some r \<Longrightarrow> \<not> cr_topOffOptOut r)
        \<Longrightarrow> I (set_recharge (lc e) True u False t b)"
  shows "I (snd (grantSession t s e c b))"
proof (cases "s = [] \<or> map_of (bl_paid b) s \<noteq> None")
  case True
  then show ?thesis
    using I ens [of b] by (auto simp: grantSession_def balance_of_def Let_def split: prod.splits)
next
  case False
  define b1 where
    "b1 = b\<lparr>bl_paid := AList.update s \<lparr>pd_email = lc e, pd_credits = trunc_or_zero c, pd_ts = t\<rparr> (bl_paid b)\<rparr>"
  obtain bal b2 where b2: "apply_credits t e (of_int (trunc_or_zero c)) (TopUpSession s) b1 = (bal, b2)"
    by fastforce
  obtain row b3 where b3: "ensure_account t e b2 = (row, b3)" by fastforce
  have "I b1" unfolding b1_def using False I by (intro paid) auto
  then have "I b2" using app [of b1] b2 by (metis snd_conv)
  then have I3: "I b3" using ens [of b2] b3 by (metis snd_conv)
  have I4: "apply_credits t e d w b3 = (x, b') \<Longrightarrow> I b'" for d w x b'
    using app [OF I3] by (metis snd_conv)
  have row3: "map_of (bl_credits b3) (lc e) = row" if "row \<noteq> None"
    using that ensure_account_fst [of t e b2] ensure_account_get [of t e b2 "lc e"] b3
    by (auto split: if_splits option.splits)
  have row4: "\<not> cr_topOffOptOut r'"
    if "apply_credits t e d w b3 = (x, b')" "map_of (bl_credits b') (lc e) = Some r'"
       "row = Some r" "\<not> cr_topOffOptOut r" for d w x b' r' r
    using that row3 apply_credits_row [of t e d w b3 "lc e"]
    by (auto simp: ensure_account_get split: if_splits)
  show ?thesis
  proof (cases "\<exists>x r. bal = Some x \<and> row = Some r")
    case True
    then obtain x r where xr: "bal = Some x" "row = Some r" by blast
    obtain y b4 where b4: "apply_credits t e (of_int (cr_pendingPromo r)) WelcomeBonus b3 = (y, b4)"
      by fastforce
    have I4': "I (set_pending (lc e) 0 t b4)" by (rule pend) (rule I4 [OF b4])
    have "I (set_recharge (lc e) True u False t (set_pending (lc e) 0 t b4))"
      if "\<not> cr_topOffOptOut r" for u
      by (rule arm [OF I4']) (use row4 [OF b4 _ xr(2) that] in \<open>auto simp: set_pending_def row_simps\<close>)
    moreover have "I (set_recharge (lc e) True u False t b3)" if "\<not> cr_topOffOptOut r" for u
      by (rule arm [OF I3]) (use row3 xr that in auto)
    ultimately show ?thesis
      using False I3 I4' by (simp add: grantSession_def Let_def b1_def [symmetric] b2 b3 xr b4)
  next
    case none: False
    then show ?thesis
      using False I3
      by (auto simp: grantSession_def Let_def b1_def [symmetric] b2 b3 split: option.splits)
  qed
qed

lemma setStripe_eq:
  "setStripe t e c p b = upd_credit (lc e) (\<lambda>r. r\<lparr>cr_stripeCustomer := or_null c, cr_defaultPm := or_null p,
      cr_updatedAt := t\<rparr>) (snd (ensure_account t e b))"
  by (simp add: setStripe_def)

lemma ledger_inv_recharge: "ledger_inv b \<Longrightarrow> ledger_inv (set_recharge k on u o' t b)"
  unfolding set_recharge_def by (rule ledger_inv_upd) simp_all

lemma ledger_inv_pending: "ledger_inv b \<Longrightarrow> ledger_inv (set_pending k n t b)"
  unfolding set_pending_def by (rule ledger_inv_upd) simp_all

lemma ledger_inv_fails: "ledger_inv b \<Longrightarrow> ledger_inv (set_fails k n nx t b)"
  unfolding set_fails_def by (rule ledger_inv_upd) simp_all

interpretation ledger: money_invariant ledger_inv "\<lambda>_. True"
proof
  fix b t s e cr
  assume "ledger_inv b"
  then show "ledger_inv (snd (grantSession t s e cr b))"
    by (rule grantSession_keeps)
      (auto intro: ledger_inv_ensure ledger_inv_apply ledger_inv_pending ledger_inv_recharge)
next
  fix b t e c p
  assume "ledger_inv b"
  then show "ledger_inv (setStripe t e c p b)"
    unfolding setStripe_eq by (intro ledger_inv_upd ledger_inv_ensure) simp_all
qed (auto simp: setAutorecharge_def Let_def revokeCode_def
      intro: ledger_inv_ensure ledger_inv_apply ledger_inv_fails ledger_inv_pending ledger_inv_recharge)

lemma ledger_inv_init: "ledger_inv createBilling"
  by (simp add: ledger_inv_def createBilling_def last_after_def)

end
