(* ===== verification/Billing_Props.thy ===== *)
theory Billing_Props
  imports Billing_Facts
begin

text \<open>
  The properties of the money engine: what every sequence of its operations keeps (interpretations
  of \<open>money_invariant\<close>), and what the single operations compute.
\<close>

section \<open>Paid sessions, spent codes, the opt-out\<close>

interpretation paid: money_invariant "\<lambda>b :: billing. map_of (bl_paid b) sid \<noteq> None" "\<lambda>_. True" for sid
proof
  fix b :: billing and t s e cr
  assume "map_of (bl_paid b) sid \<noteq> None"
  then show "map_of (bl_paid (snd (grantSession t s e cr b))) sid \<noteq> None"
    by (rule grantSession_keeps) (simp_all add: row_simps set_pending_def set_recharge_def)
qed (auto simp: set_fails_def set_pending_def set_recharge_def setStripe_eq setAutorecharge_def Let_def
    revokeCode_def)

definition code_spent :: "string \<Rightarrow> billing \<Rightarrow> bool" where
  "code_spent k b \<longleftrightarrow> (\<exists>r. map_of (bl_codes b) k = Some r \<and> cd_status r = Redeemed)"

lemma code_spent_upd:
  "code_spent k b \<Longrightarrow> (\<And>r. cd_status r = Redeemed \<Longrightarrow> cd_status (f r) = Redeemed)
    \<Longrightarrow> code_spent k (upd_code k' f b)"
  by (cases "k = k'") (auto simp: code_spent_def row_simps)

interpretation spent: money_invariant "code_spent k" "\<lambda>_. True" for k
proof
  fix b t s e cr
  assume "code_spent k b"
  then show "code_spent k (snd (grantSession t s e cr b))"
    by (rule grantSession_keeps) (simp_all add: code_spent_def set_pending_def set_recharge_def)
next
  fix b k' row
  assume "code_spent k b" and "map_of (bl_codes b) k' = None"
  then show "code_spent k (b\<lparr>bl_codes := AList.update k' row (bl_codes b)\<rparr>)"
    by (auto simp: code_spent_def row_simps)
next
  fix b k' who tm
  assume "code_spent k b"
  then show "code_spent k (upd_code k' (\<lambda>r. r\<lparr>cd_status := Redeemed, cd_redeemedBy := who,
      cd_redeemedAt := tm\<rparr>) b)"
    by (rule code_spent_upd) simp
next
  fix b c
  assume "code_spent k b"
  then show "code_spent k (revokeCode c b)"
    unfolding revokeCode_def by (rule code_spent_upd) simp
qed (auto simp: code_spent_def set_fails_def set_pending_def set_recharge_def setStripe_eq
    setAutorecharge_def Let_def)

definition opted_out :: "string \<Rightarrow> billing \<Rightarrow> bool" where
  "opted_out k b \<longleftrightarrow> k \<noteq> [] \<and>
     (\<exists>r. map_of (bl_credits b) k = Some r \<and> \<not> cr_autorecharge r \<and> cr_topOffOptOut r)"

definition turns_on :: "string \<Rightarrow> money_op \<Rightarrow> bool" where
  "turns_on k op = (case op of OpAuto t e on u \<Rightarrow> on \<and> lc e = k | _ \<Rightarrow> False)"

lemma opted_out_ensure: "opted_out k b \<Longrightarrow> opted_out k (snd (ensure_account t e b))"
  by (auto simp: opted_out_def ensure_account_get)

lemma opted_out_apply: "opted_out k b \<Longrightarrow> opted_out k (snd (apply_credits t e d w b))"
  by (cases "k = lc e") (auto simp: opted_out_def apply_credits_row ensure_account_get)

lemma opted_out_upd:
  "opted_out k b \<Longrightarrow> (\<And>r. k' = k \<Longrightarrow> \<not> cr_autorecharge r \<Longrightarrow> cr_topOffOptOut r \<Longrightarrow>
      \<not> cr_autorecharge (f r) \<and> cr_topOffOptOut (f r)) \<Longrightarrow> opted_out k (upd_credit k' f b)"
  by (cases "k = k'") (auto simp: opted_out_def row_simps)

interpretation optout: money_invariant "opted_out k" "\<lambda>op. \<not> turns_on k op" for k
proof
  fix b t s e cr
  assume "opted_out k b"
  then show "opted_out k (snd (grantSession t s e cr b))"
  proof (rule grantSession_keeps)
    fix b u
    assume "opted_out k b" and "\<And>r. map_of (bl_credits b) (lc e) = Some r \<Longrightarrow> \<not> cr_topOffOptOut r"
    then show "opted_out k (set_recharge (lc e) True u False t b)"
      unfolding set_recharge_def by (intro opted_out_upd) (auto simp: opted_out_def)
  next
    fix b n
    assume "opted_out k b"
    then show "opted_out k (set_pending (lc e) n t b)"
      unfolding set_pending_def by (rule opted_out_upd) simp
  next
    fix b row
    assume "opted_out k b"
    then show "opted_out k (b\<lparr>bl_paid := AList.update s row (bl_paid b)\<rparr>)"
      by (simp add: opted_out_def)
  qed (auto intro: opted_out_ensure opted_out_apply)
next
  fix b t e on u
  assume "opted_out k b" and "\<not> turns_on k (OpAuto t e on u)"
  then show "opted_out k (snd (setAutorecharge t e on u b))"
    unfolding setAutorecharge_def Let_def snd_conv set_recharge_def
    by (intro opted_out_upd opted_out_ensure) (auto simp: turns_on_def)
next
  fix b t e c p
  assume "opted_out k b"
  then show "opted_out k (setStripe t e c p b)"
    unfolding setStripe_eq by (intro opted_out_upd opted_out_ensure) auto
qed (auto simp: set_fails_def set_pending_def revokeCode_def
    intro: opted_out_ensure opted_out_apply opted_out_upd, auto simp: opted_out_def)

section \<open>Properties\<close>

text \<open>C1: after any sequence of operations from an empty database, the balance of every account is
  the balance recorded by its last ledger line (zero before the first), it is never negative, and
  it is a whole number of millionths of a credit.\<close>

theorem ledger_tracks_balance:
  assumes "map_of (bl_credits (fst (run_money uf ops (createBilling, us)))) e = Some r"
  shows "cr_balance r = last_after e (bl_ledger (fst (run_money uf ops (createBilling, us))))
    \<and> 0 \<le> cr_balance r \<and> is_micro (cr_balance r)"
proof -
  have "ledger_inv (fst (run_money uf ops (createBilling, us)))"
    by (rule ledger.I_run) (simp_all add: ledger_inv_init)
  with assms show ?thesis by (simp add: ledger_inv_def del: map_of_eq_Some_iff)
qed

lemma ledger_tracks_balance_witness:
  "\<exists>r. map_of (bl_credits (fst (run_money (\<lambda>e. e)
          [OpGrantUsd 0 ''a@x'' (25 / 2) AutoRecharge, OpCharge 1 ''a@x'' (Some (1 / 100))]
          (createBilling, None)))) ''a@x'' = Some r
     \<and> cr_balance r = 999 \<and> 0 \<le> cr_balance r"
proof -
  let ?ops = "[OpGrantUsd 0 ''a@x'' (25 / 2) AutoRecharge, OpCharge 1 ''a@x'' (Some (1 / 100))]"
  have "map_option cr_balance (map_of (bl_credits (fst (run_money (\<lambda>e. e) ?ops (createBilling, None))))
      ''a@x'') = Some 999"
    by code_simp
  then obtain r where r: "map_of (bl_credits (fst (run_money (\<lambda>e. e) ?ops (createBilling, None)))) ''a@x''
      = Some r" and "cr_balance r = 999" by blast
  then show ?thesis using ledger_tracks_balance [OF r] by blast
qed

text \<open>C2: a paid Checkout session grants its credits once.  After the grant, whatever operations
  follow and whoever presents the session again with whatever amount, the answer is "already", and
  neither the ledger nor any existing credit row changes.\<close>

theorem paid_session_grants_once:
  assumes "sid \<noteq> []"
    and "m = run_money uf ops (snd (grantSession t sid e c b), us)"
  shows "\<exists>bal. fst (grantSession t' sid e' c' (fst m)) = Some (AlreadyGranted bal)
    \<and> bl_ledger (snd (grantSession t' sid e' c' (fst m))) = bl_ledger (fst m)
    \<and> (\<forall>k r. map_of (bl_credits (fst m)) k = Some r \<longrightarrow>
         map_of (bl_credits (snd (grantSession t' sid e' c' (fst m)))) k = Some r)"
proof -
  have "map_of (bl_paid (snd (grantSession t sid e c b))) sid \<noteq> None"
  proof (cases "map_of (bl_paid b) sid")
    case (Some p)
    then have "map_of (bl_paid b) sid \<noteq> None" by simp
    then show ?thesis by (rule paid.I_session)
  next
    case None
    let ?b1 = "b\<lparr>bl_paid := AList.update sid \<lparr>pd_email = lc e, pd_credits = trunc_or_zero c, pd_ts = t\<rparr>
      (bl_paid b)\<rparr>"
    have "bl_paid (snd (grantSession t sid e c b)) = bl_paid ?b1"
      using None assms(1)
        apply_credits_sel(2) [of t e "of_int (trunc_or_zero c)" "TopUpSession sid" ?b1]
        ensure_account_sel(3) [of t e "snd (apply_credits t e (of_int (trunc_or_zero c)) (TopUpSession sid) ?b1)"]
      by (auto simp: grantSession_def Let_def set_pending_def set_recharge_def case_prod_beta
          split: option.splits)
    then show ?thesis by (simp add: row_simps)
  qed
  then have "map_of (bl_paid (fst m)) sid \<noteq> None"
    unfolding assms(2) by (intro paid.I_run) auto
  with assms(1) show ?thesis
    by (auto simp: grantSession_def balance_of_def Let_def case_prod_beta ensure_account_get)
qed

lemma paid_session_grants_once_witness:
  "\<exists>bal. fst (grantSession 5 ''cs_1'' ''mallory@x'' (Some 9000)
       (snd (grantSession 0 ''cs_1'' ''a@x'' (Some 1000) createBilling))) = Some (AlreadyGranted bal)"
proof -
  have h: "''cs_1'' \<noteq> []" by simp
  show ?thesis
    using paid_session_grants_once [OF h, of _ "\<lambda>e. e" "[]" 0 "''a@x''" "Some 1000" createBilling None 5
        "''mallory@x''" "Some 9000"] by auto
qed

text \<open>a deliberate switch-off of auto top-off sticks.  After it, no sequence of purchases, charges,
  redemptions, sweeps or late answers of the card processor that contains no switch-on for the same
  account leaves auto top-off armed, and an auto-recharge attempt answers "off" without a charge.\<close>

theorem top_off_opt_out_sticks:
  assumes "lc e \<noteq> []"
    and "\<forall>op\<in>set ops. \<not> turns_on (lc e) op"
    and "m = run_money uf ops (snd (setAutorecharge t e False u b), us)"
  shows "\<exists>r. map_of (bl_credits (fst m)) (lc e) = Some r \<and> \<not> cr_autorecharge r \<and> cr_topOffOptOut r
    \<and> fst (autoRecharge c t' f force e m) = AutorechargeOff"
proof -
  have "opted_out (lc e) (snd (setAutorecharge t e False u b))"
    using assms(1) by (cases "map_of (bl_credits b) (lc e)")
      (auto simp: opted_out_def setAutorecharge_def set_recharge_def row_simps ensure_account_get Let_def)
  with assms(2,3) have "opted_out (lc e) (fst m)"
    unfolding assms(3) by (intro optout.I_run) auto
  then obtain r where r: "map_of (bl_credits (fst m)) (lc e) = Some r" "\<not> cr_autorecharge r"
      "cr_topOffOptOut r" by (auto simp: opted_out_def)
  moreover have "ensure_account t' (lc e) (fst m) = (Some r, fst m)"
    using assms(1) r by (intro ensure_account_known) auto
  ultimately show ?thesis
    by (auto simp: autoRecharge_def autoRecharge_begin_def Let_def)
qed

lemma top_off_opt_out_sticks_witness:
  "\<exists>r. map_of (bl_credits (fst (run_money (\<lambda>e. e) [OpSession 1 ''cs_9'' ''a@x'' (Some 1000)]
      (snd (setAutorecharge 0 ''a@x'' False None createBilling), None)))) (lc ''a@x'') = Some r
    \<and> \<not> cr_autorecharge r"
proof -
  let ?m = "run_money (\<lambda>e. e) [OpSession 1 ''cs_9'' ''a@x'' (Some 1000)]
      (snd (setAutorecharge 0 ''a@x'' False None createBilling), None)"
  have h: "lc ''a@x'' \<noteq> []" by code_simp
  have o: "\<forall>op\<in>set [OpSession 1 ''cs_9'' ''a@x'' (Some 1000)]. \<not> turns_on (lc ''a@x'') op"
    by (simp add: turns_on_def)
  show ?thesis using top_off_opt_out_sticks [OF h o, of ?m] by blast
qed

lemma roundCredits_error: "\<bar>roundCredits x - x\<bar> \<le> 1 / (2 * CREDIT_DP)"
  using js_round_lower [of "x * CREDIT_DP"] js_round_upper [of "x * CREDIT_DP"]
  by (simp add: roundCredits_def CREDIT_DP_def field_simps abs_le_iff abs_if)

lemma creditsForCostUsd_micro [simp]: "is_micro (creditsForCostUsd usd)"
  by (simp add: creditsForCostUsd_def Let_def)

lemma creditsForCostUsd_nonneg: "0 \<le> creditsForCostUsd usd"
  by (simp add: creditsForCostUsd_def Let_def roundCredits_def CREDIT_DP_def CREDITS_PER_USD_def
      js_round_nonneg)

lemma creditsForCostUsd_error:
  "0 < or_zero usd \<Longrightarrow> \<bar>creditsForCostUsd usd - 100 * or_zero usd\<bar> \<le> 1 / (2 * CREDIT_DP)"
  using roundCredits_error [of "or_zero usd * CREDITS_PER_USD"]
  by (simp add: creditsForCostUsd_def Let_def CREDITS_PER_USD_def mult.commute)

text \<open>a turn is charged exactly what it cost.  Nothing is deducted for a free turn; a paid one is
  charged 100 credits per dollar to the nearest half millionth; the ledger line says minus that
  amount; and the balance moves by it when it is covered, and to zero (so by less than the ledger
  line says) when it is not.\<close>

theorem charge_turn_exact:
  assumes "ledger_inv b" and "lc e \<noteq> []" and "map_of (bl_credits b) (lc e) = Some r"
  shows "\<exists>res r'. chargeTurn t e usd b = (Some res, snd (chargeTurn t e usd b))
    \<and> map_of (bl_credits (snd (chargeTurn t e usd b))) (lc e) = Some r'
    \<and> cr_balance r' = ct_balance res
    \<and> (or_zero usd \<le> 0 \<longrightarrow> ct_deducted res = 0)
    \<and> (0 < or_zero usd \<longrightarrow> \<bar>ct_deducted res - 100 * or_zero usd\<bar> \<le> 1 / 2000000)
    \<and> lg_delta (last (bl_ledger (snd (chargeTurn t e usd b)))) = - ct_deducted res
    \<and> (ct_deducted res \<le> cr_balance r \<longrightarrow> cr_balance r' = cr_balance r - ct_deducted res)
    \<and> (cr_balance r < ct_deducted res \<longrightarrow> cr_balance r' = 0)"
proof -
  let ?d = "creditsForCostUsd usd"
  have m: "is_micro (cr_balance r)" "is_micro (- ?d)"
    using assms by (auto simp: ledger_inv_def is_micro_minus simp del: map_of_eq_Some_iff)
  then have "roundCredits (- ?d) = - ?d" "roundCredits (cr_balance r + - ?d) = cr_balance r - ?d"
    using round_micro is_micro_add by fastforce+
  with assms(2,3) show ?thesis
    using creditsForCostUsd_error [of usd]
    by (auto simp: chargeTurn_def Let_def apply_credits_Some row_simps upd_credit_def CREDIT_DP_def
        creditsForCostUsd_def simp del: map_of_eq_Some_iff)
qed

lemma charge_turn_exact_witness:
  "\<exists>b r'. map_of (bl_credits (snd (chargeTurn 1 ''a@x'' (Some (1 / 20000)) b))) (lc ''a@x'') = Some r'
     \<and> cr_balance r' = 1000 - 5 / 1000"
proof -
  let ?b = "snd (grantUsd 0 ''a@x'' (25 / 2) AutoRecharge createBilling)"
  have inv: "ledger_inv ?b" unfolding grantUsd_def by (intro ledger_inv_apply ledger_inv_init)
  have h: "lc ''a@x'' \<noteq> []" by code_simp
  have "map_option cr_balance (map_of (bl_credits ?b) (lc ''a@x'')) = Some 1000" by code_simp
  then obtain r where r: "map_of (bl_credits ?b) (lc ''a@x'') = Some r" "cr_balance r = 1000" by blast
  have d: "creditsForCostUsd (Some (1 / 20000)) = 5 / 1000" by code_simp
  obtain res r' where "map_of (bl_credits (snd (chargeTurn 1 ''a@x'' (Some (1 / 20000)) ?b))) (lc ''a@x'') = Some r'"
    "ct_deducted res \<le> cr_balance r \<longrightarrow> cr_balance r' = cr_balance r - ct_deducted res"
    "chargeTurn 1 ''a@x'' (Some (1 / 20000)) ?b = (Some res, snd (chargeTurn 1 ''a@x'' (Some (1 / 20000)) ?b))"
    using charge_turn_exact [OF inv h r(1), of 1 "Some (1 / 20000)"] by blast
  moreover from this(3) have "ct_deducted res = 5 / 1000"
    by (auto simp: chargeTurn_def Let_def d prod_eq_iff case_prod_beta)
  ultimately show ?thesis using r(2) by (intro exI [of _ ?b] exI [of _ r']) auto
qed

lemma due_for_retry_row:
  "e \<in> set (due_for_retry asof limit b) \<Longrightarrow> \<exists>r. (e, r) \<in> set (bl_credits b) \<and> cr_autorecharge r
     \<and> (\<exists>d. cr_nextRetryAt r = Some d \<and> d \<le> asof) \<and> cr_rechargeFails r < MAX_RECHARGE_FAILS
     \<and> cr_defaultPm r \<noteq> None"
  unfolding due_for_retry_def rows_where_def
  by (drule in_set_takeD) (auto split: option.splits)

text \<open>a declined charge is counted.  Before the third decline a retry is scheduled three days
  after it, the account is not locked, and no unforced attempt before that time reaches the card.
  The third decline locks the user and leaves nothing for the retry sweep to find.\<close>

theorem declined_charge_backs_off_then_locks:
  assumes "ledger_inv (fst m)" and "lc e \<noteq> []"
    and "map_of (bl_credits (fst m)) (lc e) = Some r"
    and "cr_autorecharge r" "cr_stripeCustomer r = Some cust" "cr_defaultPm r = Some pm"
    and "force \<or> (\<forall>due. cr_nextRetryAt r = Some due \<longrightarrow> due \<le> c)"
    and "\<And>req. f req = ChargeFailed err"
    and "m' = snd (autoRecharge c t (Some f) force e m)"
  shows "fst (autoRecharge c t (Some f) force e m)
      = RechargeFailed (Suc (cr_rechargeFails r)) (3 \<le> Suc (cr_rechargeFails r)) err
    \<and> (Suc (cr_rechargeFails r) < 3 \<longrightarrow> snd m' = snd m
        \<and> (\<forall>c' t' g. c' < c + 3 * 86400000 \<longrightarrow> autoRecharge c' t' g False e m'
             = (if g = None then NoCharger else Backoff (c + 3 * 86400000) (Suc (cr_rechargeFails r)), m')))
    \<and> (3 \<le> Suc (cr_rechargeFails r) \<longrightarrow>
        snd m' = map_option (setStatus t (lc e) ''locked'') (snd m)
        \<and> (\<forall>asof limit. lc e \<notin> set (due_for_retry asof limit (fst m'))))"
proof -
  have fin: "autoRecharge c t (Some f) force e m
      = autoRecharge_finish c t (lc e) r (ChargeFailed err) m"
    using assms(2-8) ensure_account_known [of "lc e" "fst m" r t]
    by (auto simp: autoRecharge_def autoRecharge_begin_def Let_def split: option.splits)
  let ?r' = "r\<lparr>cr_rechargeFails := Suc (cr_rechargeFails r),
      cr_nextRetryAt := (if 3 \<le> Suc (cr_rechargeFails r) then None else Some (c + 3 * 86400000)),
      cr_updatedAt := t\<rparr>"
  have row: "map_of (bl_credits (fst m')) (lc e) = Some ?r'"
    unfolding assms(9) fin using assms(3)
    by (simp add: autoRecharge_finish_def Let_def set_fails_def row_simps MAX_RECHARGE_FAILS_def
        RETRY_INTERVAL_MS_def del: map_of_eq_Some_iff)
  have inv: "ledger_inv (fst m')" unfolding assms(9) by (rule ledger.I_recharge [OF assms(1)])
  have hold: "autoRecharge c' t' g False e m' = (if g = None then NoCharger
       else Backoff (c + 3 * 86400000) (Suc (cr_rechargeFails r)), m')"
    if "Suc (cr_rechargeFails r) < 3" "c' < c + 3 * 86400000" for c' t' g
    using that assms(2,4-6) row ensure_account_known [of "lc e" "fst m'" ?r' t']
    by (cases m') (auto simp: autoRecharge_def autoRecharge_begin_def Let_def simp del: map_of_eq_Some_iff)
  have gone: "lc e \<notin> set (due_for_retry asof limit (fst m'))"
    if "3 \<le> Suc (cr_rechargeFails r)" for asof limit
  proof
    assume "lc e \<in> set (due_for_retry asof limit (fst m'))"
    then obtain x where "(lc e, x) \<in> set (bl_credits (fst m'))" and "cr_nextRetryAt x \<noteq> None"
      using due_for_retry_row by fastforce
    moreover have "distinct (map fst (bl_credits (fst m')))" using inv by (simp add: ledger_inv_def)
    ultimately show False using row that by auto
  qed
  show ?thesis
    unfolding fin using hold gone assms(9)
    by (auto simp: fin autoRecharge_finish_def Let_def MAX_RECHARGE_FAILS_def set_user_status_def)
qed

lemma declined_charge_backs_off_then_locks_witness:
  "\<exists>m'. m' = snd (autoRecharge 1000 1000 (Some (\<lambda>_. ChargeFailed ''declined'')) False ''a@x''
        (setStripe 0 ''a@x'' ''cus_1'' ''pm_1'' createBilling, None))
     \<and> autoRecharge 2000 2000 (Some (\<lambda>_. ChargeOk)) False ''a@x'' m' = (Backoff (1000 + 3 * 86400000) 1, m')"
proof -
  let ?m = "(setStripe 0 ''a@x'' ''cus_1'' ''pm_1'' createBilling, None :: users option)"
  let ?r = "(new_credit_row 0)\<lparr>cr_stripeCustomer := Some ''cus_1'', cr_defaultPm := Some ''pm_1''\<rparr>"
  let ?f = "\<lambda>_ :: charge_req. ChargeFailed ''declined''"
  have e: "lc ''a@x'' = ''a@x''" by code_simp
  have inv: "ledger_inv (fst ?m)" by (simp add: ledger.I_stripe ledger_inv_init)
  have r: "map_of (bl_credits (fst ?m)) (lc ''a@x'') = Some ?r"
    by (simp add: setStripe_def e row_simps ensure_account_def createBilling_def new_credit_row_def
        or_null_def upd_credit_def)
  have x: "cr_autorecharge ?r" "cr_stripeCustomer ?r = Some ''cus_1''" "cr_defaultPm ?r = Some ''pm_1''"
    "False \<or> (\<forall>due. cr_nextRetryAt ?r = Some due \<longrightarrow> due \<le> 1000)" "cr_rechargeFails ?r = 0"
    by (simp_all add: new_credit_row_def)
  show ?thesis
    using declined_charge_backs_off_then_locks [OF inv _ r x(1-4), of ?f "''declined''" _ 1000] x(5)
    by (auto simp: e)
qed

text \<open>a code is single-use.  Once somebody has redeemed it, then after any sequence of operations
  every further redemption of it, by anyone, answers "code used" and changes nothing.\<close>

theorem code_redeems_once:
  assumes "redeem uf t code e m = (RedeemOk ty cr held, m1)"
    and "m2 = run_money uf ops m1"
    and "uppercase (js_trim code') = uppercase (js_trim code)" and "lc e' \<noteq> []"
  shows "redeem uf t' code' e' m2 = (CodeUsed, m2)"
proof -
  let ?k = "uppercase (js_trim code)"
  obtain row where row: "map_of (bl_codes (fst m)) ?k = Some row" "cd_status row = Unused" "lc e \<noteq> []"
    using assms(1) by (auto simp: redeem_def Let_def split: option.splits if_splits)
  have codes: "bl_codes (fst m1) = bl_codes (upd_code ?k (\<lambda>r. r\<lparr>cd_status := Redeemed,
      cd_redeemedBy := Some (lc e), cd_redeemedAt := Some t\<rparr>) (fst m))"
    using assms(1) row
    by (auto simp: redeem_def Let_def ensure_account_def set_pending_def split: if_splits option.splits)
  have "code_spent ?k (fst m1)"
    unfolding code_spent_def codes using row(1) by (simp add: row_simps del: map_of_eq_Some_iff)
  then have "code_spent ?k (fst m2)"
    unfolding assms(2) by (rule spent.I_run) simp
  with assms(3,4) show ?thesis
    by (auto simp: redeem_def Let_def code_spent_def)
qed

lemma code_redeems_once_witness:
  "\<exists>m1. redeem (\<lambda>e. e) 1 ''domi-aaaa-aaaa'' ''a@x''
        (snd (mintCode 0 (\<lambda>_. replicate 8 0) ''free'' None 50 [] createBilling), None)
      = (RedeemOk Free 50 0, m1)
    \<and> redeem (\<lambda>e. e) 2 '' DOMI-AAAA-AAAA'' ''b@x'' m1 = (CodeUsed, m1)"
proof -
  let ?m = "(snd (mintCode 0 (\<lambda>_. replicate 8 0) ''free'' None 50 [] createBilling), None :: users option)"
  have "fst (redeem (\<lambda>e. e) 1 ''domi-aaaa-aaaa'' ''a@x'' ?m) = RedeemOk Free 50 0" by code_simp
  then obtain m1 where m1: "redeem (\<lambda>e. e) 1 ''domi-aaaa-aaaa'' ''a@x'' ?m = (RedeemOk Free 50 0, m1)"
    by (metis prod.collapse)
  have k: "uppercase (js_trim '' DOMI-AAAA-AAAA'') = uppercase (js_trim ''domi-aaaa-aaaa'')" by code_simp
  have e: "lc ''b@x'' \<noteq> []" by code_simp
  have m2: "m1 = run_money (\<lambda>e. e) [] m1" by simp
  show ?thesis using m1 code_redeems_once [OF m1 m2 k e] by blast
qed

text \<open>the first purchase releases the held welcome bonus, once.  A funded session adds its credits
  and the pending promotion to the balance, leaves nothing pending, and arms auto top-off exactly
  when the user had not switched it off on purpose.\<close>

theorem first_purchase_releases_bonus:
  assumes "ledger_inv b" and "lc e \<noteq> []" and "map_of (bl_credits b) (lc e) = Some r"
    and "sid \<noteq> []" and "map_of (bl_paid b) sid = None" and "0 \<le> c" and "0 \<le> cr_pendingPromo r"
  shows "\<exists>r'. fst (grantSession t sid e (Some (of_int c)) b)
        = Some (Granted c (cr_balance r + of_int (c + cr_pendingPromo r)) (cr_topOffOptOut r))
    \<and> map_of (bl_credits (snd (grantSession t sid e (Some (of_int c)) b))) (lc e) = Some r'
    \<and> cr_balance r' = cr_balance r + of_int (c + cr_pendingPromo r)
    \<and> cr_pendingPromo r' = 0
    \<and> cr_autorecharge r' = (cr_autorecharge r \<or> \<not> cr_topOffOptOut r)
    \<and> cr_topOffOptOut r' = cr_topOffOptOut r"
proof -
  have m: "is_micro (cr_balance r)" "0 \<le> cr_balance r"
    using assms(1,3) by (auto simp: ledger_inv_def simp del: map_of_eq_Some_iff)
  have rc: "roundCredits (of_int n) = of_int n" for n by (rule round_micro) simp
  have add: "max 0 (roundCredits (cr_balance r + of_int n)) = cr_balance r + of_int n" if "0 \<le> n" for n
    using that m by (simp add: round_micro is_micro_add)
  have add2: "max 0 (roundCredits (cr_balance r + (of_int n + of_int k)))
      = cr_balance r + (of_int n + of_int k)" if "0 \<le> n" "0 \<le> k" for n k
    using add [of "n + k"] that by simp
  let ?b1 = "b\<lparr>bl_paid := AList.update sid \<lparr>pd_email = lc e, pd_credits = c, pd_ts = t\<rparr> (bl_paid b)\<rparr>"
  have r1: "map_of (bl_credits ?b1) (lc e) = Some r" using assms(3) by simp
  define b2 where "b2 = snd (apply_credits t e (of_int c) (TopUpSession sid) ?b1)"
  have a1: "apply_credits t e (of_int c) (TopUpSession sid) ?b1 = (Some (cr_balance r + of_int c), b2)"
    unfolding b2_def apply_credits_Some [OF assms(2) r1] using assms(6) by (simp add: rc add)
  define r2 where "r2 = r\<lparr>cr_balance := cr_balance r + of_int c, cr_updatedAt := t\<rparr>"
  have r2: "map_of (bl_credits b2) (lc e) = Some r2"
    unfolding b2_def apply_credits_Some [OF assms(2) r1] r2_def using assms(3,6)
    by (simp add: rc add row_simps upd_credit_def del: map_of_eq_Some_iff)
  note ens = ensure_account_known [OF assms(2) r2, of t]
  show ?thesis
    using assms(4-7) apply_credits_Some [OF assms(2) r2]
    by (auto simp: grantSession_def Let_def a1 ens trunc_or_zero_def r2 rc add add2 set_pending_def
        set_recharge_def row_simps upd_credit_def r2_def add.assoc simp del: map_of_eq_Some_iff)
qed

lemma first_purchase_releases_bonus_witness:
  "\<exists>b r'. map_of (bl_credits (snd (grantSession 3 ''cs_1'' ''a@x'' (Some (of_int 1000)) b))) (lc ''a@x'') = Some r'
     \<and> cr_balance r' = 1250 \<and> cr_pendingPromo r' = 0"
proof -
  let ?b = "set_pending ''a@x'' 250 0 (snd (ensure_account 0 ''a@x'' createBilling))"
  have e: "lc ''a@x'' = ''a@x''" by code_simp
  have inv: "ledger_inv ?b" by (intro ledger.I_pending ledger.I_ensure ledger_inv_init)
  have r: "map_of (bl_credits ?b) (lc ''a@x'') = Some ((new_credit_row 0)\<lparr>cr_pendingPromo := 250\<rparr>)"
    by (simp add: e set_pending_def row_simps ensure_account_def createBilling_def new_credit_row_def
        upd_credit_def)
  have p: "map_of (bl_paid ?b) ''cs_1'' = None"
    by (simp add: set_pending_def createBilling_def)
  show ?thesis
    using first_purchase_releases_bonus [OF inv _ r _ p, of 1000 3] e
    by (intro exI [of _ ?b]) (auto simp: new_credit_row_def)
qed

end
