(* ===== verification/SessionBudget.thy ===== *)
theory SessionBudget
  imports Prelude
begin

text \<open>
  \<open>sessionbudget.mjs\<close>: the per-conversation spending gate, and the send-time check of
  \<open>server.mjs\<close> that is its main client.  One table keyed by (e-mail, session); a session's hold is
  derived from its row, so releasing it is a write to the row.  Guests budget in credits, the owner
  in dollars.  The sentences shown to the user are kept as the numbers and names they are built from.
\<close>

datatype unit_kind = Credits | Usd

record session_row =
  se_kind :: string
  se_title :: string
  se_unit :: unit_kind
  se_budget :: rat
  se_spent :: rat
  se_running :: bool
  se_status :: string
  se_createdAt :: ms
  se_updatedAt :: ms

record budgets =
  sb_rows :: "((string \<times> string) \<times> session_row) list"
  sb_guestDefault :: rat
  sb_ownerDefault :: rat

definition GUEST_DEFAULT_CREDITS :: rat where "GUEST_DEFAULT_CREDITS = 1000"
definition OWNER_DEFAULT_USD :: rat where "OWNER_DEFAULT_USD = 5"

definition createSessionBudgets :: "jsnum \<Rightarrow> jsnum \<Rightarrow> budgets" where
  "createSessionBudgets guestCredits ownerUsd =
     \<lparr>sb_rows = [],
      sb_guestDefault = (if or_zero guestCredits > 0 then or_zero guestCredits else GUEST_DEFAULT_CREDITS),
      sb_ownerDefault = (if or_zero ownerUsd > 0 then or_zero ownerUsd else OWNER_DEFAULT_USD)\<rparr>"

definition sid :: "string \<Rightarrow> string" where
  "sid s = take 80 s"

definition session_row_of :: "string \<Rightarrow> string \<Rightarrow> budgets \<Rightarrow> session_row option" where
  "session_row_of email s B = map_of (sb_rows B) (lc email, sid s)"

definition upd_session :: "string \<times> string \<Rightarrow> (session_row \<Rightarrow> session_row) \<Rightarrow> budgets \<Rightarrow> budgets" where
  "upd_session key f B = B\<lparr>sb_rows := row_upd key f (sb_rows B)\<rparr>"

section \<open>Holds\<close>

definition holdOf :: "session_row \<Rightarrow> rat" where
  "holdOf r = (if se_running r \<and> se_status r = ''active'' then max 0 (se_budget r - se_spent r) else 0)"

record holder =
  hd_session :: string
  hd_title :: string
  hd_hold :: rat

definition holdsFor :: "string \<Rightarrow> string \<Rightarrow> budgets \<Rightarrow> holder list" where
  "holdsFor email exceptId B =
     filter (\<lambda>h. hd_hold h > 0)
       (map (\<lambda>((e, s), r). \<lparr>hd_session = s,
               hd_title = (if se_title r = [] then ''another chat'' else se_title r), hd_hold = holdOf r\<rparr>)
         (filter (\<lambda>((e, s), r). s \<noteq> sid exceptId)
           (rows_where (\<lambda>(e, s) r. e = lc email \<and> se_running r \<and> se_status r = ''active'') (sb_rows B))))"

definition available :: "string \<Rightarrow> jsnum \<Rightarrow> string \<Rightarrow> budgets \<Rightarrow> rat" where
  "available email balance exceptId B =
     max 0 (or_zero balance - sum_list (map hd_hold (holdsFor email exceptId B)))"

section \<open>The over-budget message\<close>

datatype shown = ShownCents int | ShownCredits int

definition show_amount :: "unit_kind \<Rightarrow> rat \<Rightarrow> shown" where
  "show_amount u n = (if u = Usd then ShownCents (js_round (n * 100)) else ShownCredits \<lfloor>n\<rfloor>)"

datatype over_message =
  EarmarkedMsg "(string \<times> shown) list" shown shown   \<comment> \<open>the holders, the balance, what is left\<close>
| NotEnoughMsg shown shown bool                       \<comment> \<open>balance, available, offers a smaller budget\<close>

definition buildOverBudgetMessage :: "rat \<Rightarrow> rat \<Rightarrow> holder list \<Rightarrow> unit_kind \<Rightarrow> over_message" where
  "buildOverBudgetMessage balance avail holders u =
     (if holders \<noteq> [] then
        EarmarkedMsg (map (\<lambda>h. (hd_title h, show_amount u (hd_hold h))) holders)
          (show_amount u balance) (show_amount u avail)
      else NotEnoughMsg (show_amount u balance) (show_amount u avail) (avail > 0))"

section \<open>Sessions\<close>

record session_view =
  sv_session :: string
  sv_kind :: string
  sv_title :: string
  sv_unit :: unit_kind
  sv_budget :: rat
  sv_spent :: rat
  sv_remaining :: rat
  sv_running :: bool
  sv_status :: string

definition session_state :: "string \<Rightarrow> session_row \<Rightarrow> session_view" where
  "session_state s r =
     \<lparr>sv_session = s, sv_kind = se_kind r, sv_title = se_title r, sv_unit = se_unit r,
      sv_budget = se_budget r, sv_spent = se_spent r, sv_remaining = max 0 (se_budget r - se_spent r),
      sv_running = se_running r, sv_status = se_status r\<rparr>"

record shortfall =
  sf_wanted :: rat
  sf_avail :: rat
  sf_balance :: rat
  sf_holders :: "holder list"

record ensured =
  en_state :: session_view
  en_created :: bool
  en_shortfall :: "shortfall option"

definition ensure_session ::
  "ms \<Rightarrow> string \<Rightarrow> string \<Rightarrow> bool \<Rightarrow> string \<Rightarrow> string \<Rightarrow> jsnum \<Rightarrow> budgets \<Rightarrow> ensured option \<times> budgets" where
  "ensure_session t email sessionId isOwner kind title balance B =
     (let e = lc email; s = sid sessionId in
      if e = [] \<or> s = [] then (None, B)
      else case map_of (sb_rows B) (e, s) of
        None \<Rightarrow>
          let u = (if isOwner then Usd else Credits);
              wanted = (if isOwner then sb_ownerDefault B else sb_guestDefault B);
              avail = available e balance s B;
              short = (\<not> isOwner \<and> avail < wanted);
              shortfall = (if short then Some \<lparr>sf_wanted = wanted, sf_avail = avail,
                              sf_balance = or_zero balance, sf_holders = holdsFor e s B\<rparr> else None);
              row = \<lparr>se_kind = kind, se_title = take 120 title, se_unit = u,
                     se_budget = (if short then avail else wanted), se_spent = 0, se_running = False,
                     se_status = ''active'', se_createdAt = t, se_updatedAt = t\<rparr>
          in (Some \<lparr>en_state = session_state s row, en_created = True, en_shortfall = shortfall\<rparr>,
              B\<lparr>sb_rows := AList.update (e, s) row (sb_rows B)\<rparr>)
      | Some row \<Rightarrow>
          let retitle = (title \<noteq> [] \<and> title \<noteq> se_title row);
              row' = (if retitle then row\<lparr>se_title := take 120 title, se_updatedAt := t\<rparr> else row);
              B' = (if retitle then upd_session (e, s) (\<lambda>r. r\<lparr>se_title := take 120 title, se_updatedAt := t\<rparr>) B
                    else B)
          in (Some \<lparr>en_state = session_state s row', en_created = False, en_shortfall = None\<rparr>, B'))"

definition get_session :: "string \<Rightarrow> string \<Rightarrow> budgets \<Rightarrow> session_view option" where
  "get_session email s B = map_option (session_state (sid s)) (session_row_of email s B)"

record over_detail =
  ov_requested :: rat
  ov_balance :: rat
  ov_avail :: rat
  ov_holders :: "holder list"
  ov_maxAllowable :: int
  ov_unit :: unit_kind
  ov_message :: over_message

datatype set_budget_result =
  NoSessionRow | BadAmount | OverAvailable over_detail | BudgetSet session_view

text \<open>\<open>requested = None\<close>: not a finite number.\<close>

definition setBudget ::
  "ms \<Rightarrow> string \<Rightarrow> string \<Rightarrow> jsnum \<Rightarrow> jsnum \<Rightarrow> budgets \<Rightarrow> set_budget_result \<times> budgets" where
  "setBudget t email sessionId requested balance B =
     (let e = lc email; s = sid sessionId in
      case map_of (sb_rows B) (e, s) of
        None \<Rightarrow> (NoSessionRow, B)
      | Some row \<Rightarrow>
          (case requested of
             None \<Rightarrow> (BadAmount, B)
           | Some w \<Rightarrow>
               if w < 0 then (BadAmount, B)
               else
                 let floored = max w (se_spent row);
                     want = (if se_unit row = Credits then of_int \<lfloor>floored\<rfloor> else floored);
                     avail = available e balance s B
                 in if se_unit row = Credits \<and> want - se_spent row > avail then
                      (OverAvailable \<lparr>ov_requested = want, ov_balance = or_zero balance, ov_avail = avail,
                          ov_holders = holdsFor e s B, ov_maxAllowable = \<lfloor>se_spent row + avail\<rfloor>,
                          ov_unit = se_unit row,
                          ov_message = buildOverBudgetMessage (or_zero balance) avail (holdsFor e s B)
                                         (se_unit row)\<rparr>, B)
                    else
                      (BudgetSet (session_state s (row\<lparr>se_budget := want, se_updatedAt := t\<rparr>)),
                       upd_session (e, s) (\<lambda>r. r\<lparr>se_budget := want, se_updatedAt := t\<rparr>) B)))"

record spend_view =
  sp_spentNow :: rat
  sp_remainingNow :: rat
  sp_overNow :: bool

definition recordSpend ::
  "ms \<Rightarrow> string \<Rightarrow> string \<Rightarrow> jsnum \<Rightarrow> budgets \<Rightarrow> spend_view option \<times> budgets" where
  "recordSpend t email sessionId amount B =
     (case session_row_of email sessionId B of
        None \<Rightarrow> (None, B)
      | Some row \<Rightarrow>
          let spent = se_spent row + max 0 (or_zero amount) in
          (Some \<lparr>sp_spentNow = spent, sp_remainingNow = max 0 (se_budget row - spent),
                 sp_overNow = (spent \<ge> se_budget row)\<rparr>,
           upd_session (lc email, sid sessionId) (\<lambda>r. r\<lparr>se_spent := spent, se_updatedAt := t\<rparr>) B))"

definition setRunning :: "ms \<Rightarrow> string \<Rightarrow> string \<Rightarrow> bool \<Rightarrow> budgets \<Rightarrow> budgets" where
  "setRunning t email sessionId on =
     upd_session (lc email, sid sessionId) (\<lambda>r. r\<lparr>se_running := on, se_updatedAt := t\<rparr>)"

definition sweepRunning :: "ms \<Rightarrow> budgets \<Rightarrow> budgets" where
  "sweepRunning t B = B\<lparr>sb_rows := map (\<lambda>(k, r). (k, if se_running r
      then r\<lparr>se_running := False, se_updatedAt := t\<rparr> else r)) (sb_rows B)\<rparr>"

definition close_session :: "ms \<Rightarrow> string \<Rightarrow> string \<Rightarrow> budgets \<Rightarrow> budgets" where
  "close_session t email sessionId =
     upd_session (lc email, sid sessionId) (\<lambda>r. r\<lparr>se_status := ''closed'', se_updatedAt := t\<rparr>)"

definition imageAllowance :: "string \<Rightarrow> jsnum \<Rightarrow> budgets \<Rightarrow> rat \<times> holder list" where
  "imageAllowance email balance B = (available email balance [] B, holdsFor email [] B)"

section \<open>The send-time gate of a chat turn\<close>

text \<open>
  \<open>server.mjs\<close>, before a turn starts: create or fetch the session, re-check an idle session's
  budget against what is available now, stop the turn when nothing remains, otherwise mark the
  session running.  \<open>sbCredit\<close> says that the account draws credits.
\<close>

datatype gate_result =
  GateSkipped                         \<comment> \<open>no session\<close>
| GateExhausted rat "holder list"     \<comment> \<open>\<open>budget_exhausted\<close>: available, holders\<close>
| GateOpen session_view

definition chat_budget_gate ::
  "ms \<Rightarrow> string \<Rightarrow> string \<Rightarrow> bool \<Rightarrow> bool \<Rightarrow> string \<Rightarrow> rat \<Rightarrow> budgets \<Rightarrow> gate_result \<times> budgets" where
  "chat_budget_gate t email chatId isOwner sbCredit title sbBalance B =
     (let (ens, B1) = ensure_session t email chatId isOwner ''chat'' title (Some sbBalance) B in
      case ens of
        None \<Rightarrow> (GateSkipped, B1)
      | Some en \<Rightarrow>
          let sb0 = en_state en;
              availNow = available email (Some sbBalance) chatId B1;
              (sb1, B2) =
                (if sbCredit \<and> sv_remaining sb0 > 0 \<and> sv_remaining sb0 > availNow then
                   (case setBudget t email chatId (Some (sv_spent sb0 + availNow)) (Some sbBalance) B1 of
                      (BudgetSet v, B') \<Rightarrow>
                        (sb0\<lparr>sv_budget := sv_budget v, sv_remaining := sv_remaining v\<rparr>, B')
                    | (_, B') \<Rightarrow> (sb0, B'))
                 else (sb0, B1))
          in if sv_remaining sb1 \<le> 0 then
               (GateExhausted (if sbCredit then available email (Some sbBalance) chatId B2 else 0)
                  (holdsFor email chatId B2), B2)
             else (GateOpen sb1, setRunning t email chatId True B2))"

section \<open>Lemmas\<close>

lemma get_upd_session [row_simps]:
  "map_of (sb_rows (upd_session k f B)) k'
     = (if k' = k then map_option f (map_of (sb_rows B) k) else map_of (sb_rows B) k')"
  by (simp add: upd_session_def row_simps)

lemma holdOf_nonneg [simp]: "0 \<le> holdOf r"
  by (simp add: holdOf_def)

lemma available_nonneg [simp]: "0 \<le> available e bal x B"
  by (simp add: available_def)

text \<open>The holds of one account, as a plain sum over the table.\<close>

definition total_hold :: "string \<Rightarrow> string set \<Rightarrow> ((string \<times> string) \<times> session_row) list \<Rightarrow> rat" where
  "total_hold e xs rows =
     sum_list (map (\<lambda>((e', s), r). if e' = e \<and> s \<notin> xs then holdOf r else 0) rows)"

lemma total_hold_simps [simp]:
  "total_hold e xs [] = 0"
  "total_hold e xs (((e', s), r) # rows) = (if e' = e \<and> s \<notin> xs then holdOf r else 0) + total_hold e xs rows"
  by (simp_all add: total_hold_def)

lemma holdOf_idle: "\<not> (se_running r \<and> se_status r = ''active'') \<Longrightarrow> holdOf r = 0"
  by (auto simp: holdOf_def)

lemma holdOf_cases: "holdOf r = 0 \<or> 0 < holdOf r \<and> se_running r \<and> se_status r = ''active''"
  using holdOf_nonneg [of r] by (auto simp: holdOf_def)

lemma holdsFor_total: "sum_list (map hd_hold (holdsFor email x B)) = total_hold (lc email) {sid x} (sb_rows B)"
proof -
  let ?view = "\<lambda>((e :: string, s), r). \<lparr>hd_session = s,
      hd_title = (if se_title r = [] then ''another chat'' else se_title r), hd_hold = holdOf r\<rparr>"
  let ?hs = "\<lambda>rows. filter (\<lambda>h. hd_hold h > 0) (map ?view (filter (\<lambda>((e, s), r). s \<noteq> sid x)
      (rows_where (\<lambda>(e, s) r. e = lc email \<and> se_running r \<and> se_status r = ''active'') rows)))"
  have "sum_list (map hd_hold (?hs rows)) = total_hold (lc email) {sid x} rows" for rows
  proof (induction rows)
    case Nil
    then show ?case by (simp add: rows_where_def)
  next
    case (Cons a rows)
    obtain e s r where a: "a = ((e, s), r)" by (metis prod.exhaust)
    have "?hs (a # rows) = (if e = lc email \<and> s \<noteq> sid x \<and> 0 < holdOf r
        then ?view a # ?hs rows else ?hs rows)"
      using holdOf_cases [of r] by (auto simp: a rows_where_def simp del: filter_filter)
    then show ?case using holdOf_cases [of r] Cons by (auto simp: a)
  qed
  then show ?thesis unfolding holdsFor_def by simp
qed

lemma available_eq: "available email bal x B = max 0 (or_zero bal - total_hold (lc email) {sid x} (sb_rows B))"
  by (simp add: available_def holdsFor_total)

lemma total_hold_cong:
  "(\<And>k r. (k, r) \<in> set rows \<Longrightarrow> fst k = e \<Longrightarrow> snd k \<notin> xs \<Longrightarrow> holdOf (f k r) = holdOf r)
    \<Longrightarrow> total_hold e xs (map (\<lambda>(k, r). (k, f k r)) rows) = total_hold e xs rows"
  by (induction rows) auto

lemma total_hold_upd_other [simp]:
  "s \<in> xs \<or> e' \<noteq> e \<Longrightarrow> total_hold e xs (row_upd (e', s) f rows) = total_hold e xs rows"
  unfolding row_upd_def
  by (rule total_hold_cong [where f = "\<lambda>k r. if k = (e', s) then f r else r"]) auto

lemma total_hold_update_other:
  "s \<in> xs \<or> e' \<noteq> e \<Longrightarrow> total_hold e xs (AList.update (e', s) r rows) = total_hold e xs rows"
  by (induction rows) auto

lemma total_hold_split:
  assumes "distinct (map fst rows)" and "map_of rows (e, s) = Some r"
  shows "total_hold e {} rows = holdOf r + total_hold e {s} rows"
  using assms
proof (induction rows)
  case Nil
  then show ?case by simp
next
  case (Cons a rows)
  obtain e' s' r' where a: "a = ((e', s'), r')" by (metis prod.exhaust)
  show ?case
  proof (cases "(e', s') = (e, s)")
    case True
    have "total_hold e {s} rs = total_hold e {} rs" if "(e, s) \<notin> fst ` set rs" for rs
      using that by (induction rs) force+
    with True Cons.prems a show ?thesis by auto
  next
    case False
    with Cons a show ?thesis by auto
  qed
qed

definition budgets_ok :: "budgets \<Rightarrow> bool" where
  "budgets_ok B \<longleftrightarrow> distinct (map fst (sb_rows B))"

lemma budgets_ok_upd [simp]: "budgets_ok (upd_session k f B) = budgets_ok B"
  by (simp add: budgets_ok_def upd_session_def)

lemma budgets_ok_update: "budgets_ok B \<Longrightarrow> budgets_ok (B\<lparr>sb_rows := AList.update k r (sb_rows B)\<rparr>)"
  by (simp add: budgets_ok_def distinct_keys_update)

lemma sid_idem [simp]: "sid (sid s) = sid s"
  by (simp add: sid_def)

text \<open>What the gate uses of \<open>ensure\<close>: it answers with the row it stored and touches no other hold.\<close>

lemma ensure_session_row:
  assumes "ensure_session t email s0 own kind title bal B = (Some en, B1)"
  shows "\<exists>row. map_of (sb_rows B1) (lc email, sid s0) = Some row
    \<and> en_state en = session_state (sid s0) row
    \<and> total_hold (lc email) {sid s0} (sb_rows B1) = total_hold (lc email) {sid s0} (sb_rows B)
    \<and> (budgets_ok B \<longrightarrow> budgets_ok B1)"
  using assms
  by (auto simp: ensure_session_def Let_def row_simps total_hold_update_other budgets_ok_update
      upd_session_def budgets_ok_def distinct_keys_update split: option.splits if_splits)

lemma setBudget_set:
  assumes "setBudget t email s0 w bal B = (BudgetSet v, B')"
    and "map_of (sb_rows B) (lc email, sid s0) = Some row"
  shows "\<exists>row'. map_of (sb_rows B') (lc email, sid s0) = Some row'
    \<and> v = session_state (sid s0) row' \<and> se_spent row' = se_spent row
    \<and> se_unit row' = se_unit row \<and> se_running row' = se_running row \<and> se_status row' = se_status row
    \<and> (se_unit row = Credits \<longrightarrow> se_budget row' - se_spent row \<le> available email bal s0 B)
    \<and> total_hold (lc email) {sid s0} (sb_rows B') = total_hold (lc email) {sid s0} (sb_rows B)
    \<and> (budgets_ok B \<longrightarrow> budgets_ok B')"
proof -
  have avail: "available (lc email) bal (sid s0) B = available email bal s0 B"
    by (simp add: available_eq)
  show ?thesis
    using assms unfolding setBudget_def Let_def avail
    by (auto simp: row_simps upd_session_def budgets_ok_def split: option.splits if_splits)
qed

text \<open>The clamp of the gate always succeeds, with no more than what is available left to spend.\<close>

lemma setBudget_clamp:
  assumes "map_of (sb_rows B) (lc email, sid s0) = Some row" and "0 \<le> se_spent row"
    and "a = available email bal s0 B"
  shows "\<exists>v B'. setBudget t email s0 (Some (se_spent row + a)) bal B = (BudgetSet v, B')
    \<and> sv_remaining v \<le> a"
proof -
  have avail: "available (lc email) bal (sid s0) B = a" by (simp add: available_eq assms(3))
  have a: "0 \<le> a" using assms(3) by simp
  have fl: "of_int \<lfloor>se_spent row + a\<rfloor> - se_spent row \<le> a" by linarith
  then have "max 0 (of_int \<lfloor>se_spent row + a\<rfloor> - se_spent row) \<le> a" using a by simp
  moreover have "se_spent row = of_int \<lfloor>se_spent row\<rfloor>" if "se_spent row \<le> of_int \<lfloor>se_spent row\<rfloor>"
    using that by (intro antisym of_int_floor_le)
  ultimately show ?thesis using assms(1,2) a fl
    unfolding setBudget_def Let_def avail
    by (auto simp: session_state_def max_def)
qed

section \<open>Properties\<close>

text \<open>C17: the gate never commits the same credits twice.  Whenever it lets a turn of a credit account
  start, the holds of all the account's running sessions, the new one included, fit in the balance,
  and the session has something left to spend.\<close>

theorem gate_never_double_commits:
  assumes "budgets_ok B" and "\<forall>k r. map_of (sb_rows B) k = Some r \<longrightarrow> 0 \<le> se_spent r"
    and "chat_budget_gate t email chatId own True title bal B = (GateOpen v, B')"
  shows "total_hold (lc email) {} (sb_rows B') \<le> bal \<and> 0 < sv_remaining v"
proof -
  obtain ens B1 where ens: "ensure_session t email chatId own ''chat'' title (Some bal) B = (ens, B1)"
    by fastforce
  then obtain en where en: "ens = Some en"
    using assms(3) by (cases ens) (auto simp: chat_budget_gate_def)
  let ?k = "(lc email, sid chatId)"
  let ?H = "\<lambda>B. total_hold (lc email) {sid chatId} (sb_rows B)"
  obtain row where row: "map_of (sb_rows B1) ?k = Some row" "en_state en = session_state (sid chatId) row"
    and ok1: "budgets_ok B1"
    using ensure_session_row [OF ens [unfolded en]] assms(1) by blast
  have spent: "0 \<le> se_spent row"
    using ens row(1) assms(2) unfolding en
    by (auto simp: ensure_session_def Let_def row_simps upd_session_def split: option.splits if_splits)
  let ?a = "available email (Some bal) chatId B1"
  have *: "\<exists>row2 B2. map_of (sb_rows B2) ?k = Some row2 \<and> budgets_ok B2 \<and> ?H B2 = ?H B1
      \<and> B' = setRunning t email chatId True B2 \<and> 0 < sv_remaining v
      \<and> sv_remaining v = max 0 (se_budget row2 - se_spent row2) \<and> sv_remaining v \<le> ?a"
  proof (cases "sv_remaining (en_state en) > 0 \<and> sv_remaining (en_state en) > ?a")
    case True
    obtain w B2 where set: "setBudget t email chatId (Some (se_spent row + ?a)) (Some bal) B1 = (BudgetSet w, B2)"
      and le: "sv_remaining w \<le> ?a"
      using setBudget_clamp [OF row(1) spent refl] by blast
    obtain row2 where "map_of (sb_rows B2) ?k = Some row2" "w = session_state (sid chatId) row2"
      "?H B2 = ?H B1" "budgets_ok B2"
      using setBudget_set [OF set row(1)] ok1 by blast
    with True le set assms(3) row(2) show ?thesis
      unfolding chat_budget_gate_def ens en Let_def
      by (intro exI [of _ row2] exI [of _ B2]) (auto simp: session_state_def split: if_splits)
  next
    case False
    have svr: "sv_remaining (en_state en) = max 0 (se_budget row - se_spent row)"
      by (simp add: row(2) session_state_def)
    with False assms(3) row(1) ok1 show ?thesis
      unfolding chat_budget_gate_def ens en Let_def
      by (intro exI [of _ row] exI [of _ B1]) (auto split: if_splits)
  qed
  then obtain row2 B2 where r2: "map_of (sb_rows B2) ?k = Some row2" and ok2: "budgets_ok B2"
    and H: "?H B2 = ?H B1" and B': "B' = setRunning t email chatId True B2"
    and v: "0 < sv_remaining v" "sv_remaining v = max 0 (se_budget row2 - se_spent row2)" "sv_remaining v \<le> ?a"
    by blast
  let ?row3 = "row2\<lparr>se_running := True, se_updatedAt := t\<rparr>"
  have "map_of (sb_rows B') ?k = Some ?row3"
    unfolding B' setRunning_def using r2 by (simp add: row_simps del: map_of_eq_Some_iff)
  moreover have "distinct (map fst (sb_rows B'))"
    using ok2 by (simp add: B' setRunning_def budgets_ok_def upd_session_def)
  ultimately have "total_hold (lc email) {} (sb_rows B') = holdOf ?row3 + ?H B'"
    by (intro total_hold_split)
  also have "?H B' = ?H B1" by (simp add: B' setRunning_def upd_session_def H)
  also have "holdOf ?row3 \<le> sv_remaining v" using v(2) by (auto simp: holdOf_def)
  finally show ?thesis using v by (auto simp: available_eq max_def split: if_splits)
qed

text \<open>changing a budget is refused exactly when a guest asks for more than is free: then nothing
  changes and the answer carries the numbers.  Otherwise the request is stored (never below what is
  already spent for the owner, and to the whole credit below it for a guest), no other session's
  row changes, and a guest's unspent budget fits in what is available.\<close>

theorem set_budget_contract:
  assumes "map_of (sb_rows B) (lc email, sid s0) = Some row" and "0 \<le> w"
    and "want = (if se_unit row = Credits then of_int \<lfloor>max w (se_spent row)\<rfloor> else max w (se_spent row))"
    and "a = available email bal s0 B"
  shows "if se_unit row = Credits \<and> a < want - se_spent row
    then \<exists>d. setBudget t email s0 (Some w) bal B = (OverAvailable d, B)
        \<and> ov_requested d = want \<and> ov_avail d = a \<and> ov_maxAllowable d = \<lfloor>se_spent row + a\<rfloor>
    else \<exists>v B'. setBudget t email s0 (Some w) bal B = (BudgetSet v, B')
        \<and> sv_budget v = want \<and> sv_spent v = se_spent row
        \<and> map_of (sb_rows B') (lc email, sid s0) = Some (row\<lparr>se_budget := want, se_updatedAt := t\<rparr>)
        \<and> (\<forall>k. k \<noteq> (lc email, sid s0) \<longrightarrow> map_of (sb_rows B') k = map_of (sb_rows B) k)
        \<and> (se_unit row = Usd \<longrightarrow> se_spent row \<le> sv_budget v)
        \<and> (se_unit row = Credits \<longrightarrow> of_int \<lfloor>se_spent row\<rfloor> \<le> sv_budget v
              \<and> sv_budget v - se_spent row \<le> a)"
proof -
  have avail: "available (lc email) bal (sid s0) B = a" by (simp add: available_eq assms(4))
  have "\<lfloor>se_spent row\<rfloor> \<le> \<lfloor>max w (se_spent row)\<rfloor>" by (intro floor_mono) simp
  then have fl: "(of_int \<lfloor>se_spent row\<rfloor> :: rat) \<le> of_int \<lfloor>max w (se_spent row)\<rfloor>" by simp
  show ?thesis
  proof (cases "se_unit row = Credits \<and> a < want - se_spent row")
    case True
    with assms(1-3) show ?thesis
      unfolding setBudget_def Let_def avail by (simp add: not_less [symmetric] del: map_of_eq_Some_iff)
  next
    case False
    with assms(1-3) fl show ?thesis
      unfolding setBudget_def Let_def avail
      by (auto simp: session_state_def row_simps simp del: map_of_eq_Some_iff)
  qed
qed

lemma gate_never_double_commits_witness:
  "\<exists>v B'. chat_budget_gate 2 ''a@x'' ''two'' False True [] 1500
      (snd (chat_budget_gate 1 ''a@x'' ''one'' False True [] 1500 (createSessionBudgets None None))) = (GateOpen v, B')
    \<and> total_hold (lc ''a@x'') {} (sb_rows B') \<le> 1500"
proof -
  let ?B = "snd (chat_budget_gate 1 ''a@x'' ''one'' False True [] 1500 (createSessionBudgets None None))"
  have rows: "sb_rows ?B = [((''a@x'', ''one''), \<lparr>se_kind = ''chat'', se_title = [], se_unit = Credits,
      se_budget = 1000, se_spent = 0, se_running = True, se_status = ''active'', se_createdAt = 1,
      se_updatedAt = 1\<rparr>)]"
    by code_simp
  have ok: "budgets_ok ?B" unfolding budgets_ok_def rows by simp
  have sp: "\<forall>k r. map_of (sb_rows ?B) k = Some r \<longrightarrow> 0 \<le> se_spent r"
    unfolding rows by auto
  have "case fst (chat_budget_gate 2 ''a@x'' ''two'' False True [] 1500 ?B) of
      GateOpen _ \<Rightarrow> True | _ \<Rightarrow> False"
    by code_simp
  then obtain v B' where g: "chat_budget_gate 2 ''a@x'' ''two'' False True [] 1500 ?B = (GateOpen v, B')"
    by (cases "chat_budget_gate 2 ''a@x'' ''two'' False True [] 1500 ?B") (auto split: gate_result.splits)
  show ?thesis using g gate_never_double_commits [OF ok sp g] by blast
qed

lemma set_budget_contract_witness:
  "\<exists>v B'. setBudget 3 ''a@x'' ''one'' (Some 0) (Some 1000)
      (snd (recordSpend 2 ''a@x'' ''one'' (Some (1 / 2))
        (snd (ensure_session 1 ''a@x'' ''one'' False ''chat'' [] (Some 1000) (createSessionBudgets None None)))))
      = (BudgetSet v, B')
    \<and> sv_budget v = 0 \<and> sv_spent v = 1 / 2"
proof -
  let ?B = "snd (recordSpend 2 ''a@x'' ''one'' (Some (1 / 2))
        (snd (ensure_session 1 ''a@x'' ''one'' False ''chat'' [] (Some 1000) (createSessionBudgets None None))))"
  let ?row = "\<lparr>se_kind = ''chat'', se_title = [], se_unit = Credits, se_budget = 1000, se_spent = 1 / 2,
      se_running = False, se_status = ''active'', se_createdAt = 1, se_updatedAt = 2\<rparr>"
  have rows: "sb_rows ?B = [((''a@x'', ''one''), ?row)]" by code_simp
  have k: "lc ''a@x'' = ''a@x''" "sid ''one'' = ''one''" by code_simp+
  have r: "map_of (sb_rows ?B) (lc ''a@x'', sid ''one'') = Some ?row" unfolding rows k by simp
  have f: "\<lfloor>1 / 2 :: rat\<rfloor> = 0" by (rule floor_unique) simp_all
  have n: "\<not> available ''a@x'' (Some 1000) ''one'' ?B < - (1 / 2)"
    using available_nonneg [of "''a@x''" "Some 1000" "''one''" ?B] by linarith
  show ?thesis
    using set_budget_contract [where w = 0 and bal = "Some 1000" and t = 3, OF r _ refl refl] n
    by (auto simp: f)
qed

end
