(* ===== verification/VideoMeter.thy ===== *)
theory VideoMeter
  imports Prelude "HOL-Library.List_Lexorder" "HOL-Library.Char_ord" "HOL-Library.Product_Lexorder"
begin

text \<open>
  \<open>video-meter.mjs\<close>: the at-most-once settlement of paid video work.  \<open>settle\<close> claims a key in the
  table, awaits the charge, and records the outcome; the two halves are \<open>settle_begin\<close> and
  \<open>settle_finish\<close>, because anything may happen between them.  \<open>meter_step\<close> is the system: any number
  of settlements in flight, crashes that lose the process but not the table, and operator repairs.
\<close>

section \<open>Keys\<close>

definition is_alnum :: "char \<Rightarrow> bool" where
  "is_alnum c = (let n = (of_char c :: nat) in
     48 \<le> n \<and> n \<le> 57 \<or> 65 \<le> n \<and> n \<le> 90 \<or> 97 \<le> n \<and> n \<le> 122)"

definition key_char :: "char \<Rightarrow> bool" where
  "key_char c = (is_alnum c \<or> c \<in> set '':_-'')"

fun key_of_length :: "nat \<Rightarrow> string \<Rightarrow> bool" where
  "key_of_length n [] = False"
| "key_of_length n (c # cs) = (is_alnum c \<and> list_all key_char cs \<and> length cs \<le> n)"

definition SAFE_KEY :: "string \<Rightarrow> bool" where "SAFE_KEY = key_of_length 255"
definition SAFE_SETTLEMENT_KEY :: "string \<Rightarrow> bool" where "SAFE_SETTLEMENT_KEY = key_of_length 639"

record tenant_id =
  tn_uid :: string
  tn_tenantId :: string
  tn_email :: string

definition or_else :: "string \<Rightarrow> string \<Rightarrow> string" where
  "or_else a b = (if a = [] then b else a)"

text \<open>\<open>None\<close>: the thrown "tenant is required".  \<open>sha\<close> is the hex SHA-256 digest.\<close>

definition tenantKey :: "(string \<Rightarrow> string) \<Rightarrow> tenant_id \<Rightarrow> string option" where
  "tenantKey sha tn =
     (let raw = lc (or_else (tn_uid tn) (or_else (tn_tenantId tn) (tn_email tn))) in
      if raw = [] then None
      else Some (if SAFE_KEY raw then raw else ''tenant_'' @ take 32 (sha raw)))"

record settle_meta =
  md_jobId :: string
  md_billingId :: string
  md_kind :: string
  md_provider :: string

text \<open>\<open>uuid1\<close>, \<open>uuid2\<close>: the two places that may draw a random identifier.\<close>

definition settlementKey :: "string \<Rightarrow> string \<Rightarrow> string \<Rightarrow> settle_meta \<Rightarrow> string" where
  "settlementKey uuid1 uuid2 tenantId md =
     (let jobId = js_trim (md_jobId md) in
      if jobId \<noteq> [] \<and> SAFE_KEY jobId then tenantId @ '':job:'' @ jobId
      else let billingId = js_trim (or_else (md_billingId md) uuid1)
           in tenantId @ '':call:'' @ (if SAFE_KEY billingId then billingId else uuid2))"

section \<open>The table\<close>

record settlement =
  st_tenant :: string
  st_jobId :: "string option"
  st_costUsd :: rat
  st_kind :: string
  st_provider :: string
  st_status :: string
  st_createdAt :: ms
  st_settledAt :: "ms option"
  st_error :: "string option"

record meter =
  vm_rows :: "(string \<times> settlement) list"
  vm_active :: "string list"

definition createVideoMeter :: meter where
  "createVideoMeter = \<lparr>vm_rows = [], vm_active = []\<rparr>"

record public_settlement =
  ps_key :: string
  ps_tenant :: string
  ps_jobId :: "string option"
  ps_costUsd :: rat
  ps_kind :: "string option"
  ps_provider :: "string option"
  ps_status :: string
  ps_createdAt :: ms
  ps_settledAt :: "ms option"
  ps_hasRecordedError :: bool

definition publicSettlement :: "string \<Rightarrow> settlement \<Rightarrow> public_settlement" where
  "publicSettlement key r =
     \<lparr>ps_key = key, ps_tenant = st_tenant r, ps_jobId = st_jobId r, ps_costUsd = st_costUsd r,
      ps_kind = or_null (st_kind r), ps_provider = or_null (st_provider r), ps_status = st_status r,
      ps_createdAt = st_createdAt r, ps_settledAt = st_settledAt r,
      ps_hasRecordedError = (case st_error r of None \<Rightarrow> False | Some e \<Rightarrow> e \<noteq> [])\<rparr>"

definition held :: "settlement \<Rightarrow> bool" where
  "held r = (st_status r = ''pending'' \<or> st_status r = ''failed'')"

definition finish_row :: "string \<Rightarrow> ms \<Rightarrow> string option \<Rightarrow> string \<Rightarrow> meter \<Rightarrow> meter" where
  "finish_row status t err key M =
     M\<lparr>vm_rows := row_upd key (\<lambda>r. r\<lparr>st_status := status, st_settledAt := Some t, st_error := err\<rparr>)
                    (vm_rows M)\<rparr>"

section \<open>Settling\<close>

datatype settle_start =
  SkippedNoCost | TenantRequired | AlreadySettled string rat | RepairRequired string
| Claimed string rat

definition settle_begin ::
  "(string \<Rightarrow> string) \<Rightarrow> string \<Rightarrow> string \<Rightarrow> ms \<Rightarrow> tenant_id \<Rightarrow> jsnum \<Rightarrow> settle_meta \<Rightarrow> meter
    \<Rightarrow> settle_start \<times> meter" where
  "settle_begin sha uuid1 uuid2 t tn costUsd md M =
     (case costUsd of
        None \<Rightarrow> (SkippedNoCost, M)
      | Some amount \<Rightarrow>
          if amount \<le> 0 then (SkippedNoCost, M)
          else case tenantKey sha tn of
            None \<Rightarrow> (TenantRequired, M)
          | Some tenantId \<Rightarrow>
              let key = settlementKey uuid1 uuid2 tenantId md in
              case map_of (vm_rows M) key of
                Some prior \<Rightarrow>
                  if st_status prior = ''settled'' then (AlreadySettled key (st_costUsd prior), M)
                  else (RepairRequired key, M)
              | None \<Rightarrow>
                  (Claimed key amount,
                   M\<lparr>vm_rows := AList.update key
                        \<lparr>st_tenant = tenantId, st_jobId = or_null (md_jobId md), st_costUsd = amount,
                         st_kind = or_else (md_kind md) ''video'', st_provider = md_provider md,
                         st_status = ''pending'', st_createdAt = t, st_settledAt = None, st_error = None\<rparr>
                        (vm_rows M),
                      vm_active := key # vm_active M\<rparr>))"

datatype charge_outcome = Charged | ChargeThrew bool string   \<comment> \<open>safeToRetry, message\<close>

definition settle_finish :: "ms \<Rightarrow> string \<Rightarrow> charge_outcome \<Rightarrow> meter \<Rightarrow> meter" where
  "settle_finish t key res M =
     (let M1 = (case res of
                  Charged \<Rightarrow> finish_row ''settled'' t None key M
                | ChargeThrew safe msg \<Rightarrow>
                    if safe then M\<lparr>vm_rows := AList.delete key (vm_rows M)\<rparr>
                    else finish_row ''failed'' t (Some (take 800 msg)) key M)
      in M1\<lparr>vm_active := removeAll key (vm_active M1)\<rparr>)"

definition listHeld :: "meter \<Rightarrow> public_settlement list" where
  "listHeld M = map (\<lambda>(k, r). publicSettlement k r)
     (sort_key (\<lambda>(k, r). (st_createdAt r, k)) (rows_where (\<lambda>_ r. held r) (vm_rows M)))"

section \<open>Operator repair\<close>

datatype repair_error =
  ACTION_INVALID | KEY_INVALID | CONFIRMATION_REQUIRED | SETTLEMENT_ACTIVE | NOT_FOUND
| STATE_INVALID | CONFLICT | ALREADY_SETTLED

definition exactSettlementKey :: "string \<Rightarrow> bool" where
  "exactSettlementKey k = (k = js_trim k \<and> SAFE_SETTLEMENT_KEY k)"

definition inspect_settlement :: "string \<Rightarrow> meter \<Rightarrow> repair_error + public_settlement option" where
  "inspect_settlement key M =
     (if \<not> exactSettlementKey key then Inl KEY_INVALID
      else Inr (map_option (publicSettlement key) (map_of (vm_rows M) key)))"

datatype repair_action = MarkSettled | RetryNotCharged

definition repair_action_of :: "string \<Rightarrow> repair_action option" where
  "repair_action_of a = (if a = ''mark_settled'' then Some MarkSettled
     else if a = ''retry_not_charged'' then Some RetryNotCharged else None)"

definition repairConfirmation :: "repair_action \<Rightarrow> string \<Rightarrow> string" where
  "repairConfirmation a key =
     (case a of
        MarkSettled \<Rightarrow> ''MARK_SETTLED '' @ key @ '' OPERATOR_VERIFIED_CHARGE_OCCURRED''
      | RetryNotCharged \<Rightarrow> ''RETRY_NOT_CHARGED '' @ key @ '' OPERATOR_VERIFIED_NO_CHARGE'')"

datatype repair_ok =
  RepairAlready public_settlement
| RepairMarked "public_settlement option"
| RepairRemoved string string         \<comment> \<open>key, previous status\<close>

definition repair_settled :: "ms \<Rightarrow> string \<Rightarrow> meter \<Rightarrow> nat \<times> meter" where
  "repair_settled t key M =
     (case map_of (vm_rows M) key of
        Some r \<Rightarrow> if held r then (1, finish_row ''settled'' t None key M) else (0, M)
      | None \<Rightarrow> (0, M))"

definition repair_remove :: "string \<Rightarrow> meter \<Rightarrow> nat \<times> meter" where
  "repair_remove key M =
     (case map_of (vm_rows M) key of
        Some r \<Rightarrow> if held r then (1, M\<lparr>vm_rows := AList.delete key (vm_rows M)\<rparr>) else (0, M)
      | None \<Rightarrow> (0, M))"

definition repair ::
  "ms \<Rightarrow> string \<Rightarrow> string \<Rightarrow> string \<Rightarrow> meter \<Rightarrow> (repair_error + repair_ok) \<times> meter" where
  "repair t action key confirmation M =
     (case repair_action_of action of
        None \<Rightarrow> (Inl ACTION_INVALID, M)
      | Some a \<Rightarrow>
          if \<not> exactSettlementKey key then (Inl KEY_INVALID, M)
          else if confirmation \<noteq> repairConfirmation a key then (Inl CONFIRMATION_REQUIRED, M)
          else if key \<in> set (vm_active M) then (Inl SETTLEMENT_ACTIVE, M)
          else case map_of (vm_rows M) key of
            None \<Rightarrow> (Inl NOT_FOUND, M)
          | Some prior \<Rightarrow>
              (case a of
                 MarkSettled \<Rightarrow>
                   if st_status prior = ''settled'' then (Inr (RepairAlready (publicSettlement key prior)), M)
                   else if \<not> held prior then (Inl STATE_INVALID, M)
                   else let (n, M') = repair_settled t key M
                        in if n \<noteq> 1 then (Inl CONFLICT, M')
                           else (Inr (RepairMarked (map_option (publicSettlement key) (map_of (vm_rows M') key))), M')
               | RetryNotCharged \<Rightarrow>
                   if st_status prior = ''settled'' then (Inl ALREADY_SETTLED, M)
                   else if \<not> held prior then (Inl STATE_INVALID, M)
                   else let (n, M') = repair_remove key M
                        in if n \<noteq> 1 then (Inl CONFLICT, M')
                           else (Inr (RepairRemoved key (st_status prior)), M')))"

section \<open>The system\<close>

text \<open>
  \<open>sy_flight\<close>: the keys whose charge has been requested and not answered.  \<open>sy_landed\<close>: the keys
  whose customer was really charged, one entry per charge.  A charge that throws without
  \<open>safeToRetry\<close>, and a charge in flight when the process dies, may or may not have landed.
\<close>

record meter_sys =
  sy_meter :: meter
  sy_flight :: "string set"
  sy_landed :: "string list"

definition meter_init :: meter_sys where
  "meter_init = \<lparr>sy_meter = createVideoMeter, sy_flight = {}, sy_landed = []\<rparr>"

inductive meter_step :: "(string \<Rightarrow> string) \<Rightarrow> meter_sys \<Rightarrow> meter_sys \<Rightarrow> bool" for sha where
  claim: "settle_begin sha u1 u2 t tn cost md (sy_meter s) = (Claimed key amt, M') \<Longrightarrow>
    meter_step sha s (s\<lparr>sy_meter := M', sy_flight := insert key (sy_flight s)\<rparr>)"
| refused: "settle_begin sha u1 u2 t tn cost md (sy_meter s) = (r, M') \<Longrightarrow> (\<And>k a. r \<noteq> Claimed k a) \<Longrightarrow>
    meter_step sha s (s\<lparr>sy_meter := M'\<rparr>)"
| charged: "key \<in> sy_flight s \<Longrightarrow>
    meter_step sha s (s\<lparr>sy_meter := settle_finish t key Charged (sy_meter s),
      sy_flight := sy_flight s - {key}, sy_landed := key # sy_landed s\<rparr>)"
| threw_safe: "key \<in> sy_flight s \<Longrightarrow>
    meter_step sha s (s\<lparr>sy_meter := settle_finish t key (ChargeThrew True msg) (sy_meter s),
      sy_flight := sy_flight s - {key}\<rparr>)"
| threw: "key \<in> sy_flight s \<Longrightarrow> landed = sy_landed s \<or> landed = key # sy_landed s \<Longrightarrow>
    meter_step sha s (s\<lparr>sy_meter := settle_finish t key (ChargeThrew False msg) (sy_meter s),
      sy_flight := sy_flight s - {key}, sy_landed := landed\<rparr>)"
| crash: "distinct late \<Longrightarrow> set late \<subseteq> sy_flight s \<Longrightarrow>
    meter_step sha s (s\<lparr>sy_meter := (sy_meter s)\<lparr>vm_active := []\<rparr>, sy_flight := {},
      sy_landed := late @ sy_landed s\<rparr>)"
| repaired: "repair t action key conf (sy_meter s) = (r, M') \<Longrightarrow>
    (action = ''retry_not_charged'' \<longrightarrow> key \<notin> set (sy_landed s)) \<Longrightarrow>
    meter_step sha s (s\<lparr>sy_meter := M'\<rparr>)"

inductive meter_reach :: "(string \<Rightarrow> string) \<Rightarrow> meter_sys \<Rightarrow> bool" for sha where
  init: "meter_reach sha meter_init"
| step: "meter_reach sha s \<Longrightarrow> meter_step sha s s' \<Longrightarrow> meter_reach sha s'"

section \<open>Lemmas\<close>

definition has_row :: "string \<Rightarrow> meter \<Rightarrow> bool" where
  "has_row k M \<longleftrightarrow> map_of (vm_rows M) k \<noteq> None"

definition meter_inv :: "meter_sys \<Rightarrow> bool" where
  "meter_inv s \<longleftrightarrow> distinct (sy_landed s)
     \<and> (\<forall>k\<in>set (sy_landed s). has_row k (sy_meter s))
     \<and> (\<forall>k\<in>sy_flight s. has_row k (sy_meter s) \<and> k \<in> set (vm_active (sy_meter s))
          \<and> k \<notin> set (sy_landed s))"

lemma finish_row_has [simp]: "has_row k (finish_row st t e key M) = has_row k M"
  by (simp add: has_row_def finish_row_def row_simps)

lemma finish_row_active [simp]: "vm_active (finish_row st t e key M) = vm_active M"
  by (simp add: finish_row_def)

lemma has_row_active [simp]: "has_row k (M\<lparr>vm_active := a\<rparr>) = has_row k M"
  by (simp add: has_row_def)

lemma has_row_delete:
  "has_row k (M\<lparr>vm_rows := AList.delete key (vm_rows M)\<rparr>) = (k \<noteq> key \<and> has_row k M)"
  by (simp add: has_row_def row_simps)

lemma settle_begin_Claimed:
  "settle_begin sha u1 u2 t tn cost md M = (Claimed key amt, M') \<Longrightarrow>
     \<not> has_row key M \<and> has_row key M' \<and> key \<in> set (vm_active M')
     \<and> set (vm_active M') = insert key (set (vm_active M))
     \<and> (\<forall>k. has_row k M \<longrightarrow> has_row k M') \<and> cost = Some amt \<and> 0 < amt"
  by (auto simp: settle_begin_def Let_def has_row_def row_simps
      split: option.splits if_splits)

lemma settle_begin_refused:
  "settle_begin sha u1 u2 t tn cost md M = (r, M') \<Longrightarrow> (\<And>k a. r \<noteq> Claimed k a) \<Longrightarrow> M' = M"
  by (auto simp: settle_begin_def Let_def split: option.splits if_splits)

lemma settle_finish_sel [simp]:
  "vm_active (settle_finish t key res M) = removeAll key (vm_active M)"
  by (auto simp: settle_finish_def Let_def split: charge_outcome.splits)

lemma settle_finish_has:
  "has_row k (settle_finish t key res M)
     = (has_row k M \<and> \<not> (k = key \<and> (\<exists>msg. res = ChargeThrew True msg)))"
  by (auto simp: settle_finish_def Let_def has_row_def row_simps finish_row_def
      split: charge_outcome.splits if_splits)

lemma repair_settled_eq:
  "map_of (vm_rows M) key = Some r \<Longrightarrow> held r \<Longrightarrow> repair_settled t key M = (1, finish_row ''settled'' t None key M)"
  by (simp add: repair_settled_def)

lemma repair_remove_eq:
  "map_of (vm_rows M) key = Some r \<Longrightarrow> held r \<Longrightarrow>
     repair_remove key M = (1, M\<lparr>vm_rows := AList.delete key (vm_rows M)\<rparr>)"
  by (simp add: repair_remove_def)

lemma repair_cases:
  assumes "repair t action key conf M = (r, M')"
  obtains "M' = M"
  | "key \<notin> set (vm_active M)" "M' = finish_row ''settled'' t None key M"
  | "key \<notin> set (vm_active M)" "action = ''retry_not_charged''"
    "M' = M\<lparr>vm_rows := AList.delete key (vm_rows M)\<rparr>"
proof (cases "repair_action_of action")
  case None
  with assms that(1) show ?thesis by (simp add: repair_def)
next
  case (Some a)
  then have act: "a = RetryNotCharged \<Longrightarrow> action = ''retry_not_charged''"
    by (auto simp: repair_action_of_def split: if_splits)
  show ?thesis
  proof (cases "map_of (vm_rows M) key")
    case None
    with assms Some that(1) show ?thesis by (simp add: repair_def split: if_splits)
  next
    case (Some row)
    show ?thesis
    proof (cases "M' = M")
      case True
      then show ?thesis by (rule that(1))
    next
      case False
      with assms Some \<open>repair_action_of action = Some a\<close>
      show ?thesis using act that(2,3)
        by (cases a) (auto simp: repair_def repair_settled_eq repair_remove_eq split: if_splits)
    qed
  qed
qed

lemma distinct_count_atmost_one: "distinct xs \<Longrightarrow> count_list xs x \<le> 1"
  by (induction xs) (auto simp: count_list_0_iff)

lemma meter_inv_init: "meter_inv meter_init"
  by (simp add: meter_inv_def meter_init_def)

lemma meter_step_inv: "meter_step sha s s' \<Longrightarrow> meter_inv s \<Longrightarrow> meter_inv s'"
proof (induction rule: meter_step.induct)
  case (claim u1 u2 t tn cost md s key amt M')
  then show ?case using settle_begin_Claimed [OF claim.hyps] by (auto simp: meter_inv_def)
next
  case (refused u1 u2 t tn cost md s r M')
  then show ?case using settle_begin_refused [OF refused.hyps] by (simp add: meter_inv_def)
next
  case (repaired t action key conf s r M')
  from repaired.hyps(1) show ?case
    by (rule repair_cases) (use repaired in \<open>auto simp: meter_inv_def has_row_delete\<close>)
qed (auto simp: meter_inv_def settle_finish_has)

lemma meter_reach_inv: "meter_reach sha s \<Longrightarrow> meter_inv s"
  by (induction rule: meter_reach.induct) (auto intro: meter_inv_init meter_step_inv)

section \<open>Properties\<close>

text \<open>C16: no settlement key is ever charged twice.  In every state the system can reach, through any
  interleaving of settlements, answers, failures, crashes and repairs (where the operator who
  releases a claim for retry tells the truth about that one charge), each key has landed at most
  once.\<close>

theorem settlement_charged_at_most_once:
  assumes "meter_reach sha s"
  shows "count_list (sy_landed s) key \<le> 1"
proof -
  have "distinct (sy_landed s)" using meter_reach_inv [OF assms] by (simp add: meter_inv_def)
  then show ?thesis by (rule distinct_count_atmost_one)
qed

text \<open>A run that charges one key, loses the process during a second one, and repairs it.\<close>

lemma settlement_charged_at_most_once_witness:
  "\<exists>s. meter_reach (\<lambda>x. x) s \<and> sy_landed s \<noteq> [] \<and> count_list (sy_landed s) ''t:job:j'' \<le> 1"
proof -
  let ?tn = "\<lparr>tn_uid = ''t'', tn_tenantId = [], tn_email = []\<rparr>"
  let ?md = "\<lparr>md_jobId = ''j'', md_billingId = [], md_kind = [], md_provider = []\<rparr>"
  have "case settle_begin (\<lambda>x. x) [] [] 0 ?tn (Some 2) ?md createVideoMeter of
      (Claimed k a, M) \<Rightarrow> k = ''t:job:j'' | _ \<Rightarrow> False"
    by code_simp
  then obtain a M where b: "settle_begin (\<lambda>x. x) [] [] 0 ?tn (Some 2) ?md createVideoMeter = (Claimed ''t:job:j'' a, M)"
    by (auto split: settle_start.splits prod.splits)
  let ?s1 = "meter_init\<lparr>sy_meter := M, sy_flight := insert ''t:job:j'' (sy_flight meter_init)\<rparr>"
  have 1: "meter_reach (\<lambda>x. x) ?s1"
    by (rule meter_reach.step [OF meter_reach.init meter_step.claim [where tn = ?tn and md = ?md and cost = "Some 2"]])
      (use b in \<open>simp add: meter_init_def\<close>)
  have 2: "meter_step (\<lambda>x. x) ?s1 (?s1\<lparr>sy_meter := settle_finish 5 ''t:job:j'' Charged (sy_meter ?s1),
      sy_flight := sy_flight ?s1 - {''t:job:j''}, sy_landed := ''t:job:j'' # sy_landed ?s1\<rparr>)"
    by (rule meter_step.charged) simp
  note reach = meter_reach.step [OF 1 2]
  show ?thesis using reach settlement_charged_at_most_once [OF reach, of "''t:job:j''"]
    by (intro exI conjI) auto
qed

text \<open>settling is decided by the claim.  A call with no positive finite cost does nothing; a key
  that is settled is answered without a charge; a key that is pending or failed is held; and only a
  key with no row is claimed, which writes a pending row before the charge is requested.\<close>

theorem settle_begin_decides:
  assumes "tenantKey sha tn = Some tenantId" and "key = settlementKey u1 u2 tenantId md"
    and "(outcome, M') = settle_begin sha u1 u2 t tn cost md M"
  shows "outcome =
    (if cost = None \<or> or_zero cost \<le> 0 then SkippedNoCost
     else case map_of (vm_rows M) key of
       Some r \<Rightarrow> if st_status r = ''settled'' then AlreadySettled key (st_costUsd r)
                 else RepairRequired key
     | None \<Rightarrow> Claimed key (or_zero cost))
   \<and> (if \<exists>amount. outcome = Claimed key amount
      then (\<exists>r. map_of (vm_rows M') = (map_of (vm_rows M))(key \<mapsto> r)
              \<and> st_status r = ''pending'' \<and> st_costUsd r = or_zero cost)
      else M' = M)"
  using assms
  by (auto simp: settle_begin_def Let_def row_simps update_conv' split: option.splits if_splits)

lemma settle_begin_decides_witness:
  "\<exists>M'. settle_begin (\<lambda>x. x) [] [] 7 \<lparr>tn_uid = ''t'', tn_tenantId = [], tn_email = []\<rparr> (Some 2)
     \<lparr>md_jobId = ''j'', md_billingId = [], md_kind = [], md_provider = []\<rparr> createVideoMeter
   = (Claimed ''t:job:j'' 2, M')"
proof -
  have k: "tenantKey (\<lambda>x. x) \<lparr>tn_uid = ''t'', tn_tenantId = [], tn_email = []\<rparr> = Some ''t''" by code_simp
  have s: "''t:job:j'' = settlementKey [] [] ''t''
      \<lparr>md_jobId = ''j'', md_billingId = [], md_kind = [], md_provider = []\<rparr>" by code_simp
  obtain oc M' where e: "(oc, M') = settle_begin (\<lambda>x. x) [] [] 7 \<lparr>tn_uid = ''t'', tn_tenantId = [], tn_email = []\<rparr>
     (Some 2) \<lparr>md_jobId = ''j'', md_billingId = [], md_kind = [], md_provider = []\<rparr> createVideoMeter"
    by (metis surj_pair)
  have "oc = Claimed ''t:job:j'' 2"
    using settle_begin_decides [OF k s e] by (simp add: createVideoMeter_def)
  with e show ?thesis by (metis)
qed

end
