(* ===== verification/KeyLock.thy ===== *)
theory KeyLock
  imports Prelude
begin

text \<open>
  \<open>serialized\<close> of \<open>video-billing.mjs\<close>: settlements of one account run one at a time, in the order
  they were requested.  The promise chain per key is a transition system; the invariant says that
  a call that has started has every earlier call of its key behind it.
\<close>

section \<open>Serialising per key\<close>

text \<open>
  \<open>locks\<close> maps a key to the last promise queued for it.  A call is numbered when it queues; it
  remembers the promise it must wait for, starts when that one has settled, and removes the map
  entry on its way out when the entry is still its own.
\<close>

record lock_sys =
  lk_map :: "(string \<times> nat) list"
  lk_calls :: "(string \<times> nat option) list"    \<comment> \<open>call number: key, the promise awaited\<close>
  lk_started :: "nat set"
  lk_settled :: "nat set"

definition lock_init :: lock_sys where
  "lock_init = \<lparr>lk_map = [], lk_calls = [], lk_started = {}, lk_settled = {}\<rparr>"

definition lock_enqueue :: "string \<Rightarrow> lock_sys \<Rightarrow> lock_sys" where
  "lock_enqueue key s =
     (let current = length (lk_calls s) in
      s\<lparr>lk_calls := lk_calls s @ [(key, map_of (lk_map s) key)],
        lk_map := AList.update key current (lk_map s)\<rparr>)"

definition lock_ready :: "nat \<Rightarrow> lock_sys \<Rightarrow> bool" where
  "lock_ready i s = (i < length (lk_calls s) \<and> i \<notin> lk_started s \<and>
     (case snd (lk_calls s ! i) of None \<Rightarrow> True | Some p \<Rightarrow> p \<in> lk_settled s))"

definition lock_start :: "nat \<Rightarrow> lock_sys \<Rightarrow> lock_sys" where
  "lock_start i s = s\<lparr>lk_started := insert i (lk_started s)\<rparr>"

definition lock_settle :: "nat \<Rightarrow> lock_sys \<Rightarrow> lock_sys" where
  "lock_settle i s = s\<lparr>lk_settled := insert i (lk_settled s)\<rparr>"

text \<open>The \<open>finally\<close> block; it runs some time after the operation has settled.\<close>

definition lock_release :: "nat \<Rightarrow> lock_sys \<Rightarrow> lock_sys" where
  "lock_release i s =
     (let key = fst (lk_calls s ! i) in
      if map_of (lk_map s) key = Some i then s\<lparr>lk_map := AList.delete key (lk_map s)\<rparr> else s)"

inductive lock_step :: "lock_sys \<Rightarrow> lock_sys \<Rightarrow> bool" where
  enqueue: "lock_step s (lock_enqueue key s)"
| start: "lock_ready i s \<Longrightarrow> lock_step s (lock_start i s)"
| settle: "i \<in> lk_started s \<Longrightarrow> lock_step s (lock_settle i s)"
| release: "i \<in> lk_settled s \<Longrightarrow> lock_step s (lock_release i s)"

inductive lock_reach :: "lock_sys \<Rightarrow> bool" where
  init: "lock_reach lock_init"
| step: "lock_reach s \<Longrightarrow> lock_step s s' \<Longrightarrow> lock_reach s'"

definition lock_key :: "lock_sys \<Rightarrow> nat \<Rightarrow> string" where
  "lock_key s i = fst (lk_calls s ! i)"

section \<open>Lemmas: mutual exclusion\<close>

definition lock_inv :: "lock_sys \<Rightarrow> bool" where
  "lock_inv s \<longleftrightarrow>
     lk_settled s \<subseteq> lk_started s \<and> (\<forall>i\<in>lk_started s. i < length (lk_calls s))
   \<and> (\<forall>k t. map_of (lk_map s) k = Some t \<longrightarrow> t < length (lk_calls s) \<and> lock_key s t = k
        \<and> (\<forall>j. t < j \<and> j < length (lk_calls s) \<longrightarrow> lock_key s j \<noteq> k))
   \<and> (\<forall>i < length (lk_calls s). map_of (lk_map s) (lock_key s i) = None \<longrightarrow> i \<in> lk_settled s)
   \<and> (\<forall>i j. i < j \<and> j < length (lk_calls s) \<and> lock_key s i = lock_key s j \<longrightarrow>
        i \<in> lk_settled s \<or> (\<exists>p. snd (lk_calls s ! j) = Some p \<and> i \<le> p \<and> p < j \<and> lock_key s p = lock_key s j))
   \<and> (\<forall>i\<in>lk_started s. \<forall>p. snd (lk_calls s ! i) = Some p \<longrightarrow> p \<in> lk_settled s)"

lemmas lock_defs = lock_enqueue_def lock_start_def lock_settle_def lock_release_def lock_key_def Let_def

lemma lock_inv_D:
  assumes "lock_inv s"
  shows "lk_settled s \<subseteq> lk_started s" "i \<in> lk_started s \<Longrightarrow> i < length (lk_calls s)"
    "map_of (lk_map s) k = Some t \<Longrightarrow> t < length (lk_calls s)"
    "map_of (lk_map s) k = Some t \<Longrightarrow> lock_key s t = k"
    "map_of (lk_map s) k = Some t \<Longrightarrow> t < j \<Longrightarrow> j < length (lk_calls s) \<Longrightarrow> lock_key s j \<noteq> k"
    "i < length (lk_calls s) \<Longrightarrow> map_of (lk_map s) (lock_key s i) = None \<Longrightarrow> i \<in> lk_settled s"
    "i \<in> lk_started s \<Longrightarrow> snd (lk_calls s ! i) = Some p \<Longrightarrow> p \<in> lk_settled s"
    "i < j \<Longrightarrow> j < length (lk_calls s) \<Longrightarrow> lock_key s i = lock_key s j \<Longrightarrow> i \<notin> lk_settled s \<Longrightarrow>
      \<exists>p. snd (lk_calls s ! j) = Some p \<and> i \<le> p \<and> p < j \<and> lock_key s p = lock_key s j"
proof -
  note I = assms [unfolded lock_inv_def]
  show "lk_settled s \<subseteq> lk_started s" using I by (elim conjE)
  show "i \<in> lk_started s \<Longrightarrow> i < length (lk_calls s)" using I by (elim conjE) simp
  show "map_of (lk_map s) k = Some t \<Longrightarrow> t < length (lk_calls s)" using I by (elim conjE) metis
  show "map_of (lk_map s) k = Some t \<Longrightarrow> lock_key s t = k" using I by (elim conjE) metis
  show "map_of (lk_map s) k = Some t \<Longrightarrow> t < j \<Longrightarrow> j < length (lk_calls s) \<Longrightarrow> lock_key s j \<noteq> k"
    using I by (elim conjE) metis
  show "i < length (lk_calls s) \<Longrightarrow> map_of (lk_map s) (lock_key s i) = None \<Longrightarrow> i \<in> lk_settled s"
    using I by (elim conjE) simp
  show "i \<in> lk_started s \<Longrightarrow> snd (lk_calls s ! i) = Some p \<Longrightarrow> p \<in> lk_settled s"
    using I by (elim conjE) simp
  show "i < j \<Longrightarrow> j < length (lk_calls s) \<Longrightarrow> lock_key s i = lock_key s j \<Longrightarrow> i \<notin> lk_settled s \<Longrightarrow>
      \<exists>p. snd (lk_calls s ! j) = Some p \<and> i \<le> p \<and> p < j \<and> lock_key s p = lock_key s j"
    using I by (elim conjE) metis
qed

lemma lock_invI:
  assumes "lk_settled s \<subseteq> lk_started s"
    and "\<And>i. i \<in> lk_started s \<Longrightarrow> i < length (lk_calls s)"
    and "\<And>k t. map_of (lk_map s) k = Some t \<Longrightarrow> t < length (lk_calls s) \<and> lock_key s t = k"
    and "\<And>k t j. map_of (lk_map s) k = Some t \<Longrightarrow> t < j \<Longrightarrow> j < length (lk_calls s) \<Longrightarrow> lock_key s j \<noteq> k"
    and "\<And>i. i < length (lk_calls s) \<Longrightarrow> map_of (lk_map s) (lock_key s i) = None \<Longrightarrow> i \<in> lk_settled s"
    and "\<And>i j. i < j \<Longrightarrow> j < length (lk_calls s) \<Longrightarrow> lock_key s i = lock_key s j \<Longrightarrow> i \<notin> lk_settled s \<Longrightarrow>
      \<exists>p. snd (lk_calls s ! j) = Some p \<and> i \<le> p \<and> p < j \<and> lock_key s p = lock_key s j"
    and "\<And>i p. i \<in> lk_started s \<Longrightarrow> snd (lk_calls s ! i) = Some p \<Longrightarrow> p \<in> lk_settled s"
  shows "lock_inv s"
  unfolding lock_inv_def
  by (intro conjI allI impI ballI; (elim conjE)?) (metis assms)+

text \<open>A started call has every earlier call of its key behind it.\<close>

lemma started_after_settled:
  "lock_inv s \<Longrightarrow> j \<in> lk_started s \<Longrightarrow> i < j \<Longrightarrow> lock_key s i = lock_key s j \<Longrightarrow> i \<in> lk_settled s"
proof (induction j arbitrary: i rule: less_induct)
  case (less j)
  have j: "j < length (lk_calls s)" using less.prems by (auto dest: lock_inv_D)
  show ?case
  proof (rule ccontr)
    assume no: "i \<notin> lk_settled s"
    with less.prems j obtain p where p: "snd (lk_calls s ! j) = Some p" "i \<le> p" "p < j"
      "lock_key s p = lock_key s j" using lock_inv_D(8) by blast
    have "p \<in> lk_settled s" using less.prems p(1) by (auto dest: lock_inv_D(7))
    moreover from this have "p \<in> lk_started s" using less.prems(1) lock_inv_D(1) by blast
    ultimately show False using less.IH [of p i] less.prems p no by (cases "i = p") auto
  qed
qed

lemma lock_inv_enqueue: "lock_inv s \<Longrightarrow> lock_inv (lock_enqueue key s)"
proof -
  assume I: "lock_inv s"
  let ?n = "length (lk_calls s)" and ?s = "lock_enqueue key s"
  have keyof: "lock_key ?s i = (if i < ?n then lock_key s i else key)" if "i \<le> ?n" for i
    using that by (auto simp: lock_defs nth_append)
  have len: "length (lk_calls ?s) = Suc ?n" by (simp add: lock_defs)
  have call: "lk_calls ?s ! i = lk_calls s ! i" if "i < ?n" for i
    using that by (simp add: lock_defs nth_append)
  have new: "snd (lk_calls ?s ! ?n) = map_of (lk_map s) key" by (simp add: lock_defs)
  have mp: "map_of (lk_map ?s) k = (if k = key then Some ?n else map_of (lk_map s) k)" for k
    by (simp add: lock_defs row_simps)
  have sets: "lk_started ?s = lk_started s" "lk_settled ?s = lk_settled s" by (simp_all add: lock_defs)
  show ?thesis
  proof (rule lock_invI, unfold len sets)
    show "lk_settled s \<subseteq> lk_started s" using I by (rule lock_inv_D)
    show "i < Suc ?n" if "i \<in> lk_started s" for i using lock_inv_D(2) [OF I that] by simp
    show "t < Suc ?n \<and> lock_key ?s t = k" if "map_of (lk_map ?s) k = Some t" for k t
      using that mp keyof [of t] lock_inv_D(3,4) [OF I, of k t] by (auto split: if_splits)
    show "lock_key ?s j \<noteq> k" if "map_of (lk_map ?s) k = Some t" "t < j" "j < Suc ?n" for k t j
      using that mp [of k] keyof [of j] lock_inv_D(5) [OF I, of k t j] by (auto split: if_splits)
    show "i \<in> lk_settled s" if "i < Suc ?n" "map_of (lk_map ?s) (lock_key ?s i) = None" for i
      using that mp keyof [of i] lock_inv_D(6) [OF I, of i] by (auto split: if_splits)
    show "p \<in> lk_settled s" if "i \<in> lk_started s" "snd (lk_calls ?s ! i) = Some p" for i p
      using that call [of i] lock_inv_D(2,7) [OF I, of i] by auto
  next
    fix i j
    assume h: "i < j" "j < Suc ?n" "lock_key ?s i = lock_key ?s j" "i \<notin> lk_settled s"
    show "\<exists>p. snd (lk_calls ?s ! j) = Some p \<and> i \<le> p \<and> p < j \<and> lock_key ?s p = lock_key ?s j"
    proof (cases "j = ?n")
      case True
      then have i: "i < ?n" "lock_key s i = key" using h keyof by auto
      then obtain t where t: "map_of (lk_map s) key = Some t"
        using h(4) lock_inv_D(6) [OF I, of i] by auto
      have "i \<le> t" using lock_inv_D(5) [OF I t, of i] i by (meson not_le)
      then show ?thesis
        using t True new keyof [of t] keyof [of j] lock_inv_D(3,4) [OF I t] by (intro exI [of _ t]) simp
    next
      case False
      then have j: "j < ?n" "lock_key s i = lock_key s j" using h keyof by auto
      then obtain p where "snd (lk_calls s ! j) = Some p" "i \<le> p" "p < j" "lock_key s p = lock_key s j"
        using lock_inv_D(8) [OF I h(1)] h(4) by blast
      then show ?thesis using keyof [of p] keyof [of j] call [of j] j by (intro exI [of _ p]) simp
    qed
  qed
qed

lemma lock_inv_start: "lock_inv s \<Longrightarrow> lock_ready i s \<Longrightarrow> lock_inv (lock_start i s)"
  unfolding lock_inv_def lock_ready_def lock_start_def
  by (auto simp: lock_key_def split: option.splits)

lemma lock_inv_settle: "lock_inv s \<Longrightarrow> i \<in> lk_started s \<Longrightarrow> lock_inv (lock_settle i s)"
  unfolding lock_inv_def lock_settle_def by (auto simp: lock_key_def)

lemma lock_inv_release:
  assumes I: "lock_inv s" and d: "i \<in> lk_settled s"
  shows "lock_inv (lock_release i s)"
proof (cases "map_of (lk_map s) (lock_key s i) = Some i")
  case True
  have st: "i \<in> lk_started s" using I d lock_inv_D(1) by blast
  have settled: "j \<in> lk_settled s" if "j < length (lk_calls s)" "lock_key s j = lock_key s i" for j
    using that started_after_settled [OF I st] lock_inv_D(5) [OF I True] d
    by (cases j i rule: linorder_cases) auto
  have map': "map_of (lk_map (lock_release i s)) k = (if k = lock_key s i then None else map_of (lk_map s) k)" for k
    using True by (simp add: lock_defs row_simps)
  have rest: "lk_started (lock_release i s) = lk_started s" "lk_settled (lock_release i s) = lk_settled s"
    "lk_calls (lock_release i s) = lk_calls s" "lock_key (lock_release i s) = lock_key s"
    using True by (auto simp: lock_defs fun_eq_iff)
  show ?thesis
  proof (rule lock_invI, unfold map' rest)
    show "lk_settled s \<subseteq> lk_started s" using I by (rule lock_inv_D)
    show "j < length (lk_calls s)" if "j \<in> lk_started s" for j using lock_inv_D(2) [OF I that] .
    show "t < length (lk_calls s) \<and> lock_key s t = k"
      if "(if k = lock_key s i then None else map_of (lk_map s) k) = Some t" for k t
      using that lock_inv_D(3,4) [OF I, of k t] by (simp split: if_splits)
    show "lock_key s j \<noteq> k" if "(if k = lock_key s i then None else map_of (lk_map s) k) = Some t"
      "t < j" "j < length (lk_calls s)" for k t j
      using that lock_inv_D(5) [OF I, of k t j] by (simp split: if_splits)
    show "j \<in> lk_settled s" if "j < length (lk_calls s)"
      "(if lock_key s j = lock_key s i then None else map_of (lk_map s) (lock_key s j)) = None" for j
      using that settled [of j] lock_inv_D(6) [OF I, of j] by (simp split: if_splits)
    show "p \<in> lk_settled s" if "j \<in> lk_started s" "snd (lk_calls s ! j) = Some p" for j p
      using lock_inv_D(7) [OF I that] .
    show "\<exists>p. snd (lk_calls s ! j) = Some p \<and> j' \<le> p \<and> p < j \<and> lock_key s p = lock_key s j"
      if "j' < j" "j < length (lk_calls s)" "lock_key s j' = lock_key s j" "j' \<notin> lk_settled s" for j' j
      using lock_inv_D(8) [OF I that] .
  qed
next
  case False
  with I show ?thesis by (simp add: lock_release_def lock_key_def Let_def)
qed

lemma lock_inv_reach: "lock_reach s \<Longrightarrow> lock_inv s"
proof (induction rule: lock_reach.induct)
  case init
  then show ?case by (simp add: lock_inv_def lock_init_def)
next
  case (step s s')
  from step(2) step(3) show ?case
    by (cases rule: lock_step.cases) (auto intro: lock_inv_enqueue lock_inv_start lock_inv_settle lock_inv_release)
qed

text \<open>C18: settlements of one account never overlap and run in order.  In every reachable state, through
  any interleaving of calls, completions and clean-ups, when a call has started, every call queued
  before it under the same key has started and has settled.\<close>

theorem video_settlements_serialised:
  assumes "lock_reach s" and "j \<in> lk_started s" and "i < j" and "lock_key s i = lock_key s j"
  shows "i \<in> lk_started s \<and> i \<in> lk_settled s"
  using assms started_after_settled lock_inv_reach lock_inv_D(1) by blast

lemma video_settlements_serialised_witness:
  "\<exists>s. lock_reach s \<and> lock_key s 0 = lock_key s 1 \<and> 1 \<in> lk_started s \<and> 0 \<in> lk_settled s"
proof -
  let ?s1 = "lock_enqueue ''a'' lock_init"
  let ?s2 = "lock_enqueue ''a'' ?s1"
  let ?s3 = "lock_start 0 ?s2"
  let ?s4 = "lock_settle 0 ?s3"
  let ?s5 = "lock_start 1 ?s4"
  have "lock_ready 0 ?s2" "0 \<in> lk_started ?s3" "lock_ready 1 ?s4"
    by (simp_all add: lock_ready_def lock_defs lock_init_def)
  then have r5: "lock_reach ?s5"
    by (intro lock_reach.step [OF _ lock_step.start] lock_reach.step [OF _ lock_step.settle]
        lock_reach.step [OF _ lock_step.enqueue] lock_reach.init) simp_all
  have k: "lock_key ?s5 0 = lock_key ?s5 1" by (simp add: lock_defs lock_init_def)
  have "0 \<in> lk_settled ?s5"
    using video_settlements_serialised [OF r5 _ _ k] by (simp add: lock_defs)
  with r5 k show ?thesis by (intro exI [of _ ?s5]) (simp add: lock_defs)
qed

end
