(* ===== verification/VideoBilling.thy ===== *)
theory VideoBilling
  imports Billing_Facts KeyLock
begin

text \<open>
  \<open>video-billing.mjs\<close>: the settlement of a finished video.  The full price is funded by forced
  top-ups before one exact debit.  Every \<open>await\<close> lets other requests run: \<open>env i\<close> is what they do
  to the money state at the \<open>i\<close>-th suspension, an arbitrary function in the theorems.  The
  per-account serialisation of whole settlements is the transition system of \<open>KeyLock\<close>.
\<close>

section \<open>Outcomes\<close>

datatype video_error =
  VIDEO_COST_INVALID | VIDEO_SPONSORED_BILLING_UNAVAILABLE | VIDEO_ACCOUNT_NOT_BILLABLE
| VIDEO_AUTOTOPUP_REQUIRED | VIDEO_AUTOTOPUP_LIMIT | VIDEO_AUTOTOPUP_FAILED
| VIDEO_SETTLEMENT_MISMATCH

definition video_safeToRetry :: "video_error \<Rightarrow> bool" where
  "video_safeToRetry e = (e = VIDEO_AUTOTOPUP_REQUIRED \<or> e = VIDEO_AUTOTOPUP_LIMIT)"

record video_tenant =
  vt_isOwner :: bool
  vt_role :: string
  vt_email :: string

datatype video_charge =
  VideoOwner rat
| VideoSponsored rat
| VideoCharged charge_turn_result "recharge_result list" "recharge_result option"

section \<open>Funding\<close>

definition recharged_ok :: "recharge_result \<Rightarrow> bool" where
  "recharged_ok r = (case r of RechargeOk _ \<Rightarrow> True | _ \<Rightarrow> False)"

text \<open>\<open>await billing.autoRecharge(email, ...)\<close>: other requests run while the processor answers and
  again before the caller resumes.\<close>

definition await_recharge ::
  "(nat \<Rightarrow> money \<Rightarrow> money) \<Rightarrow> (nat \<Rightarrow> ms) \<Rightarrow> (charge_req \<Rightarrow> charge_res) option \<Rightarrow> bool \<Rightarrow> string
    \<Rightarrow> nat \<Rightarrow> money \<Rightarrow> recharge_result \<times> money" where
  "await_recharge env time charge force email i m =
     (case autoRecharge_begin (time i) (time i) (charge \<noteq> None) force email m of
        (Inl res, m1) \<Rightarrow> (res, env (2 * i) m1)
      | (Inr (req, r), m1) \<Rightarrow>
          let m2 = env (2 * i) m1;
              (res, m3) = autoRecharge_finish (time i) (time i) (rq_email req) r (the charge req) m2
          in (res, env (2 * i + 1) m3))"

text \<open>\<open>left\<close> counts down from \<open>maxTopups\<close>; the attempt number only numbers the suspensions.\<close>

fun topup_loop ::
  "(nat \<Rightarrow> money \<Rightarrow> money) \<Rightarrow> (nat \<Rightarrow> ms) \<Rightarrow> (charge_req \<Rightarrow> charge_res) option \<Rightarrow> string \<Rightarrow> rat
    \<Rightarrow> nat \<Rightarrow> nat \<Rightarrow> recharge_result list \<Rightarrow> account_view \<Rightarrow> money
    \<Rightarrow> (video_error + recharge_result list \<times> account_view) \<times> money" where
  "topup_loop env time charge email required left attempt recharges account m =
     (if \<not> av_balance account + 1 / 1000000000 < required then (Inr (recharges, account), m)
      else if \<not> av_autorecharge account then (Inl VIDEO_AUTOTOPUP_REQUIRED, m)
      else case left of
        0 \<Rightarrow> (Inl VIDEO_AUTOTOPUP_LIMIT, m)
      | Suc left' \<Rightarrow>
          let (recharge, m1) = await_recharge env time charge True email attempt m;
              (acct, b2) = account_of (time attempt) email (fst m1);
              m2 = (b2, snd m1)
          in case acct of
               None \<Rightarrow> (Inl VIDEO_AUTOTOPUP_FAILED, m2)
             | Some acct' \<Rightarrow>
                 if \<not> recharged_ok recharge \<or> av_balance acct' \<le> av_balance account
                 then (Inl VIDEO_AUTOTOPUP_FAILED, m2)
                 else topup_loop env time charge email required left' (Suc attempt)
                        (recharges @ [recharge]) acct' m2)"

declare topup_loop.simps [simp del]

section \<open>The debit\<close>

definition settlement_mismatch :: "rat \<Rightarrow> rat \<Rightarrow> charge_turn_result \<Rightarrow> bool" where
  "settlement_mismatch required beforeCharge c =
     (\<bar>ct_deducted c - required\<bar> > 1 / 1000000
      \<or> \<bar>beforeCharge - ct_balance c - required\<bar> > 1 / 1000000
      \<or> ct_balance c < - (1 / 1000000))"

definition video_debit ::
  "(nat \<Rightarrow> money \<Rightarrow> money) \<Rightarrow> (nat \<Rightarrow> ms) \<Rightarrow> (charge_req \<Rightarrow> charge_res) option \<Rightarrow> string \<Rightarrow> rat \<Rightarrow> rat
    \<Rightarrow> nat \<Rightarrow> recharge_result list \<Rightarrow> account_view \<Rightarrow> money \<Rightarrow> (video_error + video_charge) \<times> money" where
  "video_debit env time charge email costUsd required n recharges account m =
     (case chargeTurn (time n) email (Some costUsd) (fst m) of
        (None, b1) \<Rightarrow> (Inl VIDEO_SETTLEMENT_MISMATCH, (b1, snd m))
      | (Some c, b1) \<Rightarrow>
          if settlement_mismatch required (av_balance account) c
          then (Inl VIDEO_SETTLEMENT_MISMATCH, (b1, snd m))
          else if \<not> ct_low c then (Inr (VideoCharged c recharges None), (b1, snd m))
          else case account_of (time n) email b1 of
            (Some a, b2) \<Rightarrow>
              if av_autorecharge a then
                let (r, m3) = await_recharge env time charge False email n (b2, snd m)
                in (Inr (VideoCharged c recharges (Some r)), m3)
              else (Inr (VideoCharged c recharges None), (b2, snd m))
          | (None, b2) \<Rightarrow> (Inr (VideoCharged c recharges None), (b2, snd m)))"

definition settleVideoCharge ::
  "(nat \<Rightarrow> money \<Rightarrow> money) \<Rightarrow> (nat \<Rightarrow> ms) \<Rightarrow> (charge_req \<Rightarrow> charge_res) option \<Rightarrow> bool \<Rightarrow> nat \<Rightarrow> string
    \<Rightarrow> (rat \<Rightarrow> jsnum) \<Rightarrow> video_tenant option \<Rightarrow> jsnum \<Rightarrow> money \<Rightarrow> (video_error + video_charge) \<times> money" where
  "settleVideoCharge env time charge multiTenant maxTopups period cost_credits tenant rawCostUsd m =
     (case rawCostUsd of
        None \<Rightarrow> (Inl VIDEO_COST_INVALID, m)
      | Some costUsd \<Rightarrow>
          if costUsd < 0 then (Inl VIDEO_COST_INVALID, m)
          else case (if multiTenant then tenant else None) of
            None \<Rightarrow> (Inr (VideoOwner costUsd), m)
          | Some T \<Rightarrow>
              if vt_isOwner T then (Inr (VideoOwner costUsd), m)
              else if vt_role T = ''sponsored'' then
                (case snd m of
                   None \<Rightarrow> (Inl VIDEO_SPONSORED_BILLING_UNAVAILABLE, m)
                 | Some us \<Rightarrow> (Inr (VideoSponsored costUsd),
                     (fst m, Some (snd (addSponsoredSpend (time 0) period (vt_email T) (Some costUsd) us)))))
              else let email = lc (vt_email T) in
                if vt_role T \<noteq> ''credit'' \<or> email = [] then (Inl VIDEO_ACCOUNT_NOT_BILLABLE, m)
                else case cost_credits costUsd of
                  None \<Rightarrow> (Inl VIDEO_COST_INVALID, m)
                | Some required \<Rightarrow>
                    if required < 0 then (Inl VIDEO_COST_INVALID, m)
                    else case account_of (time 0) email (fst m) of
                      (None, b0) \<Rightarrow> (Inl VIDEO_ACCOUNT_NOT_BILLABLE, (b0, snd m))
                    | (Some account, b0) \<Rightarrow>
                        case topup_loop env time charge email required maxTopups 0 [] account (b0, snd m) of
                          (Inl err, m1) \<Rightarrow> (Inl err, m1)
                        | (Inr (recharges, account'), m1) \<Rightarrow>
                            video_debit env time charge email costUsd required (length recharges)
                              recharges account' m1)"

section \<open>The contract of an exact debit\<close>

text \<open>
  What the settlement needs of a ledger: balances and prices are whole micro-credits, and a covered
  debit takes exactly the price.  Then the \<open>1e-9\<close> slack of the funding test never lets an uncovered
  debit through, and the consistency check after the debit cannot fail.
\<close>

locale exact_debit =
  fixes inv :: "'s \<Rightarrow> bool" and bal :: "'s \<Rightarrow> rat" and price :: "'c \<Rightarrow> rat"
    and debit :: "'c \<Rightarrow> 's \<Rightarrow> charge_turn_result option"
  assumes bal_unit: "inv s \<Longrightarrow> is_micro (bal s)" and bal_nonneg: "inv s \<Longrightarrow> 0 \<le> bal s"
    and price_unit: "is_micro (price c)"
    and covered: "inv s \<Longrightarrow> price c \<le> bal s \<Longrightarrow>
      \<exists>res. debit c s = Some res \<and> ct_deducted res = price c \<and> ct_balance res = bal s - price c"
begin

lemma slack_is_exact: "inv s \<Longrightarrow> \<not> bal s + 1 / 1000000000 < price c \<Longrightarrow> price c \<le> bal s"
proof -
  assume "inv s" and le: "\<not> bal s + 1 / 1000000000 < price c"
  then obtain k l where kl: "bal s = of_int k / CREDIT_DP" "price c = of_int l / CREDIT_DP"
    using bal_unit price_unit unfolding is_micro_def by meson
  with le have "(of_int (l - k) :: rat) \<le> 1 / 1000" by (simp add: CREDIT_DP_def field_simps)
  then have "(of_int (l - k) :: rat) < of_int 1" by (rule order.strict_trans1) simp
  then have "l - k < 1" by (simp only: of_int_less_iff)
  then show ?thesis unfolding kl by (simp add: CREDIT_DP_def divide_right_mono)
qed

lemma funded_debit:
  assumes "inv s" and "\<not> bal s + 1 / 1000000000 < price c"
  shows "\<exists>res. debit c s = Some res \<and> ct_deducted res = price c \<and> ct_balance res = bal s - price c
    \<and> price c \<le> bal s \<and> \<not> settlement_mismatch (price c) (bal s) res"
  using covered [OF assms(1) slack_is_exact [OF assms]] slack_is_exact [OF assms]
  by (auto simp: settlement_mismatch_def)

end

definition acct_inv :: "string \<Rightarrow> billing \<Rightarrow> bool" where
  "acct_inv e b \<longleftrightarrow> ledger_inv b \<and> lc e \<noteq> [] \<and> map_of (bl_credits b) (lc e) \<noteq> None"

definition acct_bal :: "string \<Rightarrow> billing \<Rightarrow> rat" where
  "acct_bal e b = (case map_of (bl_credits b) (lc e) of None \<Rightarrow> 0 | Some r \<Rightarrow> cr_balance r)"

lemma is_micro_price [simp]: "is_micro (creditsForCostUsd u)"
  by (simp add: creditsForCostUsd_def Let_def)

lemma acct_bal_ok: "acct_inv e b \<Longrightarrow> is_micro (acct_bal e b) \<and> 0 \<le> acct_bal e b"
  by (auto simp: acct_inv_def acct_bal_def ledger_inv_def simp del: map_of_eq_Some_iff)

lemma chargeTurn_eq:
  assumes "acct_inv e b"
  shows "chargeTurn t e u b =
    (Some \<lparr>ct_balance = max 0 (acct_bal e b - creditsForCostUsd u), ct_deducted = creditsForCostUsd u,
           ct_low = (max 0 (acct_bal e b - creditsForCostUsd u) \<le> RECHARGE_THRESHOLD)\<rparr>,
     (upd_credit (lc e) (\<lambda>r. r\<lparr>cr_balance := max 0 (acct_bal e b - creditsForCostUsd u), cr_updatedAt := t\<rparr>) b)
       \<lparr>bl_ledger := bl_ledger b @ [\<lparr>lg_email = lc e, lg_delta = - creditsForCostUsd u,
          lg_reason = TurnCost (or_zero u),
          lg_balanceAfter = max 0 (acct_bal e b - creditsForCostUsd u), lg_ts = t\<rparr>]\<rparr>)"
proof -
  obtain r where r: "map_of (bl_credits b) (lc e) = Some r" "cr_balance r = acct_bal e b"
    using assms by (auto simp: acct_inv_def acct_bal_def simp del: map_of_eq_Some_iff)
  have m: "is_micro (- creditsForCostUsd u)" by (rule is_micro_minus) (rule is_micro_price)
  have "is_micro (acct_bal e b)" using acct_bal_ok [OF assms] ..
  from round_micro [OF is_micro_add [OF this m]]
  have "roundCredits (acct_bal e b + - creditsForCostUsd u) = acct_bal e b - creditsForCostUsd u" by simp
  moreover have "roundCredits (- creditsForCostUsd u) = - creditsForCostUsd u" by (rule round_micro [OF m])
  ultimately show ?thesis
    using assms r by (simp add: chargeTurn_def apply_credits_Some acct_inv_def Let_def)
qed

lemma chargeTurn_books: "acct_inv e b \<Longrightarrow> chargeTurn t e u b = (Some c, b1) \<Longrightarrow> acct_bal e b1 = ct_balance c"
  by (auto simp: chargeTurn_eq acct_bal_def acct_inv_def upd_credit_def row_simps simp del: map_of_eq_Some_iff)

interpretation video: exact_debit "acct_inv e" "acct_bal e" creditsForCostUsd
    "\<lambda>u b. fst (chargeTurn t e u b)" for e t
proof
  fix s c
  assume "acct_inv e s" and "creditsForCostUsd c \<le> acct_bal e s"
  then show "\<exists>res. fst (chargeTurn t e c s) = Some res \<and> ct_deducted res = creditsForCostUsd c
      \<and> ct_balance res = acct_bal e s - creditsForCostUsd c"
    by (simp add: chargeTurn_eq)
qed (simp_all add: acct_bal_ok)

section \<open>What a suspension keeps\<close>

definition turn_debits :: "string \<Rightarrow> billing \<Rightarrow> ledger_row list" where
  "turn_debits e b = filter (\<lambda>l. lg_email l = e \<and> (\<exists>c. lg_reason l = TurnCost c)) (bl_ledger b)"

text \<open>Other requests may do anything that keeps the ledger consistent; \<open>quiet\<close> ones debit no turn of
  the account.\<close>

definition honest_env :: "(nat \<Rightarrow> money \<Rightarrow> money) \<Rightarrow> bool" where
  "honest_env env \<longleftrightarrow> (\<forall>i m. ledger_inv (fst m) \<longrightarrow> ledger_inv (fst (env i m)))"

definition quiet_env :: "string \<Rightarrow> (nat \<Rightarrow> money \<Rightarrow> money) \<Rightarrow> bool" where
  "quiet_env e env \<longleftrightarrow> (\<forall>i m. turn_debits e (fst (env i m)) = turn_debits e (fst m))"

lemma honest_envD: "honest_env env \<Longrightarrow> ledger_inv (fst m) \<Longrightarrow> ledger_inv (fst (env i m))"
  by (simp only: honest_env_def)

lemma quiet_envD: "quiet_env e env \<Longrightarrow> turn_debits e (fst (env i m)) = turn_debits e (fst m)"
  by (simp only: quiet_env_def)

lemma turn_debits_ensure [simp]: "turn_debits e (snd (ensure_account t e' b)) = turn_debits e b"
  by (simp add: turn_debits_def)

lemma turn_debits_apply:
  "(\<And>c. w \<noteq> TurnCost c) \<Longrightarrow> turn_debits e (snd (apply_credits t e' d w b)) = turn_debits e b"
  by (simp add: turn_debits_def apply_credits_def Let_def upd_credit_def case_prod_beta split: option.splits)

lemma begin_debits:
  "turn_debits e (fst (snd (autoRecharge_begin c t h force e' m))) = turn_debits e (fst m)"
  by (simp add: autoRecharge_begin_def Let_def case_prod_beta split: option.splits)

lemma finish_debits:
  "turn_debits e (fst (snd (autoRecharge_finish c t e' r res m))) = turn_debits e (fst m)"
  by (auto simp: autoRecharge_finish_def grantUsd_def set_fails_def upd_credit_def Let_def turn_debits_def
      turn_debits_apply [unfolded turn_debits_def] split: charge_res.splits)

lemma await_keeps_ledger:
  assumes "honest_env env" and "ledger_inv (fst m)"
  shows "ledger_inv (fst (snd (await_recharge env time charge force e i m)))"
  using ledger.I_recharge_begin [OF assms(2)] unfolding await_recharge_def
  by (simp add: Let_def case_prod_beta ledger.I_recharge_finish honest_envD [OF assms(1)] split: sum.splits)

lemma await_keeps_debits:
  assumes "quiet_env e env"
  shows "turn_debits e (fst (snd (await_recharge env time charge force e' i m))) = turn_debits e (fst m)"
  unfolding await_recharge_def
  by (simp add: Let_def case_prod_beta begin_debits finish_debits quiet_envD [OF assms] split: sum.splits)

lemma account_of_acct:
  assumes "lc e \<noteq> []" and "ledger_inv b"
  obtains a b' where "account_of t e b = (Some a, b')" "acct_inv e b'" "av_balance a = acct_bal e b'"
    "b' = snd (ensure_account t e b)"
proof -
  have g: "map_of (bl_credits (snd (ensure_account t e b))) (lc e)
      = Some (case map_of (bl_credits b) (lc e) of None \<Rightarrow> new_credit_row t | Some r \<Rightarrow> r)"
    using assms by (auto simp: ensure_account_get split: option.splits)
  with assms show ?thesis
    by (intro that [of _ "snd (ensure_account t e b)"])
      (auto simp: account_of_def case_prod_beta ensure_account_fst acct_inv_def acct_bal_def ledger_inv_ensure)
qed

section \<open>Funding loop\<close>

lemma topup_loop_funds:
  assumes "topup_loop env time charge e required left attempt rs a m = (Inr (rs', a'), m')"
    and "honest_env env" and "acct_inv e (fst m)" and "av_balance a = acct_bal e (fst m)"
  shows "acct_inv e (fst m') \<and> av_balance a' = acct_bal e (fst m')
    \<and> \<not> acct_bal e (fst m') + 1 / 1000000000 < required \<and> length rs' \<le> length rs + left"
  using assms
proof (induction left arbitrary: attempt rs a m)
  case 0
  then show ?case by (auto simp: topup_loop.simps [of _ _ _ _ _ 0] split: if_splits)
next
  case (Suc left)
  show ?case
  proof (cases "\<not> av_balance a + 1 / 1000000000 < required \<or> \<not> av_autorecharge a")
    case True
    with Suc.prems show ?thesis by (auto simp: topup_loop.simps [of _ _ _ _ _ "Suc left"] split: if_splits)
  next
    case False
    obtain r m1 where m1: "await_recharge env time charge True e attempt m = (r, m1)" by (metis surj_pair)
    have "ledger_inv (fst m1)"
      using await_keeps_ledger [of env m] Suc.prems(2,3) m1 by (metis acct_inv_def snd_conv)
    moreover have "lc e \<noteq> []" using Suc.prems(3) by (simp add: acct_inv_def)
    ultimately obtain a2 b2 where a2: "account_of (time attempt) e (fst m1) = (Some a2, b2)" "acct_inv e b2"
      "av_balance a2 = acct_bal e b2" by (metis account_of_acct)
    from Suc.prems(1) False m1 a2(1) have "recharged_ok r"
      "topup_loop env time charge e required left (Suc attempt) (rs @ [r]) a2 (b2, snd m1) = (Inr (rs', a'), m')"
      by (auto simp: topup_loop.simps [of _ _ _ _ _ "Suc left"] Let_def split: if_splits)
    from Suc.IH [OF this(2) Suc.prems(2)] a2 show ?thesis by simp
  qed
qed

lemma topup_loop_debits:
  assumes "quiet_env e env"
  shows "turn_debits e (fst (snd (topup_loop env time charge e' required left attempt rs a m))) = turn_debits e (fst m)"
proof (induction left arbitrary: attempt rs a m)
  case 0
  then show ?case by (simp add: topup_loop.simps [of _ _ _ _ _ 0])
next
  case (Suc left)
  have "turn_debits e (snd (account_of t e' b)) = turn_debits e b" for t b
    by (simp add: account_of_def case_prod_beta)
  with assms show ?case
    by (simp add: topup_loop.simps [of _ _ _ _ _ "Suc left"] Let_def case_prod_beta Suc.IH
        await_keeps_debits split: option.splits)
qed

lemma topup_no_mismatch:
  "topup_loop env time charge e required left attempt rs a m = (Inl err, m') \<Longrightarrow> err \<noteq> VIDEO_SETTLEMENT_MISMATCH"
proof (induction left arbitrary: attempt rs a m)
  case 0
  then show ?case by (auto simp: topup_loop.simps [of _ _ _ _ _ 0] split: if_splits)
next
  case (Suc left)
  then show ?case
    by (auto simp: topup_loop.simps [of _ _ _ _ _ "Suc left"] Let_def split: if_splits prod.splits option.splits)
qed

text \<open>On a funded account the debit goes through, takes the price, and is the only debit made.\<close>

lemma video_debit_charges:
  assumes "acct_inv e (fst m)" and "av_balance a = acct_bal e (fst m)"
    and "\<not> acct_bal e (fst m) + 1 / 1000000000 < creditsForCostUsd (Some cost)"
  obtains c th m' b1 where
    "video_debit env time charge e cost (creditsForCostUsd (Some cost)) n rs a m
       = (Inr (VideoCharged c rs th), m')"
    "chargeTurn (time n) e (Some cost) (fst m) = (Some c, b1)" "acct_bal e b1 = ct_balance c"
    "ct_deducted c = creditsForCostUsd (Some cost)"
    "ct_balance c = acct_bal e (fst m) - creditsForCostUsd (Some cost)"
    "creditsForCostUsd (Some cost) \<le> acct_bal e (fst m)"
    "quiet_env (lc e) env \<Longrightarrow>
      \<exists>l. turn_debits (lc e) (fst m') = turn_debits (lc e) (fst m) @ [l] \<and> lg_delta l = - creditsForCostUsd (Some cost)"
proof -
  let ?p = "creditsForCostUsd (Some cost)"
  obtain c b1 where c: "chargeTurn (time n) e (Some cost) (fst m) = (Some c, b1)" "ct_deducted c = ?p"
    "ct_balance c = acct_bal e (fst m) - ?p" "?p \<le> acct_bal e (fst m)"
    "\<not> settlement_mismatch ?p (acct_bal e (fst m)) c"
    using video.funded_debit [OF assms(1,3), of "time n"] by (metis prod.collapse)
  note bk = chargeTurn_books [OF assms(1) c(1)]
  obtain l where l: "turn_debits (lc e) b1 = turn_debits (lc e) (fst m) @ [l]" "lg_delta l = - ?p"
    using c(1) assms(1) by (auto simp: chargeTurn_eq turn_debits_def upd_credit_def)
  obtain ao b2 where ao: "account_of (time n) e b1 = (ao, b2)" by (metis surj_pair)
  then have d2: "turn_debits (lc e) b2 = turn_debits (lc e) b1"
    by (auto simp: account_of_def case_prod_beta)
  obtain r m3 where r: "await_recharge env time charge False e n (b2, snd m) = (r, m3)" by (metis surj_pair)
  have d3: "turn_debits (lc e) (fst m3) = turn_debits (lc e) b2" if "quiet_env (lc e) env"
    using await_keeps_debits [OF that, of time charge False e n "(b2, snd m)"] r by simp
  have ok: "\<not> settlement_mismatch ?p (av_balance a) c" using assms(2) c(5) by simp
  consider (plain) "\<not> ct_low c" | (none) "ct_low c" "ao = None"
    | (off) v where "ct_low c" "ao = Some v" "\<not> av_autorecharge v"
    | (low) v where "ct_low c" "ao = Some v" "av_autorecharge v"
    by (cases ao) auto
  then show ?thesis
  proof cases
    case plain
    with ok c bk l show ?thesis by (intro that [of c None "(b1, snd m)" b1]) (simp_all add: video_debit_def)
  next
    case none
    with ok c bk l ao d2 show ?thesis
      by (intro that [of c None "(b2, snd m)" b1]) (simp_all add: video_debit_def)
  next
    case off
    with ok c bk l ao d2 show ?thesis
      by (intro that [of c None "(b2, snd m)" b1]) (simp_all add: video_debit_def)
  next
    case low
    with ok c bk l ao d2 d3 r show ?thesis
      by (intro that [of c "Some r" m3 b1]) (simp_all add: video_debit_def Let_def)
  qed
qed

section \<open>Properties\<close>

lemmas credit_settlement = settleVideoCharge_def Let_def

definition billable :: "video_tenant \<Rightarrow> bool" where
  "billable T \<longleftrightarrow> \<not> vt_isOwner T \<and> vt_role T = ''credit'' \<and> lc (vt_email T) \<noteq> []"

lemma settle_billable:
  assumes "billable T" and "0 \<le> cost" and "honest_env env" and "ledger_inv (fst m)"
  obtains a b0 where "acct_inv (vt_email T) b0" "av_balance a = acct_bal (vt_email T) b0"
    "turn_debits e b0 = turn_debits e (fst m)" "account_of (time 0) (lc (vt_email T)) (fst m) = (Some a, b0)"
    "settleVideoCharge env time charge True mx period (\<lambda>c. Some (creditsForCostUsd (Some c))) (Some T)
        (Some cost) m
      = (case topup_loop env time charge (lc (vt_email T)) (creditsForCostUsd (Some cost)) mx 0 [] a (b0, snd m) of
           (Inl err, m1) \<Rightarrow> (Inl err, m1)
         | (Inr (rs, a'), m1) \<Rightarrow> video_debit env time charge (lc (vt_email T)) cost
             (creditsForCostUsd (Some cost)) (length rs) rs a' m1)"
proof -
  have l: "lc (lc (vt_email T)) \<noteq> []" using assms(1) by (simp add: billable_def)
  obtain a b0 where a: "account_of (time 0) (lc (vt_email T)) (fst m) = (Some a, b0)"
    "acct_inv (lc (vt_email T)) b0" "av_balance a = acct_bal (lc (vt_email T)) b0"
    "b0 = snd (ensure_account (time 0) (lc (vt_email T)) (fst m))"
    by (rule account_of_acct [OF l assms(4)])
  have "0 \<le> creditsForCostUsd (Some cost)"
    by (simp add: creditsForCostUsd_def roundCredits_def CREDITS_PER_USD_def CREDIT_DP_def js_round_nonneg)
  with assms a show ?thesis
    by (intro that [of b0 a]) (auto simp: billable_def credit_settlement acct_inv_def acct_bal_def)
qed

text \<open>C19: a finished video is charged exactly once, for its full price, or not at all.  Whatever consistent
  changes other requests make while the processor answers, the settlement of a credit account ends in a charge or
  in an error that is never the mismatch error.  When it ends in a charge, at most \<open>maxTopups\<close> top-ups were
  made, and the debit ran on the ledger that these left, on which the account held the full price; it took exactly
  the price, and reported the balance that it left.  When the other requests make no turn debit on the account
  meanwhile, an error leaves the account's turn debits as they were, and a charge adds exactly one, of the
  price.\<close>

theorem video_settlement_exact:
  fixes T cost
  defines "e \<equiv> lc (vt_email T)" and "price \<equiv> creditsForCostUsd (Some cost)"
  assumes "billable T" and "0 \<le> cost" and "honest_env env" and "ledger_inv (fst m)"
    and "settleVideoCharge env time charge True mx period (\<lambda>c. Some (creditsForCostUsd (Some c))) (Some T)
        (Some cost) m = (res, m')"
  shows "case res of
      Inl err \<Rightarrow> err \<noteq> VIDEO_SETTLEMENT_MISMATCH
        \<and> (quiet_env e env \<longrightarrow> turn_debits e (fst m') = turn_debits e (fst m))
    | Inr (VideoCharged c rs th) \<Rightarrow> length rs \<le> mx
        \<and> (\<exists>a0 b0 a b us b1. account_of (time 0) e (fst m) = (Some a0, b0)
            \<and> topup_loop env time charge e price mx 0 [] a0 (b0, snd m) = (Inr (rs, a), (b, us))
            \<and> chargeTurn (time (length rs)) e (Some cost) b = (Some c, b1)
            \<and> price \<le> acct_bal e b \<and> ct_deducted c = price
            \<and> acct_bal e b1 = acct_bal e b - price \<and> ct_balance c = acct_bal e b1)
        \<and> (quiet_env e env \<longrightarrow>
            (\<exists>l. turn_debits e (fst m') = turn_debits e (fst m) @ [l] \<and> lg_delta l = - price))
    | Inr _ \<Rightarrow> False"
proof -
  have same: "acct_inv e = acct_inv (vt_email T)" "acct_bal e = acct_bal (vt_email T)" "lc e = e"
    by (simp_all add: acct_inv_def acct_bal_def fun_eq_iff e_def)
  obtain a b0 where a: "acct_inv (vt_email T) b0" "av_balance a = acct_bal (vt_email T) b0"
    "turn_debits e b0 = turn_debits e (fst m)" "account_of (time 0) e (fst m) = (Some a, b0)"
    and eq0: "settleVideoCharge env time charge True mx period (\<lambda>c. Some (creditsForCostUsd (Some c))) (Some T)
        (Some cost) m = (case topup_loop env time charge e price mx 0 [] a (b0, snd m) of
           (Inl err, m1) \<Rightarrow> (Inl err, m1)
         | (Inr (rs, a'), m1) \<Rightarrow> video_debit env time charge e cost price (length rs) rs a' m1)"
    unfolding e_def price_def by (rule settle_billable [OF assms(3-6), of "lc (vt_email T)" time charge mx period])
  have eq: "(res, m') = (case topup_loop env time charge e price mx 0 [] a (b0, snd m) of
           (Inl err, m1) \<Rightarrow> (Inl err, m1)
         | (Inr (rs, a'), m1) \<Rightarrow> video_debit env time charge e cost price (length rs) rs a' m1)"
    using eq0 assms(7) by simp
  obtain r m1 where loop: "topup_loop env time charge e price mx 0 [] a (b0, snd m) = (r, m1)" by (metis surj_pair)
  have d1: "turn_debits e (fst m1) = turn_debits e (fst m)" if "quiet_env e env"
    using topup_loop_debits [OF that, of time charge e price mx 0 "[]" a "(b0, snd m)"] loop a(3) by simp
  show ?thesis
  proof (cases r)
    case (Inl err)
    then have "err \<noteq> VIDEO_SETTLEMENT_MISMATCH" using loop topup_no_mismatch by metis
    then show ?thesis using eq loop Inl d1 by simp
  next
    case (Inr rsa)
    then obtain rs a' where r: "r = Inr (rs, a')" by (cases rsa) simp
    have f: "acct_inv e (fst m1)" "av_balance a' = acct_bal e (fst m1)"
      "\<not> acct_bal e (fst m1) + 1 / 1000000000 < price" "length rs \<le> mx"
      using topup_loop_funds [OF loop [unfolded r] assms(5)] a same by auto
    obtain c th m2 b1 where c: "video_debit env time charge e cost price (length rs) rs a' m1
        = (Inr (VideoCharged c rs th), m2)" "chargeTurn (time (length rs)) e (Some cost) (fst m1) = (Some c, b1)"
      "acct_bal e b1 = ct_balance c" "ct_deducted c = price" "ct_balance c = acct_bal e (fst m1) - price"
      "price \<le> acct_bal e (fst m1)"
      "quiet_env e env \<Longrightarrow> \<exists>l. turn_debits e (fst m2) = turn_debits e (fst m1) @ [l] \<and> lg_delta l = - price"
      using video_debit_charges [OF f(1,2) f(3) [unfolded price_def]] unfolding price_def same(3) by metis
    have res: "res = Inr (VideoCharged c rs th)" "m' = m2" using eq loop r c(1) by simp_all
    have "\<exists>a0 b0 a b us b1. account_of (time 0) e (fst m) = (Some a0, b0)
        \<and> topup_loop env time charge e price mx 0 [] a0 (b0, snd m) = (Inr (rs, a), (b, us))
        \<and> chargeTurn (time (length rs)) e (Some cost) b = (Some c, b1)
        \<and> price \<le> acct_bal e b \<and> ct_deducted c = price
        \<and> acct_bal e b1 = acct_bal e b - price \<and> ct_balance c = acct_bal e b1"
      using a(4) loop r c(2-6) by (metis prod.collapse)
    then show ?thesis using res f(4) c(7) d1 by simp
  qed
qed

abbreviation video_demo :: "(video_error + video_charge) \<times> money" where
  "video_demo \<equiv> settleVideoCharge (\<lambda>_ m. m) (\<lambda>_. 0) None True 25 [] (\<lambda>c. Some (creditsForCostUsd (Some c)))
     (Some \<lparr>vt_isOwner = False, vt_role = ''credit'', vt_email = ''a@x''\<rparr>) (Some (1 / 20))
     (snd (grantUsd 0 ''a@x'' (25 / 2) AutoRecharge createBilling), None)"

lemma video_demo_hyps:
  "billable \<lparr>vt_isOwner = False, vt_role = ''credit'', vt_email = ''a@x''\<rparr>"
  "honest_env (\<lambda>_ m. m)" "quiet_env e (\<lambda>_ m. m)"
  "ledger_inv (fst (snd (grantUsd 0 ''a@x'' (25 / 2) AutoRecharge createBilling), None))"
  "\<exists>c m'. video_demo = (Inr (VideoCharged c [] None), m')"
proof -
  show "billable \<lparr>vt_isOwner = False, vt_role = ''credit'', vt_email = ''a@x''\<rparr>" by code_simp
  show "honest_env (\<lambda>_ m. m)" "quiet_env e (\<lambda>_ m. m)" by (simp_all add: honest_env_def quiet_env_def)
  show "ledger_inv (fst (snd (grantUsd 0 ''a@x'' (25 / 2) AutoRecharge createBilling), None))"
    by (simp add: grantUsd_def ledger_inv_apply ledger_inv_init)
  have "(case fst video_demo of Inr (VideoCharged c [] None) \<Rightarrow> True | _ \<Rightarrow> False)" by code_simp
  then show "\<exists>c m'. video_demo = (Inr (VideoCharged c [] None), m')"
    by (auto simp: prod_eq_iff split: sum.splits video_charge.splits list.splits option.splits)
qed

lemma video_settlement_exact_witness:
  "\<exists>c m' l. video_demo = (Inr (VideoCharged c [] None), m') \<and> ct_deducted c = 5
     \<and> turn_debits ''a@x'' (fst m') = [l] \<and> lg_delta l = - 5"
proof -
  obtain c m' where r: "video_demo = (Inr (VideoCharged c [] None), m')" using video_demo_hyps(5) by blast
  have p: "creditsForCostUsd (Some (1 / 20)) = 5" by code_simp
  have e: "lc ''a@x'' = ''a@x''" by code_simp
  have n: "turn_debits ''a@x'' (fst (snd (grantUsd 0 ''a@x'' (25 / 2) AutoRecharge createBilling), None)) = []"
    by (simp add: grantUsd_def turn_debits_apply) (simp add: turn_debits_def createBilling_def)
  show ?thesis
    using video_settlement_exact [OF video_demo_hyps(1) _ video_demo_hyps(2,4) r] video_demo_hyps(3) r p e n by auto
qed

end
