(* ===== verification/LongRunBilling.thy ===== *)
theory LongRunBilling
  imports Billing_Facts
begin

text \<open>
  \<open>longrunbilling.mjs\<close>: the budget fuse of a long job.  Approvals and spends are lines of an
  append-only file and every figure is a fold over it.  A line that does not parse is \<open>None\<close>; the
  fold skips it.
\<close>

section \<open>Tranche sizes\<close>

definition GUEST_TRANCHE_USD :: rat where "GUEST_TRANCHE_USD = 1"
definition GUEST_TRANCHE_CEILING_USD :: rat where "GUEST_TRANCHE_CEILING_USD = 2"
definition GUEST_MAX_OUTSTANDING_TRANCHES :: int where "GUEST_MAX_OUTSTANDING_TRANCHES = 10"
definition OWNER_TRANCHE_USD :: rat where "OWNER_TRANCHE_USD = 5"

definition tranchePolicy :: "string \<Rightarrow> jsnum \<Rightarrow> rat" where
  "tranchePolicy role requestedUsd =
     (let isOwner = (role = ''owner'');
          def = (if isOwner then OWNER_TRANCHE_USD else GUEST_TRANCHE_USD);
          usd = (case requestedUsd of None \<Rightarrow> def | Some x \<Rightarrow> if x > 0 then x else def)
      in if isOwner then max (1 / 100) usd
         else max (1 / 100) (min usd GUEST_TRANCHE_CEILING_USD))"

section \<open>The file\<close>

datatype budget_event =
  Approve int rat string              \<comment> \<open>count, usd, by\<close>
| Spend rat "nat option" string       \<comment> \<open>usd, unit, note\<close>

type_synonym budget_log = "budget_event option list"

record budget_fold =
  bf_approvedUsd :: rat
  bf_spentUsd :: rat
  bf_tranches :: int

definition fold_line :: "budget_fold \<Rightarrow> budget_event option \<Rightarrow> budget_fold" where
  "fold_line f line =
     (case line of
        None \<Rightarrow> f
      | Some (Approve n usd _) \<Rightarrow>
          f\<lparr>bf_approvedUsd := bf_approvedUsd f + usd, bf_tranches := bf_tranches f + n\<rparr>
      | Some (Spend usd _ _) \<Rightarrow> f\<lparr>bf_spentUsd := bf_spentUsd f + usd\<rparr>)"

definition fold_budget :: "budget_log \<Rightarrow> budget_fold" where
  "fold_budget lines = foldl fold_line \<lparr>bf_approvedUsd = 0, bf_spentUsd = 0, bf_tranches = 0\<rparr> lines"

definition remainingUsd :: "budget_log \<Rightarrow> rat" where
  "remainingUsd lines = bf_approvedUsd (fold_budget lines) - bf_spentUsd (fold_budget lines)"

section \<open>Approving and spending\<close>

record approved =
  ap_approvedTranches :: int
  ap_approvedUsd :: rat
  ap_totalApprovedUsd :: rat
  ap_remainingUsd :: rat

definition approve_count :: "jsnum \<Rightarrow> int" where
  "approve_count count = max 1 (js_trunc (num_or count 1))"

definition outstanding_tranches :: "rat \<Rightarrow> budget_log \<Rightarrow> int" where
  "outstanding_tranches perTranche lines = \<lceil>max 0 (remainingUsd lines) / perTranche\<rceil>"

text \<open>The code calls itself with the room that is left; \<open>Inl\<close> is the refusal, with the number of
  unspent tranches.\<close>

function approve ::
  "rat \<Rightarrow> bool \<Rightarrow> jsnum \<Rightarrow> string \<Rightarrow> budget_log \<Rightarrow> (int + approved) \<times> budget_log" where
  "approve perTranche isOwner count by_whom lines =
     (let n = approve_count count;
          outstanding = outstanding_tranches perTranche lines;
          room = GUEST_MAX_OUTSTANDING_TRANCHES - outstanding in
      if \<not> isOwner \<and> outstanding + n > GUEST_MAX_OUTSTANDING_TRANCHES then
        (if room \<le> 0 then (Inl outstanding, lines)
         else approve perTranche isOwner (Some (of_int room)) by_whom lines)
      else
        let lines' = lines @ [Some (Approve n (of_int n * perTranche) by_whom)] in
        (Inr \<lparr>ap_approvedTranches = n, ap_approvedUsd = of_int n * perTranche,
              ap_totalApprovedUsd = bf_approvedUsd (fold_budget lines'),
              ap_remainingUsd = remainingUsd lines'\<rparr>, lines'))"
  by pat_completeness auto

lemma approve_count_of_int: "0 < k \<Longrightarrow> approve_count (Some (of_int k)) = k"
  by (simp add: approve_count_def num_or_def)

lemma approve_count_diff: "b < a \<Longrightarrow> approve_count (Some (of_int a - of_int b)) = a - b"
  using approve_count_of_int [of "a - b"] by simp

termination approve
  by (relation "measure (\<lambda>(p, ow, c, w, l). nat (approve_count c))") (auto simp: approve_count_diff not_le)

declare approve.simps [simp del]

record spend_state =
  bs_spentUsd :: rat
  bs_remainingUsd :: rat

definition spend_budget :: "jsnum \<Rightarrow> nat option \<Rightarrow> string \<Rightarrow> budget_log \<Rightarrow> spend_state \<times> budget_log" where
  "spend_budget usd unit note lines =
     (let v = max 0 (or_zero usd);
          lines' = (if v > 0 then lines @ [Some (Spend v unit note)] else lines)
      in (\<lparr>bs_spentUsd = bf_spentUsd (fold_budget lines'), bs_remainingUsd = remainingUsd lines'\<rparr>, lines'))"

record budget_state =
  bu_perTrancheUsd :: rat
  bu_approvedUsd :: rat
  bu_spentUsd :: rat
  bu_remainingUsd :: rat
  bu_tranchesApproved :: int
  bu_role :: string

definition budget_state_of :: "rat \<Rightarrow> bool \<Rightarrow> budget_log \<Rightarrow> budget_state" where
  "budget_state_of perTranche isOwner lines =
     (let f = fold_budget lines in
      \<lparr>bu_perTrancheUsd = perTranche, bu_approvedUsd = bf_approvedUsd f, bu_spentUsd = bf_spentUsd f,
       bu_remainingUsd = remainingUsd lines, bu_tranchesApproved = bf_tranches f,
       bu_role = (if isOwner then ''owner'' else ''guest'')\<rparr>)"

section \<open>Charging a unit\<close>

datatype unit_charge =
  NotCharged rat
| ChargedCredits rat rat rat     \<comment> \<open>usd, credits, balance\<close>
| ChargedSponsored rat

text \<open>
  The top-up of a low account is started and not awaited: the second component is the request that
  is then in flight.  An exception of either store is swallowed.
\<close>

definition chargeUnit ::
  "ms \<Rightarrow> bool \<Rightarrow> string \<Rightarrow> identity option \<Rightarrow> jsnum \<Rightarrow> money
    \<Rightarrow> unit_charge \<times> (charge_req \<times> credit_row) option \<times> money" where
  "chargeUnit t has_charge period T costUsd m =
     (let usd = max 0 (or_zero costUsd) in
      case T of
        None \<Rightarrow> (NotCharged usd, None, m)
      | Some I \<Rightarrow>
          if id_isOwner I \<or> usd = 0 then (NotCharged usd, None, m)
          else if id_role I = ''credit'' then
            (case chargeTurn t (id_email I) (Some usd) (fst m) of
               (None, b) \<Rightarrow> (NotCharged usd, None, (b, snd m))
             | (Some c, b) \<Rightarrow>
                 if ct_low c then
                   (case autoRecharge_begin t t has_charge False (id_email I) (b, snd m) of
                      (Inl _, m') \<Rightarrow> (ChargedCredits usd (ct_deducted c) (ct_balance c), None, m')
                    | (Inr req, m') \<Rightarrow> (ChargedCredits usd (ct_deducted c) (ct_balance c), Some req, m'))
                 else (ChargedCredits usd (ct_deducted c) (ct_balance c), None, (b, snd m)))
          else if id_role I = ''sponsored'' then
            (case snd m of
               None \<Rightarrow> (NotCharged usd, None, m)
             | Some us \<Rightarrow> (ChargedSponsored usd, None,
                 (fst m, Some (snd (addSponsoredSpend t period (id_email I) (Some usd) us)))))
          else (NotCharged usd, None, m))"

datatype approval_gate = ApproveOk | NoIdentity | NeedsCredits rat rat   \<comment> \<open>need, have\<close>

definition canApprove :: "ms \<Rightarrow> identity option \<Rightarrow> jsnum \<Rightarrow> billing \<Rightarrow> approval_gate \<times> billing" where
  "canApprove t T usd b =
     (case T of
        None \<Rightarrow> (NoIdentity, b)
      | Some I \<Rightarrow>
          if id_isOwner I \<or> id_role I = ''sponsored'' then (ApproveOk, b)
          else let need = creditsForCostUsd usd; (owned, b') = balance_of t (id_email I) b
               in (if owned < need then NeedsCredits need owned else ApproveOk, b'))"

definition run_role :: "identity option \<Rightarrow> string" where
  "run_role T = (case T of None \<Rightarrow> ''credit''
     | Some I \<Rightarrow> if id_isOwner I then ''owner'' else if id_role I = [] then ''credit'' else id_role I)"

text \<open>\<open>meter\<close> of \<open>makeRunDeps\<close>: the account is charged and the job's fuse is drawn by the same cost.\<close>

definition meter_unit ::
  "ms \<Rightarrow> bool \<Rightarrow> string \<Rightarrow> identity option \<Rightarrow> jsnum \<Rightarrow> nat option \<Rightarrow> money \<times> budget_log
    \<Rightarrow> unit_charge \<times> (charge_req \<times> credit_row) option \<times> money \<times> budget_log" where
  "meter_unit t has_charge period T costUsd unit s =
     (let usd = max 0 (or_zero costUsd);
          (charged, pend, m') = chargeUnit t has_charge period T (Some usd) (fst s);
          note = (case charged of NotCharged _ \<Rightarrow> ''unmetered'' | _ \<Rightarrow> ''charged'');
          lines' = (if usd > 0 then snd (spend_budget (Some usd) unit note (snd s)) else snd s)
      in (charged, pend, m', lines'))"

section \<open>Lemmas\<close>

lemma fold_budget_snoc [simp]: "fold_budget (lines @ [l]) = fold_line (fold_budget lines) l"
  by (simp add: fold_budget_def)

lemma remaining_approve [simp]:
  "remainingUsd (lines @ [Some (Approve n usd w)]) = remainingUsd lines + usd"
  by (simp add: remainingUsd_def fold_line_def)

lemma remaining_spend [simp]:
  "remainingUsd (lines @ [Some (Spend usd u w)]) = remainingUsd lines - usd"
  by (simp add: remainingUsd_def fold_line_def)

lemma tranchePolicy_pos: "0 < tranchePolicy role req"
  by (auto simp: tranchePolicy_def Let_def max_def)

lemma outstanding_nonneg [simp]: "0 < p \<Longrightarrow> 0 \<le> outstanding_tranches p lines"
  unfolding outstanding_tranches_def zero_le_ceiling
  by (rule order.strict_trans2 [of _ 0]) simp_all

lemma outstanding_covers:
  "0 < p \<Longrightarrow> remainingUsd lines \<le> of_int (outstanding_tranches p lines) * p"
proof -
  assume p: "0 < p"
  have "max 0 (remainingUsd lines) / p \<le> of_int (outstanding_tranches p lines)"
    unfolding outstanding_tranches_def by (rule le_of_int_ceiling)
  with p have "max 0 (remainingUsd lines) \<le> of_int (outstanding_tranches p lines) * p"
    by (simp add: pos_divide_le_eq)
  then show ?thesis by simp
qed

lemma outstanding_le:
  "0 < p \<Longrightarrow> 0 \<le> k \<Longrightarrow> remainingUsd lines \<le> of_int k * p \<Longrightarrow> outstanding_tranches p lines \<le> k"
  by (simp add: outstanding_tranches_def ceiling_le_iff pos_divide_le_eq)

text \<open>One approval, without the recursion.\<close>

definition granted :: "bool \<Rightarrow> int \<Rightarrow> int \<Rightarrow> int option" where
  "granted isOwner outstanding n =
     (if isOwner then Some n
      else if GUEST_MAX_OUTSTANDING_TRANCHES \<le> outstanding then None
      else Some (min n (GUEST_MAX_OUTSTANDING_TRANCHES - outstanding)))"

lemma approve_count_pos: "1 \<le> approve_count c"
  by (simp add: approve_count_def)

lemma approve_direct:
  assumes "isOwner \<or> outstanding_tranches p lines + approve_count c \<le> GUEST_MAX_OUTSTANDING_TRANCHES"
  shows "approve p isOwner c w lines =
    (Inr \<lparr>ap_approvedTranches = approve_count c, ap_approvedUsd = of_int (approve_count c) * p,
        ap_totalApprovedUsd =
          bf_approvedUsd (fold_budget (lines @ [Some (Approve (approve_count c) (of_int (approve_count c) * p) w)])),
        ap_remainingUsd = remainingUsd lines + of_int (approve_count c) * p\<rparr>,
     lines @ [Some (Approve (approve_count c) (of_int (approve_count c) * p) w)])"
  using assms by (auto simp: approve.simps [of p isOwner c] Let_def)

lemma approve_lines:
  assumes "0 < p"
  shows "snd (approve p isOwner c w lines) =
    (case granted isOwner (outstanding_tranches p lines) (approve_count c) of
       None \<Rightarrow> lines | Some n \<Rightarrow> lines @ [Some (Approve n (of_int n * p) w)])
   \<and> (fst (approve p isOwner c w lines) = Inl (outstanding_tranches p lines)
        \<longleftrightarrow> granted isOwner (outstanding_tranches p lines) (approve_count c) = None)"
proof (cases "isOwner \<or> outstanding_tranches p lines + approve_count c \<le> GUEST_MAX_OUTSTANDING_TRANCHES")
  case True
  then show ?thesis
    using approve_count_pos [of c] by (auto simp: approve_direct granted_def min_def)
next
  case False
  define room where "room = GUEST_MAX_OUTSTANDING_TRANCHES - outstanding_tranches p lines"
  show ?thesis
  proof (cases "room \<le> 0")
    case True
    then have "approve p isOwner c w lines = (Inl (outstanding_tranches p lines), lines)"
      using False by (subst approve.simps) (simp add: Let_def room_def)
    with False True show ?thesis by (simp add: room_def granted_def)
  next
    case pos: False
    have "approve p isOwner c w lines = approve p isOwner (Some (of_int room)) w lines"
      using False pos by (subst approve.simps) (simp add: Let_def room_def)
    moreover have "approve_count (Some (of_int room)) = room"
      using pos by (simp add: approve_count_of_int)
    ultimately show ?thesis
      using False pos by (simp add: approve_direct granted_def room_def)
  qed
qed

section \<open>Runs of a job's fuse\<close>

datatype fuse_op = FApprove jsnum string | FSpend jsnum "nat option" string | FTorn

definition fuse_exec :: "rat \<Rightarrow> bool \<Rightarrow> budget_log \<Rightarrow> fuse_op \<Rightarrow> budget_log" where
  "fuse_exec p isOwner lines op =
     (case op of
        FApprove c w \<Rightarrow> snd (approve p isOwner c w lines)
      | FSpend u n w \<Rightarrow> snd (spend_budget u n w lines)
      | FTorn \<Rightarrow> lines @ [None])"

lemma fuse_exec_bound:
  assumes "0 < p" and "remainingUsd lines \<le> of_int GUEST_MAX_OUTSTANDING_TRANCHES * p"
  shows "remainingUsd (fuse_exec p False lines op) \<le> of_int GUEST_MAX_OUTSTANDING_TRANCHES * p"
proof (cases op)
  case (FApprove c w)
  let ?o = "outstanding_tranches p lines"
  have step: "remainingUsd lines + of_int n * p \<le> of_int GUEST_MAX_OUTSTANDING_TRANCHES * p"
    if "n \<le> GUEST_MAX_OUTSTANDING_TRANCHES - ?o" for n
  proof -
    have "remainingUsd lines + of_int n * p \<le> of_int (?o + n) * p"
      using outstanding_covers [OF assms(1), of lines] by (simp add: distrib_right)
    also have "\<dots> \<le> of_int GUEST_MAX_OUTSTANDING_TRANCHES * p"
      using that assms(1) by (intro mult_right_mono) linarith+
    finally show ?thesis .
  qed
  then show ?thesis
    using FApprove assms approve_lines [OF assms(1), of False c w lines]
    by (auto simp: fuse_exec_def granted_def split: if_splits)
next
  case (FSpend u n w)
  with assms show ?thesis by (auto simp: fuse_exec_def spend_budget_def Let_def)
next
  case FTorn
  with assms show ?thesis by (simp add: fuse_exec_def remainingUsd_def fold_line_def)
qed

section \<open>Properties\<close>

text \<open>a guest's fuse never holds more than ten unspent tranches.  Whatever is approved and spent,
  in any order, on a job's budget file, what remains unspent is at most ten tranches of the job's
  size, hence at most twenty dollars.\<close>

theorem guest_headroom_bounded:
  assumes "role \<noteq> ''owner''"
  shows "remainingUsd (foldl (fuse_exec (tranchePolicy role req) False) [] ops) \<le> 10 * tranchePolicy role req
    \<and> 10 * tranchePolicy role req \<le> 20"
proof
  let ?p = "tranchePolicy role req"
  have "remainingUsd (foldl (fuse_exec ?p False) lines ops) \<le> of_int GUEST_MAX_OUTSTANDING_TRANCHES * ?p"
    if "remainingUsd lines \<le> of_int GUEST_MAX_OUTSTANDING_TRANCHES * ?p" for lines
    using that by (induction ops arbitrary: lines) (simp_all add: fuse_exec_bound tranchePolicy_pos)
  from this [of "[]"] show "remainingUsd (foldl (fuse_exec ?p False) [] ops) \<le> 10 * ?p"
    using tranchePolicy_pos [of role req]
    by (simp add: remainingUsd_def fold_budget_def GUEST_MAX_OUTSTANDING_TRANCHES_def)
  show "10 * ?p \<le> 20"
    using assms by (simp add: tranchePolicy_def Let_def GUEST_TRANCHE_CEILING_USD_def)
qed

lemma guest_headroom_bounded_witness:
  "remainingUsd (foldl (fuse_exec (tranchePolicy ''credit'' (Some 2)) False) []
      [FApprove (Some 7) [], FSpend (Some (1 / 2)) None [], FApprove (Some 7) []]) = 39 / 2 \<and> (39 / 2 :: rat) \<le> 20"
proof -
  have "remainingUsd (foldl (fuse_exec (tranchePolicy ''credit'' (Some 2)) False) []
      [FApprove (Some 7) [], FSpend (Some (1 / 2)) None [], FApprove (Some 7) []]) = 39 / 2"
    by code_simp
  with guest_headroom_bounded [of "''credit''" "Some 2"
      "[FApprove (Some 7) [], FSpend (Some (1 / 2)) None [], FApprove (Some 7) []]"]
  show ?thesis by auto
qed

text \<open>an approval grants what fits.  A guest with ten unspent tranches or more is refused and the
  file does not change; otherwise one line is written, for the tranches asked for or for the room
  that is left, whichever is less; the owner always gets what was asked.  So an approval always
  returns, and never recurses a second time.\<close>

theorem approve_grants_what_fits:
  assumes "p = tranchePolicy role req"
  shows "snd (approve p isOwner c w lines) =
     (if isOwner then lines @ [Some (Approve (approve_count c) (of_int (approve_count c) * p) w)]
      else let o' = outstanding_tranches p lines; n = min (approve_count c) (10 - o') in
        if 10 \<le> o' then lines else lines @ [Some (Approve n (of_int n * p) w)])
   \<and> (fst (approve p isOwner c w lines) = Inl (outstanding_tranches p lines)
        \<longleftrightarrow> \<not> isOwner \<and> 10 \<le> outstanding_tranches p lines)"
  using approve_lines [of p isOwner c w lines] tranchePolicy_pos [of role req] assms
  by (simp add: granted_def GUEST_MAX_OUTSTANDING_TRANCHES_def Let_def split: if_splits)

lemma approve_grants_what_fits_witness:
  "snd (approve (tranchePolicy ''credit'' None) False (Some 4) ''u'' [Some (Approve 8 8 ''u'')])
     = [Some (Approve 8 8 ''u''), Some (Approve 2 2 ''u'')]"
proof -
  have "tranchePolicy ''credit'' None = 1" "approve_count (Some 4) = 4"
    "outstanding_tranches 1 [Some (Approve 8 8 ''u'')] = 8"
    by code_simp+
  then show ?thesis
    using approve_grants_what_fits [OF refl, of "''credit''" None False "Some 4" "''u''" "[Some (Approve 8 8 ''u'')]"]
    by simp
qed

text \<open>an approved tranche is covered, and a unit draws the account and the fuse alike.  When a credit
  account passes the approval gate for an amount, charging a unit of that cost takes its exact price
  out of the balance, with nothing left unbilled, and lowers what remains of the job's fuse by the
  cost in dollars.\<close>

theorem approved_unit_is_covered:
  assumes "acct = map_of (bl_credits b) (lc (id_email I))" and "acct = Some r" and "ledger_inv b"
    and "\<not> id_isOwner I" and "id_role I = ''credit''" and "lc (id_email I) \<noteq> []"
    and "fst (canApprove t (Some I) (Some usd) b) = ApproveOk" and "0 < usd"
    and "meter_unit t' hc period (Some I) (Some usd) unit ((b, us), lines) = (charged, pend, m', lines')"
  shows "charged = ChargedCredits usd (creditsForCostUsd (Some usd)) (cr_balance r - creditsForCostUsd (Some usd))
    \<and> remainingUsd lines' = remainingUsd lines - usd"
proof -
  let ?p = "creditsForCostUsd (Some usd)"
  have row: "map_of (bl_credits b) (lc (id_email I)) = Some r" using assms by simp
  have le: "?p \<le> cr_balance r"
    using assms row by (auto simp: canApprove_def balance_of_def ensure_account_known Let_def split: if_splits)
  have "is_micro (cr_balance r)"
    using assms row by (auto simp: ledger_inv_def simp del: map_of_eq_Some_iff)
  moreover have "is_micro ?p" by (simp add: creditsForCostUsd_def Let_def)
  ultimately have "roundCredits (- ?p) = - ?p" "roundCredits (cr_balance r + - ?p) = cr_balance r - ?p"
    using round_micro is_micro_add is_micro_minus by fastforce+
  then have ct: "fst (chargeTurn t' (id_email I) (Some usd) b) = Some \<lparr>ct_balance = cr_balance r - ?p,
      ct_deducted = ?p, ct_low = (cr_balance r - ?p \<le> RECHARGE_THRESHOLD)\<rparr>"
    using le assms row by (simp add: chargeTurn_def apply_credits_Some Let_def max_def)
  then obtain b1 where b1: "chargeTurn t' (id_email I) (Some usd) b = (Some \<lparr>ct_balance = cr_balance r - ?p,
      ct_deducted = ?p, ct_low = (cr_balance r - ?p \<le> RECHARGE_THRESHOLD)\<rparr>, b1)"
    by (metis prod.collapse)
  have "\<exists>pd mm. chargeUnit t' hc period (Some I) (Some usd) (b, us)
      = (ChargedCredits usd ?p (cr_balance r - ?p), pd, mm)"
    using assms(4,5,8) b1 by (auto simp: chargeUnit_def Let_def split: prod.splits sum.splits)
  then show ?thesis
    using assms(8,9) by (auto simp: meter_unit_def spend_budget_def Let_def)
qed

lemma approved_unit_is_covered_witness:
  "\<exists>b pend m'. meter_unit 1 False [] (Some \<lparr>id_email = ''a@x'', id_uid = [], id_role = ''credit'', id_status = [],
        id_isOwner = False, id_invited = True, id_tutorialSeen = True, id_row = None\<rparr>) (Some 2) None
        ((b, None), [Some (Approve 3 3 [])])
     = (ChargedCredits 2 200 800, pend, m', [Some (Approve 3 3 []), Some (Spend 2 None ''charged'')])"
proof -
  let ?I = "\<lparr>id_email = ''a@x'', id_uid = [], id_role = ''credit'', id_status = [], id_isOwner = False,
    id_invited = True, id_tutorialSeen = True, id_row = None\<rparr>"
  let ?b = "snd (grantUsd 0 ''a@x'' (25 / 2) AutoRecharge createBilling)"
  have inv: "ledger_inv ?b" by (simp add: grantUsd_def ledger_inv_apply ledger_inv_init)
  have l: "lc (id_email ?I) \<noteq> []" and p: "creditsForCostUsd (Some 2) = 200"
    and g: "fst (canApprove 0 (Some ?I) (Some 2) ?b) = ApproveOk" by code_simp+
  have "map_option cr_balance (map_of (bl_credits ?b) (lc (id_email ?I))) = Some 1000" by code_simp
  then obtain r where r: "map_of (bl_credits ?b) (lc (id_email ?I)) = Some r" "cr_balance r = 1000" by blast
  obtain ch pd m' ls where m: "meter_unit 1 False [] (Some ?I) (Some 2) None ((?b, None), [Some (Approve 3 3 [])])
      = (ch, pd, m', ls)" by (metis surj_pair)
  have ch: "ch = ChargedCredits 2 200 800"
    using approved_unit_is_covered [OF refl r(1) inv _ _ l g _ m] r(2) p by simp
  have "ls = [Some (Approve 3 3 []), Some (Spend 2 None ''charged'')]"
    using m ch by (auto simp: meter_unit_def spend_budget_def Let_def split: prod.splits)
  with m ch show ?thesis by (intro exI [of _ ?b] exI [of _ pd] exI [of _ m']) simp
qed

end
