(* ===== verification/ChatJobs.thy ===== *)
theory ChatJobs
  imports Prelude
begin

text \<open>
  \<open>chatjobs.mjs\<close>: the durable half of chat turns.  Events arrive in batches, runs of token deltas
  collapse into one row, a crash leaves rows that the boot sweep closes honestly, and retention
  removes what has been collected.  An event stored with \<open>JSON.stringify\<close> and read back with
  \<open>JSON.parse\<close> is the event; a job's \<open>meta\<close> is its JSON text, parsed by a parameter.
\<close>

section \<open>Events and coalescing\<close>

text \<open>A field that is absent is the empty string (both are falsy wherever the code reads one).\<close>

datatype chat_event =
  EvToken string
| EvWorking
| EvRoute string string             \<comment> \<open>model, mode\<close>
| EvDone string                     \<comment> \<open>meta, as JSON text\<close>
| EvError string string string      \<comment> \<open>message, code, error\<close>
| EvTool string string              \<comment> \<open>name, status\<close>
| EvStopped string                  \<comment> \<open>reason\<close>
| EvOther string

definition is_token :: "chat_event \<Rightarrow> bool" where
  "is_token ev = (case ev of EvToken _ \<Rightarrow> True | _ \<Rightarrow> False)"

definition ev_delta :: "chat_event \<Rightarrow> string" where
  "ev_delta ev = (case ev of EvToken d \<Rightarrow> d | _ \<Rightarrow> [])"

record ev_row =
  er_seq :: nat
  er_span :: nat
  er_ev :: chat_event

definition close_run :: "(nat \<times> nat \<times> string) option \<Rightarrow> ev_row list" where
  "close_run run = (case run of None \<Rightarrow> []
     | Some (sq, sp, d) \<Rightarrow> [\<lparr>er_seq = sq, er_span = sp, er_ev = EvToken d\<rparr>])"

fun coalesce_loop :: "chat_event list \<Rightarrow> nat \<Rightarrow> (nat \<times> nat \<times> string) option \<Rightarrow> ev_row list" where
  "coalesce_loop [] sq run = close_run run"
| "coalesce_loop (ev # evs) sq run =
     (if is_token ev then
        coalesce_loop evs (Suc sq)
          (case run of Some (s0, sp, d) \<Rightarrow> Some (s0, Suc sp, d @ ev_delta ev)
                     | None \<Rightarrow> Some (sq, 1, ev_delta ev))
      else close_run run @
        (if ev \<noteq> EvWorking then [\<lparr>er_seq = sq, er_span = 1, er_ev = ev\<rparr>] else []) @
        coalesce_loop evs (Suc sq) None)"

definition coalesceEvents :: "chat_event list \<Rightarrow> nat \<Rightarrow> ev_row list" where
  "coalesceEvents evs startSeq = coalesce_loop evs startSeq None"

section \<open>The store\<close>

datatype job_status = Running | Done | Stopped | Errored | Orphaned

record job_row =
  jb_chatId :: string
  jb_email :: string
  jb_uid :: string
  jb_status :: job_status
  jb_startedAt :: ms
  jb_endedAt :: ms
  jb_collectedAt :: ms
  jb_model :: string
  jb_mode :: string
  jb_eventCount :: nat
  jb_textChars :: nat
  jb_meta :: string

record chatjobs =
  cj_jobs :: "(string \<times> job_row) list"
  cj_events :: "((string \<times> nat) \<times> nat \<times> chat_event) list"   \<comment> \<open>(job, seq): span, event\<close>

definition ROW_LINGER_MS :: ms where "ROW_LINGER_MS = 7 * 86400000"

definition emptyChatJobs :: chatjobs where
  "emptyChatJobs = \<lparr>cj_jobs = [], cj_events = []\<rparr>"

definition upd_job :: "string \<Rightarrow> (job_row \<Rightarrow> job_row) \<Rightarrow> chatjobs \<Rightarrow> chatjobs" where
  "upd_job i f s = s\<lparr>cj_jobs := row_upd i f (cj_jobs s)\<rparr>"

definition put_event :: "string \<Rightarrow> ev_row \<Rightarrow> chatjobs \<Rightarrow> chatjobs" where
  "put_event i r s = s\<lparr>cj_events := AList.update (i, er_seq r) (er_span r, er_ev r) (cj_events s)\<rparr>"

definition createJob :: "ms \<Rightarrow> string \<Rightarrow> string \<Rightarrow> string \<Rightarrow> string \<Rightarrow> ms \<Rightarrow> chatjobs \<Rightarrow> chatjobs" where
  "createJob now i chatId email uid startedAt s =
     s\<lparr>cj_jobs := AList.update i
         \<lparr>jb_chatId = chatId, jb_email = lc email, jb_uid = uid, jb_status = Running,
          jb_startedAt = (if startedAt = 0 then now else startedAt), jb_endedAt = 0, jb_collectedAt = 0,
          jb_model = [], jb_mode = [], jb_eventCount = 0, jb_textChars = 0, jb_meta = []\<rparr>
         (cj_jobs s)\<rparr>"

definition bindMeta :: "string \<Rightarrow> string \<Rightarrow> string \<Rightarrow> string \<Rightarrow> chatjobs \<Rightarrow> chatjobs" where
  "bindMeta i chatId model md = upd_job i (\<lambda>r. r\<lparr>
     jb_chatId := (if chatId \<noteq> [] then chatId else jb_chatId r),
     jb_model := (if model \<noteq> [] then model else jb_model r),
     jb_mode := (if md \<noteq> [] then md else jb_mode r)\<rparr>)"

definition set_progress :: "string \<Rightarrow> nat \<Rightarrow> nat \<Rightarrow> chatjobs \<Rightarrow> chatjobs" where
  "set_progress i n chars = upd_job i (\<lambda>r. r\<lparr>jb_eventCount := n, jb_textChars := chars\<rparr>)"

definition appendRows :: "string \<Rightarrow> ev_row list \<Rightarrow> nat \<Rightarrow> nat \<Rightarrow> chatjobs \<Rightarrow> chatjobs" where
  "appendRows i rows eventCount textChars s =
     set_progress i eventCount textChars (fold (put_event i) rows s)"

definition set_finished :: "string \<Rightarrow> job_status \<Rightarrow> ms \<Rightarrow> string \<Rightarrow> chatjobs \<Rightarrow> chatjobs" where
  "set_finished i st t md = upd_job i (\<lambda>r. r\<lparr>jb_status := st, jb_endedAt := t, jb_meta := md\<rparr>)"

text \<open>An unknown status is an error; a stored meta is cut at 4000 characters.\<close>

definition finish_status :: "string \<Rightarrow> job_status" where
  "finish_status st =
     (if st = ''done'' then Done else if st = ''stopped'' then Stopped
      else if st = ''orphaned'' then Orphaned else Errored)"

definition finish :: "ms \<Rightarrow> string \<Rightarrow> string \<Rightarrow> string \<Rightarrow> chatjobs \<Rightarrow> chatjobs" where
  "finish now i st md = set_finished i (finish_status st) now (take 4000 md)"

definition get_job :: "string \<Rightarrow> chatjobs \<Rightarrow> job_row option" where
  "get_job i s = map_of (cj_jobs s) i"

definition listFor :: "string \<Rightarrow> string \<Rightarrow> nat \<Rightarrow> chatjobs \<Rightarrow> (string \<times> job_row) list" where
  "listFor email chatId limit s =
     take limit (sort_key (\<lambda>(_, r). - jb_startedAt r)
       (rows_where (\<lambda>_ r. jb_email r = lc email \<and> (chatId = [] \<or> jb_chatId r = chatId)) (cj_jobs s)))"

definition runningCountFor :: "string \<Rightarrow> chatjobs \<Rightarrow> nat" where
  "runningCountFor email s =
     length (rows_where (\<lambda>_ r. jb_email r = lc email \<and> jb_status r = Running) (cj_jobs s))"

text \<open>\<open>ORDER BY seq\<close>; from a cursor, the rows whose span reaches past it.\<close>

definition replayRows :: "string \<Rightarrow> nat \<Rightarrow> chatjobs \<Rightarrow> ev_row list" where
  "replayRows i fromSeq s =
     filter (\<lambda>r. fromSeq > 0 \<longrightarrow> er_seq r + er_span r > fromSeq)
       (sort_key er_seq (map (\<lambda>((_, sq), sp, ev). \<lparr>er_seq = sq, er_span = sp, er_ev = ev\<rparr>)
          (filter (\<lambda>((j, _), _). j = i) (cj_events s))))"

section \<open>Results\<close>

definition tool_note :: "chat_event \<Rightarrow> string option" where
  "tool_note ev = (case ev of EvTool nm st \<Rightarrow>
     if st \<noteq> [] \<and> st \<noteq> ''run'' then Some (nm @ '':'' @ st) else None | _ \<Rightarrow> None)"

definition first_text :: "string list \<Rightarrow> string" where
  "first_text xs = (case filter (\<lambda>x. x \<noteq> []) xs of [] \<Rightarrow> ''error'' | x # _ \<Rightarrow> x)"

definition error_note :: "chat_event \<Rightarrow> string option" where
  "error_note ev = (case ev of EvError msg code _ \<Rightarrow> Some (first_text [msg, code]) | _ \<Rightarrow> None)"

record 'm job_result =
  rs_row :: job_row
  rs_collected :: bool
  rs_text :: string
  rs_meta :: "'m option"
  rs_tools :: "string list"
  rs_errors :: "string list"

definition resultFor :: "(string \<Rightarrow> 'm option) \<Rightarrow> string \<Rightarrow> chatjobs \<Rightarrow> 'm job_result option" where
  "resultFor json_parse i s =
     (case get_job i s of
        None \<Rightarrow> None
      | Some row \<Rightarrow>
          let evs = map er_ev (replayRows i 0 s) in
          Some \<lparr>rs_row = row, rs_collected = (jb_collectedAt row \<noteq> 0),
            rs_text = concat (map ev_delta evs),
            rs_meta = (if jb_meta row = [] then None else json_parse (jb_meta row)),
            rs_tools = List.map_filter tool_note evs,
            rs_errors = List.map_filter error_note evs\<rparr>)"

definition collect :: "ms \<Rightarrow> string \<Rightarrow> chatjobs \<Rightarrow> chatjobs" where
  "collect now i = upd_job i (\<lambda>r. if jb_collectedAt r = 0 then r\<lparr>jb_collectedAt := now\<rparr> else r)"

section \<open>Boot sweep and retention\<close>

definition restart_message :: string where
  "restart_message = ''The server restarted mid-run - everything generated before the restart is preserved below. Tap Continue to pick up where it left off.''"

definition orphan_tail :: "nat \<Rightarrow> ev_row list" where
  "orphan_tail n = [\<lparr>er_seq = n, er_span = 1, er_ev = EvError restart_message ''server_restart'' []\<rparr>,
     \<lparr>er_seq = Suc n, er_span = 1, er_ev = EvStopped ''server_restart''\<rparr>]"

text \<open>\<open>orphan_meta\<close>: the JSON text of the note with the chat, model and mode of the row.\<close>

definition orphan_one :: "(job_row \<Rightarrow> string) \<Rightarrow> ms \<Rightarrow> string \<times> job_row \<Rightarrow> chatjobs \<Rightarrow> chatjobs" where
  "orphan_one orphan_meta now j s =
     (case j of (i, r) \<Rightarrow>
        set_finished i Orphaned now (orphan_meta r)
          (set_progress i (jb_eventCount r + 2) (jb_textChars r)
             (fold (put_event i) (orphan_tail (jb_eventCount r)) s)))"

definition sweepOrphans :: "(job_row \<Rightarrow> string) \<Rightarrow> ms \<Rightarrow> chatjobs \<Rightarrow> nat \<times> chatjobs" where
  "sweepOrphans orphan_meta now s =
     (let dead = rows_where (\<lambda>_ r. jb_status r = Running) (cj_jobs s)
      in (length dead, fold (orphan_one orphan_meta now) dead s))"

definition createChatJobs :: "(job_row \<Rightarrow> string) \<Rightarrow> ms \<Rightarrow> chatjobs \<Rightarrow> nat \<times> chatjobs" where
  "createChatJobs orphan_meta now disk = sweepOrphans orphan_meta now disk"

definition del_events :: "string \<Rightarrow> chatjobs \<Rightarrow> chatjobs" where
  "del_events i s = s\<lparr>cj_events := filter (\<lambda>((j, _), _). j \<noteq> i) (cj_events s)\<rparr>"

definition del_job :: "string \<Rightarrow> chatjobs \<Rightarrow> chatjobs" where
  "del_job i s = s\<lparr>cj_jobs := AList.delete i (cj_jobs s)\<rparr>"

fun gc_collected :: "ms \<Rightarrow> ms \<Rightarrow> (string \<times> job_row) list \<Rightarrow> nat \<times> nat \<times> chatjobs \<Rightarrow> nat \<times> nat \<times> chatjobs" where
  "gc_collected t ttl [] acc = acc"
| "gc_collected t ttl ((i, r) # js) (ev, gone, s) =
     gc_collected t ttl js
       (if jb_collectedAt r < t - ttl - ROW_LINGER_MS then (Suc ev, Suc gone, del_job i (del_events i s))
        else (Suc ev, gone, del_events i s))"

fun gc_uncollected :: "(string \<times> job_row) list \<Rightarrow> nat \<times> chatjobs \<Rightarrow> nat \<times> chatjobs" where
  "gc_uncollected [] acc = acc"
| "gc_uncollected ((i, _) # js) (gone, s) = gc_uncollected js (Suc gone, del_job i (del_events i s))"

definition gcRetention :: "ms \<Rightarrow> ms \<Rightarrow> ms \<Rightarrow> chatjobs \<Rightarrow> (nat \<times> nat) \<times> chatjobs" where
  "gcRetention t collectedTtlMs uncollectedTtlMs s =
     (let old = rows_where (\<lambda>_ r. jb_collectedAt r > 0 \<and> jb_collectedAt r < t - collectedTtlMs) (cj_jobs s);
          (ev, gone, s1) = gc_collected t collectedTtlMs old (0, 0, s);
          stale = rows_where (\<lambda>_ r. jb_collectedAt r = 0 \<and> jb_status r \<noteq> Running
                    \<and> jb_endedAt r > 0 \<and> jb_endedAt r < t - uncollectedTtlMs) (cj_jobs s1);
          (gone', s2) = (if uncollectedTtlMs > 0 then gc_uncollected stale (gone, s1) else (gone, s1))
      in ((ev, gone'), s2))"

definition job_stats :: "chatjobs \<Rightarrow> (job_status \<Rightarrow> nat) \<times> nat" where
  "job_stats s =
     (\<lambda>st. length (rows_where (\<lambda>_ r. jb_status r = st) (cj_jobs s)),
      length (rows_where (\<lambda>_ r. jb_collectedAt r = 0 \<and> jb_status r \<noteq> Running) (cj_jobs s)))"

section \<open>Lemmas: coalescing\<close>

definition run_text :: "(nat \<times> nat \<times> string) option \<Rightarrow> string" where
  "run_text run = (case run of None \<Rightarrow> [] | Some (_, _, d) \<Rightarrow> d)"

definition structural :: "chat_event \<Rightarrow> bool" where
  "structural ev \<longleftrightarrow> \<not> is_token ev \<and> ev \<noteq> EvWorking"

definition text_of :: "chat_event list \<Rightarrow> string" where
  "text_of evs = concat (map ev_delta evs)"

lemma text_of_simps [simp]:
  "text_of [] = []" "text_of (e # es) = ev_delta e @ text_of es" "text_of (xs @ ys) = text_of xs @ text_of ys"
  by (simp_all add: text_of_def)

lemma ev_delta_simps [simp]: "ev_delta (EvToken d) = d" "\<not> is_token ev \<Longrightarrow> ev_delta ev = []"
  by (simp_all add: ev_delta_def is_token_def split: chat_event.splits)

lemma is_token_simps [simp]: "is_token (EvToken d)" "\<not> is_token EvWorking"
  "\<not> is_token (EvError a b c)" "\<not> is_token (EvStopped a)"
  by (simp_all add: is_token_def)

lemma structural_token [simp]: "\<not> structural (EvToken d)"
  by (simp add: structural_def)

lemma coalesce_text:
  "text_of (map er_ev (coalesce_loop evs sq run)) = run_text run @ text_of evs"
proof (induction evs sq run rule: coalesce_loop.induct)
  case (1 sq run)
  then show ?case by (auto simp: close_run_def run_text_def split: option.splits)
next
  case (2 ev evs sq run)
  then show ?case by (auto simp: close_run_def run_text_def split: option.splits prod.splits)
qed

lemma coalesce_structural:
  "filter structural (map er_ev (coalesce_loop evs sq run)) = filter structural evs"
proof (induction evs sq run rule: coalesce_loop.induct)
  case (1 sq run)
  then show ?case by (auto simp: close_run_def split: option.splits)
next
  case (2 ev evs sq run)
  then show ?case by (auto simp: close_run_def structural_def split: option.splits prod.splits)
qed

text \<open>Rows are laid out left to right, without overlap, from the first event to the last.\<close>

definition laid :: "nat \<Rightarrow> nat \<Rightarrow> ev_row list \<Rightarrow> bool" where
  "laid a b rows \<longleftrightarrow> sorted_wrt (\<lambda>x y. er_seq x + er_span x \<le> er_seq y) rows
     \<and> (\<forall>r\<in>set rows. a \<le> er_seq r \<and> er_seq r + er_span r \<le> b \<and> 1 \<le> er_span r)"

lemma laid_append: "laid a b xs \<Longrightarrow> laid b c ys \<Longrightarrow> a \<le> b \<Longrightarrow> b \<le> c \<Longrightarrow> laid a c (xs @ ys)"
  by (auto simp: laid_def sorted_wrt_append) (meson order_trans)+

lemma laid_Nil [simp]: "laid a b []"
  by (simp add: laid_def)

lemma laid_single: "a \<le> er_seq r \<Longrightarrow> er_seq r + er_span r \<le> b \<Longrightarrow> 1 \<le> er_span r \<Longrightarrow> laid a b [r]"
  by (simp add: laid_def)

lemma coalesce_laid:
  "(\<forall>s0 sp d. run = Some (s0, sp, d) \<longrightarrow> s0 + sp = sq \<and> 1 \<le> sp) \<Longrightarrow>
   laid (case run of None \<Rightarrow> sq | Some (s0, _, _) \<Rightarrow> s0) (sq + length evs) (coalesce_loop evs sq run)"
proof (induction evs sq run rule: coalesce_loop.induct)
  case (1 sq run)
  then show ?case by (auto simp: close_run_def laid_single split: option.splits)
next
  case (2 ev evs sq run)
  show ?case
  proof (cases "is_token ev")
    case True
    with 2 show ?thesis by (cases run) (auto split: prod.splits)
  next
    case False
    let ?a = "case run of None \<Rightarrow> sq | Some (s0, _, _) \<Rightarrow> s0"
    have 1: "laid ?a sq (close_run run)" "?a \<le> sq"
      using 2(3) by (auto simp: close_run_def laid_single split: option.splits)
    have 2: "laid sq (Suc sq) (if ev \<noteq> EvWorking then [\<lparr>er_seq = sq, er_span = 1, er_ev = ev\<rparr>] else [])"
      by (simp add: laid_single)
    have 3: "laid (Suc sq) (sq + length (ev # evs)) (coalesce_loop evs (Suc sq) None)"
      using "2.IH"(2) [OF False] by simp
    from laid_append [OF 1(1) laid_append [OF 2 3]] 1(2) False show ?thesis by simp
  qed
qed

text \<open>The facts a flush rests on.\<close>

lemma coalesceEvents_text: "text_of (map er_ev (coalesceEvents evs n)) = text_of evs"
  by (simp add: coalesceEvents_def coalesce_text run_text_def)

lemma coalesceEvents_structural: "filter structural (map er_ev (coalesceEvents evs n)) = filter structural evs"
  by (simp add: coalesceEvents_def coalesce_structural)

lemma coalesceEvents_laid: "laid n (n + length evs) (coalesceEvents evs n)"
  unfolding coalesceEvents_def using coalesce_laid [of None n evs] by simp

lemmas coalesce_facts = coalesceEvents_text coalesceEvents_structural coalesceEvents_laid

section \<open>Lemmas: stored rows\<close>

definition stored :: "string \<Rightarrow> chatjobs \<Rightarrow> ev_row list" where
  "stored i s = map (\<lambda>((_, sq), sp, ev). \<lparr>er_seq = sq, er_span = sp, er_ev = ev\<rparr>)
     (filter (\<lambda>((j, _), _). j = i) (cj_events s))"

lemma laid_strict: "laid a b rows \<Longrightarrow> sorted_wrt (<) (map er_seq rows)"
  unfolding laid_def sorted_wrt_map by (elim conjE, erule sorted_wrt_mono_rel [rotated]) fastforce

lemma replay_stored: "laid a b (stored i s) \<Longrightarrow> replayRows i 0 s = stored i s"
proof -
  assume "laid a b (stored i s)"
  then have "sorted (map er_seq (stored i s))"
    using laid_strict strict_sorted_imp_sorted by (simp add: strict_sorted_iff)
  then show ?thesis by (simp add: replayRows_def stored_def [symmetric] sort_key_id_if_sorted)
qed

lemma stored_other: "j \<noteq> i \<Longrightarrow> stored j (put_event i r s) = stored j s"
proof -
  assume "j \<noteq> i"
  have "filter (\<lambda>((j', _), _). j' = j) (AList.update (i, er_seq r) v t) = filter (\<lambda>((j', _), _). j' = j) t"
    for v and t :: "((string \<times> nat) \<times> nat \<times> chat_event) list"
    using \<open>j \<noteq> i\<close> by (induction t) auto
  then show ?thesis by (simp add: stored_def put_event_def)
qed

lemma stored_put:
  assumes "\<forall>x\<in>set (stored i s). er_seq x \<noteq> er_seq r"
  shows "stored i (put_event i r s) = stored i s @ [r]"
proof -
  have "map (\<lambda>((_, sq), sp, ev). \<lparr>er_seq = sq, er_span = sp, er_ev = ev\<rparr>)
          (filter (\<lambda>((j, _), _). j = i) (AList.update (i, er_seq r) (er_span r, er_ev r) t))
      = map (\<lambda>((_, sq), sp, ev). \<lparr>er_seq = sq, er_span = sp, er_ev = ev\<rparr>)
          (filter (\<lambda>((j, _), _). j = i) t) @ [r]"
    if "\<forall>x\<in>set (filter (\<lambda>((j, _), _). j = i) t). snd (fst x) \<noteq> er_seq r"
    for t :: "((string \<times> nat) \<times> nat \<times> chat_event) list"
    using that by (induction t) (auto split: if_splits)
  moreover have "\<forall>x\<in>set (filter (\<lambda>((j, _), _). j = i) (cj_events s)). snd (fst x) \<noteq> er_seq r"
    using assms by (fastforce simp: stored_def)
  ultimately show ?thesis by (simp add: stored_def put_event_def)
qed

lemma stored_puts:
  "laid a n (stored i s) \<Longrightarrow> laid n m rows \<Longrightarrow> a \<le> n \<Longrightarrow> n \<le> m \<Longrightarrow>
   stored i (fold (put_event i) rows s) = stored i s @ rows \<and> laid a m (stored i s @ rows)"
proof (induction rows arbitrary: s n)
  case Nil
  then show ?case using laid_append [of a n "stored i s" m "[]"] by simp
next
  case (Cons r rows)
  let ?k = "er_seq r + er_span r"
  have r: "n \<le> er_seq r" "?k \<le> m" "1 \<le> er_span r" using Cons.prems(2) by (auto simp: laid_def)
  have "\<forall>x\<in>set (stored i s). er_seq x \<noteq> er_seq r"
    using Cons.prems(1) r by (fastforce simp: laid_def)
  then have st: "stored i (put_event i r s) = stored i s @ [r]" by (rule stored_put)
  have l1: "laid a ?k (stored i s @ [r])"
    using Cons.prems r by (intro laid_append [where b = n] laid_single) auto
  have l2: "laid ?k m rows" using Cons.prems(2) by (auto simp: laid_def)
  show ?case using Cons.IH [of ?k "put_event i r s"] st l1 l2 r Cons.prems by auto
qed

lemma stored_fold_other: "j \<noteq> i \<Longrightarrow> stored j (fold (put_event i) rows s) = stored j s"
  by (induction rows arbitrary: s) (simp_all add: stored_other)

lemma puts_jobs [simp]: "cj_jobs (fold (put_event i) rows s) = cj_jobs s"
  by (induction rows arbitrary: s) (simp_all add: put_event_def)

lemma upd_job_sel [simp]: "cj_events (upd_job i f s) = cj_events s" "stored j (upd_job i f s) = stored j s"
  by (simp_all add: upd_job_def stored_def)

lemma get_upd_job [row_simps]:
  "get_job j (upd_job i f s) = (if j = i then map_option f (get_job i s) else get_job j s)"
  by (simp add: get_job_def upd_job_def row_simps)

lemma get_job_puts [simp]: "get_job j (fold (put_event i) rows s) = get_job j s"
  by (simp add: get_job_def)

lemma appendRows_stored:
  "laid 0 n (stored i s) \<Longrightarrow> laid n m rows \<Longrightarrow> n \<le> m \<Longrightarrow>
   stored i (appendRows i rows ec tc s) = stored i s @ rows \<and> laid 0 m (stored i s @ rows)"
  using stored_puts [of 0 n i s m rows] by (simp add: appendRows_def set_progress_def)

lemma get_appendRows [row_simps]:
  "get_job j (appendRows i rows ec tc s)
     = (if j = i then map_option (\<lambda>r. r\<lparr>jb_eventCount := ec, jb_textChars := tc\<rparr>) (get_job i s) else get_job j s)"
  by (simp add: appendRows_def set_progress_def row_simps)

section \<open>Lemmas: retention\<close>

lemma del_sel [simp]:
  "get_job j (del_events i s) = get_job j s"
  "get_job j (del_job i s) = (if j = i then None else get_job j s)"
  "stored j (del_job i s) = stored j s" "cj_jobs (del_events i s) = cj_jobs s"
  by (simp_all add: get_job_def del_events_def del_job_def stored_def row_simps)

lemma stored_del_events [simp]: "stored j (del_events i s) = (if j = i then [] else stored j s)"
  by (auto simp: stored_def del_events_def case_prod_beta intro!: arg_cong [where f = "map _"] filter_cong)

lemma gc_collected_other:
  "i \<notin> fst ` set js \<Longrightarrow> get_job i (snd (snd (gc_collected t ttl js acc))) = get_job i (snd (snd acc))
     \<and> stored i (snd (snd (gc_collected t ttl js acc))) = stored i (snd (snd acc))"
  by (induction t ttl js acc rule: gc_collected.induct) auto

lemma gc_collected_hit:
  "distinct (map fst js) \<Longrightarrow> (i, r) \<in> set js \<Longrightarrow>
   stored i (snd (snd (gc_collected t ttl js acc))) = []
   \<and> get_job i (snd (snd (gc_collected t ttl js acc)))
      = (if jb_collectedAt r < t - ttl - ROW_LINGER_MS then None else get_job i (snd (snd acc)))"
proof (induction t ttl js acc rule: gc_collected.induct)
  case (2 t ttl j r' js ev gone s)
  show ?case
  proof (cases "j = i")
    case True
    then have "i \<notin> fst ` set js" "r' = r" using 2 by force+
    then show ?thesis using True by (simp add: gc_collected_other)
  next
    case False
    then have "(i, r) \<in> set js" using 2 by auto
    then show ?thesis using 2 False by auto
  qed
qed simp

lemma gc_uncollected_other:
  "i \<notin> fst ` set js \<Longrightarrow> get_job i (snd (gc_uncollected js acc)) = get_job i (snd acc)
     \<and> stored i (snd (gc_uncollected js acc)) = stored i (snd acc)"
  by (induction js acc rule: gc_uncollected.induct) auto

lemma gc_collected_distinct:
  "distinct (map fst (cj_jobs (snd (snd acc)))) \<Longrightarrow>
   distinct (map fst (cj_jobs (snd (snd (gc_collected t ttl js acc)))))"
  by (induction t ttl js acc rule: gc_collected.induct) (auto simp: del_job_def distinct_keys_delete)

lemma in_rows_where:
  "distinct (map fst t) \<Longrightarrow> (i, r) \<in> set (rows_where P t) \<longleftrightarrow> map_of t i = Some r \<and> P i r"
  by (auto simp: rows_where_def)

lemma rows_where_fst: "distinct (map fst t) \<Longrightarrow> i \<in> fst ` set (rows_where P t) \<longleftrightarrow> (\<exists>r. map_of t i = Some r \<and> P i r)"
  by (force simp: rows_where_def)

lemma rows_where_distinct: "distinct (map fst t) \<Longrightarrow> distinct (map fst (rows_where P t))"
  unfolding rows_where_def by (rule distinct_map_filter)

section \<open>Properties of the store\<close>

text \<open>retention never drops an answer nobody has collected.  A job that has not been collected keeps
  its row and every stored event through a retention pass, when it is running, when it never ended,
  when it ended within the retention time, or when uncollected jobs are kept for ever.\<close>

theorem gc_keeps_undelivered:
  assumes "distinct (map fst (cj_jobs s))" and "get_job i s = Some r" and "jb_collectedAt r = 0"
    and "jb_status r = Running \<or> jb_endedAt r = 0 \<or> t - ttl' \<le> jb_endedAt r \<or> ttl' \<le> 0"
  shows "get_job i (snd (gcRetention t ttl ttl' s)) = Some r
    \<and> stored i (snd (gcRetention t ttl ttl' s)) = stored i s"
proof -
  let ?old = "rows_where (\<lambda>_ r. jb_collectedAt r > 0 \<and> jb_collectedAt r < t - ttl) (cj_jobs s)"
  obtain ev gone s1 where g: "gc_collected t ttl ?old (0, 0, s) = (ev, gone, s1)" by (metis surj_pair)
  have "i \<notin> fst ` set ?old"
    using assms(2,3) rows_where_fst [OF assms(1)] by (auto simp: get_job_def)
  then have s1: "get_job i s1 = Some r" "stored i s1 = stored i s"
    using gc_collected_other [of i ?old t ttl "(0, 0, s)"] g assms(2) by auto
  have d1: "distinct (map fst (cj_jobs s1))"
    using gc_collected_distinct [of "(0, 0, s)" t ttl ?old] g assms(1) by simp
  let ?stale = "rows_where (\<lambda>_ r. jb_collectedAt r = 0 \<and> jb_status r \<noteq> Running
                    \<and> jb_endedAt r > 0 \<and> jb_endedAt r < t - ttl') (cj_jobs s1)"
  have "i \<notin> fst ` set ?stale" if "ttl' > 0"
    using s1(1) rows_where_fst [OF d1] assms(4) that by (auto simp: get_job_def)
  then show ?thesis
    using g s1 gc_uncollected_other [of i ?stale "(gone, s1)"]
    by (auto simp: gcRetention_def Let_def split: prod.splits if_splits)
qed

lemma gc_keeps_undelivered_witness:
  "map_option jb_status (get_job ''j'' (snd (gcRetention 10000000000 86400000 2592000000
      (createJob 5 ''j'' [] ''a@x'' [] 5 emptyChatJobs)))) = Some Running"
proof -
  let ?s = "createJob 5 ''j'' [] ''a@x'' [] 5 emptyChatJobs"
  have "case get_job ''j'' ?s of Some r \<Rightarrow> jb_collectedAt r = 0 \<and> jb_status r = Running | None \<Rightarrow> False"
    by code_simp
  then obtain r where r: "get_job ''j'' ?s = Some r" "jb_collectedAt r = 0" "jb_status r = Running"
    by (auto split: option.splits)
  have d: "distinct (map fst (cj_jobs ?s))" by (simp add: createJob_def emptyChatJobs_def)
  show ?thesis using gc_keeps_undelivered [OF d r(1,2), of 10000000000 2592000000 86400000] r(3) by simp
qed

text \<open>a collected job loses its events when the collected time is up, and its row a week later,
  whatever its status: a job that was collected while it was still running is not spared.\<close>

theorem gc_drops_collected:
  assumes "distinct (map fst (cj_jobs s))" and "get_job i s = Some r" and "0 < jb_collectedAt r"
    and "jb_collectedAt r < t - ttl"
  shows "stored i (snd (gcRetention t ttl ttl' s)) = []
    \<and> get_job i (snd (gcRetention t ttl ttl' s))
       = (if jb_collectedAt r < t - ttl - 604800000 then None else Some r)"
proof -
  let ?old = "rows_where (\<lambda>_ r. jb_collectedAt r > 0 \<and> jb_collectedAt r < t - ttl) (cj_jobs s)"
  obtain ev gone s1 where g: "gc_collected t ttl ?old (0, 0, s) = (ev, gone, s1)" by (metis surj_pair)
  have mem: "(i, r) \<in> set ?old"
    using assms in_rows_where [OF assms(1)] by (simp add: get_job_def)
  have s1: "stored i s1 = []"
    "get_job i s1 = (if jb_collectedAt r < t - ttl - ROW_LINGER_MS then None else Some r)"
    using gc_collected_hit [OF rows_where_distinct [OF assms(1)] mem, of t ttl "(0, 0, s)"] g assms(2)
    by simp_all
  have d1: "distinct (map fst (cj_jobs s1))"
    using gc_collected_distinct [of "(0, 0, s)" t ttl ?old] g assms(1) by simp
  let ?stale = "rows_where (\<lambda>_ r. jb_collectedAt r = 0 \<and> jb_status r \<noteq> Running
                    \<and> jb_endedAt r > 0 \<and> jb_endedAt r < t - ttl') (cj_jobs s1)"
  have "i \<notin> fst ` set ?stale"
    using s1(2) rows_where_fst [OF d1] assms(3) by (auto simp: get_job_def split: if_splits)
  then show ?thesis
    using g s1 gc_uncollected_other [of i ?stale "(gone, s1)"]
    by (auto simp: gcRetention_def Let_def ROW_LINGER_MS_def split: prod.splits if_splits)
qed

lemma gc_drops_collected_witness:
  "\<exists>s. map_option jb_status (get_job ''j'' s) = Some Running \<and> stored ''j'' s \<noteq> []
     \<and> stored ''j'' (snd (gcRetention 100000000 86400000 2592000000 s)) = []"
proof -
  let ?s = "collect 7 ''j'' (appendRows ''j'' (coalesceEvents [EvToken ''hi''] 0) 1 2
      (createJob 5 ''j'' [] ''a@x'' [] 5 emptyChatJobs))"
  have "case get_job ''j'' ?s of Some r \<Rightarrow> jb_collectedAt r = 7 \<and> jb_status r = Running | None \<Rightarrow> False"
    by code_simp
  then obtain r where r: "get_job ''j'' ?s = Some r" "jb_collectedAt r = 7" "jb_status r = Running"
    by (auto split: option.splits)
  have d: "distinct (map fst (cj_jobs ?s))" by code_simp
  have "stored ''j'' ?s \<noteq> []" by code_simp
  then show ?thesis
    using gc_drops_collected [OF d r(1), of 100000000 86400000 2592000000] r by (intro exI [of _ ?s]) simp
qed

end
