(* ===== verification/ChatLive.thy ===== *)
theory ChatLive
  imports ChatJobs
begin

text \<open>
  The live half of chat turns, in \<open>server.mjs\<close>: the in-memory jobs with their event tail, the
  batched flush to the store, the attach protocol that lets a client catch up, stop, and the
  per-identity access rules.  \<open>disk\<close> says whether the store accepts a write; a refused batch is
  dropped, as the code drops it.
\<close>

section \<open>Jobs in memory\<close>

record live_job =
  lj_chatId :: string
  lj_email :: string
  lj_uid :: string
  lj_startedAt :: ms
  lj_endedAt :: ms
  lj_tail :: "chat_event list"
  lj_tailStart :: nat
  lj_eventCount :: nat
  lj_text :: string
  lj_pending :: "chat_event list"
  lj_timer :: bool
  lj_sawDone :: bool
  lj_doneMeta :: string
  lj_errNote :: string
  lj_done :: bool
  lj_stopped :: bool

record chat_server =
  sv_live :: "(string \<times> live_job) list"
  sv_store :: chatjobs

definition JOB_CAP :: nat where "JOB_CAP = 24"
definition JOB_TTL_MS :: ms where "JOB_TTL_MS = 45 * 60 * 1000"
definition CHATJOBS_TAIL :: nat where "CHATJOBS_TAIL = 4096"
definition CHATJOBS_MAX_RUNNING :: nat where "CHATJOBS_MAX_RUNNING = 6"

text \<open>The oldest finished records go until the cap is met.\<close>

fun evict_done :: "string list \<Rightarrow> (string \<times> live_job) list \<Rightarrow> (string \<times> live_job) list" where
  "evict_done [] jobs = jobs"
| "evict_done (k # ks) jobs =
     (if length jobs \<le> JOB_CAP then jobs else evict_done ks (AList.delete k jobs))"

definition gcChatJobs :: "ms \<Rightarrow> (string \<times> live_job) list \<Rightarrow> (string \<times> live_job) list" where
  "gcChatJobs now jobs =
     (let kept = rows_where (\<lambda>_ j. \<not> (lj_done j \<and> now - lj_endedAt j > JOB_TTL_MS)) jobs
      in if length kept > JOB_CAP
         then evict_done (map fst (sort_key (\<lambda>(_, j). lj_endedAt j) (rows_where (\<lambda>_ j. lj_done j) kept))) kept
         else kept)"

definition new_live_job :: "ms \<Rightarrow> string \<Rightarrow> string \<Rightarrow> live_job" where
  "new_live_job now email uid =
     \<lparr>lj_chatId = [], lj_email = lc email, lj_uid = uid, lj_startedAt = now, lj_endedAt = 0, lj_tail = [],
      lj_tailStart = 0, lj_eventCount = 0, lj_text = [], lj_pending = [], lj_timer = False,
      lj_sawDone = False, lj_doneMeta = [], lj_errNote = [], lj_done = False, lj_stopped = False\<rparr>"

text \<open>\<open>i\<close> is the fresh random identifier.\<close>

definition createChatJob :: "bool \<Rightarrow> ms \<Rightarrow> string \<Rightarrow> string \<Rightarrow> string \<Rightarrow> chat_server \<Rightarrow> chat_server" where
  "createChatJob disk now i email uid S =
     \<lparr>sv_live = AList.update i (new_live_job now email uid) (gcChatJobs now (sv_live S)),
      sv_store = (if disk then createJob now i [] (lc email) uid now (sv_store S) else sv_store S)\<rparr>"

definition flushJob :: "bool \<Rightarrow> string \<Rightarrow> live_job \<times> chatjobs \<Rightarrow> live_job \<times> chatjobs" where
  "flushJob disk i js =
     (let j = (fst js)\<lparr>lj_timer := False\<rparr>; s = snd js in
      if lj_pending j = [] then (j, s)
      else
        let rows = coalesceEvents (lj_pending j) (lj_eventCount j - length (lj_pending j))
        in (j\<lparr>lj_pending := []\<rparr>,
            if disk then appendRows i rows (lj_eventCount j) (length (lj_text j)) s else s))"

definition push_tail :: "chat_event \<Rightarrow> live_job \<Rightarrow> live_job" where
  "push_tail ev j =
     (let tl = lj_tail j @ [ev]; over = length tl - CHATJOBS_TAIL
      in j\<lparr>lj_tail := drop over tl, lj_tailStart := lj_tailStart j + over\<rparr>)"

text \<open>The fields an event sets on the job, and the model binding a \<open>route\<close> event writes.\<close>

definition note_event :: "chat_event \<Rightarrow> live_job \<Rightarrow> live_job" where
  "note_event ev j =
     (case ev of
        EvToken d \<Rightarrow> j\<lparr>lj_text := lj_text j @ d\<rparr>
      | EvDone md \<Rightarrow> j\<lparr>lj_sawDone := True, lj_doneMeta := md\<rparr>
      | EvError msg code err \<Rightarrow> j\<lparr>lj_errNote := take 300 (first_text [msg, code, err])\<rparr>
      | _ \<Rightarrow> j)"

definition bind_event :: "bool \<Rightarrow> string \<Rightarrow> chat_event \<Rightarrow> live_job \<Rightarrow> chatjobs \<Rightarrow> chatjobs" where
  "bind_event disk i ev j s =
     (case ev of EvRoute model md \<Rightarrow> if disk then bindMeta i (lj_chatId j) model md s else s | _ \<Rightarrow> s)"

definition jobEmit :: "bool \<Rightarrow> string \<Rightarrow> chat_event \<Rightarrow> live_job \<times> chatjobs \<Rightarrow> live_job \<times> chatjobs" where
  "jobEmit disk i ev js =
     (let j = fst js; s = snd js in
      if lj_done j then (j, s)
      else
        let j1 = push_tail ev j;
            j2 = note_event ev (j1\<lparr>lj_eventCount := Suc (lj_eventCount j1)\<rparr>);
            s2 = bind_event disk i ev j s;
            j3 = j2\<lparr>lj_pending := lj_pending j2 @ [ev]\<rparr>
        in if structural ev \<or> length (lj_pending j3) \<ge> 64 then flushJob disk i (j3, s2)
           else (j3\<lparr>lj_timer := True\<rparr>, s2))"

text \<open>\<open>note_json\<close>: the JSON text of \<open>{note}\<close>.\<close>

definition end_status :: "live_job \<Rightarrow> string" where
  "end_status j = (if lj_stopped j then ''stopped'' else if lj_sawDone j then ''done'' else ''error'')"

definition end_meta :: "(string \<Rightarrow> string) \<Rightarrow> live_job \<Rightarrow> string" where
  "end_meta note_json j =
     (if lj_sawDone j then (if lj_doneMeta j = [] then ''{}'' else lj_doneMeta j)
      else note_json (if lj_errNote j \<noteq> [] then lj_errNote j
                      else if lj_stopped j then ''stopped'' else ''ended without done''))"

definition finishJob :: "bool \<Rightarrow> (string \<Rightarrow> string) \<Rightarrow> ms \<Rightarrow> string \<Rightarrow> live_job \<times> chatjobs \<Rightarrow> live_job \<times> chatjobs" where
  "finishJob disk note_json now i js =
     (if lj_done (fst js) then js
      else
        let (j, s) = flushJob disk i ((fst js)\<lparr>lj_done := True, lj_endedAt := now\<rparr>, snd js)
        in (j, if disk then finish now i (end_status j) (end_meta note_json j) s else s))"

section \<open>Access\<close>

definition jobAuthOk :: "bool \<Rightarrow> string \<Rightarrow> string \<Rightarrow> bool" where
  "jobAuthOk multi caller jobEmail = (\<not> multi \<or> (lc caller \<noteq> [] \<and> lc caller = lc jobEmail))"

datatype stop_result = StopUnknown | StopAlready bool | StopOk

definition chat_stop :: "bool \<Rightarrow> string \<Rightarrow> string \<Rightarrow> chat_server \<Rightarrow> stop_result \<times> chat_server" where
  "chat_stop multi caller i S =
     (case map_of (sv_live S) i of
        None \<Rightarrow>
          (case get_job i (sv_store S) of
             Some row \<Rightarrow> (if jobAuthOk multi caller (jb_email row) then StopAlready (jb_status row = Stopped)
                         else StopUnknown, S)
           | None \<Rightarrow> (StopUnknown, S))
      | Some j \<Rightarrow>
          if \<not> jobAuthOk multi caller (lj_email j) then (StopUnknown, S)
          else if lj_done j then (StopAlready (lj_stopped j), S)
          else (StopOk, S\<lparr>sv_live := row_upd i (\<lambda>j. j\<lparr>lj_stopped := True\<rparr>) (sv_live S)\<rparr>))"

definition fire_alarm_turns :: "bool \<Rightarrow> string \<Rightarrow> chat_server \<Rightarrow> nat \<times> chat_server" where
  "fire_alarm_turns isOwner uid S =
     (let hit = (\<lambda>j. \<not> lj_done j \<and> (isOwner \<or> lj_uid j = uid))
      in (length (rows_where (\<lambda>_ j. hit j) (sv_live S)),
          S\<lparr>sv_live := map (\<lambda>(i, j). (i, if hit j then j\<lparr>lj_stopped := True\<rparr> else j)) (sv_live S)\<rparr>))"

section \<open>Attaching\<close>

datatype attach_out = AReset | AEvent chat_event | ACursor nat | AGone

definition writeDbReplay :: "string \<Rightarrow> nat \<Rightarrow> chatjobs \<Rightarrow> attach_out list" where
  "writeDbReplay i from_ix s =
     (let rows = replayRows i from_ix s in
      if from_ix > 0 \<and> \<not> (rows \<noteq> [] \<and> er_seq (hd rows) = from_ix)
      then AReset # map (AEvent \<circ> er_ev) (replayRows i 0 s)
      else map (AEvent \<circ> er_ev) rows)"

definition attach_live :: "string \<Rightarrow> nat \<Rightarrow> live_job \<Rightarrow> chatjobs \<Rightarrow> attach_out list" where
  "attach_live i from_ix j s =
     (if from_ix \<ge> lj_tailStart j then map AEvent (drop (from_ix - lj_tailStart j) (lj_tail j))
      else AReset # map (AEvent \<circ> er_ev) (replayRows i 0 s)
             @ map (AEvent \<circ> er_ev) (coalesceEvents (lj_pending j) 0) @ [ACursor (lj_eventCount j)])"

definition chat_attach :: "bool \<Rightarrow> string \<Rightarrow> string \<Rightarrow> nat \<Rightarrow> chat_server \<Rightarrow> attach_out list" where
  "chat_attach multi caller i from_ix S =
     (case map_of (sv_live S) i of
        None \<Rightarrow>
          (case get_job i (sv_store S) of
             Some row \<Rightarrow> if jobAuthOk multi caller (jb_email row)
                         then writeDbReplay i from_ix (sv_store S) @ [ACursor (jb_eventCount row)]
                         else [AGone]
           | None \<Rightarrow> [AGone])
      | Some j \<Rightarrow> if jobAuthOk multi caller (lj_email j) then attach_live i from_ix j (sv_store S)
                 else [AGone])"

section \<open>Listing, results, collection\<close>

record listed_job =
  ls_id :: string
  ls_chatId :: string
  ls_status :: job_status
  ls_startedAt :: ms
  ls_endedAt :: ms
  ls_model :: string
  ls_mode :: string
  ls_textChars :: nat
  ls_collected :: bool

definition chat_jobs :: "string \<Rightarrow> string \<Rightarrow> chat_server \<Rightarrow> listed_job list" where
  "chat_jobs email chatId S = map (\<lambda>(i, r).
      \<lparr>ls_id = i, ls_chatId = jb_chatId r,
       ls_status = (case map_of (sv_live S) i of
                      Some l \<Rightarrow> if \<not> lj_done l then Running else jb_status r | None \<Rightarrow> jb_status r),
       ls_startedAt = jb_startedAt r, ls_endedAt = jb_endedAt r, ls_model = jb_model r, ls_mode = jb_mode r,
       ls_textChars = (case map_of (sv_live S) i of Some l \<Rightarrow> length (lj_text l) | None \<Rightarrow> jb_textChars r),
       ls_collected = (jb_collectedAt r \<noteq> 0)\<rparr>)
     (listFor email chatId 200 (sv_store S))"

definition chat_result :: "(string \<Rightarrow> 'm option) \<Rightarrow> bool \<Rightarrow> string \<Rightarrow> string \<Rightarrow> chat_server \<Rightarrow> 'm job_result option" where
  "chat_result json_parse multi caller i S =
     (case resultFor json_parse i (sv_store S) of
        Some r \<Rightarrow> if jobAuthOk multi caller (jb_email (rs_row r)) then Some r else None
      | None \<Rightarrow> None)"

definition chat_collect :: "bool \<Rightarrow> ms \<Rightarrow> string \<Rightarrow> string \<Rightarrow> chat_server \<Rightarrow> bool \<times> chat_server" where
  "chat_collect multi now caller i S =
     (case get_job i (sv_store S) of
        Some row \<Rightarrow> if jobAuthOk multi caller (jb_email row)
                    then (True, S\<lparr>sv_store := collect now i (sv_store S)\<rparr>) else (False, S)
      | None \<Rightarrow> (False, S))"

definition too_many_jobs :: "bool \<Rightarrow> string \<Rightarrow> chat_server \<Rightarrow> bool" where
  "too_many_jobs isOwner email S =
     (\<not> isOwner \<and> runningCountFor email (sv_store S) > CHATJOBS_MAX_RUNNING)"

section \<open>Lemmas: a live job and its store\<close>

text \<open>\<open>evs\<close> is everything emitted so far; \<open>fl\<close> the part that has been flushed.\<close>

definition live_ok :: "string \<Rightarrow> chat_event list \<Rightarrow> live_job \<times> chatjobs \<Rightarrow> bool" where
  "live_ok i evs js \<longleftrightarrow> (let j = fst js; s = snd js in
     lj_eventCount j = length evs \<and> lj_text j = text_of evs
     \<and> lj_tailStart j \<le> length evs \<and> lj_tail j = drop (lj_tailStart j) evs
     \<and> \<not> lj_done j \<and> length (lj_pending j) < 64
     \<and> (\<exists>fl r. evs = fl @ lj_pending j \<and> laid 0 (length fl) (stored i s)
          \<and> text_of (map er_ev (stored i s)) = text_of fl
          \<and> filter structural (map er_ev (stored i s)) = filter structural fl
          \<and> get_job i s = Some r \<and> jb_eventCount r = length fl \<and> jb_status r = Running))"

lemma bind_event_sel [simp]:
  "stored k (bind_event d i ev j s) = stored k s"
  "map_option jb_eventCount (get_job i (bind_event d i ev j s)) = map_option jb_eventCount (get_job i s)"
  "map_option jb_status (get_job i (bind_event d i ev j s)) = map_option jb_status (get_job i s)"
  by (simp_all add: bind_event_def bindMeta_def row_simps option.map_comp comp_def split: chat_event.splits)

lemma bind_event_get:
  "get_job i s = Some r \<Longrightarrow> \<exists>r'. get_job i (bind_event d i ev j s) = Some r'
     \<and> jb_eventCount r' = jb_eventCount r \<and> jb_status r' = jb_status r"
  by (auto simp: bind_event_def bindMeta_def row_simps split: chat_event.splits)

lemma note_event_sel [simp]:
  "lj_eventCount (note_event ev j) = lj_eventCount j" "lj_tail (note_event ev j) = lj_tail j"
  "lj_tailStart (note_event ev j) = lj_tailStart j" "lj_pending (note_event ev j) = lj_pending j"
  "lj_done (note_event ev j) = lj_done j" "lj_text (note_event ev j) = lj_text j @ ev_delta ev"
  "lj_stopped (note_event ev j) = lj_stopped j" "lj_email (note_event ev j) = lj_email j"
  by (simp_all add: note_event_def ev_delta_def split: chat_event.splits)

lemma push_tail_sel [simp]:
  "lj_eventCount (push_tail ev j) = lj_eventCount j" "lj_pending (push_tail ev j) = lj_pending j"
  "lj_done (push_tail ev j) = lj_done j" "lj_text (push_tail ev j) = lj_text j"
  by (simp_all add: push_tail_def Let_def)

lemma push_tail_window:
  assumes "lj_tailStart j \<le> length evs" and "lj_tail j = drop (lj_tailStart j) evs"
  shows "lj_tailStart (push_tail ev j) \<le> length (evs @ [ev])
    \<and> lj_tail (push_tail ev j) = drop (lj_tailStart (push_tail ev j)) (evs @ [ev])"
  using assms by (auto simp: push_tail_def Let_def CHATJOBS_TAIL_def add.commute)

text \<open>One flush moves the pending batch to the store, in order.\<close>

lemma flush_core:
  assumes "lj_eventCount j = length evs" and "evs = fl @ lj_pending j" and "laid 0 (length fl) (stored i s)"
    and "text_of (map er_ev (stored i s)) = text_of fl"
    and "filter structural (map er_ev (stored i s)) = filter structural fl"
    and "get_job i s = Some r" and "jb_eventCount r = length fl"
  shows "\<exists>j' s' r'. flushJob True i (j, s) = (j', s') \<and> j' = j\<lparr>lj_timer := False, lj_pending := []\<rparr>
    \<and> laid 0 (length evs) (stored i s') \<and> text_of (map er_ev (stored i s')) = text_of evs
    \<and> filter structural (map er_ev (stored i s')) = filter structural evs
    \<and> get_job i s' = Some r' \<and> jb_eventCount r' = length evs \<and> jb_status r' = jb_status r"
proof (cases "lj_pending j = []")
  case True
  with assms show ?thesis by (simp add: flushJob_def)
next
  case False
  let ?rows = "coalesceEvents (lj_pending j) (length fl)"
  let ?s' = "appendRows i ?rows (lj_eventCount j) (length (lj_text j)) s"
  have start: "lj_eventCount j - length (lj_pending j) = length fl" using assms(1,2) by simp
  have "stored i ?s' = stored i s @ ?rows \<and> laid 0 (length fl + length (lj_pending j)) (stored i s @ ?rows)"
    using assms(3) by (intro appendRows_stored [where n = "length fl"] coalesceEvents_laid) auto
  then show ?thesis
    using assms False start
    by (simp add: flushJob_def Let_def row_simps coalesce_facts)
qed

lemma flush_ok: "live_ok i evs js \<Longrightarrow> live_ok i evs (flushJob True i js)"
proof (cases js)
  case (Pair j s)
  assume ok: "live_ok i evs js"
  then obtain fl r where f: "evs = fl @ lj_pending j" "laid 0 (length fl) (stored i s)"
    "text_of (map er_ev (stored i s)) = text_of fl"
    "filter structural (map er_ev (stored i s)) = filter structural fl"
    "get_job i s = Some r" "jb_eventCount r = length fl" "jb_status r = Running" "lj_eventCount j = length evs"
    unfolding live_ok_def Pair by (auto simp: Let_def)
  from flush_core [OF f(8) f(1-6)] obtain j' s' r' where
    "flushJob True i (j, s) = (j', s')" "j' = j\<lparr>lj_timer := False, lj_pending := []\<rparr>"
    "laid 0 (length evs) (stored i s')" "text_of (map er_ev (stored i s')) = text_of evs"
    "filter structural (map er_ev (stored i s')) = filter structural evs"
    "get_job i s' = Some r'" "jb_eventCount r' = length evs" "jb_status r' = jb_status r"
    by blast
  then show ?thesis using ok f(7) unfolding live_ok_def Pair by (simp add: Let_def)
qed

lemma emit_ok:
  assumes "live_ok i evs js"
  shows "live_ok i (evs @ [ev]) (jobEmit True i ev js)"
proof (cases js)
  case (Pair j s)
  obtain fl r where f: "evs = fl @ lj_pending j" "laid 0 (length fl) (stored i s)"
    "text_of (map er_ev (stored i s)) = text_of fl"
    "filter structural (map er_ev (stored i s)) = filter structural fl"
    "get_job i s = Some r" "jb_eventCount r = length fl" "jb_status r = Running" "lj_eventCount j = length evs"
    and live: "lj_text j = text_of evs" "\<not> lj_done j" "lj_tailStart j \<le> length evs"
      "lj_tail j = drop (lj_tailStart j) evs" "length (lj_pending j) < 64"
    using assms unfolding live_ok_def Pair by (auto simp: Let_def)
  define j3 where "j3 = (let j2 = note_event ev ((push_tail ev j)\<lparr>lj_eventCount := Suc (lj_eventCount j)\<rparr>)
    in j2\<lparr>lj_pending := lj_pending j2 @ [ev]\<rparr>)"
  define s2 where "s2 = bind_event True i ev j s"
  obtain r2 where r2: "get_job i s2 = Some r2" "jb_eventCount r2 = length fl" "jb_status r2 = Running"
    using bind_event_get [OF f(5), of True ev j] f(6,7) by (auto simp: s2_def)
  have j3: "lj_eventCount j3 = length (evs @ [ev])" "lj_pending j3 = lj_pending j @ [ev]"
    "lj_text j3 = text_of (evs @ [ev])" "\<not> lj_done j3" "lj_tailStart j3 \<le> length (evs @ [ev])"
    "lj_tail j3 = drop (lj_tailStart j3) (evs @ [ev])"
    using f(8) live push_tail_window [OF live(3,4), of ev]
    by (simp_all add: j3_def Let_def)
  have st: "stored i s2 = stored i s" by (simp add: s2_def)
  have eq: "jobEmit True i ev (j, s)
      = (if structural ev \<or> 64 \<le> length (lj_pending j3) then flushJob True i (j3, s2) else (j3\<lparr>lj_timer := True\<rparr>, s2))"
    using live(2) by (simp add: jobEmit_def Let_def j3_def s2_def)
  show ?thesis
  proof (cases "structural ev \<or> 64 \<le> length (lj_pending j3)")
    case True
    have "evs @ [ev] = fl @ lj_pending j3" using f(1) j3(2) by simp
    from flush_core [OF j3(1) this, of i s2 r2] f st r2 obtain j' s' r' where
      "flushJob True i (j3, s2) = (j', s')" "j' = j3\<lparr>lj_timer := False, lj_pending := []\<rparr>"
      "laid 0 (length (evs @ [ev])) (stored i s')" "text_of (map er_ev (stored i s')) = text_of (evs @ [ev])"
      "filter structural (map er_ev (stored i s')) = filter structural (evs @ [ev])"
      "get_job i s' = Some r'" "jb_eventCount r' = length (evs @ [ev])" "jb_status r' = Running"
      by auto
    with True j3 show ?thesis unfolding Pair eq live_ok_def by (simp add: Let_def)
  next
    case False
    have "evs @ [ev] = fl @ (lj_pending j @ [ev])" using f(1) by simp
    with False j3 r2 st f show ?thesis
      unfolding Pair eq live_ok_def Let_def
      by (simp del: append_assoc)
  qed
qed

section \<open>Runs\<close>

datatype live_op = OpEmit chat_event | OpTimer

definition run_live :: "string \<Rightarrow> live_op list \<Rightarrow> live_job \<times> chatjobs \<Rightarrow> live_job \<times> chatjobs" where
  "run_live i ops = fold (\<lambda>op. case op of OpEmit ev \<Rightarrow> jobEmit True i ev | OpTimer \<Rightarrow> flushJob True i) ops"

definition emitted :: "live_op list \<Rightarrow> chat_event list" where
  "emitted ops = List.map_filter (\<lambda>op. case op of OpEmit ev \<Rightarrow> Some ev | OpTimer \<Rightarrow> None) ops"

definition fresh_start :: "ms \<Rightarrow> string \<Rightarrow> string \<Rightarrow> string \<Rightarrow> chatjobs \<Rightarrow> live_job \<times> chatjobs" where
  "fresh_start now i email uid s = (new_live_job now email uid, createJob now i [] (lc email) uid now s)"

lemma fresh_start_ok: "stored i s = [] \<Longrightarrow> live_ok i [] (fresh_start now i email uid s)"
  by (simp add: live_ok_def fresh_start_def new_live_job_def createJob_def stored_def get_job_def row_simps)

lemma run_live_ok: "live_ok i evs js \<Longrightarrow> live_ok i (evs @ emitted ops) (run_live i ops js)"
proof (induction ops arbitrary: evs js)
  case Nil
  then show ?case by (simp add: run_live_def emitted_def map_filter_simps)
next
  case (Cons op ops)
  show ?case
  proof (cases op)
    case (OpEmit ev)
    have "live_ok i ((evs @ [ev]) @ emitted ops) (run_live i ops (jobEmit True i ev js))"
      by (rule Cons.IH [OF emit_ok [OF Cons.prems]])
    then show ?thesis using OpEmit by (simp add: run_live_def emitted_def map_filter_simps)
  next
    case OpTimer
    have "live_ok i (evs @ emitted ops) (run_live i ops (flushJob True i js))"
      by (rule Cons.IH [OF flush_ok [OF Cons.prems]])
    then show ?thesis using OpTimer by (simp add: run_live_def emitted_def map_filter_simps)
  qed
qed

lemma run_fresh:
  assumes "stored i s = []" and "run_live i ops (fresh_start now i email uid s) = (j, s')"
  obtains fl r where "emitted ops = fl @ lj_pending j" "laid 0 (length fl) (stored i s')"
    "text_of (map er_ev (stored i s')) = text_of fl"
    "filter structural (map er_ev (stored i s')) = filter structural fl"
    "get_job i s' = Some r" "jb_eventCount r = length fl" "jb_status r = Running"
    "lj_eventCount j = length (emitted ops)" "lj_text j = text_of (emitted ops)"
    "lj_tail j = drop (lj_tailStart j) (emitted ops)" "\<not> lj_done j" "length (lj_pending j) < 64"
proof -
  have "live_ok i (emitted ops) (j, s')"
    using run_live_ok [OF fresh_start_ok [OF assms(1)], of ops now email uid] assms(2) by simp
  then show ?thesis using that unfolding live_ok_def Let_def by auto
qed

section \<open>Properties\<close>

text \<open>C24: a client that attaches catches up exactly.  After any sequence of events and timer flushes
  whose writes the store accepted, a cursor inside the in-memory tail gets every later event, one by one; an older cursor gets a reset,
  then events whose text is the whole text so far and whose structural events are all those emitted
  in order, then the index to resume from.\<close>

theorem attach_catches_up:
  assumes "stored i s = []" and "run_live i ops (fresh_start now i email uid s) = (j, s')"
  shows "if lj_tailStart j \<le> from_ix
    then attach_live i from_ix j s' = map AEvent (drop from_ix (emitted ops))
    else \<exists>evs. attach_live i from_ix j s' = AReset # map AEvent evs @ [ACursor (length (emitted ops))]
      \<and> text_of evs = text_of (emitted ops) \<and> filter structural evs = filter structural (emitted ops)"
proof -
  obtain fl r where f: "emitted ops = fl @ lj_pending j" "laid 0 (length fl) (stored i s')"
    "text_of (map er_ev (stored i s')) = text_of fl"
    "filter structural (map er_ev (stored i s')) = filter structural fl"
    "lj_eventCount j = length (emitted ops)" "lj_tail j = drop (lj_tailStart j) (emitted ops)"
    by (rule run_fresh [OF assms])
  show ?thesis
  proof (cases "lj_tailStart j \<le> from_ix")
    case True
    then show ?thesis using f(6) by (simp add: attach_live_def)
  next
    case False
    let ?evs = "map er_ev (stored i s') @ map er_ev (coalesceEvents (lj_pending j) 0)"
    have "attach_live i from_ix j s' = AReset # map AEvent ?evs @ [ACursor (length (emitted ops))]"
      using False f(5) by (simp add: attach_live_def replay_stored [OF f(2)])
    moreover have "text_of ?evs = text_of (emitted ops)" "filter structural ?evs = filter structural (emitted ops)"
      using f by (simp_all add: coalesce_facts)
    ultimately show ?thesis using False by (simp only: if_False) blast
  qed
qed

lemma attach_catches_up_witness:
  "\<exists>j s'. run_live ''j'' [OpEmit (EvToken ''a''), OpEmit (EvToken ''b'')] (fresh_start 0 ''j'' ''u'' [] emptyChatJobs) = (j, s')
     \<and> attach_live ''j'' 1 j s' = [AEvent (EvToken ''b'')]"
proof -
  let ?ops = "[OpEmit (EvToken ''a''), OpEmit (EvToken ''b'')]"
  have st: "stored ''j'' emptyChatJobs = []" by (simp add: stored_def emptyChatJobs_def)
  obtain j s' where r: "run_live ''j'' ?ops (fresh_start 0 ''j'' ''u'' [] emptyChatJobs) = (j, s')"
    by (metis surj_pair)
  have "lj_tailStart (fst (run_live ''j'' ?ops (fresh_start 0 ''j'' ''u'' [] emptyChatJobs))) = 0" by code_simp
  then have "lj_tailStart j = 0" using r by simp
  moreover have "emitted ?ops = [EvToken ''a'', EvToken ''b'']" by (simp add: emitted_def map_filter_simps)
  ultimately show ?thesis using attach_catches_up [OF st r, of 1] r by simp
qed

lemma orphan_one_other:
  "i \<noteq> fst d \<Longrightarrow> get_job i (orphan_one om t d s) = get_job i s \<and> stored i (orphan_one om t d s) = stored i s"
  by (auto simp: orphan_one_def set_finished_def set_progress_def row_simps stored_fold_other
      simp del: fold_simps split: prod.splits)

lemma orphan_fold_other:
  "i \<notin> fst ` set ds \<Longrightarrow> get_job i (fold (orphan_one om t) ds s) = get_job i s
     \<and> stored i (fold (orphan_one om t) ds s) = stored i s"
  by (induction ds arbitrary: s) (simp_all add: orphan_one_other)

lemma orphan_one_hit:
  assumes "laid 0 (jb_eventCount r) (stored i s)" and "get_job i s = Some r"
  shows "stored i (orphan_one om t (i, r) s) = stored i s @ orphan_tail (jb_eventCount r)
    \<and> laid 0 (jb_eventCount r + 2) (stored i s @ orphan_tail (jb_eventCount r))
    \<and> map_option jb_status (get_job i (orphan_one om t (i, r) s)) = Some Orphaned"
proof -
  have "laid (jb_eventCount r) (jb_eventCount r + 2) (orphan_tail (jb_eventCount r))"
    by (simp add: laid_def orphan_tail_def)
  from stored_puts [OF assms(1) this] assms(2) show ?thesis
    by (simp add: orphan_one_def set_finished_def set_progress_def row_simps del: fold_simps)
qed

lemma sweep_one:
  assumes "distinct (map fst (cj_jobs s))" and "get_job i s = Some r" and "jb_status r = Running"
    and "laid 0 (jb_eventCount r) (stored i s)"
  shows "stored i (snd (sweepOrphans om t s)) = stored i s @ orphan_tail (jb_eventCount r)
    \<and> laid 0 (jb_eventCount r + 2) (stored i s @ orphan_tail (jb_eventCount r))
    \<and> map_option jb_status (get_job i (snd (sweepOrphans om t s))) = Some Orphaned"
proof -
  let ?dead = "rows_where (\<lambda>_ r. jb_status r = Running) (cj_jobs s)"
  have "(i, r) \<in> set ?dead" using assms in_rows_where [OF assms(1)] by (simp add: get_job_def)
  then obtain xs ys where d: "?dead = xs @ (i, r) # ys" by (meson split_list)
  have "distinct (map fst ?dead)" by (rule rows_where_distinct [OF assms(1)])
  then have "i \<notin> fst ` set xs" "i \<notin> fst ` set ys" unfolding d by simp_all
  note fresh = this
  let ?s1 = "fold (orphan_one om t) xs s"
  let ?s2 = "orphan_one om t (i, r) ?s1"
  have s1: "get_job i ?s1 = Some r" "stored i ?s1 = stored i s"
    using orphan_fold_other [OF fresh(1)] assms(2) by simp_all
  have s2: "stored i ?s2 = stored i s @ orphan_tail (jb_eventCount r)"
    "laid 0 (jb_eventCount r + 2) (stored i s @ orphan_tail (jb_eventCount r))"
    "map_option jb_status (get_job i ?s2) = Some Orphaned"
    using orphan_one_hit [of r i ?s1 om t] s1 assms(4) by simp_all
  have s3: "snd (sweepOrphans om t s) = fold (orphan_one om t) ys ?s2"
    by (simp add: sweepOrphans_def Let_def d)
  show ?thesis unfolding s3 using orphan_fold_other [OF fresh(2), of om t ?s2] s2 by simp
qed

text \<open>a crash loses at most the last unflushed batch.  When the process dies after any run and the
  boot sweep then closes the job, the result is orphaned, its text is the text of a prefix of what
  was emitted that misses fewer than 64 events, and its last error says that the server restarted.\<close>

theorem crash_keeps_flushed_prefix:
  assumes "stored i s = []" and "run_live i ops (fresh_start now i email uid s) = (j, s')"
    and "distinct (map fst (cj_jobs s'))"
  shows "\<exists>fl res. fl = take (length fl) (emitted ops) \<and> length (emitted ops) < length fl + 64
    \<and> resultFor pj i (snd (createChatJobs om t s')) = Some res
    \<and> jb_status (rs_row res) = Orphaned \<and> rs_text res = text_of fl \<and> last (rs_errors res) = restart_message"
proof -
  obtain fl r where f: "emitted ops = fl @ lj_pending j" "laid 0 (length fl) (stored i s')"
    "text_of (map er_ev (stored i s')) = text_of fl" "get_job i s' = Some r" "jb_eventCount r = length fl"
    "jb_status r = Running" "length (lj_pending j) < 64"
    by (rule run_fresh [OF assms(1,2)])
  let ?s = "snd (createChatJobs om t s')"
  have sw: "stored i ?s = stored i s' @ orphan_tail (length fl)" "laid 0 (length fl + 2) (stored i ?s)"
    "map_option jb_status (get_job i ?s) = Some Orphaned"
    using sweep_one [OF assms(3) f(4,6), of om t] f(2,5) by (simp_all add: createChatJobs_def)
  then obtain row where row: "get_job i ?s = Some row" "jb_status row = Orphaned" by auto
  have evs: "map er_ev (stored i ?s) = map er_ev (stored i s') @
      [EvError restart_message ''server_restart'' [], EvStopped ''server_restart'']"
    using sw(1) by (simp add: orphan_tail_def)
  have res: "resultFor pj i ?s = Some \<lparr>rs_row = row, rs_collected = (jb_collectedAt row \<noteq> 0),
      rs_text = text_of fl, rs_meta = (if jb_meta row = [] then None else pj (jb_meta row)),
      rs_tools = List.map_filter tool_note (map er_ev (stored i ?s)),
      rs_errors = List.map_filter error_note (map er_ev (stored i s')) @ [restart_message]\<rparr>"
    unfolding resultFor_def replay_stored [OF sw(2)] row(1)
    using f(3) by (simp add: evs Let_def text_of_def map_filter_def error_note_def first_text_def restart_message_def)
  then have "\<exists>res. resultFor pj i ?s = Some res \<and> jb_status (rs_row res) = Orphaned
      \<and> rs_text res = text_of fl \<and> last (rs_errors res) = restart_message"
    using row(2) by simp
  moreover have "fl = take (length fl) (emitted ops)" "length (emitted ops) < length fl + 64"
    using f(1,7) by simp_all
  ultimately show ?thesis by blast
qed

lemma crash_keeps_flushed_prefix_witness:
  "\<exists>s' res. resultFor (\<lambda>x. Some x) ''j'' (snd (createChatJobs (\<lambda>_. ''m'') 9 s')) = Some res
     \<and> jb_status (rs_row res) = Orphaned \<and> last (rs_errors res) = restart_message"
proof -
  let ?ops = "[OpEmit (EvToken ''a''), OpTimer, OpEmit (EvToken ''b'')]"
  have st: "stored ''j'' emptyChatJobs = []" by (simp add: stored_def emptyChatJobs_def)
  obtain j s' where r: "run_live ''j'' ?ops (fresh_start 0 ''j'' ''u'' [] emptyChatJobs) = (j, s')"
    by (metis surj_pair)
  have "distinct (map fst (cj_jobs (snd (run_live ''j'' ?ops (fresh_start 0 ''j'' ''u'' [] emptyChatJobs)))))"
    by code_simp
  then have d: "distinct (map fst (cj_jobs s'))" using r by simp
  show ?thesis using crash_keeps_flushed_prefix [OF st r d, of "\<lambda>x. Some x" "\<lambda>_. ''m''" 9] by blast
qed

text \<open>finishing seals a job.  The result then holds the whole text, the status says stopped when the
  turn was stopped, else done when a done event was seen, else error, and no later event or second
  finish changes the job or the store.\<close>

theorem finish_seals_job:
  assumes "stored i s = []" and "run_live i ops (fresh_start now i email uid s) = (j, s')"
    and "finishJob True nj t i (j, s') = (jf, sf)"
  shows "(\<exists>res. resultFor pj i sf = Some res \<and> rs_text res = text_of (emitted ops)
       \<and> jb_endedAt (rs_row res) = t
       \<and> jb_status (rs_row res) = (if lj_stopped j then Stopped else if lj_sawDone j then Done else Errored))
    \<and> jobEmit True i ev (jf, sf) = (jf, sf) \<and> finishJob True nj t' i (jf, sf) = (jf, sf)"
proof -
  obtain fl r where f: "emitted ops = fl @ lj_pending j" "laid 0 (length fl) (stored i s')"
    "text_of (map er_ev (stored i s')) = text_of fl"
    "filter structural (map er_ev (stored i s')) = filter structural fl"
    "get_job i s' = Some r" "jb_eventCount r = length fl" "lj_eventCount j = length (emitted ops)" "\<not> lj_done j"
    by (rule run_fresh [OF assms(1,2)])
  let ?j = "j\<lparr>lj_done := True, lj_endedAt := t\<rparr>"
  obtain j2 s2 r2 where f2: "flushJob True i (?j, s') = (j2, s2)" "j2 = ?j\<lparr>lj_timer := False, lj_pending := []\<rparr>"
    "laid 0 (length (emitted ops)) (stored i s2)" "text_of (map er_ev (stored i s2)) = text_of (emitted ops)"
    "get_job i s2 = Some r2"
    using flush_core [of ?j "emitted ops" fl i s' r] f by auto
  have fin: "jf = j2" "sf = finish t i (end_status j2) (end_meta nj j2) s2"
    using assms(3) f(8) f2(1) by (auto simp: finishJob_def)
  have st: "stored i sf = stored i s2" by (simp add: fin finish_def set_finished_def)
  have row: "get_job i sf = Some (r2\<lparr>jb_status := finish_status (end_status j2), jb_endedAt := t,
      jb_meta := take 4000 (end_meta nj j2)\<rparr>)"
    using f2(5) by (simp add: fin finish_def set_finished_def row_simps)
  have "finish_status (end_status j2)
      = (if lj_stopped j then Stopped else if lj_sawDone j then Done else Errored)"
    by (simp add: f2(2) end_status_def finish_status_def)
  moreover have "replayRows i 0 sf = stored i s2"
    using replay_stored [of 0 _ i sf] f2(3) by (simp add: st)
  ultimately show ?thesis
    using row f2(2,4) fin(1)
    by (simp add: resultFor_def Let_def text_of_def jobEmit_def finishJob_def)
qed

lemma finish_seals_job_witness:
  "\<exists>sf res. resultFor (\<lambda>x. Some x) ''j'' sf = Some res \<and> rs_text res = ''ab'' \<and> jb_status (rs_row res) = Done"
proof -
  let ?ops = "[OpEmit (EvToken ''a''), OpTimer, OpEmit (EvToken ''b''), OpEmit (EvDone [])]"
  have st: "stored ''j'' emptyChatJobs = []" by (simp add: stored_def emptyChatJobs_def)
  obtain j s' where r: "run_live ''j'' ?ops (fresh_start 0 ''j'' ''u'' [] emptyChatJobs) = (j, s')"
    by (metis surj_pair)
  obtain jf sf where fin: "finishJob True (\<lambda>x. x) 9 ''j'' (j, s') = (jf, sf)" by (metis surj_pair)
  have "lj_sawDone (fst (run_live ''j'' ?ops (fresh_start 0 ''j'' ''u'' [] emptyChatJobs)))"
    "\<not> lj_stopped (fst (run_live ''j'' ?ops (fresh_start 0 ''j'' ''u'' [] emptyChatJobs)))"
    by code_simp+
  moreover have "text_of (emitted ?ops) = ''ab''"
    by (simp add: emitted_def map_filter_simps ev_delta_def)
  ultimately have "\<exists>res. resultFor (\<lambda>x. Some x) ''j'' sf = Some res \<and> rs_text res = ''ab'' \<and> jb_status (rs_row res) = Done"
    using finish_seals_job [OF st r fin, of "\<lambda>x. Some x"] r by auto
  then show ?thesis by blast
qed

text \<open>nobody sees or changes another tenant's job.  With tenants on, a caller whose identity is empty
  or is not the job's gets exactly the answer of a job that does not exist from attach, result,
  collect and stop, and changes nothing.\<close>

theorem foreign_job_is_invisible:
  assumes "\<forall>j. map_of (sv_live S) i = Some j \<longrightarrow> lc caller = [] \<or> lc caller \<noteq> lc (lj_email j)"
    and "\<forall>r. get_job i (sv_store S) = Some r \<longrightarrow> lc caller = [] \<or> lc caller \<noteq> lc (jb_email r)"
  shows "chat_attach True caller i from_ix S = [AGone] \<and> chat_result pj True caller i S = None
    \<and> chat_collect True t caller i S = (False, S) \<and> chat_stop True caller i S = (StopUnknown, S)"
  using assms
  by (auto simp: chat_attach_def chat_result_def chat_collect_def chat_stop_def jobAuthOk_def resultFor_def
      Let_def split: option.splits)

lemma foreign_job_is_invisible_witness:
  "chat_attach True ''eve@x'' ''j'' 0 (createChatJob True 5 ''j'' ''a@x'' [] \<lparr>sv_live = [], sv_store = emptyChatJobs\<rparr>)
    = [AGone]"
proof -
  let ?S = "createChatJob True 5 ''j'' ''a@x'' [] \<lparr>sv_live = [], sv_store = emptyChatJobs\<rparr>"
  have l: "map_option (lc \<circ> lj_email) (map_of (sv_live ?S) ''j'') = Some (lc ''a@x'')"
    "map_option (lc \<circ> jb_email) (get_job ''j'' (sv_store ?S)) = Some (lc ''a@x'')"
    and n: "lc ''eve@x'' \<noteq> lc ''a@x''"
    by code_simp+
  show ?thesis
    by (rule foreign_job_is_invisible [THEN conjunct1]) (use l n in auto)
qed

end
