(* ===== verification/IdeTasks.thy ===== *)
theory IdeTasks
  imports Prelude "HOL-Library.Multiset"
begin

text \<open>
  \<open>idetasks.mjs\<close>: the roadmap of a build.  Parsing the orchestrator's reply, the collision map,
  the scheduler's ready set, the completion order, model assignments, and the split of one task
  between agents.  The two prompt builders produce text for a model and are not modelled.
\<close>

record task =
  tk_n :: nat
  tk_title :: string
  tk_files :: "string list"
  tk_needs :: "nat list"

section \<open>Paths\<close>

definition bs_to_slash :: "string \<Rightarrow> string" where
  "bs_to_slash = map (\<lambda>c. if c = CHR 0x5C then CHR ''/'' else c)"

definition norm_path :: "string \<Rightarrow> string" where
  "norm_path p =
     (let q = bs_to_slash (js_trim p)
      in lowercase (if take 2 q = ''./'' then drop 2 q else q))"

fun has_dotdot :: "string \<Rightarrow> bool" where
  "has_dotdot (a # b # s) = (a = CHR ''.'' \<and> b = CHR ''.'' \<or> has_dotdot (b # s))"
| "has_dotdot _ = False"

definition is_letter :: "char \<Rightarrow> bool" where
  "is_letter c = (let n = (of_char c :: nat) in 65 \<le> n \<and> n \<le> 90 \<or> 97 \<le> n \<and> n \<le> 122)"

definition is_absolute :: "string \<Rightarrow> bool" where
  "is_absolute f =
     ((case f of c # d # e # _ \<Rightarrow> is_letter c \<and> d = CHR '':'' \<and> (e = CHR 0x5C \<or> e = CHR ''/'') | _ \<Rightarrow> False)
      \<or> take 1 f = ''/'')"

section \<open>Parsing the roadmap\<close>

fun split_on :: "char \<Rightarrow> string \<Rightarrow> string list" where
  "split_on c [] = [[]]"
| "split_on c (x # xs) =
     (if x = c then [] # split_on c xs
      else case split_on c xs of [] \<Rightarrow> [[x]] | p # ps \<Rightarrow> (x # p) # ps)"

definition trim_end :: "string \<Rightarrow> string" where
  "trim_end s = rev (dropWhile is_ws (rev s))"

definition strip_both :: "(char \<Rightarrow> bool) \<Rightarrow> string \<Rightarrow> string" where
  "strip_both P s = rev (dropWhile P (rev (dropWhile P s)))"

text \<open>A carriage return before the line feed falls to \<open>trimEnd\<close>, so lines are split at line feeds.\<close>

definition clean_line :: "string \<Rightarrow> string" where
  "clean_line l =
     (let s = trim_end (dropWhile (\<lambda>c. is_ws c \<or> c \<in> set ''>#*_'') l)
      in trim_end (rev (dropWhile (\<lambda>c. c = CHR ''*'') (rev s))))"

definition is_digit :: "char \<Rightarrow> bool" where
  "is_digit c = (let n = (of_char c :: nat) in 48 \<le> n \<and> n \<le> 57)"

definition nat_of_digits :: "string \<Rightarrow> nat" where
  "nat_of_digits ds = foldl (\<lambda>n c. 10 * n + (of_char c - 48)) 0 ds"

definition CR :: char where "CR = CHR 0x0D"

definition parse_head :: "string \<Rightarrow> (nat \<times> string) option" where
  "parse_head line =
     (let ds = takeWhile is_digit line in
      case dropWhile is_digit line of
        [] \<Rightarrow> None
      | c # after \<Rightarrow>
          let body = dropWhile is_ws after in
          if ds \<noteq> [] \<and> c \<in> set ''.)'' \<and> body \<noteq> [] \<and> CR \<notin> set body
          then Some (nat_of_digits ds, js_trim (strip_both (\<lambda>c. is_ws c \<or> c \<in> set ''*_'') body))
          else None)"

definition parse_field :: "string \<Rightarrow> string \<Rightarrow> string option" where
  "parse_field name line =
     (if uppercase (take (length name) line) \<noteq> name then None
      else case dropWhile is_ws (drop (length name) line) of
        [] \<Rightarrow> None
      | c # after \<Rightarrow>
          let v = dropWhile is_ws (dropWhile (\<lambda>c. c = CHR ''*'') after)
          in if c = CHR '':'' \<and> CR \<notin> set v then Some v else None)"

definition is_quote :: "char \<Rightarrow> bool" where
  "is_quote c = (c = CHR 0x22 \<or> c = CHR 0x27)"

definition strip_quotes :: "string \<Rightarrow> string" where
  "strip_quotes s =
     (let t = (case s of c # r \<Rightarrow> if is_quote c then r else s | [] \<Rightarrow> [])
      in if t \<noteq> [] \<and> is_quote (last t) then butlast t else t)"

definition parse_files :: "string \<Rightarrow> string list" where
  "parse_files v = filter (\<lambda>f. f \<noteq> [])
     (map (\<lambda>f. strip_quotes (bs_to_slash (js_trim f))) (split_on (CHR '','') v))"

definition is_word_char :: "char \<Rightarrow> bool" where
  "is_word_char c = (is_letter c \<or> is_digit c \<or> c = CHR ''_'')"

definition says_none :: "string \<Rightarrow> bool" where
  "says_none body = (lowercase (take 4 body) = ''none'' \<and>
     (case drop 4 body of [] \<Rightarrow> True | c # _ \<Rightarrow> \<not> is_word_char c))"

text \<open>The maximal digit runs.\<close>

fun numbers_in :: "string \<Rightarrow> string \<Rightarrow> nat list" where
  "numbers_in acc [] = (if acc = [] then [] else [nat_of_digits acc])"
| "numbers_in acc (c # cs) =
     (if is_digit c then numbers_in (acc @ [c]) cs
      else (if acc = [] then [] else [nat_of_digits acc]) @ numbers_in [] cs)"

definition parse_line :: "string \<Rightarrow> task list \<times> task option \<Rightarrow> task list \<times> task option" where
  "parse_line line st =
     (case st of (tasks, cur) \<Rightarrow>
        case parse_head line of
          Some (n, title) \<Rightarrow>
            (tasks @ (case cur of None \<Rightarrow> [] | Some t \<Rightarrow> [t]),
             Some \<lparr>tk_n = n, tk_title = title, tk_files = [], tk_needs = []\<rparr>)
        | None \<Rightarrow>
            (case cur of
               None \<Rightarrow> (tasks, None)
             | Some t \<Rightarrow>
                 (case parse_field ''FILES'' line of
                    Some v \<Rightarrow> (tasks, Some (t\<lparr>tk_files := parse_files v\<rparr>))
                  | None \<Rightarrow>
                      (case parse_field ''NEEDS'' line of
                         Some v \<Rightarrow>
                           (tasks, Some (if says_none (js_trim v) then t
                                         else t\<lparr>tk_needs := numbers_in [] (js_trim v)\<rparr>))
                       | None \<Rightarrow> (tasks, Some t)))))"

definition parse_lines :: "string \<Rightarrow> task list" where
  "parse_lines text =
     (case fold parse_line (map clean_line (split_on (CHR 0x0A) text)) ([], None) of
        (tasks, cur) \<Rightarrow> tasks @ (case cur of None \<Rightarrow> [] | Some t \<Rightarrow> [t]))"

datatype roadmap_error =
  NoTasks | MoreThan nat | NamesNoFiles nat | ClimbsOut nat string | AbsolutePath nat string

fun bad_file :: "nat \<Rightarrow> string list \<Rightarrow> roadmap_error option" where
  "bad_file n [] = None"
| "bad_file n (f # fs) =
     (if has_dotdot f then Some (ClimbsOut n f)
      else if is_absolute f then Some (AbsolutePath n f)
      else bad_file n fs)"

fun bad_task :: "task list \<Rightarrow> roadmap_error option" where
  "bad_task [] = None"
| "bad_task (t # ts) =
     (if tk_files t = [] then Some (NamesNoFiles (tk_n t))
      else case bad_file (tk_n t) (tk_files t) of Some e \<Rightarrow> Some e | None \<Rightarrow> bad_task ts)"

definition task_numbers :: "task list \<Rightarrow> nat set" where
  "task_numbers ts = tk_n ` set ts"

definition parseTaskRoadmap :: "string \<Rightarrow> nat \<Rightarrow> roadmap_error + task list" where
  "parseTaskRoadmap text maxTasks =
     (let tasks = parse_lines text in
      if tasks = [] then Inl NoTasks
      else if length tasks > maxTasks then Inl (MoreThan maxTasks)
      else case bad_task tasks of
        Some e \<Rightarrow> Inl e
      | None \<Rightarrow> Inr (map (\<lambda>t. t\<lparr>tk_needs := filter (\<lambda>n. n \<in> task_numbers tasks \<and> n \<noteq> tk_n t) (tk_needs t)\<rparr>)
                       tasks))"

section \<open>Collisions and scheduling\<close>

record collision =
  co_a :: nat
  co_b :: nat
  co_files :: "string list"

fun pairs_of :: "'a list \<Rightarrow> ('a \<times> 'a) list" where
  "pairs_of [] = []"
| "pairs_of (x # xs) = map (Pair x) xs @ pairs_of xs"

definition shared_files :: "task \<Rightarrow> task \<Rightarrow> string list" where
  "shared_files t1 t2 = filter (\<lambda>f. f \<in> set (map norm_path (tk_files t1))) (map norm_path (tk_files t2))"

definition collisionPairs :: "task list \<Rightarrow> collision list" where
  "collisionPairs ts = List.map_filter (\<lambda>(t1, t2).
     if shared_files t1 t2 = [] then None
     else Some \<lparr>co_a = tk_n t1, co_b = tk_n t2, co_files = shared_files t1 t2\<rparr>) (pairs_of ts)"

definition filesCollide :: "task \<Rightarrow> task \<Rightarrow> bool" where
  "filesCollide t1 t2 = list_ex (\<lambda>f. norm_path f \<in> set (map norm_path (tk_files t1))) (tk_files t2)"

text \<open>\<open>new Map(tasks.map(t => [t.n, t]))\<close>: the last task of a number wins.\<close>

definition by_number :: "task list \<Rightarrow> nat \<Rightarrow> task option" where
  "by_number ts n = find (\<lambda>t. tk_n t = n) (rev ts)"

definition readyTasks :: "task list \<Rightarrow> nat set \<Rightarrow> nat list \<Rightarrow> task list" where
  "readyTasks ts finished running =
     (let runningTasks = List.map_filter (by_number ts) running in
      filter (\<lambda>t. tk_n t \<notin> finished \<and> tk_n t \<notin> set running
                \<and> list_all (\<lambda>n. n \<in> finished) (tk_needs t)
                \<and> \<not> list_ex (\<lambda>rt. filesCollide t rt) runningTasks) ts)"

text \<open>\<open>done\<close> and \<open>order\<close> hold the same numbers; one pass of the inner loop:\<close>

definition topo_visit :: "task list \<Rightarrow> task \<Rightarrow> nat list \<Rightarrow> nat list" where
  "topo_visit ts t order =
     (if tk_n t \<in> set order then order
      else if list_all (\<lambda>n. n \<in> set order \<or> n \<notin> task_numbers ts) (tk_needs t) then order @ [tk_n t]
      else order)"

definition topo_pass :: "task list \<Rightarrow> nat list \<Rightarrow> nat list" where
  "topo_pass ts order = fold (topo_visit ts) ts order"

function topo_loop :: "task list \<Rightarrow> nat list \<Rightarrow> nat list" where
  "topo_loop ts order =
     (if length order < length ts \<and> topo_pass ts order \<noteq> order then topo_loop ts (topo_pass ts order)
      else order)"
  by pat_completeness auto

lemma topo_visit_extends: "\<exists>ns. topo_visit ts t order = order @ ns"
  by (auto simp: topo_visit_def)

lemma topo_fold_extends: "\<exists>ns. fold (topo_visit ts) us order = order @ ns"
proof (induction us arbitrary: order)
  case (Cons u us)
  obtain ns where "topo_visit ts u order = order @ ns" using topo_visit_extends by blast
  moreover obtain ms where "fold (topo_visit ts) us (order @ ns) = (order @ ns) @ ms" using Cons by blast
  ultimately show ?case by auto
qed simp

lemma topo_pass_extends: "\<exists>ns. topo_pass ts order = order @ ns"
  unfolding topo_pass_def by (rule topo_fold_extends)

termination topo_loop
proof (relation "measure (\<lambda>(ts, order). length ts - length order)")
  fix ts order
  assume h: "length order < length ts \<and> topo_pass ts order \<noteq> order"
  obtain ns where "topo_pass ts order = order @ ns" using topo_pass_extends by blast
  with h show "((ts, topo_pass ts order), ts, order) \<in> measure (\<lambda>(ts, order). length ts - length order)"
    by (cases ns) auto
qed simp

declare topo_loop.simps [simp del]

text \<open>\<open>Inl\<close>: the stuck tasks.\<close>

definition topoOrder :: "task list \<Rightarrow> nat list + nat list" where
  "topoOrder ts =
     (let order = topo_loop ts [] in
      if length order < length ts then Inl (map tk_n (filter (\<lambda>t. tk_n t \<notin> set order) ts))
      else Inr order)"

section \<open>Assignments\<close>

record group =
  gr_id :: "string option"
  gr_numbers :: "nat list"
  gr_model :: string
  gr_agents :: jsnum

record assignment =
  as_n :: nat
  as_model :: string
  as_agents :: int
  as_group :: "string option"

definition group_entry :: "string \<Rightarrow> group \<Rightarrow> nat \<Rightarrow> assignment" where
  "group_entry fallback g n =
     \<lparr>as_n = n, as_model = (if gr_model g = [] then fallback else gr_model g),
      as_agents = max 1 (js_trunc (num_or (gr_agents g) 1)), as_group = gr_id g\<rparr>"

definition assignment_map :: "string \<Rightarrow> group list \<Rightarrow> nat \<Rightarrow> assignment option" where
  "assignment_map fallback gs =
     fold (\<lambda>g m. fold (\<lambda>n m. m(n \<mapsto> group_entry fallback g n)) (gr_numbers g) m) gs Map.empty"

definition resolveTaskAssignments :: "task list \<Rightarrow> group list \<Rightarrow> string \<Rightarrow> assignment list" where
  "resolveTaskAssignments ts gs fallback = map (\<lambda>t.
     case assignment_map fallback gs (tk_n t) of
       Some a \<Rightarrow> a
     | None \<Rightarrow> \<lparr>as_n = tk_n t, as_model = fallback, as_agents = 1, as_group = None\<rparr>) ts"

section \<open>Splitting one task\<close>

record part =
  pt_title :: string
  pt_files :: "string list"
  pt_contract :: string

datatype split_error =
  NoStoredSplit | UnsafePath string | NotThisTask string | InTwoParts string | NoUsableParts

fun split_files :: "string set \<Rightarrow> string list \<Rightarrow> string set \<Rightarrow> split_error + (string list \<times> string set)" where
  "split_files taskFiles [] seen = Inr ([], seen)"
| "split_files taskFiles (raw # raws) seen =
     (let f = js_trim raw; n = norm_path f in
      if f = [] then split_files taskFiles raws seen
      else if has_dotdot f \<or> is_absolute f then Inl (UnsafePath f)
      else if n \<notin> taskFiles then Inl (NotThisTask f)
      else if n \<in> seen then Inl (InTwoParts f)
      else case split_files taskFiles raws (insert n seen) of
        Inl e \<Rightarrow> Inl e
      | Inr (kept, seen') \<Rightarrow> Inr (f # kept, seen'))"

fun split_parts :: "string set \<Rightarrow> part list \<Rightarrow> string set \<Rightarrow> split_error + part list" where
  "split_parts taskFiles [] seen = Inr []"
| "split_parts taskFiles (p # ps) seen =
     (case split_files taskFiles (take 40 (pt_files p)) seen of
        Inl e \<Rightarrow> Inl e
      | Inr (kept, seen') \<Rightarrow>
          (case split_parts taskFiles ps seen' of
             Inl e \<Rightarrow> Inl e
           | Inr out \<Rightarrow>
               Inr ((if kept = [] then []
                     else [\<lparr>pt_title = take 200 (pt_title p), pt_files = kept,
                            pt_contract = take 500 (pt_contract p)\<rparr>]) @ out)))"

definition validateStoredSplit :: "task \<Rightarrow> part list \<Rightarrow> split_error + part list" where
  "validateStoredSplit t ps =
     (if ps = [] then Inl NoStoredSplit
      else case split_parts (set (map norm_path (tk_files t))) (take 6 ps) {} of
        Inl e \<Rightarrow> Inl e
      | Inr out \<Rightarrow> if out = [] then Inl NoUsableParts else Inr out)"

text \<open>\<open>title_le\<close>: \<open>a.localeCompare(b) <= 0\<close>.  The sort is stable.\<close>

definition part_before :: "(string \<Rightarrow> string \<Rightarrow> bool) \<Rightarrow> part \<Rightarrow> part \<Rightarrow> bool" where
  "part_before title_le a b = (length (pt_files a) < length (pt_files b)
     \<or> length (pt_files a) = length (pt_files b) \<and> title_le (pt_title a) (pt_title b))"

fun insert_part :: "(part \<Rightarrow> part \<Rightarrow> bool) \<Rightarrow> part \<Rightarrow> part list \<Rightarrow> part list" where
  "insert_part le x [] = [x]"
| "insert_part le x (y # ys) = (if le x y then x # y # ys else y # insert_part le x ys)"

definition sort_parts :: "(part \<Rightarrow> part \<Rightarrow> bool) \<Rightarrow> part list \<Rightarrow> part list" where
  "sort_parts le ps = foldr (insert_part le) ps []"

definition merge_parts :: "part \<Rightarrow> part \<Rightarrow> part" where
  "merge_parts smallest nextSmallest =
     \<lparr>pt_title = (if pt_title nextSmallest = [] then pt_title smallest else pt_title nextSmallest),
      pt_files = pt_files nextSmallest @ pt_files smallest,
      pt_contract = (if pt_contract nextSmallest = [] then pt_contract smallest
                     else if pt_contract smallest = [] then pt_contract nextSmallest
                     else pt_contract nextSmallest @ '' '' @ pt_contract smallest)\<rparr>"

lemma length_insert_part [simp]: "length (insert_part le x ys) = Suc (length ys)"
  by (induction ys) auto

lemma length_sort_parts [simp]: "length (sort_parts le ps) = length ps"
  unfolding sort_parts_def by (induction ps) auto

function fit_loop :: "(part \<Rightarrow> part \<Rightarrow> bool) \<Rightarrow> nat \<Rightarrow> part list \<Rightarrow> part list" where
  "fit_loop le want out =
     (if length out > want then
        (case sort_parts le out of
           a # b # rest \<Rightarrow> fit_loop le want (rest @ [merge_parts a b])
         | xs \<Rightarrow> xs)
      else out)"
  by pat_completeness auto
termination
proof (relation "measure (\<lambda>(le, want, out). length out)")
  fix le want and out :: "part list" and a x b rest
  assume "sort_parts le out = a # x" "x = b # rest"
  then have "length out = Suc (Suc (length rest))" by (metis length_Cons length_sort_parts)
  then show "((le, want, rest @ [merge_parts a b]), le, want, out) \<in> measure (\<lambda>(le, want, out). length out)"
    by simp
qed simp

declare fit_loop.simps [simp del]

definition fitPartsToAgents :: "(string \<Rightarrow> string \<Rightarrow> bool) \<Rightarrow> part list \<Rightarrow> jsnum \<Rightarrow> part list" where
  "fitPartsToAgents title_le ps agents =
     fit_loop (part_before title_le) (nat (max 1 (js_trunc (num_or agents 1)))) ps"

datatype reduction = Irreducible | CleanSplit nat "part list" | PartialSplit nat "part list"

definition classifyReduction :: "part list \<Rightarrow> nat \<Rightarrow> bool \<Rightarrow> reduction" where
  "classifyReduction ps requestedAgents disjointOk =
     (let n = length ps in
      if n \<le> 1 \<or> \<not> disjointOk then Irreducible
      else if n \<ge> requestedAgents then CleanSplit requestedAgents (take requestedAgents ps)
      else PartialSplit n ps)"

end
