(* ===== verification/IdeTasks_Facts.thy ===== *)
theory IdeTasks_Facts
  imports IdeTasks
begin

text \<open>
  What the roadmap functions guarantee: the completion order exists exactly when the roadmap has
  no cycle, and a stored split that is accepted stays disjoint through the fitting.
\<close>

section \<open>Completion order\<close>

text \<open>Every number of \<open>order\<close> has its needs (those that are tasks) before it.\<close>

definition needs_met :: "task list \<Rightarrow> task \<Rightarrow> nat set \<Rightarrow> bool" where
  "needs_met ts t S \<longleftrightarrow> set (tk_needs t) \<inter> task_numbers ts \<subseteq> S"

inductive builds :: "task list \<Rightarrow> nat list \<Rightarrow> bool" for ts where
  start: "builds ts []"
| add: "builds ts order \<Longrightarrow> t \<in> set ts \<Longrightarrow> tk_n t \<notin> set order \<Longrightarrow> needs_met ts t (set order) \<Longrightarrow>
    builds ts (order @ [tk_n t])"

inductive_cases builds_snocE: "builds ts (order @ [n])"
inductive_simps builds_Nil: "builds ts []"

lemma builds_distinct: "builds ts order \<Longrightarrow> distinct order \<and> set order \<subseteq> task_numbers ts"
  by (induction rule: builds.induct) (auto simp: task_numbers_def)

lemma topo_visit_builds: "builds ts order \<Longrightarrow> t \<in> set ts \<Longrightarrow> builds ts (topo_visit ts t order)"
  by (auto simp: topo_visit_def needs_met_def list_all_iff intro!: builds.add)

lemma topo_fold_builds: "set us \<subseteq> set ts \<Longrightarrow> builds ts order \<Longrightarrow> builds ts (fold (topo_visit ts) us order)"
  by (induction us arbitrary: order) (auto intro: topo_visit_builds)

lemma topo_loop_builds: "builds ts order \<Longrightarrow> builds ts (topo_loop ts order)"
proof (induction ts order rule: topo_loop.induct)
  case (1 ts order)
  then show ?case
    using topo_fold_builds [of ts ts order] by (subst topo_loop.simps) (auto simp: topo_pass_def)
qed

text \<open>When a pass changes nothing, nothing could have been added.\<close>

lemma topo_fold_fix:
  "fold (topo_visit ts) us order = order \<Longrightarrow> t \<in> set us \<Longrightarrow> tk_n t \<notin> set order \<Longrightarrow> \<not> needs_met ts t (set order)"
proof (induction us arbitrary: order)
  case (Cons u us)
  obtain ns where ns: "topo_visit ts u order = order @ ns" using topo_visit_extends by blast
  obtain ms where "fold (topo_visit ts) us (order @ ns) = (order @ ns) @ ms" using topo_fold_extends by blast
  with Cons.prems(1) ns have "ns = []" by simp
  with ns have u: "topo_visit ts u order = order" by simp
  show ?case
  proof (cases "t = u")
    case True
    with u Cons.prems(3) show ?thesis
      by (auto simp: topo_visit_def needs_met_def list_all_iff split: if_splits)
  next
    case False
    with Cons u show ?thesis by auto
  qed
qed simp

lemma topo_loop_fix: "length (topo_loop ts order) < length ts \<Longrightarrow> topo_pass ts (topo_loop ts order) = topo_loop ts order"
proof (induction ts order rule: topo_loop.induct)
  case (1 ts order)
  then show ?case by (cases "length order < length ts \<and> topo_pass ts order \<noteq> order")
      (auto simp: topo_loop.simps [of ts order])
qed

lemma builds_stuck:
  assumes "builds ts ord" and "\<And>t. t \<in> set ts \<Longrightarrow> tk_n t \<notin> S \<Longrightarrow> \<not> needs_met ts t S"
  shows "set ord \<subseteq> S"
  using assms(1)
proof (induction rule: builds.induct)
  case (add order t)
  then have "needs_met ts t S" by (auto simp: needs_met_def)
  with add assms(2) show ?case by auto
qed simp

text \<open>C27: the scheduler orders exactly the roadmaps that can finish.  It answers with an order iff the
  task numbers are distinct and some order has every task after the tasks it needs; the order it
  gives is such an order of all the tasks; and it always answers.\<close>

theorem topo_order_correct:
  "(case topoOrder ts of
      Inr order \<Rightarrow> builds ts order \<and> length order = length ts \<and> set order = task_numbers ts
    | Inl stuck \<Rightarrow> \<not> (\<exists>order. builds ts order \<and> length order = length ts)
        \<and> set stuck = task_numbers ts - set (topo_loop ts []))
   \<and> ((\<exists>order. topoOrder ts = Inr order) \<longleftrightarrow>
        distinct (map tk_n ts) \<and> (\<exists>order. builds ts order \<and> set order = task_numbers ts))"
proof -
  let ?o = "topo_loop ts []"
  have b: "builds ts ?o" by (rule topo_loop_builds [OF builds.start])
  have card: "length order \<le> card (task_numbers ts)" if "builds ts order" for order
    using builds_distinct [OF that] card_mono [of "task_numbers ts" "set order"]
    by (simp add: distinct_card task_numbers_def)
  have cn: "card (task_numbers ts) \<le> length ts"
    unfolding task_numbers_def by (metis card_image_le card_length finite_set order_trans)
  have full: "set order = task_numbers ts \<and> distinct (map tk_n ts)"
    if "builds ts order" "length ts \<le> length order" for order
  proof
    have le: "card (task_numbers ts) = length order" "length order = length ts"
      using card [OF that(1)] cn that(2) by linarith+
    then show "set order = task_numbers ts"
      using builds_distinct [OF that(1)]
      by (metis card_subset_eq distinct_card finite_imageI finite_set task_numbers_def)
    show "distinct (map tk_n ts)"
      using le by (intro card_distinct) (simp add: task_numbers_def)
  qed
  have stuck: "set order \<subseteq> set ?o" if "builds ts order" "length ?o < length ts" for order
  proof (rule builds_stuck [OF that(1)])
    fix t
    assume "t \<in> set ts" "tk_n t \<notin> set ?o"
    then show "\<not> needs_met ts t (set ?o)"
      using topo_fold_fix [of ts ts ?o t] topo_loop_fix [OF that(2)] by (simp add: topo_pass_def)
  qed
  have none: "\<not> (\<exists>order. builds ts order \<and> length order = length ts)" if "length ?o < length ts"
  proof
    assume "\<exists>order. builds ts order \<and> length order = length ts"
    then obtain order where o: "builds ts order" "length order = length ts" by blast
    then have "length order \<le> length ?o"
      using stuck [OF o(1) that] builds_distinct [OF o(1)]
      by (metis card_length card_mono distinct_card finite_set order_trans)
    with o that show False by simp
  qed
  have dist: "length order = length ts"
    if "distinct (map tk_n ts)" "builds ts order" "set order = task_numbers ts" for order
    using that builds_distinct [OF that(2)] by (metis distinct_card length_map list.set_map task_numbers_def)
  show ?thesis
  proof (cases "length ?o < length ts")
    case True
    then have "topoOrder ts = Inl (map tk_n (filter (\<lambda>t. tk_n t \<notin> set ?o) ts))"
      by (simp add: topoOrder_def Let_def)
    moreover have "set (map tk_n (filter (\<lambda>t. tk_n t \<notin> set ?o) ts)) = task_numbers ts - set ?o"
      by (auto simp: task_numbers_def)
    ultimately show ?thesis using none [OF True] dist by (simp only: sum.case) blast
  next
    case False
    then have "topoOrder ts = Inr ?o" by (simp add: topoOrder_def Let_def)
    moreover have "length ?o = length ts" using False card [OF b] cn by linarith
    ultimately show ?thesis using full [OF b] b False by auto
  qed
qed

section \<open>A stored split\<close>

definition all_files :: "part list \<Rightarrow> string list" where
  "all_files ps = concat (map pt_files ps)"

lemma split_files_ok:
  "split_files taskFiles raws seen = Inr (kept, seen') \<Longrightarrow>
   seen' = seen \<union> norm_path ` set kept \<and> distinct (map norm_path kept) \<and> norm_path ` set kept \<inter> seen = {}
   \<and> norm_path ` set kept \<subseteq> taskFiles \<and> (\<forall>f\<in>set kept. f \<noteq> [] \<and> \<not> has_dotdot f \<and> \<not> is_absolute f)"
proof (induction taskFiles raws seen arbitrary: kept seen' rule: split_files.induct)
  case (2 taskFiles raw raws seen)
  let ?f = "js_trim raw"
  show ?case
  proof (cases "?f = []")
    case True
    then show ?thesis using 2(1) [OF refl refl True] 2(3) by simp
  next
    case False
    then have c: "\<not> (has_dotdot ?f \<or> is_absolute ?f)" "\<not> norm_path ?f \<notin> taskFiles" "norm_path ?f \<notin> seen"
      using 2(3) by (auto simp: Let_def split: if_splits)
    then obtain kept0 s0 where r: "split_files taskFiles raws (insert (norm_path ?f) seen) = Inr (kept0, s0)"
      "kept = ?f # kept0" "seen' = s0"
      using 2(3) False by (cases "split_files taskFiles raws (insert (norm_path ?f) seen)") (auto simp: Let_def)
    note ih = 2(2) [OF refl refl False c r(1)]
    show ?thesis unfolding r(2,3) using ih c False by auto
  qed
qed auto

lemma split_parts_ok:
  "split_parts taskFiles ps seen = Inr out \<Longrightarrow>
   distinct (map norm_path (all_files out)) \<and> norm_path ` set (all_files out) \<inter> seen = {}
   \<and> norm_path ` set (all_files out) \<subseteq> taskFiles
   \<and> (\<forall>f\<in>set (all_files out). \<not> has_dotdot f \<and> \<not> is_absolute f)
   \<and> (\<forall>p\<in>set out. pt_files p \<noteq> []) \<and> length out \<le> length ps"
proof (induction taskFiles ps seen arbitrary: out rule: split_parts.induct)
  case (1 taskFiles seen)
  then show ?case by (simp add: all_files_def)
next
  case (2 taskFiles p ps seen)
  obtain kept seen' where k: "split_files taskFiles (take 40 (pt_files p)) seen = Inr (kept, seen')"
    using 2(2) by (auto split: sum.splits)
  then obtain out' where o: "split_parts taskFiles ps seen' = Inr out'"
    "out = (if kept = [] then [] else [\<lparr>pt_title = take 200 (pt_title p), pt_files = kept,
              pt_contract = take 500 (pt_contract p)\<rparr>]) @ out'"
    using 2(2) by (auto split: sum.splits)
  have all: "all_files out = kept @ all_files out'" using o(2) by (simp add: all_files_def)
  have ih: "distinct (map norm_path (all_files out'))" "norm_path ` set (all_files out') \<inter> seen' = {}"
    "norm_path ` set (all_files out') \<subseteq> taskFiles"
    "\<forall>f\<in>set (all_files out'). \<not> has_dotdot f \<and> \<not> is_absolute f" "\<forall>p\<in>set out'. pt_files p \<noteq> []"
    "length out' \<le> length ps"
    using 2(1) [OF k refl o(1)] by auto
  show ?case unfolding all using split_files_ok [OF k] ih o(2) by (auto split: if_splits)
qed

lemma mset_insert_part: "mset (insert_part le x ys) = add_mset x (mset ys)"
  by (induction ys) auto

lemma mset_sort_parts: "mset (sort_parts le ps) = mset ps"
  unfolding sort_parts_def by (induction ps) (auto simp: mset_insert_part)

lemma all_files_mset: "mset ps = mset qs \<Longrightarrow> mset (all_files ps) = mset (all_files qs)"
proof -
  have "mset (all_files ps) = (\<Sum>p\<in>#mset ps. mset (pt_files p))" for ps
    by (induction ps) (auto simp: all_files_def)
  then show "mset ps = mset qs \<Longrightarrow> ?thesis" by simp
qed

lemma fit_loop_ok:
  assumes "1 \<le> want"
  shows "mset (all_files (fit_loop le want out)) = mset (all_files out)
    \<and> length (fit_loop le want out) = min want (length out)
    \<and> ((\<forall>p\<in>set out. pt_files p \<noteq> []) \<longrightarrow> (\<forall>p\<in>set (fit_loop le want out). pt_files p \<noteq> []))"
  using assms
proof (induction le want out rule: fit_loop.induct)
  case (1 le want out)
  show ?case
  proof (cases "length out > want")
    case True
    then have "2 \<le> length (sort_parts le out)" using 1 by simp
    then obtain a b rest where s: "sort_parts le out = a # b # rest"
      by (metis One_nat_def Suc_1 Suc_le_length_iff)
    have m: "mset (a # b # rest) = mset out" using mset_sort_parts [of le out] s by simp
    have "mset (all_files (rest @ [merge_parts a b])) = mset (all_files (a # b # rest))"
      by (simp add: all_files_def merge_parts_def)
    then have files: "mset (all_files (rest @ [merge_parts a b])) = mset (all_files out)"
      using all_files_mset [OF m] by (rule trans)
    have len: "length out = Suc (length (rest @ [merge_parts a b]))" using length_sort_parts [of le out] s by simp
    have "set out = set (a # b # rest)" using m by (metis set_mset_mset)
    then have ne: "(\<forall>p\<in>set out. pt_files p \<noteq> []) \<longrightarrow> (\<forall>p\<in>set (rest @ [merge_parts a b]). pt_files p \<noteq> [])"
      by (auto simp: merge_parts_def)
    have step: "fit_loop le want out = fit_loop le want (rest @ [merge_parts a b])"
      using fit_loop.simps [of le want out] True s by simp
    note ih = 1(1) [OF True s refl 1(2)]
    show ?thesis unfolding step
    proof (intro conjI)
      show "mset (all_files (fit_loop le want (rest @ [merge_parts a b]))) = mset (all_files out)"
        using ih files by (elim conjE) (rule trans)
      show "length (fit_loop le want (rest @ [merge_parts a b])) = min want (length out)"
        using ih len True by (elim conjE) linarith
      show "(\<forall>p\<in>set out. pt_files p \<noteq> []) \<longrightarrow>
          (\<forall>p\<in>set (fit_loop le want (rest @ [merge_parts a b])). pt_files p \<noteq> [])"
        using ih ne by (elim conjE) (rule impI, drule (1) mp, drule (1) mp)
    qed
  next
    case False
    then show ?thesis using fit_loop.simps [of le want out] by simp
  qed
qed

text \<open>the split that was previewed is the split that runs.  An accepted stored split has at most six
  non-empty parts, whose files are safe relative paths of the task, no file twice under any
  spelling the code compares; fitting it to the chosen number of agents keeps exactly those files,
  so no two agents share one, and gives one part per agent when there are enough.\<close>

theorem stored_split_stays_disjoint:
  assumes "validateStoredSplit t ps = Inr out" and "fitted = fitPartsToAgents title_le out agents"
  shows "mset (all_files fitted) = mset (all_files out) \<and> distinct (map norm_path (all_files fitted))
    \<and> norm_path ` set (all_files fitted) \<subseteq> norm_path ` set (tk_files t)
    \<and> (\<forall>f\<in>set (all_files fitted). \<not> has_dotdot f \<and> \<not> is_absolute f)
    \<and> length out \<le> 6 \<and> length fitted = min (nat (max 1 (js_trunc (num_or agents 1)))) (length out)
    \<and> (\<forall>p\<in>set fitted. pt_files p \<noteq> [])"
proof -
  have sp: "split_parts (set (map norm_path (tk_files t))) (take 6 ps) {} = Inr out"
    using assms(1) by (auto simp: validateStoredSplit_def split: if_splits sum.splits)
  note o = split_parts_ok [OF sp]
  have f: "mset (all_files fitted) = mset (all_files out)
    \<and> length fitted = min (nat (max 1 (js_trunc (num_or agents 1)))) (length out)
    \<and> ((\<forall>p\<in>set out. pt_files p \<noteq> []) \<longrightarrow> (\<forall>p\<in>set fitted. pt_files p \<noteq> []))"
    unfolding assms(2) fitPartsToAgents_def by (rule fit_loop_ok) simp
  then have "mset (map norm_path (all_files fitted)) = mset (map norm_path (all_files out))" by simp
  then have "distinct (map norm_path (all_files fitted)) = distinct (map norm_path (all_files out))"
    by (rule mset_eq_imp_distinct_iff)
  moreover have s: "set (all_files fitted) = set (all_files out)" using f by (metis mset_eq_setD)
  ultimately show ?thesis using o f s by auto
qed

lemma stored_split_stays_disjoint_witness:
  "mset (all_files (fitPartsToAgents (\<lambda>_ _. True)
      [\<lparr>pt_title = [], pt_files = [''a.js''], pt_contract = []\<rparr>, \<lparr>pt_title = [], pt_files = [''B.js''], pt_contract = []\<rparr>]
      (Some 1))) = {#''a.js'', ''B.js''#}"
proof -
  let ?t = "\<lparr>tk_n = 1, tk_title = [], tk_files = [''a.js'', ''./b.js''], tk_needs = []\<rparr>"
  let ?ps = "[\<lparr>pt_title = [], pt_files = [''a.js''], pt_contract = []\<rparr>,
      \<lparr>pt_title = [], pt_files = [''B.js''], pt_contract = []\<rparr>] :: part list"
  have "validateStoredSplit ?t ?ps = Inr ?ps" by code_simp
  from stored_split_stays_disjoint [OF this refl] show ?thesis
    by (simp add: all_files_def)
qed

end
