(* ===== verification/RoadmapText.thy ===== *)
theory RoadmapText
  imports IdeTasks
begin

text \<open>
  The approved plan goes back through the parser: \<open>server.mjs\<close> prints the task list the client sends
  and parses that text.  This theory holds the printer and the proof that the parser inverts it.
\<close>

section \<open>The printer\<close>

fun join :: "string \<Rightarrow> string list \<Rightarrow> string" where
  "join sep [] = []"
| "join sep [x] = x"
| "join sep (x # y # ys) = x @ sep @ join sep (y # ys)"

definition print_task :: "task \<Rightarrow> string" where
  "print_task t = show_nat (tk_n t) @ ''. '' @ tk_title t @ [CHR 0x0A] @
     ''FILES: '' @ join '', '' (tk_files t) @ [CHR 0x0A] @
     ''NEEDS: '' @ (let s = join '', '' (map show_nat (tk_needs t)) in if s = [] then ''none'' else s)"

definition print_roadmap :: "task list \<Rightarrow> string" where
  "print_roadmap ts = join [CHR 0x0A] (map print_task ts)"

text \<open>Reading an approved plan back: the parser's default limit is 12 tasks.\<close>

definition read_approved_plan :: "task list \<Rightarrow> roadmap_error + task list" where
  "read_approved_plan ts = parseTaskRoadmap (print_roadmap ts) 12"

section \<open>Numbers\<close>

lemma of_char_digit: "d < 10 \<Longrightarrow> (of_char (digit_char d) :: nat) = 48 + d"
  by (simp add: digit_char_def)

lemma is_digit_digit [simp]: "d < 10 \<Longrightarrow> is_digit (digit_char d)"
  by (simp add: is_digit_def of_char_digit)

lemma show_nat_digits: "c \<in> set (show_nat n) \<Longrightarrow> is_digit c"
proof (induction n rule: show_nat.induct)
  case (1 n)
  show ?case
  proof (cases "n < 10")
    case True
    with 1(2) show ?thesis by (simp add: show_nat.simps [of n])
  next
    case False
    with 1(2) have "c \<in> set (show_nat (n div 10)) \<or> c = digit_char (n mod 10)"
      by (auto simp: show_nat.simps [of n])
    with 1(1) [OF False] show ?thesis by auto
  qed
qed

lemma show_nat_nonempty [simp]: "show_nat n \<noteq> []"
  by (simp add: show_nat.simps)

lemma nat_of_digits_snoc: "nat_of_digits (ds @ [c]) = 10 * nat_of_digits ds + (of_char c - 48)"
  by (simp add: nat_of_digits_def)

lemma nat_of_show [simp]: "nat_of_digits (show_nat n) = n"
proof (induction n rule: show_nat.induct)
  case (1 n)
  show ?case
  proof (cases "n < 10")
    case True
    then show ?thesis by (simp add: show_nat.simps [of n] nat_of_digits_def of_char_digit)
  next
    case False
    with 1 show ?thesis by (simp add: show_nat.simps [of n] nat_of_digits_snoc of_char_digit)
  qed
qed

lemma is_digit_not:
  "\<not> is_digit (CHR '','')" "\<not> is_digit (CHR '' '')" "\<not> is_digit (CHR ''.'')" "\<not> is_digit (CHR 0x0A)"
  "\<not> is_digit CR" "\<not> is_digit (CHR ''F'')" "\<not> is_digit (CHR ''N'')" "\<not> is_digit (CHR ''*'')"
  by (simp_all add: is_digit_def CR_def)

lemma digit_not_ws: "is_digit c \<Longrightarrow> \<not> is_ws c"
  by (auto simp: is_digit_def is_ws_def)

lemma show_nat_ends: "is_digit (hd (show_nat n))" "is_digit (last (show_nat n))"
  by (rule show_nat_digits [of _ n], simp)+

section \<open>Splitting and joining\<close>

lemma split_on_none: "c \<notin> set x \<Longrightarrow> split_on c x = [x]"
  by (induction x) auto

lemma split_on_cons: "c \<notin> set x \<Longrightarrow> split_on c (x @ c # y) = x # split_on c y"
  by (induction x) auto

lemma split_join_lines:
  "ls \<noteq> [] \<Longrightarrow> \<forall>l\<in>set ls. c \<notin> set l \<Longrightarrow> split_on c (join [c] ls) = ls"
  by (induction ls rule: induct_list012) (auto simp: split_on_none split_on_cons)

lemma split_join_commas:
  "fs \<noteq> [] \<Longrightarrow> \<forall>f\<in>set fs. CHR '','' \<notin> set f \<Longrightarrow>
   split_on (CHR '','') (join '', '' fs) = hd fs # map ((#) (CHR '' '')) (tl fs)"
proof (induction fs rule: induct_list012)
  case (3 x y ys)
  have eq: "join '', '' (x # y # ys) = x @ CHR '','' # (CHR '' '' # join '', '' (y # ys))" by simp
  have "split_on (CHR '','') (CHR '' '' # s) = (CHR '' '' # hd (split_on (CHR '','') s)) # tl (split_on (CHR '','') s)"
    if "split_on (CHR '','') s \<noteq> []" for s
    using that by (auto split: list.splits)
  then show ?case unfolding eq using 3 by (subst split_on_cons) auto
qed (simp_all add: split_on_none)

lemma set_join: "set (join sep xs) \<subseteq> set sep \<union> (\<Union>x\<in>set xs. set x)"
  by (induction xs rule: induct_list012) auto

lemma join_hd: "xs \<noteq> [] \<Longrightarrow> hd xs \<noteq> [] \<Longrightarrow> join sep xs \<noteq> [] \<and> hd (join sep xs) = hd (hd xs)"
  by (induction xs rule: induct_list012) auto

lemma join_nonempty: "x \<in> set xs \<Longrightarrow> x \<noteq> [] \<Longrightarrow> join sep xs \<noteq> []"
  by (induction xs rule: induct_list012) auto

lemma join_last: "xs \<noteq> [] \<Longrightarrow> last xs \<noteq> [] \<Longrightarrow> last (join sep xs) = last (last xs)"
proof (induction xs rule: induct_list012)
  case (3 x y ys)
  have "join sep (y # ys) \<noteq> []"
    using 3(4) join_nonempty [of "last (y # ys)" "y # ys" sep] last_in_set [of "y # ys"] by simp
  then show ?case using 3 by simp
qed auto

section \<open>Lines\<close>

text \<open>What a title or a file name must not do for its line to survive the parser's cleaning.\<close>

definition sound_ends :: "string \<Rightarrow> bool" where
  "sound_ends s \<longleftrightarrow> s \<noteq> [] \<and> \<not> is_ws (hd s) \<and> \<not> is_ws (last s) \<and> last s \<noteq> CHR ''*''
     \<and> CR \<notin> set s \<and> CHR 0x0A \<notin> set s"

lemma dropWhile_hd: "s \<noteq> [] \<Longrightarrow> \<not> P (hd s) \<Longrightarrow> dropWhile P s = s"
  by (cases s) auto

lemma dropWhile_last: "s \<noteq> [] \<Longrightarrow> \<not> P (last s) \<Longrightarrow> rev (dropWhile P (rev s)) = s"
  using dropWhile_hd [of "rev s" P] by (simp add: hd_rev)

lemma js_trim_sound: "s \<noteq> [] \<Longrightarrow> \<not> is_ws (hd s) \<Longrightarrow> \<not> is_ws (last s) \<Longrightarrow> js_trim s = s"
  by (simp add: js_trim_def dropWhile_hd dropWhile_last)

lemma clean_line_id:
  assumes "l \<noteq> []" and "\<not> is_ws (hd l)" and "hd l \<notin> set ''>#*_''" and "\<not> is_ws (last l)" and "last l \<noteq> CHR ''*''"
  shows "clean_line l = l"
proof -
  have 1: "dropWhile (\<lambda>c. is_ws c \<or> c \<in> set ''>#*_'') l = l" using assms by (intro dropWhile_hd) auto
  have 2: "trim_end l = l" unfolding trim_end_def using assms by (intro dropWhile_last) auto
  have 3: "rev (dropWhile (\<lambda>c. c = CHR ''*'') (rev l)) = l" using assms by (intro dropWhile_last) auto
  show ?thesis unfolding clean_line_def Let_def 1 2 3 ..
qed

lemma is_ws_eval: "is_ws (CHR '' '')" "\<not> is_ws (CHR ''F'')" "\<not> is_ws (CHR ''N'')" "\<not> is_ws (CHR '':'')"
  "\<not> is_ws (CHR ''n'')" "\<not> is_ws (CHR ''e'')"
  by (simp_all add: is_ws_def)

lemma parse_head_print:
  assumes "sound_ends ti" and "hd ti \<notin> set ''*_''" and "last ti \<notin> set ''*_''"
  shows "parse_head (show_nat n @ ''. '' @ ti) = Some (n, ti)"
proof -
  have d: "dropWhile is_digit (show_nat n @ ''. '' @ ti) = ''. '' @ ti"
    using show_nat_digits by (subst dropWhile_append2) (auto simp: is_digit_not)
  have t: "takeWhile is_digit (show_nat n @ ''. '' @ ti) = show_nat n"
    using show_nat_digits by (subst takeWhile_append2) (auto simp: is_digit_not)
  have b: "dropWhile is_ws (CHR '' '' # ti) = ti"
    using assms by (simp add: sound_ends_def is_ws_eval dropWhile_hd)
  have s: "strip_both (\<lambda>c. is_ws c \<or> c \<in> set ''*_'') ti = ti"
  proof -
    have "dropWhile (\<lambda>c. is_ws c \<or> c \<in> set ''*_'') ti = ti"
      using assms by (intro dropWhile_hd) (auto simp: sound_ends_def)
    moreover have "rev (dropWhile (\<lambda>c. is_ws c \<or> c \<in> set ''*_'') (rev ti)) = ti"
      using assms by (intro dropWhile_last) (auto simp: sound_ends_def)
    ultimately show ?thesis by (simp only: strip_both_def)
  qed
  have "js_trim ti = ti" using assms by (intro js_trim_sound) (auto simp: sound_ends_def)
  moreover have "\<exists>x\<in>set ti. \<not> is_ws x" using assms(1) hd_in_set unfolding sound_ends_def by blast
  ultimately show ?thesis
    using assms(1) d t b s by (simp add: parse_head_def Let_def sound_ends_def is_ws_eval)
qed

lemma parse_head_other: "l \<noteq> [] \<Longrightarrow> \<not> is_digit (hd l) \<Longrightarrow> parse_head l = None"
  by (cases l) (simp_all add: parse_head_def Let_def)

lemma parse_field_files:
  assumes "v \<noteq> []" and "\<not> is_ws (hd v)" and "CR \<notin> set v"
  shows "parse_field ''FILES'' (''FILES: '' @ v) = Some v"
proof -
  have "uppercase ''FILES'' = ''FILES''" by code_simp
  with assms show ?thesis
    by (simp add: parse_field_def Let_def is_ws_eval dropWhile_hd)
qed

lemma parse_field_needs:
  assumes "v \<noteq> []" and "\<not> is_ws (hd v)" and "CR \<notin> set v"
  shows "parse_field ''FILES'' (''NEEDS: '' @ v) = None" "parse_field ''NEEDS'' (''NEEDS: '' @ v) = Some v"
proof -
  have "uppercase ''NEEDS'' = ''NEEDS''" by code_simp
  with assms show "parse_field ''FILES'' (''NEEDS: '' @ v) = None" "parse_field ''NEEDS'' (''NEEDS: '' @ v) = Some v"
    by (simp_all add: parse_field_def Let_def is_ws_eval dropWhile_hd)
qed

section \<open>Files and needs\<close>

definition sound_file :: "string \<Rightarrow> bool" where
  "sound_file f \<longleftrightarrow> sound_ends f \<and> CHR '','' \<notin> set f \<and> CHR 0x5C \<notin> set f \<and> \<not> is_quote (hd f)
     \<and> \<not> is_quote (last f) \<and> \<not> has_dotdot f \<and> \<not> is_absolute f"

lemma strip_quotes_id: "f \<noteq> [] \<Longrightarrow> \<not> is_quote (hd f) \<Longrightarrow> \<not> is_quote (last f) \<Longrightarrow> strip_quotes f = f"
  by (cases f) (simp_all add: strip_quotes_def Let_def)

lemma bs_to_slash_id: "CHR 0x5C \<notin> set f \<Longrightarrow> bs_to_slash f = f"
  unfolding bs_to_slash_def by (rule map_idI) auto

lemma js_trim_space: "js_trim (CHR '' '' # f) = js_trim f"
  by (simp add: js_trim_def is_ws_eval)

lemma parse_files_print:
  assumes "fs \<noteq> []" and "\<forall>f\<in>set fs. sound_file f"
  shows "parse_files (join '', '' fs) = fs"
proof -
  have one: "strip_quotes (bs_to_slash (js_trim f)) = f" "f \<noteq> []" if "f \<in> set fs" for f
    using that assms(2) by (auto simp: sound_file_def sound_ends_def js_trim_sound bs_to_slash_id strip_quotes_id)
  have "split_on (CHR '','') (join '', '' fs) = hd fs # map ((#) (CHR '' '')) (tl fs)"
    using assms by (intro split_join_commas) (auto simp: sound_file_def)
  then have "map (\<lambda>f. strip_quotes (bs_to_slash (js_trim f))) (split_on (CHR '','') (join '', '' fs))
      = map (\<lambda>f. strip_quotes (bs_to_slash (js_trim f))) (hd fs # tl fs)"
    by (simp add: js_trim_space comp_def)
  also have "\<dots> = fs" using assms(1) one by (simp add: map_idI)
  finally show ?thesis using one(2) by (simp add: parse_files_def filter_id_conv)
qed

lemma numbers_in_digits: "\<forall>c\<in>set ds. is_digit c \<Longrightarrow> numbers_in acc (ds @ s) = numbers_in (acc @ ds) s"
  by (induction ds arbitrary: acc) auto

lemma numbers_in_print: "numbers_in [] (join '', '' (map show_nat ns)) = ns"
proof (induction ns rule: induct_list012)
  case (2 n)
  have "numbers_in [] (show_nat n @ []) = [n]"
    by (subst numbers_in_digits) (auto intro: show_nat_digits)
  then show ?case by simp
next
  case (3 n m ns)
  have "numbers_in [] (show_nat n @ '', '' @ s) = n # numbers_in [] s" for s
    by (subst numbers_in_digits) (auto intro: show_nat_digits simp: is_digit_not)
  then show ?case using 3 by simp
qed simp

definition needs_text :: "nat list \<Rightarrow> string" where
  "needs_text ns = (let s = join '', '' (map show_nat ns) in if s = [] then ''none'' else s)"

lemma needs_text_cases:
  "needs_text ns = (if ns = [] then ''none'' else join '', '' (map show_nat ns))"
  using join_nonempty [of "show_nat (hd ns)" "map show_nat ns" "'', ''"]
  by (cases ns) (auto simp: needs_text_def Let_def)

lemma needs_text_sound:
  "needs_text ns \<noteq> [] \<and> \<not> is_ws (hd (needs_text ns)) \<and> \<not> is_ws (last (needs_text ns))
   \<and> last (needs_text ns) \<noteq> CHR ''*'' \<and> CR \<notin> set (needs_text ns) \<and> CHR 0x0A \<notin> set (needs_text ns)"
proof (cases "ns = []")
  case True
  then show ?thesis by (simp add: needs_text_cases is_ws_eval CR_def)
next
  case False
  let ?s = "join '', '' (map show_nat ns)"
  have h: "?s \<noteq> []" "hd ?s = hd (show_nat (hd ns))"
    using join_hd [of "map show_nat ns" "'', ''"] False by (auto simp: hd_map)
  have l: "last ?s = last (show_nat (last ns))"
    using join_last [of "map show_nat ns" "'', ''"] False by (simp add: last_map)
  have d: "is_digit (hd ?s)" "is_digit (last ?s)"
    unfolding h l by (rule show_nat_ends)+
  have "set ?s \<subseteq> set '', '' \<union> (\<Union>x\<in>set (map show_nat ns). set x)" by (rule set_join)
  then have "\<forall>c\<in>set ?s. is_digit c \<or> c \<in> set '', ''" using show_nat_digits by fastforce
  then have "CR \<notin> set ?s" "CHR 0x0A \<notin> set ?s" using is_digit_not by (fastforce simp: CR_def)+
  with False h(1) d show ?thesis using is_digit_not digit_not_ws by (auto simp: needs_text_cases)
qed

lemma parse_needs_text:
  "(if says_none (js_trim (needs_text ns)) then [] else numbers_in [] (js_trim (needs_text ns))) = ns"
proof (cases "ns = []")
  case True
  have "says_none ''none''" "js_trim ''none'' = ''none''" by code_simp+
  with True show ?thesis by (simp add: needs_text_cases)
next
  case False
  have t: "js_trim (needs_text ns) = needs_text ns" using needs_text_sound by (intro js_trim_sound) auto
  obtain c s where c: "needs_text ns = c # s" using needs_text_sound by (cases "needs_text ns") auto
  have "hd (needs_text ns) = hd (show_nat (hd ns))"
    using False join_hd [of "map show_nat ns" "'', ''"] by (auto simp: needs_text_cases hd_map)
  then have "is_digit c" using c by (simp add: show_nat_ends)
  then have "to_lower c \<noteq> CHR ''n''"
    by (auto simp: to_lower_def is_digit_def Let_def)
  then have "\<not> says_none (needs_text ns)" by (simp add: says_none_def c lowercase_def)
  with t False show ?thesis by (simp add: needs_text_cases numbers_in_print)
qed

section \<open>Round trip\<close>

definition sound_task :: "task list \<Rightarrow> task \<Rightarrow> bool" where
  "sound_task ts t \<longleftrightarrow> sound_ends (tk_title t) \<and> hd (tk_title t) \<notin> set ''*_'' \<and> last (tk_title t) \<notin> set ''*_''
     \<and> tk_files t \<noteq> [] \<and> (\<forall>f\<in>set (tk_files t). sound_file f)
     \<and> (\<forall>n\<in>set (tk_needs t). n \<in> task_numbers ts \<and> n \<noteq> tk_n t)"

definition task_lines :: "task \<Rightarrow> string list" where
  "task_lines t = [show_nat (tk_n t) @ ''. '' @ tk_title t, ''FILES: '' @ join '', '' (tk_files t),
     ''NEEDS: '' @ needs_text (tk_needs t)]"

lemma join_append3:
  "rest \<noteq> [] \<Longrightarrow> join [c] ((a @ [c] @ b @ [c] @ d) # rest) = join [c] (a # b # d # rest)"
  by (cases rest) simp_all

lemma join_tail:
  "r \<noteq> [] \<Longrightarrow> r' \<noteq> [] \<Longrightarrow> join sep r = join sep r' \<Longrightarrow> join sep (xs @ r) = join sep (xs @ r')"
proof (induction xs)
  case (Cons x xs)
  then have "xs @ r \<noteq> []" "xs @ r' \<noteq> []" by auto
  with Cons show ?case by (cases "xs @ r"; cases "xs @ r'") auto
qed simp

lemma print_roadmap_lines: "print_roadmap ts = join [CHR 0x0A] (concat (map task_lines ts))"
proof (induction ts rule: induct_list012)
  case 1
  then show ?case by (simp add: print_roadmap_def)
next
  case (2 t)
  then show ?case by (simp add: print_roadmap_def print_task_def task_lines_def needs_text_def)
next
  case (3 t u us)
  have "join [CHR 0x0A] (print_task t # map print_task (u # us))
      = join [CHR 0x0A] (task_lines t @ map print_task (u # us))"
    by (simp add: print_task_def task_lines_def needs_text_def)
  also have "\<dots> = join [CHR 0x0A] (task_lines t @ concat (map task_lines (u # us)))"
  proof (rule join_tail)
    show "concat (map task_lines (u # us)) \<noteq> []" by (simp add: task_lines_def)
    show "join [CHR 0x0A] (map print_task (u # us)) = join [CHR 0x0A] (concat (map task_lines (u # us)))"
      using 3(2) by (simp only: print_roadmap_def)
  qed simp
  finally show ?case by (simp add: print_roadmap_def)
qed

lemma files_text_sound:
  assumes "fs \<noteq> []" and "\<forall>f\<in>set fs. sound_file f"
  shows "join '', '' fs \<noteq> []" "\<not> is_ws (hd (join '', '' fs))" "\<not> is_ws (last (join '', '' fs))"
    "last (join '', '' fs) \<noteq> CHR ''*''" "CR \<notin> set (join '', '' fs)" "CHR 0x0A \<notin> set (join '', '' fs)"
proof -
  have h: "sound_file (hd fs)" "sound_file (last fs)" using assms by auto
  then have n: "hd fs \<noteq> []" "last fs \<noteq> []" by (auto simp: sound_file_def sound_ends_def)
  show "join '', '' fs \<noteq> []" "\<not> is_ws (hd (join '', '' fs))"
    using join_hd [OF assms(1) n(1), of "'', ''"] h by (auto simp: sound_file_def sound_ends_def)
  show "\<not> is_ws (last (join '', '' fs))" "last (join '', '' fs) \<noteq> CHR ''*''"
    using join_last [OF assms(1) n(2), of "'', ''"] h by (auto simp: sound_file_def sound_ends_def)
  have "set (join '', '' fs) \<subseteq> set '', '' \<union> (\<Union>x\<in>set fs. set x)" by (rule set_join)
  then show "CR \<notin> set (join '', '' fs)" "CHR 0x0A \<notin> set (join '', '' fs)"
    using assms(2) by (fastforce simp: sound_file_def sound_ends_def CR_def)+
qed

lemma clean_task_lines:
  assumes "sound_task ts t"
  shows "map clean_line (task_lines t) = task_lines t" "\<forall>l\<in>set (task_lines t). CHR 0x0A \<notin> set l"
proof -
  have ti: "sound_ends (tk_title t)" using assms by (simp add: sound_task_def)
  note fs = files_text_sound [of "tk_files t"]
  have "\<not> is_ws (hd (show_nat (tk_n t)))" "hd (show_nat (tk_n t)) \<notin> set ''>#*_''"
    using show_nat_ends(1) [of "tk_n t"] by (auto simp: digit_not_ws is_digit_def)
  with ti have 1: "clean_line (show_nat (tk_n t) @ ''. '' @ tk_title t) = show_nat (tk_n t) @ ''. '' @ tk_title t"
    by (intro clean_line_id) (auto simp: sound_ends_def)
  have 2: "clean_line (''FILES: '' @ join '', '' (tk_files t)) = ''FILES: '' @ join '', '' (tk_files t)"
    using assms fs by (intro clean_line_id) (auto simp: sound_task_def is_ws_eval)
  have 3: "clean_line (''NEEDS: '' @ needs_text (tk_needs t)) = ''NEEDS: '' @ needs_text (tk_needs t)"
    using needs_text_sound [of "tk_needs t"] by (intro clean_line_id) (auto simp: is_ws_eval)
  show "map clean_line (task_lines t) = task_lines t"
    unfolding task_lines_def list.map 1 2 3 ..
  have "CHR 0x0A \<notin> set (show_nat (tk_n t))" using show_nat_digits is_digit_not by blast
  then show "\<forall>l\<in>set (task_lines t). CHR 0x0A \<notin> set l"
    using assms ti fs needs_text_sound [of "tk_needs t"] by (simp add: task_lines_def sound_task_def sound_ends_def)
qed

lemma parse_task_lines:
  assumes "sound_task ts t"
  shows "fold parse_line (task_lines t) (done', cur)
    = (done' @ (case cur of None \<Rightarrow> [] | Some u \<Rightarrow> [u]), Some t)"
proof -
  note fs = files_text_sound [of "tk_files t"]
  have h: "parse_head (show_nat (tk_n t) @ ''. '' @ tk_title t) = Some (tk_n t, tk_title t)"
    using assms by (intro parse_head_print) (auto simp: sound_task_def)
  have sf: "tk_files t \<noteq> []" "\<forall>f\<in>set (tk_files t). sound_file f" using assms by (auto simp: sound_task_def)
  have f: "parse_head (''FILES: '' @ join '', '' (tk_files t)) = None"
    by (rule parse_head_other) (simp_all add: is_digit_not)
  have f': "parse_field ''FILES'' (''FILES: '' @ join '', '' (tk_files t)) = Some (join '', '' (tk_files t))"
    using fs [OF sf] by (intro parse_field_files)
  have n: "parse_head (''NEEDS: '' @ needs_text (tk_needs t)) = None"
    by (rule parse_head_other) (simp_all add: is_digit_not)
  have n': "parse_field ''FILES'' (''NEEDS: '' @ needs_text (tk_needs t)) = None"
    "parse_field ''NEEDS'' (''NEEDS: '' @ needs_text (tk_needs t)) = Some (needs_text (tk_needs t))"
    using needs_text_sound [of "tk_needs t"] by (intro parse_field_needs; simp)+
  have pf: "parse_files (join '', '' (tk_files t)) = tk_files t"
    using assms by (intro parse_files_print) (auto simp: sound_task_def)
  let ?t0 = "\<lparr>tk_n = tk_n t, tk_title = tk_title t, tk_files = tk_files t, tk_needs = []\<rparr>"
  have eq: "(if says_none (js_trim (needs_text (tk_needs t))) then ?t0
      else ?t0\<lparr>tk_needs := numbers_in [] (js_trim (needs_text (tk_needs t)))\<rparr>) = t"
    using parse_needs_text [of "tk_needs t"] by (cases t) (auto split: if_splits)
  show ?thesis
    unfolding task_lines_def by (simp only: fold_simps comp_apply id_apply)
      (simp only: parse_line_def prod.case h option.case f f' n n' pf, use eq in \<open>simp split: if_splits\<close>)
qed

lemma parse_lines_print:
  assumes "ts \<noteq> []" and "\<forall>t\<in>set ts. sound_task us t"
  shows "parse_lines (print_roadmap ts) = ts"
proof -
  let ?ls = "concat (map task_lines ts)"
  have "?ls \<noteq> []" using assms(1) by (cases ts) (simp_all add: task_lines_def)
  moreover have "\<forall>l\<in>set ?ls. CHR 0x0A \<notin> set l" using assms(2) clean_task_lines(2) by fastforce
  ultimately have sp: "split_on (CHR 0x0A) (print_roadmap ts) = ?ls"
    unfolding print_roadmap_lines by (rule split_join_lines)
  have cl: "map clean_line ?ls = ?ls" using assms(2) clean_task_lines(1)
    by (induction ts) auto
  have "case fold parse_line ?ls (acc, cur) of (d, c) \<Rightarrow> d @ (case c of None \<Rightarrow> [] | Some t \<Rightarrow> [t])
      = acc @ (case cur of None \<Rightarrow> [] | Some t \<Rightarrow> [t]) @ ts" for acc cur
    using assms(2)
  proof (induction ts arbitrary: acc cur)
    case (Cons t ts)
    then show ?case using parse_task_lines [of us t acc cur] Cons.IH [of "acc @ (case cur of None \<Rightarrow> [] | Some t \<Rightarrow> [t])" "Some t"]
      by (simp del: fold_simps)
  qed simp
  from this [of "[]" None] show ?thesis unfolding parse_lines_def sp cl by (simp split: prod.splits)
qed

lemma bad_file_none: "\<forall>f\<in>set fs. \<not> has_dotdot f \<and> \<not> is_absolute f \<Longrightarrow> bad_file n fs = None"
  by (induction fs) auto

lemma bad_task_none:
  "\<forall>t\<in>set ts. tk_files t \<noteq> [] \<and> (\<forall>f\<in>set (tk_files t). \<not> has_dotdot f \<and> \<not> is_absolute f) \<Longrightarrow> bad_task ts = None"
  by (induction ts) (auto simp: bad_file_none)

text \<open>C28: an approved plan is read back as it was approved.  For a list of well-formed tasks, parsing the
  text the server prints gives exactly that list (numbers, titles, files, dependencies), unless it
  is longer than the parser's limit, when the answer is the limit error; so a plan of 13 tasks or
  more, which the planning request allows, cannot be read back.\<close>

theorem approved_plan_round_trip:
  assumes "ts \<noteq> []" and "\<forall>t\<in>set ts. sound_task ts t"
  shows "parseTaskRoadmap (print_roadmap ts) maxTasks = (if length ts > maxTasks then Inl (MoreThan maxTasks) else Inr ts)
    \<and> read_approved_plan ts = (if length ts > 12 then Inl (MoreThan 12) else Inr ts)"
proof -
  have p: "parse_lines (print_roadmap ts) = ts" using assms by (rule parse_lines_print)
  have b: "bad_task ts = None"
    using assms by (intro bad_task_none) (auto simp: sound_task_def sound_file_def)
  have "t\<lparr>tk_needs := filter (\<lambda>n. n \<in> task_numbers ts \<and> n \<noteq> tk_n t) (tk_needs t)\<rparr> = t" if "t \<in> set ts" for t
  proof -
    have "filter (\<lambda>n. n \<in> task_numbers ts \<and> n \<noteq> tk_n t) (tk_needs t) = tk_needs t"
      using assms that by (auto simp: filter_id_conv sound_task_def)
    then show ?thesis by simp
  qed
  then have m: "map (\<lambda>t. t\<lparr>tk_needs := filter (\<lambda>n. n \<in> task_numbers ts \<and> n \<noteq> tk_n t) (tk_needs t)\<rparr>) ts = ts"
    by (simp add: map_idI)
  show ?thesis
    unfolding read_approved_plan_def parseTaskRoadmap_def Let_def p b option.case m using assms(1) by simp
qed

lemma approved_plan_round_trip_witness:
  "read_approved_plan [\<lparr>tk_n = 1, tk_title = ''Store'', tk_files = [''src/db.js'', ''a.sql''], tk_needs = []\<rparr>,
      \<lparr>tk_n = 12, tk_title = ''Page'', tk_files = [''index.html''], tk_needs = [1]\<rparr>]
   = Inr [\<lparr>tk_n = 1, tk_title = ''Store'', tk_files = [''src/db.js'', ''a.sql''], tk_needs = []\<rparr>,
      \<lparr>tk_n = 12, tk_title = ''Page'', tk_files = [''index.html''], tk_needs = [1]\<rparr>]"
proof -
  let ?ts = "[\<lparr>tk_n = 1, tk_title = ''Store'', tk_files = [''src/db.js'', ''a.sql''], tk_needs = []\<rparr>,
      \<lparr>tk_n = 12, tk_title = ''Page'', tk_files = [''index.html''], tk_needs = [1]\<rparr>] :: task list"
  have "\<forall>t\<in>set ?ts. sound_task ?ts t"
    by (simp add: sound_task_def sound_ends_def sound_file_def is_ws_def CR_def is_quote_def is_absolute_def
        is_letter_def task_numbers_def)
  then show ?thesis using approved_plan_round_trip [of ?ts 12] by simp
qed

end
