(* ===== verification/IdePool.thy ===== *)
theory IdePool
  imports IdeTasks_Facts
begin

text \<open>
  \<open>idepool.mjs\<close>: the concurrency gate for model calls and the rolling task pool.  The pool's loop is
  a transition system: what the code does between two awaits is one step, and the step relation
  leaves open which running task finishes next, with what verdict, what the user answers, and when
  the build is aborted.
\<close>

section \<open>The concurrency gate\<close>

text \<open>\<open>gt_woken\<close>: callers whose promise has been resolved and whose \<open>inFlight++\<close> has not run yet.\<close>

record gate =
  gt_inFlight :: nat
  gt_waiters :: "nat list"
  gt_woken :: "nat list"

definition gate_max :: "jsnum \<Rightarrow> nat" where
  "gate_max limit = nat (max 1 (js_trunc (num_or limit 1)))"

definition createGate :: gate where
  "createGate = \<lparr>gt_inFlight = 0, gt_waiters = [], gt_woken = []\<rparr>"

definition gate_enter :: "nat \<Rightarrow> nat \<Rightarrow> gate \<Rightarrow> gate" where
  "gate_enter mx who g =
     (if gt_inFlight g \<ge> mx then g\<lparr>gt_waiters := gt_waiters g @ [who]\<rparr>
      else g\<lparr>gt_inFlight := Suc (gt_inFlight g)\<rparr>)"

definition gate_resume :: "gate \<Rightarrow> gate" where
  "gate_resume g =
     (case gt_woken g of
        [] \<Rightarrow> g
      | _ # ws \<Rightarrow> g\<lparr>gt_inFlight := Suc (gt_inFlight g), gt_woken := ws\<rparr>)"

definition gate_leave :: "gate \<Rightarrow> gate" where
  "gate_leave g =
     (case gt_waiters g of
        [] \<Rightarrow> g\<lparr>gt_inFlight := gt_inFlight g - 1\<rparr>
      | w # ws \<Rightarrow> g\<lparr>gt_inFlight := gt_inFlight g - 1, gt_waiters := ws, gt_woken := gt_woken g @ [w]\<rparr>)"

section \<open>The pool\<close>

datatype fatal = FatalAbort | FatalCarve
datatype pool_outcome = Drained | Aborted | Carved | StoppedByUser | Sealed
datatype fork_answer = AnswerNull | AnswerStop | AnswerRetry | AnswerSkip

record verdict =
  vd_ok :: bool
  vd_aborted :: bool
  vd_carve :: bool
  vd_reason :: string
  vd_error :: string

record pool =
  pl_done :: "nat set"
  pl_failed :: "nat set"
  pl_running :: "nat list"
  pl_reason :: "nat \<Rightarrow> string option"
  pl_attempts :: "nat \<Rightarrow> nat"
  pl_fatal :: "fatal option"
  pl_rounds :: nat
  pl_aborted :: bool        \<comment> \<open>\<open>isAborted()\<close>; once true it stays true\<close>

record pool_cfg =
  pc_maxRetryRounds :: nat
  pc_maxAttempts :: nat
  pc_canAsk :: bool

definition pool_init :: pool where
  "pool_init = \<lparr>pl_done = {}, pl_failed = {}, pl_running = [], pl_reason = Map.empty, pl_attempts = (\<lambda>_. 0),
     pl_fatal = None, pl_rounds = 0, pl_aborted = False\<rparr>"

definition startable :: "task list \<Rightarrow> pool \<Rightarrow> task list" where
  "startable ts st = filter (\<lambda>t. tk_n t \<notin> set (pl_running st) \<and> tk_n t \<notin> pl_failed st
       \<and> \<not> list_ex (\<lambda>n. n \<in> pl_failed st) (tk_needs t))
     (readyTasks ts (pl_done st) (pl_running st))"

definition start_task :: "task \<Rightarrow> pool \<Rightarrow> pool" where
  "start_task t st = st\<lparr>pl_running := pl_running st @ [tk_n t]\<rparr>"

text \<open>One task is started, then the ready set is recomputed.\<close>

function pool_fill :: "task list \<Rightarrow> pool \<Rightarrow> pool" where
  "pool_fill ts st = (case startable ts st of [] \<Rightarrow> st | t # _ \<Rightarrow> pool_fill ts (start_task t st))"
  by pat_completeness auto

lemma startable_hd:
  assumes "startable ts st = t # us"
  shows "t \<in> set ts" "tk_n t \<notin> set (pl_running st)" "tk_n t \<notin> pl_done st" "tk_n t \<notin> pl_failed st"
    "set (tk_needs t) \<subseteq> pl_done st" "\<not> list_ex (filesCollide t) (List.map_filter (by_number ts) (pl_running st))"
proof -
  have "t \<in> set (startable ts st)" using assms by simp
  then show "t \<in> set ts" "tk_n t \<notin> set (pl_running st)" "tk_n t \<notin> pl_done st" "tk_n t \<notin> pl_failed st"
    "set (tk_needs t) \<subseteq> pl_done st" "\<not> list_ex (filesCollide t) (List.map_filter (by_number ts) (pl_running st))"
    by (auto simp: startable_def readyTasks_def list_all_iff)
qed

termination pool_fill
proof (relation "measure (\<lambda>(ts, st). card (task_numbers ts - set (pl_running st)))")
  fix ts st t us
  assume "startable ts st = t # us"
  note h = startable_hd [OF this]
  have "task_numbers ts - set (pl_running (start_task t st)) \<subset> task_numbers ts - set (pl_running st)"
    using h(1,2) by (auto simp: start_task_def task_numbers_def)
  then show "((ts, start_task t st), ts, st) \<in> measure (\<lambda>(ts, st). card (task_numbers ts - set (pl_running st)))"
    by (simp add: psubset_card_mono task_numbers_def)
qed simp

declare pool_fill.simps [simp del]

definition pool_top :: "task list \<Rightarrow> pool \<Rightarrow> pool" where
  "pool_top ts st = (if pl_fatal st = None \<and> \<not> pl_aborted st then pool_fill ts st else st)"

definition retryable :: "pool_cfg \<Rightarrow> pool \<Rightarrow> nat list" where
  "retryable cfg st = sorted_list_of_set {n \<in> pl_failed st. pl_attempts st n < pc_maxAttempts cfg}"

datatype pool_phase = PTop | PRace | PAsk "nat list" | PEnd pool_outcome

text \<open>Nothing is running: end, or ask what to do about the failures.\<close>

definition pool_decide :: "pool_cfg \<Rightarrow> pool \<Rightarrow> pool_phase" where
  "pool_decide cfg st =
     (if pl_aborted st \<or> pl_fatal st = Some FatalAbort then PEnd Aborted
      else if pl_fatal st = Some FatalCarve then PEnd Carved
      else if pl_failed st \<noteq> {} \<and> pl_rounds st < pc_maxRetryRounds cfg \<and> pc_canAsk cfg
              \<and> retryable cfg st \<noteq> []
      then PAsk (retryable cfg st) else PEnd Drained)"

definition pool_answer :: "nat list \<Rightarrow> fork_answer \<Rightarrow> pool \<Rightarrow> pool_phase \<times> pool" where
  "pool_answer ns a st =
     (case a of
        AnswerNull \<Rightarrow> (PEnd Sealed, st)
      | AnswerStop \<Rightarrow> (PEnd StoppedByUser, st)
      | AnswerRetry \<Rightarrow> (PTop, st\<lparr>pl_rounds := Suc (pl_rounds st), pl_failed := pl_failed st - set ns\<rparr>)
      | AnswerSkip \<Rightarrow> (PEnd Drained, st))"

definition pool_finish :: "nat \<Rightarrow> verdict \<Rightarrow> pool \<Rightarrow> pool" where
  "pool_finish n v st0 =
     (let st = st0\<lparr>pl_running := removeAll n (pl_running st0)\<rparr>;
          fatal' = (if vd_aborted v then (case pl_fatal st of None \<Rightarrow> Some FatalAbort | f \<Rightarrow> f)
                    else if vd_carve v then (case pl_fatal st of None \<Rightarrow> Some FatalCarve | f \<Rightarrow> f)
                    else pl_fatal st);
          st1 = st\<lparr>pl_fatal := fatal'\<rparr>
      in if vd_ok v then st1\<lparr>pl_done := insert n (pl_done st1)\<rparr>
         else if fatal' = None then
           let reason = take 160 (if vd_reason v = [] then vd_error v else vd_reason v) in
           st1\<lparr>pl_failed := insert n (pl_failed st1),
               pl_attempts := (pl_attempts st1)(n := Suc (pl_attempts st1 n)),
               pl_reason := (if reason = [] then pl_reason st1 else (pl_reason st1)(n \<mapsto> reason))\<rparr>
         else st1)"

inductive pool_step :: "task list \<Rightarrow> pool_cfg \<Rightarrow> pool_phase \<times> pool \<Rightarrow> pool_phase \<times> pool \<Rightarrow> bool"
  for ts cfg where
  top_idle: "pl_running (pool_top ts st) = [] \<Longrightarrow>
    pool_step ts cfg (PTop, st) (pool_decide cfg (pool_top ts st), pool_top ts st)"
| top_wait: "pl_running (pool_top ts st) \<noteq> [] \<Longrightarrow> pool_step ts cfg (PTop, st) (PRace, pool_top ts st)"
| finish: "n \<in> set (pl_running st) \<Longrightarrow> pool_step ts cfg (PRace, st) (PTop, pool_finish n v st)"
| answer: "pool_step ts cfg (PAsk ns, st) (pool_answer ns a st)"
| abort: "\<not> pl_aborted st \<Longrightarrow> pool_step ts cfg (ph, st) (ph, st\<lparr>pl_aborted := True\<rparr>)"

inductive pool_reach :: "task list \<Rightarrow> pool_cfg \<Rightarrow> pool_phase \<times> pool \<Rightarrow> bool" for ts cfg where
  init: "pool_reach ts cfg (PTop, pool_init)"
| step: "pool_reach ts cfg s \<Longrightarrow> pool_step ts cfg s s' \<Longrightarrow> pool_reach ts cfg s'"

inductive_cases pool_step_topE: "pool_step ts cfg (PTop, st) s'"
inductive_cases pool_step_raceE: "pool_step ts cfg (PRace, st) s'"
inductive_cases pool_step_askE: "pool_step ts cfg (PAsk ns, st) s'"
inductive_cases pool_step_endE: "pool_step ts cfg (PEnd out, st) s'"

text \<open>The tasks neither done nor failed, each with the needs that are missing.\<close>

definition pool_skipped :: "task list \<Rightarrow> pool \<Rightarrow> (task \<times> nat list) list" where
  "pool_skipped ts st = map (\<lambda>t. (t, sort (filter (\<lambda>n. n \<notin> pl_done st) (tk_needs t))))
     (filter (\<lambda>t. tk_n t \<notin> pl_done st \<and> tk_n t \<notin> pl_failed st) ts)"

section \<open>Lemmas: the gate\<close>

datatype gate_op = GEnter nat | GLeave | GResume

definition gate_exec :: "nat \<Rightarrow> gate \<Rightarrow> gate_op \<Rightarrow> gate" where
  "gate_exec mx g op = (case op of GEnter w \<Rightarrow> gate_enter mx w g | GLeave \<Rightarrow> gate_leave g | GResume \<Rightarrow> gate_resume g)"

text \<open>A run in which nobody enters while a woken caller has still to resume.\<close>

fun polite :: "nat \<Rightarrow> gate \<Rightarrow> gate_op list \<Rightarrow> bool" where
  "polite mx g [] = True"
| "polite mx g (op # ops) =
     ((case op of GEnter _ \<Rightarrow> gt_woken g = [] | GLeave \<Rightarrow> 0 < gt_inFlight g | GResume \<Rightarrow> True)
      \<and> polite mx (gate_exec mx g op) ops)"

lemma polite_bound:
  "polite mx g ops \<Longrightarrow> gt_inFlight g + length (gt_woken g) \<le> mx \<Longrightarrow>
   gt_inFlight (foldl (gate_exec mx) g ops) + length (gt_woken (foldl (gate_exec mx) g ops)) \<le> mx"
proof (induction ops arbitrary: g)
  case (Cons op ops)
  have "gt_inFlight (gate_exec mx g op) + length (gt_woken (gate_exec mx g op)) \<le> mx"
    using Cons.prems by (cases op) (auto simp: gate_exec_def gate_enter_def gate_leave_def gate_resume_def
        split: list.splits)
  with Cons show ?case by simp
qed simp

lemma enters_fill:
  "k \<le> mx \<Longrightarrow> foldl (gate_exec mx) createGate (map GEnter [0..<k]) = \<lparr>gt_inFlight = k, gt_waiters = [], gt_woken = []\<rparr>"
  by (induction k) (simp_all add: createGate_def gate_exec_def gate_enter_def)

text \<open>the gate holds its limit only among polite callers.  As long as nobody enters between a
  departure and the resumption of the caller it woke, at most \<open>max\<close> calls are in flight; but an
  entry in that gap is let through as well, and then \<open>max + 1\<close> are in flight.\<close>

theorem gate_limit:
  "(\<forall>ops. polite (gate_max limit) createGate ops \<longrightarrow>
       gt_inFlight (foldl (gate_exec (gate_max limit)) createGate ops) \<le> gate_max limit)
   \<and> gt_inFlight (foldl (gate_exec (gate_max limit)) createGate
        (map GEnter [0..<gate_max limit] @ [GEnter 0, GLeave, GEnter 1, GResume])) = gate_max limit + 1"
proof (intro conjI allI impI)
  fix ops
  assume "polite (gate_max limit) createGate ops"
  from polite_bound [OF this]
  show "gt_inFlight (foldl (gate_exec (gate_max limit)) createGate ops) \<le> gate_max limit"
    by (simp add: createGate_def)
next
  have "1 \<le> gate_max limit" by (simp add: gate_max_def)
  then show "gt_inFlight (foldl (gate_exec (gate_max limit)) createGate
        (map GEnter [0..<gate_max limit] @ [GEnter 0, GLeave, GEnter 1, GResume])) = gate_max limit + 1"
    by (simp only: foldl_append enters_fill order_refl)
      (simp add: gate_exec_def gate_enter_def gate_leave_def gate_resume_def)
qed

lemma gate_limit_witness:
  "gt_inFlight (foldl (gate_exec (gate_max (Some 6))) createGate [GEnter 1, GEnter 2, GLeave, GEnter 3]) \<le> 6"
proof -
  have "polite (gate_max (Some 6)) createGate [GEnter 1, GEnter 2, GLeave, GEnter 3]" "gate_max (Some 6) = 6"
    by code_simp+
  with gate_limit [of "Some 6"] show ?thesis by metis
qed

section \<open>Lemmas: the pool invariant\<close>

definition running_apart :: "task list \<Rightarrow> nat list \<Rightarrow> bool" where
  "running_apart ts ns \<longleftrightarrow> (\<forall>t\<in>set ts. \<forall>u\<in>set ts. tk_n t \<in> set ns \<longrightarrow> tk_n u \<in> set ns \<longrightarrow> tk_n t \<noteq> tk_n u
     \<longrightarrow> \<not> filesCollide t u)"

definition needs_done :: "task list \<Rightarrow> nat list \<Rightarrow> nat set \<Rightarrow> bool" where
  "needs_done ts ns D \<longleftrightarrow> (\<forall>t\<in>set ts. tk_n t \<in> set ns \<longrightarrow> set (tk_needs t) \<subseteq> D)"

definition pool_sets :: "task list \<Rightarrow> pool \<Rightarrow> bool" where
  "pool_sets ts st \<longleftrightarrow> distinct (pl_running st)
     \<and> set (pl_running st) \<subseteq> task_numbers ts \<and> pl_done st \<subseteq> task_numbers ts \<and> pl_failed st \<subseteq> task_numbers ts
     \<and> set (pl_running st) \<inter> pl_done st = {} \<and> set (pl_running st) \<inter> pl_failed st = {} \<and> pl_done st \<inter> pl_failed st = {}"

definition pool_counts :: "pool_cfg \<Rightarrow> pool \<Rightarrow> bool" where
  "pool_counts cfg st \<longleftrightarrow> pl_rounds st \<le> pc_maxRetryRounds cfg
     \<and> (\<forall>n. pl_attempts st n \<le> pc_maxAttempts cfg)
     \<and> (\<forall>n. pl_attempts st n = pc_maxAttempts cfg \<longrightarrow> n \<in> pl_failed st)"

definition pool_inv :: "task list \<Rightarrow> pool_cfg \<Rightarrow> pool \<Rightarrow> bool" where
  "pool_inv ts cfg st \<longleftrightarrow> pool_sets ts st \<and> running_apart ts (pl_running st)
     \<and> needs_done ts (pl_running st) (pl_done st) \<and> pool_counts cfg st"

definition phase_ok :: "task list \<Rightarrow> pool_cfg \<Rightarrow> pool_phase \<Rightarrow> pool \<Rightarrow> bool" where
  "phase_ok ts cfg ph st \<longleftrightarrow> (case ph of
       PTop \<Rightarrow> True
     | PRace \<Rightarrow> pl_running st \<noteq> []
     | PAsk ns \<Rightarrow> pl_running st = [] \<and> ns = retryable cfg st \<and> pl_rounds st < pc_maxRetryRounds cfg
     | PEnd out \<Rightarrow> pl_running st = [])"

lemma filesCollide_sets:
  "filesCollide t u \<longleftrightarrow> norm_path ` set (tk_files t) \<inter> norm_path ` set (tk_files u) \<noteq> {}"
proof -
  have meet: "(\<exists>y\<in>A. y \<in> B) \<longleftrightarrow> B \<inter> A \<noteq> {}" for A B :: "string set" by blast
  show ?thesis
    unfolding meet [symmetric] by (simp only: filesCollide_def list_ex_iff set_map bex_simps)
qed

lemma filesCollide_sym: "filesCollide t u = filesCollide u t"
  unfolding filesCollide_sets by (subst Int_commute) (rule refl)

lemma by_number_unique:
  assumes "distinct (map tk_n ts)" and "t \<in> set ts"
  shows "by_number ts (tk_n t) = Some t"
proof -
  have "find (\<lambda>u. tk_n u = tk_n t) (rev ts) \<noteq> None"
    using assms(2) by (auto simp: find_None_iff)
  then obtain u where u: "find (\<lambda>u. tk_n u = tk_n t) (rev ts) = Some u" by auto
  then have "u \<in> set ts" "tk_n u = tk_n t" by (auto simp: find_Some_iff) (metis nth_mem length_rev set_rev)
  then have "u = t" using assms by (metis distinct_map inj_onD)
  with u show ?thesis by (simp add: by_number_def)
qed

text \<open>What the start of one task keeps.\<close>

lemma start_keeps:
  assumes "distinct (map tk_n ts)" and "pool_inv ts cfg st" and "startable ts st = t # us"
  shows "pool_inv ts cfg (start_task t st)"
proof -
  note h = startable_hd [OF assms(3)]
  have sets: "pool_sets ts (start_task t st)"
    using assms(2) h(1-4) by (auto simp: pool_inv_def pool_sets_def start_task_def task_numbers_def)
  have apart: "\<not> filesCollide t u" if "u \<in> set ts" "tk_n u \<in> set (pl_running st)" for u
  proof -
    have "u \<in> set (List.map_filter (by_number ts) (pl_running st))"
      using that by_number_unique [OF assms(1) that(1)] by (force simp: List.map_filter_def)
    then show ?thesis using h(6) by (simp add: list_ex_iff)
  qed
  have same: "u = t" if "u \<in> set ts" "tk_n u = tk_n t" for u
    using assms(1) h(1) that by (metis distinct_map inj_onD)
  have "running_apart ts (pl_running (start_task t st))"
    unfolding running_apart_def
  proof (intro ballI impI)
    fix a b
    assume ab: "a \<in> set ts" "b \<in> set ts" "tk_n a \<in> set (pl_running (start_task t st))"
      "tk_n b \<in> set (pl_running (start_task t st))" "tk_n a \<noteq> tk_n b"
    consider "tk_n a \<in> set (pl_running st)" "tk_n b \<in> set (pl_running st)"
      | "tk_n a = tk_n t" "tk_n b \<in> set (pl_running st)" | "tk_n b = tk_n t" "tk_n a \<in> set (pl_running st)"
      using ab by (auto simp: start_task_def)
    then show "\<not> filesCollide a b"
    proof cases
      case 1
      then show ?thesis using assms(2) ab by (auto simp: pool_inv_def running_apart_def)
    next
      case 2
      then show ?thesis using apart [OF ab(2)] same [OF ab(1)] by simp
    next
      case 3
      then show ?thesis using apart [OF ab(1)] same [OF ab(2)] filesCollide_sym by metis
    qed
  qed
  moreover have "needs_done ts (pl_running (start_task t st)) (pl_done (start_task t st))"
    using assms(2) h(5) same by (auto simp: pool_inv_def needs_done_def start_task_def)
  moreover have "pool_counts cfg (start_task t st)"
    using assms(2) by (simp add: pool_inv_def pool_counts_def start_task_def)
  ultimately show ?thesis using sets by (simp add: pool_inv_def)
qed

lemma fill_keeps:
  "distinct (map tk_n ts) \<Longrightarrow> pool_inv ts cfg st \<Longrightarrow> pool_inv ts cfg (pool_fill ts st)"
proof (induction ts st rule: pool_fill.induct)
  case (1 ts st)
  then show ?case
    by (cases "startable ts st") (simp_all add: pool_fill.simps [of ts st] start_keeps)
qed

lemma fill_exhausts: "startable ts (pool_fill ts st) = []"
proof (induction ts st rule: pool_fill.induct)
  case (1 ts st)
  then show ?case by (cases "startable ts st") (simp_all add: pool_fill.simps [of ts st])
qed

lemma fill_same:
  "pl_done (pool_fill ts st) = pl_done st \<and> pl_failed (pool_fill ts st) = pl_failed st
   \<and> pl_fatal (pool_fill ts st) = pl_fatal st \<and> pl_rounds (pool_fill ts st) = pl_rounds st
   \<and> pl_aborted (pool_fill ts st) = pl_aborted st \<and> pl_attempts (pool_fill ts st) = pl_attempts st"
proof (induction ts st rule: pool_fill.induct)
  case (1 ts st)
  then show ?case
    by (cases "startable ts st") (simp_all add: pool_fill.simps [of ts st] start_task_def)
qed

lemma top_keeps: "distinct (map tk_n ts) \<Longrightarrow> pool_inv ts cfg st \<Longrightarrow> pool_inv ts cfg (pool_top ts st)"
  by (simp add: pool_top_def fill_keeps)

lemma top_same:
  "pl_done (pool_top ts st) = pl_done st" "pl_failed (pool_top ts st) = pl_failed st"
  "pl_fatal (pool_top ts st) = pl_fatal st" "pl_rounds (pool_top ts st) = pl_rounds st"
  "pl_aborted (pool_top ts st) = pl_aborted st" "pl_attempts (pool_top ts st) = pl_attempts st"
  using fill_same [of ts st] by (simp_all add: pool_top_def)

lemma finish_keeps:
  assumes "pool_inv ts cfg st" and "n \<in> set (pl_running st)"
  shows "pool_inv ts cfg (pool_finish n v st)"
proof -
  have s: "pool_sets ts st" "pool_counts cfg st" "running_apart ts (pl_running st)"
    "needs_done ts (pl_running st) (pl_done st)"
    using assms(1) by (simp_all add: pool_inv_def)
  have n: "n \<in> task_numbers ts" "n \<notin> pl_done st" "n \<notin> pl_failed st" using s(1) assms(2) by (auto simp: pool_sets_def)
  have r: "pl_running (pool_finish n v st) = removeAll n (pl_running st)"
    by (simp add: pool_finish_def Let_def)
  have d: "pl_done (pool_finish n v st) = (if vd_ok v then insert n (pl_done st) else pl_done st)"
    by (simp add: pool_finish_def Let_def)
  have f: "pl_failed (pool_finish n v st) = pl_failed st \<or>
      \<not> vd_ok v \<and> pl_failed (pool_finish n v st) = insert n (pl_failed st)"
    by (simp add: pool_finish_def Let_def)
  have "pool_sets ts (pool_finish n v st)"
    using s(1) n f d r by (auto simp: pool_sets_def distinct_removeAll)
  moreover have "running_apart ts (pl_running (pool_finish n v st))"
    using s(3) by (auto simp: r running_apart_def)
  moreover have "needs_done ts (pl_running (pool_finish n v st)) (pl_done (pool_finish n v st))"
    using s(4) by (auto simp: r d needs_done_def)
  moreover have "pl_attempts st n < pc_maxAttempts cfg"
    using s(2) n(3) by (metis pool_counts_def le_neq_implies_less)
  then have "pool_counts cfg (pool_finish n v st)"
    using s(2) by (auto simp: pool_counts_def pool_finish_def Let_def)
  ultimately show ?thesis by (simp add: pool_inv_def)
qed

lemma answer_keeps:
  assumes "pool_inv ts cfg st" and "phase_ok ts cfg (PAsk ns) st" and "pool_answer ns a st = (ph', st')"
  shows "pool_inv ts cfg st' \<and> phase_ok ts cfg ph' st'"
proof (cases a)
  case AnswerRetry
  have "finite (pl_failed st)"
    using assms(1) by (auto simp: pool_inv_def pool_sets_def task_numbers_def intro: finite_subset)
  then have "set ns = {n \<in> pl_failed st. pl_attempts st n < pc_maxAttempts cfg}"
    using assms(2) by (simp add: phase_ok_def retryable_def)
  then show ?thesis
    using AnswerRetry assms
    by (auto simp: pool_answer_def pool_inv_def pool_sets_def pool_counts_def phase_ok_def)
qed (use assms in \<open>auto simp: pool_answer_def phase_ok_def\<close>)

lemma pool_step_keeps:
  assumes "distinct (map tk_n ts)" and "pool_step ts cfg (ph, st) (ph', st')"
    and "pool_inv ts cfg st" and "phase_ok ts cfg ph st"
  shows "pool_inv ts cfg st' \<and> phase_ok ts cfg ph' st'"
  using assms(2)
proof cases
  case top_idle
  then show ?thesis using top_keeps [OF assms(1,3)] by (auto simp: phase_ok_def pool_decide_def)
next
  case top_wait
  then show ?thesis using top_keeps [OF assms(1,3)] by (simp add: phase_ok_def)
next
  case (finish n v)
  then show ?thesis using finish_keeps [OF assms(3)] by (simp add: phase_ok_def)
next
  case (answer ns a)
  then show ?thesis using answer_keeps [OF assms(3), of ns a ph' st'] assms(4) by metis
next
  case abort
  then show ?thesis using assms(3,4)
    by (auto simp: pool_inv_def pool_sets_def pool_counts_def phase_ok_def retryable_def
        split: pool_phase.splits)
qed

lemma pool_reach_inv:
  assumes "distinct (map tk_n ts)" and "1 \<le> pc_maxAttempts cfg" and "pool_reach ts cfg s"
  shows "pool_inv ts cfg (snd s) \<and> phase_ok ts cfg (fst s) (snd s)"
  using assms(3)
proof (induction rule: pool_reach.induct)
  case init
  then show ?case using assms(2)
    by (auto simp: pool_inv_def pool_sets_def running_apart_def needs_done_def pool_counts_def pool_init_def
        phase_ok_def)
next
  case (step s s')
  then show ?case using pool_step_keeps [OF assms(1), of cfg "fst s" "snd s" "fst s'" "snd s'"] by simp
qed

text \<open>The pool drains only when nothing more can start.\<close>

lemma drained_stuck:
  assumes "pool_reach ts cfg s"
  shows "(case fst s of PEnd Drained \<Rightarrow> pl_aborted (snd s) \<or> startable ts (snd s) = [] | PAsk ns \<Rightarrow>
      pl_aborted (snd s) \<or> startable ts (snd s) = [] | _ \<Rightarrow> True)"
  using assms
proof (induction rule: pool_reach.induct)
  case (step s s')
  obtain ph st ph' st' where s: "s = (ph, st)" "s' = (ph', st')" by fastforce
  have no: "startable ts (st\<lparr>pl_aborted := True\<rparr>) = startable ts st" for st
    by (simp add: startable_def)
  from step(2)[unfolded s] show ?case
  proof cases
    case top_idle
    have "pl_aborted st' \<or> startable ts st' = []" if "\<not> (pl_aborted st' \<or> pl_fatal st' \<noteq> None)"
      using that top_idle(3) top_same(3,5) [of ts st] fill_exhausts [of ts st] by (simp add: pool_top_def)
    moreover have "ph' = PEnd Aborted \<or> ph' = PEnd Carved" if h: "pl_aborted st' \<or> pl_fatal st' \<noteq> None"
    proof -
      from h consider "pl_aborted st'" | "pl_fatal st' = Some FatalAbort" | "pl_fatal st' = Some FatalCarve"
        using fatal.exhaust by (cases "pl_fatal st'") auto
      then show ?thesis using top_idle(2,3) by cases (simp_all add: pool_decide_def)
    qed
    ultimately show ?thesis unfolding s
      by (cases "pl_aborted st' \<or> pl_fatal st' \<noteq> None") (auto split: pool_phase.splits pool_outcome.splits)
  next
    case (answer ns a)
    then show ?thesis using step(3) s by (auto simp: pool_answer_def split: fork_answer.splits)
  next
    case abort
    then show ?thesis unfolding s by (auto split: pool_phase.splits pool_outcome.splits)
  qed (auto simp: s)
qed simp

section \<open>Properties\<close>

text \<open>C25: who runs when.  In every state the pool can reach, two tasks that run at the same time share no
  file, every running task has all its needs done, no running task is done or failed, no task
  has been attempted more often than the cap, and the user is asked at most the allowed number of times.\<close>

theorem pool_runs_safely:
  assumes "distinct (map tk_n ts)" and "1 \<le> pc_maxAttempts cfg" and "pool_reach ts cfg (ph, st)"
  shows "(\<forall>t\<in>set ts. \<forall>u\<in>set ts. tk_n t \<in> set (pl_running st) \<and> tk_n u \<in> set (pl_running st) \<and> t \<noteq> u
       \<longrightarrow> \<not> filesCollide t u)
    \<and> (\<forall>t\<in>set ts. tk_n t \<in> set (pl_running st) \<longrightarrow> set (tk_needs t) \<subseteq> pl_done st
         \<and> tk_n t \<notin> pl_done st \<and> tk_n t \<notin> pl_failed st)
    \<and> (\<forall>n. pl_attempts st n \<le> pc_maxAttempts cfg) \<and> pl_rounds st \<le> pc_maxRetryRounds cfg"
proof -
  have inv: "pool_sets ts st" "running_apart ts (pl_running st)" "needs_done ts (pl_running st) (pl_done st)"
    "pool_counts cfg st"
    using pool_reach_inv [OF assms] by (auto simp: pool_inv_def)
  have "tk_n t \<noteq> tk_n u" if "t \<in> set ts" "u \<in> set ts" "t \<noteq> u" for t u
    using assms(1) that by (metis distinct_map inj_onD)
  then show ?thesis
    using inv unfolding running_apart_def needs_done_def pool_counts_def pool_sets_def by blast
qed

abbreviation two_tasks :: "task list" where
  "two_tasks \<equiv> [\<lparr>tk_n = 1, tk_title = [], tk_files = [''a.js''], tk_needs = []\<rparr>,
     \<lparr>tk_n = 2, tk_title = [], tk_files = [''./A.js''], tk_needs = []\<rparr>]"

abbreviation pool_defaults :: pool_cfg where
  "pool_defaults \<equiv> \<lparr>pc_maxRetryRounds = 2, pc_maxAttempts = 3, pc_canAsk = True\<rparr>"

lemma pool_runs_safely_witness:
  "\<exists>st. pool_reach two_tasks pool_defaults (PRace, st) \<and> pl_running st = [1] \<and> pl_attempts st 1 \<le> 3"
proof -
  let ?st = "pool_top two_tasks pool_init"
  have r: "pl_running ?st = [1]" by code_simp
  then have reach: "pool_reach two_tasks pool_defaults (PRace, ?st)"
    by (intro pool_reach.step [OF pool_reach.init] pool_step.top_wait) simp
  have "distinct (map tk_n two_tasks)" "1 \<le> pc_maxAttempts pool_defaults" by simp_all
  from pool_runs_safely [OF this reach] r reach show ?thesis by auto
qed

text \<open>a drained pool has left nothing behind that could run.  When the pool ends as drained and was not
  aborted, every task that is neither done nor failed waits for a task that is not done; so when no
  task failed, on a roadmap the scheduler accepted, every task is done.\<close>

theorem drained_pool_is_complete:
  assumes "topoOrder ts = Inr order" and "1 \<le> pc_maxAttempts cfg"
    and "\<forall>t\<in>set ts. set (tk_needs t) \<subseteq> task_numbers ts"
    and "pool_reach ts cfg (PEnd Drained, st)" and "\<not> pl_aborted st"
  shows "(\<forall>t\<in>set ts. tk_n t \<notin> pl_done st \<and> tk_n t \<notin> pl_failed st \<longrightarrow> (\<exists>n\<in>set (tk_needs t). n \<notin> pl_done st))
    \<and> (pl_failed st = {} \<longrightarrow> pl_done st = task_numbers ts)"
proof -
  have topo: "builds ts order" "set order = task_numbers ts" "distinct (map tk_n ts)"
    using topo_order_correct [of ts] assms(1) by auto
  have inv: "pool_sets ts st" "pl_running st = []"
    using pool_reach_inv [OF topo(3) assms(2,4)] by (auto simp: pool_inv_def phase_ok_def)
  have "startable ts st = []" using drained_stuck [OF assms(4)] assms(5) by simp
  then have stuck: "\<exists>n\<in>set (tk_needs t). n \<notin> pl_done st"
    if "t \<in> set ts" "tk_n t \<notin> pl_done st" "tk_n t \<notin> pl_failed st" for t
    using that inv(2)
    by (auto simp: startable_def readyTasks_def filter_empty_conv list_all_iff list_ex_iff map_filter_simps)
      (metis disjoint_iff inv(1) pool_sets_def subsetD)
  have "task_numbers ts \<subseteq> pl_done st" if nf: "pl_failed st = {}"
  proof -
    have "set order \<subseteq> pl_done st"
    proof (rule builds_stuck [OF topo(1)])
      fix t
      assume t: "t \<in> set ts" "tk_n t \<notin> pl_done st"
      then obtain n where "n \<in> set (tk_needs t)" "n \<notin> pl_done st" using stuck [OF t] nf by auto
      then show "\<not> needs_met ts t (pl_done st)" using assms(3) t(1) by (auto simp: needs_met_def)
    qed
    with topo(2) show ?thesis by simp
  qed
  then show ?thesis using stuck inv(1) by (auto simp: pool_sets_def)
qed

abbreviation verdict_ok :: verdict where
  "verdict_ok \<equiv> \<lparr>vd_ok = True, vd_aborted = False, vd_carve = False, vd_reason = [], vd_error = []\<rparr>"

abbreviation one_task :: "task list" where
  "one_task \<equiv> [\<lparr>tk_n = 1, tk_title = [], tk_files = [''a.js''], tk_needs = []\<rparr>]"

lemma drained_pool_is_complete_witness:
  "\<exists>st. pool_reach one_task pool_defaults (PEnd Drained, st) \<and> pl_done st = {1}"
proof -
  let ?s1 = "pool_top one_task pool_init"
  let ?s2 = "pool_finish 1 verdict_ok ?s1"
  let ?s3 = "pool_top one_task ?s2"
  have run: "pl_running ?s1 = [1]" "pl_running ?s3 = []" "\<not> pl_aborted ?s3" "pl_failed ?s3 = {}"
    "pool_decide pool_defaults ?s3 = PEnd Drained" "topoOrder one_task = Inr [1]"
    by code_simp+
  have "pool_reach one_task pool_defaults (PRace, ?s1)"
    by (intro pool_reach.step [OF pool_reach.init] pool_step.top_wait) (unfold run, simp)
  then have "pool_reach one_task pool_defaults (PTop, ?s2)"
    by (rule pool_reach.step) (rule pool_step.finish, unfold run, simp)
  then have "pool_reach one_task pool_defaults (pool_decide pool_defaults ?s3, ?s3)"
    by (rule pool_reach.step) (rule pool_step.top_idle, rule run)
  then have r: "pool_reach one_task pool_defaults (PEnd Drained, ?s3)" by (simp only: run)
  have "1 \<le> pc_maxAttempts pool_defaults" "\<forall>t\<in>set one_task. set (tk_needs t) \<subseteq> task_numbers one_task" by simp_all
  from drained_pool_is_complete [OF run(6) this r run(3)] run(4) r show ?thesis
    by (auto simp: task_numbers_def)
qed

section \<open>Termination\<close>

definition phase_rank :: "pool_phase \<Rightarrow> nat" where
  "phase_rank ph = (case ph of PTop \<Rightarrow> 2 | PRace \<Rightarrow> 1 | PAsk _ \<Rightarrow> 1 | PEnd _ \<Rightarrow> 0)"

definition pool_measures :: "task list \<Rightarrow> pool_cfg \<Rightarrow> ((pool_phase \<times> pool) \<times> pool_phase \<times> pool) set" where
  "pool_measures ts cfg = measures
     [\<lambda>(ph, st). pc_maxRetryRounds cfg - pl_rounds st,
      \<lambda>(ph, st). if pl_aborted st then 0 else 1,
      \<lambda>(ph, st). if pl_fatal st = None then 1 else 0,
      \<lambda>(ph, st). card (task_numbers ts - pl_done st - pl_failed st),
      \<lambda>(ph, st). if pl_fatal st = None then 0 else length (pl_running st),
      \<lambda>(ph, st). phase_rank ph]"

lemma finish_decreases:
  assumes "pool_inv ts cfg st" and "n \<in> set (pl_running st)"
  shows "((PTop, pool_finish n v st), (PRace, st)) \<in> pool_measures ts cfg"
proof -
  have n: "n \<in> task_numbers ts" "n \<notin> pl_done st" "n \<notin> pl_failed st" "distinct (pl_running st)"
    using assms by (auto simp: pool_inv_def pool_sets_def)
  have fin: "finite (task_numbers ts)" by (simp add: task_numbers_def)
  have keep: "pl_rounds (pool_finish n v st) = pl_rounds st" "pl_aborted (pool_finish n v st) = pl_aborted st"
    "pl_running (pool_finish n v st) = removeAll n (pl_running st)"
    by (simp_all add: pool_finish_def Let_def)
  have shorter: "length (removeAll n (pl_running st)) < length (pl_running st)"
    by (rule length_removeAll_less [OF assms(2)])
  have gone: "card (task_numbers ts - insert n (pl_done st) - pl_failed st) < card (task_numbers ts - pl_done st - pl_failed st)"
    "card (task_numbers ts - pl_done st - insert n (pl_failed st)) < card (task_numbers ts - pl_done st - pl_failed st)"
    by (rule psubset_card_mono; use n fin in auto)+
  show ?thesis
  proof (cases "pl_fatal st")
    case None
    show ?thesis
    proof (cases "pl_fatal (pool_finish n v st)")
      case None': None
      then have "pl_done (pool_finish n v st) = insert n (pl_done st) \<and> pl_failed (pool_finish n v st) = pl_failed st
          \<or> pl_done (pool_finish n v st) = pl_done st \<and> pl_failed (pool_finish n v st) = insert n (pl_failed st)"
        by (auto simp: pool_finish_def Let_def split: if_splits)
      then show ?thesis using None None' keep gone by (auto simp: pool_measures_def)
    next
      case (Some f)
      then show ?thesis using None keep by (simp add: pool_measures_def)
    qed
  next
    case (Some f)
    then have "pl_fatal (pool_finish n v st) = Some f" by (auto simp: pool_finish_def Let_def)
    moreover from this have "pl_done (pool_finish n v st) \<in> {pl_done st, insert n (pl_done st)}"
      "pl_failed (pool_finish n v st) = pl_failed st"
      using Some by (auto simp: pool_finish_def Let_def split: if_splits)
    ultimately show ?thesis using Some keep gone shorter by (auto simp: pool_measures_def)
  qed
qed

text \<open>C26: the pool always comes to an end.  From any reachable state there is no infinite run, whatever
  the tasks answer, whatever the user decides at the forks and whenever the build is aborted; and a
  state with no next step is one of the outcomes.\<close>

theorem pool_terminates:
  assumes "distinct (map tk_n ts)" and "1 \<le> pc_maxAttempts cfg"
  shows "\<not> (\<exists>run. pool_reach ts cfg (run 0) \<and> (\<forall>i. pool_step ts cfg (run i) (run (Suc i))))
    \<and> (\<forall>s. pool_reach ts cfg s \<and> (\<forall>s'. \<not> pool_step ts cfg s s') \<longrightarrow> (\<exists>out. fst s = PEnd out))"
proof (intro conjI allI impI notI)
  have dec: "(s', s) \<in> pool_measures ts cfg" if r: "pool_reach ts cfg s" and st: "pool_step ts cfg s s'" for s s'
  proof -
    obtain ph st where s: "s = (ph, st)" by fastforce
    have inv: "pool_inv ts cfg st" "phase_ok ts cfg ph st" using pool_reach_inv [OF assms r] s by auto
    have top: "((ph', pool_top ts st), (PTop, st)) \<in> pool_measures ts cfg" if "phase_rank ph' < 2" for ph'
    proof (cases "pl_fatal st")
      case None
      then show ?thesis using that by (simp add: pool_measures_def top_same phase_rank_def)
    next
      case (Some f)
      then have "pool_top ts st = st" by (simp add: pool_top_def)
      then show ?thesis using that by (simp add: pool_measures_def phase_rank_def)
    qed
    from st [unfolded s] show ?thesis
    proof cases
      case top_idle
      have "phase_rank (pool_decide cfg (pool_top ts st)) < 2"
        by (simp add: phase_rank_def pool_decide_def)
      with top_idle top s show ?thesis by simp
    next
      case top_wait
      moreover have "phase_rank PRace < 2" by (simp add: phase_rank_def)
      ultimately show ?thesis using top s by simp
    next
      case (finish n v)
      then show ?thesis using finish_decreases [OF inv(1)] s by simp
    next
      case (answer ns a)
      then show ?thesis using inv(2) s
        by (cases a) (auto simp: pool_measures_def phase_rank_def pool_answer_def phase_ok_def)
    next
      case abort
      then show ?thesis by (simp add: pool_measures_def s)
    qed
  qed
  assume "\<exists>run. pool_reach ts cfg (run 0) \<and> (\<forall>i. pool_step ts cfg (run i) (run (Suc i)))"
  then obtain run where run: "pool_reach ts cfg (run 0)" "\<And>i. pool_step ts cfg (run i) (run (Suc i))" by blast
  have reach: "pool_reach ts cfg (run i)" for i
    by (induction i) (auto intro: run pool_reach.step)
  have "\<forall>i. (run (Suc i), run i) \<in> pool_measures ts cfg" using dec [OF reach run(2)] by blast
  moreover have "wf (pool_measures ts cfg)" unfolding pool_measures_def by (rule wf_measures)
  ultimately show False unfolding wf_iff_no_infinite_down_chain by blast
next
  fix s
  assume h: "pool_reach ts cfg s \<and> (\<forall>s'. \<not> pool_step ts cfg s s')"
  obtain ph st where s: "s = (ph, st)" by fastforce
  have ok: "phase_ok ts cfg ph st" using pool_reach_inv [OF assms] h s by fastforce
  show "\<exists>out. fst s = PEnd out"
  proof (cases ph)
    case PTop
    then show ?thesis using h s pool_step.top_idle [of ts st cfg] pool_step.top_wait [of ts st cfg] by blast
  next
    case PRace
    then have "hd (pl_running st) \<in> set (pl_running st)" using ok by (simp add: phase_ok_def)
    then show ?thesis using h s PRace pool_step.finish by blast
  next
    case (PAsk ns)
    then show ?thesis using h s pool_step.answer by blast
  qed (use s in simp)
qed

lemma pool_terminates_witness:
  "\<not> (\<exists>run. pool_reach two_tasks pool_defaults (run 0) \<and> (\<forall>i. pool_step two_tasks pool_defaults (run i) (run (Suc i))))"
  using pool_terminates [of two_tasks pool_defaults] by simp

end
