(* ===== verification/LongRun.thy ===== *)
theory LongRun
  imports Prelude
begin

text \<open>
  \<open>longrun.mjs\<close>: the spine of long jobs.  The ledger of a job is its memory; the segment runner takes
  one unit at a time, screens what comes back, and stops on its watchdog's verdicts.  A job is its
  meta file and its ledger file; a ledger line that does not parse is \<open>None\<close>.  What the loop reads
  from outside in one round (clock, budget, what the model calls returned, a pause request made
  meanwhile) is a \<open>round\<close>; a run consumes a list of rounds.
\<close>

section \<open>Screens\<close>

definition STALL_MINUTES_DEFAULT :: rat where "STALL_MINUTES_DEFAULT = 20"
definition LOOP_RUN :: nat where "LOOP_RUN = 3"

text \<open>\<open>digest\<close>: the truncated SHA-256 of the JSON text of action, arguments and result head.\<close>

definition fingerprint :: "(string \<Rightarrow> 'a \<Rightarrow> string \<Rightarrow> string) \<Rightarrow> string \<Rightarrow> 'a \<Rightarrow> string \<Rightarrow> string" where
  "fingerprint digest action args result = digest action args (take 500 result)"

fun words_loop :: "string \<Rightarrow> string \<Rightarrow> string list" where
  "words_loop acc [] = (if acc = [] then [] else [acc])"
| "words_loop acc (c # cs) =
     (if is_ws c then (if acc = [] then [] else [acc]) @ words_loop [] cs else words_loop (acc @ [c]) cs)"

definition words_of :: "string \<Rightarrow> string list" where
  "words_of s = words_loop [] (lowercase s)"

fun grams :: "nat \<Rightarrow> string list \<Rightarrow> string list list" where
  "grams n [] = []"
| "grams n (w # ws) = (if length (w # ws) < n then [] else take n (w # ws) # grams n ws)"

fun count_repeats :: "'a list \<Rightarrow> 'a list \<Rightarrow> nat" where
  "count_repeats seen [] = 0"
| "count_repeats seen (g # gs) = (if g \<in> set seen then 1 else 0) + count_repeats (g # seen) gs"

definition repetitionRatio :: "string \<Rightarrow> nat \<Rightarrow> rat" where
  "repetitionRatio text n =
     (let ws = words_of text; gs = grams n ws in
      if length ws < n * 2 then 0
      else if gs = [] then 0 else of_nat (count_repeats [] gs) / of_nat (length gs))"

datatype screen = ScreenOk | ScreenEmpty | ScreenUnreadable int | ScreenRepeats int

definition is_junk :: "char \<Rightarrow> bool" where
  "is_junk c = (let n = (of_char c :: nat) in n \<le> 8 \<or> n = 11 \<or> n = 12 \<or> 14 \<le> n \<and> n \<le> 31)"

definition degenerationScreen :: "string \<Rightarrow> rat \<Rightarrow> nat \<Rightarrow> screen" where
  "degenerationScreen s maxRepeatRatio minChars =
     (let junk = length (filter is_junk s); ratio = repetitionRatio s 5 in
      if length s < minChars then ScreenEmpty
      else if junk > 0 \<and> of_nat junk / of_nat (length s) > (1 / 100 :: rat)
        then ScreenUnreadable (js_round (of_nat junk / of_nat (length s) * 100))
      else if ratio > maxRepeatRatio then ScreenRepeats (js_round (ratio * 100))
      else ScreenOk)"

section \<open>Jobs\<close>

record lr_entry =
  le_at :: ms
  le_unit :: nat
  le_action :: string
  le_outcome :: string
  le_note :: string
  le_fp :: string
  le_produced :: "string list"
  le_tokens :: nat
  le_costUsd :: rat

record plan_unit =
  pu_unit :: "nat option"      \<comment> \<open>a number carried by the plan itself\<close>
  pu_title :: string

record lr_meta =
  lm_mission :: string
  lm_model :: string
  lm_plan :: "plan_unit list"
  lm_stallMinutes :: rat
  lm_state :: string
  lm_reason :: string
  lm_createdAt :: ms
  lm_updatedAt :: ms

record lr_job =
  lr_meta :: "lr_meta option"           \<comment> \<open>\<open>None\<close>: no readable meta file\<close>
  lr_ledger :: "lr_entry option list"

definition readLedger :: "lr_job \<Rightarrow> lr_entry list" where
  "readLedger j = List.map_filter (\<lambda>l. l) (lr_ledger j)"

definition appendLedger :: "lr_entry \<Rightarrow> lr_job \<Rightarrow> lr_job" where
  "appendLedger e j = j\<lparr>lr_ledger := lr_ledger j @ [Some e]\<rparr>"

text \<open>\<open>None\<close>: the thrown "a job needs a mission line".\<close>

definition createLongJob :: "ms \<Rightarrow> string \<Rightarrow> string \<Rightarrow> plan_unit list \<Rightarrow> jsnum \<Rightarrow> lr_job option" where
  "createLongJob now mission model plan stallMinutes =
     (if js_trim mission = [] then None
      else Some \<lparr>lr_meta = Some
        \<lparr>lm_mission = js_trim mission, lm_model = model, lm_plan = plan,
         lm_stallMinutes = max (1 / 100) (num_or stallMinutes STALL_MINUTES_DEFAULT),
         lm_state = ''ready'', lm_reason = [], lm_createdAt = now, lm_updatedAt = now\<rparr>,
        lr_ledger = []\<rparr>)"

definition setState :: "ms \<Rightarrow> string \<Rightarrow> string \<Rightarrow> lr_job \<Rightarrow> lr_job" where
  "setState now state reason j =
     j\<lparr>lr_meta := map_option (\<lambda>m. m\<lparr>lm_state := state, lm_reason := reason, lm_updatedAt := now\<rparr>) (lr_meta j)\<rparr>"

record progress =
  pg_meta :: lr_meta
  pg_entries :: "lr_entry list"
  pg_done :: "nat list"
  pg_remaining :: "(nat \<times> plan_unit) list"

definition numbered :: "plan_unit list \<Rightarrow> (nat \<times> plan_unit) list" where
  "numbered plan = map (\<lambda>(i, u). (case pu_unit u of None \<Rightarrow> i | Some n \<Rightarrow> n, u)) (enumerate 0 plan)"

definition done_units :: "lr_entry list \<Rightarrow> nat list" where
  "done_units es = remdups (map le_unit (filter (\<lambda>e. le_outcome e = ''done'') es))"

definition progress_of :: "lr_job \<Rightarrow> progress option" where
  "progress_of j = map_option (\<lambda>m.
     \<lparr>pg_meta = m, pg_entries = readLedger j, pg_done = done_units (readLedger j),
      pg_remaining = filter (\<lambda>(n, _). n \<notin> set (done_units (readLedger j))) (numbered (lm_plan m))\<rparr>) (lr_meta j)"

definition listLongJobs :: "(string \<times> lr_job) list \<Rightarrow> lr_meta list" where
  "listLongJobs jobs = sort_key (\<lambda>m. - lm_createdAt m)
     (List.map_filter (\<lambda>(i, j). if take 4 i = ''job-'' then lr_meta j else None) jobs)"

section \<open>The watchdog\<close>

datatype wd_verdict = WdOk | WdLoop string nat | WdTwoStrike nat string | WdStalled int int

definition watchdogVerdict :: "lr_entry list \<Rightarrow> ms \<Rightarrow> ms \<Rightarrow> rat \<Rightarrow> wd_verdict" where
  "watchdogVerdict entries nowMs lastActivityMs stallMs =
     (let tail = slice_last LOOP_RUN entries; last2 = slice_last 2 entries;
          lastAt = max (if entries = [] then 0 else le_at (last entries)) lastActivityMs;
          idle = of_int (nowMs - lastAt)
      in if length tail = LOOP_RUN \<and> list_all (\<lambda>e. le_fp e \<noteq> [] \<and> le_fp e = le_fp (hd tail)) tail
         then WdLoop (if le_action (hd tail) = [] then ''unknown'' else le_action (hd tail)) (le_unit (hd tail))
         else if length last2 = 2
                 \<and> list_all (\<lambda>e. le_outcome e = ''failed'' \<and> le_unit e = le_unit (hd last2)) last2
         then WdTwoStrike (le_unit (hd last2))
                (if le_note (last last2) = [] then ''no detail'' else le_note (last last2))
         else if idle > stallMs then WdStalled (js_round (idle / 60000)) (js_round (stallMs / 60000))
         else WdOk)"

section \<open>The segment runner\<close>

record unit_result =
  ur_text :: string
  ur_error :: string
  ur_produced :: "string list"
  ur_tokens :: nat
  ur_costUsd :: rat
  ur_note :: string

datatype raced = RacedStalled | RacedThrew string | RacedReturned unit_result

text \<open>What one round reads.  \<open>rd_first\<close> and \<open>rd_second\<close> are the two attempts at the unit.\<close>

record round =
  rd_now :: ms
  rd_budget :: "rat option"      \<comment> \<open>\<open>None\<close>: \<open>Infinity\<close>\<close>
  rd_first :: raced
  rd_second :: raced
  rd_pause :: "string option"    \<comment> \<open>a pause requested while the unit was running\<close>
  rd_now2 :: ms

datatype run_result =
  RunMissing
| RunAlready string string             \<comment> \<open>state, reason\<close>
| RunDone nat
| RunPaused string
| RunPausedUnit string nat
| RunHalted wd_verdict
| RunStalledUnit string

type_synonym validator = "unit_result \<Rightarrow> nat \<times> plan_unit \<Rightarrow> string option"   \<comment> \<open>\<open>None\<close>: accepted\<close>

definition show_verdict :: "wd_verdict \<Rightarrow> string" where
  "show_verdict wd = (case wd of
     WdOk \<Rightarrow> ''ok''
   | WdLoop action unit \<Rightarrow> ''loop: the last '' @ show_nat LOOP_RUN
       @ '' steps were identical (same action, same result). Step: '' @ action @ '' on unit '' @ show_nat unit
   | WdTwoStrike unit note \<Rightarrow> ''two-strike: unit '' @ show_nat unit @ '' failed twice ('' @ note
       @ ''). Stopping to classify instead of thrashing''
   | WdStalled idle clock \<Rightarrow> ''stalled: no progress in '' @ show_int idle @ '' minutes (stall clock is ''
       @ show_int clock @ '')'')"

text \<open>What the loop calls: the digest, the number-to-text conversion of the platform, the validator.\<close>

record lr_deps =
  dp_digest :: "string \<Rightarrow> nat \<times> plan_unit \<Rightarrow> string \<Rightarrow> string"
  dp_text :: "rat \<Rightarrow> string"
  dp_validate :: "unit_result \<Rightarrow> nat \<times> plan_unit \<Rightarrow> string option"

text \<open>The default validator.\<close>

definition show_screen :: "screen \<Rightarrow> string option" where
  "show_screen sc = (case sc of
     ScreenOk \<Rightarrow> None
   | ScreenEmpty \<Rightarrow> Some ''empty output where content was promised''
   | ScreenUnreadable pct \<Rightarrow> Some (''output is '' @ show_int pct @ ''% unreadable bytes (encoding failure)'')
   | ScreenRepeats pct \<Rightarrow> Some (''output repeats itself ('' @ show_int pct
       @ ''% repeated phrases); this is the gibberish signature, so the unit does not count''))"

definition screen_result :: validator where
  "screen_result r u = show_screen (degenerationScreen (ur_text r) (35 / 100) 1)"

datatype attempt = AttemptStalled | AttemptRefused string | AttemptOk unit_result

definition judge :: "validator \<Rightarrow> nat \<times> plan_unit \<Rightarrow> raced \<Rightarrow> attempt" where
  "judge validate u r =
     (case r of
        RacedStalled \<Rightarrow> AttemptStalled
      | RacedThrew err \<Rightarrow> AttemptRefused err
      | RacedReturned res \<Rightarrow>
          if ur_error res \<noteq> [] then AttemptRefused (ur_error res)
          else case validate res u of None \<Rightarrow> AttemptOk res | Some why \<Rightarrow> AttemptRefused why)"

definition stall_of :: "lr_meta \<Rightarrow> rat" where
  "stall_of m = lm_stallMinutes m * 60000"

definition unit_title :: "nat \<times> plan_unit \<Rightarrow> string" where
  "unit_title u = (if pu_title (snd u) = [] then ''unit'' else pu_title (snd u))"

definition failed_entry ::
  "lr_deps \<Rightarrow> ms \<Rightarrow> nat \<times> plan_unit \<Rightarrow> string \<Rightarrow> lr_entry" where
  "failed_entry deps now u note =
     \<lparr>le_at = now, le_unit = fst u, le_action = unit_title u, le_outcome = ''failed'', le_note = note,
      le_fp = fingerprint (dp_digest deps) (pu_title (snd u)) u note, le_produced = [], le_tokens = 0, le_costUsd = 0\<rparr>"

definition done_entry ::
  "lr_deps \<Rightarrow> ms \<Rightarrow> nat \<times> plan_unit \<Rightarrow> unit_result \<Rightarrow> lr_entry" where
  "done_entry deps now u r =
     \<lparr>le_at = now, le_unit = fst u, le_action = unit_title u, le_outcome = ''done'', le_note = ur_note r,
      le_fp = fingerprint (dp_digest deps) (pu_title (snd u)) u (ur_text r), le_produced = ur_produced r,
      le_tokens = ur_tokens r, le_costUsd = ur_costUsd r\<rparr>"

definition paused_meanwhile :: "round \<Rightarrow> lr_job \<Rightarrow> lr_job" where
  "paused_meanwhile rd j = (case rd_pause rd of None \<Rightarrow> j | Some why \<Rightarrow> setState (rd_now2 rd) ''paused'' why j)"

definition stall_halt :: "lr_deps \<Rightarrow> lr_meta \<Rightarrow> round \<Rightarrow> nat \<times> plan_unit \<Rightarrow> lr_job \<Rightarrow> run_result option \<times> lr_job" where
  "stall_halt deps m rd u j =
     (let detail = ''unit '' @ show_nat (fst u) @ '' produced nothing for '' @ dp_text deps (lm_stallMinutes m)
        @ '' minutes (the stall clock). The step was abandoned, nothing was recorded for it''
      in (Some (RunStalledUnit detail), setState (rd_now2 rd) ''halted'' (''stalled: '' @ detail) j))"

text \<open>The second attempt also failed: one failed line, then the watchdog, then a pause.\<close>

definition refuse_twice ::
  "lr_deps \<Rightarrow> ms \<Rightarrow> lr_meta \<Rightarrow> round \<Rightarrow> nat \<times> plan_unit \<Rightarrow> string
    \<Rightarrow> lr_job \<Rightarrow> run_result option \<times> lr_job" where
  "refuse_twice deps startedAt m rd u note j =
     (let j1 = appendLedger (failed_entry deps (rd_now2 rd) u note) j;
          wd = watchdogVerdict (readLedger j1) (rd_now2 rd) startedAt (stall_of m)
      in if wd \<noteq> WdOk then (Some (RunHalted wd), setState (rd_now2 rd) ''halted'' (show_verdict wd) j1)
         else (Some (RunPausedUnit note (fst u)), setState (rd_now2 rd) ''paused''
                (''unit '' @ show_nat (fst u) @ '' failed validation twice: '' @ note) j1))"

definition accept_unit ::
  "lr_deps \<Rightarrow> round \<Rightarrow> nat \<times> plan_unit \<Rightarrow> unit_result
    \<Rightarrow> lr_job \<Rightarrow> run_result option \<times> lr_job" where
  "accept_unit deps rd u r j = (None, appendLedger (done_entry deps (rd_now2 rd) u r) j)"

text \<open>One round of the loop; \<open>None\<close> says that the loop goes on.\<close>

definition run_round ::
  "lr_deps \<Rightarrow> ms \<Rightarrow> round \<Rightarrow> lr_job
    \<Rightarrow> run_result option \<times> lr_job" where
  "run_round deps startedAt rd j =
     (case progress_of j of
        None \<Rightarrow> (Some RunMissing, j)
      | Some p \<Rightarrow>
          if lm_state (pg_meta p) = ''paused'' then
            (Some (RunPaused (if lm_reason (pg_meta p) = [] then ''paused by request'' else lm_reason (pg_meta p))), j)
          else case pg_remaining p of
            [] \<Rightarrow> (Some (RunDone (length (pg_done p))), setState (rd_now rd) ''done'' [] j)
          | u # _ \<Rightarrow>
              let wd = watchdogVerdict (pg_entries p) (rd_now rd) startedAt (stall_of (pg_meta p)) in
              if wd \<noteq> WdOk then (Some (RunHalted wd), setState (rd_now rd) ''halted'' (show_verdict wd) j)
              else if (case rd_budget rd of None \<Rightarrow> False | Some b \<Rightarrow> b \<le> 0) then
                (Some (RunPaused ''budget tranche exhausted''),
                 setState (rd_now rd) ''paused''
                   ''budget tranche exhausted; approve the next tranche to continue (D2: the fuse pauses, it never kills)'' j)
              else
                let j' = paused_meanwhile rd j in
                case judge (dp_validate deps) u (rd_first rd) of
                  AttemptStalled \<Rightarrow> stall_halt deps (pg_meta p) rd u j'
                | AttemptOk r \<Rightarrow> accept_unit deps rd u r j'
                | AttemptRefused _ \<Rightarrow>
                    (case judge (dp_validate deps) u (rd_second rd) of
                       AttemptStalled \<Rightarrow> stall_halt deps (pg_meta p) rd u j'
                     | AttemptOk r \<Rightarrow> accept_unit deps rd u r j'
                     | AttemptRefused note \<Rightarrow> refuse_twice deps startedAt (pg_meta p) rd u note j'))"

fun run_rounds ::
  "lr_deps \<Rightarrow> ms \<Rightarrow> round list \<Rightarrow> lr_job
    \<Rightarrow> run_result option \<times> lr_job" where
  "run_rounds deps startedAt [] j = (None, j)"
| "run_rounds deps startedAt (rd # rds) j =
     (case run_round deps startedAt rd j of
        (Some res, j') \<Rightarrow> (Some res, j')
      | (None, j') \<Rightarrow> run_rounds deps startedAt rds j')"

text \<open>\<open>None\<close> as the result: the rounds given did not suffice.\<close>

definition runJob ::
  "lr_deps \<Rightarrow> ms \<Rightarrow> round list \<Rightarrow> lr_job
    \<Rightarrow> run_result option \<times> lr_job" where
  "runJob deps now rds j =
     (case lr_meta j of
        None \<Rightarrow> (Some RunMissing, j)
      | Some m \<Rightarrow>
          if lm_state m = ''done'' then (Some (RunAlready ''done'' ''already complete''), j)
          else if lm_state m \<noteq> ''ready'' \<and> lm_state m \<noteq> ''running''
            then (Some (RunAlready (lm_state m) (''job is '' @ lm_state m @ '' (''
                   @ (if lm_reason m = [] then ''no reason recorded'' else lm_reason m) @ ''); resume it first'')), j)
          else run_rounds deps now rds (setState now ''running'' [] j))"

definition resumeJob :: "ms \<Rightarrow> lr_job \<Rightarrow> lr_job" where
  "resumeJob now j =
     (case lr_meta j of
        None \<Rightarrow> j
      | Some m \<Rightarrow> if lm_state m = ''done'' then j
                  else setState now ''ready'' ''resumed; ledger is the memory, nothing was lost'' j)"

definition pauseJob :: "ms \<Rightarrow> string \<Rightarrow> lr_job \<Rightarrow> lr_job" where
  "pauseJob now why = setState now ''paused'' (if why = [] then ''paused by request'' else why)"

section \<open>Lemmas\<close>

lemma readLedger_append [simp]: "readLedger (appendLedger e j) = readLedger j @ [e]"
  by (simp add: readLedger_def appendLedger_def map_filter_def)

lemma readLedger_setState [simp]: "readLedger (setState t s r j) = readLedger j"
  by (simp add: readLedger_def setState_def)

lemma lr_ledger_sel [simp]:
  "lr_ledger (setState t s r j) = lr_ledger j" "lr_ledger (paused_meanwhile rd j) = lr_ledger j"
  "lr_ledger (appendLedger e j) = lr_ledger j @ [Some e]"
  by (simp_all add: setState_def paused_meanwhile_def appendLedger_def split: option.splits)

lemma readLedger_paused [simp]: "readLedger (paused_meanwhile rd j) = readLedger j"
  by (simp add: readLedger_def)

definition plan_of :: "lr_job \<Rightarrow> plan_unit list" where
  "plan_of j = (case lr_meta j of None \<Rightarrow> [] | Some m \<Rightarrow> lm_plan m)"

lemma plan_of_setState [simp]: "plan_of (setState t s r j) = plan_of j"
  by (simp add: plan_of_def setState_def split: option.splits)

lemma plan_of_sel [simp]:
  "plan_of (appendLedger e j) = plan_of j" "plan_of (paused_meanwhile rd j) = plan_of j"
  by (simp add: plan_of_def appendLedger_def) (simp add: paused_meanwhile_def split: option.splits)

definition units_left :: "plan_unit list \<Rightarrow> lr_entry list \<Rightarrow> (nat \<times> plan_unit) list" where
  "units_left plan es = filter (\<lambda>(n, _). n \<notin> set (done_units es)) (numbered plan)"

abbreviation todo :: "lr_job \<Rightarrow> (nat \<times> plan_unit) list" where
  "todo j \<equiv> units_left (plan_of j) (readLedger j)"

lemma set_done_snoc:
  "set (done_units (es @ [e])) = set (done_units es) \<union> (if le_outcome e = ''done'' then {le_unit e} else {})"
  by (simp add: done_units_def)

lemma todo_accept:
  assumes "todo j = u # us"
  shows "length (todo (appendLedger (done_entry deps t u r) j)) < length (todo j)"
proof -
  have "set (done_units (readLedger (appendLedger (done_entry deps t u r) j)))
    = set (done_units (readLedger j)) \<union> {fst u}"
    by (simp add: set_done_snoc done_entry_def)
  then have "todo (appendLedger (done_entry deps t u r) j) = filter (\<lambda>v. fst v \<noteq> fst u) (todo j)"
    by (auto simp: units_left_def case_prod_beta intro: filter_cong)
  then show ?thesis using assms by (simp add: le_imp_less_Suc)
qed

text \<open>What a round earns for its unit: the first attempt that returned without an error and passed the
  validator.  A stall ends the round.\<close>

definition passes :: "validator \<Rightarrow> nat \<times> plan_unit \<Rightarrow> unit_result \<Rightarrow> bool" where
  "passes validate u r = (ur_error r = [] \<and> validate r u = None)"

definition second_pass :: "validator \<Rightarrow> nat \<times> plan_unit \<Rightarrow> raced \<Rightarrow> unit_result option" where
  "second_pass validate u rc =
     (case rc of RacedReturned r \<Rightarrow> if passes validate u r then Some r else None | _ \<Rightarrow> None)"

definition passed :: "validator \<Rightarrow> nat \<times> plan_unit \<Rightarrow> round \<Rightarrow> unit_result option" where
  "passed validate u rd =
     (case rd_first rd of
        RacedStalled \<Rightarrow> None
      | RacedThrew _ \<Rightarrow> second_pass validate u (rd_second rd)
      | RacedReturned r \<Rightarrow> if passes validate u r then Some r else second_pass validate u (rd_second rd))"

text \<open>The line a round may append for its unit: \<open>done\<close>, with what was earned, when something was, and otherwise
  a failed line.\<close>

definition round_line :: "lr_deps \<Rightarrow> nat \<times> plan_unit \<Rightarrow> round \<Rightarrow> lr_entry \<Rightarrow> bool" where
  "round_line deps u rd e =
     (case passed (dp_validate deps) u rd of
        Some r \<Rightarrow> e = done_entry deps (rd_now2 rd) u r
      | None \<Rightarrow> \<exists>note. e = failed_entry deps (rd_now2 rd) u note)"

text \<open>The lines of a run: the first by its first round, for the first unit then left of the plan, and so on.\<close>

fun accounts :: "lr_deps \<Rightarrow> plan_unit list \<Rightarrow> lr_entry list \<Rightarrow> round list \<Rightarrow> lr_entry list \<Rightarrow> bool" where
  "accounts deps plan old rds [] = True"
| "accounts deps plan old [] (e # es) = False"
| "accounts deps plan old (rd # rds) (e # es) =
     (units_left plan old \<noteq> [] \<and> round_line deps (hd (units_left plan old)) rd e
      \<and> accounts deps plan (old @ [e]) rds es)"

lemma judge_second: "judge validate u rc = AttemptOk r \<longleftrightarrow> second_pass validate u rc = Some r"
  by (auto simp: judge_def second_pass_def passes_def split: raced.splits option.splits)

lemma judge_first:
  "judge validate u (rd_first rd) = AttemptOk r \<Longrightarrow> passed validate u rd = Some r"
  "judge validate u (rd_first rd) = AttemptRefused why \<Longrightarrow>
     passed validate u rd = second_pass validate u (rd_second rd)"
  by (auto simp: judge_def passed_def passes_def split: raced.splits option.splits if_splits)

lemma entry_outcomes [simp]:
  "le_outcome (done_entry deps t u r) = ''done''" "le_outcome (failed_entry deps t u note) = ''failed''"
  by (simp_all add: done_entry_def failed_entry_def)

text \<open>What a round may do to the job.\<close>

definition round_ok :: "lr_deps \<Rightarrow> round \<Rightarrow> lr_job \<Rightarrow> run_result option \<Rightarrow> lr_job \<Rightarrow> bool" where
  "round_ok deps rd j out j' \<longleftrightarrow>
     plan_of j' = plan_of j
     \<and> (\<exists>es. readLedger j' = readLedger j @ es \<and> length es \<le> 1 \<and> accounts deps (plan_of j) (readLedger j) [rd] es
          \<and> (out = None \<longrightarrow> length es = 1 \<and> list_all (\<lambda>e. le_outcome e = ''done'') es))
     \<and> (out = None \<longrightarrow> length (todo j') < length (todo j))
     \<and> (\<forall>n. out = Some (RunDone n) \<longrightarrow> todo j' = [])"

lemma round_ok_stop:
  "readLedger j' = readLedger j \<Longrightarrow> plan_of j' = plan_of j \<Longrightarrow> todo j' = [] \<or> (\<forall>n. res \<noteq> RunDone n)
    \<Longrightarrow> round_ok validate rd j (Some res) j'"
  by (auto simp: round_ok_def)

lemma round_ok_accept:
  assumes "todo j = u # us" and "passed (dp_validate deps) u rd = Some r"
  shows "round_ok deps rd j (fst (accept_unit deps rd u r (paused_meanwhile rd j)))
           (snd (accept_unit deps rd u r (paused_meanwhile rd j)))"
proof -
  let ?j = "paused_meanwhile rd j" and ?e = "done_entry deps (rd_now2 rd) u r"
  have "length (todo (appendLedger ?e ?j)) < length (todo j)"
    using todo_accept [of ?j u us] assms(1) by simp
  moreover have "accounts deps (plan_of j) (readLedger j) [rd] [?e]"
    using assms by (simp add: round_line_def)
  ultimately show ?thesis by (simp add: round_ok_def accept_unit_def)
qed

lemma round_ok_stall:
  "round_ok deps rd j (fst (stall_halt deps m rd u (paused_meanwhile rd j)))
     (snd (stall_halt deps m rd u (paused_meanwhile rd j)))"
  by (simp add: stall_halt_def Let_def round_ok_stop)

lemma round_ok_refuse:
  assumes "todo j = u # us" and "passed (dp_validate deps) u rd = None"
  shows "round_ok deps rd j (fst (refuse_twice deps t m rd u note (paused_meanwhile rd j)))
     (snd (refuse_twice deps t m rd u note (paused_meanwhile rd j)))"
proof -
  have "accounts deps (plan_of j) (readLedger j) [rd] [failed_entry deps (rd_now2 rd) u note]"
    using assms by (auto simp: round_line_def)
  then show ?thesis by (simp add: refuse_twice_def Let_def round_ok_def)
qed

lemma run_round_ok:
  "round_ok deps rd j (fst (run_round deps startedAt rd j)) (snd (run_round deps startedAt rd j))"
proof (cases "lr_meta j")
  case None
  then show ?thesis by (simp add: run_round_def progress_of_def round_ok_stop)
next
  case (Some m)
  let ?p = "\<lparr>pg_meta = m, pg_entries = readLedger j, pg_done = done_units (readLedger j), pg_remaining = todo j\<rparr>"
  have p: "progress_of j = Some ?p" using Some by (simp add: progress_of_def units_left_def plan_of_def)
  show ?thesis
  proof (cases "lm_state m = ''paused''")
    case True
    then show ?thesis by (simp add: run_round_def p round_ok_stop)
  next
    case live: False
    show ?thesis
    proof (cases "todo j")
      case Nil
      then show ?thesis using live by (simp add: run_round_def p round_ok_stop)
    next
      case (Cons u us)
      note acc = round_ok_accept [where deps = deps, OF Cons] and ref = round_ok_refuse [where deps = deps, OF Cons]
      show ?thesis
      proof (cases "judge (dp_validate deps) u (rd_first rd)")
        case first: (AttemptRefused why)
        show ?thesis
        proof (cases "judge (dp_validate deps) u (rd_second rd)")
          case (AttemptRefused why2)
          then have "second_pass (dp_validate deps) u (rd_second rd) = None"
            using judge_second [of "dp_validate deps" u "rd_second rd"] by (metis attempt.distinct(5) option.exhaust)
          then show ?thesis
            using live Cons ref first AttemptRefused judge_first(2)
            by (simp add: run_round_def p Let_def round_ok_stop)
        next
          case (AttemptOk r)
          then have "passed (dp_validate deps) u rd = Some r" using first judge_first(2) judge_second by metis
          then show ?thesis
            using live Cons acc first AttemptOk by (simp add: run_round_def p Let_def round_ok_stop)
        qed (use live Cons first round_ok_stall in \<open>simp add: run_round_def p Let_def round_ok_stop\<close>)
      qed (use live Cons acc round_ok_stall judge_first(1) in \<open>simp_all add: run_round_def p Let_def round_ok_stop\<close>)
    qed
  qed
qed

section \<open>Whole runs\<close>

lemma accounts_more: "accounts deps plan old rds es \<Longrightarrow> accounts deps plan old (rds @ rds') es"
  by (induction deps plan old rds es rule: accounts.induct) auto

text \<open>A failed line is the last one.\<close>

definition earned_until_last :: "lr_entry list \<Rightarrow> bool" where
  "earned_until_last es = list_all (\<lambda>e. le_outcome e = ''done'') (butlast es)"

lemma run_rounds_ok:
  "let (out, j') = run_rounds deps startedAt rds j in
     plan_of j' = plan_of j
     \<and> (\<exists>es. readLedger j' = readLedger j @ es \<and> accounts deps (plan_of j) (readLedger j) rds es
          \<and> earned_until_last es)
     \<and> (\<forall>n. out = Some (RunDone n) \<longrightarrow> todo j' = [])
     \<and> (length (todo j) < length rds \<longrightarrow> out \<noteq> None)"
proof (induction rds arbitrary: j)
  case Nil
  then show ?case by (simp add: earned_until_last_def)
next
  case (Cons rd rds)
  obtain out j1 where r: "run_round deps startedAt rd j = (out, j1)" by (metis surj_pair)
  then have ok: "round_ok deps rd j out j1"
    using run_round_ok [of deps rd j startedAt] by simp
  then obtain es where es: "readLedger j1 = readLedger j @ es" "accounts deps (plan_of j) (readLedger j) [rd] es"
    "length es \<le> 1" "out = None \<longrightarrow> length es = 1 \<and> list_all (\<lambda>e. le_outcome e = ''done'') es"
    by (auto simp: round_ok_def)
  show ?case
  proof (cases out)
    case (Some res)
    have "earned_until_last es" using es(3) by (cases es) (auto simp: earned_until_last_def)
    then show ?thesis using ok es accounts_more [OF es(2), of rds] r Some by (auto simp: round_ok_def)
  next
    case None
    then obtain e where e: "es = [e]" "le_outcome e = ''done''" using es(4) by (cases es) auto
    obtain out2 j2 where r2: "run_rounds deps startedAt rds j1 = (out2, j2)" by (metis surj_pair)
    have plan: "plan_of j1 = plan_of j" using ok by (simp add: round_ok_def)
    obtain es2 where es2: "readLedger j2 = readLedger j1 @ es2"
      "accounts deps (plan_of j) (readLedger j1) rds es2" "earned_until_last es2"
      using Cons.IH [of j1] r2 plan by auto
    have "accounts deps (plan_of j) (readLedger j) (rd # rds) (e # es2)" using es(1,2) e es2(2) by simp
    moreover have "earned_until_last (e # es2)" using e(2) es2(3) by (simp add: earned_until_last_def)
    ultimately have "\<exists>es. readLedger j2 = readLedger j @ es \<and> accounts deps (plan_of j) (readLedger j) (rd # rds) es
        \<and> earned_until_last es"
      using es(1) e(1) es2(1) by (intro exI [of _ "e # es2"]) simp
    then show ?thesis using ok None Cons.IH [of j1] r r2 plan by (auto simp: round_ok_def)
  qed
qed

text \<open>C34: A run of a long job always comes to an end: a run that is given more rounds than the plan has
  units left returns.  It only ever appends to the ledger, at most one line a round: the line of a round is for the
  first unit then left of the plan, and says \<open>done\<close>, with what was produced, exactly when one of the round's
  two attempts at this unit returned without an error and passed the validator; otherwise it says that
  the unit failed, and the run ends there.  When the run reports that the job is done, every
  unit of the plan has a \<open>done\<close> line in the ledger.  A later resume or pause leaves the ledger as it is.\<close>

theorem long_run_earns_its_ledger:
  assumes run: "runJob deps now rds j = (out, j')"
  shows "(length (units_left (plan_of j) (readLedger j)) < length rds \<longrightarrow> out \<noteq> None)
    \<and> (\<exists>es. readLedger j' = readLedger j @ es \<and> accounts deps (plan_of j) (readLedger j) rds es
         \<and> earned_until_last es)
    \<and> (out = Some (RunDone n) \<longrightarrow> (\<forall>u \<in> set (numbered (plan_of j')). fst u \<in> set (done_units (readLedger j'))))
    \<and> readLedger (resumeJob t j') = readLedger j' \<and> readLedger (pauseJob t why j') = readLedger j'"
proof -
  have A: "(length (todo j) < length rds \<longrightarrow> out \<noteq> None)
    \<and> (\<exists>es. readLedger j' = readLedger j @ es \<and> accounts deps (plan_of j) (readLedger j) rds es
         \<and> earned_until_last es)
    \<and> (out = Some (RunDone n) \<longrightarrow> todo j' = [])"
  proof (cases "\<exists>m. lr_meta j = Some m \<and> (lm_state m = ''ready'' \<or> lm_state m = ''running'')")
    case True
    then have "run_rounds deps now rds (setState now ''running'' [] j) = (out, j')"
      using run by (auto simp: runJob_def)
    then show ?thesis using run_rounds_ok [of deps now rds "setState now ''running'' [] j"] by auto
  next
    case False
    then show ?thesis using run
      by (intro conjI exI [of _ "[]"]) (auto simp: runJob_def earned_until_last_def split: option.splits if_splits)
  qed
  have "todo j' = [] \<longrightarrow> (\<forall>u \<in> set (numbered (plan_of j')). fst u \<in> set (done_units (readLedger j')))"
    by (auto simp: units_left_def filter_empty_conv)
  moreover have "readLedger (resumeJob t j') = readLedger j' \<and> readLedger (pauseJob t why j') = readLedger j'"
    by (simp add: resumeJob_def pauseJob_def split: option.splits)
  ultimately show ?thesis using A by blast
qed

definition demo_deps :: lr_deps where
  "demo_deps = \<lparr>dp_digest = (\<lambda>a u s. a @ s), dp_text = (\<lambda>x. show_int \<lfloor>x\<rfloor>), dp_validate = screen_result\<rparr>"

definition demo_round :: "string \<Rightarrow> round" where
  "demo_round s = (let r = RacedReturned \<lparr>ur_text = s, ur_error = [], ur_produced = [], ur_tokens = 10, ur_costUsd = 0, ur_note = []\<rparr>
     in \<lparr>rd_now = 1000, rd_budget = None, rd_first = RacedThrew ''timeout'', rd_second = r, rd_pause = None, rd_now2 = 2000\<rparr>)"

definition demo_job :: lr_job where
  "demo_job = (case createLongJob 0 ''write a saga'' [] [\<lparr>pu_unit = None, pu_title = ''one''\<rparr>, \<lparr>pu_unit = None, pu_title = ''two''\<rparr>] None
     of Some j \<Rightarrow> j | None \<Rightarrow> \<lparr>lr_meta = None, lr_ledger = []\<rparr>)"

theorem long_run_earns_its_ledger_witness:
  "let rds = map demo_round [''alpha'', ''beta'', ''gamma'']; (out, j') = runJob demo_deps 500 rds demo_job in
     out = Some (RunDone 2) \<and> (\<forall>u \<in> set (numbered (plan_of j')). fst u \<in> set (done_units (readLedger j')))"
proof -
  let ?rds = "map demo_round [''alpha'', ''beta'', ''gamma'']"
  obtain out j' where run: "runJob demo_deps 500 ?rds demo_job = (out, j')" by (metis surj_pair)
  have "fst (runJob demo_deps 500 ?rds demo_job) = Some (RunDone 2)" by code_simp
  then have "out = Some (RunDone 2)" by (simp only: run fst_conv)
  then show ?thesis using long_run_earns_its_ledger [OF run, of 2 0 "[]"] unfolding Let_def run by blast
qed

end
