(* ===== verification/WorkSorter.thy ===== *)
theory WorkSorter
  imports Prelude
begin

text \<open>
  \<open>worksorter.mjs\<close>: the first work order, which sorts the loose files of a folder into subfolders,
  and the script that undoes it.  The folder is a table from places to entries: \<open>(None, n)\<close> is the
  name \<open>n\<close> directly in the root, \<open>(Some d, n)\<close> the name \<open>n\<close> in the subfolder \<open>d\<close>.  Names that the
  file system identifies are one name.  Which files are held open by another program is a parameter.
\<close>

section \<open>Categories\<close>

definition SORT_CATEGORIES :: "(string \<times> string list) list" where
  "SORT_CATEGORIES =
    [(''Images'', [''jpg'', ''jpeg'', ''png'', ''gif'', ''bmp'', ''webp'', ''heic'', ''heif'', ''tif'', ''tiff'', ''svg'',
        ''ico'', ''raw'', ''cr2'', ''nef'']),
     (''Documents'', [''pdf'', ''doc'', ''docx'', ''txt'', ''md'', ''rtf'', ''odt'', ''pages'', ''epub'', ''mobi'']),
     (''Spreadsheets'', [''xls'', ''xlsx'', ''csv'', ''ods'', ''numbers'', ''tsv'']),
     (''Presentations'', [''ppt'', ''pptx'', ''odp'', ''key'']),
     (''Archives'', [''zip'', ''rar'', ''7z'', ''tar'', ''gz'', ''bz2'', ''xz'', ''iso'']),
     (''Video'', [''mp4'', ''mov'', ''avi'', ''mkv'', ''wmv'', ''flv'', ''webm'', ''m4v'', ''mpg'', ''mpeg'']),
     (''Audio'', [''mp3'', ''wav'', ''flac'', ''aac'', ''ogg'', ''m4a'', ''wma'', ''aiff'']),
     (''Installers'', [''exe'', ''msi'', ''dmg'', ''pkg'', ''appx'', ''deb'', ''rpm'']),
     (''Code'', [''js'', ''mjs'', ''ts'', ''tsx'', ''jsx'', ''py'', ''rb'', ''go'', ''rs'', ''java'', ''c'', ''h'', ''cpp'',
        ''cs'', ''php'', ''sh'', ''ps1'', ''sql'', ''json'', ''xml'', ''yaml'', ''yml'', ''html'', ''css''])]"

definition SORT_FOLDERS :: "string list" where
  "SORT_FOLDERS = map fst SORT_CATEGORIES @ [''Other'']"

text \<open>The generated extension table.\<close>

definition ext2folder :: "string \<Rightarrow> string option" where
  "ext2folder e = map_of (concat (map (\<lambda>(folder, exts). map (\<lambda>x. (x, folder)) exts) SORT_CATEGORIES)) e"

text \<open>\<open>Extension\<close> (with its dot, empty when the name has none) and \<open>GetFileNameWithoutExtension\<close>.\<close>

definition extension :: "string \<Rightarrow> string" where
  "extension n = (let r = takeWhile (\<lambda>c. c \<noteq> CHR ''.'') (rev n) in
     if length r = length n \<or> r = [] then [] else CHR ''.'' # rev r)"

definition base_name :: "string \<Rightarrow> string" where
  "base_name n = (let r = takeWhile (\<lambda>c. c \<noteq> CHR ''.'') (rev n) in
     if length r = length n then n else take (length n - length r - 1) n)"

definition folder_for :: "string \<Rightarrow> string" where
  "folder_for n =
     (let e = lowercase (dropWhile (\<lambda>c. c = CHR ''.'') (extension n)) in
      if e = [] then ''Other'' else case ext2folder e of None \<Rightarrow> ''Other'' | Some d \<Rightarrow> d)"

section \<open>The sorting script\<close>

record file_attrs =
  fa_hidden :: bool
  fa_system :: bool
  fa_readonly :: bool

datatype entry = FileE file_attrs string | DirE

type_synonym place = "string option \<times> string"
type_synonym folder_fs = "(place \<times> entry) list"

definition test_path :: "folder_fs \<Rightarrow> place \<Rightarrow> bool" where
  "test_path fs p = (map_of fs p \<noteq> None)"

definition move_item :: "place \<Rightarrow> place \<Rightarrow> folder_fs \<Rightarrow> folder_fs" where
  "move_item src dst fs = (case map_of fs src of None \<Rightarrow> fs | Some e \<Rightarrow> AList.update dst e (AList.delete src fs))"

record sort_cfg =
  sc_dryRun :: bool
  sc_maxFiles :: rat
  sc_locked :: "place \<Rightarrow> bool"

record sort_state =
  so_fs :: folder_fs
  so_moved :: "(place \<times> place) list"
  so_skipped :: "(string \<times> string) list"
  so_created :: "string list"
  so_scanned :: nat
  so_capped :: bool
  so_error :: "string option"

text \<open>\<open>Get-ChildItem -File -Force\<close>: the immediate files.\<close>

definition loose_files :: "folder_fs \<Rightarrow> (string \<times> file_attrs) list" where
  "loose_files fs = List.map_filter (\<lambda>(p, e). case e of
     FileE a _ \<Rightarrow> if fst p = None then Some (snd p, a) else None | DirE \<Rightarrow> None) fs"

definition numbered_name :: "string \<Rightarrow> nat \<Rightarrow> string" where
  "numbered_name n k = base_name n @ '' ('' @ show_nat k @ '')'' @ extension n"

text \<open>The collision loop: \<open>k\<close> is the next number, the loop stops when it passes 999.\<close>

function free_loop :: "folder_fs \<Rightarrow> string \<Rightarrow> string \<Rightarrow> nat \<Rightarrow> place \<Rightarrow> place" where
  "free_loop fs d n k target =
     (if test_path fs target \<and> k \<le> 999 then free_loop fs d n (k + 1) (Some d, numbered_name n k) else target)"
  by pat_completeness auto
termination by (relation "measure (\<lambda>(_, _, _, k, _). 1000 - k)") auto

declare free_loop.simps [simp del]

definition free_target :: "folder_fs \<Rightarrow> string \<Rightarrow> string \<Rightarrow> place option" where
  "free_target fs d n =
     (let target = free_loop fs d n 2 (Some d, n) in if test_path fs target then None else Some target)"

definition skip :: "string \<Rightarrow> string \<Rightarrow> sort_state \<Rightarrow> sort_state" where
  "skip n why s = s\<lparr>so_skipped := so_skipped s @ [(n, why)]\<rparr>"

text \<open>\<open>New-Item -ItemType Directory\<close> fails on a name that a file has, and that failure ends the run.\<close>

definition ensure_dir :: "string \<Rightarrow> sort_state \<Rightarrow> sort_state" where
  "ensure_dir d s =
     (case map_of (so_fs s) (None, d) of
        Some DirE \<Rightarrow> s
      | Some (FileE _ _) \<Rightarrow> s\<lparr>so_error := Some (''An item with the specified name '' @ d @ '' already exists.'')\<rparr>
      | None \<Rightarrow> s\<lparr>so_fs := AList.update (None, d) DirE (so_fs s),
                  so_created := so_created s @ (if d \<in> set (so_created s) then [] else [d])\<rparr>)"

definition move_file :: "sort_cfg \<Rightarrow> string \<Rightarrow> place \<Rightarrow> sort_state \<Rightarrow> sort_state" where
  "move_file cfg n target s =
     (if sc_locked cfg (None, n) then skip n ''could not move: the file is in use'' s
      else s\<lparr>so_fs := move_item (None, n) target (so_fs s), so_moved := so_moved s @ [((None, n), target)]\<rparr>)"

definition sort_file :: "sort_cfg \<Rightarrow> string \<times> file_attrs \<Rightarrow> sort_state \<Rightarrow> sort_state" where
  "sort_file cfg f s =
     (let n = fst f; a = snd f; d = folder_for n in
      if fa_hidden a then skip n ''hidden'' s
      else if fa_system a then skip n ''system'' s
      else if fa_readonly a then skip n ''read-only'' s
      else case free_target (so_fs s) d n of
             None \<Rightarrow> skip n ''too many name collisions'' s
           | Some target \<Rightarrow>
               if sc_dryRun cfg then s\<lparr>so_moved := so_moved s @ [((None, n), target)]\<rparr>
               else let s1 = ensure_dir d s in
                    if so_error s1 \<noteq> None then s1 else move_file cfg n target s1)"

fun sort_loop :: "sort_cfg \<Rightarrow> (string \<times> file_attrs) list \<Rightarrow> sort_state \<Rightarrow> sort_state" where
  "sort_loop cfg [] s = s"
| "sort_loop cfg (f # fs) s =
     (if of_nat (so_scanned s) \<ge> sc_maxFiles cfg then s\<lparr>so_capped := True\<rparr>
      else let s1 = sort_file cfg f (s\<lparr>so_scanned := so_scanned s + 1\<rparr>) in
           if so_error s1 \<noteq> None then s1 else sort_loop cfg fs s1)"

definition sort_start :: "folder_fs \<Rightarrow> sort_state" where
  "sort_start fs = \<lparr>so_fs = fs, so_moved = [], so_skipped = [], so_created = [], so_scanned = 0,
                   so_capped = False, so_error = None\<rparr>"

definition sort_folder :: "sort_cfg \<Rightarrow> folder_fs \<Rightarrow> sort_state" where
  "sort_folder cfg fs = sort_loop cfg (loose_files fs) (sort_start fs)"

text \<open>The whole script; \<open>None\<close> says that the folder does not exist.\<close>

definition sort_script :: "sort_cfg \<Rightarrow> string \<Rightarrow> folder_fs option \<Rightarrow> sort_state" where
  "sort_script cfg path fs =
     (case fs of
        None \<Rightarrow> (sort_start [])\<lparr>so_error := Some (''That folder does not exist on this machine: '' @ path)\<rparr>
      | Some t \<Rightarrow> sort_folder cfg t)"

text \<open>The cap that \<open>sorterCommand\<close> writes into the script.\<close>

definition sorter_cap :: "jsnum \<Rightarrow> rat" where
  "sorter_cap maxFiles = max 1 (min (num_or maxFiles 5000) 100000)"

definition sorterCommand :: "bool \<Rightarrow> jsnum \<Rightarrow> (place \<Rightarrow> bool) \<Rightarrow> sort_cfg" where
  "sorterCommand dryRun maxFiles locked =
     \<lparr>sc_dryRun = dryRun, sc_maxFiles = sorter_cap maxFiles, sc_locked = locked\<rparr>"

section \<open>The undo script\<close>

record undo_state =
  un_fs :: folder_fs
  un_restored :: "place list"
  un_skipped :: "(place \<times> string) list"

fun undo_loop :: "(place \<Rightarrow> bool) \<Rightarrow> (place \<times> place) list \<Rightarrow> undo_state \<Rightarrow> undo_state" where
  "undo_loop locked [] s = s"
| "undo_loop locked ((src, dst) # ms) s =
     undo_loop locked ms
       (if \<not> test_path (un_fs s) dst then s\<lparr>un_skipped := un_skipped s @ [(dst, ''no longer there'')]\<rparr>
        else if test_path (un_fs s) src
          then s\<lparr>un_skipped := un_skipped s @ [(dst, ''something is back at the original name'')]\<rparr>
        else if locked dst then s\<lparr>un_skipped := un_skipped s @ [(dst, ''the file is in use'')]\<rparr>
        else s\<lparr>un_fs := move_item dst src (un_fs s), un_restored := un_restored s @ [src]\<rparr>)"

definition undo_folder :: "(place \<Rightarrow> bool) \<Rightarrow> (place \<times> place) list \<Rightarrow> folder_fs \<Rightarrow> undo_state" where
  "undo_folder locked moves fs = undo_loop locked moves \<lparr>un_fs = fs, un_restored = [], un_skipped = []\<rparr>"

section \<open>Reading the result line\<close>

text \<open>A field of the JSON: \<open>ConvertTo-Json\<close> writes a one-element array as the bare element.\<close>

datatype 'a ps_field = PsAbsent | PsOne 'a | PsMany "'a list"

fun as_array :: "'a ps_field \<Rightarrow> 'a list" where
  "as_array PsAbsent = []"
| "as_array (PsOne x) = [x]"
| "as_array (PsMany xs) = xs"

record ('m, 's) sort_json =
  sj_ok :: bool
  sj_error :: string
  sj_dryRun :: bool
  sj_capped :: bool
  sj_moved :: "'m ps_field"
  sj_skipped :: "'s ps_field"
  sj_created :: "string ps_field"

record ('m, 's) sort_report =
  sr_ok :: bool
  sr_error :: string
  sr_dryRun :: bool
  sr_capped :: bool
  sr_moved :: "'m list"
  sr_skipped :: "'s list"
  sr_created :: "string list"

definition RESULT_MARK :: string where
  "RESULT_MARK = ''DOMINION_RESULT ''"

text \<open>\<open>text.slice(text.lastIndexOf(mark) + mark.length)\<close>, \<open>None\<close> when the mark is absent.\<close>

fun after_last :: "string \<Rightarrow> string \<Rightarrow> string option" where
  "after_last m [] = (if m = [] then Some [] else None)"
| "after_last m (c # cs) =
     (case after_last m cs of
        Some r \<Rightarrow> Some r
      | None \<Rightarrow> if take (length m) (c # cs) = m then Some (drop (length m) (c # cs)) else None)"

text \<open>The first line: \<open>split(/\r?\n/)[0]\<close>.\<close>

fun first_line :: "string \<Rightarrow> string" where
  "first_line [] = []"
| "first_line (c # cs) =
     (if c = CHR 0x0A then [] else if c = CHR 0x0D \<and> take 1 cs = [CHR 0x0A] then [] else c # first_line cs)"

datatype ('m, 's) sort_reading =
  NoResultLine string
| Unreadable string string
| Reading "('m, 's) sort_report"

definition parseSorterResult ::
  "(string \<Rightarrow> string + ('m, 's) sort_json) \<Rightarrow> string \<Rightarrow> ('m, 's) sort_reading" where
  "parseSorterResult json_parse stdout =
     (case after_last RESULT_MARK stdout of
        None \<Rightarrow> NoResultLine (take 500 stdout)
      | Some rest \<Rightarrow>
          (case json_parse (first_line rest) of
             Inl msg \<Rightarrow> Unreadable (''could not read the sorter's result: '' @ msg) (take 500 (first_line rest))
           | Inr j \<Rightarrow> Reading \<lparr>sr_ok = sj_ok j, sr_error = sj_error j, sr_dryRun = sj_dryRun j,
                sr_capped = sj_capped j, sr_moved = as_array (sj_moved j),
                sr_skipped = as_array (sj_skipped j), sr_created = as_array (sj_created j)\<rparr>))"

fun join_bits :: "string list \<Rightarrow> string" where
  "join_bits [] = []"
| "join_bits [b] = b"
| "join_bits (b # c # bs) = b @ '', '' @ join_bits (c # bs)"

definition plural :: "nat \<Rightarrow> string \<Rightarrow> string" where
  "plural n w = show_nat n @ '' '' @ w @ (if n = 1 then [] else ''s'')"

definition summarizeSort :: "('m, 's) sort_report \<Rightarrow> string" where
  "summarizeSort r =
     (if \<not> sr_ok r then ''The sort did not run: '' @ (if sr_error r = [] then ''unknown reason'' else sr_error r)
      else let moved = length (sr_moved r); skipped = length (sr_skipped r); folders = length (sr_created r) in
        if moved = 0 \<and> skipped = 0 then ''Nothing to sort: the folder had no loose files.''
        else join_bits
          ([plural moved ''file'' @ (if sr_dryRun r then '' would be sorted'' else '' sorted'')]
           @ (if folders \<noteq> 0 then [plural folders ''new folder''] else [])
           @ (if skipped \<noteq> 0 then [show_nat skipped @ '' left alone''] else [])
           @ (if sr_capped r then [''stopped at the file limit''] else [])) @ ''.'')"

end
