(* ===== verification/WorkSorter_Facts.thy ===== *)
theory WorkSorter_Facts
  imports WorkSorter
begin

text \<open>
  What the sorter promises: nothing is lost or overwritten, the journal undoes the run, and a second
  run moves nothing.
\<close>

section \<open>Places\<close>

lemma extensions_distinct: "distinct (concat (map snd SORT_CATEGORIES))"
  by code_simp

lemma folder_for_known: "folder_for n \<in> set SORT_FOLDERS"
proof -
  have "d \<in> set (map fst SORT_CATEGORIES)" if "ext2folder e = Some d" for e d
    using that by (auto simp: ext2folder_def dest!: map_of_SomeD) (metis fst_conv image_eqI)
  then show ?thesis
    by (auto simp: folder_for_def SORT_FOLDERS_def Let_def split: option.splits)
qed

lemma map_of_move [row_simps]:
  "map_of (move_item p q fs) x
     = (if map_of fs p = None then map_of fs x
        else if x = q then map_of fs p else if x = p then None else map_of fs x)"
  by (auto simp: move_item_def row_simps split: option.splits)

lemma fst_free_loop:
  "fst target = Some d \<Longrightarrow> fst (free_loop fs d n k target) = Some d"
  by (induction fs d n k target rule: free_loop.induct) (subst free_loop.simps, simp)

lemma free_target_D:
  "free_target fs d n = Some q \<Longrightarrow> fst q = Some d \<and> map_of fs q = None"
  using fst_free_loop [of "(Some d, n)" d fs n 2] by (auto simp: free_target_def Let_def test_path_def split: if_splits)

text \<open>The search fails only when every candidate is taken, so it fails again when more is taken.\<close>

lemma free_loop_taken:
  "test_path fs (free_loop fs d n k target) \<Longrightarrow> (\<And>x. fst x = Some d \<Longrightarrow> test_path fs x \<Longrightarrow> test_path fs' x) \<Longrightarrow>
   fst target = Some d \<Longrightarrow> test_path fs' (free_loop fs' d n k target)"
proof (induction fs d n k target rule: free_loop.induct)
  case (1 fs d n k target)
  show ?case
  proof (cases "test_path fs target \<and> k \<le> 999")
    case True
    then have "test_path fs (free_loop fs d n (k + 1) (Some d, numbered_name n k))"
      using 1(2) by (simp add: free_loop.simps [of fs d n k target])
    then have "test_path fs' (free_loop fs' d n (k + 1) (Some d, numbered_name n k))"
      using 1(1) [OF True] 1(3) by simp
    then show ?thesis using True 1(3,4) by (simp add: free_loop.simps [of fs' d n k target])
  next
    case False
    then have "test_path fs target" "\<not> k \<le> 999" using 1(2) by (auto simp: free_loop.simps [of fs d n k target])
    then show ?thesis using 1(3,4) by (simp add: free_loop.simps [of fs' d n k target])
  qed
qed

lemma free_target_None_mono:
  "free_target fs d n = None \<Longrightarrow> (\<And>x. fst x = Some d \<Longrightarrow> test_path fs x \<Longrightarrow> test_path fs' x) \<Longrightarrow> free_target fs' d n = None"
  using free_loop_taken [of fs d n 2 "(Some d, n)" fs'] by (auto simp: free_target_def Let_def split: if_splits)

section \<open>The table during a run\<close>

definition move_ok :: "folder_fs \<Rightarrow> folder_fs \<Rightarrow> place \<times> place \<Rightarrow> bool" where
  "move_ok fs0 fs m \<longleftrightarrow>
     fst (fst m) = None \<and> fst (snd m) \<noteq> None \<and> map_of fs0 (snd m) = None
     \<and> (case map_of fs0 (fst m) of Some (FileE _ _) \<Rightarrow> True | _ \<Rightarrow> False)
     \<and> map_of fs (snd m) = map_of fs0 (fst m)
     \<and> (map_of fs (fst m) = None \<or> map_of fs (fst m) = Some DirE)"

definition rest_ok :: "folder_fs \<Rightarrow> folder_fs \<Rightarrow> place set \<Rightarrow> place \<Rightarrow> bool" where
  "rest_ok fs0 fs X x \<longleftrightarrow>
     (x \<notin> X \<longrightarrow> map_of fs x = map_of fs0 x \<or> map_of fs0 x = None \<and> map_of fs x = Some DirE)
     \<and> (map_of fs x = Some DirE \<longrightarrow> map_of fs0 x = Some DirE \<or> fst x = None \<and> snd x \<in> set SORT_FOLDERS)"

definition touched :: "(place \<times> place) list \<Rightarrow> place set" where
  "touched ms = fst ` set ms \<union> snd ` set ms"

lemma touched_simps [simp]:
  "touched [] = {}" "touched (ms @ [m]) = insert (fst m) (insert (snd m) (touched ms))"
  by (auto simp: touched_def)

text \<open>The folders the run created are the ones that are there now and were not there before.\<close>

definition created_ok :: "folder_fs \<Rightarrow> sort_state \<Rightarrow> string \<Rightarrow> bool" where
  "created_ok fs0 s d \<longleftrightarrow>
     (d \<in> set (so_created s) \<longleftrightarrow> map_of (so_fs s) (None, d) = Some DirE \<and> map_of fs0 (None, d) \<noteq> Some DirE)"

definition sorted_inv :: "folder_fs \<Rightarrow> sort_state \<Rightarrow> bool" where
  "sorted_inv fs0 s \<longleftrightarrow>
     distinct (map fst (so_moved s)) \<and> distinct (map snd (so_moved s))
     \<and> (\<forall>m\<in>set (so_moved s). move_ok fs0 (so_fs s) m)
     \<and> (\<forall>x. rest_ok fs0 (so_fs s) (touched (so_moved s)) x)
     \<and> (\<forall>d. created_ok fs0 s d)"

lemma sorted_inv_start: "sorted_inv fs (sort_start fs)"
  by (simp add: sorted_inv_def sort_start_def rest_ok_def created_ok_def)

lemma sorted_inv_D:
  assumes "sorted_inv fs0 s"
  shows "distinct (map fst (so_moved s))" "distinct (map snd (so_moved s))"
    "m \<in> set (so_moved s) \<Longrightarrow> move_ok fs0 (so_fs s) m" "rest_ok fs0 (so_fs s) (touched (so_moved s)) x"
    "created_ok fs0 s d"
  using assms unfolding sorted_inv_def by blast+

text \<open>Only the table and the moves matter.\<close>

lemma sorted_inv_sel [simp]:
  "sorted_inv fs0 (skip n why s) = sorted_inv fs0 s" "sorted_inv fs0 (s\<lparr>so_scanned := k\<rparr>) = sorted_inv fs0 s"
  "sorted_inv fs0 (s\<lparr>so_capped := b\<rparr>) = sorted_inv fs0 s"
  by (simp_all add: sorted_inv_def created_ok_def skip_def)

lemma ensure_dir_look:
  "map_of (so_fs (ensure_dir d s)) x
     = (if x = (None, d) \<and> map_of (so_fs s) x = None then Some DirE else map_of (so_fs s) x)"
  by (auto simp: ensure_dir_def row_simps split: option.splits entry.splits)

lemma ensure_dir_moved [simp]: "so_moved (ensure_dir d s) = so_moved s"
  by (simp add: ensure_dir_def split: option.splits entry.splits)

lemma ensure_dir_created:
  "set (so_created (ensure_dir d s)) = set (so_created s) \<union> (if map_of (so_fs s) (None, d) = None then {d} else {})"
  by (auto simp: ensure_dir_def split: option.splits entry.splits)

lemma ensure_dir_inv:
  assumes inv: "sorted_inv fs0 s" and d: "d \<in> set SORT_FOLDERS"
  shows "sorted_inv fs0 (ensure_dir d s)"
proof -
  note D = sorted_inv_D [OF inv]
  have "move_ok fs0 (so_fs (ensure_dir d s)) m" if "m \<in> set (so_moved s)" for m
    using D(3) [OF that] by (auto simp: move_ok_def ensure_dir_look)
  moreover have "rest_ok fs0 (so_fs (ensure_dir d s)) (touched (so_moved s)) x" for x
    using D(4) [of x] d by (auto simp: rest_ok_def ensure_dir_look)
  moreover have "created_ok fs0 (ensure_dir d s) k" for k
  proof -
    have "map_of fs0 (None, d) \<noteq> Some DirE" if "map_of (so_fs s) (None, d) = None"
    proof
      assume was: "map_of fs0 (None, d) = Some DirE"
      then have "(None, d) \<in> touched (so_moved s)" using D(4) [of "(None, d)"] that by (auto simp: rest_ok_def)
      then obtain m where "m \<in> set (so_moved s)" "fst m = (None, d) \<or> snd m = (None, d)" by (auto simp: touched_def)
      then show False using D(3) [of m] was by (auto simp: move_ok_def)
    qed
    then show ?thesis using D(5) [of k] by (auto simp: created_ok_def ensure_dir_look ensure_dir_created)
  qed
  ultimately show ?thesis using D(1,2) by (simp add: sorted_inv_def)
qed

text \<open>Moving one loose file to a free place.\<close>

lemma move_file_inv:
  assumes inv: "sorted_inv fs0 s"
    and src: "map_of (so_fs s) (None, n) = Some (FileE a c)" and new: "(None, n) \<notin> touched (so_moved s)"
    and dst: "map_of (so_fs s) q = None" "fst q = Some d"
  shows "sorted_inv fs0 (move_file cfg n q s)"
proof (cases "sc_locked cfg (None, n)")
  case True
  then show ?thesis using inv by (simp add: move_file_def)
next
  case False
  let ?p = "(None :: string option, n)" and ?s = "move_file cfg n q s"
  note D = sorted_inv_D [OF inv]
  have ne: "q \<noteq> ?p" using dst by auto
  have look: "map_of (so_fs ?s) x = (if x = q then Some (FileE a c) else if x = ?p then None else map_of (so_fs s) x)" for x
    using False src by (simp add: move_file_def row_simps)
  have moved: "so_moved ?s = so_moved s @ [(?p, q)]" using False by (simp add: move_file_def)
  have q_new: "q \<notin> snd ` set (so_moved s)"
  proof
    assume "q \<in> snd ` set (so_moved s)"
    then obtain m where "m \<in> set (so_moved s)" "snd m = q" by auto
    then show False using D(3) [of m] dst by (auto simp: move_ok_def split: option.splits)
  qed
  have q_fst: "q \<notin> fst ` set (so_moved s)"
  proof
    assume "q \<in> fst ` set (so_moved s)"
    then obtain m where "m \<in> set (so_moved s)" "fst m = q" by auto
    then show False using D(3) [of m] dst by (auto simp: move_ok_def)
  qed
  have p0: "map_of fs0 ?p = Some (FileE a c)" using D(4) [of ?p] src new by (auto simp: rest_ok_def)
  have q0: "map_of fs0 q = None" using D(4) [of q] dst q_new q_fst by (auto simp: rest_ok_def touched_def)
  have old: "move_ok fs0 (so_fs ?s) m" if m: "m \<in> set (so_moved s)" for m
  proof -
    have "snd m \<noteq> q" "fst m \<noteq> ?p" "fst m \<noteq> q" "snd m \<noteq> ?p"
      using imageI [OF m, of fst] imageI [OF m, of snd] q_new new q_fst by (metis Un_iff touched_def)+
    then show ?thesis using D(3) [OF m] by (simp add: move_ok_def look)
  qed
  moreover have "move_ok fs0 (so_fs ?s) (?p, q)"
    using p0 q0 dst ne by (simp add: move_ok_def look)
  moreover have "rest_ok fs0 (so_fs ?s) (insert ?p (insert q (touched (so_moved s)))) x" for x
    using D(4) [of x] by (auto simp: rest_ok_def look)
  moreover have "so_created ?s = so_created s" using False by (simp add: move_file_def)
  then have "created_ok fs0 ?s k" for k using D(5) [of k] src dst(2) by (auto simp: created_ok_def look)
  moreover have "?p \<notin> fst ` set (so_moved s)" using new by (simp add: touched_def)
  ultimately show ?thesis using D(1,2) q_new by (simp add: sorted_inv_def moved)
qed

section \<open>One file, and all of them\<close>

text \<open>The loose files still to be handled are where they were and have not been moved.\<close>

definition pending :: "sort_state \<Rightarrow> string \<times> file_attrs \<Rightarrow> bool" where
  "pending s f \<longleftrightarrow> (\<exists>c. map_of (so_fs s) (None, fst f) = Some (FileE (snd f) c)) \<and> (None, fst f) \<notin> touched (so_moved s)"

lemma pending_sel [simp]: "pending (s\<lparr>so_scanned := k\<rparr>) f = pending s f"
  by (simp add: pending_def)

text \<open>What one file does to the state of a real run: it is skipped, it breaks the run, or it moves.\<close>

lemma sort_file_cases [consumes 1, case_names skip place]:
  assumes real: "\<not> sc_dryRun cfg"
  obtains (skip) why where "sort_file cfg f s = skip (fst f) why s"
  | (place) q where "free_target (so_fs s) (folder_for (fst f)) (fst f) = Some q"
      "sort_file cfg f s = (let s1 = ensure_dir (folder_for (fst f)) s in
         if so_error s1 \<noteq> None then s1 else move_file cfg (fst f) q s1)"
  using real by (fastforce simp: sort_file_def Let_def split: if_splits option.splits)

lemma move_file_look:
  assumes "map_of (so_fs s) (None, n) = Some e" "map_of (so_fs s) q = None"
  shows "x \<noteq> (None, n) \<Longrightarrow> map_of (so_fs s) x = Some y \<Longrightarrow> map_of (so_fs (move_file cfg n q s)) x = Some y"
  using assms by (auto simp: move_file_def skip_def row_simps)

lemma move_file_touched:
  "touched (so_moved (move_file cfg n q s)) \<subseteq> insert (None, n) (insert q (touched (so_moved s)))"
  by (auto simp: move_file_def skip_def)

lemma sort_file_inv:
  assumes real: "\<not> sc_dryRun cfg" and inv: "sorted_inv fs0 s" and p: "pending s f"
  shows "sorted_inv fs0 (sort_file cfg f s) \<and> (\<forall>g. pending s g \<longrightarrow> fst g \<noteq> fst f \<longrightarrow> pending (sort_file cfg f s) g)"
using real
proof (cases rule: sort_file_cases [of cfg f s])
  case (skip why)
  then show ?thesis using inv by (simp add: pending_def) (simp add: skip_def)
next
  case (place q)
  let ?d = "folder_for (fst f)" let ?s1 = "ensure_dir ?d s"
  have i1: "sorted_inv fs0 ?s1" using ensure_dir_inv [OF inv folder_for_known] .
  have pend1: "pending ?s1 g" if "pending s g" for g
    using that by (auto simp: pending_def ensure_dir_look)
  have q: "fst q = Some ?d" "map_of (so_fs ?s1) q = None"
    using free_target_D [OF place(1)] by (auto simp: ensure_dir_look)
  obtain c where c: "map_of (so_fs ?s1) (None, fst f) = Some (FileE (snd f) c)" "(None, fst f) \<notin> touched (so_moved ?s1)"
    using pend1 [OF p] by (auto simp: pending_def)
  show ?thesis
  proof (cases "so_error ?s1 = None")
    case False
    then show ?thesis using place(2) i1 pend1 by (simp add: Let_def)
  next
    case True
    have "pending (move_file cfg (fst f) q ?s1) g" if g: "pending s g" "fst g \<noteq> fst f" for g
    proof -
      obtain c' where "map_of (so_fs ?s1) (None, fst g) = Some (FileE (snd g) c')" "(None, fst g) \<notin> touched (so_moved ?s1)"
        using pend1 [OF g(1)] by (auto simp: pending_def)
      then show ?thesis
        using move_file_look [OF c(1) q(2), of "(None, fst g)"] g(2) q(1) move_file_touched [of cfg "fst f" q ?s1]
        unfolding pending_def by fastforce
    qed
    then show ?thesis using place(2) True move_file_inv [OF i1 c q(2) q(1), of cfg] by (simp add: Let_def)
  qed
qed

lemma sort_loop_inv:
  "\<not> sc_dryRun cfg \<Longrightarrow> sorted_inv fs0 s \<Longrightarrow> distinct (map fst fs) \<Longrightarrow> \<forall>f\<in>set fs. pending s f \<Longrightarrow>
   sorted_inv fs0 (sort_loop cfg fs s)"
proof (induction fs arbitrary: s)
  case Nil
  then show ?case by simp
next
  case (Cons f fs)
  let ?s0 = "s\<lparr>so_scanned := so_scanned s + 1\<rparr>" let ?s1 = "sort_file cfg f ?s0"
  have ok: "sorted_inv fs0 ?s1 \<and> (\<forall>g. pending ?s0 g \<longrightarrow> fst g \<noteq> fst f \<longrightarrow> pending ?s1 g)"
    using sort_file_inv [of cfg fs0 ?s0 f] Cons.prems by simp
  have "\<forall>g\<in>set fs. pending ?s1 g" using ok Cons.prems(3,4) by (auto simp: image_iff)
  then show ?case using Cons.IH [of ?s1] Cons.prems ok by (simp add: Let_def)
qed

lemma loose_files_mem:
  "(n, a) \<in> set (loose_files fs) \<longleftrightarrow> (\<exists>c. ((None, n), FileE a c) \<in> set fs)"
proof (induction fs)
  case (Cons x fs)
  obtain p e where x: "x = (p, e)" by (cases x)
  have "loose_files (x # fs) = (case e of FileE a _ \<Rightarrow> if fst p = None then [(snd p, a)] else [] | DirE \<Rightarrow> []) @ loose_files fs"
    using x by (cases e; cases "fst p") (simp_all add: loose_files_def map_filter_simps)
  then show ?case using x Cons by (cases p; cases e) auto
qed (simp add: loose_files_def map_filter_simps)

lemma loose_files_distinct: "distinct (map fst fs) \<Longrightarrow> distinct (map fst (loose_files fs))"
proof (induction fs)
  case (Cons x fs)
  obtain p e where x: "x = (p, e)" by (cases x)
  show ?case
  proof (cases "\<exists>a c n. e = FileE a c \<and> p = (None, n)")
    case True
    then obtain a c n where e: "e = FileE a c" "p = (None, n)" by blast
    have "n \<notin> fst ` set (loose_files fs)"
    proof
      assume "n \<in> fst ` set (loose_files fs)"
      then obtain b where "(n, b) \<in> set (loose_files fs)" by auto
      then have "(None, n) \<in> fst ` set fs" by (force simp: loose_files_mem)
      then show False using Cons.prems x e by simp
    qed
    then show ?thesis using Cons x e by (simp add: loose_files_def map_filter_simps)
  next
    case False
    then have "loose_files (x # fs) = loose_files fs"
      using x by (cases e; cases p) (auto simp: loose_files_def map_filter_simps)
    then show ?thesis using Cons by simp
  qed
qed (simp add: loose_files_def map_filter_simps)

lemma sort_folder_inv:
  assumes "\<not> sc_dryRun cfg" "distinct (map fst fs)"
  shows "sorted_inv fs (sort_folder cfg fs)"
  unfolding sort_folder_def
proof (rule sort_loop_inv)
  show "\<forall>f\<in>set (loose_files fs). pending (sort_start fs) f"
    using assms(2) by (auto simp: pending_def sort_start_def loose_files_mem simp del: map_of_eq_Some_iff)
qed (use assms loose_files_distinct sorted_inv_start in simp_all)

section \<open>Undoing\<close>

lemma undo_all:
  assumes "\<And>p. \<not> locked p"
  shows "distinct (map fst ms) \<Longrightarrow> distinct (map snd ms) \<Longrightarrow> fst ` set ms \<inter> snd ` set ms = {} \<Longrightarrow>
    \<forall>m\<in>set ms. map_of (un_fs u) (snd m) \<noteq> None \<and> map_of (un_fs u) (fst m) = None \<Longrightarrow>
    un_skipped (undo_loop locked ms u) = un_skipped u
    \<and> un_restored (undo_loop locked ms u) = un_restored u @ map fst ms
    \<and> (\<forall>x. x \<notin> touched ms \<longrightarrow> map_of (un_fs (undo_loop locked ms u)) x = map_of (un_fs u) x)
    \<and> (\<forall>m\<in>set ms. map_of (un_fs (undo_loop locked ms u)) (fst m) = map_of (un_fs u) (snd m)
         \<and> map_of (un_fs (undo_loop locked ms u)) (snd m) = None)"
proof (induction ms arbitrary: u)
  case Nil
  then show ?case by simp
next
  case (Cons m ms)
  obtain p q where m: "m = (p, q)" by (cases m)
  let ?u = "u\<lparr>un_fs := move_item q p (un_fs u), un_restored := un_restored u @ [p]\<rparr>"
  have pq: "map_of (un_fs u) q \<noteq> None" "map_of (un_fs u) p = None" "p \<noteq> q" using Cons.prems(4) m by auto
  have step: "undo_loop locked (m # ms) u = undo_loop locked ms ?u"
    using assms pq m by (simp add: test_path_def)
  have look: "map_of (move_item q p (un_fs u)) x = (if x = p then map_of (un_fs u) q else if x = q then None else map_of (un_fs u) x)" for x
    using pq by (simp add: row_simps)
  have apart: "fst m' \<noteq> p" "fst m' \<noteq> q" "snd m' \<noteq> p" "snd m' \<noteq> q" if m': "m' \<in> set ms" for m'
    using imageI [OF m', of fst] imageI [OF m', of snd] Cons.prems(1-3) m by auto
  have nm: "p \<notin> touched ms" "q \<notin> touched ms"
    unfolding touched_def using apart by (metis UnE imageE)+
  note IH = Cons.IH [of ?u]
  have "\<forall>m'\<in>set ms. map_of (un_fs ?u) (snd m') \<noteq> None \<and> map_of (un_fs ?u) (fst m') = None"
    using Cons.prems(4) apart by (simp add: look)
  then have IH': "un_skipped (undo_loop locked ms ?u) = un_skipped u"
     "un_restored (undo_loop locked ms ?u) = un_restored u @ p # map fst ms"
     "\<forall>x. x \<notin> touched ms \<longrightarrow> map_of (un_fs (undo_loop locked ms ?u)) x = map_of (un_fs ?u) x"
     "\<forall>m\<in>set ms. map_of (un_fs (undo_loop locked ms ?u)) (fst m) = map_of (un_fs ?u) (snd m)
         \<and> map_of (un_fs (undo_loop locked ms ?u)) (snd m) = None"
    using IH Cons.prems(1-3) by auto
  have "\<forall>m'\<in>set ms. map_of (un_fs (undo_loop locked ms ?u)) (fst m') = map_of (un_fs u) (snd m')
         \<and> map_of (un_fs (undo_loop locked ms ?u)) (snd m') = None"
    using IH'(4) apart by (simp add: look)
  moreover have "map_of (un_fs (undo_loop locked ms ?u)) p = map_of (un_fs u) q"
     "map_of (un_fs (undo_loop locked ms ?u)) q = None"
    using IH'(3) [rule_format, of p] IH'(3) [rule_format, of q] nm pq(3) by (simp_all add: look)
  moreover have "\<forall>x. x \<notin> touched (m # ms) \<longrightarrow> map_of (un_fs (undo_loop locked ms ?u)) x = map_of (un_fs u) x"
    using IH'(3) m look by (simp add: touched_def)
  ultimately show ?case unfolding step using IH'(1,2) m by simp
qed

section \<open>A second run\<close>

text \<open>A file that a run does not move: protected, in use, or without a free name.\<close>

definition stuck :: "sort_cfg \<Rightarrow> folder_fs \<Rightarrow> string \<times> file_attrs \<Rightarrow> bool" where
  "stuck cfg fs f \<longleftrightarrow> fa_hidden (snd f) \<or> fa_system (snd f) \<or> fa_readonly (snd f) \<or> sc_locked cfg (None, fst f)
     \<or> free_target fs (folder_for (fst f)) (fst f) = None"

definition grows :: "folder_fs \<Rightarrow> folder_fs \<Rightarrow> bool" where
  "grows fs fs' \<longleftrightarrow> (\<forall>x. fst x \<noteq> None \<longrightarrow> test_path fs x \<longrightarrow> test_path fs' x)"

lemma grows_refl [simp]: "grows fs fs"
  by (simp add: grows_def)

lemma grows_trans: "grows a b \<Longrightarrow> grows b c \<Longrightarrow> grows a c"
  by (simp add: grows_def)

lemma stuck_mono: "stuck cfg fs f \<Longrightarrow> grows fs fs' \<Longrightarrow> stuck cfg fs' f"
  using free_target_None_mono [of fs "folder_for (fst f)" "fst f" fs'] by (auto simp: stuck_def grows_def)

lemma ensure_dir_grows: "grows (so_fs s) (so_fs (ensure_dir d s))"
  by (simp add: grows_def test_path_def ensure_dir_look)

lemma move_file_grows: "grows (so_fs s) (so_fs (move_file cfg n q s))"
  by (auto simp: grows_def test_path_def move_file_def skip_def row_simps)

text \<open>One file: the subfolders only grow, and it is moved or stuck unless it broke the run.\<close>

lemma sort_file_progress:
  assumes "\<not> sc_dryRun cfg"
  shows "grows (so_fs s) (so_fs (sort_file cfg f s))
    \<and> set (so_moved s) \<subseteq> set (so_moved (sort_file cfg f s))
    \<and> (distinct (map fst (so_fs s)) \<longrightarrow> distinct (map fst (so_fs (sort_file cfg f s))))
    \<and> (stuck cfg (so_fs s) f \<longrightarrow> so_moved (sort_file cfg f s) = so_moved s)
    \<and> (so_error (sort_file cfg f s) = None \<longrightarrow>
         stuck cfg (so_fs (sort_file cfg f s)) f \<or> (None, fst f) \<in> fst ` set (so_moved (sort_file cfg f s)))"
proof (cases "fa_hidden (snd f) \<or> fa_system (snd f) \<or> fa_readonly (snd f)")
  case True
  then show ?thesis by (auto simp: sort_file_def Let_def skip_def stuck_def)
next
  case prot: False
  let ?d = "folder_for (fst f)" let ?s1 = "ensure_dir ?d s"
  show ?thesis
  proof (cases "free_target (so_fs s) ?d (fst f)")
    case None
    then show ?thesis using prot by (simp add: sort_file_def Let_def skip_def stuck_def)
  next
    case (Some q)
    have d1: "distinct (map fst (so_fs s)) \<Longrightarrow> distinct (map fst (so_fs ?s1))"
      by (simp add: ensure_dir_def distinct_update split: option.splits entry.splits)
    have run: "sort_file cfg f s = (if so_error ?s1 \<noteq> None then ?s1 else move_file cfg (fst f) q ?s1)"
      using prot Some assms by (simp add: sort_file_def Let_def)
    have mv: "so_moved (move_file cfg (fst f) q ?s1) = so_moved s @ (if sc_locked cfg (None, fst f) then [] else [((None, fst f), q)])"
      by (simp add: move_file_def skip_def)
    have dm: "distinct (map fst (so_fs s)) \<Longrightarrow> distinct (map fst (so_fs (move_file cfg (fst f) q ?s1)))"
      using d1 by (simp add: move_file_def skip_def move_item_def distinct_update distinct_delete split: option.splits)
    have g: "grows (so_fs s) (so_fs (move_file cfg (fst f) q ?s1))"
      using grows_trans ensure_dir_grows move_file_grows by blast
    show ?thesis
      using prot Some d1 dm g ensure_dir_grows [of s ?d] by (cases "so_error ?s1") (simp_all add: run mv stuck_def)
  qed
qed

lemma sort_loop_progress:
  assumes "\<not> sc_dryRun cfg"
  shows "grows (so_fs s) (so_fs (sort_loop cfg fs s)) \<and> set (so_moved s) \<subseteq> set (so_moved (sort_loop cfg fs s))
    \<and> (distinct (map fst (so_fs s)) \<longrightarrow> distinct (map fst (so_fs (sort_loop cfg fs s))))
    \<and> ((\<forall>f\<in>set fs. stuck cfg (so_fs s) f) \<longrightarrow> so_moved (sort_loop cfg fs s) = so_moved s)
    \<and> (so_error (sort_loop cfg fs s) = None \<longrightarrow> \<not> so_capped (sort_loop cfg fs s) \<longrightarrow>
        (\<forall>f\<in>set fs. stuck cfg (so_fs (sort_loop cfg fs s)) f \<or> (None, fst f) \<in> fst ` set (so_moved (sort_loop cfg fs s))))"
proof (induction fs arbitrary: s)
  case Nil
  then show ?case by simp
next
  case (Cons f fs)
  let ?s0 = "s\<lparr>so_scanned := so_scanned s + 1\<rparr>" let ?s1 = "sort_file cfg f ?s0"
  note P = sort_file_progress [OF assms, of ?s0 f]
  show ?case
  proof (cases "of_nat (so_scanned s) \<ge> sc_maxFiles cfg \<or> so_error ?s1 \<noteq> None")
    case True
    then show ?thesis
    proof (cases "of_nat (so_scanned s) \<ge> sc_maxFiles cfg")
      case False
      with True obtain e where e: "so_error ?s1 = Some e" by auto
      with False have "sort_loop cfg (f # fs) s = ?s1" by (simp add: Let_def)
      then show ?thesis using P e by (simp del: sort_loop.simps)
    qed simp
  next
    case False
    then have run: "sort_loop cfg (f # fs) s = sort_loop cfg fs ?s1" by (simp add: Let_def)
    note IH = Cons.IH [of ?s1]
    have "grows (so_fs s) (so_fs ?s1)" using P by simp
    then have st: "stuck cfg (so_fs s) g \<Longrightarrow> stuck cfg (so_fs ?s1) g" for g using stuck_mono by blast
    have st': "stuck cfg (so_fs ?s1) g \<Longrightarrow> stuck cfg (so_fs (sort_loop cfg fs ?s1)) g" for g
      using IH stuck_mono by blast
    have "grows (so_fs ?s1) (so_fs (sort_loop cfg fs ?s1))" using IH by blast
    then have g: "grows (so_fs s) (so_fs (sort_loop cfg fs ?s1))" using grows_trans [of "so_fs s" "so_fs ?s1"] P by simp
    have P': "set (so_moved s) \<subseteq> set (so_moved ?s1)"
        "distinct (map fst (so_fs s)) \<longrightarrow> distinct (map fst (so_fs ?s1))"
        "stuck cfg (so_fs s) f \<longrightarrow> so_moved ?s1 = so_moved s"
        "so_error ?s1 = None \<longrightarrow> stuck cfg (so_fs ?s1) f \<or> (None, fst f) \<in> fst ` set (so_moved ?s1)"
      using P by simp_all
    have m: "set (so_moved s) \<subseteq> set (so_moved (sort_loop cfg fs ?s1))" using P'(1) IH by blast
    have d: "distinct (map fst (so_fs s)) \<longrightarrow> distinct (map fst (so_fs (sort_loop cfg fs ?s1)))" using P'(2) IH by blast
    have k: "(\<forall>g\<in>set (f # fs). stuck cfg (so_fs s) g) \<longrightarrow> so_moved (sort_loop cfg fs ?s1) = so_moved s"
      using P'(3) IH st by (metis list.set_intros)
    have "stuck cfg (so_fs ?s1) f \<or> (None, fst f) \<in> fst ` set (so_moved ?s1)" using P'(4) False by blast
    then have f: "stuck cfg (so_fs (sort_loop cfg fs ?s1)) f \<or> (None, fst f) \<in> fst ` set (so_moved (sort_loop cfg fs ?s1))"
      using st' IH by blast
    have "\<forall>h\<in>set (f # fs). stuck cfg (so_fs (sort_loop cfg fs ?s1)) h
        \<or> (None, fst h) \<in> fst ` set (so_moved (sort_loop cfg fs ?s1))"
      if "so_error (sort_loop cfg fs ?s1) = None" "\<not> so_capped (sort_loop cfg fs ?s1)"
      using f IH that by (metis set_ConsD)
    then show ?thesis unfolding run using g m d k by blast
  qed
qed

section \<open>The promises\<close>

lemma move_okE:
  assumes "move_ok fs0 fs m"
  obtains a c where "map_of fs0 (fst m) = Some (FileE a c)" "fst (fst m) = None" "fst (snd m) \<noteq> None"
    "map_of fs0 (snd m) = None" "map_of fs (snd m) = Some (FileE a c)" "map_of fs (fst m) \<noteq> None \<longrightarrow> map_of fs (fst m) = Some DirE"
  using assms by (auto simp: move_ok_def split: option.splits entry.splits)

lemma kept_after_sort:
  assumes inv: "sorted_inv fs0 s" and x: "map_of fs0 x = Some e"
  shows "map_of (so_fs s) x = Some e \<or> (\<exists>q. (x, q) \<in> set (so_moved s) \<and> map_of fs0 q = None \<and> map_of (so_fs s) q = Some e)"
proof (cases "x \<in> touched (so_moved s)")
  case False
  then show ?thesis using sorted_inv_D(4) [OF inv, of x] x by (simp add: rest_ok_def)
next
  case True
  then obtain m where m: "m \<in> set (so_moved s)" "x = fst m \<or> x = snd m" by (auto simp: touched_def)
  obtain a c where mo: "map_of fs0 (fst m) = Some (FileE a c)" "map_of fs0 (snd m) = None" "map_of (so_fs s) (snd m) = Some (FileE a c)"
    using move_okE [OF sorted_inv_D(3) [OF inv m(1)]] by metis
  then have "x = fst m" using m(2) x by auto
  then show ?thesis using m(1) mo x by (metis option.inject prod.collapse)
qed

text \<open>The abstract view of a folder: what its files hold.\<close>

definition file_at :: "folder_fs \<Rightarrow> place \<Rightarrow> (file_attrs \<times> string) option" where
  "file_at fs x = (case map_of fs x of Some (FileE a c) \<Rightarrow> Some (a, c) | _ \<Rightarrow> None)"

lemma undone_file:
  assumes inv: "sorted_inv fs0 s" and free: "\<And>d. d \<in> set SORT_FOLDERS \<Longrightarrow> file_at fs0 (None, d) = None"
  shows "un_skipped (undo_folder (\<lambda>_. False) (so_moved s) (so_fs s)) = []
    \<and> map_of (un_fs (undo_folder (\<lambda>_. False) (so_moved s) (so_fs s))) x
        = (if fst x = None \<and> snd x \<in> set (so_created s) then Some DirE else map_of fs0 x)"
proof -
  let ?u = "\<lparr>un_fs = so_fs s, un_restored = [], un_skipped = []\<rparr>" let ?ms = "so_moved s"
  let ?u' = "undo_loop (\<lambda>_. False) ?ms ?u"
  note D = sorted_inv_D [OF inv]
  have gone: "map_of (so_fs s) (fst m) = None" if m: "m \<in> set ?ms" for m
  proof (rule ccontr)
    assume a: "map_of (so_fs s) (fst m) \<noteq> None"
    obtain b c where mo: "map_of fs0 (fst m) = Some (FileE b c)" "map_of (so_fs s) (fst m) = Some DirE" "fst (fst m) = None"
      using move_okE [OF D(3) [OF m]] a by metis
    then have "snd (fst m) \<in> set SORT_FOLDERS" using D(4) [of "fst m"] by (simp add: rest_ok_def)
    then have "file_at fs0 (fst m) = None" using free mo(3) by (metis prod.collapse)
    then show False using mo(1) by (simp add: file_at_def)
  qed
  have disj: "fst ` set ?ms \<inter> snd ` set ?ms = {}"
  proof -
    have "fst x = None" if "x \<in> fst ` set ?ms" for x using that D(3) by (auto simp: move_ok_def)
    moreover have "fst x \<noteq> None" if "x \<in> snd ` set ?ms" for x using that D(3) by (auto simp: move_ok_def)
    ultimately show ?thesis by blast
  qed
  have "\<forall>m\<in>set ?ms. map_of (un_fs ?u) (snd m) \<noteq> None \<and> map_of (un_fs ?u) (fst m) = None"
  proof
    fix m assume m: "m \<in> set ?ms"
    obtain b c where "map_of (so_fs s) (snd m) = Some (FileE b c)" using move_okE [OF D(3) [OF m]] by metis
    then show "map_of (un_fs ?u) (snd m) \<noteq> None \<and> map_of (un_fs ?u) (fst m) = None" using gone [OF m] by simp
  qed
  from undo_all [of "\<lambda>_. False" ?ms ?u, OF _ D(1) D(2) disj this]
  have U: "un_skipped ?u' = []" "\<forall>x. x \<notin> touched ?ms \<longrightarrow> map_of (un_fs ?u') x = map_of (un_fs ?u) x"
    "\<forall>m\<in>set ?ms. map_of (un_fs ?u') (fst m) = map_of (un_fs ?u) (snd m) \<and> map_of (un_fs ?u') (snd m) = None"
    by (simp_all del: split_paired_All)
  then have sk: "un_skipped ?u' = []" by simp
  have out: "x \<notin> touched ?ms \<Longrightarrow> map_of (un_fs ?u') x = map_of (so_fs s) x" for x using U(2) [rule_format, of x] by simp
  have inn: "m \<in> set ?ms \<Longrightarrow> map_of (un_fs ?u') (fst m) = map_of (so_fs s) (snd m) \<and> map_of (un_fs ?u') (snd m) = None" for m
    using U(3) [rule_format, of m] by simp
  have made: "snd x \<in> set (so_created s) \<longleftrightarrow> map_of (so_fs s) x = Some DirE \<and> map_of fs0 x \<noteq> Some DirE"
    if "fst x = None" for x
    using D(5) [of "snd x"] that by (cases x) (simp add: created_ok_def)
  have "map_of (un_fs ?u') x = (if fst x = None \<and> snd x \<in> set (so_created s) then Some DirE else map_of fs0 x)"
  proof (cases "x \<in> touched ?ms")
    case False
    then show ?thesis using out [OF False] D(4) [of x] made [of x] by (auto simp: rest_ok_def)
  next
    case True
    then obtain m where m: "m \<in> set ?ms" "x = fst m \<or> x = snd m" by (auto simp: touched_def)
    obtain b c where mo: "map_of fs0 (fst m) = Some (FileE b c)" "fst (snd m) \<noteq> None" "map_of fs0 (snd m) = None"
        "map_of (so_fs s) (snd m) = Some (FileE b c)"
      using move_okE [OF D(3) [OF m(1)]] by metis
    from m(2) show ?thesis
    proof
      assume "x = fst m"
      then show ?thesis using made [of x] gone [OF m(1)] mo inn [OF m(1)] by auto
    next
      assume "x = snd m"
      then show ?thesis using mo inn [OF m(1)] by simp
    qed
  qed
  then show ?thesis using sk by (simp add: undo_folder_def)
qed

lemma created_folders:
  assumes inv: "sorted_inv fs0 s" and free: "\<And>d. d \<in> set SORT_FOLDERS \<Longrightarrow> file_at fs0 (None, d) = None"
    and d: "d \<in> set (so_created s)"
  shows "d \<in> set SORT_FOLDERS \<and> map_of fs0 (None, d) = None"
proof -
  note D = sorted_inv_D [OF inv]
  have now: "map_of (so_fs s) (None, d) = Some DirE" "map_of fs0 (None, d) \<noteq> Some DirE"
    using D(5) [of d] d by (simp_all add: created_ok_def)
  then have k: "d \<in> set SORT_FOLDERS" using D(4) [of "(None, d)"] by (simp add: rest_ok_def)
  have "map_of fs0 (None, d) = None"
    using free [OF k] now(2) by (auto simp: file_at_def split: option.splits entry.splits)
  with k show ?thesis by simp
qed

lemma dry_run_keeps: "sc_dryRun cfg \<Longrightarrow> so_fs (sort_folder cfg fs) = fs"
proof -
  assume dry: "sc_dryRun cfg"
  then have "so_fs (sort_file cfg f s) = so_fs s" for f s
    by (simp add: sort_file_def skip_def Let_def split: option.split)
  then have "so_fs (sort_loop cfg ls s) = so_fs s" for ls s by (induction ls arbitrary: s) (simp_all add: Let_def)
  then show ?thesis by (simp add: sort_folder_def sort_start_def)
qed

text \<open>C35: A sort never loses or overwrites a file: a dry run leaves the folder as it is, and after a real run
  everything the folder held is at its old place, or at a place of the journal that was free before, with its
  content and attributes unchanged.  When no loose file has the name of one of the category folders, running the
  undo script on the journal of a real run, while no file is held open, skips nothing and gives back the whole
  folder, files and subfolders, place by place, except for the folders that the sort reports as created: they
  stay behind, they are category folders, and nothing had their name before.\<close>

theorem sort_and_undo:
  assumes table: "distinct (map fst fs)" and s: "s = sort_folder cfg fs"
  shows "if sc_dryRun cfg then so_fs s = fs
    else (\<forall>x e. map_of fs x = Some e \<longrightarrow> map_of (so_fs s) x = Some e
            \<or> (\<exists>q. (x, q) \<in> set (so_moved s) \<and> map_of fs q = None \<and> map_of (so_fs s) q = Some e))
      \<and> ((\<forall>d\<in>set SORT_FOLDERS. file_at fs (None, d) = None) \<longrightarrow>
          (let u = undo_folder (\<lambda>_. False) (so_moved s) (so_fs s) in
             un_skipped u = []
             \<and> (\<forall>x. map_of (un_fs u) x = (if fst x = None \<and> snd x \<in> set (so_created s) then Some DirE else map_of fs x))
             \<and> (\<forall>d\<in>set (so_created s). d \<in> set SORT_FOLDERS \<and> map_of fs (None, d) = None)))"
proof (cases "sc_dryRun cfg")
  case True
  then show ?thesis by (simp add: s dry_run_keeps)
next
  case False
  note inv = sort_folder_inv [OF False table, folded s]
  have "\<forall>x e. map_of fs x = Some e \<longrightarrow> map_of (so_fs s) x = Some e
      \<or> (\<exists>q. (x, q) \<in> set (so_moved s) \<and> map_of fs q = None \<and> map_of (so_fs s) q = Some e)"
    by (intro allI impI) (rule kept_after_sort [OF inv])
  moreover have "un_skipped (undo_folder (\<lambda>_. False) (so_moved s) (so_fs s)) = []
      \<and> map_of (un_fs (undo_folder (\<lambda>_. False) (so_moved s) (so_fs s))) x
          = (if fst x = None \<and> snd x \<in> set (so_created s) then Some DirE else map_of fs x)"
    "\<forall>d\<in>set (so_created s). d \<in> set SORT_FOLDERS \<and> map_of fs (None, d) = None"
    if free: "\<forall>d\<in>set SORT_FOLDERS. file_at fs (None, d) = None" for x
    by (rule undone_file [OF inv], rule bspec [OF free], assumption)
      (intro ballI created_folders [OF inv], rule bspec [OF free])
  ultimately show ?thesis unfolding Let_def if_not_P [OF False] by blast
qed

definition demo_folder :: folder_fs where
  "demo_folder = (let a = \<lparr>fa_hidden = False, fa_system = False, fa_readonly = False\<rparr> in
     [((None, ''a.PDF''), FileE a ''one''), ((None, ''b.jpg''), FileE a ''two''), ((None, ''notes''), FileE a ''three''),
      ((None, ''desktop.ini''), FileE (a\<lparr>fa_hidden := True\<rparr>) []), ((None, ''Documents''), DirE),
      ((Some ''Documents'', ''a.PDF''), FileE a ''older'')])"

theorem sort_and_undo_witness:
  "let s = sort_folder (sorterCommand False None (\<lambda>_. False)) demo_folder;
       u = undo_folder (\<lambda>_. False) (so_moved s) (so_fs s) in
     so_moved s = [((None, ''a.PDF''), (Some ''Documents'', ''a (2).PDF'')), ((None, ''b.jpg''), (Some ''Images'', ''b.jpg'')),
                   ((None, ''notes''), (Some ''Other'', ''notes''))]
     \<and> so_created s = [''Images'', ''Other'']
     \<and> (\<forall>x. map_of (un_fs u) x = (if fst x = None \<and> snd x \<in> {''Images'', ''Other''} then Some DirE else map_of demo_folder x))"
proof -
  let ?cfg = "sorterCommand False None (\<lambda>_. False)"
  have "so_moved (sort_folder ?cfg demo_folder)
    = [((None, ''a.PDF''), (Some ''Documents'', ''a (2).PDF'')), ((None, ''b.jpg''), (Some ''Images'', ''b.jpg'')),
       ((None, ''notes''), (Some ''Other'', ''notes''))]" by code_simp
  moreover have "so_created (sort_folder ?cfg demo_folder) = [''Images'', ''Other'']" by code_simp
  moreover have "distinct (map fst demo_folder)" by code_simp
  moreover have "\<not> sc_dryRun ?cfg" by (simp add: sorterCommand_def)
  moreover have "\<forall>d\<in>set SORT_FOLDERS. file_at demo_folder (None, d) = None" by code_simp
  ultimately show ?thesis using sort_and_undo [OF _ refl, of demo_folder ?cfg] unfolding Let_def by simp
qed

text \<open>Running the sort a second time moves nothing: after a run that was neither broken off nor stopped
  at its file limit, each loose file that is still there is one that the sort does not move (protected,
  in use, or without a free name among 999).\<close>

theorem second_sort_moves_nothing:
  assumes real: "\<not> sc_dryRun cfg" and table: "distinct (map fst fs)"
    and ended: "so_error (sort_folder cfg fs) = None" "\<not> so_capped (sort_folder cfg fs)"
  shows "so_moved (sort_folder cfg (so_fs (sort_folder cfg fs))) = []"
proof -
  let ?s = "sort_folder cfg fs"
  have inv: "sorted_inv fs ?s" by (rule sort_folder_inv [OF real table])
  have P: "distinct (map fst (so_fs ?s))"
    "\<forall>f\<in>set (loose_files fs). stuck cfg (so_fs ?s) f \<or> (None, fst f) \<in> fst ` set (so_moved ?s)"
    using sort_loop_progress [OF real, of "sort_start fs" "loose_files fs"] ended table
    unfolding sort_folder_def [symmetric] by (simp_all add: sort_start_def)
  have "stuck cfg (so_fs ?s) f" if f: "f \<in> set (loose_files (so_fs ?s))" for f
  proof -
    obtain n a where na: "f = (n, a)" by (cases f)
    then obtain c where "((None, n), FileE a c) \<in> set (so_fs ?s)" using f by (auto simp: loose_files_mem)
    then have c: "map_of (so_fs ?s) (None, n) = Some (FileE a c)" by (rule map_of_is_SomeI [OF P(1)])
    have mo: "fst m \<noteq> (None, n)" "snd m \<noteq> (None, n)" if "m \<in> set (so_moved ?s)" for m
      using sorted_inv_D(3) [OF inv that] c by (auto simp: move_ok_def)
    then have nf: "(None, n) \<notin> fst ` set (so_moved ?s)" and ns: "(None, n) \<notin> snd ` set (so_moved ?s)"
      by (metis imageE)+
    then have "map_of fs (None, n) = Some (FileE a c)"
      using sorted_inv_D(4) [OF inv, of "(None, n)"] c by (auto simp: rest_ok_def touched_def)
    then have "f \<in> set (loose_files fs)" using na by (auto simp: loose_files_mem dest: map_of_SomeD)
    then show ?thesis using bspec [OF P(2), of f] nf na by simp
  qed
  then show ?thesis
    using sort_loop_progress [OF real, of "sort_start (so_fs ?s)" "loose_files (so_fs ?s)"]
    unfolding sort_folder_def [symmetric] by (simp add: sort_start_def)
qed

theorem second_sort_moves_nothing_witness:
  "let cfg = sorterCommand False (Some 100) (\<lambda>p. p = (None, ''notes'')) in
     so_moved (sort_folder cfg demo_folder) \<noteq> [] \<and> so_moved (sort_folder cfg (so_fs (sort_folder cfg demo_folder))) = []"
proof -
  let ?cfg = "sorterCommand False (Some 100) (\<lambda>p. p = (None, ''notes''))"
  have "so_error (sort_folder ?cfg demo_folder) = None" "\<not> so_capped (sort_folder ?cfg demo_folder)"
    "so_moved (sort_folder ?cfg demo_folder) \<noteq> []" "distinct (map fst demo_folder)" by code_simp+
  moreover have "\<not> sc_dryRun ?cfg" by (simp add: sorterCommand_def)
  ultimately show ?thesis using second_sort_moves_nothing [of ?cfg demo_folder] unfolding Let_def by blast
qed

end
