(* ===== verification/WorkOrders.thy ===== *)
theory WorkOrders
  imports WorkSorter
begin

text \<open>
  \<open>workorders.mjs\<close>: the schedule arithmetic and the store of scheduled work orders.  The time-zone
  database of the platform (\<open>Intl.DateTimeFormat\<close>) is a parameter: which names are zones, what a clock in
  a zone reads at an instant, and its weekday.  \<open>Date.UTC\<close> is written out.  The JSON text of a journal
  is a parameter too, because the store cuts that text at 400000 characters.
\<close>

section \<open>Dates\<close>

definition day_from_year :: "int \<Rightarrow> int" where
  "day_from_year y = 365 * (y - 1970) + (y - 1969) div 4 - (y - 1901) div 100 + (y - 1601) div 400"

definition leap_year :: "int \<Rightarrow> bool" where
  "leap_year y = (y mod 4 = 0 \<and> (y mod 100 \<noteq> 0 \<or> y mod 400 = 0))"

definition month_start :: "int \<Rightarrow> nat \<Rightarrow> int" where
  "month_start y m = [0, 31, 59, 90, 120, 151, 181, 212, 243, 273, 304, 334] ! m + (if leap_year y \<and> 2 \<le> m then 1 else 0)"

text \<open>\<open>Date.UTC(y, m, d, h, mi, 0)\<close> with a zero-based month; days and months may overflow.\<close>

definition month_day :: "int \<Rightarrow> int \<Rightarrow> int" where
  "month_day y m =
     (let yr = if 0 \<le> y \<and> y \<le> 99 then 1900 + y else y; ym = yr + m div 12
      in day_from_year ym + month_start ym (nat (m mod 12)))"

definition date_utc :: "int \<Rightarrow> int \<Rightarrow> int \<Rightarrow> int \<Rightarrow> int \<Rightarrow> ms" where
  "date_utc y m d h mi = (month_day y m + d - 1) * 86400000 + h * 3600000 + mi * 60000"

section \<open>Time zones\<close>

record wall =
  wl_y :: int
  wl_mo :: int
  wl_d :: int
  wl_h :: int
  wl_mi :: int

record tzdb =
  tz_valid :: "string \<Rightarrow> bool"
  tz_reads :: "string \<Rightarrow> ms \<Rightarrow> wall"
  tz_weekday :: "string \<Rightarrow> ms \<Rightarrow> int"      \<comment> \<open>0 is Sunday\<close>

text \<open>Some engines write midnight as hour 24.\<close>

definition zonedParts :: "tzdb \<Rightarrow> ms \<Rightarrow> string \<Rightarrow> wall" where
  "zonedParts db t tz = (let p = tz_reads db tz t in p\<lparr>wl_h := (if wl_h p = 24 then 0 else wl_h p)\<rparr>)"

definition wall_utc :: "wall \<Rightarrow> ms" where
  "wall_utc p = date_utc (wl_y p) (wl_mo p - 1) (wl_d p) (wl_h p) (wl_mi p)"

fun utc_loop :: "tzdb \<Rightarrow> string \<Rightarrow> ms \<Rightarrow> nat \<Rightarrow> ms \<Rightarrow> ms" where
  "utc_loop db tz want 0 guess = guess"
| "utc_loop db tz want (Suc k) guess =
     (let drift = want - wall_utc (zonedParts db guess tz)
      in if drift = 0 then guess else utc_loop db tz want k (guess + drift))"

definition zonedTimeToUtc :: "tzdb \<Rightarrow> wall \<Rightarrow> string \<Rightarrow> ms" where
  "zonedTimeToUtc db w tz = (let want = wall_utc w in utc_loop db tz want 4 want)"

record schedule =
  sd_cadence :: string
  sd_atHour :: jsnum
  sd_atMinute :: jsnum
  sd_weekday :: rat
  sd_tz :: string

definition clamp :: "rat \<Rightarrow> jsnum \<Rightarrow> rat" where
  "clamp hi x = max 0 (min hi (or_zero x))"

definition js_mod7 :: "rat \<Rightarrow> rat" where
  "js_mod7 w = w - 7 * of_int (js_trunc (w / 7))"

text \<open>The instant of the order on the day \<open>add\<close> days from the one the clock shows now.\<close>

definition probe_at :: "tzdb \<Rightarrow> schedule \<Rightarrow> string \<Rightarrow> wall \<Rightarrow> nat \<Rightarrow> ms" where
  "probe_at db sd tz here add =
     zonedTimeToUtc db \<lparr>wl_y = wl_y here, wl_mo = wl_mo here, wl_d = wl_d here + int add,
       wl_h = js_trunc (clamp 23 (sd_atHour sd)), wl_mi = js_trunc (clamp 59 (sd_atMinute sd))\<rparr> tz"

fun probe_loop :: "tzdb \<Rightarrow> schedule \<Rightarrow> string \<Rightarrow> wall \<Rightarrow> ms \<Rightarrow> nat list \<Rightarrow> ms option" where
  "probe_loop db sd tz here from_t [] = None"
| "probe_loop db sd tz here from_t (add # adds) =
     (let probe = probe_at db sd tz here add in
      if probe \<le> from_t then probe_loop db sd tz here from_t adds
      else if sd_cadence sd = ''weekly'' \<and> of_int (tz_weekday db tz probe) \<noteq> js_mod7 (sd_weekday sd)
        then probe_loop db sd tz here from_t adds
      else Some probe)"

definition nextRunAt :: "tzdb \<Rightarrow> schedule \<Rightarrow> ms \<Rightarrow> ms" where
  "nextRunAt db sd from_t =
     (let tz = if tz_valid db (sd_tz sd) then sd_tz sd else ''UTC'' in
      case probe_loop db sd tz (zonedParts db from_t tz) from_t [0..<370] of
        Some t \<Rightarrow> t | None \<Rightarrow> from_t + 24 * 3600 * 1000)"

section \<open>The store\<close>

definition MAX_ORDERS_PER_ACCOUNT :: nat where "MAX_ORDERS_PER_ACCOUNT = 20"

text \<open>The task list: identifier, and whether the task moves files.\<close>

definition WORK_TASKS :: "(string \<times> bool) list" where
  "WORK_TASKS = [(''sort_by_type'', True), (''folder_report'', False)]"

definition isTask :: "string \<Rightarrow> bool" where
  "isTask i = (map_of WORK_TASKS i \<noteq> None)"

type_synonym journal = "(place \<times> place) list"

record work_order =
  wo_uid :: string
  wo_task :: string
  wo_node :: string
  wo_folder :: string
  wo_sched :: schedule
  wo_enabled :: bool
  wo_dryRunFirst :: bool
  wo_nextRunAt :: ms
  wo_lastRunAt :: ms
  wo_lastStatus :: string
  wo_lastSummary :: string
  wo_lastJournal :: string
  wo_runCount :: nat
  wo_waitingSince :: ms
  wo_seenAt :: ms
  wo_createdAt :: ms
  wo_createdFrom :: string

type_synonym order_table = "(string \<times> work_order) list"

record order_request =
  or_task :: string
  or_node :: string
  or_folder :: string
  or_cadence :: string
  or_atHour :: jsnum
  or_atMinute :: jsnum
  or_weekday :: jsnum
  or_tz :: string
  or_dryRunFirst :: "bool option"
  or_createdFrom :: string

datatype order_error = UnknownTask | NoFolder | NotAbsolute | TooManyOrders

definition is_alpha :: "char \<Rightarrow> bool" where
  "is_alpha c = (let n = (of_char c :: nat) in 65 \<le> n \<and> n \<le> 90 \<or> 97 \<le> n \<and> n \<le> 122)"

definition absolute_path :: "string \<Rightarrow> bool" where
  "absolute_path s =
     (case s of
        a # CHR '':'' # c # _ \<Rightarrow> is_alpha a \<and> (c = CHR 0x5C \<or> c = CHR ''/'') \<or> a = CHR ''/''
      | a # b # _ \<Rightarrow> a = CHR 0x5C \<and> b = CHR 0x5C \<or> a = CHR ''/''
      | [a] \<Rightarrow> a = CHR ''/''
      | [] \<Rightarrow> False)"

definition countFor :: "string \<Rightarrow> order_table \<Rightarrow> nat" where
  "countFor uid t = length (rows_where (\<lambda>_ r. wo_uid r = uid) t)"

definition order_schedule :: "tzdb \<Rightarrow> order_request \<Rightarrow> schedule" where
  "order_schedule db q =
     \<lparr>sd_cadence = (if or_cadence q \<in> {''once'', ''daily'', ''weekly''} then or_cadence q else ''daily''),
      sd_atHour = Some (clamp 23 (or_atHour q)), sd_atMinute = Some (clamp 59 (or_atMinute q)),
      sd_weekday = clamp 6 (or_weekday q),
      sd_tz = (if tz_valid db (or_tz q) then or_tz q else ''UTC'')\<rparr>"

definition create_order ::
  "tzdb \<Rightarrow> ms \<Rightarrow> string \<Rightarrow> string \<Rightarrow> order_request \<Rightarrow> order_table \<Rightarrow> order_error + order_table" where
  "create_order db now fresh uid q t =
     (let folder = js_trim (or_folder q); sd = order_schedule db q in
      if \<not> isTask (or_task q) then Inl UnknownTask
      else if folder = [] then Inl NoFolder
      else if \<not> absolute_path folder then Inl NotAbsolute
      else if countFor uid t \<ge> MAX_ORDERS_PER_ACCOUNT then Inl TooManyOrders
      else Inr (t @ [(fresh,
        \<lparr>wo_uid = uid, wo_task = or_task q, wo_node = take 80 (or_node q), wo_folder = folder, wo_sched = sd,
         wo_enabled = True,
         wo_dryRunFirst = (map_of WORK_TASKS (or_task q) = Some True \<and> or_dryRunFirst q \<noteq> Some False),
         wo_nextRunAt = nextRunAt db sd now, wo_lastRunAt = 0, wo_lastStatus = [], wo_lastSummary = [],
         wo_lastJournal = [], wo_runCount = 0, wo_waitingSince = 0, wo_seenAt = 0, wo_createdAt = now,
         wo_createdFrom = take 40 (or_createdFrom q)\<rparr>)]))"

definition orders_list :: "string \<Rightarrow> order_table \<Rightarrow> (string \<times> work_order) list" where
  "orders_list uid t = sort_key (\<lambda>(_, r). - wo_createdAt r) (rows_where (\<lambda>_ r. wo_uid r = uid) t)"

definition orders_due :: "ms \<Rightarrow> order_table \<Rightarrow> (string \<times> work_order) list" where
  "orders_due t0 t = rows_where (\<lambda>_ r. wo_enabled r \<and> wo_nextRunAt r > 0 \<and> wo_nextRunAt r \<le> t0) t"

definition orders_waitingOn :: "string \<Rightarrow> order_table \<Rightarrow> (string \<times> work_order) list" where
  "orders_waitingOn node t = rows_where (\<lambda>_ r. wo_enabled r \<and> wo_waitingSince r > 0 \<and> wo_node r = node) t"

definition remove_order :: "string \<Rightarrow> string \<Rightarrow> order_table \<Rightarrow> bool \<times> order_table" where
  "remove_order uid i t =
     (let hit = (\<lambda>k r. k = i \<and> wo_uid r = uid)
      in (rows_where hit t \<noteq> [], rows_where (\<lambda>k r. \<not> hit k r) t))"

definition setEnabled :: "string \<Rightarrow> string \<Rightarrow> bool \<Rightarrow> order_table \<Rightarrow> bool \<times> order_table" where
  "setEnabled uid i on t =
     (case map_of t i of
        Some r \<Rightarrow> if wo_uid r = uid then (True, row_upd i (\<lambda>r. r\<lparr>wo_enabled := on\<rparr>) t) else (False, t)
      | None \<Rightarrow> (False, t))"

definition unseenCount :: "string \<Rightarrow> order_table \<Rightarrow> nat" where
  "unseenCount uid t = length (rows_where (\<lambda>_ r. wo_uid r = uid \<and> wo_lastRunAt r > wo_seenAt r) t)"

definition markSeen :: "ms \<Rightarrow> string \<Rightarrow> order_table \<Rightarrow> order_table" where
  "markSeen now uid t = map (\<lambda>(k, r). (k, if wo_uid r = uid then r\<lparr>wo_seenAt := now\<rparr> else r)) t"

definition markWaiting :: "ms \<Rightarrow> string \<Rightarrow> string \<Rightarrow> order_table \<Rightarrow> order_table" where
  "markWaiting now i whyNode t =
     row_upd i (\<lambda>r. r\<lparr>wo_waitingSince := now, wo_lastStatus := ''waiting'',
       wo_lastSummary := ''Waiting for '' @ (if whyNode = [] then ''the machine'' else whyNode) @ '' to come online.''\<rparr>) t"

record run_record =
  rr_ok :: bool
  rr_summary :: string
  rr_journal :: journal
  rr_dryRun :: bool

definition recordRun :: "tzdb \<Rightarrow> (journal \<Rightarrow> string) \<Rightarrow> ms \<Rightarrow> string \<Rightarrow> run_record \<Rightarrow> order_table \<Rightarrow> order_table" where
  "recordRun db js_text now i rr t =
     (case map_of t i of
        None \<Rightarrow> t
      | Some cur \<Rightarrow>
          let finished = (sd_cadence (wo_sched cur) = ''once'' \<and> \<not> rr_dryRun rr);
              nxt = if finished then 0 else nextRunAt db (wo_sched cur) now
          in row_upd i (\<lambda>r. r\<lparr>wo_lastRunAt := now,
               wo_lastStatus := (if rr_ok rr then (if rr_dryRun rr then ''dry-run'' else ''ok'') else ''failed''),
               wo_lastSummary := take 500 (rr_summary rr),
               wo_lastJournal := take 400000 (js_text (rr_journal rr)),
               wo_runCount := wo_runCount r + 1, wo_waitingSince := 0, wo_nextRunAt := nxt,
               wo_enabled := \<not> finished, wo_dryRunFirst := False\<rparr>) t)"

text \<open>The journal a row is read back with; text that does not parse is an empty journal.\<close>

definition row_journal :: "(string \<Rightarrow> journal option) \<Rightarrow> work_order \<Rightarrow> journal" where
  "row_journal js_parse r =
     (if wo_lastJournal r = [] then [] else case js_parse (wo_lastJournal r) of None \<Rightarrow> [] | Some m \<Rightarrow> m)"

section \<open>Schedules\<close>

lemma date_utc_day: "date_utc y m (d + k) h mi = date_utc y m d h mi + k * 86400000"
  by (simp add: date_utc_def algebra_simps)

lemma date_utc_time: "date_utc y m d h mi = date_utc y m d 0 0 + h * 3600000 + mi * 60000"
  by (simp add: date_utc_def)

lemma probe_loop_after: "probe_loop db sd tz here from_t adds = Some t \<Longrightarrow> from_t < t"
  by (induction adds) (auto simp: Let_def split: if_splits)

lemma nextRunAt_future: "from_t < nextRunAt db sd from_t"
  using probe_loop_after by (fastforce simp: nextRunAt_def Let_def split: option.splits)

text \<open>A zone that is \<open>off\<close> milliseconds ahead of UTC at all times, its clock cut to the minute.\<close>

definition fixed_zone :: "tzdb \<Rightarrow> string \<Rightarrow> int \<Rightarrow> bool" where
  "fixed_zone db tz off \<longleftrightarrow> tz_valid db tz \<and> off mod 60000 = 0
     \<and> (\<forall>t. let p = zonedParts db t tz in
          0 \<le> wl_h p \<and> wl_h p \<le> 23 \<and> 0 \<le> wl_mi p \<and> wl_mi p \<le> 59 \<and> wall_utc p = (t + off) - (t + off) mod 60000)"

lemma date_utc_minutes: "date_utc y m d h mi mod 60000 = 0"
proof -
  have "date_utc y m d h mi = 60000 * ((month_day y m + d - 1) * 1440 + h * 60 + mi)"
    by (simp add: date_utc_def algebra_simps)
  then show ?thesis by (simp only: mod_mult_self1_is_0)
qed

lemma zonedTimeToUtc_fixed:
  assumes z: "fixed_zone db tz off"
  shows "zonedTimeToUtc db w tz = wall_utc w - off"
proof -
  let ?want = "wall_utc w"
  have wm: "?want mod 60000 = 0" by (simp add: wall_utc_def date_utc_minutes)
  have om: "off mod 60000 = 0" using z by (simp add: fixed_zone_def)
  have got: "wall_utc (zonedParts db t tz) = (t + off) - (t + off) mod 60000" for t
    using z by (simp add: fixed_zone_def Let_def)
  have "(?want + off) mod 60000 = 0" using wm om by (simp only: mod_eq_0_iff_dvd dvd_add)
  then have g1: "wall_utc (zonedParts db ?want tz) = ?want + off" by (simp add: got)
  have "(?want - off + off) mod 60000 = 0" using wm by simp
  then have g2: "wall_utc (zonedParts db (?want - off) tz) = ?want" by (simp add: got)
  show ?thesis
    by (cases "off = 0") (simp_all add: zonedTimeToUtc_def Let_def numeral_eq_Suc g1 g2)
qed

text \<open>C36: The next run of an order is always later than the instant it is computed from.  For a daily order
  (or a one-time order) in a zone with a fixed offset it is the next instant at which the clock of the
  zone reads the time of the order: at most a day away, with the requested hour and minute on the wall.\<close>

theorem next_run_is_the_next_wall_time:
  assumes "sd_cadence sd \<noteq> ''weekly''" and z: "fixed_zone db (sd_tz sd) off"
  shows "(\<forall>db' sd' t. t < nextRunAt db' sd' t)
    \<and> nextRunAt db sd from_t \<le> from_t + 86400000
    \<and> (nextRunAt db sd from_t + off) mod 86400000
        = js_trunc (clamp 23 (sd_atHour sd)) * 3600000 + js_trunc (clamp 59 (sd_atMinute sd)) * 60000"
proof -
  let ?tz = "sd_tz sd" let ?here = "zonedParts db from_t ?tz"
  let ?h = "js_trunc (clamp 23 (sd_atHour sd))" let ?m = "js_trunc (clamp 59 (sd_atMinute sd))"
  let ?day = "date_utc (wl_y ?here) (wl_mo ?here - 1) (wl_d ?here) 0 0"
  have v: "tz_valid db ?tz" using z by (simp add: fixed_zone_def)
  have range: "0 \<le> clamp u x \<and> clamp u x \<le> u" if "0 \<le> u" for u x using that by (simp add: clamp_def)
  have h: "0 \<le> ?h \<and> ?h \<le> 23"
    using range [of 23 "sd_atHour sd"] js_trunc_nonneg [of "clamp 23 (sd_atHour sd)"] js_trunc_le [of "clamp 23 (sd_atHour sd)"]
    by linarith
  have m: "0 \<le> ?m \<and> ?m \<le> 59"
    using range [of 59 "sd_atMinute sd"] js_trunc_nonneg [of "clamp 59 (sd_atMinute sd)"] js_trunc_le [of "clamp 59 (sd_atMinute sd)"]
    by linarith
  have probe: "probe_at db sd ?tz ?here k = ?day + int k * 86400000 + ?h * 3600000 + ?m * 60000 - off" for k
    unfolding probe_at_def zonedTimeToUtc_fixed [OF z]
    by (simp add: wall_utc_def date_utc_time [of _ _ _ ?h ?m] date_utc_day)
  have now: "0 \<le> wl_h ?here" "wl_h ?here \<le> 23" "0 \<le> wl_mi ?here" "wl_mi ?here \<le> 59"
    and wall: "wall_utc ?here = (from_t + off) - (from_t + off) mod 60000"
    using z by (simp_all add: fixed_zone_def Let_def)
  have wall': "wall_utc ?here = ?day + wl_h ?here * 3600000 + wl_mi ?here * 60000"
    using date_utc_time [of _ _ _ "wl_h ?here" "wl_mi ?here"] by (simp add: wall_utc_def)
  have lo: "?day \<le> from_t + off" and hi: "from_t + off < ?day + 86400000"
    using wall wall' now pos_mod_sign [of 60000 "from_t + off"] pos_mod_bound [of 60000 "from_t + off"] by linarith+
  have p0: "probe_at db sd ?tz ?here 0 \<le> from_t + 86400000" and p1: "from_t < probe_at db sd ?tz ?here 1"
    using lo hi h m by (simp_all add: probe)
  have upt: "[0..<370] = 0 # 1 # [2..<370::nat]" by (simp add: upt_conv_Cons)
  have nx: "nextRunAt db sd from_t
    = (if probe_at db sd ?tz ?here 0 \<le> from_t then probe_at db sd ?tz ?here 1 else probe_at db sd ?tz ?here 0)"
    using assms(1) v p1 by (simp add: nextRunAt_def Let_def upt)
  have "(?day + int k * 86400000 + (?h * 3600000 + ?m * 60000)) mod 86400000 = ?h * 3600000 + ?m * 60000" for k
    using h m mod_mult_self3 [of "month_day (wl_y ?here) (wl_mo ?here - 1) + wl_d ?here - 1 + int k" 86400000 "?h * 3600000 + ?m * 60000"]
    by (simp add: date_utc_def distrib_right mod_pos_pos_trivial)
  from this [of 0] this [of 1]
  have md: "(probe_at db sd ?tz ?here 0 + off) mod 86400000 = ?h * 3600000 + ?m * 60000"
       "(probe_at db sd ?tz ?here 1 + off) mod 86400000 = ?h * 3600000 + ?m * 60000"
    by (simp_all add: probe add.assoc)
  have "probe_at db sd ?tz ?here 1 = probe_at db sd ?tz ?here 0 + 86400000" by (simp add: probe)
  then have "nextRunAt db sd from_t \<le> from_t + 86400000" using p0 by (simp add: nx)
  moreover have "(nextRunAt db sd from_t + off) mod 86400000 = ?h * 3600000 + ?m * 60000"
    unfolding nx using md by (cases "probe_at db sd ?tz ?here 0 \<le> from_t") (simp_all only: if_True if_False simp_thms)
  ultimately show ?thesis using nextRunAt_future by blast
qed

definition demo_wall :: "ms \<Rightarrow> wall" where
  "demo_wall t = (let r = t mod 86400000 in
     \<lparr>wl_y = 1970, wl_mo = 1, wl_d = 1 + t div 86400000, wl_h = r div 3600000, wl_mi = r mod 3600000 div 60000\<rparr>)"

definition demo_zones :: tzdb where
  "demo_zones = \<lparr>tz_valid = (\<lambda>z. z = ''UTC'' \<or> z = ''America/Santiago''),
     tz_reads = (\<lambda>z t. demo_wall (if z = ''UTC'' then t else t - 14400000)), tz_weekday = (\<lambda>z t. 4)\<rparr>"

lemma demo_wall_utc: "wall_utc (demo_wall t) = t - t mod 60000"
proof -
  let ?r = "t mod 86400000"
  have 1: "t = 86400000 * (t div 86400000) + ?r" by simp
  have 2: "?r = 3600000 * (?r div 3600000) + ?r mod 3600000" by simp
  have 3: "?r mod 3600000 = 60000 * (?r mod 3600000 div 60000) + ?r mod 3600000 mod 60000" by simp
  have 4: "?r mod 3600000 mod 60000 = t mod 60000" by (simp add: mod_mod_cancel)
  have "month_day 1970 0 = 0" by code_simp
  then have "wall_utc (demo_wall t) = t div 86400000 * 86400000 + ?r div 3600000 * 3600000 + ?r mod 3600000 div 60000 * 60000"
    by (simp add: demo_wall_def wall_utc_def date_utc_def Let_def)
  then show ?thesis using 1 2 3 4 by linarith
qed

lemma demo_zone_fixed: "fixed_zone demo_zones ''America/Santiago'' (- 14400000)"
proof -
  have "0 \<le> wl_h (demo_wall t) \<and> wl_h (demo_wall t) \<le> 23 \<and> 0 \<le> wl_mi (demo_wall t) \<and> wl_mi (demo_wall t) \<le> 59" for t
  proof -
    have "0 \<le> t mod 86400000" "t mod 86400000 < 86400000" by simp_all
    moreover have "0 \<le> t mod 86400000 mod 3600000" "t mod 86400000 mod 3600000 < 3600000" by simp_all
    ultimately show ?thesis unfolding demo_wall_def Let_def by simp linarith
  qed
  moreover have "(demo_wall t)\<lparr>wl_h := (if wl_h (demo_wall t) = 24 then 0 else wl_h (demo_wall t))\<rparr> = demo_wall t" for t
    using calculation [of t] by (cases "demo_wall t") auto
  ultimately show ?thesis
    by (simp add: fixed_zone_def demo_zones_def zonedParts_def Let_def demo_wall_utc)
qed

theorem next_run_is_the_next_wall_time_witness:
  "let sd = \<lparr>sd_cadence = ''daily'', sd_atHour = Some 3, sd_atMinute = Some 30, sd_weekday = 1, sd_tz = ''America/Santiago''\<rparr> in
     (nextRunAt demo_zones sd 1000000000000 - 14400000) mod 86400000 = 3 * 3600000 + 30 * 60000
     \<and> nextRunAt demo_zones sd 1000000000000 \<le> 1000086400000"
proof -
  let ?sd = "\<lparr>sd_cadence = ''daily'', sd_atHour = Some 3, sd_atMinute = Some 30, sd_weekday = 1, sd_tz = ''America/Santiago''\<rparr>"
  have "js_trunc (clamp 23 (Some 3)) = 3" "js_trunc (clamp 59 (Some 30)) = 30" by code_simp+
  then show ?thesis
    using next_run_is_the_next_wall_time [of ?sd demo_zones "- 14400000" 1000000000000] demo_zone_fixed
    unfolding Let_def by simp
qed

end
