(* ===== verification/WorkOrderRunner.thy ===== *)
theory WorkOrderRunner
  imports WorkOrders WorkSorter_Facts
begin

text \<open>
  \<open>workorderrunner.mjs\<close>: running a work order on a machine.  A run has two halves, the decision (which may
  park the order) and the record of the machine's answer; between them the machine works and anything may
  happen to the store.  Which machines are connected and what a machine answers are inputs.
\<close>

section \<open>One run\<close>

definition resolveNode :: "work_order \<Rightarrow> string list \<Rightarrow> string" where
  "resolveNode r online = (if wo_node r \<noteq> [] then wo_node r else if length online = 1 then hd online else [])"

datatype command = SortCommand string bool | UndoCommand journal

datatype run_start =
  RunWaiting string
| RunUnknownTask string
| RunDispatch string command bool      \<comment> \<open>node, command, dry run\<close>

definition run_begin :: "bool \<Rightarrow> string list \<Rightarrow> work_order \<Rightarrow> run_start" where
  "run_begin force online r =
     (let node = resolveNode r online; dryRun = wo_dryRunFirst r \<and> \<not> force in
      if node = [] \<or> node \<notin> set online then RunWaiting (if node = [] then ''a machine'' else node)
      else if wo_task r = ''sort_by_type'' then RunDispatch node (SortCommand (wo_folder r) dryRun) dryRun
      else if wo_task r = ''folder_report'' then RunDispatch node (SortCommand (wo_folder r) True) dryRun
      else RunUnknownTask (''That task is not one this server knows how to run: '' @ wo_task r))"

text \<open>The answer of the machine: an exception, a refusal, or the output of the command.\<close>

datatype answer = AnswerThrew string | AnswerRefused string | AnswerOutput string

record runner_env =
  re_db :: tzdb
  re_js_text :: "journal \<Rightarrow> string"
  re_json :: "string \<Rightarrow> string + (place \<times> place, string \<times> string) sort_json"

definition failed_run :: "string \<Rightarrow> run_record" where
  "failed_run summary = \<lparr>rr_ok = False, rr_summary = summary, rr_journal = [], rr_dryRun = False\<rparr>"

datatype run_outcome = OutcomeWaiting string | OutcomeFailed string | OutcomeRan bool string nat

definition run_finish :: "runner_env \<Rightarrow> bool \<Rightarrow> answer \<Rightarrow> run_record \<times> run_outcome" where
  "run_finish env dryRun ans =
     (case ans of
        AnswerThrew e \<Rightarrow> (let s = ''The machine could not be reached: '' @ take 200 e in (failed_run s, OutcomeFailed s))
      | AnswerRefused e \<Rightarrow>
          (let s = ''The machine refused or failed: '' @ take 200 (if e = [] then ''no answer'' else e)
           in (failed_run s, OutcomeFailed s))
      | AnswerOutput out \<Rightarrow>
          (case parseSorterResult (re_json env) out of
             NoResultLine _ \<Rightarrow>
               (let s = ''The job ran but its result could not be read: '' @ ''the sorter produced no result line''
                in (failed_run s, OutcomeFailed s))
           | Unreadable e _ \<Rightarrow>
               (let s = ''The job ran but its result could not be read: '' @ take 160 e in (failed_run s, OutcomeFailed s))
           | Reading rep \<Rightarrow>
               if \<not> sr_ok rep then
                 (let s = ''The job ran but its result could not be read: '' @ take 160 (sr_error rep)
                  in (failed_run s, OutcomeFailed s))
               else (let s = (if dryRun then ''Dry run. '' else []) @ summarizeSort rep in
                 (\<lparr>rr_ok = True, rr_summary = s, rr_journal = (if dryRun then [] else sr_moved rep), rr_dryRun = dryRun\<rparr>,
                  OutcomeRan dryRun s (length (sr_moved rep))))))"

text \<open>
  \<open>runOne\<close> on a row that was read earlier; \<open>meanwhile\<close> is what other requests did to the table while the
  machine worked, \<open>dispatch\<close> the machines.
\<close>

definition runOne ::
  "runner_env \<Rightarrow> (string \<Rightarrow> command \<Rightarrow> answer) \<Rightarrow> (order_table \<Rightarrow> order_table) \<Rightarrow> string list \<Rightarrow> ms \<Rightarrow> ms \<Rightarrow> bool
     \<Rightarrow> string \<times> work_order \<Rightarrow> order_table \<Rightarrow> run_outcome \<times> order_table" where
  "runOne env dispatch meanwhile online now now2 force wo t =
     (case run_begin force online (snd wo) of
        RunWaiting why \<Rightarrow> (OutcomeWaiting why, markWaiting now (fst wo) why t)
      | RunUnknownTask s \<Rightarrow> (OutcomeFailed s, recordRun (re_db env) (re_js_text env) now (fst wo) (failed_run s) t)
      | RunDispatch node cmd dryRun \<Rightarrow>
          (let (rec, res) = run_finish env dryRun (dispatch node cmd)
           in (res, recordRun (re_db env) (re_js_text env) now2 (fst wo) rec (meanwhile t))))"

section \<open>The ticker and the reconnect\<close>

text \<open>One element of the list per order: what is connected and the clock when its turn comes.\<close>

record turn =
  tn_online :: "string list"
  tn_now :: ms
  tn_now2 :: ms
  tn_meanwhile :: "order_table \<Rightarrow> order_table"

fun run_all ::
  "runner_env \<Rightarrow> (string \<Rightarrow> command \<Rightarrow> answer) \<Rightarrow> (nat \<Rightarrow> turn) \<Rightarrow> nat \<Rightarrow> (string \<times> work_order) list \<Rightarrow> order_table
     \<Rightarrow> run_outcome list \<times> order_table" where
  "run_all env dispatch turns k [] t = ([], t)"
| "run_all env dispatch turns k (wo # os) t =
     (let n = turns k;
          (res, t1) = runOne env dispatch (tn_meanwhile n) (tn_online n) (tn_now n) (tn_now2 n) False wo t;
          (rest, t2) = run_all env dispatch turns (k + 1) os t1
      in (res # rest, t2))"

definition order_tick ::
  "runner_env \<Rightarrow> (string \<Rightarrow> command \<Rightarrow> answer) \<Rightarrow> (nat \<Rightarrow> turn) \<Rightarrow> ms \<Rightarrow> order_table \<Rightarrow> run_outcome list \<times> order_table" where
  "order_tick env dispatch turns now t = run_all env dispatch turns 0 (orders_due now t) t"

definition onNodeOnline ::
  "runner_env \<Rightarrow> (string \<Rightarrow> command \<Rightarrow> answer) \<Rightarrow> (nat \<Rightarrow> turn) \<Rightarrow> string \<Rightarrow> order_table \<Rightarrow> run_outcome list \<times> order_table" where
  "onNodeOnline env dispatch turns node t = run_all env dispatch turns 0 (orders_waitingOn node t) t"

datatype undo_start = UndoNothing | UndoOffline string | UndoDispatch string command

definition undo_order :: "(string \<Rightarrow> journal option) \<Rightarrow> string list \<Rightarrow> work_order \<Rightarrow> undo_start" where
  "undo_order js_parse online r =
     (let moves = row_journal js_parse r; node = resolveNode r online in
      if moves = [] then UndoNothing
      else if node = [] \<or> node \<notin> set online then UndoOffline (if node = [] then ''That machine'' else node)
      else UndoDispatch node (UndoCommand moves))"

section \<open>Lemmas\<close>

lemma map_of_recordRun:
  "map_of (recordRun db js now i rr t) k =
     (if k = i then map_option (\<lambda>r.
        let finished = (sd_cadence (wo_sched r) = ''once'' \<and> \<not> rr_dryRun rr) in
        r\<lparr>wo_lastRunAt := now,
          wo_lastStatus := (if rr_ok rr then (if rr_dryRun rr then ''dry-run'' else ''ok'') else ''failed''),
          wo_lastSummary := take 500 (rr_summary rr), wo_lastJournal := take 400000 (js (rr_journal rr)),
          wo_runCount := wo_runCount r + 1, wo_waitingSince := 0,
          wo_nextRunAt := (if finished then 0 else nextRunAt db (wo_sched r) now),
          wo_enabled := \<not> finished, wo_dryRunFirst := False\<rparr>) (map_of t i)
      else map_of t k)"
  by (cases "map_of t i") (simp_all add: recordRun_def Let_def map_of_row_upd)

lemma map_of_markWaiting:
  "map_of (markWaiting now i why t) k = (if k = i then map_option (\<lambda>r. r\<lparr>wo_waitingSince := now, wo_lastStatus := ''waiting'',
       wo_lastSummary := ''Waiting for '' @ (if why = [] then ''the machine'' else why) @ '' to come online.''\<rparr>) (map_of t i)
     else map_of t k)"
  by (simp add: markWaiting_def map_of_row_upd)

lemma rows_where_mem: "(k, r) \<in> set (rows_where P t) \<longleftrightarrow> (k, r) \<in> set t \<and> P k r"
  by (auto simp: rows_where_def)

text \<open>Where a run may go: parked, refused, or dispatched to the resolved machine.\<close>

lemma run_begin_dispatch:
  "run_begin force online r = RunDispatch node cmd d \<longleftrightarrow>
     node = resolveNode r online \<and> node \<noteq> [] \<and> node \<in> set online \<and> d = (wo_dryRunFirst r \<and> \<not> force)
     \<and> (wo_task r = ''sort_by_type'' \<and> cmd = SortCommand (wo_folder r) d
        \<or> wo_task r = ''folder_report'' \<and> cmd = SortCommand (wo_folder r) True)"
  by (auto simp: run_begin_def Let_def)

lemma run_begin_waiting:
  "run_begin force online r = RunWaiting why \<longleftrightarrow>
     (resolveNode r online = [] \<or> resolveNode r online \<notin> set online)
     \<and> why = (if resolveNode r online = [] then ''a machine'' else resolveNode r online)"
  by (auto simp: run_begin_def Let_def)

section \<open>Properties\<close>

text \<open>A run that is missed because its machine is away is not skipped.  The order is parked without a
  command being sent, its next run time and everything else about the schedule stay as they were, so it
  is due at every later tick; a named machine that connects finds the order in its waiting list; and as
  soon as that machine is connected the same order is dispatched to it.\<close>

theorem missed_run_stays_due:
  assumes row: "map_of t k = Some r" and due: "(k, r) \<in> set (orders_due now t)"
    and away: "run_begin False online r = RunWaiting why" and clock: "0 < now"
    and known: "wo_task r = ''sort_by_type'' \<or> wo_task r = ''folder_report''"
  shows "(case runOne env dispatch meanwhile online now now2 False (k, r) t of (res, t') \<Rightarrow>
       res = OutcomeWaiting why
       \<and> (case map_of t' k of None \<Rightarrow> False | Some r' \<Rightarrow>
            wo_sched r' = wo_sched r \<and> wo_nextRunAt r' = wo_nextRunAt r \<and> wo_dryRunFirst r' = wo_dryRunFirst r
            \<and> (\<forall>later \<ge> now. (k, r') \<in> set (orders_due later t'))
            \<and> (wo_node r \<noteq> [] \<longrightarrow> (k, r') \<in> set (orders_waitingOn (wo_node r) t'))
            \<and> (\<forall>online'. wo_node r \<noteq> [] \<longrightarrow> wo_node r \<in> set online' \<longrightarrow>
                 (\<exists>cmd d. run_begin False online' r' = RunDispatch (wo_node r) cmd d))))"
proof -
  let ?t' = "markWaiting now k why t"
  let ?r' = "r\<lparr>wo_waitingSince := now, wo_lastStatus := ''waiting'',
       wo_lastSummary := ''Waiting for '' @ (if why = [] then ''the machine'' else why) @ '' to come online.''\<rparr>"
  have run: "runOne env dispatch meanwhile online now now2 False (k, r) t = (OutcomeWaiting why, ?t')"
    using away by (simp add: runOne_def)
  have r': "map_of ?t' k = Some ?r'" using row by (simp add: map_of_markWaiting)
  then have mem: "(k, ?r') \<in> set ?t'" by (rule map_of_SomeD)
  have d: "wo_enabled r" "0 < wo_nextRunAt r" "wo_nextRunAt r \<le> now"
    using due by (simp_all add: orders_due_def rows_where_mem)
  have "\<forall>later \<ge> now. (k, ?r') \<in> set (orders_due later ?t')"
    using mem d by (simp add: orders_due_def rows_where_mem)
  moreover have "wo_node r \<noteq> [] \<longrightarrow> (k, ?r') \<in> set (orders_waitingOn (wo_node r) ?t')"
    using mem d clock by (simp add: orders_waitingOn_def rows_where_mem)
  moreover have "\<exists>cmd d. run_begin False online' ?r' = RunDispatch (wo_node r) cmd d"
    if "wo_node r \<noteq> []" "wo_node r \<in> set online'" for online'
    using known that by (auto simp: run_begin_dispatch resolveNode_def)
  ultimately show ?thesis unfolding run prod.case r' option.case by simp
qed

definition demo_order :: "bool \<Rightarrow> work_order" where
  "demo_order dry = \<lparr>wo_uid = ''u'', wo_task = ''sort_by_type'', wo_node = ''laptop'', wo_folder = ''/home/u/in'',
     wo_sched = \<lparr>sd_cadence = ''once'', sd_atHour = Some 3, sd_atMinute = Some 30, sd_weekday = 1, sd_tz = ''America/Santiago''\<rparr>,
     wo_enabled = True, wo_dryRunFirst = dry, wo_nextRunAt = 500, wo_lastRunAt = 0, wo_lastStatus = [], wo_lastSummary = [],
     wo_lastJournal = [], wo_runCount = 0, wo_waitingSince = 0, wo_seenAt = 0, wo_createdAt = 1, wo_createdFrom = []\<rparr>"

text \<open>A table of two moves per text is enough for the example environment.\<close>

definition demo_journal_text :: "journal \<Rightarrow> string" where
  "demo_journal_text j = (if j = [] then ''[]'' else concat (map (\<lambda>(p, q). snd p @ ''>'' @ snd q @ '';'') j))"

definition demo_env :: "(string \<Rightarrow> string + (place \<times> place, string \<times> string) sort_json) \<Rightarrow> runner_env" where
  "demo_env js = \<lparr>re_db = demo_zones, re_js_text = demo_journal_text, re_json = js\<rparr>"

theorem missed_run_stays_due_witness:
  "(case runOne (demo_env (\<lambda>s. Inl s)) (\<lambda>n c. AnswerOutput []) (\<lambda>t. t) [''desktop''] 1000 1000 False
       (''wo_1'', demo_order True) [(''wo_1'', demo_order True)] of (res, t') \<Rightarrow>
     case map_of t' ''wo_1'' of None \<Rightarrow> False | Some r' \<Rightarrow> (''wo_1'', r') \<in> set (orders_due 7000 t'))"
proof -
  let ?t = "[(''wo_1'', demo_order True)]"
  have 1: "map_of ?t ''wo_1'' = Some (demo_order True)" by simp
  have 2: "(''wo_1'', demo_order True) \<in> set (orders_due 1000 ?t)"
    by (simp add: orders_due_def rows_where_def demo_order_def)
  have 3: "run_begin False [''desktop''] (demo_order True) = RunWaiting ''laptop''" by code_simp
  have 4: "wo_task (demo_order True) = ''sort_by_type'' \<or> wo_task (demo_order True) = ''folder_report''"
    by (simp add: demo_order_def)
  show ?thesis
    using missed_run_stays_due [OF 1 2 3 _ 4, of "demo_env (\<lambda>s. Inl s)" "\<lambda>n c. AnswerOutput []" "\<lambda>t. t" 1000]
    by (auto split: prod.splits option.splits)
qed

text \<open>The first run of an order that moves files is a dry run: an order created for such a task without
  waiving it is dispatched, unless the caller forces it, with a command that leaves the folder as it is.
  Recording the answer spends the dry run whatever the answer was: also after an exception, a refusal or
  an unreadable answer the row says that the dry run is over, so a machine that could not be reached once
  is sent the real command the next time, without any dry run having taken place.\<close>

theorem first_run_is_dry_and_spent:
  assumes made: "create_order db now k uid q t0 = Inr t" and fresh: "map_of t0 k = None"
    and task: "or_task q = ''sort_by_type''" and waiver: "or_dryRunFirst q \<noteq> Some False"
    and row: "map_of t k = Some r" and go: "run_begin False online r = RunDispatch node cmd d"
  shows "d \<and> cmd = SortCommand (wo_folder r) True
    \<and> (\<forall>cap locked fs. so_fs (sort_folder (sorterCommand d cap locked) fs) = fs)
    \<and> (let t' = snd (runOne env (\<lambda>n c. ans) (\<lambda>t. t) online now1 now2 False (k, r) t) in
        (case map_of t' k of None \<Rightarrow> False | Some r' \<Rightarrow>
           \<not> wo_dryRunFirst r' \<and> run_begin False online r' = RunDispatch node (SortCommand (wo_folder r) False) False))"
proof -
  have "wo_dryRunFirst r \<and> wo_task r = ''sort_by_type''"
    using made fresh row task waiver
    by (auto simp: create_order_def Let_def WORK_TASKS_def map_add_def split: if_splits)
  then have r: "wo_dryRunFirst r" "wo_task r = ''sort_by_type''" by simp_all
  have d: "d" "cmd = SortCommand (wo_folder r) True" "node = resolveNode r online" "node \<noteq> []" "node \<in> set online"
    using go r by (auto simp: run_begin_dispatch)
  obtain rec res where rr: "run_finish env d ans = (rec, res)" by (metis surj_pair)
  let ?t' = "recordRun (re_db env) (re_js_text env) now2 k rec t"
  have run: "snd (runOne env (\<lambda>n c. ans) (\<lambda>t. t) online now1 now2 False (k, r) t) = ?t'"
    using go rr by (simp add: runOne_def)
  obtain r' where r': "map_of ?t' k = Some r'" "\<not> wo_dryRunFirst r'" "wo_node r' = wo_node r" "wo_task r' = wo_task r"
    "wo_folder r' = wo_folder r"
    using row by (simp add: map_of_recordRun Let_def)
  have "resolveNode r' online = node" using r'(3) d(3) by (simp add: resolveNode_def)
  then have again: "run_begin False online r' = RunDispatch node (SortCommand (wo_folder r) False) False"
    using r' r d by (simp add: run_begin_dispatch)
  have "so_fs (sort_folder (sorterCommand d cap locked) fs) = fs" for cap locked fs
    using d(1) by (simp add: dry_run_keeps sorterCommand_def)
  then show ?thesis unfolding run Let_def r'(1) option.case using d(1,2) r'(2) again by blast
qed

definition demo_request :: order_request where
  "demo_request = \<lparr>or_task = ''sort_by_type'', or_node = ''laptop'', or_folder = '' /home/u/in'', or_cadence = ''daily'',
     or_atHour = Some 3, or_atMinute = None, or_weekday = None, or_tz = ''Mars/Olympus'', or_dryRunFirst = None,
     or_createdFrom = ''phone''\<rparr>"

theorem first_run_is_dry_and_spent_witness:
  "\<exists>t r. create_order demo_zones 1000 ''wo_1'' ''u'' demo_request [] = Inr t \<and> map_of t ''wo_1'' = Some r
     \<and> run_begin False [''laptop''] r = RunDispatch ''laptop'' (SortCommand ''/home/u/in'' True) True
     \<and> (case map_of (snd (runOne (demo_env (\<lambda>s. Inl s)) (\<lambda>n c. AnswerThrew ''ECONNRESET'') (\<lambda>t. t) [''laptop''] 2000 3000 False (''wo_1'', r) t)) ''wo_1''
          of None \<Rightarrow> False | Some r' \<Rightarrow> run_begin False [''laptop''] r' = RunDispatch ''laptop'' (SortCommand ''/home/u/in'' False) False)"
proof -
  have "case create_order demo_zones 1000 ''wo_1'' ''u'' demo_request [] of Inl _ \<Rightarrow> False | Inr t \<Rightarrow>
      (case map_of t ''wo_1'' of None \<Rightarrow> False | Some r \<Rightarrow>
         wo_folder r = ''/home/u/in'' \<and> run_begin False [''laptop''] r = RunDispatch ''laptop'' (SortCommand ''/home/u/in'' True) True)"
    by code_simp
  then obtain t r where t: "create_order demo_zones 1000 ''wo_1'' ''u'' demo_request [] = Inr t" "map_of t ''wo_1'' = Some r"
      and f: "wo_folder r = ''/home/u/in''"
      and go: "run_begin False [''laptop''] r = RunDispatch ''laptop'' (SortCommand ''/home/u/in'' True) True"
    by (auto split: sum.splits option.splits)
  have q: "or_task demo_request = ''sort_by_type''" "or_dryRunFirst demo_request \<noteq> Some False"
    by (simp_all add: demo_request_def)
  note P = first_run_is_dry_and_spent [OF t(1) _ q t(2) go, of "demo_env (\<lambda>s. Inl s)" "AnswerThrew ''ECONNRESET''" 2000 3000]
  show ?thesis
    by (rule exI [of _ t], rule exI [of _ r]) (use P t go f in \<open>auto simp: Let_def split: option.splits\<close>)
qed

text \<open>C37: A real sort that was recorded can be undone from the dashboard.  Take a machine that answered a real
  run with the moves, at least one, of its sort of a folder in which no loose file has the name of one of the
  category folders; other requests may meanwhile have done anything to the store that leaves the order's row.  When
  the journal's text fits the store's 400000 characters, the undo is dispatched, with exactly those moves, to the
  machine that the order names, and when it names none to the only one then connected (which need not be the one
  that sorted); when that machine is not connected the undo answers that it is offline.  On the folder as the sort
  left it, and with no file held open, the undo script skips nothing and gives back every file and subfolder, except
  that the category folders the sort created stay.  When the text does not fit and its cut beginning is no journal,
  the row reads as one with nothing to undo.\<close>

theorem recorded_sort_can_be_undone:
  fixes fs cap locked
  defines "after \<equiv> sort_folder (sorterCommand False cap locked) fs"
  assumes go: "run_begin force online r = RunDispatch node cmd False"
    and kept: "map_of (meanwhile t) k = Some r1"
    and folder: "distinct (map fst fs)" "\<forall>d\<in>set SORT_FOLDERS. file_at fs (None, d) = None"
    and ans: "parseSorterResult (re_json env) out = Reading rep" "sr_ok rep" "sr_moved rep = so_moved after"
      "so_moved after \<noteq> []"
    and text_law: "re_js_text env (so_moved after) \<noteq> []" "js_parse (re_js_text env (so_moved after)) = Some (so_moved after)"
  shows "case map_of (snd (runOne env (\<lambda>n c. AnswerOutput out) meanwhile online now later force (k, r) t)) k of
      None \<Rightarrow> False
    | Some r' \<Rightarrow>
        (length (re_js_text env (so_moved after)) \<le> 400000 \<longrightarrow>
           undo_order js_parse online' r' =
             (let m = if wo_node r1 \<noteq> [] then wo_node r1 else if length online' = 1 then hd online' else []
              in if m = [] then UndoOffline ''That machine'' else if m \<notin> set online' then UndoOffline m
                 else UndoDispatch m (UndoCommand (so_moved after))))
        \<and> (let u = undo_folder (\<lambda>_. False) (so_moved after) (so_fs after) in
             un_skipped u = []
             \<and> (\<forall>x. map_of (un_fs u) x = (if fst x = None \<and> snd x \<in> set (so_created after) then Some DirE else map_of fs x)))
        \<and> (js_parse (take 400000 (re_js_text env (so_moved after))) = None \<longrightarrow> undo_order js_parse online' r' = UndoNothing)"
proof -
  let ?moved = "so_moved after"
  obtain s where fin: "run_finish env False (AnswerOutput out)
     = (\<lparr>rr_ok = True, rr_summary = s, rr_journal = ?moved, rr_dryRun = False\<rparr>, OutcomeRan False s (length ?moved))"
    using ans by (simp add: run_finish_def Let_def)
  let ?rec = "\<lparr>rr_ok = True, rr_summary = s, rr_journal = ?moved, rr_dryRun = False\<rparr>"
  have run: "snd (runOne env (\<lambda>n c. AnswerOutput out) meanwhile online now later force (k, r) t)
      = recordRun (re_db env) (re_js_text env) later k ?rec (meanwhile t)"
    using go fin by (simp add: runOne_def)
  obtain r' where r': "map_of (recordRun (re_db env) (re_js_text env) later k ?rec (meanwhile t)) k = Some r'"
    "wo_lastJournal r' = take 400000 (re_js_text env ?moved)" "wo_node r' = wo_node r1"
    using kept by (simp add: map_of_recordRun Let_def)
  have ne: "take 400000 (re_js_text env ?moved) \<noteq> []" using text_law(1) by simp
  have 1: "undo_order js_parse online' r' =
       (let m = if wo_node r1 \<noteq> [] then wo_node r1 else if length online' = 1 then hd online' else []
        in if m = [] then UndoOffline ''That machine'' else if m \<notin> set online' then UndoOffline m
           else UndoDispatch m (UndoCommand ?moved))" if "length (re_js_text env ?moved) \<le> 400000"
    using that text_law ans(4) r'(2,3) by (simp add: undo_order_def row_journal_def resolveNode_def Let_def)
  have 2: "undo_order js_parse online' r' = UndoNothing" if "js_parse (take 400000 (re_js_text env ?moved)) = None"
    using that r'(2) ne by (simp add: undo_order_def row_journal_def Let_def)
  have real: "\<not> sc_dryRun (sorterCommand False cap locked)" by (simp add: sorterCommand_def)
  have "un_skipped (undo_folder (\<lambda>_. False) ?moved (so_fs after)) = []
    \<and> map_of (un_fs (undo_folder (\<lambda>_. False) ?moved (so_fs after))) x
        = (if fst x = None \<and> snd x \<in> set (so_created after) then Some DirE else map_of fs x)" for x
    unfolding after_def
    by (rule undone_file [OF sort_folder_inv [OF real folder(1)]], rule bspec [OF folder(2)])
  then show ?thesis unfolding run r'(1) option.case Let_def using 1 [unfolded Let_def] 2 by blast
qed

definition demo_moves :: journal where
  "demo_moves = so_moved (sort_folder (sorterCommand False None (\<lambda>_. False)) demo_folder)"

definition demo_json :: "string \<Rightarrow> string + (place \<times> place, string \<times> string) sort_json" where
  "demo_json s = Inr \<lparr>sj_ok = True, sj_error = [], sj_dryRun = False, sj_capped = False, sj_moved = PsMany demo_moves,
     sj_skipped = PsOne (''desktop.ini'', ''hidden''), sj_created = PsMany [''Images'', ''Other'']\<rparr>"

theorem recorded_sort_can_be_undone_witness:
  "case map_of (snd (runOne (demo_env demo_json) (\<lambda>n c. AnswerOutput ''warning DOMINION_RESULT {}'') (AList.delete ''wo_2'') [''laptop''] 10 20 False
        (''wo_1'', demo_order False) [(''wo_1'', demo_order False)])) ''wo_1'' of
     None \<Rightarrow> False
   | Some r' \<Rightarrow> undo_order (\<lambda>s. if s = demo_journal_text demo_moves then Some demo_moves else None) [''desktop'', ''laptop''] r'
       = UndoDispatch ''laptop'' (UndoCommand demo_moves)"
proof -
  let ?t = "[(''wo_1'', demo_order False)]" let ?parse = "\<lambda>s. if s = demo_journal_text demo_moves then Some demo_moves else None"
  have 1: "map_of (AList.delete ''wo_2'' ?t) ''wo_1'' = Some (demo_order False)" by simp
  have 2: "run_begin False [''laptop''] (demo_order False) = RunDispatch ''laptop'' (SortCommand ''/home/u/in'' False) False"
    by code_simp
  have 3: "distinct (map fst demo_folder)" "\<forall>d\<in>set SORT_FOLDERS. file_at demo_folder (None, d) = None" by code_simp+
  define rep where "rep = \<lparr>sr_ok = True, sr_error = [], sr_dryRun = False, sr_capped = False, sr_moved = demo_moves,
     sr_skipped = [(''desktop.ini'', ''hidden'')], sr_created = [''Images'', ''Other'']\<rparr>"
  have "after_last RESULT_MARK ''warning DOMINION_RESULT {}'' = Some ''{}''" by code_simp
  then have 4: "parseSorterResult (re_json (demo_env demo_json)) ''warning DOMINION_RESULT {}'' = Reading rep"
    by (simp add: parseSorterResult_def demo_env_def demo_json_def rep_def)
  have 5: "sr_ok rep" "sr_moved rep = so_moved (sort_folder (sorterCommand False None (\<lambda>_. False)) demo_folder)"
    by (simp_all add: rep_def demo_moves_def)
  have 6: "so_moved (sort_folder (sorterCommand False None (\<lambda>_. False)) demo_folder) \<noteq> []"
    "demo_journal_text demo_moves \<noteq> []" "length (demo_journal_text demo_moves) \<le> 60" by code_simp+
  have 7: "re_js_text (demo_env demo_json) = demo_journal_text" by (simp add: demo_env_def)
  note P = recorded_sort_can_be_undone [where meanwhile = "AList.delete ''wo_2''" and t = ?t and js_parse = ?parse
      and online' = "[''desktop'', ''laptop'']" and now = 10 and later = 20,
      OF 2 1 3 4 5 6(1), folded demo_moves_def, unfolded 7]
  have "length (demo_journal_text demo_moves) \<le> 400000" "wo_node (demo_order False) = ''laptop''"
    using 6(3) by (linarith, simp add: demo_order_def)
  then show ?thesis using P 6(2) by (auto split: option.splits)
qed

end
