(* ===== verification/ChatSync.thy ===== *)
theory ChatSync
  imports Prelude
begin

text \<open>
  \<open>chatsync.mjs\<close>: the copy of a user's conversations that their devices share.  Each chat carries one
  freshness clock per component (transcript, title, model, draft, forge state); a push is merged component
  by component, every accepted write gets the next revision, and a pull returns what is newer than a
  revision.  A message that is not an object is \<open>None\<close>; the byte length of a chat's JSON text is a parameter.
\<close>

section \<open>Data\<close>

definition MAX_CHATS :: nat where "MAX_CHATS = 300"
definition MAX_BYTES_PER_CHAT :: int where "MAX_BYTES_PER_CHAT = 1000000"
definition MAX_MESSAGES_PER_CHAT :: nat where "MAX_MESSAGES_PER_CHAT = 400"
definition TOMBSTONE_TTL_MS :: rat where "TOMBSTONE_TTL_MS = 15552000000"
definition MAX_PUSH_CHATS :: nat where "MAX_PUSH_CHATS = 60"

record attachment =
  at_kind :: string
  at_name :: string
  at_dataUrl :: string
  at_text :: string

record sync_msg =
  sm_role :: "string option"        \<comment> \<open>\<open>None\<close>: not a string\<close>
  sm_content :: string
  sm_attachments :: "attachment list"

record chat_body =
  cb_id :: string
  cb_title :: string
  cb_updatedAt :: rat
  cb_activityAt :: "rat option"
  cb_model :: "string option"
  cb_draft :: "string option"
  cb_lastMode :: "string option"
  cb_forgeTier :: "string option"
  cb_forgeMode :: "bool option"
  cb_transcriptAt :: "rat option"
  cb_trusted :: bool
  cb_titleAt :: "rat option"
  cb_modelAt :: "rat option"
  cb_draftAt :: "rat option"
  cb_forgeAt :: "rat option"
  cb_messages :: "sync_msg list"
  cb_truncated :: bool
  cb_rev :: nat

text \<open>A stored chat may keep the previous, longer version; that version keeps none of its own.\<close>

record sync_chat =
  ch_body :: chat_body
  ch_prev :: "chat_body option"

record tombstone =
  tm_deletedAt :: rat
  tm_at :: rat
  tm_rev :: nat

record sync_state =
  ss_rev :: nat
  ss_chats :: "(string \<times> sync_chat) list"
  ss_tombstones :: "(string \<times> tombstone) list"

record raw_chat =
  rw_id :: string                     \<comment> \<open>empty when it is not a string\<close>
  rw_title :: "string option"
  rw_updatedAt :: jsnum
  rw_activityAt :: "jsnum option"
  rw_model :: "string option"
  rw_draft :: "string option"
  rw_lastMode :: "string option"
  rw_forgeTier :: string
  rw_forgeMode :: "bool option"
  rw_transcriptAt :: jsnum
  rw_trusted :: bool
  rw_titleAt :: jsnum
  rw_modelAt :: jsnum
  rw_draftAt :: jsnum
  rw_forgeAt :: jsnum
  rw_messages :: "sync_msg option list"

section \<open>Normalizing a pushed chat\<close>

definition strip_attachment :: "attachment \<Rightarrow> attachment" where
  "strip_attachment a =
     (if at_kind a = ''image'' \<and> at_dataUrl a \<noteq> []
      then \<lparr>at_kind = ''image_ref'', at_name = (if at_name a = [] then ''image'' else at_name a), at_dataUrl = [], at_text = []\<rparr>
      else a)"

definition stripPixels :: "sync_msg option list \<Rightarrow> sync_msg option list" where
  "stripPixels ms = map (map_option (\<lambda>m. m\<lparr>sm_attachments := map strip_attachment (sm_attachments m)\<rparr>)) ms"

definition usable_messages :: "sync_msg option list \<Rightarrow> sync_msg list" where
  "usable_messages ms = filter (\<lambda>m. sm_role m \<noteq> None) (List.map_filter (\<lambda>m. m) (stripPixels ms))"

definition positive :: "jsnum \<Rightarrow> bool" where
  "positive x = (case x of None \<Rightarrow> False | Some r \<Rightarrow> 0 < r)"

text \<open>The clock a push carries for a component: its own, or the whole chat's.\<close>

definition raw_clock :: "rat \<Rightarrow> bool \<Rightarrow> jsnum \<Rightarrow> rat option" where
  "raw_clock updatedAt present v = (if \<not> present then None else if positive v then v else Some updatedAt)"

fun drop_head :: "(chat_body \<Rightarrow> int) \<Rightarrow> chat_body \<Rightarrow> sync_msg list \<Rightarrow> bool \<Rightarrow> sync_msg list \<times> bool" where
  "drop_head bytes c [] tr = ([], tr)"
| "drop_head bytes c (m # ms) tr =
     (if length (m # ms) > 2 \<and> bytes (c\<lparr>cb_messages := m # ms\<rparr>) > MAX_BYTES_PER_CHAT
      then drop_head bytes c ms True else (m # ms, tr))"

definition explicit_clock :: "raw_chat \<Rightarrow> bool" where
  "explicit_clock raw = (rw_trusted raw \<and> positive (rw_transcriptAt raw))"

definition forge_tier_of :: "raw_chat \<Rightarrow> string option" where
  "forge_tier_of raw = (if rw_forgeTier raw \<in> {''ember'', ''flame'', ''furnace''} then Some (rw_forgeTier raw) else None)"

text \<open>\<open>None\<close>: not a usable chat.\<close>

definition normalizeChat :: "(chat_body \<Rightarrow> int) \<Rightarrow> raw_chat \<Rightarrow> chat_body option" where
  "normalizeChat bytes raw =
     (let cid = take 120 (rw_id raw); updatedAt = or_zero (rw_updatedAt raw);
          ms = usable_messages (rw_messages raw);
          kept = slice_last MAX_MESSAGES_PER_CHAT ms;
          c = \<lparr>cb_id = cid,
               cb_title = (case rw_title raw of None \<Rightarrow> ''New chat'' | Some t \<Rightarrow> take 300 t),
               cb_updatedAt = updatedAt,
               cb_activityAt = map_option (\<lambda>v. max 0 (or_zero v)) (rw_activityAt raw),
               cb_model = map_option (take 160) (rw_model raw),
               cb_draft = map_option (js_slice 50000) (rw_draft raw),
               cb_lastMode = map_option (take 40) (rw_lastMode raw),
               cb_forgeTier = forge_tier_of raw,
               cb_forgeMode = rw_forgeMode raw,
               cb_transcriptAt = raw_clock updatedAt True (rw_transcriptAt raw),
               cb_trusted = explicit_clock raw,
               cb_titleAt = raw_clock updatedAt (rw_title raw \<noteq> None) (rw_titleAt raw),
               cb_modelAt = raw_clock updatedAt (rw_model raw \<noteq> None) (rw_modelAt raw),
               cb_draftAt = raw_clock updatedAt (rw_draft raw \<noteq> None) (rw_draftAt raw),
               cb_forgeAt = raw_clock updatedAt (forge_tier_of raw \<noteq> None \<or> rw_forgeMode raw \<noteq> None) (rw_forgeAt raw),
               cb_messages = kept, cb_truncated = False, cb_rev = 0\<rparr>;
          (ms', cut) = drop_head bytes c kept (length ms > MAX_MESSAGES_PER_CHAT)
      in if cid = [] \<or> updatedAt = 0 then None
         else Some (c\<lparr>cb_messages := ms', cb_truncated := cut\<rparr>))"

section \<open>Merging\<close>

definition clock_of :: "rat \<Rightarrow> rat option \<Rightarrow> rat" where
  "clock_of updatedAt v = (case v of Some r \<Rightarrow> if 0 < r then r else max 0 updatedAt | None \<Rightarrow> max 0 updatedAt)"

definition transcript_clock :: "chat_body \<Rightarrow> rat" where
  "transcript_clock c = clock_of (cb_updatedAt c) (cb_transcriptAt c)"
definition title_clock :: "chat_body \<Rightarrow> rat" where
  "title_clock c = clock_of (cb_updatedAt c) (cb_titleAt c)"
definition model_clock :: "chat_body \<Rightarrow> rat" where
  "model_clock c = clock_of (cb_updatedAt c) (cb_modelAt c)"
definition draft_clock :: "chat_body \<Rightarrow> rat" where
  "draft_clock c = clock_of (cb_updatedAt c) (cb_draftAt c)"
definition forge_clock :: "chat_body \<Rightarrow> rat" where
  "forge_clock c = clock_of (cb_updatedAt c) (cb_forgeAt c)"

definition set_clock :: "rat \<Rightarrow> bool \<Rightarrow> rat option \<Rightarrow> rat option" where
  "set_clock updatedAt needed v = (if needed \<and> \<not> positive v then Some (max 0 updatedAt) else v)"

definition normalizeStoredClocks :: "chat_body \<Rightarrow> chat_body" where
  "normalizeStoredClocks c =
     c\<lparr>cb_transcriptAt := set_clock (cb_updatedAt c) True (cb_transcriptAt c),
       cb_titleAt := set_clock (cb_updatedAt c) True (cb_titleAt c),
       cb_modelAt := set_clock (cb_updatedAt c) (cb_model c \<noteq> None) (cb_modelAt c),
       cb_draftAt := set_clock (cb_updatedAt c) (cb_draft c \<noteq> None) (cb_draftAt c),
       cb_forgeAt := set_clock (cb_updatedAt c) (cb_forgeTier c \<noteq> None \<or> cb_forgeMode c \<noteq> None) (cb_forgeAt c)\<rparr>"

definition override :: "'a option \<Rightarrow> 'a option \<Rightarrow> 'a option" where
  "override new old = (if new = None then old else new)"

text \<open>The transcript is taken when its clock is newer and the push is safe to believe.\<close>

definition takes_transcript :: "chat_body \<Rightarrow> chat_body \<Rightarrow> bool" where
  "takes_transcript stored inc \<longleftrightarrow>
     transcript_clock stored < transcript_clock inc
     \<and> (cb_trusted inc \<or> length (cb_messages stored) < length (cb_messages inc) \<or> cb_messages inc = cb_messages stored)"

definition takes_title :: "chat_body \<Rightarrow> chat_body \<Rightarrow> bool" where
  "takes_title stored inc \<longleftrightarrow> title_clock stored < title_clock inc"
definition takes_model :: "chat_body \<Rightarrow> chat_body \<Rightarrow> bool" where
  "takes_model stored inc \<longleftrightarrow> model_clock stored < model_clock inc \<and> cb_model inc \<noteq> None"
definition takes_draft :: "chat_body \<Rightarrow> chat_body \<Rightarrow> bool" where
  "takes_draft stored inc \<longleftrightarrow> draft_clock stored < draft_clock inc \<and> cb_draft inc \<noteq> None"
definition takes_forge :: "chat_body \<Rightarrow> chat_body \<Rightarrow> bool" where
  "takes_forge stored inc \<longleftrightarrow>
     forge_clock stored < forge_clock inc \<and> (cb_forgeTier inc \<noteq> None \<or> cb_forgeMode inc \<noteq> None)"

definition merge_transcript :: "chat_body \<Rightarrow> chat_body \<Rightarrow> chat_body \<Rightarrow> chat_body" where
  "merge_transcript stored inc m =
     (if takes_transcript stored inc
      then m\<lparr>cb_messages := cb_messages inc, cb_transcriptAt := Some (transcript_clock inc), cb_trusted := cb_trusted inc,
             cb_lastMode := override (cb_lastMode inc) (cb_lastMode m), cb_truncated := cb_truncated inc\<rparr>
      else m)"

definition merge_title :: "chat_body \<Rightarrow> chat_body \<Rightarrow> chat_body \<Rightarrow> chat_body" where
  "merge_title stored inc m =
     (if takes_title stored inc then m\<lparr>cb_title := cb_title inc, cb_titleAt := Some (title_clock inc)\<rparr> else m)"

definition merge_model :: "chat_body \<Rightarrow> chat_body \<Rightarrow> chat_body \<Rightarrow> chat_body" where
  "merge_model stored inc m =
     (if takes_model stored inc then m\<lparr>cb_model := cb_model inc, cb_modelAt := Some (model_clock inc)\<rparr> else m)"

definition merge_draft :: "chat_body \<Rightarrow> chat_body \<Rightarrow> chat_body \<Rightarrow> chat_body" where
  "merge_draft stored inc m =
     (if takes_draft stored inc then m\<lparr>cb_draft := cb_draft inc, cb_draftAt := Some (draft_clock inc)\<rparr> else m)"

definition merge_forge :: "chat_body \<Rightarrow> chat_body \<Rightarrow> chat_body \<Rightarrow> chat_body" where
  "merge_forge stored inc m =
     (if takes_forge stored inc
      then m\<lparr>cb_forgeTier := override (cb_forgeTier inc) (cb_forgeTier m),
             cb_forgeMode := override (cb_forgeMode inc) (cb_forgeMode m),
             cb_forgeAt := Some (forge_clock inc)\<rparr>
      else m)"

definition activity_of :: "chat_body \<Rightarrow> rat" where
  "activity_of c = (case cb_activityAt c of None \<Rightarrow> 0 | Some a \<Rightarrow> a)"

definition next_activity :: "chat_body \<Rightarrow> chat_body \<Rightarrow> rat" where
  "next_activity stored inc = max (activity_of stored) (activity_of inc)"

definition merge_activity :: "chat_body \<Rightarrow> chat_body \<Rightarrow> chat_body \<Rightarrow> chat_body" where
  "merge_activity stored inc m =
     (if next_activity stored inc \<noteq> activity_of stored then m\<lparr>cb_activityAt := Some (next_activity stored inc)\<rparr> else m)"

definition newest :: "chat_body \<Rightarrow> chat_body \<Rightarrow> chat_body \<Rightarrow> rat" where
  "newest stored inc m =
     max (cb_updatedAt stored) (max (cb_updatedAt inc) (max (transcript_clock m) (max (title_clock m)
       (max (model_clock m) (max (draft_clock m) (forge_clock m))))))"

text \<open>The components, before the chat's own \<open>updatedAt\<close> is raised.\<close>

definition merge_fields :: "chat_body \<Rightarrow> chat_body \<Rightarrow> chat_body" where
  "merge_fields stored inc =
     merge_activity stored inc (merge_forge stored inc (merge_draft stored inc (merge_model stored inc
       (merge_title stored inc (merge_transcript stored inc stored)))))"

definition merge_changed :: "chat_body \<Rightarrow> chat_body \<Rightarrow> bool" where
  "merge_changed stored inc \<longleftrightarrow>
     takes_transcript stored inc \<or> takes_title stored inc \<or> takes_model stored inc \<or> takes_draft stored inc
     \<or> takes_forge stored inc \<or> next_activity stored inc \<noteq> activity_of stored
     \<or> newest stored inc (merge_fields stored inc) \<noteq> cb_updatedAt stored"

text \<open>The merged chat, whether anything changed, and whether the messages changed.\<close>

definition mergeChat :: "chat_body \<Rightarrow> chat_body \<Rightarrow> chat_body \<times> bool \<times> bool" where
  "mergeChat stored0 inc =
     (let stored = normalizeStoredClocks stored0; m = merge_fields stored inc
      in (m\<lparr>cb_updatedAt := newest stored inc m\<rparr>, merge_changed stored inc,
          takes_transcript stored inc \<and> cb_messages inc \<noteq> cb_messages stored))"

section \<open>The store\<close>

definition prune_chats :: "(string \<times> sync_chat) list \<Rightarrow> (string \<times> sync_chat) list" where
  "prune_chats cs =
     (if length cs > MAX_CHATS
      then let gone = map fst (drop MAX_CHATS (sort_key (\<lambda>(_, c). - cb_updatedAt (ch_body c)) cs))
           in filter (\<lambda>(i, _). i \<notin> set gone) cs
      else cs)"

definition tomb_time :: "tombstone \<Rightarrow> rat" where
  "tomb_time t = (if tm_at t \<noteq> 0 then tm_at t else tm_deletedAt t)"

definition prune :: "rat \<Rightarrow> sync_state \<Rightarrow> sync_state" where
  "prune now st = st\<lparr>ss_chats := prune_chats (ss_chats st),
     ss_tombstones := filter (\<lambda>(_, t). \<not> tomb_time t < now - TOMBSTONE_TTL_MS) (ss_tombstones st)\<rparr>"

record pull_reply =
  pl_rev :: nat
  pl_chats :: "chat_body list"
  pl_deleted :: "(string \<times> rat) list"

text \<open>Pulling fills in missing clocks of the chats it returns, in the store as well.\<close>

definition pull :: "nat \<Rightarrow> sync_state \<Rightarrow> pull_reply \<times> sync_state" where
  "pull since st =
     (let fill = (\<lambda>c. if cb_rev (ch_body c) > since then c\<lparr>ch_body := normalizeStoredClocks (ch_body c)\<rparr> else c);
          st' = st\<lparr>ss_chats := map (\<lambda>(i, c). (i, fill c)) (ss_chats st)\<rparr>
      in (\<lparr>pl_rev = ss_rev st,
           pl_chats = sort_key cb_rev (filter (\<lambda>b. cb_rev b > since) (map (\<lambda>(_, c). ch_body c) (ss_chats st'))),
           pl_deleted = map (\<lambda>(i, t). (i, tm_deletedAt t)) (filter (\<lambda>(_, t). tm_rev t > since) (ss_tombstones st))\<rparr>, st'))"

datatype push_verdict = PushAccepted nat bool | PushMalformed | PushDeleted | PushStale

text \<open>The version kept before a shorter transcript replaces a longer one.\<close>

definition insured :: "sync_chat option \<Rightarrow> bool \<Rightarrow> chat_body \<Rightarrow> chat_body option" where
  "insured stored transcriptChanged nxt =
     (case stored of
        None \<Rightarrow> None
      | Some s \<Rightarrow> if transcriptChanged \<and> length (cb_messages nxt) < length (cb_messages (ch_body s))
                  then Some (normalizeStoredClocks (ch_body s)) else ch_prev s)"

definition write_chat :: "chat_body \<Rightarrow> chat_body option \<Rightarrow> sync_state \<Rightarrow> push_verdict \<times> sync_state" where
  "write_chat nxt prv st =
     (let b = nxt\<lparr>cb_rev := ss_rev st + 1\<rparr>
      in (PushAccepted (ss_rev st + 1) (cb_truncated nxt),
          st\<lparr>ss_rev := ss_rev st + 1, ss_chats := AList.update (cb_id nxt) \<lparr>ch_body = b, ch_prev = prv\<rparr> (ss_chats st)\<rparr>))"

definition new_chat :: "chat_body \<Rightarrow> chat_body" where
  "new_chat c = (let n = normalizeStoredClocks c
     in if cb_activityAt n = None then n\<lparr>cb_activityAt := Some (cb_updatedAt n)\<rparr> else n)"

definition push_one :: "(chat_body \<Rightarrow> int) \<Rightarrow> raw_chat option \<Rightarrow> sync_state \<Rightarrow> push_verdict \<times> sync_state" where
  "push_one bytes raw st =
     (case Option.bind raw (normalizeChat bytes) of
        None \<Rightarrow> (PushMalformed, st)
      | Some c \<Rightarrow>
          if (case map_of (ss_tombstones st) (cb_id c) of None \<Rightarrow> False | Some t \<Rightarrow> tm_deletedAt t \<ge> cb_updatedAt c)
          then (PushDeleted, st)
          else
            let st1 = st\<lparr>ss_tombstones := AList.delete (cb_id c) (ss_tombstones st)\<rparr> in
            case map_of (ss_chats st1) (cb_id c) of
              None \<Rightarrow> write_chat (new_chat c) None st1
            | Some s \<Rightarrow>
                (case mergeChat (ch_body s) c of
                   (m, changed, transcriptChanged) \<Rightarrow>
                     if \<not> changed then (PushStale, st1\<lparr>ss_chats := row_upd (cb_id c) (\<lambda>x. x\<lparr>ch_body := normalizeStoredClocks (ch_body x)\<rparr>) (ss_chats st1)\<rparr>)
                     else write_chat m (insured (Some s) transcriptChanged m) st1))"

fun push_all :: "(chat_body \<Rightarrow> int) \<Rightarrow> raw_chat option list \<Rightarrow> sync_state \<Rightarrow> push_verdict list \<times> sync_state" where
  "push_all bytes [] st = ([], st)"
| "push_all bytes (r # rs) st =
     (let (v, st1) = push_one bytes r st; (vs, st2) = push_all bytes rs st1 in (v # vs, st2))"

definition bury :: "rat \<Rightarrow> rat \<Rightarrow> string \<Rightarrow> sync_state \<Rightarrow> sync_state" where
  "bury now deletedAt i st =
     st\<lparr>ss_chats := AList.delete i (ss_chats st), ss_rev := ss_rev st + 1,
        ss_tombstones := AList.update i \<lparr>tm_deletedAt = deletedAt, tm_at = now, tm_rev = ss_rev st + 1\<rparr> (ss_tombstones st)\<rparr>"

definition delete_one :: "rat \<Rightarrow> string \<times> jsnum \<Rightarrow> sync_state \<Rightarrow> sync_state" where
  "delete_one now d st =
     (let i = take 120 (fst d); deletedAt = num_or (snd d) now in
      if i = [] then st
      else if (case map_of (ss_chats st) i of None \<Rightarrow> False | Some s \<Rightarrow> cb_updatedAt (ch_body s) > deletedAt) then st
      else bury now deletedAt i st)"

text \<open>A push up to its last step, the pruning.\<close>

definition push_core ::
  "(chat_body \<Rightarrow> int) \<Rightarrow> rat \<Rightarrow> raw_chat option list \<Rightarrow> (string \<times> jsnum) list \<Rightarrow> sync_state \<Rightarrow> push_verdict list \<times> sync_state" where
  "push_core bytes now chats deletes st =
     (let (vs, st1) = push_all bytes (take MAX_PUSH_CHATS chats) st
      in (vs, fold (delete_one now) (take MAX_PUSH_CHATS deletes) st1))"

definition push ::
  "(chat_body \<Rightarrow> int) \<Rightarrow> rat \<Rightarrow> raw_chat option list \<Rightarrow> (string \<times> jsnum) list \<Rightarrow> sync_state \<Rightarrow> push_verdict list \<times> sync_state" where
  "push bytes now chats deletes st =
     (let (vs, st2) = push_core bytes now chats deletes st in (vs, prune now st2))"

definition remove_chat :: "rat \<Rightarrow> string \<Rightarrow> rat \<Rightarrow> sync_state \<Rightarrow> nat \<times> sync_state" where
  "remove_chat now i deletedAt st =
     (if i = [] then (0, st) else ((if map_of (ss_chats st) i \<noteq> None then 1 else 0), bury now deletedAt i st))"

section \<open>Merging twice\<close>

lemmas merge_defs = merge_fields_def merge_transcript_def merge_title_def merge_model_def merge_draft_def merge_forge_def
  merge_activity_def

lemma merge_fields_sel [simp]:
  "cb_id (merge_fields s c) = cb_id s" "cb_updatedAt (merge_fields s c) = cb_updatedAt s" "cb_rev (merge_fields s c) = cb_rev s"
  "cb_messages (merge_fields s c) = (if takes_transcript s c then cb_messages c else cb_messages s)"
  "cb_transcriptAt (merge_fields s c) = (if takes_transcript s c then Some (transcript_clock c) else cb_transcriptAt s)"
  "cb_titleAt (merge_fields s c) = (if takes_title s c then Some (title_clock c) else cb_titleAt s)"
  "cb_model (merge_fields s c) = (if takes_model s c then cb_model c else cb_model s)"
  "cb_modelAt (merge_fields s c) = (if takes_model s c then Some (model_clock c) else cb_modelAt s)"
  "cb_draft (merge_fields s c) = (if takes_draft s c then cb_draft c else cb_draft s)"
  "cb_draftAt (merge_fields s c) = (if takes_draft s c then Some (draft_clock c) else cb_draftAt s)"
  "cb_forgeTier (merge_fields s c) = (if takes_forge s c then override (cb_forgeTier c) (cb_forgeTier s) else cb_forgeTier s)"
  "cb_forgeMode (merge_fields s c) = (if takes_forge s c then override (cb_forgeMode c) (cb_forgeMode s) else cb_forgeMode s)"
  "cb_forgeAt (merge_fields s c) = (if takes_forge s c then Some (forge_clock c) else cb_forgeAt s)"
  "cb_activityAt (merge_fields s c)
     = (if next_activity s c \<noteq> activity_of s then Some (next_activity s c) else cb_activityAt s)"
  by (simp_all add: merge_defs)

lemma clock_of_nonneg [simp]: "0 \<le> clock_of u v"
  by (simp add: clock_of_def split: option.splits)

lemma clock_of_pos: "0 < r \<Longrightarrow> clock_of u (Some r) = r"
  by (simp add: clock_of_def)

lemma clock_of_le: "positive v \<Longrightarrow> clock_of u v = clock_of u' v"
  by (simp add: positive_def clock_of_def split: option.splits)

lemma clock_of_mono: "u \<le> u' \<Longrightarrow> clock_of u v \<le> clock_of u' v"
  by (auto simp: clock_of_def max_def split: option.splits)

lemma clock_normal [simp]:
  "transcript_clock (normalizeStoredClocks c) = transcript_clock c" "title_clock (normalizeStoredClocks c) = title_clock c"
  "model_clock (normalizeStoredClocks c) = model_clock c" "draft_clock (normalizeStoredClocks c) = draft_clock c"
  "forge_clock (normalizeStoredClocks c) = forge_clock c"
  by (auto simp: normalizeStoredClocks_def transcript_clock_def title_clock_def model_clock_def draft_clock_def
      forge_clock_def set_clock_def clock_of_def positive_def max_def split: option.splits)

lemma normal_sel [simp]:
  "cb_id (normalizeStoredClocks c) = cb_id c" "cb_updatedAt (normalizeStoredClocks c) = cb_updatedAt c"
  "cb_messages (normalizeStoredClocks c) = cb_messages c" "cb_rev (normalizeStoredClocks c) = cb_rev c"
  "cb_activityAt (normalizeStoredClocks c) = cb_activityAt c" "activity_of (normalizeStoredClocks c) = activity_of c"
  by (simp_all add: normalizeStoredClocks_def activity_of_def)

lemma normal_idem [simp]: "normalizeStoredClocks (normalizeStoredClocks c) = normalizeStoredClocks c"
  by (simp add: normalizeStoredClocks_def set_clock_def positive_def split: option.splits)

text \<open>A component that was not taken, or was, is not newer in the same push when \<open>updatedAt\<close> has grown.\<close>

lemma clock_settled:
  assumes "u \<le> u'"
  shows "\<not> clock_of u old < new \<Longrightarrow> \<not> clock_of u' old < new" and "clock_of u old < new \<Longrightarrow> clock_of u' (Some new) = new"
  using clock_of_mono [OF assms, of old] clock_of_nonneg [of u old] by (simp, metis clock_of_pos le_less_trans)

lemma settled:
  assumes "u \<le> u'" and "took \<longleftrightarrow> clock_of u old < new \<and> b" and "v = (if took then Some new else old)"
  shows "\<not> (clock_of u' v < new \<and> b)"
  using clock_settled [OF assms(1), of old new] assms(2,3) by (cases took) auto

lemma merge_fields_none:
  "\<not> takes_transcript s c \<Longrightarrow> \<not> takes_title s c \<Longrightarrow> \<not> takes_model s c \<Longrightarrow> \<not> takes_draft s c \<Longrightarrow> \<not> takes_forge s c \<Longrightarrow>
   next_activity s c = activity_of s \<Longrightarrow> merge_fields s c = s"
  by (simp add: merge_defs)

lemmas clock_defs = transcript_clock_def title_clock_def model_clock_def draft_clock_def forge_clock_def

lemma newest_ge:
  "cb_updatedAt s \<le> newest s c m" "cb_updatedAt c \<le> newest s c m" "transcript_clock m \<le> newest s c m"
  "title_clock m \<le> newest s c m" "model_clock m \<le> newest s c m" "draft_clock m \<le> newest s c m" "forge_clock m \<le> newest s c m"
  unfolding newest_def by (simp_all only: le_max_iff_disj order_refl simp_thms)

lemma clock_of_raised: "0 \<le> u' \<Longrightarrow> clock_of u v \<le> u' \<Longrightarrow> clock_of u' v \<le> u'"
  by (auto simp: clock_of_def split: option.splits if_splits)

lemma merge_settles:
  assumes pos: "0 < cb_updatedAt s" and m: "m = fst (mergeChat s c)"
  shows "\<not> merge_changed (normalizeStoredClocks m) c" and "fst (mergeChat m c) = normalizeStoredClocks m"
proof -
  let ?n = "normalizeStoredClocks s" let ?f = "merge_fields ?n c" let ?U = "newest ?n c ?f"
  have md: "m = ?f\<lparr>cb_updatedAt := ?U\<rparr>" using m by (simp add: mergeChat_def Let_def)
  let ?k = "normalizeStoredClocks m"
  have u: "cb_updatedAt s \<le> ?U" using newest_ge(1) [of ?n c ?f] by simp
  then have U0: "0 \<le> ?U" using pos by linarith
  note st = clock_settled [OF u]
  have mm: "cb_messages m = (if takes_transcript ?n c then cb_messages c else cb_messages s)" using md by simp
  have m_at: "cb_updatedAt m = ?U" "cb_transcriptAt m = cb_transcriptAt ?f" "cb_titleAt m = cb_titleAt ?f"
    "cb_modelAt m = cb_modelAt ?f" "cb_draftAt m = cb_draftAt ?f" "cb_forgeAt m = cb_forgeAt ?f"
    by (simp_all add: md)
  have t1: "\<not> takes_transcript ?k c"
  proof (cases "takes_transcript ?n c")
    case True
    then have "transcript_clock s < transcript_clock c" by (simp add: takes_transcript_def)
    then have "0 < transcript_clock c"
      by (metis clock_of_nonneg le_less_trans transcript_clock_def)
    then have "transcript_clock m = transcript_clock c"
      using True by (simp add: md transcript_clock_def [of "_\<lparr>cb_updatedAt := _\<rparr>"] clock_of_pos)
    then show ?thesis by (simp add: takes_transcript_def)
  next
    case False
    have eq: "transcript_clock m = clock_of ?U (cb_transcriptAt ?n)" "transcript_clock s = clock_of (cb_updatedAt s) (cb_transcriptAt ?n)"
      using False clock_normal(1) [of s] by (simp_all add: md transcript_clock_def)
    have "\<not> transcript_clock s < transcript_clock c \<longrightarrow> \<not> transcript_clock m < transcript_clock c"
      unfolding eq using st(1) by blast
    then show ?thesis using False mm by (auto simp: takes_transcript_def)
  qed
  have "takes_title ?n c \<longleftrightarrow> clock_of (cb_updatedAt s) (cb_titleAt ?n) < title_clock c \<and> (True)"
    unfolding takes_title_def title_clock_def [of ?n] normal_sel by simp
  note st2 = settled [OF u this refl]
  have "title_clock m = clock_of ?U (if takes_title ?n c then Some (title_clock c) else cb_titleAt ?n)"
    by (simp only: title_clock_def [of m] m_at merge_fields_sel)
  with st2 have t2: "\<not> takes_title ?k c"
    unfolding takes_title_def [of ?k c] clock_normal by (simp only: simp_thms not_False_eq_True)
  have "takes_model ?n c \<longleftrightarrow> clock_of (cb_updatedAt s) (cb_modelAt ?n) < model_clock c \<and> (cb_model c \<noteq> None)"
    unfolding takes_model_def model_clock_def [of ?n] normal_sel by simp
  note st3 = settled [OF u this refl]
  have "model_clock m = clock_of ?U (if takes_model ?n c then Some (model_clock c) else cb_modelAt ?n)"
    by (simp only: model_clock_def [of m] m_at merge_fields_sel)
  with st3 have t3: "\<not> takes_model ?k c"
    unfolding takes_model_def [of ?k c] clock_normal by (simp only: simp_thms not_False_eq_True)
  have "takes_draft ?n c \<longleftrightarrow> clock_of (cb_updatedAt s) (cb_draftAt ?n) < draft_clock c \<and> (cb_draft c \<noteq> None)"
    unfolding takes_draft_def draft_clock_def [of ?n] normal_sel by simp
  note st4 = settled [OF u this refl]
  have "draft_clock m = clock_of ?U (if takes_draft ?n c then Some (draft_clock c) else cb_draftAt ?n)"
    by (simp only: draft_clock_def [of m] m_at merge_fields_sel)
  with st4 have t4: "\<not> takes_draft ?k c"
    unfolding takes_draft_def [of ?k c] clock_normal by (simp only: simp_thms not_False_eq_True)
  have "takes_forge ?n c \<longleftrightarrow> clock_of (cb_updatedAt s) (cb_forgeAt ?n) < forge_clock c \<and> (cb_forgeTier c \<noteq> None \<or> cb_forgeMode c \<noteq> None)"
    unfolding takes_forge_def forge_clock_def [of ?n] normal_sel by simp
  note st5 = settled [OF u this refl]
  have "forge_clock m = clock_of ?U (if takes_forge ?n c then Some (forge_clock c) else cb_forgeAt ?n)"
    by (simp only: forge_clock_def [of m] m_at merge_fields_sel)
  with st5 have t5: "\<not> takes_forge ?k c"
    unfolding takes_forge_def [of ?k c] clock_normal by (simp only: simp_thms not_False_eq_True)
  have "cb_activityAt m = (if next_activity ?n c \<noteq> activity_of s then Some (next_activity ?n c) else cb_activityAt s)"
    by (simp add: md)
  then have "activity_of m = next_activity ?n c"
    by (cases "next_activity ?n c = activity_of s") (simp_all add: activity_of_def [of m] activity_of_def [of s])
  then have t6: "next_activity ?k c = activity_of ?k" by (simp add: next_activity_def)
  have le: "clock_of ?U v \<le> ?U" if "clock_of (cb_updatedAt ?f) v \<le> ?U" for v using clock_of_raised [OF U0 that] .
  note g = newest_ge(3-7) [of ?f ?n c, unfolded clock_defs, THEN le]
  have "transcript_clock m \<le> ?U" "title_clock m \<le> ?U" "model_clock m \<le> ?U" "draft_clock m \<le> ?U" "forge_clock m \<le> ?U"
    unfolding clock_defs m_at by (fact g)+
  then have t7: "newest ?k c ?k = cb_updatedAt ?k"
    using newest_ge(2) [of c ?n ?f] by (simp add: newest_def [of ?k] m_at(1))
  have f: "merge_fields ?k c = ?k" using merge_fields_none [OF t1 t2 t3 t4 t5 t6] .
  show "\<not> merge_changed ?k c" using t1 t2 t3 t4 t5 t6 t7 f by (simp add: merge_changed_def)
  show "fst (mergeChat m c) = ?k" using f t7 by (simp add: mergeChat_def Let_def)
qed

end
