(* ===== verification/ChatSync_Facts.thy ===== *)
theory ChatSync_Facts
  imports ChatSync
begin

text \<open>
  What devices can rely on: revisions tell exactly what changed, a transcript is never lost to a stale
  device, and pushing the same chat again is refused as stale.
\<close>

section \<open>Revisions\<close>

definition sync_inv :: "sync_state \<Rightarrow> bool" where
  "sync_inv st \<longleftrightarrow>
     distinct (map fst (ss_chats st)) \<and> distinct (map fst (ss_tombstones st))
     \<and> (\<forall>i s. map_of (ss_chats st) i = Some s \<longrightarrow> cb_id (ch_body s) = i \<and> cb_rev (ch_body s) \<le> ss_rev st)
     \<and> (\<forall>i t. map_of (ss_tombstones st) i = Some t \<longrightarrow> tm_rev t \<le> ss_rev st \<and> map_of (ss_chats st) i = None)"

lemma sync_invD:
  assumes "sync_inv st"
  shows "distinct (map fst (ss_chats st))" "distinct (map fst (ss_tombstones st))"
    "map_of (ss_chats st) i = Some s \<Longrightarrow> cb_id (ch_body s) = i \<and> cb_rev (ch_body s) \<le> ss_rev st"
    "map_of (ss_tombstones st) i = Some t \<Longrightarrow> tm_rev t \<le> ss_rev st \<and> map_of (ss_chats st) i = None"
  using assms unfolding sync_inv_def by blast+

text \<open>Two stored versions that differ only in clocks that were filled in.\<close>

definition same_chat :: "sync_chat \<Rightarrow> sync_chat \<Rightarrow> bool" where
  "same_chat s s' \<longleftrightarrow> normalizeStoredClocks (ch_body s') = normalizeStoredClocks (ch_body s)"

lemma same_chat_refl [simp]: "same_chat s s"
  by (simp add: same_chat_def)

lemma same_chat_trans: "same_chat a b \<Longrightarrow> same_chat b c \<Longrightarrow> same_chat a c"
  by (simp add: same_chat_def)

text \<open>What is different after \<open>st'\<close> carries a revision above \<open>r\<close>.\<close>

definition chat_news :: "nat \<Rightarrow> sync_state \<Rightarrow> sync_state \<Rightarrow> string \<Rightarrow> bool" where
  "chat_news r st st' i \<longleftrightarrow>
     (case map_of (ss_chats st') i of
        Some s' \<Rightarrow> r < cb_rev (ch_body s') \<or> (\<exists>s. map_of (ss_chats st) i = Some s \<and> same_chat s s')
      | None \<Rightarrow> map_of (ss_chats st) i = None \<or> (\<exists>t. map_of (ss_tombstones st') i = Some t \<and> r < tm_rev t))"

definition grave_kept :: "sync_state \<Rightarrow> sync_state \<Rightarrow> string \<Rightarrow> bool" where
  "grave_kept st st' i \<longleftrightarrow>
     (case map_of (ss_tombstones st) i of
        None \<Rightarrow> True
      | Some t \<Rightarrow> map_of (ss_chats st') i \<noteq> None \<or> (\<exists>t'. map_of (ss_tombstones st') i = Some t' \<and> (t' = t \<or> ss_rev st < tm_rev t')))"

definition rev_step :: "sync_state \<Rightarrow> sync_state \<Rightarrow> bool" where
  "rev_step st st' \<longleftrightarrow> ss_rev st \<le> ss_rev st' \<and> (\<forall>i. chat_news (ss_rev st) st st' i) \<and> (\<forall>i. grave_kept st st' i)"

lemma same_chat_rev: "same_chat s s' \<Longrightarrow> cb_rev (ch_body s') = cb_rev (ch_body s)"
  unfolding same_chat_def by (metis normal_sel(4))

lemma rev_step_refl: "rev_step st st"
  by (simp add: rev_step_def chat_news_def grave_kept_def split: option.splits)

lemma rev_step_trans:
  assumes 1: "rev_step a b" and 2: "rev_step b c"
  shows "rev_step a c"
proof -
  have r: "ss_rev a \<le> ss_rev b" "ss_rev b \<le> ss_rev c" using 1 2 by (simp_all add: rev_step_def)
  have "chat_news (ss_rev a) a c i \<and> grave_kept a c i" for i
  proof -
    have n1: "chat_news (ss_rev a) a b i" and n2: "chat_news (ss_rev b) b c i"
      and g1: "grave_kept a b i" and g2: "grave_kept b c i" using 1 2 by (simp_all add: rev_step_def)
    have dead: "\<exists>t. map_of (ss_tombstones c) i = Some t \<and> ss_rev a < tm_rev t"
      if "map_of (ss_chats c) i = None" "map_of (ss_tombstones b) i = Some t" "ss_rev a < tm_rev t" for t
      using g2 that r(1) by (auto simp: grave_kept_def)
    have killed: "\<exists>t. map_of (ss_tombstones c) i = Some t \<and> ss_rev a < tm_rev t"
      if "map_of (ss_chats c) i = None" "map_of (ss_chats b) i = Some s" for s
      using n2 that r(1) by (auto simp: chat_news_def)
    have "chat_news (ss_rev a) a c i"
    proof (cases "map_of (ss_chats c) i")
      case None
      then show ?thesis using n1 dead killed by (cases "map_of (ss_chats b) i") (auto simp: chat_news_def)
    next
      case (Some s')
      then consider "ss_rev b < cb_rev (ch_body s')" | s where "map_of (ss_chats b) i = Some s" "same_chat s s'"
        using n2 by (auto simp: chat_news_def)
      then show ?thesis
      proof cases
        case 1
        then show ?thesis using Some r by (simp add: chat_news_def)
      next
        case (2 s)
        then show ?thesis using n1 Some same_chat_rev [OF 2(2)] same_chat_trans [OF _ 2(2)]
          by (auto simp: chat_news_def)
      qed
    qed
    moreover have "grave_kept a c i"
    proof (cases "map_of (ss_tombstones a) i")
      case (Some t)
      then show ?thesis
        using g1 g2 killed r(1) by (cases "map_of (ss_chats b) i"; cases "map_of (ss_chats c) i") (auto simp: grave_kept_def)
    qed (simp add: grave_kept_def)
    ultimately show ?thesis ..
  qed
  then show ?thesis using r by (simp add: rev_step_def)
qed

section \<open>Every operation is a step\<close>

text \<open>A write, a burial, and filling in clocks.\<close>

lemma step_put:
  assumes inv: "sync_inv st" and b: "cb_id (ch_body x) = i" "cb_rev (ch_body x) = ss_rev st + 1"
  shows "sync_inv \<lparr>ss_rev = ss_rev st + 1, ss_chats = AList.update i x (ss_chats st), ss_tombstones = AList.delete i (ss_tombstones st)\<rparr>
    \<and> rev_step st \<lparr>ss_rev = ss_rev st + 1, ss_chats = AList.update i x (ss_chats st), ss_tombstones = AList.delete i (ss_tombstones st)\<rparr>"
    (is "sync_inv ?s \<and> rev_step st ?s")
proof -
  note D = sync_invD [OF inv]
  have "sync_inv ?s"
    unfolding sync_inv_def using D b
    by (auto simp: map_of_update map_of_delete distinct_update distinct_delete le_Suc_eq simp del: map_of_eq_Some_iff split: if_splits)
  moreover have "chat_news (ss_rev st) st ?s k" for k
    using b by (auto simp: chat_news_def map_of_update map_of_delete split: option.splits)
  moreover have "grave_kept st ?s k" for k
    by (auto simp: grave_kept_def map_of_update map_of_delete split: option.splits)
  ultimately show ?thesis by (simp add: rev_step_def)
qed

lemma step_bury:
  assumes inv: "sync_inv st"
  shows "sync_inv (bury now d i st) \<and> rev_step st (bury now d i st)"
proof -
  note D = sync_invD [OF inv]
  let ?s = "bury now d i st"
  have look: "map_of (ss_chats ?s) k = (if k = i then None else map_of (ss_chats st) k)"
    "map_of (ss_tombstones ?s) k = (if k = i then Some \<lparr>tm_deletedAt = d, tm_at = now, tm_rev = ss_rev st + 1\<rparr> else map_of (ss_tombstones st) k)"
    "ss_rev ?s = ss_rev st + 1" for k
    by (simp_all add: bury_def map_of_update map_of_delete)
  have "distinct (map fst (ss_chats ?s))" "distinct (map fst (ss_tombstones ?s))"
    using D(1,2) by (simp_all add: bury_def distinct_update distinct_delete)
  then have "sync_inv ?s" unfolding sync_inv_def look using D(3,4) by (auto simp: le_Suc_eq simp del: map_of_eq_Some_iff split: if_splits)
  moreover have "chat_news (ss_rev st) st ?s k" for k by (auto simp: chat_news_def look split: option.splits)
  moreover have "grave_kept st ?s k" for k by (auto simp: grave_kept_def look split: option.splits)
  ultimately show ?thesis by (simp add: rev_step_def look)
qed

lemma step_fill:
  assumes inv: "sync_inv st"
    and dist: "distinct (map fst cs)"
    and look: "\<And>k. map_of cs k = map_option (\<lambda>x. if P k x then x\<lparr>ch_body := normalizeStoredClocks (ch_body x)\<rparr> else x) (map_of (ss_chats st) k)"
  shows "sync_inv (st\<lparr>ss_chats := cs\<rparr>) \<and> rev_step st (st\<lparr>ss_chats := cs\<rparr>)"
proof -
  note D = sync_invD [OF inv]
  have "sync_inv (st\<lparr>ss_chats := cs\<rparr>)"
    unfolding sync_inv_def using D dist by (auto simp: look simp del: map_of_eq_Some_iff)
  moreover have "chat_news (ss_rev st) st (st\<lparr>ss_chats := cs\<rparr>) k" for k
    by (auto simp: chat_news_def look same_chat_def split: option.splits)
  moreover have "grave_kept st (st\<lparr>ss_chats := cs\<rparr>) k" for k
    by (auto simp: grave_kept_def look split: option.splits)
  ultimately show ?thesis by (simp add: rev_step_def)
qed

lemma fill_all_look:
  "map_of (map (\<lambda>(i, c). (i, f c)) cs) k = map_option f (map_of cs k)"
  by (induction cs) auto

lemma step_pull: "sync_inv st \<Longrightarrow> sync_inv (snd (pull since st)) \<and> rev_step st (snd (pull since st))"
  unfolding pull_def Let_def snd_conv
  by (rule step_fill [where P = "\<lambda>k c. cb_rev (ch_body c) > since"])
    (auto simp: fill_all_look comp_def case_prod_beta dest: sync_invD(1) cong: option.map_cong)

lemma state_all [simp]:
  "st\<lparr>ss_tombstones := a, ss_rev := b, ss_chats := c\<rparr> = \<lparr>ss_rev = b, ss_chats = c, ss_tombstones = a\<rparr>"
  by (cases st) simp

lemma new_chat_id [simp]: "cb_id (new_chat c) = cb_id c"
  by (simp add: new_chat_def Let_def)

text \<open>The ways a push can end, on a usable chat.\<close>

lemma push_one_cases [consumes 2, case_names refused stale accepted]:
  assumes "sync_inv st" "push_one bytes raw st = (v, st')"
  obtains (refused) "st' = st" "v = PushMalformed \<or> v = PushDeleted"
  | (stale) c s where "Option.bind raw (normalizeChat bytes) = Some c" "map_of (ss_chats st) (cb_id c) = Some s"
      "\<not> merge_changed (normalizeStoredClocks (ch_body s)) c" "v = PushStale"
      "ss_rev st' = ss_rev st" "map_of (ss_tombstones st) (cb_id c) = None"
      "ss_tombstones st' = AList.delete (cb_id c) (ss_tombstones st)"
      "ss_chats st' = row_upd (cb_id c) (\<lambda>x. x\<lparr>ch_body := normalizeStoredClocks (ch_body x)\<rparr>) (ss_chats st)"
  | (accepted) c nxt prv where "Option.bind raw (normalizeChat bytes) = Some c" "cb_id nxt = cb_id c"
      "v = PushAccepted (ss_rev st + 1) (cb_truncated nxt)"
      "nxt = (case map_of (ss_chats st) (cb_id c) of None \<Rightarrow> new_chat c | Some s \<Rightarrow> fst (mergeChat (ch_body s) c))"
      "prv = (case map_of (ss_chats st) (cb_id c) of None \<Rightarrow> None
         | Some s \<Rightarrow> insured (Some s) (snd (snd (mergeChat (ch_body s) c))) nxt)"
      "st' = \<lparr>ss_rev = ss_rev st + 1,
         ss_chats = AList.update (cb_id c) \<lparr>ch_body = nxt\<lparr>cb_rev := ss_rev st + 1\<rparr>, ch_prev = prv\<rparr> (ss_chats st),
         ss_tombstones = AList.delete (cb_id c) (ss_tombstones st)\<rparr>"
proof (cases "Option.bind raw (normalizeChat bytes)")
  case None
  then show ?thesis using assms(2) refused by (simp add: push_one_def)
next
  case (Some c)
  let ?old = "case map_of (ss_tombstones st) (cb_id c) of None \<Rightarrow> False | Some t \<Rightarrow> tm_deletedAt t \<ge> cb_updatedAt c"
  show ?thesis
  proof (cases ?old)
    case True
    then show ?thesis using assms(2) Some refused by (simp add: push_one_def)
  next
    case live: False
    show ?thesis
    proof (cases "map_of (ss_chats st) (cb_id c)")
      case None
      show ?thesis
        by (rule accepted [OF Some, of "new_chat c" None])
          (use assms(2) Some live None in \<open>simp_all add: push_one_def write_chat_def Let_def\<close>)
    next
      case (Some s)
      note bind = \<open>Option.bind raw (normalizeChat bytes) = Some c\<close>
      obtain m ch tr where mc: "mergeChat (ch_body s) c = (m, ch, tr)" by (metis prod_cases3)
      have cid: "cb_id m = cb_id c"
        using mc sync_invD(3) [OF assms(1) Some] by (auto simp: mergeChat_def Let_def)
      have ch: "ch = merge_changed (normalizeStoredClocks (ch_body s)) c" using mc by (simp add: mergeChat_def Let_def)
      show ?thesis
      proof (cases ch)
        case False
        have "map_of (ss_tombstones st) (cb_id c) = None"
          using sync_invD(4) [OF assms(1), of "cb_id c"] Some by (cases "map_of (ss_tombstones st) (cb_id c)") auto
        then show ?thesis
          using assms(2) bind live Some mc ch False by (intro stale [OF bind Some]) (auto simp: push_one_def Let_def)
      next
        case True
        then show ?thesis
          using assms(2) bind live Some mc cid
          by (intro accepted [OF bind, of m "insured (Some s) tr m"]) (simp_all add: push_one_def write_chat_def Let_def)
      qed
    qed
  qed
qed

lemma step_push_one:
  assumes inv: "sync_inv st" and p: "push_one bytes raw st = (v, st')"
  shows "sync_inv st' \<and> rev_step st st'"
  using assms
proof (cases rule: push_one_cases)
  case refused
  then show ?thesis using inv rev_step_refl by simp
next
  case (stale c s)
  have tombs: "AList.delete (cb_id c) (ss_tombstones st) = ss_tombstones st"
    using stale(6) by (simp add: map_of_eq_None_iff delete_idem)
  have st': "st' = st\<lparr>ss_chats := row_upd (cb_id c) (\<lambda>x. x\<lparr>ch_body := normalizeStoredClocks (ch_body x)\<rparr>) (ss_chats st)\<rparr>"
    using stale(5,7,8) tombs by (cases st, cases st') simp
  show ?thesis unfolding st'
    by (rule step_fill [OF inv, where P = "\<lambda>k x. k = cb_id c"])
      (use sync_invD(1) [OF inv] in \<open>auto simp: map_of_row_upd option.map_ident\<close>)
next
  case (accepted c nxt prv)
  show ?thesis unfolding accepted(6) by (rule step_put [OF inv]) (simp_all add: accepted(2))
qed

lemma step_push_all: "sync_inv st \<Longrightarrow> sync_inv (snd (push_all bytes rs st)) \<and> rev_step st (snd (push_all bytes rs st))"
proof (induction rs arbitrary: st)
  case Nil
  then show ?case by (simp add: rev_step_refl)
next
  case (Cons r rs)
  obtain v st1 where p: "push_one bytes r st = (v, st1)" by (metis surj_pair)
  then have "sync_inv st1" "rev_step st st1" using step_push_one [OF Cons.prems p] by simp_all
  then show ?case using Cons.IH [of st1] p rev_step_trans by (auto simp: case_prod_beta)
qed

lemma step_delete_one: "sync_inv st \<Longrightarrow> sync_inv (delete_one now d st) \<and> rev_step st (delete_one now d st)"
  using step_bury by (simp add: delete_one_def Let_def rev_step_refl)

lemma step_deletes: "sync_inv st \<Longrightarrow> sync_inv (fold (delete_one now) ds st) \<and> rev_step st (fold (delete_one now) ds st)"
proof (induction ds arbitrary: st)
  case (Cons d ds)
  then show ?case using step_delete_one [OF Cons.prems, of now d] Cons.IH [of "delete_one now d st"] rev_step_trans
    by (simp) blast
qed (simp add: rev_step_refl)

lemma step_push_core:
  "sync_inv st \<Longrightarrow> sync_inv (snd (push_core bytes now chats deletes st)) \<and> rev_step st (snd (push_core bytes now chats deletes st))"
  using step_push_all [of st bytes "take MAX_PUSH_CHATS chats"] step_deletes rev_step_trans
  by (auto simp: push_core_def case_prod_beta)

section \<open>Pruning\<close>

lemma sort_key_split:
  fixes f :: "'a \<Rightarrow> rat"
  assumes "x \<in> set (take n (sort_key f xs))" "y \<in> set (drop n (sort_key f xs))"
  shows "f x \<le> f y"
proof -
  have "sorted (map f (take n (sort_key f xs) @ drop n (sort_key f xs)))" by simp
  then show ?thesis using assms unfolding map_append sorted_append by auto
qed

lemma prune_chats_spec:
  assumes d: "distinct (map fst cs)"
  shows "length (prune_chats cs) \<le> MAX_CHATS"
    and "set (prune_chats cs) \<subseteq> set cs" and "distinct (map fst (prune_chats cs))"
    and "(i, a) \<in> set (prune_chats cs) \<Longrightarrow> (j, b) \<in> set cs - set (prune_chats cs) \<Longrightarrow>
         cb_updatedAt (ch_body b) \<le> cb_updatedAt (ch_body a)"
proof -
  let ?f = "\<lambda>(_ :: string, c). - cb_updatedAt (ch_body c)" let ?t = "sort_key ?f cs"
  let ?gone = "map fst (drop MAX_CHATS ?t)"
  have fst_eq: "x = y" if "x \<in> set cs" "y \<in> set cs" "fst x = fst y" for x y
    using d that by (meson distinct_map inj_onD)
  have in_gone: "fst x \<in> set ?gone \<longleftrightarrow> x \<in> set (drop MAX_CHATS ?t)" if "x \<in> set cs" for x
  proof
    assume "fst x \<in> set ?gone"
    then obtain y where y: "y \<in> set (drop MAX_CHATS ?t)" "fst y = fst x" by auto
    then have "y \<in> set cs" using in_set_dropD [OF y(1)] by simp
    then show "x \<in> set (drop MAX_CHATS ?t)" using fst_eq [OF _ that y(2)] y(1) by simp
  qed simp
  have eq: "prune_chats cs = filter (\<lambda>x. x \<notin> set (drop MAX_CHATS ?t)) cs" if "length cs > MAX_CHATS"
  proof -
    have "prune_chats cs = filter (\<lambda>x. fst x \<notin> set ?gone) cs"
      using that by (simp add: prune_chats_def Let_def case_prod_unfold)
    also have "\<dots> = filter (\<lambda>x. x \<notin> set (drop MAX_CHATS ?t)) cs" by (rule filter_cong [OF refl]) (simp only: in_gone)
    finally show ?thesis .
  qed
  have ds: "distinct ?t" using d by (simp add: distinct_map)
  have mem: "x \<in> set (prune_chats cs) \<longleftrightarrow> x \<in> set (take MAX_CHATS ?t)" if "length cs > MAX_CHATS" for x
  proof -
    have "set (take MAX_CHATS ?t) \<inter> set (drop MAX_CHATS ?t) = {}" using ds by (rule set_take_disj_set_drop_if_distinct) simp
    moreover have "set (take MAX_CHATS ?t) \<union> set (drop MAX_CHATS ?t) = set cs"
      by (metis append_take_drop_id set_append set_sort)
    ultimately show ?thesis using eq [OF that] by auto
  qed
  show "set (prune_chats cs) \<subseteq> set cs" by (auto simp: prune_chats_def Let_def)
  show dp: "distinct (map fst (prune_chats cs))" using d by (simp add: prune_chats_def Let_def distinct_map_filter)
  show "length (prune_chats cs) \<le> MAX_CHATS"
  proof (cases "length cs > MAX_CHATS")
    case True
    have "length (prune_chats cs) = card (set (prune_chats cs))" using dp by (simp add: distinct_card distinct_map)
    also have "\<dots> = card (set (take MAX_CHATS ?t))" using mem [OF True] by (metis equalityI subsetI)
    also have "\<dots> \<le> MAX_CHATS" by (metis card_length length_take min.bounded_iff order.refl)
    finally show ?thesis .
  qed (simp add: prune_chats_def)
  show "cb_updatedAt (ch_body b) \<le> cb_updatedAt (ch_body a)"
    if "(i, a) \<in> set (prune_chats cs)" "(j, b) \<in> set cs - set (prune_chats cs)"
  proof (cases "length cs > MAX_CHATS")
    case True
    have "(i, a) \<in> set (take MAX_CHATS ?t)" using mem [OF True] that(1) by blast
    moreover have "(j, b) \<in> set (drop MAX_CHATS ?t)" using eq [OF True] that(2) by auto
    ultimately show ?thesis using sort_key_split [of "(i, a)" MAX_CHATS ?f cs "(j, b)"] by simp
  qed (use that in \<open>simp add: prune_chats_def\<close>)
qed

section \<open>The revision number is not part of a merge\<close>

lemma rev_clocks [simp]:
  "transcript_clock (x\<lparr>cb_rev := k\<rparr>) = transcript_clock x" "title_clock (x\<lparr>cb_rev := k\<rparr>) = title_clock x"
  "model_clock (x\<lparr>cb_rev := k\<rparr>) = model_clock x" "draft_clock (x\<lparr>cb_rev := k\<rparr>) = draft_clock x"
  "forge_clock (x\<lparr>cb_rev := k\<rparr>) = forge_clock x" "activity_of (x\<lparr>cb_rev := k\<rparr>) = activity_of x"
  by (simp_all add: clock_defs activity_of_def)

lemma rev_takes [simp]:
  "takes_transcript (x\<lparr>cb_rev := k\<rparr>) c = takes_transcript x c" "takes_title (x\<lparr>cb_rev := k\<rparr>) c = takes_title x c"
  "takes_model (x\<lparr>cb_rev := k\<rparr>) c = takes_model x c" "takes_draft (x\<lparr>cb_rev := k\<rparr>) c = takes_draft x c"
  "takes_forge (x\<lparr>cb_rev := k\<rparr>) c = takes_forge x c" "next_activity (x\<lparr>cb_rev := k\<rparr>) c = next_activity x c"
  by (simp_all add: takes_transcript_def takes_title_def takes_model_def takes_draft_def takes_forge_def next_activity_def)

lemma rev_normal [simp]: "normalizeStoredClocks (x\<lparr>cb_rev := k\<rparr>) = (normalizeStoredClocks x)\<lparr>cb_rev := k\<rparr>"
  by (simp add: normalizeStoredClocks_def)

lemma rev_merge:
  "merge_transcript (s\<lparr>cb_rev := k\<rparr>) c (m\<lparr>cb_rev := k\<rparr>) = (merge_transcript s c m)\<lparr>cb_rev := k\<rparr>"
  "merge_title (s\<lparr>cb_rev := k\<rparr>) c (m\<lparr>cb_rev := k\<rparr>) = (merge_title s c m)\<lparr>cb_rev := k\<rparr>"
  "merge_model (s\<lparr>cb_rev := k\<rparr>) c (m\<lparr>cb_rev := k\<rparr>) = (merge_model s c m)\<lparr>cb_rev := k\<rparr>"
  "merge_draft (s\<lparr>cb_rev := k\<rparr>) c (m\<lparr>cb_rev := k\<rparr>) = (merge_draft s c m)\<lparr>cb_rev := k\<rparr>"
  "merge_forge (s\<lparr>cb_rev := k\<rparr>) c (m\<lparr>cb_rev := k\<rparr>) = (merge_forge s c m)\<lparr>cb_rev := k\<rparr>"
  "merge_activity (s\<lparr>cb_rev := k\<rparr>) c (m\<lparr>cb_rev := k\<rparr>) = (merge_activity s c m)\<lparr>cb_rev := k\<rparr>"
  by (simp_all add: merge_transcript_def merge_title_def merge_model_def merge_draft_def merge_forge_def merge_activity_def)

lemma rev_fields [simp]: "merge_fields (x\<lparr>cb_rev := k\<rparr>) c = (merge_fields x c)\<lparr>cb_rev := k\<rparr>"
  by (simp only: merge_fields_def rev_merge)

lemma rev_changed [simp]: "merge_changed (x\<lparr>cb_rev := k\<rparr>) c = merge_changed x c"
proof -
  have "cb_updatedAt (x\<lparr>cb_rev := k\<rparr>) = cb_updatedAt x" by simp
  then show ?thesis by (simp only: merge_changed_def newest_def rev_takes rev_fields rev_clocks)
qed

section \<open>Properties\<close>

lemma pulled_chat:
  "map_of (ss_chats st) i = Some s \<Longrightarrow> since < cb_rev (ch_body s) \<Longrightarrow>
   normalizeStoredClocks (ch_body s) \<in> set (pl_chats (fst (pull since st)))"
  by (force simp: pull_def Let_def dest: map_of_SomeD)

lemma pulled_grave:
  "map_of (ss_tombstones st) i = Some t \<Longrightarrow> since < tm_rev t \<Longrightarrow> (i, tm_deletedAt t) \<in> set (pl_deleted (fst (pull since st)))"
  by (force simp: pull_def Let_def dest: map_of_SomeD)

text \<open>The graves dug after a revision carry the server's time.\<close>

definition new_graves :: "nat \<Rightarrow> rat \<Rightarrow> sync_state \<Rightarrow> bool" where
  "new_graves r now st \<longleftrightarrow> (\<forall>i t. map_of (ss_tombstones st) i = Some t \<longrightarrow> r < tm_rev t \<longrightarrow> tm_at t = now)"

lemma new_graves_push_one: "new_graves r now st \<Longrightarrow> new_graves r now (snd (push_one bytes raw st))"
  by (auto simp: new_graves_def push_one_def write_chat_def Let_def map_of_delete
      split: option.splits prod.splits if_splits)

lemma new_graves_push_all: "new_graves r now st \<Longrightarrow> new_graves r now (snd (push_all bytes rs st))"
  by (induction rs arbitrary: st) (simp_all add: case_prod_beta new_graves_push_one)

lemma new_graves_delete_one: "new_graves r now st \<Longrightarrow> new_graves r now (delete_one now d st)"
  by (auto simp: new_graves_def delete_one_def bury_def Let_def map_of_update)

lemma new_graves_push_core:
  assumes "sync_inv st"
  shows "new_graves (ss_rev st) now (snd (push_core bytes now chats deletes st))"
proof -
  have "new_graves r now s \<Longrightarrow> new_graves r now (fold (delete_one now) ds s)" for r s ds
    by (induction ds arbitrary: s) (simp_all add: new_graves_delete_one)
  moreover have "new_graves (ss_rev st) now st"
    using sync_invD(4) [OF assms] by (fastforce simp: new_graves_def)
  ultimately show ?thesis by (simp add: push_core_def case_prod_beta new_graves_push_all)
qed

lemma prune_look:
  assumes "sync_inv st"
  shows "map_of (ss_chats (prune now st)) i = Some s \<Longrightarrow> map_of (ss_chats st) i = Some s"
    and "map_of (ss_tombstones (prune now st)) i = Some t \<longleftrightarrow>
      map_of (ss_tombstones st) i = Some t \<and> \<not> tomb_time t < now - TOMBSTONE_TTL_MS"
proof -
  note d = sync_invD(1,2) [OF assms]
  show "map_of (ss_chats (prune now st)) i = Some s \<Longrightarrow> map_of (ss_chats st) i = Some s"
    using prune_chats_spec(2) [OF d(1)] d(1) by (auto simp: prune_def dest!: map_of_SomeD intro: map_of_is_SomeI)
  have "distinct (map fst (ss_tombstones (prune now st)))" using d(2) by (simp add: prune_def distinct_map_filter)
  then show "map_of (ss_tombstones (prune now st)) i = Some t \<longleftrightarrow>
      map_of (ss_tombstones st) i = Some t \<and> \<not> tomb_time t < now - TOMBSTONE_TTL_MS"
    using d(2) by (auto simp: prune_def)
qed

lemma sync_inv_prune:
  assumes "sync_inv st"
  shows "sync_inv (prune now st)"
proof -
  note d = sync_invD [OF assms] and p = prune_look [OF assms]
  have "distinct (map fst (ss_chats (prune now st)))" using prune_chats_spec(3) [OF d(1)] by (simp add: prune_def)
  moreover have "distinct (map fst (ss_tombstones (prune now st)))" using d(2) by (simp add: prune_def distinct_map_filter)
  moreover have "ss_rev (prune now st) = ss_rev st" by (simp add: prune_def)
  moreover have "map_of (ss_chats (prune now st)) i = None" if "map_of (ss_chats st) i = None" for i
    using p(1) [of now i] that by (cases "map_of (ss_chats (prune now st)) i") auto
  ultimately show ?thesis using d(3,4) p unfolding sync_inv_def by metis
qed

text \<open>C39: What an incremental pull reports after a push.  Take any state and any push (chats and deletes), with the
  pruning at its end.  A device that was up to date before the push and asks for everything after its revision
  receives every stored chat whose stored form changed or is new, and the identifier of every chat that the push
  deleted.  A chat that disappears otherwise is not reported: it was dropped because more than 300 chats were stored,
  and none that was kept is older than it.  The push keeps the store's invariant (one entry per identifier, none both
  alive and deleted, no revision above the counter) and leaves at most 300 chats.\<close>

theorem pull_reports_every_change:
  assumes inv: "sync_inv st" and clock: "0 < now"
    and core: "core = snd (push_core bytes now chats deletes st)"
    and p: "st' = snd (push bytes now chats deletes st)"
  shows "sync_inv st' \<and> ss_rev st \<le> ss_rev st' \<and> length (ss_chats st') \<le> MAX_CHATS
    \<and> (\<forall>i s'. map_of (ss_chats st') i = Some s' \<longrightarrow>
         (\<exists>s. map_of (ss_chats st) i = Some s \<and> same_chat s s')
         \<or> normalizeStoredClocks (ch_body s') \<in> set (pl_chats (fst (pull (ss_rev st) st'))))
    \<and> (\<forall>i. map_of (ss_chats st) i \<noteq> None \<longrightarrow> map_of (ss_chats st') i = None \<longrightarrow>
         (case map_of (ss_chats core) i of
            None \<Rightarrow> i \<in> fst ` set (pl_deleted (fst (pull (ss_rev st) st')))
          | Some y \<Rightarrow> i \<notin> fst ` set (pl_deleted (fst (pull (ss_rev st) st')))
              \<and> length (ss_chats core) > MAX_CHATS
              \<and> (\<forall>x \<in> set (ss_chats st'). cb_updatedAt (ch_body y) \<le> cb_updatedAt (ch_body (snd x)))))"
proof -
  have c: "sync_inv core" "rev_step st core" and g: "new_graves (ss_rev st) now core"
    using step_push_core [OF inv] new_graves_push_core [OF inv] by (simp_all add: core)
  have st': "st' = prune now core" by (simp add: p core push_def case_prod_beta)
  note look = prune_look [OF c(1), where now = now, folded st']
  have news: "chat_news (ss_rev st) st core i" for i using c(2) by (simp add: rev_step_def)
  have kept: "ss_chats st' = prune_chats (ss_chats core)" by (simp add: st' prune_def)
  note pc = prune_chats_spec [OF sync_invD(1) [OF c(1)], folded kept]
  have inv': "sync_inv st'" unfolding st' by (rule sync_inv_prune [OF c(1)])
  have alive: "(\<exists>s. map_of (ss_chats st) i = Some s \<and> same_chat s s')
      \<or> normalizeStoredClocks (ch_body s') \<in> set (pl_chats (fst (pull (ss_rev st) st')))"
    if "map_of (ss_chats st') i = Some s'" for i s'
    using news [of i] pulled_chat [OF that, of "ss_rev st"] look(1) [OF that] by (auto simp: chat_news_def)
  have lost: "case map_of (ss_chats core) i of
       None \<Rightarrow> i \<in> fst ` set (pl_deleted (fst (pull (ss_rev st) st')))
     | Some y \<Rightarrow> i \<notin> fst ` set (pl_deleted (fst (pull (ss_rev st) st')))
         \<and> length (ss_chats core) > MAX_CHATS
         \<and> (\<forall>x \<in> set (ss_chats st'). cb_updatedAt (ch_body y) \<le> cb_updatedAt (ch_body (snd x)))"
    if was: "map_of (ss_chats st) i \<noteq> None" and gone: "map_of (ss_chats st') i = None" for i
  proof (cases "map_of (ss_chats core) i")
    case None
    then obtain t where t: "map_of (ss_tombstones core) i = Some t" "ss_rev st < tm_rev t"
      using news [of i] was by (auto simp: chat_news_def)
    then have "tm_at t = now" using g by (simp add: new_graves_def)
    then have "map_of (ss_tombstones st') i = Some t"
      using look(2) [of i t] t clock by (simp add: tomb_time_def TOMBSTONE_TTL_MS_def)
    then show ?thesis using pulled_grave [of st' i t "ss_rev st"] t(2) None by (force intro: rev_image_eqI)
  next
    case (Some y)
    have "map_of (ss_tombstones core) i = None"
      using sync_invD(4) [OF c(1), of i] Some by (cases "map_of (ss_tombstones core) i") auto
    then have "map_of (ss_tombstones st') i = None" using look(2) [of i] by (cases "map_of (ss_tombstones st') i") auto
    then have "i \<notin> fst ` set (ss_tombstones st')" by (simp add: map_of_eq_None_iff)
    then have silent: "i \<notin> fst ` set (pl_deleted (fst (pull (ss_rev st) st')))" by (force simp: pull_def Let_def)
    have out: "(i, y) \<in> set (ss_chats core) - set (ss_chats st')"
      using map_of_SomeD [OF Some] gone by (force simp: map_of_eq_None_iff)
    then have "length (ss_chats core) > MAX_CHATS" by (auto simp: kept prune_chats_def split: if_splits)
    moreover have "\<forall>x \<in> set (ss_chats st'). cb_updatedAt (ch_body y) \<le> cb_updatedAt (ch_body (snd x))"
      using pc(4) [OF _ out] by (metis prod.collapse)
    ultimately show ?thesis using Some silent by simp
  qed
  have "ss_rev st \<le> ss_rev st'" using c(2) by (simp add: rev_step_def st' prune_def)
  then show ?thesis using inv' pc(1) alive lost by blast
qed

definition demo_raw :: "string \<Rightarrow> rat \<Rightarrow> bool \<Rightarrow> string list \<Rightarrow> raw_chat" where
  "demo_raw i t trusted texts = \<lparr>rw_id = i, rw_title = Some ''Plans'', rw_updatedAt = Some t, rw_activityAt = None, rw_model = None,
     rw_draft = None, rw_lastMode = None, rw_forgeTier = [], rw_forgeMode = None, rw_transcriptAt = Some t, rw_trusted = trusted,
     rw_titleAt = None, rw_modelAt = None, rw_draftAt = None, rw_forgeAt = None,
     rw_messages = map (\<lambda>x. Some \<lparr>sm_role = Some ''user'', sm_content = x, sm_attachments = []\<rparr>) texts\<rparr>"

definition demo_sync :: sync_state where
  "demo_sync = snd (push_core (\<lambda>c. 10) 900 [Some (demo_raw ''c1'' 100 True [''one'', ''two'', ''three'']), Some (demo_raw ''c2'' 100 True [''hi''])]
     [(''c3'', Some 50)] \<lparr>ss_rev = 0, ss_chats = [], ss_tombstones = []\<rparr>)"

lemma demo_sync_inv: "sync_inv demo_sync"
  unfolding demo_sync_def by (rule step_push_core [THEN conjunct1]) (simp add: sync_inv_def)

theorem pull_reports_every_change_witness:
  "let st' = snd (push (\<lambda>c. 10) 950 [Some (demo_raw ''c1'' 200 False [''one'', ''two'', ''three'', ''four''])] [(''c2'', Some 300)] demo_sync) in
     ss_rev demo_sync = 3 \<and> ''c2'' \<in> fst ` set (pl_deleted (fst (pull 3 st')))"
proof -
  let ?chats = "[Some (demo_raw ''c1'' 200 False [''one'', ''two'', ''three'', ''four''])]" and ?dels = "[(''c2'', Some 300)]"
  let ?core = "snd (push_core (\<lambda>c. 10) 950 ?chats ?dels demo_sync)" and ?st' = "snd (push (\<lambda>c. 10) 950 ?chats ?dels demo_sync)"
  have f: "ss_rev demo_sync = 3" "map_of (ss_chats demo_sync) ''c2'' \<noteq> None" "map_of (ss_chats ?st') ''c2'' = None"
    "map_of (ss_chats ?core) ''c2'' = None" by code_simp+
  note P = pull_reports_every_change [OF demo_sync_inv _ refl refl, of 950 "\<lambda>c. 10" ?chats ?dels]
  have "(0 :: rat) < 950" by simp
  note conjunct2 [OF conjunct2 [OF conjunct2 [OF conjunct2 [OF P [OF this]]]], rule_format, OF f(2,3), unfolded f(4) option.case]
  then show ?thesis unfolding Let_def f(1) using f(1) by simp
qed

text \<open>C38: A stale device cannot erase a conversation.  When a push is accepted onto a stored chat, the stored
  messages stay as they are unless the push's transcript clock is newer than the stored one and the push
  either names that clock explicitly or brings more messages; and when it replaces them by fewer, the
  stored version, with all its messages, is kept as the previous one.\<close>

theorem transcript_survives:
  assumes inv: "sync_inv st" and p: "push_one bytes (Some raw) st = (PushAccepted r tr, st')"
    and c: "normalizeChat bytes raw = Some c" and old: "map_of (ss_chats st) (cb_id c) = Some s"
  shows "\<exists>s'. map_of (ss_chats st') (cb_id c) = Some s' \<and>
    (cb_messages (ch_body s') = cb_messages (ch_body s)
     \<or> cb_messages (ch_body s') = cb_messages c
       \<and> transcript_clock (ch_body s) < transcript_clock c
       \<and> (explicit_clock raw \<or> length (cb_messages (ch_body s)) < length (cb_messages c))
       \<and> (length (cb_messages c) < length (cb_messages (ch_body s)) \<longrightarrow>
            map_option cb_messages (ch_prev s') = Some (cb_messages (ch_body s))))"
  using inv p
proof (cases rule: push_one_cases)
  case (accepted c' nxt prv)
  have cc: "c' = c" using accepted(1) c by simp
  have tr: "cb_trusted c = explicit_clock raw"
    using c by (auto simp: normalizeChat_def Let_def case_prod_beta split: if_splits)
  let ?n = "normalizeStoredClocks (ch_body s)"
  have nxt: "nxt = fst (mergeChat (ch_body s) c)" using accepted(4) old cc by simp
  then have ms: "cb_messages nxt = (if takes_transcript ?n c then cb_messages c else cb_messages (ch_body s))"
    by (simp add: mergeChat_def Let_def)
  have trc: "snd (snd (mergeChat (ch_body s) c)) = (takes_transcript ?n c \<and> cb_messages c \<noteq> cb_messages (ch_body s))"
    by (simp add: mergeChat_def Let_def)
  let ?s' = "\<lparr>ch_body = nxt\<lparr>cb_rev := ss_rev st + 1\<rparr>, ch_prev = prv\<rparr>"
  have look: "map_of (ss_chats st') (cb_id c) = Some ?s'" using accepted(6) cc by (simp add: map_of_update)
  have prv: "prv = insured (Some s) (takes_transcript ?n c \<and> cb_messages c \<noteq> cb_messages (ch_body s)) nxt"
    using accepted(5) old cc trc by simp
  show ?thesis
  proof (cases "takes_transcript ?n c \<and> cb_messages c \<noteq> cb_messages (ch_body s)")
    case True
    then have "transcript_clock (ch_body s) < transcript_clock c"
      "explicit_clock raw \<or> length (cb_messages (ch_body s)) < length (cb_messages c)"
      using tr by (auto simp: takes_transcript_def)
    moreover have "length (cb_messages c) < length (cb_messages (ch_body s)) \<longrightarrow> map_option cb_messages prv = Some (cb_messages (ch_body s))"
      using True ms prv by (simp add: insured_def)
    ultimately show ?thesis using look ms True by simp
  next
    case False
    then show ?thesis using look ms by auto
  qed
qed auto

theorem transcript_survives_witness:
  "\<exists>s'. map_of (ss_chats (snd (push_one (\<lambda>c. 10) (Some (demo_raw ''c1'' 200 True [''one''])) demo_sync))) ''c1'' = Some s'
     \<and> (length (cb_messages (ch_body s')) = 1 \<longrightarrow> map_option (length \<circ> cb_messages) (ch_prev s') = Some 3)"
proof -
  let ?raw = "demo_raw ''c1'' 200 True [''one'']"
  have "case normalizeChat (\<lambda>c. 10) ?raw of None \<Rightarrow> False | Some c \<Rightarrow> cb_id c = ''c1'' \<and> length (cb_messages c) = 1" by code_simp
  then obtain c where c: "normalizeChat (\<lambda>c. 10) ?raw = Some c" "cb_id c = ''c1''" "length (cb_messages c) = 1"
    by (auto split: option.splits)
  have "case map_of (ss_chats demo_sync) ''c1'' of None \<Rightarrow> False | Some s \<Rightarrow> length (cb_messages (ch_body s)) = 3" by code_simp
  then obtain s where s: "map_of (ss_chats demo_sync) ''c1'' = Some s" "length (cb_messages (ch_body s)) = 3"
    by (auto split: option.splits)
  have "case fst (push_one (\<lambda>c. 10) (Some ?raw) demo_sync) of PushAccepted r t \<Rightarrow> r = 4 \<and> \<not> t | _ \<Rightarrow> False" by code_simp
  then obtain r t where p: "push_one (\<lambda>c. 10) (Some ?raw) demo_sync = (PushAccepted r t, snd (push_one (\<lambda>c. 10) (Some ?raw) demo_sync))"
    by (auto split: push_verdict.splits simp: prod_eq_iff)
  have old: "map_of (ss_chats demo_sync) (cb_id c) = Some s" using s(1) c(2) by simp
  from transcript_survives [OF demo_sync_inv p c(1) old] obtain s' where
    s': "map_of (ss_chats (snd (push_one (\<lambda>c. 10) (Some ?raw) demo_sync))) ''c1'' = Some s'"
    "cb_messages (ch_body s') = cb_messages (ch_body s) \<or> map_option cb_messages (ch_prev s') = Some (cb_messages (ch_body s))"
    using c s(2) by auto
  show ?thesis using s' s(2) by (intro exI [of _ s']) (auto simp: option.map_comp [symmetric])
qed

text \<open>Retrying a push is harmless: when a chat was accepted onto a stored one, pushing the same chat again
  is refused as stale and leaves revisions, deletions and every chat as they were.\<close>

theorem repeated_push_is_stale:
  assumes inv: "sync_inv st" and p: "push_one bytes (Some raw) st = (PushAccepted r tr, st')"
    and c: "normalizeChat bytes raw = Some c" and old: "map_of (ss_chats st) (cb_id c) = Some s"
    and dated: "0 < cb_updatedAt (ch_body s)"
  shows "fst (push_one bytes (Some raw) st') = PushStale
    \<and> ss_rev (snd (push_one bytes (Some raw) st')) = ss_rev st'
    \<and> (\<forall>i. map_of (ss_tombstones (snd (push_one bytes (Some raw) st'))) i = map_of (ss_tombstones st') i)
    \<and> (\<forall>i. rel_option same_chat (map_of (ss_chats st') i) (map_of (ss_chats (snd (push_one bytes (Some raw) st'))) i))"
  using inv p
proof (cases rule: push_one_cases)
  case (accepted c' nxt prv)
  have cc: "c' = c" using accepted(1) c by simp
  have nxt: "nxt = fst (mergeChat (ch_body s) c)" using accepted(4) old cc by simp
  let ?b = "nxt\<lparr>cb_rev := ss_rev st + 1\<rparr>"
  have tomb: "map_of (ss_tombstones st') (cb_id c) = None" using accepted(6) cc by (simp add: map_of_delete)
  have look: "map_of (ss_chats st') (cb_id c) = Some \<lparr>ch_body = ?b, ch_prev = prv\<rparr>"
    using accepted(6) cc by (simp add: map_of_update)
  have settled_nxt: "\<not> merge_changed (normalizeStoredClocks nxt) c" by (rule merge_settles(1) [OF dated nxt])
  have again: "push_one bytes (Some raw) st' = (PushStale, st'\<lparr>ss_tombstones := AList.delete (cb_id c) (ss_tombstones st'),
      ss_chats := row_upd (cb_id c) (\<lambda>x. x\<lparr>ch_body := normalizeStoredClocks (ch_body x)\<rparr>) (ss_chats st')\<rparr>)"
    using c tomb look settled_nxt by (simp add: push_one_def mergeChat_def Let_def)
  show ?thesis unfolding again
    using tomb by (auto simp: map_of_delete map_of_row_upd same_chat_def option.rel_map option.rel_refl_strong)
qed auto

theorem repeated_push_is_stale_witness:
  "let st' = snd (push_one (\<lambda>c. 10) (Some (demo_raw ''c1'' 200 False [''one'', ''two'', ''three'', ''four''])) demo_sync) in
     ss_rev st' = 4 \<and> fst (push_one (\<lambda>c. 10) (Some (demo_raw ''c1'' 200 False [''one'', ''two'', ''three'', ''four''])) st') = PushStale"
proof -
  let ?raw = "demo_raw ''c1'' 200 False [''one'', ''two'', ''three'', ''four'']" let ?st' = "snd (push_one (\<lambda>c. 10) (Some ?raw) demo_sync)"
  have "case normalizeChat (\<lambda>c. 10) ?raw of None \<Rightarrow> False | Some c \<Rightarrow> cb_id c = ''c1''" by code_simp
  then obtain c where c: "normalizeChat (\<lambda>c. 10) ?raw = Some c" "cb_id c = ''c1''" by (auto split: option.splits)
  have "case map_of (ss_chats demo_sync) ''c1'' of None \<Rightarrow> False | Some s \<Rightarrow> 0 < cb_updatedAt (ch_body s)" by code_simp
  then obtain s where s: "map_of (ss_chats demo_sync) (cb_id c) = Some s" "0 < cb_updatedAt (ch_body s)"
    using c(2) by (auto split: option.splits)
  have "case fst (push_one (\<lambda>c. 10) (Some ?raw) demo_sync) of PushAccepted r t \<Rightarrow> r = 4 \<and> \<not> t | _ \<Rightarrow> False" by code_simp
  then obtain r t where p: "push_one (\<lambda>c. 10) (Some ?raw) demo_sync = (PushAccepted r t, ?st')"
    by (auto split: push_verdict.splits simp: prod_eq_iff)
  have "ss_rev ?st' = 4" by code_simp
  then show ?thesis unfolding Let_def using repeated_push_is_stale [OF demo_sync_inv p c(1) s] by blast
qed

end
