(* ===== verification/UsageLimits.thy ===== *)
theory UsageLimits
  imports Prelude
begin

text \<open>
  \<open>usage-limits.mjs\<close>: what each model round spent of its output ceiling, an append-only log of it, and the
  summary from which a ceiling is suggested.  The JSON text of a record and its parser are parameters;
  file sizes are counted in characters.
\<close>

section \<open>Strings\<close>

definition KEEP :: nat where "KEEP = 2000"
definition MAX_LOG_BYTES :: int where "MAX_LOG_BYTES = 8388608"
definition MIN_SAMPLES_FOR_VERDICT :: nat where "MIN_SAMPLES_FOR_VERDICT = 30"
definition BINDING_HIT_FRACTION :: rat where "BINDING_HIT_FRACTION = 5 / 100"

definition is_token_char :: "char \<Rightarrow> bool" where
  "is_token_char c = (let n = (of_char c :: nat) in 48 \<le> n \<and> n \<le> 57 \<or> 65 \<le> n \<and> n \<le> 90 \<or> 97 \<le> n \<and> n \<le> 122)"

definition safeToken :: "string \<Rightarrow> int \<Rightarrow> string \<Rightarrow> string" where
  "safeToken value maxLen extra =
     js_slice maxLen (filter (\<lambda>c. is_token_char c \<or> c \<in> set extra) (takeWhile (\<lambda>c. \<not> is_ws c) (js_trim value)))"

definition safeModel :: "string \<Rightarrow> string" where
  "safeModel v = safeToken v 80 ''._/:@-''"

definition safeMode :: "string \<Rightarrow> string" where
  "safeMode v = (let t = lowercase (safeToken v 24 ''_-'') in if t = [] then ''normal'' else t)"

definition KNOWN_FINISH :: "string list" where
  "KNOWN_FINISH = [''stop'', ''tool_calls'', ''length'', ''max_tokens'', ''max_output_tokens'', ''token_limit'', ''content_filter'',
     ''insufficient_system_resource'', ''cancelled'', ''error'', ''incomplete'', ''context_length'', ''context_length_exceeded'']"

definition CEILING_FINISH :: "string list" where
  "CEILING_FINISH = [''length'', ''max_tokens'', ''max_output_tokens'', ''max_output_token'', ''token_limit'', ''incomplete'']"

text \<open>\<open>replace(/[\s-]+/g, "_")\<close>; the flag says that the previous character was part of a run.\<close>

fun underscore_runs :: "bool \<Rightarrow> string \<Rightarrow> string" where
  "underscore_runs inrun [] = []"
| "underscore_runs inrun (c # cs) =
     (if is_ws c \<or> c = CHR ''-'' then (if inrun then [] else [CHR ''_'']) @ underscore_runs True cs
      else c # underscore_runs False cs)"

definition normalizeFinish :: "string \<Rightarrow> string" where
  "normalizeFinish reason = underscore_runs False (lowercase (js_trim reason))"

definition isCeilingFinish :: "string \<Rightarrow> bool" where
  "isCeilingFinish reason = (normalizeFinish reason \<in> set CEILING_FINISH)"

section \<open>Records\<close>

record usage =
  us_at :: ms
  us_model :: string
  us_mode :: string
  us_budget :: rat
  us_modelCeiling :: "int option"
  us_used :: int
  us_known :: bool
  us_finish :: string
  us_hit :: bool
  us_constrained :: bool
  us_empty :: bool
  us_floor :: "int option"
  us_ok :: bool

record round_input =
  ri_model :: string
  ri_mode :: string
  ri_ceiling :: jsnum
  ri_modelCeiling :: jsnum
  ri_used :: jsnum
  ri_finish :: string
  ri_empty :: bool
  ri_floor :: jsnum
  ri_ok :: bool

definition floor_positive :: "jsnum \<Rightarrow> int option" where
  "floor_positive x = (case x of None \<Rightarrow> None | Some r \<Rightarrow> if 0 < r then Some \<lfloor>r\<rfloor> else None)"

definition make_entry :: "ms \<Rightarrow> round_input \<Rightarrow> usage" where
  "make_entry now inp =
     (let budget = max 0 (or_zero (ri_ceiling inp));
          full = floor_positive (ri_modelCeiling inp);
          known = (case ri_used inp of None \<Rightarrow> False | Some r \<Rightarrow> 0 \<le> r);
          used = (if known then \<lfloor>or_zero (ri_used inp)\<rfloor> else 0);
          norm = normalizeFinish (ri_finish inp)
      in \<lparr>us_at = now, us_model = safeModel (ri_model inp), us_mode = safeMode (ri_mode inp), us_budget = budget,
          us_modelCeiling = full, us_used = used, us_known = known,
          us_finish = (if norm \<in> set KNOWN_FINISH then norm else safeToken (ri_finish inp) 32 ''_''),
          us_hit = (isCeilingFinish norm \<or> known \<and> 0 < budget \<and> budget \<le> of_int used),
          us_constrained = (case full of None \<Rightarrow> False | Some f \<Rightarrow> 0 < budget \<and> budget < of_int f),
          us_empty = ri_empty inp, us_floor = floor_positive (ri_floor inp), us_ok = ri_ok inp\<rparr>)"

section \<open>The store\<close>

record usage_store =
  ul_mem :: "(string \<times> usage list) list"
  ul_file :: "string option"
  ul_rotated :: "string option"
  ul_pending :: "string list"
  ul_seam :: bool

text \<open>The rolling window of a model.\<close>

definition push_window :: "usage \<Rightarrow> usage list \<Rightarrow> usage list" where
  "push_window e arr = (let a = arr @ [e] in if length a > KEEP then tl a else a)"

definition fold_usage :: "usage \<Rightarrow> (string \<times> usage list) list \<Rightarrow> (string \<times> usage list) list" where
  "fold_usage e mem =
     (if us_model e = [] then mem
      else AList.update (us_model e) (push_window e (case map_of mem (us_model e) of None \<Rightarrow> [] | Some a \<Rightarrow> a)) mem)"

fun split_lines :: "string \<Rightarrow> string \<Rightarrow> string list" where
  "split_lines acc [] = [acc]"
| "split_lines acc (c # cs) = (if c = CHR 0x0A then acc # split_lines [] cs else split_lines (acc @ [c]) cs)"

definition parse_log :: "(string \<Rightarrow> usage option) \<Rightarrow> string \<Rightarrow> usage list" where
  "parse_log parse text = filter (\<lambda>e. us_model e \<noteq> []) (List.map_filter parse (filter (\<lambda>l. l \<noteq> []) (split_lines [] text)))"

definition loadFile :: "(string \<Rightarrow> usage option) \<Rightarrow> string option \<Rightarrow> (string \<times> usage list) list \<Rightarrow> (string \<times> usage list) list" where
  "loadFile parse f mem = (case f of None \<Rightarrow> mem | Some text \<Rightarrow> fold fold_usage (parse_log parse text) mem)"

definition torn :: "string option \<Rightarrow> bool" where
  "torn f = (case f of None \<Rightarrow> False | Some text \<Rightarrow> text \<noteq> [] \<and> last text \<noteq> CHR 0x0A)"

definition load_usage :: "(string \<Rightarrow> usage option) \<Rightarrow> string option \<Rightarrow> string option \<Rightarrow> usage_store" where
  "load_usage parse file rotated =
     \<lparr>ul_mem = loadFile parse file (loadFile parse rotated []), ul_file = file, ul_rotated = rotated,
      ul_pending = [], ul_seam = torn file\<rparr>"

definition rotateIfNeeded :: "usage_store \<Rightarrow> usage_store" where
  "rotateIfNeeded st =
     (case ul_file st of
        None \<Rightarrow> st
      | Some text \<Rightarrow> if int (length text) \<ge> MAX_LOG_BYTES
                      then st\<lparr>ul_file := None, ul_rotated := Some text, ul_seam := False\<rparr> else st)"

definition take_batch :: "usage_store \<Rightarrow> string \<times> usage_store" where
  "take_batch st =
     (let text = concat (ul_pending st) in
      if ul_seam st \<and> text \<noteq> [] then (CHR 0x0A # text, st\<lparr>ul_pending := [], ul_seam := False\<rparr>)
      else (text, st\<lparr>ul_pending := []\<rparr>))"

text \<open>One flush; \<open>io\<close> says whether the append succeeded (a batch whose append failed is lost).\<close>

definition flush_usage :: "bool \<Rightarrow> usage_store \<Rightarrow> usage_store" where
  "flush_usage io st =
     (if ul_pending st = [] then st
      else let (text, st1) = take_batch st in
           if text = [] then st1
           else let st2 = rotateIfNeeded st1 in
                if io then st2\<lparr>ul_file := Some ((case ul_file st2 of None \<Rightarrow> [] | Some t \<Rightarrow> t) @ text)\<rparr> else st2)"

definition record_usage :: "(usage \<Rightarrow> string) \<Rightarrow> ms \<Rightarrow> round_input \<Rightarrow> usage_store \<Rightarrow> usage option \<times> usage_store" where
  "record_usage js now inp st =
     (let e = make_entry now inp in
      if us_model e = [] then (None, st)
      else (Some e, st\<lparr>ul_mem := fold_usage e (ul_mem st), ul_pending := ul_pending st @ [js e @ [CHR 0x0A]]\<rparr>))"

section \<open>The summary\<close>

definition nth_percentile :: "int list \<Rightarrow> rat \<Rightarrow> int" where
  "nth_percentile sorted_xs p =
     (if sorted_xs = [] then 0
      else sorted_xs ! nat (min (int (length sorted_xs) - 1) (max 0 (\<lceil>p * of_nat (length sorted_xs)\<rceil> - 1))))"

definition frac4 :: "nat \<Rightarrow> nat \<Rightarrow> rat" where
  "frac4 k whole = (if whole = 0 then 0 else of_int (js_round (of_nat k / of_nat whole * 10000)) / 10000)"

datatype cap_verdict = InsufficientData | RaiseCap | NarrowCap

record usage_stats =
  st_n :: nat
  st_nSettled :: nat
  st_nMeasured :: nat
  st_hitFraction :: rat
  st_evidenceFraction :: rat
  st_constrainedFraction :: rat
  st_emptyFraction :: rat
  st_starvedFraction :: rat
  st_p50 :: int
  st_p95 :: int
  st_max :: int
  st_censored :: bool
  st_verdict :: cap_verdict
  st_suggested :: "int option"

definition settled_rounds :: "usage list \<Rightarrow> usage list" where
  "settled_rounds rs = filter us_ok rs"

definition at_full :: "usage list \<Rightarrow> usage list" where
  "at_full rs = filter (\<lambda>r. \<not> us_constrained r) (settled_rounds rs)"

definition measured_rounds :: "usage list \<Rightarrow> usage list" where
  "measured_rounds rs = filter us_known (at_full rs)"

definition suggest_ceiling :: "int list \<Rightarrow> int" where
  "suggest_ceiling used = max 512 (\<lceil>of_int (nth_percentile used (95 / 100)) * (125 / 100) / 256 :: rat\<rceil> * 256)"

definition count_where :: "(usage \<Rightarrow> bool) \<Rightarrow> usage list \<Rightarrow> nat" where
  "count_where P rs = length (filter P rs)"

definition statsFor :: "usage list \<Rightarrow> usage_stats" where
  "statsFor rs =
     (let settled = settled_rounds rs; full = at_full rs; measured = measured_rounds rs;
          used = sort (map us_used measured);
          evidence = frac4 (count_where us_hit full) (length full);
          censored = (full \<noteq> [] \<and> evidence \<ge> BINDING_HIT_FRACTION);
          verdict = (if length measured \<ge> MIN_SAMPLES_FOR_VERDICT then (if censored then RaiseCap else NarrowCap)
                     else InsufficientData)
      in \<lparr>st_n = length rs, st_nSettled = length settled, st_nMeasured = length measured,
          st_hitFraction = frac4 (count_where us_hit settled) (length settled),
          st_evidenceFraction = evidence,
          st_constrainedFraction = frac4 (count_where us_constrained settled) (length settled),
          st_emptyFraction = frac4 (count_where us_empty settled) (length settled),
          st_starvedFraction = frac4 (count_where (\<lambda>r. us_empty r \<and> us_hit r) settled) (length settled),
          st_p50 = nth_percentile used (50 / 100), st_p95 = nth_percentile used (95 / 100),
          st_max = (if used = [] then 0 else last used),
          st_censored = censored, st_verdict = verdict,
          st_suggested = (if verdict = NarrowCap then Some (suggest_ceiling used) else None)\<rparr>)"

definition usage_summary :: "usage_store \<Rightarrow> (string \<times> usage_stats \<times> (string \<times> usage_stats) list) list" where
  "usage_summary st =
     List.map_filter (\<lambda>(model, rs).
       if rs = [] then None
       else Some (model, statsFor rs,
         map (\<lambda>m. (m, statsFor (filter (\<lambda>r. us_mode r = m) rs))) (rev (remdups (rev (map us_mode rs)))))) (ul_mem st)"

definition usage_samples :: "string \<Rightarrow> usage_store \<Rightarrow> nat" where
  "usage_samples model st = (case map_of (ul_mem st) (safeModel model) of None \<Rightarrow> 0 | Some a \<Rightarrow> length a)"

section \<open>Percentiles\<close>

lemma sorted_nth_count:
  assumes "sorted xs" "k < length xs"
  shows "k + 1 \<le> length (filter (\<lambda>x. x \<le> xs ! k) xs)"
proof -
  have "\<forall>x\<in>set (take (k + 1) xs). x \<le> xs ! k"
    using assms by (auto simp: in_set_conv_nth sorted_iff_nth_mono)
  then have "filter (\<lambda>x. x \<le> xs ! k) (take (k + 1) xs) = take (k + 1) xs" by (simp add: filter_id_conv)
  moreover have "filter (\<lambda>x. x \<le> xs ! k) xs = filter (\<lambda>x. x \<le> xs ! k) (take (k + 1) xs) @ filter (\<lambda>x. x \<le> xs ! k) (drop (k + 1) xs)"
    by (metis append_take_drop_id filter_append)
  ultimately show ?thesis using assms(2) by simp
qed

lemma percentile_covers:
  assumes s: "sorted xs" and p: "0 \<le> p" "p \<le> 1" and ne: "xs \<noteq> []"
  shows "p * of_nat (length xs) \<le> of_nat (length (filter (\<lambda>x. x \<le> nth_percentile xs p) xs))"
proof -
  let ?n = "length xs" let ?k = "nat (min (int ?n - 1) (max 0 (\<lceil>p * of_nat ?n\<rceil> - 1)))"
  have n: "0 < ?n" using ne by simp
  then have k: "?k < ?n" by linarith
  have "p * of_nat ?n \<le> 1 * of_nat ?n" by (rule mult_right_mono) (use p in simp_all)
  then have "\<lceil>p * of_nat ?n\<rceil> \<le> int ?n" by (simp add: ceiling_le_iff)
  then have "\<lceil>p * of_nat ?n\<rceil> \<le> int ?k + 1" using n by linarith
  then have "p * of_nat ?n \<le> of_int (int ?k + 1)" by (simp only: ceiling_le_iff)
  also have "\<dots> = of_nat (?k + 1)" by simp
  also have "\<dots> \<le> of_nat (length (filter (\<lambda>x. x \<le> nth_percentile xs p) xs))"
    using sorted_nth_count [OF s k] ne unfolding nth_percentile_def by (simp only: of_nat_le_iff if_False)
  finally show ?thesis .
qed

lemma percentile_mem: "xs \<noteq> [] \<Longrightarrow> nth_percentile xs p \<in> set xs"
  unfolding nth_percentile_def by (simp, rule nth_mem, cases xs) auto

lemma step_256: "(y :: rat) \<le> of_int (\<lceil>y / 256\<rceil> * 256)"
proof -
  have "y = y / 256 * 256" by simp
  also have "\<dots> \<le> of_int \<lceil>y / 256\<rceil> * 256" by (rule mult_right_mono) simp_all
  finally show ?thesis by simp
qed

text \<open>A ceiling is suggested only from evidence: at least 30 measured rounds that ran at the model's own
  ceiling, of which fewer than 5 percent (to four decimals) hit it.  The suggestion is a multiple of 256, not
  below 512, and at least 95 percent of those rounds would have fitted into it with a quarter of
  headroom, had they spent what was recorded at the 95th percentile.\<close>

theorem suggested_ceiling_is_backed:
  assumes "st_suggested (statsFor rs) = Some c"
  shows "30 \<le> length (measured_rounds rs)
    \<and> frac4 (count_where us_hit (at_full rs)) (length (at_full rs)) < 5 / 100
    \<and> 512 \<le> c \<and> c mod 256 = 0
    \<and> of_int (st_p95 (statsFor rs)) * (125 / 100) \<le> (of_int c :: rat)
    \<and> (95 / 100 :: rat) * of_nat (length (measured_rounds rs))
        \<le> of_nat (length (filter (\<lambda>r. us_used r \<le> st_p95 (statsFor rs)) (measured_rounds rs)))"
proof -
  let ?used = "sort (map us_used (measured_rounds rs))" let ?full = "at_full rs"
  let ?ev = "frac4 (count_where us_hit ?full) (length ?full)"
  have n: "30 \<le> length (measured_rounds rs)" and cens: "\<not> (?full \<noteq> [] \<and> BINDING_HIT_FRACTION \<le> ?ev)"
    and c: "c = suggest_ceiling ?used"
    using assms by (auto simp: statsFor_def Let_def MIN_SAMPLES_FOR_VERDICT_def split: if_splits)
  have p95: "st_p95 (statsFor rs) = nth_percentile ?used (95 / 100)" by (simp add: statsFor_def Let_def)
  have ne: "?used \<noteq> []" using n by (cases "measured_rounds rs") auto
  have "?full \<noteq> []" using n by (auto simp: measured_rounds_def)
  then have ev: "?ev < 5 / 100" using cens by (simp add: BINDING_HIT_FRACTION_def)
  let ?t = "of_int (nth_percentile ?used (95 / 100)) * (125 / 100) / 256 :: rat"
  have "of_int (nth_percentile ?used (95 / 100)) * (125 / 100) \<le> (of_int (\<lceil>?t\<rceil> * 256) :: rat)" by (rule step_256)
  also have "\<dots> \<le> of_int c" unfolding c suggest_ceiling_def by simp
  finally have head: "of_int (st_p95 (statsFor rs)) * (125 / 100) \<le> (of_int c :: rat)" by (simp only: p95)
  have m: "512 \<le> c" "c mod 256 = 0" unfolding c suggest_ceiling_def by (auto simp: max_def)
  have "(95 / 100 :: rat) * of_nat (length ?used) \<le> of_nat (length (filter (\<lambda>x. x \<le> nth_percentile ?used (95 / 100)) ?used))"
    by (rule percentile_covers) (use ne in simp_all)
  also have "length (filter (\<lambda>x. x \<le> nth_percentile ?used (95 / 100)) ?used)
    = length (filter (\<lambda>r. us_used r \<le> nth_percentile ?used (95 / 100)) (measured_rounds rs))"
    by (simp add: filter_sort filter_map comp_def)
  finally show ?thesis using n ev m head by (simp add: p95)
qed

definition demo_usage :: "int \<Rightarrow> bool \<Rightarrow> usage" where
  "demo_usage k hit = make_entry k \<lparr>ri_model = ''openai/gpt-5.6 (private note)'', ri_mode = ''Normal'', ri_ceiling = Some 32768,
     ri_modelCeiling = Some 32768, ri_used = Some (of_int (100 * k)), ri_finish = (if hit then ''MAX-TOKENS'' else ''stop''),
     ri_empty = False, ri_floor = None, ri_ok = True\<rparr>"

definition demo_rounds :: "usage list" where
  "demo_rounds = map (\<lambda>k. demo_usage k False) [1..31]"

theorem suggested_ceiling_is_backed_witness:
  "st_suggested (statsFor demo_rounds) = Some 3840 \<and> us_model (demo_usage 3 True) = ''openai/gpt-5.6'' \<and> us_hit (demo_usage 3 True)
     \<and> 30 \<le> length (measured_rounds demo_rounds)"
proof -
  have 1: "st_suggested (statsFor demo_rounds) = Some 3840" by code_simp
  have 2: "us_model (demo_usage 3 True) = ''openai/gpt-5.6''" "us_hit (demo_usage 3 True)" by code_simp+
  show ?thesis using 1 2 suggested_ceiling_is_backed [OF 1] by blast
qed

section \<open>The log\<close>

lemma split_lines_app: "split_lines acc (a @ CHR 0x0A # b) = split_lines acc a @ split_lines [] b"
  by (induction a arbitrary: acc) auto

lemma split_lines_plain: "CHR 0x0A \<notin> set s \<Longrightarrow> split_lines acc s = [acc @ s]"
  by (induction s arbitrary: acc) auto

lemma parse_log_Nil [simp]: "parse_log parse [] = []"
  by (simp add: parse_log_def map_filter_simps)

lemma map_filter_app: "List.map_filter f (xs @ ys) = List.map_filter f xs @ List.map_filter f ys"
  by (simp add: map_filter_def)

lemma parse_log_app: "parse_log parse (a @ CHR 0x0A # b) = parse_log parse a @ parse_log parse b"
  by (simp add: parse_log_def split_lines_app map_filter_app)

text \<open>Appending to a file whose last line is complete, and closing a seam before appending.\<close>

lemma parse_log_append:
  assumes "\<not> torn (Some a)"
  shows "parse_log parse (a @ b) = parse_log parse a @ parse_log parse b"
proof (cases a rule: rev_cases)
  case (snoc a' c)
  then have c: "c = CHR 0x0A" using assms by (simp add: torn_def)
  have "parse_log parse (a' @ CHR 0x0A # []) = parse_log parse a'" by (simp only: parse_log_app parse_log_Nil append_Nil2)
  then show ?thesis using snoc c parse_log_app [of parse a' b] by simp
qed simp

definition usage_line :: "(usage \<Rightarrow> string) \<Rightarrow> usage \<Rightarrow> string" where
  "usage_line js e = js e @ [CHR 0x0A]"

definition json_law :: "(usage \<Rightarrow> string) \<Rightarrow> (string \<Rightarrow> usage option) \<Rightarrow> usage \<Rightarrow> bool" where
  "json_law js parse e \<longleftrightarrow> CHR 0x0A \<notin> set (js e) \<and> js e \<noteq> [] \<and> parse (js e) = Some e"

lemma parse_log_lines:
  "\<forall>e\<in>set es. json_law js parse e \<and> us_model e \<noteq> [] \<Longrightarrow> parse_log parse (concat (map (usage_line js) es)) = es"
proof (induction es)
  case (Cons e es)
  have "parse_log parse (js e) = [e]"
    using Cons.prems by (simp add: parse_log_def split_lines_plain json_law_def map_filter_simps)
  then show ?case using Cons parse_log_app [of parse "js e"] by (simp add: usage_line_def)
qed simp

definition log_of :: "(string \<Rightarrow> usage option) \<Rightarrow> string option \<Rightarrow> usage list" where
  "log_of parse f = (case f of None \<Rightarrow> [] | Some t \<Rightarrow> parse_log parse t)"

text \<open>A model's window is the last \<open>KEEP\<close> of its records.\<close>

definition window_of :: "(string \<times> usage list) list \<Rightarrow> string \<Rightarrow> usage list" where
  "window_of mem m = (case map_of mem m of None \<Rightarrow> [] | Some a \<Rightarrow> a)"

lemma push_window_slice: "push_window e (slice_last KEEP l) = slice_last KEEP (l @ [e])"
proof (cases "length l < KEEP")
  case False
  then have "Suc (length l - KEEP) = length l + 1 - KEEP" by simp
  then show ?thesis using False by (simp add: push_window_def slice_last_def Let_def KEEP_def tl_drop drop_Suc [symmetric])
qed (simp add: push_window_def slice_last_def Let_def)

lemma window_fold:
  "\<forall>e\<in>set es. us_model e \<noteq> [] \<Longrightarrow> \<forall>m. window_of mem m = slice_last KEEP (filter (\<lambda>e. us_model e = m) ds) \<Longrightarrow>
   window_of (fold fold_usage es mem) m = slice_last KEEP (filter (\<lambda>e. us_model e = m) (ds @ es))"
proof (induction es arbitrary: mem ds)
  case (Cons e es)
  have "window_of (fold_usage e mem) k = slice_last KEEP (filter (\<lambda>e. us_model e = k) (ds @ [e]))" for k
  proof -
    have "window_of (fold_usage e mem) k = (if k = us_model e then push_window e (window_of mem k) else window_of mem k)"
      using Cons.prems(1) by (simp add: fold_usage_def window_of_def map_of_update)
    then show ?thesis using Cons.prems(2) push_window_slice by simp
  qed
  then show ?case using Cons.IH [of "fold_usage e mem" "ds @ [e]"] Cons.prems(1) by simp
qed simp

lemma log_models: "\<forall>e\<in>set (log_of parse f). us_model e \<noteq> []"
  by (auto simp: log_of_def parse_log_def split: option.splits)

lemma load_window:
  "window_of (ul_mem (load_usage parse file rotated)) m
     = slice_last KEEP (filter (\<lambda>e. us_model e = m) (log_of parse rotated @ log_of parse file))"
proof -
  have "ul_mem (load_usage parse file rotated) = fold fold_usage (log_of parse rotated @ log_of parse file) []"
    by (simp add: load_usage_def loadFile_def log_of_def split: option.splits)
  then show ?thesis
    using window_fold [of "log_of parse rotated @ log_of parse file" "[]" "[]" m] log_models
    by (auto simp: window_of_def slice_last_def)
qed

text \<open>Rounds are recorded and flushed in any order; \<open>None\<close> is a flush.\<close>

fun usage_run :: "(usage \<Rightarrow> string) \<Rightarrow> (ms \<times> round_input) option list \<Rightarrow> usage_store \<Rightarrow> usage_store" where
  "usage_run js [] st = st"
| "usage_run js (None # ops) st = usage_run js ops (flush_usage True st)"
| "usage_run js (Some (now, inp) # ops) st = usage_run js ops (snd (record_usage js now inp st))"

definition entries_of :: "(ms \<times> round_input) option list \<Rightarrow> usage list" where
  "entries_of ops = filter (\<lambda>e. us_model e \<noteq> []) (map (\<lambda>(now, inp). make_entry now inp) (List.map_filter (\<lambda>x. x) ops))"

definition log_inv :: "(usage \<Rightarrow> string) \<Rightarrow> (string \<Rightarrow> usage option) \<Rightarrow> usage list \<Rightarrow> usage list \<Rightarrow> usage_store \<Rightarrow> bool" where
  "log_inv js parse whole es st \<longleftrightarrow>
     ul_pending st = map (usage_line js) es \<and> (\<forall>e\<in>set es. json_law js parse e \<and> us_model e \<noteq> [])
     \<and> ul_seam st = torn (ul_file st)
     \<and> (\<exists>old. whole = old @ log_of parse (ul_rotated st) @ log_of parse (ul_file st) @ es)
     \<and> (\<forall>m. window_of (ul_mem st) m = slice_last KEEP (filter (\<lambda>e. us_model e = m) whole))"

lemma last_lines: "es \<noteq> [] \<Longrightarrow> last (concat (map (usage_line js) es)) = CHR 0x0A"
  by (induction es rule: rev_induct) (simp_all add: usage_line_def)

lemma flush_inv:
  assumes inv: "log_inv js parse whole es st"
  shows "log_inv js parse whole [] (flush_usage True st)"
proof (cases "es = []")
  case True
  then show ?thesis using inv by (simp add: log_inv_def flush_usage_def)
next
  case False
  let ?t = "concat (map (usage_line js) es)"
  have pend: "ul_pending st = map (usage_line js) es" and law: "\<forall>e\<in>set es. json_law js parse e \<and> us_model e \<noteq> []"
    and seam: "ul_seam st = torn (ul_file st)"
    and win: "\<forall>m. window_of (ul_mem st) m = slice_last KEEP (filter (\<lambda>e. us_model e = m) whole)"
    using inv by (simp_all add: log_inv_def)
  obtain old where whole: "whole = old @ log_of parse (ul_rotated st) @ log_of parse (ul_file st) @ es"
    using inv by (auto simp: log_inv_def)
  have t: "?t \<noteq> []" using False by (cases es) (simp_all add: usage_line_def)
  have pt: "parse_log parse ?t = es" by (rule parse_log_lines [OF law])
  let ?text = "if ul_seam st then CHR 0x0A # ?t else ?t"
  have ptext: "parse_log parse ?text = es"
    using pt parse_log_app [of parse "[]" ?t] by simp
  have lt: "\<not> torn (Some (x @ ?text))" for x
    using last_lines [OF False, of js] t by (simp add: torn_def)
  define st1 where "st1 = st\<lparr>ul_pending := [], ul_seam := False\<rparr>"
  have tb: "take_batch st = (?text, st1)"
  proof (cases "ul_seam st")
    case True
    then show ?thesis using t by (simp add: take_batch_def pend Let_def st1_def)
  next
    case False
    then have "st\<lparr>ul_pending := []\<rparr> = st1" unfolding st1_def by (cases st) simp
    then show ?thesis using False by (simp add: take_batch_def pend Let_def)
  qed
  have "?text \<noteq> []" using t by simp
  then have fl: "flush_usage True st = (let st2 = rotateIfNeeded st1 in
      st2\<lparr>ul_file := Some ((case ul_file st2 of None \<Rightarrow> [] | Some t \<Rightarrow> t) @ ?text)\<rparr>)"
    using False by (simp only: flush_usage_def pend tb Let_def prod.case if_True map_is_Nil_conv if_False simp_thms)
  show ?thesis
  proof (cases "\<exists>tx. ul_file st = Some tx \<and> int (length tx) \<ge> MAX_LOG_BYTES")
    case True
    then obtain tx where tx: "ul_file st = Some tx" "int (length tx) \<ge> MAX_LOG_BYTES" by blast
    then have "flush_usage True st = st1\<lparr>ul_file := Some ?text, ul_rotated := Some tx\<rparr>"
      unfolding fl by (simp add: rotateIfNeeded_def st1_def)
    moreover have "whole = (old @ log_of parse (ul_rotated st)) @ log_of parse (Some tx) @ log_of parse (Some ?text)"
      using whole tx(1) ptext by (simp add: log_of_def)
    ultimately show ?thesis using win lt [of "[]"] unfolding log_inv_def by (auto simp: st1_def)
  next
    case False
    have nr: "rotateIfNeeded st1 = st1" using False by (auto simp: rotateIfNeeded_def st1_def split: option.splits)
    let ?old = "case ul_file st of None \<Rightarrow> [] | Some t \<Rightarrow> t"
    have "log_of parse (Some (?old @ ?text)) = log_of parse (ul_file st) @ es"
    proof (cases "ul_seam st")
      case True
      then show ?thesis using seam pt parse_log_app [of parse ?old ?t] by (auto simp: log_of_def torn_def split: option.splits)
    next
      case False
      then have "\<not> torn (Some ?old)" using seam by (simp add: torn_def split: option.splits)
      then show ?thesis using False pt parse_log_append [of ?old parse ?t] by (auto simp: log_of_def split: option.splits)
    qed
    then show ?thesis using whole win lt [of ?old] unfolding fl nr Let_def log_inv_def by (auto simp: st1_def)
  qed
qed

lemma record_inv:
  assumes inv: "log_inv js parse whole es st" and law: "json_law js parse (make_entry now inp)"
  shows "if us_model (make_entry now inp) = [] then log_inv js parse whole es (snd (record_usage js now inp st))
    else log_inv js parse (whole @ [make_entry now inp]) (es @ [make_entry now inp]) (snd (record_usage js now inp st))"
proof (cases "us_model (make_entry now inp) = []")
  case True
  then show ?thesis using inv by (simp add: record_usage_def Let_def)
next
  case False
  let ?e = "make_entry now inp"
  have "window_of (fold_usage ?e (ul_mem st)) m = slice_last KEEP (filter (\<lambda>e. us_model e = m) (whole @ [?e]))" for m
    using window_fold [of "[?e]" "ul_mem st" whole m] inv False by (simp add: log_inv_def)
  then show ?thesis using inv law False
    by (auto simp: record_usage_def Let_def log_inv_def usage_line_def)
qed

lemma run_inv:
  "log_inv js parse whole es st \<Longrightarrow> \<forall>e\<in>set (map (\<lambda>(now, inp). make_entry now inp) (List.map_filter (\<lambda>x. x) ops)). json_law js parse e \<Longrightarrow>
   \<exists>es'. log_inv js parse (whole @ entries_of ops) es' (usage_run js ops st)"
proof (induction js ops st arbitrary: whole es rule: usage_run.induct)
  case (1 js st)
  then show ?case by (auto simp: entries_of_def map_filter_simps)
next
  case (2 js ops st)
  then show ?case using flush_inv [OF 2(2)] by (auto simp: entries_of_def map_filter_simps)
next
  case (3 js now inp ops st)
  have law: "json_law js parse (make_entry now inp)" using 3(3) by (simp add: map_filter_simps)
  show ?case
  proof (cases "us_model (make_entry now inp) = []")
    case True
    then show ?thesis using 3 record_inv [OF 3(2) law] by (auto simp: entries_of_def map_filter_simps)
  next
    case False
    then show ?thesis using 3(1) [of "whole @ [make_entry now inp]" "es @ [make_entry now inp]"] 3(3) record_inv [OF 3(2) law]
      by (auto simp: entries_of_def map_filter_simps)
  qed
qed

text \<open>C40: The usage log is faithful.  Start from any files, a torn last line included, and record and flush
  rounds in any order, with every append accepted by the disk: after a last flush the two files hold the earlier records followed by every recorded
  round, in order and each once, except for a beginning that rotation dropped; a torn line never swallows
  the record after it.  In memory each model keeps the last 2000 of all of these, and a restart reads
  back the last 2000 of what the files hold.\<close>

theorem usage_log_is_faithful:
  assumes law: "\<forall>(now, inp)\<in>set (List.map_filter (\<lambda>x. x) ops). json_law js parse (make_entry now inp)"
    and st': "st' = flush_usage True (usage_run js ops (load_usage parse file rotated))"
  shows "(\<exists>old. old @ log_of parse (ul_rotated st') @ log_of parse (ul_file st')
            = log_of parse rotated @ log_of parse file @ entries_of ops)
    \<and> (\<forall>m. window_of (ul_mem st') m
          = slice_last 2000 (filter (\<lambda>e. us_model e = m) (log_of parse rotated @ log_of parse file @ entries_of ops)))
    \<and> (\<forall>m. window_of (ul_mem (load_usage parse (ul_file st') (ul_rotated st'))) m
          = slice_last 2000 (filter (\<lambda>e. us_model e = m) (log_of parse (ul_rotated st') @ log_of parse (ul_file st'))))"
proof -
  let ?w = "log_of parse rotated @ log_of parse file"
  have "log_inv js parse ?w [] (load_usage parse file rotated)"
    using load_window by (auto simp: log_inv_def load_usage_def)
  then obtain es where "log_inv js parse (?w @ entries_of ops) es (usage_run js ops (load_usage parse file rotated))"
    using run_inv [of js parse ?w "[]" _ ops] law by (auto simp: case_prod_beta)
  then have "log_inv js parse (?w @ entries_of ops) [] st'" unfolding st' by (rule flush_inv)
  then show ?thesis using load_window by (auto simp: log_inv_def KEEP_def)
qed

definition demo_input :: round_input where
  "demo_input = \<lparr>ri_model = ''m1'', ri_mode = ''fast'', ri_ceiling = Some 2048, ri_modelCeiling = None, ri_used = None, ri_finish = ''stop'',
     ri_empty = False, ri_floor = None, ri_ok = True\<rparr>"

definition demo_js :: "usage \<Rightarrow> string" where
  "demo_js e = ''{'' @ us_model e @ ''}''"

definition demo_parse :: "string \<Rightarrow> usage option" where
  "demo_parse s = (if s = ''{m1}'' then Some (make_entry 5 demo_input) else None)"

theorem usage_log_is_faithful_witness:
  "let st' = flush_usage True (usage_run demo_js [Some (5, demo_input)] (load_usage demo_parse (Some ''{m1'') None)) in
     ul_file st' = Some (''{m1'' @ [CHR 0x0A] @ ''{m1}'' @ [CHR 0x0A])
     \<and> length (window_of (ul_mem (load_usage demo_parse (ul_file st') (ul_rotated st'))) ''m1'') = 1"
proof -
  let ?ops = "[Some (5, demo_input)]"
  define st' where "st' = flush_usage True (usage_run demo_js ?ops (load_usage demo_parse (Some ''{m1'') None))"
  have law: "\<forall>(now, inp)\<in>set (List.map_filter (\<lambda>x. x) ?ops). json_law demo_js demo_parse (make_entry now inp)"
    by (simp add: map_filter_simps json_law_def demo_js_def demo_parse_def make_entry_def demo_input_def) code_simp
  have f: "ul_file st' = Some (''{m1'' @ [CHR 0x0A] @ ''{m1}'' @ [CHR 0x0A])" "ul_rotated st' = None"
    unfolding st'_def by code_simp+
  have "filter (\<lambda>e. us_model e = ''m1'') (log_of demo_parse None @ log_of demo_parse (Some (''{m1'' @ [CHR 0x0A] @ ''{m1}'' @ [CHR 0x0A])))
    = [make_entry 5 demo_input]" by code_simp
  then have "window_of (ul_mem (load_usage demo_parse (ul_file st') (ul_rotated st'))) ''m1'' = [make_entry 5 demo_input]"
    using usage_log_is_faithful [OF law st'_def] by (simp only: f) (simp add: slice_last_def)
  then show ?thesis using f(1) unfolding st'_def [symmetric] Let_def by simp
qed

end
