(* ===== verification/IdeJobs.thy ===== *)
theory IdeJobs
  imports Prelude
begin

text \<open>
  The durable job spine of the build mode (\<open>idejobs.mjs\<close>): one append-only journal per job, an
  in-memory index rebuilt from the journals at boot, a bounded follower that tails a journal another
  server instance may still be writing, resumption or sealing of interrupted builds, and the
  replay-then-tail subscription the clients and the runner use.

  A JavaScript event object is a \<open>job_event\<close>; a field the object does not have is the empty string,
  the empty list, \<open>0\<close> or \<open>None\<close>, which is how the code reads it (by truthiness).  A journal is its
  list of lines: the event a line parses to, or \<open>None\<close> for a line that is not a JSON object, with the
  bytes it takes.  The size of \<open>JSON.stringify\<close> is the configuration's \<open>cf_bytes\<close>.  Listeners are
  named: those of the clients, and those of \<open>waitForAnswer\<close>, which unsubscribe themselves.  What each was
  handed is the trace \<open>sp_heard\<close>, and what the escalation hook was handed is \<open>sp_hooks\<close>.  The clock reading of an operation and the fresh identifier of a job are arguments.
\<close>

section \<open>Events and journals\<close>

record job_event =
  je_type :: string
  je_at :: ms
  je_writer :: string
  je_record :: string
  je_id :: string
  je_title :: string
  je_state :: string
  je_path :: string
  je_code :: string
  je_text :: string
  je_uid :: string
  je_workspaceId :: string
  je_kind :: string
  je_isOwner :: bool
  je_moves :: "(string \<times> string) list"
  je_usd :: jsnum
  je_credits :: jsnum
  je_options :: "string list"
  je_default :: string
  je_request :: "string option"

definition event_of :: "string \<Rightarrow> job_event" where
  "event_of ty =
     \<lparr>je_type = ty, je_at = 0, je_writer = [], je_record = [], je_id = [], je_title = [], je_state = [],
      je_path = [], je_code = [], je_text = [], je_uid = [], je_workspaceId = [], je_kind = [],
      je_isOwner = False, je_moves = [], je_usd = None, je_credits = None, je_options = [],
      je_default = [], je_request = None\<rparr>"

definition TERMINAL :: "string list" where
  "TERMINAL = [''done'', ''checkpoint'', ''error'', ''stopped'']"

definition EVENT_TYPES :: "string list" where
  "EVENT_TYPES =
     [''job'', ''plan'', ''move'', ''file'', ''diff'', ''run'', ''cost'', ''snapshot'', ''need_input'',
      ''answer'', ''status'', ''paused'', ''done'', ''checkpoint'', ''error'', ''stopped'']"

definition isTerminal :: "string \<Rightarrow> bool" where
  "isTerminal t = (t \<in> set TERMINAL)"

definition LEASE_EVENT :: string where "LEASE_EVENT = ''_lease''"
definition REQUEST_EVENT :: string where "REQUEST_EVENT = ''_request''"
definition MAX_READ_FAILURES :: nat where "MAX_READ_FAILURES = 3"

text \<open>What a finished job did: the ledger a second plan builds on.\<close>

record ledger_move =
  lm_title :: string
  lm_state :: string

record build_ledger =
  bl_outcome :: string
  bl_done :: "string list"
  bl_failed :: "string list"
  bl_skipped :: "string list"
  bl_unstarted :: "string list"
  bl_files :: "string list"

definition or_text :: "string \<Rightarrow> string \<Rightarrow> string" where
  "or_text a b = (if a \<noteq> [] then a else b)"

fun ledger_plan :: "(string \<times> string) list \<Rightarrow> (string \<times> ledger_move) list \<Rightarrow> (string \<times> ledger_move) list" where
  "ledger_plan [] moves = moves"
| "ledger_plan ((i, t) # ms) moves =
     ledger_plan ms
       (if i \<noteq> [] \<and> map_of moves i = None
        then AList.update i \<lparr>lm_title = t, lm_state = ''planned''\<rparr> moves else moves)"

definition ledger_move_event :: "job_event \<Rightarrow> (string \<times> ledger_move) list \<Rightarrow> (string \<times> ledger_move) list" where
  "ledger_move_event ev moves =
     (let prev = (case map_of moves (je_id ev) of Some m \<Rightarrow> m | None \<Rightarrow> \<lparr>lm_title = [], lm_state = []\<rparr>)
      in AList.update (je_id ev)
           \<lparr>lm_title = or_text (je_title ev) (lm_title prev),
            lm_state = or_text (je_state ev) (or_text (lm_state prev) ''planned'')\<rparr> moves)"

fun ledger_scan ::
  "job_event list \<Rightarrow> (string \<times> ledger_move) list \<times> string list \<times> string
     \<Rightarrow> (string \<times> ledger_move) list \<times> string list \<times> string" where
  "ledger_scan [] acc = acc"
| "ledger_scan (ev # evs) (moves, files, outcome) =
     ledger_scan evs
       (if je_type ev = ''plan'' then (ledger_plan (je_moves ev) moves, files, outcome)
        else if je_type ev = ''move'' \<and> je_id ev \<noteq> [] then (ledger_move_event ev moves, files, outcome)
        else if je_type ev = ''file'' \<and> je_path ev \<noteq> [] then
          (moves, if je_path ev \<in> set files then files else files @ [je_path ev], outcome)
        else if isTerminal (je_type ev) then (moves, files, je_type ev)
        else (moves, files, outcome))"

definition titles_in :: "string list \<Rightarrow> (string \<times> ledger_move) list \<Rightarrow> string list" where
  "titles_in sts rows = map (\<lambda>(i, m). or_text (lm_title m) i) (filter (\<lambda>(i, m). lm_state m \<in> set sts) rows)"

definition ledgerFromEvents :: "job_event list \<Rightarrow> build_ledger" where
  "ledgerFromEvents evs =
     (case ledger_scan evs ([], [], []) of
        (rows, files, outcome) \<Rightarrow>
          \<lparr>bl_outcome = outcome, bl_done = titles_in [''done'', ''warned''] rows,
           bl_failed = titles_in [''failed''] rows, bl_skipped = titles_in [''skipped''] rows,
           bl_unstarted = titles_in [''planned''] rows, bl_files = files\<rparr>)"

text \<open>The disk: journals and archive by job id; \<open>jd_unreadable\<close> and \<open>jd_full\<close> make reads and appends
  fail.\<close>

type_synonym journal_line = "job_event option \<times> nat"

record job_disk =
  jd_files :: "(string \<times> journal_line list) list"
  jd_archive :: "(string \<times> journal_line list) list"
  jd_unreadable :: bool
  jd_full :: bool

record snapshot =
  sn_records :: "job_event list"
  sn_bytes :: nat

fun parsed_lines :: "journal_line list \<Rightarrow> job_event list" where
  "parsed_lines [] = []"
| "parsed_lines ((Some ev, _) # ls) = ev # parsed_lines ls"
| "parsed_lines ((None, _) # ls) = parsed_lines ls"

definition file_lines :: "string \<Rightarrow> job_disk \<Rightarrow> journal_line list" where
  "file_lines i d = (case map_of (jd_files d) i of Some ls \<Rightarrow> ls | None \<Rightarrow> [])"

definition readJournal :: "string \<Rightarrow> job_disk \<Rightarrow> snapshot option" where
  "readJournal i d =
     (if jd_unreadable d then None
      else map_option (\<lambda>ls. \<lparr>sn_records = parsed_lines ls, sn_bytes = sum_list (map snd ls)\<rparr>)
             (map_of (jd_files d) i))"

definition append_line :: "(job_event \<Rightarrow> nat) \<Rightarrow> string \<Rightarrow> job_event \<Rightarrow> job_disk \<Rightarrow> job_disk" where
  "append_line bytes i ev d =
     (if jd_full d then d
      else d\<lparr>jd_files := AList.update i (file_lines i d @ [(Some ev, bytes ev)]) (jd_files d)\<rparr>)"

text \<open>The public stream of a journal: no private records, and nothing after a terminal event.\<close>

definition is_private :: "job_event \<Rightarrow> bool" where
  "is_private ev = (je_type ev = LEASE_EVENT \<or> je_type ev = REQUEST_EVENT)"

definition public_push :: "job_event list \<Rightarrow> job_event \<Rightarrow> job_event list" where
  "public_push evs ev =
     (if is_private ev then evs
      else if evs \<noteq> [] \<and> isTerminal (je_type (last evs)) then evs
      else evs @ [ev])"

definition publicEvents :: "job_event list \<Rightarrow> job_event list" where
  "publicEvents recs = foldl public_push [] recs"

definition lastRequest :: "job_event list \<Rightarrow> string option" where
  "lastRequest raw =
     (case find (\<lambda>ev. je_type ev = REQUEST_EVENT) (rev raw) of Some ev \<Rightarrow> je_request ev | None \<Rightarrow> None)"

definition lastPlanEvent :: "job_event list \<Rightarrow> job_event option" where
  "lastPlanEvent evs = find (\<lambda>ev. je_type ev = ''plan'') (rev evs)"

fun latest_moves :: "job_event list \<Rightarrow> (string \<times> job_event) list \<Rightarrow> (string \<times> job_event) list" where
  "latest_moves [] t = t"
| "latest_moves (ev # evs) t =
     latest_moves evs (if je_type ev = ''move'' \<and> je_id ev \<noteq> [] then AList.update (je_id ev) ev t else t)"

definition lastInFlightMove :: "job_event list \<Rightarrow> job_event option" where
  "lastInFlightMove evs =
     find (\<lambda>ev. je_state ev = ''running'' \<or> je_state ev = ''repairing'') (rev (map snd (latest_moves evs [])))"

section \<open>The index, the followers and the spine\<close>

text \<open>A waiter calls its own \<open>off()\<close> when it is handed an answer, or the end marker.\<close>

datatype listener = Client nat | Waiter nat

fun hangs_up :: "job_event \<Rightarrow> listener \<Rightarrow> bool" where
  "hangs_up ev (Client n) = False"
| "hangs_up ev (Waiter n) = (je_type ev = ''answer'')"

record ide_job =
  ij_uid :: string
  ij_workspaceId :: string
  ij_kind :: string
  ij_isOwner :: bool
  ij_startedAt :: ms
  ij_endedAt :: ms
  ij_outcome :: string
  ij_events :: "job_event list"
  ij_listeners :: "listener list"
  ij_done :: bool
  ij_stopped :: bool
  ij_interrupted :: bool

record follower =
  fo_rawCursor :: nat
  fo_bytes :: nat
  fo_seen :: "string list"
  fo_leaseUntil :: ms
  fo_readFailures :: nat

record resume_info =
  ri_request :: "string option"
  ri_ledger :: build_ledger
  ri_plan :: "job_event option"
  ri_inFlightMove :: "job_event option"
  ri_attempt :: nat

text \<open>\<open>sp_resuming\<close> holds the calls to \<open>resume()\<close> not yet settled, \<open>sp_retries\<close> the retry timers.\<close>

record spine =
  sp_index :: "(string \<times> ide_job) list"
  sp_followers :: "(string \<times> follower) list"
  sp_beats :: "string list"
  sp_instance :: string
  sp_seq :: nat
  sp_disposed :: bool
  sp_disk :: job_disk
  sp_heard :: "(listener \<times> job_event option) list"
  sp_hooks :: "(string \<times> job_event) list"
  sp_resuming :: "(string \<times> resume_info) list"
  sp_retries :: "(string \<times> job_event list \<times> nat) list"

record spine_config =
  cf_cap :: nat
  cf_grace :: ms
  cf_tail :: ms
  cf_heartbeat :: ms
  cf_resume :: bool
  cf_maxAttempts :: nat
  cf_bytes :: "job_event \<Rightarrow> nat"

text \<open>\<open>None\<close>: the option does not read as a finite number.\<close>

definition asMs :: "ms option \<Rightarrow> ms \<Rightarrow> ms \<Rightarrow> ms" where
  "asMs v fallback minimum = (case v of Some n \<Rightarrow> max minimum n | None \<Rightarrow> fallback)"

definition DEPLOY_GRACE_MS :: ms where "DEPLOY_GRACE_MS = 120000"
definition RECONCILE_INTERVAL_MS :: ms where "RECONCILE_INTERVAL_MS = 1000"
definition RESUME_MAX_ATTEMPTS :: nat where "RESUME_MAX_ATTEMPTS = 960"

definition spine_options ::
  "nat \<Rightarrow> ms option \<Rightarrow> ms option \<Rightarrow> ms option option \<Rightarrow> bool \<Rightarrow> nat \<Rightarrow> (job_event \<Rightarrow> nat) \<Rightarrow> spine_config" where
  "spine_options cap deployGraceMs reconcileIntervalMs heartbeatIntervalMs resume attempts bytes =
     (let grace = asMs deployGraceMs DEPLOY_GRACE_MS 0; dflt = max 1 (grace div 3)
      in \<lparr>cf_cap = cap, cf_grace = grace, cf_tail = asMs reconcileIntervalMs RECONCILE_INTERVAL_MS 1,
          cf_heartbeat = (case heartbeatIntervalMs of None \<Rightarrow> dflt | Some h \<Rightarrow> asMs h dflt 1),
          cf_resume = resume, cf_maxAttempts = attempts, cf_bytes = bytes\<rparr>)"

text \<open>A fresh process over a disk another may be using.\<close>

definition new_spine :: "string \<Rightarrow> job_disk \<Rightarrow> spine" where
  "new_spine inst d =
     \<lparr>sp_index = [], sp_followers = [], sp_beats = [], sp_instance = inst, sp_seq = 0,
      sp_disposed = False, sp_disk = d, sp_heard = [], sp_hooks = [], sp_resuming = [], sp_retries = []\<rparr>"

definition job_at :: "string \<Rightarrow> spine \<Rightarrow> ide_job option" where
  "job_at i sp = map_of (sp_index sp) i"

definition ownedRecord :: "job_event \<Rightarrow> spine \<Rightarrow> job_event \<times> spine" where
  "ownedRecord ev sp =
     (let n = Suc (sp_seq sp)
      in (ev\<lparr>je_writer := sp_instance sp, je_record := sp_instance sp @ '':'' @ show_nat n\<rparr>,
          sp\<lparr>sp_seq := n\<rparr>))"

definition append_to :: "spine_config \<Rightarrow> string \<Rightarrow> job_event \<Rightarrow> spine \<Rightarrow> spine" where
  "append_to cfg i ev sp = sp\<lparr>sp_disk := append_line (cf_bytes cfg) i ev (sp_disk sp)\<rparr>"

definition stopHeartbeat :: "string \<Rightarrow> spine \<Rightarrow> spine" where
  "stopHeartbeat i sp = sp\<lparr>sp_beats := removeAll i (sp_beats sp)\<rparr>"

definition stopFollowing :: "string \<Rightarrow> spine \<Rightarrow> spine" where
  "stopFollowing i sp = sp\<lparr>sp_followers := AList.delete i (sp_followers sp)\<rparr>"

definition push_event :: "string \<Rightarrow> job_event \<Rightarrow> spine \<Rightarrow> spine" where
  "push_event i ev sp = sp\<lparr>sp_index := row_upd i (\<lambda>j. j\<lparr>ij_events := ij_events j @ [ev]\<rparr>) (sp_index sp)\<rparr>"

definition seal_fields :: "ms \<Rightarrow> job_event \<Rightarrow> ide_job \<Rightarrow> ide_job" where
  "seal_fields now ev j =
     (if isTerminal (je_type ev)
      then j\<lparr>ij_done := True, ij_endedAt := (if je_at ev \<noteq> 0 then je_at ev else now),
             ij_outcome := je_type ev, ij_stopped := (je_type ev = ''stopped''),
             ij_interrupted := (je_type ev = ''error'' \<and> je_code ev = ''interrupted'')\<rparr>
      else j)"

definition publish :: "ms \<Rightarrow> string \<Rightarrow> job_event \<Rightarrow> bool \<Rightarrow> spine \<Rightarrow> spine" where
  "publish now i ev fireHook sp =
     (case job_at i sp of
        None \<Rightarrow> sp
      | Some j \<Rightarrow>
          let j1 = seal_fields now ev j;
              sp1 = (if isTerminal (je_type ev) then stopFollowing i (stopHeartbeat i sp) else sp);
              stay = filter (\<lambda>l. \<not> hangs_up ev l) (ij_listeners j);
              told = map (\<lambda>l. (l, Some ev)) (ij_listeners j)
                       @ (if ij_done j1 then map (\<lambda>l. (l, None)) stay else []);
              j2 = j1\<lparr>ij_listeners := (if ij_done j1 then [] else stay)\<rparr>
          in sp1\<lparr>sp_index := AList.update i j2 (sp_index sp1), sp_heard := sp_heard sp1 @ told,
                 sp_hooks := (if fireHook then sp_hooks sp1 @ [(i, ev)] else sp_hooks sp1)\<rparr>)"

definition interrupted_event :: "ms \<Rightarrow> job_event" where
  "interrupted_event now =
     (event_of ''error'')\<lparr>je_at := now, je_code := ''interrupted'',
       je_text := ''This build was interrupted when the server restarted. Its work up to here is on disk.''\<rparr>"

definition sealInterrupted :: "spine_config \<Rightarrow> ms \<Rightarrow> string \<Rightarrow> spine \<Rightarrow> bool \<times> spine" where
  "sealInterrupted cfg now i sp =
     (case job_at i sp of
        None \<Rightarrow> (False, sp)
      | Some j \<Rightarrow>
          if ij_done j then (False, sp)
          else case ownedRecord (interrupted_event now) sp of
                 (ev, sp1) \<Rightarrow> (True, publish now i ev False (append_to cfg i ev (push_event i ev sp1))))"

section \<open>Resumption\<close>

definition dossier :: "job_event list \<Rightarrow> nat \<Rightarrow> resume_info" where
  "dossier raw attempt =
     (let evs = publicEvents raw
      in \<lparr>ri_request = lastRequest raw, ri_ledger = ledgerFromEvents evs, ri_plan = lastPlanEvent evs,
          ri_inFlightMove = lastInFlightMove evs, ri_attempt = attempt\<rparr>)"

text \<open>\<open>resume(job, info)\<close> is called; its answer comes back through \<open>resume_settle\<close>.\<close>

definition attemptResume :: "spine_config \<Rightarrow> ms \<Rightarrow> string \<Rightarrow> job_event list \<Rightarrow> nat \<Rightarrow> spine \<Rightarrow> spine" where
  "attemptResume cfg now i raw attempt sp =
     (case job_at i sp of
        None \<Rightarrow> sp
      | Some j \<Rightarrow>
          if sp_disposed sp \<or> ij_done j then sp
          else if \<not> cf_resume cfg then snd (sealInterrupted cfg now i sp)
          else (stopFollowing i sp)\<lparr>sp_resuming := sp_resuming sp @ [(i, dossier raw attempt)]\<rparr>)"

section \<open>Following another instance\<close>

definition follower_delay :: "spine_config \<Rightarrow> ms \<Rightarrow> follower \<Rightarrow> ms" where
  "follower_delay cfg now f = max 1 (min (cf_tail cfg) (max 0 (fo_leaseUntil f - now)))"

definition record_ids :: "job_event list \<Rightarrow> string list" where
  "record_ids evs = filter (\<lambda>r. r \<noteq> []) (map je_record evs)"

definition startFollowing :: "ms \<Rightarrow> string \<Rightarrow> snapshot \<Rightarrow> ms \<Rightarrow> spine \<Rightarrow> spine" where
  "startFollowing now i sn remaining sp =
     (let sp1 = stopFollowing i sp
      in sp1\<lparr>sp_followers := AList.update i
               \<lparr>fo_rawCursor = length (sn_records sn), fo_bytes = sn_bytes sn,
                fo_seen = record_ids (sn_records sn),
                fo_leaseUntil = now + max 0 remaining, fo_readFailures = 0\<rparr> (sp_followers sp1)\<rparr>)"

definition job_done :: "string \<Rightarrow> spine \<Rightarrow> bool" where
  "job_done i sp = (case job_at i sp of Some j \<Rightarrow> ij_done j | None \<Rightarrow> True)"

fun tail_records :: "ms \<Rightarrow> string \<Rightarrow> job_event list \<Rightarrow> string list \<times> spine \<Rightarrow> string list \<times> spine" where
  "tail_records now i [] acc = acc"
| "tail_records now i (ev # evs) (seen, sp) =
     (if je_type ev = LEASE_EVENT then tail_records now i evs (seen, sp)
      else if je_record ev \<noteq> [] \<and> je_record ev \<in> set seen then tail_records now i evs (seen, sp)
      else
        let seen' = (if je_record ev \<noteq> [] then je_record ev # seen else seen)
        in if job_done i sp then tail_records now i evs (seen', sp)
           else tail_records now i evs (seen', publish now i ev False (push_event i ev sp)))"

definition foreign :: "string \<Rightarrow> job_event \<Rightarrow> bool" where
  "foreign inst ev = (je_writer ev = [] \<or> je_writer ev \<noteq> inst)"

text \<open>The activity a snapshot shows beyond the cursor: a foreign record, or bytes without a record.\<close>

definition foreign_activity :: "string \<Rightarrow> snapshot \<Rightarrow> follower \<Rightarrow> bool" where
  "foreign_activity inst sn f =
     (fo_bytes f < sn_bytes sn \<and> length (sn_records sn) = fo_rawCursor f
      \<or> (\<exists>ev \<in> set (drop (fo_rawCursor f) (sn_records sn)). foreign inst ev))"

definition reconcileOne :: "spine_config \<Rightarrow> ms \<Rightarrow> bool \<Rightarrow> string \<Rightarrow> spine \<Rightarrow> bool \<times> spine" where
  "reconcileOne cfg now allowInterrupt i sp =
     (case map_of (sp_followers sp) i of
        None \<Rightarrow> (False, sp)
      | Some f \<Rightarrow>
          if job_done i sp then (False, stopFollowing i sp)
          else
            case readJournal i (sp_disk sp) of
              None \<Rightarrow>
                let f1 = f\<lparr>fo_readFailures := Suc (fo_readFailures f)\<rparr>;
                    sp1 = sp\<lparr>sp_followers := AList.update i f1 (sp_followers sp)\<rparr>
                in if allowInterrupt \<and> fo_leaseUntil f \<le> now \<and> MAX_READ_FAILURES \<le> fo_readFailures f1
                   then sealInterrupted cfg now i sp1 else (False, sp1)
            | Some sn \<Rightarrow>
                let active = foreign_activity (sp_instance sp) sn f;
                    (seen, sp1) = tail_records now i (drop (fo_rawCursor f) (sn_records sn)) (fo_seen f, sp);
                    f1 = f\<lparr>fo_rawCursor := length (sn_records sn), fo_bytes := sn_bytes sn,
                           fo_seen := seen, fo_readFailures := 0,
                           fo_leaseUntil := (if active then now + cf_grace cfg else fo_leaseUntil f)\<rparr>
                in if job_done i sp1 then (True, stopFollowing i sp1)
                   else
                     let sp2 = sp1\<lparr>sp_followers := AList.update i f1 (sp_followers sp1)\<rparr>
                     in if allowInterrupt \<and> fo_leaseUntil f1 \<le> now
                        then (if cf_resume cfg then (True, attemptResume cfg now i (sn_records sn) 1 sp2)
                              else sealInterrupted cfg now i sp2)
                        else (active, sp2))"

fun reconcile_ids :: "spine_config \<Rightarrow> ms \<Rightarrow> string list \<Rightarrow> spine \<Rightarrow> spine" where
  "reconcile_ids cfg now [] sp = sp"
| "reconcile_ids cfg now (i # is) sp = reconcile_ids cfg now is (snd (reconcileOne cfg now True i sp))"

definition reconcileAll :: "spine_config \<Rightarrow> ms \<Rightarrow> spine \<Rightarrow> spine" where
  "reconcileAll cfg now sp = reconcile_ids cfg now (map fst (sp_followers sp)) sp"

section \<open>Lifecycle\<close>

definition end_key :: "ide_job \<Rightarrow> ms" where
  "end_key j = (if ij_endedAt j \<noteq> 0 then ij_endedAt j else ij_startedAt j)"

definition archive_file :: "string \<Rightarrow> job_disk \<Rightarrow> job_disk" where
  "archive_file i d =
     (case map_of (jd_files d) i of
        None \<Rightarrow> d
      | Some ls \<Rightarrow> d\<lparr>jd_files := AList.delete i (jd_files d), jd_archive := AList.update i ls (jd_archive d)\<rparr>)"

fun evict_jobs :: "nat \<Rightarrow> string list \<Rightarrow> spine \<Rightarrow> spine" where
  "evict_jobs cap [] sp = sp"
| "evict_jobs cap (i # is) sp =
     (if length (sp_index sp) \<le> cap then sp
      else evict_jobs cap is
             ((stopFollowing i (stopHeartbeat i sp))\<lparr>sp_index := AList.delete i (sp_index sp),
                sp_disk := archive_file i (sp_disk sp)\<rparr>))"

definition gc_jobs :: "spine_config \<Rightarrow> spine \<Rightarrow> spine" where
  "gc_jobs cfg sp =
     (if length (sp_index sp) \<le> cf_cap cfg then sp
      else evict_jobs (cf_cap cfg)
             (map fst (sort_key (\<lambda>(i, j). end_key j) (rows_where (\<lambda>_ j. ij_done j) (sp_index sp)))) sp)"

datatype 'a spine_result = SpineThrow string | SpineOk 'a

definition scheduleHeartbeat :: "string \<Rightarrow> spine \<Rightarrow> spine" where
  "scheduleHeartbeat i sp =
     (if sp_disposed sp \<or> job_done i sp \<or> i \<in> set (sp_beats sp) then sp
      else sp\<lparr>sp_beats := sp_beats sp @ [i]\<rparr>)"

text \<open>The heartbeat timer of a job fires.\<close>

definition heartbeat :: "spine_config \<Rightarrow> ms \<Rightarrow> string \<Rightarrow> spine \<Rightarrow> spine" where
  "heartbeat cfg now i sp =
     (if i \<notin> set (sp_beats sp) then sp
      else
        let sp1 = stopHeartbeat i sp
        in if sp_disposed sp \<or> job_done i sp then sp1
           else scheduleHeartbeat i
                  (append_to cfg i ((event_of LEASE_EVENT)\<lparr>je_at := now, je_writer := sp_instance sp\<rparr>) sp1))"

definition create_job ::
  "spine_config \<Rightarrow> ms \<Rightarrow> string \<Rightarrow> string \<Rightarrow> string \<Rightarrow> string \<Rightarrow> bool \<Rightarrow> spine \<Rightarrow> string spine_result \<times> spine" where
  "create_job cfg now i uid workspaceId kind isOwner sp =
     (if sp_disposed sp then (SpineThrow ''ide jobs spine is disposed'', sp)
      else if uid = [] then (SpineThrow ''a job needs a uid'', sp)
      else case ownedRecord ((event_of ''job'')\<lparr>je_at := now, je_id := i, je_uid := uid,
                    je_workspaceId := workspaceId, je_kind := kind, je_isOwner := isOwner\<rparr>) sp of
             (head, sp1) \<Rightarrow>
               (SpineOk i,
                gc_jobs cfg (scheduleHeartbeat i (append_to cfg i head
                  (sp1\<lparr>sp_index := AList.update i
                     \<lparr>ij_uid = uid, ij_workspaceId = workspaceId, ij_kind = kind, ij_isOwner = isOwner,
                      ij_startedAt = now, ij_endedAt = 0, ij_outcome = [], ij_events = [head],
                      ij_listeners = [], ij_done = False, ij_stopped = False, ij_interrupted = False\<rparr>
                     (sp_index sp1)\<rparr>)))))"

definition note_seen :: "string \<Rightarrow> job_event \<Rightarrow> spine \<Rightarrow> spine" where
  "note_seen i ev sp =
     sp\<lparr>sp_followers := row_upd i (\<lambda>f. f\<lparr>fo_seen := je_record ev # fo_seen f\<rparr>) (sp_followers sp)\<rparr>"

definition emit :: "spine_config \<Rightarrow> ms \<Rightarrow> string \<Rightarrow> job_event \<Rightarrow> spine \<Rightarrow> job_event option spine_result \<times> spine" where
  "emit cfg now i ev sp0 =
     (let sp = snd (reconcileOne cfg now False i sp0)
      in if job_done i sp then (SpineOk None, sp)
         else if je_type ev \<notin> set EVENT_TYPES
         then (SpineThrow (''unknown ide job event type: '' @ je_type ev), sp)
         else case ownedRecord (ev\<lparr>je_at := now\<rparr>) sp of
                (out, sp1) \<Rightarrow>
                  (SpineOk (Some out),
                   publish now i out True (note_seen i out (append_to cfg i out (push_event i out sp1)))))"

definition finish_job :: "spine_config \<Rightarrow> ms \<Rightarrow> string \<Rightarrow> job_event \<Rightarrow> spine \<Rightarrow> job_event option spine_result \<times> spine" where
  "finish_job cfg now i ev sp =
     (if isTerminal (je_type ev) then emit cfg now i ev sp
      else (SpineThrow ''finish needs a terminal type'', sp))"

definition get_ide_job :: "spine_config \<Rightarrow> ms \<Rightarrow> string \<Rightarrow> spine \<Rightarrow> ide_job option \<times> spine" where
  "get_ide_job cfg now i sp =
     (let sp1 = snd (reconcileOne cfg now True i sp) in (job_at i sp1, sp1))"

datatype job_stop = NoSuchJob | AlreadyEnded string | StopSent

definition stop_job :: "spine_config \<Rightarrow> ms \<Rightarrow> string \<Rightarrow> string \<Rightarrow> spine \<Rightarrow> job_stop \<times> spine" where
  "stop_job cfg now i reason sp =
     (case get_ide_job cfg now i sp of
        (None, sp1) \<Rightarrow> (NoSuchJob, sp1)
      | (Some j, sp1) \<Rightarrow>
          if ij_done j then (AlreadyEnded (ij_outcome j), sp1)
          else (StopSent,
                snd (emit cfg now i ((event_of ''stopped'')\<lparr>je_text := reason\<rparr>)
                  (sp1\<lparr>sp_index := row_upd i (\<lambda>j. j\<lparr>ij_stopped := True\<rparr>) (sp_index sp1)\<rparr>))))"

definition recordRequest :: "spine_config \<Rightarrow> ms \<Rightarrow> string \<Rightarrow> string \<Rightarrow> spine \<Rightarrow> spine" where
  "recordRequest cfg now i request sp =
     append_to cfg i ((event_of REQUEST_EVENT)\<lparr>je_at := now, je_request := Some request\<rparr>) sp"

text \<open>The answer of a \<open>resume()\<close> call; \<open>ResumeNo\<close> is a hard no, a throw or a missing answer.\<close>

datatype resume_answer = ResumeOk | ResumePaused string | ResumeNo

definition resume_note :: "resume_info \<Rightarrow> string" where
  "resume_note info =
     ''Server restart recovered: this build resumes in the new process.'' @
     (case ri_inFlightMove info of
        None \<Rightarrow> []
      | Some m \<Rightarrow> '' ('' @ or_text (je_title m) (je_id m) @ '' was in flight and runs again.)'')"

definition resume_settle ::
  "spine_config \<Rightarrow> ms \<Rightarrow> string \<Rightarrow> resume_info \<Rightarrow> job_event list \<Rightarrow> resume_answer \<Rightarrow> spine \<Rightarrow> spine" where
  "resume_settle cfg now i info raw r sp0 =
     (let sp = sp0\<lparr>sp_resuming := remove1 (i, info) (sp_resuming sp0)\<rparr>
      in if sp_disposed sp \<or> job_done i sp then sp
         else case r of
                ResumeOk \<Rightarrow> snd (emit cfg now i ((event_of ''run'')\<lparr>je_text := resume_note info\<rparr>) sp)
              | ResumePaused reason \<Rightarrow>
                  if ri_attempt info < cf_maxAttempts cfg
                  then (snd (emit cfg now i ((event_of ''paused'')\<lparr>je_text := reason\<rparr>) sp))
                         \<lparr>sp_retries := sp_retries sp @ [(i, raw, ri_attempt info)]\<rparr>
                  else snd (sealInterrupted cfg now i sp)
              | ResumeNo \<Rightarrow> snd (sealInterrupted cfg now i sp))"

text \<open>A retry timer fires: the journal is read again.\<close>

definition resume_retry :: "spine_config \<Rightarrow> ms \<Rightarrow> string \<Rightarrow> job_event list \<Rightarrow> nat \<Rightarrow> spine \<Rightarrow> spine" where
  "resume_retry cfg now i raw attempt sp0 =
     (let sp = sp0\<lparr>sp_retries := remove1 (i, raw, attempt) (sp_retries sp0)\<rparr>
      in attemptResume cfg now i
           (case readJournal i (sp_disk sp) of Some sn \<Rightarrow> sn_records sn | None \<Rightarrow> raw) (Suc attempt) sp)"

section \<open>Restart recovery\<close>

definition recovered_job :: "job_event list \<Rightarrow> ide_job" where
  "recovered_job evs =
     (let head = hd evs; lst = last evs; t = isTerminal (je_type lst)
      in \<lparr>ij_uid = je_uid head, ij_workspaceId = je_workspaceId head,
          ij_kind = or_text (je_kind head) ''build'', ij_isOwner = je_isOwner head,
          ij_startedAt = je_at head, ij_endedAt = (if t then je_at lst else 0),
          ij_outcome = (if t then je_type lst else []), ij_events = evs, ij_listeners = [],
          ij_done = t, ij_stopped = (je_type lst = ''stopped''),
          ij_interrupted = (je_type lst = ''error'' \<and> je_code lst = ''interrupted'')\<rparr>)"

definition remaining_grace :: "spine_config \<Rightarrow> ms \<Rightarrow> job_event list \<Rightarrow> ms" where
  "remaining_grace cfg now recs =
     (let stamp = je_at (last recs);
          age = (if 0 < stamp then max 0 (now - stamp) else cf_grace cfg)
      in max 0 (cf_grace cfg - min (cf_grace cfg) age))"

record boot_counts =
  bc_recovered :: nat
  bc_interrupted :: nat
  bc_resuming :: nat

definition load_one :: "spine_config \<Rightarrow> ms \<Rightarrow> string \<Rightarrow> boot_counts \<times> spine \<Rightarrow> boot_counts \<times> spine" where
  "load_one cfg now i acc =
     (case acc of (n, sp) \<Rightarrow>
        case readJournal i (sp_disk sp) of
          None \<Rightarrow> (n, sp)
        | Some sn \<Rightarrow>
            let evs = publicEvents (sn_records sn)
            in if evs = [] then (n, sp)
               else
                 let j = recovered_job evs;
                     sp0 = stopFollowing i sp;
                     sp1 = sp0\<lparr>sp_index := AList.update i j (sp_index sp0)\<rparr>;
                     n1 = n\<lparr>bc_recovered := Suc (bc_recovered n)\<rparr>
                 in if ij_done j then (n1, sp1)
                    else if 0 < remaining_grace cfg now (sn_records sn)
                    then (n1, startFollowing now i sn (remaining_grace cfg now (sn_records sn)) sp1)
                    else if cf_resume cfg
                    then (n1\<lparr>bc_resuming := Suc (bc_resuming n1)\<rparr>, attemptResume cfg now i (sn_records sn) 1 sp1)
                    else (n1\<lparr>bc_interrupted := Suc (bc_interrupted n1)\<rparr>, snd (sealInterrupted cfg now i sp1)))"

definition loadFromDisk :: "spine_config \<Rightarrow> ms \<Rightarrow> spine \<Rightarrow> boot_counts \<times> spine" where
  "loadFromDisk cfg now sp =
     (case fold (load_one cfg now) (map fst (jd_files (sp_disk sp)))
             (\<lparr>bc_recovered = 0, bc_interrupted = 0, bc_resuming = 0\<rparr>, sp) of
        (n, sp1) \<Rightarrow> (n, gc_jobs cfg sp1))"

section \<open>Reads\<close>

record rail =
  ra_move :: "job_event option"
  ra_cost :: "job_event option"
  ra_pending :: "job_event option"

definition rail_step :: "job_event \<Rightarrow> rail \<Rightarrow> rail" where
  "rail_step ev r =
     (if je_type ev = ''move'' then r\<lparr>ra_move := Some ev, ra_pending := None\<rparr>
      else if je_type ev = ''cost'' then r\<lparr>ra_cost := Some ev\<rparr>
      else if je_type ev = ''need_input'' then r\<lparr>ra_pending := Some ev\<rparr>
      else if je_type ev = ''answer'' \<or> isTerminal (je_type ev) then r\<lparr>ra_pending := None\<rparr>
      else r)"

record job_summary =
  js_id :: string
  js_startedAt :: ms
  js_done :: bool
  js_outcome :: string
  js_waiting :: bool
  js_events :: nat
  js_move :: "(string \<times> string \<times> string) option"
  js_cost :: "(rat \<times> rat) option"
  js_needsInput :: "(string \<times> string \<times> string list \<times> string) option"

definition summarize :: "string \<Rightarrow> ide_job \<Rightarrow> job_summary" where
  "summarize i j =
     (let r = fold rail_step (ij_events j) \<lparr>ra_move = None, ra_cost = None, ra_pending = None\<rparr>
      in \<lparr>js_id = i, js_startedAt = ij_startedAt j, js_done = ij_done j, js_outcome = ij_outcome j,
          js_waiting = (\<not> ij_done j \<and> ra_pending r \<noteq> None),
          js_events = length (ij_events j),
          js_move = map_option (\<lambda>m. (je_id m, je_title m, je_state m)) (ra_move r),
          js_cost = map_option (\<lambda>c. (or_zero (je_usd c), or_zero (je_credits c))) (ra_cost r),
          js_needsInput =
            (if ij_done j then None
             else map_option (\<lambda>p. (je_id p, je_text p, take 6 (je_options p), je_default p)) (ra_pending r))\<rparr>)"

definition jobs_for :: "spine_config \<Rightarrow> ms \<Rightarrow> string \<Rightarrow> nat \<Rightarrow> spine \<Rightarrow> job_summary list \<times> spine" where
  "jobs_for cfg now uid limit sp =
     (let sp1 = reconcileAll cfg now sp
      in (map (\<lambda>(i, j). summarize i j)
            (take limit (sort_key (\<lambda>(i, j). - ij_startedAt j) (rows_where (\<lambda>_ j. ij_uid j = uid) (sp_index sp1)))),
          sp1))"

definition activeFor :: "spine_config \<Rightarrow> ms \<Rightarrow> string \<Rightarrow> spine \<Rightarrow> job_summary list \<times> spine" where
  "activeFor cfg now uid sp =
     (case jobs_for cfg now uid 50 sp of (js, sp1) \<Rightarrow> (filter (\<lambda>s. \<not> js_done s) js, sp1))"

text \<open>Replay from an index, then listen.\<close>

definition attach_job :: "spine_config \<Rightarrow> ms \<Rightarrow> string \<Rightarrow> nat \<Rightarrow> listener \<Rightarrow> spine \<Rightarrow> spine" where
  "attach_job cfg now i from l sp0 =
     (let sp = snd (reconcileOne cfg now True i sp0)
      in case job_at i sp of
           None \<Rightarrow> sp\<lparr>sp_heard := sp_heard sp @ [(l, Some (event_of ''gone'')), (l, None)]\<rparr>
         | Some j \<Rightarrow>
             let sp1 = sp\<lparr>sp_heard := sp_heard sp @ map (\<lambda>ev. (l, Some ev)) (drop from (ij_events j))\<rparr>
             in if ij_done j then sp1\<lparr>sp_heard := sp_heard sp1 @ [(l, None)]\<rparr>
                else sp1\<lparr>sp_index := row_upd i (\<lambda>j. j\<lparr>ij_listeners := ij_listeners j @ [l]\<rparr>) (sp_index sp1)\<rparr>)"

definition detach_job :: "string \<Rightarrow> listener \<Rightarrow> spine \<Rightarrow> spine" where
  "detach_job i l sp =
     sp\<lparr>sp_index := row_upd i (\<lambda>j. j\<lparr>ij_listeners := remove1 l (ij_listeners j)\<rparr>) (sp_index sp)\<rparr>"

text \<open>What the listener of \<open>waitForAnswer\<close> makes of the deliveries: \<open>None\<close> is a promise still pending,
  \<open>Some None\<close> resolves to null.\<close>

fun wait_result :: "job_event option list \<Rightarrow> job_event option option" where
  "wait_result [] = None"
| "wait_result (None # ds) = Some None"
| "wait_result (Some ev # ds) = (if je_type ev = ''answer'' then Some (Some ev) else wait_result ds)"

definition heard_by :: "listener \<Rightarrow> spine \<Rightarrow> job_event option list" where
  "heard_by l sp = map snd (filter (\<lambda>(k, d). k = l) (sp_heard sp))"

text \<open>While the replay runs, \<open>off\<close> is still the empty function: a waiter that is handed an answer there stays
  subscribed until the next answer or the end marker.\<close>

definition waitForAnswer :: "spine_config \<Rightarrow> ms \<Rightarrow> string \<Rightarrow> nat \<Rightarrow> nat \<Rightarrow> spine \<Rightarrow> spine" where
  "waitForAnswer cfg now i from n sp =
     (case get_ide_job cfg now i sp of
        (None, sp1) \<Rightarrow> sp1\<lparr>sp_heard := sp_heard sp1 @ [(Waiter n, None)]\<rparr>
      | (Some j, sp1) \<Rightarrow>
          if ij_done j then sp1\<lparr>sp_heard := sp_heard sp1 @ [(Waiter n, None)]\<rparr>
          else attach_job cfg now i from (Waiter n) sp1)"

definition dispose_spine :: "spine \<Rightarrow> spine" where
  "dispose_spine sp = sp\<lparr>sp_disposed := True, sp_beats := [], sp_followers := []\<rparr>"

definition runningCount :: "spine \<Rightarrow> nat" where
  "runningCount sp = length (rows_where (\<lambda>_ j. \<not> ij_done j) (sp_index sp))"

end
