(* ===== verification/IdeJobs_Facts.thy ===== *)
theory IdeJobs_Facts
  imports IdeJobs
begin

text \<open>
  What every operation of the job spine leaves alone, what the terminal event of a job fixes, and the
  stream a listener receives.
\<close>

section \<open>The public stream of a journal\<close>

lemma publicEvents_snoc: "publicEvents (recs @ [ev]) = public_push (publicEvents recs) ev"
  by (simp add: publicEvents_def)

lemma publicEvents_Nil [simp]: "publicEvents [] = []"
  by (simp add: publicEvents_def)

definition well_sealed :: "job_event list \<Rightarrow> bool" where
  "well_sealed evs = list_all (\<lambda>ev. \<not> isTerminal (je_type ev)) (butlast evs)"

lemma well_sealed_snoc:
  "well_sealed (evs @ [ev]) = list_all (\<lambda>ev. \<not> isTerminal (je_type ev)) evs"
  by (simp add: well_sealed_def)

lemma open_prefix:
  "well_sealed evs \<Longrightarrow> evs = [] \<or> \<not> isTerminal (je_type (last evs)) \<Longrightarrow>
   list_all (\<lambda>ev. \<not> isTerminal (je_type ev)) evs"
  by (cases evs rule: rev_cases) (auto simp: well_sealed_def)

lemma well_sealed_public: "well_sealed (publicEvents recs)"
proof (induction recs rule: rev_induct)
  case Nil
  show ?case by (simp add: well_sealed_def)
next
  case (snoc ev recs)
  then show ?case
    using open_prefix [OF snoc] by (auto simp: publicEvents_snoc public_push_def well_sealed_snoc)
qed

definition sealed_stream :: "job_event list \<Rightarrow> bool" where
  "sealed_stream evs = (evs \<noteq> [] \<and> isTerminal (je_type (last evs)))"

lemma public_after_seal:
  "sealed_stream (publicEvents recs) \<Longrightarrow> publicEvents (recs @ later) = publicEvents recs"
proof (induction later rule: rev_induct)
  case (snoc ev later)
  then have "publicEvents (recs @ later) = publicEvents recs" by simp
  then have "publicEvents ((recs @ later) @ [ev]) = public_push (publicEvents recs) ev"
    by (simp only: publicEvents_snoc)
  then show ?case using snoc.prems by (simp add: public_push_def sealed_stream_def)
qed simp

lemma parsed_append: "parsed_lines (xs @ ys) = parsed_lines xs @ parsed_lines ys"
  by (induction xs rule: parsed_lines.induct) auto

section \<open>What one job's operations leave alone\<close>

text \<open>What the spine holds of job \<open>i\<close>, and the parts no operation touches.\<close>

definition view ::
  "string \<Rightarrow> spine \<Rightarrow> ide_job option \<times> follower option \<times> journal_line list option" where
  "view i sp = (job_at i sp, map_of (sp_followers sp) i, map_of (jd_files (sp_disk sp)) i)"

definition fixed_parts :: "spine \<Rightarrow> string \<times> bool \<times> bool \<times> bool" where
  "fixed_parts sp = (sp_instance sp, jd_unreadable (sp_disk sp), jd_full (sp_disk sp), sp_disposed sp)"

lemma fixed_partsD:
  assumes "fixed_parts sp' = fixed_parts sp"
  shows "sp_instance sp' = sp_instance sp" and "jd_unreadable (sp_disk sp') = jd_unreadable (sp_disk sp)"
    and "jd_full (sp_disk sp') = jd_full (sp_disk sp)" and "sp_disposed sp' = sp_disposed sp"
  using assms by (auto simp: fixed_parts_def)

named_theorems frame_simps \<open>what an operation leaves of another job\<close>

lemma fixed_publish [frame_simps]: "fixed_parts (publish now k ev h sp) = fixed_parts sp"
  by (simp add: fixed_parts_def publish_def stopFollowing_def stopHeartbeat_def Let_def split: option.split)

lemma fixed_append [frame_simps]: "fixed_parts (append_to cfg k ev sp) = fixed_parts sp"
  by (simp add: fixed_parts_def append_to_def append_line_def)

lemma fixed_push [frame_simps]: "fixed_parts (push_event k ev sp) = fixed_parts sp"
  by (simp add: fixed_parts_def push_event_def)

lemma fixed_small [frame_simps]:
  "fixed_parts (stopFollowing k sp) = fixed_parts sp" "fixed_parts (stopHeartbeat k sp) = fixed_parts sp"
  "fixed_parts (note_seen k ev sp) = fixed_parts sp" "fixed_parts (snd (ownedRecord ev sp)) = fixed_parts sp"
  "fixed_parts (sp\<lparr>sp_followers := fs\<rparr>) = fixed_parts sp" "fixed_parts (sp\<lparr>sp_index := ix\<rparr>) = fixed_parts sp"
  "fixed_parts (sp\<lparr>sp_heard := hs\<rparr>) = fixed_parts sp" "fixed_parts (sp\<lparr>sp_resuming := rs\<rparr>) = fixed_parts sp"
  "fixed_parts (sp\<lparr>sp_retries := ts\<rparr>) = fixed_parts sp" "fixed_parts (sp\<lparr>sp_beats := bs\<rparr>) = fixed_parts sp"
  by (simp_all add: fixed_parts_def stopFollowing_def stopHeartbeat_def note_seen_def ownedRecord_def Let_def)

lemma view_publish [frame_simps]: "k \<noteq> i \<Longrightarrow> view i (publish now k ev h sp) = view i sp"
  by (simp add: view_def job_at_def publish_def stopFollowing_def stopHeartbeat_def Let_def row_simps split: option.split)

lemma view_append [frame_simps]: "k \<noteq> i \<Longrightarrow> view i (append_to cfg k ev sp) = view i sp"
  by (simp add: view_def job_at_def append_to_def append_line_def row_simps)

lemma view_push [frame_simps]: "k \<noteq> i \<Longrightarrow> view i (push_event k ev sp) = view i sp"
  by (simp add: view_def job_at_def push_event_def row_simps)

lemma view_small [frame_simps]:
  "k \<noteq> i \<Longrightarrow> view i (stopFollowing k sp) = view i sp" "view i (stopHeartbeat k sp) = view i sp"
  "k \<noteq> i \<Longrightarrow> view i (note_seen k ev sp) = view i sp" "view i (snd (ownedRecord ev sp)) = view i sp"
  "map_of fs i = map_of (sp_followers sp) i \<Longrightarrow> view i (sp\<lparr>sp_followers := fs\<rparr>) = view i sp"
  "map_of ix i = map_of (sp_index sp) i \<Longrightarrow> view i (sp\<lparr>sp_index := ix\<rparr>) = view i sp"
  "view i (sp\<lparr>sp_heard := hs\<rparr>) = view i sp" "view i (sp\<lparr>sp_resuming := rs\<rparr>) = view i sp"
  "view i (sp\<lparr>sp_retries := ts\<rparr>) = view i sp" "view i (sp\<lparr>sp_beats := bs\<rparr>) = view i sp"
  by (simp_all add: view_def job_at_def stopFollowing_def stopHeartbeat_def note_seen_def ownedRecord_def
      Let_def row_simps)

lemma owned_split: "ownedRecord ev sp = (fst (ownedRecord ev sp), snd (ownedRecord ev sp))"
  by simp

lemma frame_seal [frame_simps]:
  "fixed_parts (snd (sealInterrupted cfg now k sp)) = fixed_parts sp"
  "k \<noteq> i \<Longrightarrow> view i (snd (sealInterrupted cfg now k sp)) = view i sp"
  by (simp_all add: sealInterrupted_def case_prod_unfold frame_simps row_simps split: option.split)

lemma frame_resume [frame_simps]:
  "fixed_parts (attemptResume cfg now k raw n sp) = fixed_parts sp"
  "k \<noteq> i \<Longrightarrow> view i (attemptResume cfg now k raw n sp) = view i sp"
  by (simp_all add: attemptResume_def frame_simps row_simps split: option.split)

lemma frame_tail [frame_simps]:
  "fixed_parts (snd (tail_records now k evs (seen, sp))) = fixed_parts sp"
  "k \<noteq> i \<Longrightarrow> view i (snd (tail_records now k evs (seen, sp))) = view i sp"
  by (induction evs arbitrary: seen sp) (simp_all add: Let_def frame_simps row_simps)

lemma frame_reconcile [frame_simps]:
  "fixed_parts (snd (reconcileOne cfg now b k sp)) = fixed_parts sp"
  "k \<noteq> i \<Longrightarrow> view i (snd (reconcileOne cfg now b k sp)) = view i sp"
  by (simp_all add: reconcileOne_def Let_def case_prod_unfold frame_simps row_simps split: option.split)

lemma frame_emit [frame_simps]:
  "fixed_parts (snd (emit cfg now k ev sp)) = fixed_parts sp"
  "k \<noteq> i \<Longrightarrow> view i (snd (emit cfg now k ev sp)) = view i sp"
  by (simp_all add: emit_def Let_def case_prod_unfold frame_simps row_simps)

lemma frame_attach [frame_simps]:
  "fixed_parts (attach_job cfg now k from l sp) = fixed_parts sp"
  "k \<noteq> i \<Longrightarrow> view i (attach_job cfg now k from l sp) = view i sp"
  by (simp_all add: attach_job_def Let_def frame_simps row_simps split: option.split)

lemma frame_detach [frame_simps]:
  "fixed_parts (detach_job k l sp) = fixed_parts sp"
  "k \<noteq> i \<Longrightarrow> view i (detach_job k l sp) = view i sp"
  by (simp_all add: detach_job_def frame_simps row_simps)

lemma frame_stop [frame_simps]:
  "fixed_parts (snd (stop_job cfg now k r sp)) = fixed_parts sp"
  "k \<noteq> i \<Longrightarrow> view i (snd (stop_job cfg now k r sp)) = view i sp"
  by (simp_all add: stop_job_def get_ide_job_def Let_def frame_simps row_simps split: option.split)

lemma frame_beat [frame_simps]:
  "fixed_parts (heartbeat cfg now k sp) = fixed_parts sp"
  "k \<noteq> i \<Longrightarrow> view i (heartbeat cfg now k sp) = view i sp"
  by (simp_all add: heartbeat_def scheduleHeartbeat_def Let_def frame_simps row_simps)

lemma frame_request [frame_simps]:
  "fixed_parts (recordRequest cfg now k r sp) = fixed_parts sp"
  "k \<noteq> i \<Longrightarrow> view i (recordRequest cfg now k r sp) = view i sp"
  by (simp_all add: recordRequest_def frame_simps row_simps)

lemma frame_settle [frame_simps]:
  "fixed_parts (resume_settle cfg now k info raw r sp) = fixed_parts sp"
  "k \<noteq> i \<Longrightarrow> view i (resume_settle cfg now k info raw r sp) = view i sp"
  by (simp_all add: resume_settle_def Let_def frame_simps row_simps split: resume_answer.split)

lemma frame_retry [frame_simps]:
  "fixed_parts (resume_retry cfg now k raw n sp) = fixed_parts sp"
  "k \<noteq> i \<Longrightarrow> view i (resume_retry cfg now k raw n sp) = view i sp"
  by (simp_all add: resume_retry_def Let_def frame_simps row_simps)

section \<open>Every job is sealed by its terminal event\<close>

definition sealed_job :: "ms \<Rightarrow> job_event \<Rightarrow> ide_job \<Rightarrow> ide_job" where
  "sealed_job now ev j =
     (let j1 = seal_fields now ev j
      in j1\<lparr>ij_listeners := (if ij_done j1 then [] else filter (\<lambda>l. \<not> hangs_up ev l) (ij_listeners j))\<rparr>)"

lemma index_publish:
  "sp_index (publish now i ev h sp) =
     (case job_at i sp of None \<Rightarrow> sp_index sp | Some j \<Rightarrow> AList.update i (sealed_job now ev j) (sp_index sp))"
  by (simp add: publish_def sealed_job_def stopFollowing_def stopHeartbeat_def Let_def split: option.split)

lemma index_small [simp]:
  "sp_index (append_to cfg i ev sp) = sp_index sp" "sp_index (note_seen i ev sp) = sp_index sp"
  "sp_index (snd (ownedRecord ev sp)) = sp_index sp" "sp_index (stopFollowing i sp) = sp_index sp"
  "sp_index (stopHeartbeat i sp) = sp_index sp" "sp_index (scheduleHeartbeat i sp) = sp_index sp"
  "sp_index (recordRequest cfg now i r sp) = sp_index sp" "sp_index (heartbeat cfg now i sp) = sp_index sp"
  by (simp_all add: append_to_def note_seen_def ownedRecord_def stopFollowing_def stopHeartbeat_def
      scheduleHeartbeat_def recordRequest_def heartbeat_def Let_def)

lemma job_at_small [simp]:
  "job_at k (append_to cfg i ev sp) = job_at k sp" "job_at k (note_seen i ev sp) = job_at k sp"
  "job_at k (snd (ownedRecord ev sp)) = job_at k sp" "job_at k (stopFollowing i sp) = job_at k sp"
  "job_at k (stopHeartbeat i sp) = job_at k sp" "job_at k (scheduleHeartbeat i sp) = job_at k sp"
  "job_at k (sp\<lparr>sp_followers := fs\<rparr>) = job_at k sp" "job_at k (sp\<lparr>sp_heard := hs\<rparr>) = job_at k sp"
  "job_at k (sp\<lparr>sp_resuming := rs\<rparr>) = job_at k sp" "job_at k (sp\<lparr>sp_retries := ts\<rparr>) = job_at k sp"
  by (simp_all add: job_at_def)

lemma job_done_small [simp]:
  "job_done k (sp\<lparr>sp_followers := fs\<rparr>) = job_done k sp" "job_done k (stopFollowing i sp) = job_done k sp"
  "job_done k (sp\<lparr>sp_resuming := rs\<rparr>) = job_done k sp" "job_done k (sp\<lparr>sp_retries := rs'\<rparr>) = job_done k sp"
  by (simp_all add: job_done_def)

lemma job_at_push:
  "job_at k (push_event i ev sp) =
     (if k = i then map_option (\<lambda>j. j\<lparr>ij_events := ij_events j @ [ev]\<rparr>) (job_at i sp) else job_at k sp)"
  by (simp add: job_at_def push_event_def row_simps)

definition job_ok :: "ide_job \<Rightarrow> bool" where
  "job_ok j =
     (ij_events j \<noteq> [] \<and> well_sealed (ij_events j)
      \<and> ij_done j = isTerminal (je_type (last (ij_events j)))
      \<and> (ij_done j \<longrightarrow> ij_outcome j = je_type (last (ij_events j)) \<and> ij_listeners j = []))"

definition spine_ok :: "spine \<Rightarrow> bool" where
  "spine_ok sp = (distinct (map fst (sp_index sp)) \<and> (\<forall>i j. map_of (sp_index sp) i = Some j \<longrightarrow> job_ok j))"

lemma spine_okD: "spine_ok sp \<Longrightarrow> job_at i sp = Some j \<Longrightarrow> job_ok j"
  by (auto simp: spine_ok_def job_at_def)

lemma job_ok_grow:
  assumes "job_ok j" and "\<not> ij_done j"
  shows "job_ok (sealed_job now ev (j\<lparr>ij_events := ij_events j @ [ev]\<rparr>))"
proof -
  have "list_all (\<lambda>ev. \<not> isTerminal (je_type ev)) (ij_events j)"
    using assms by (intro open_prefix) (auto simp: job_ok_def)
  then show ?thesis
    using assms(2) by (auto simp: job_ok_def sealed_job_def seal_fields_def Let_def well_sealed_snoc)
qed

text \<open>Storing a job that is in order keeps the index in order.\<close>

lemma spine_ok_put:
  assumes "spine_ok sp" and "sp_index sp' = AList.update i j (sp_index sp)" and "job_ok j"
  shows "spine_ok sp'"
  using assms by (auto simp: spine_ok_def row_simps distinct_keys_update split: if_splits)

lemma update_row_upd:
  "map_of t i = Some j \<Longrightarrow> map_of (AList.update i v (row_upd i f t)) = map_of (AList.update i v t)"
  by (auto simp: row_simps)

text \<open>The combination every writer uses: push the event, then publish it.\<close>

lemma spine_ok_record:
  assumes ok: "spine_ok sp" and j: "job_at i sp = Some j" "\<not> ij_done j"
    and idx: "sp_index mid = sp_index (push_event i ev sp)"
  shows "spine_ok (publish now i ev h mid)"
    and "job_at i (publish now i ev h mid) = Some (sealed_job now ev (j\<lparr>ij_events := ij_events j @ [ev]\<rparr>))"
    and "k \<noteq> i \<Longrightarrow> job_at k (publish now i ev h mid) = job_at k sp"
proof -
  let ?j1 = "j\<lparr>ij_events := ij_events j @ [ev]\<rparr>"
  have mid: "job_at i mid = Some ?j1"
    using j job_at_push [of i i ev sp] idx by (simp add: job_at_def)
  have pub: "sp_index (publish now i ev h mid) = AList.update i (sealed_job now ev ?j1) (sp_index mid)"
    using mid by (simp add: index_publish)
  have maps: "map_of (sp_index (publish now i ev h mid)) k =
      (if k = i then Some (sealed_job now ev ?j1) else map_of (sp_index sp) k)" for k
    using pub idx by (simp add: push_event_def row_simps)
  have "distinct (map fst (sp_index (publish now i ev h mid)))"
    using ok pub idx by (simp add: spine_ok_def push_event_def distinct_keys_update)
  then show "spine_ok (publish now i ev h mid)"
    using ok maps job_ok_grow [OF spine_okD [OF ok j(1)] j(2)] by (auto simp: spine_ok_def)
  show "job_at i (publish now i ev h mid) = Some (sealed_job now ev ?j1)"
    using maps by (simp add: job_at_def)
  show "k \<noteq> i \<Longrightarrow> job_at k (publish now i ev h mid) = job_at k sp"
    using maps by (simp add: job_at_def)
qed

lemma not_job_done: "\<not> job_done i sp \<Longrightarrow> \<exists>j. job_at i sp = Some j \<and> \<not> ij_done j"
  by (auto simp: job_done_def split: option.splits)

lemma heard_small [simp]:
  "sp_heard (append_to cfg i ev sp) = sp_heard sp" "sp_heard (note_seen i ev sp) = sp_heard sp"
  "sp_heard (snd (ownedRecord ev sp)) = sp_heard sp" "sp_heard (stopFollowing i sp) = sp_heard sp"
  "sp_heard (stopHeartbeat i sp) = sp_heard sp" "sp_heard (scheduleHeartbeat i sp) = sp_heard sp"
  "sp_heard (push_event i ev sp) = sp_heard sp" "sp_heard (recordRequest cfg now i r sp) = sp_heard sp"
  "sp_heard (heartbeat cfg now i sp) = sp_heard sp"
  by (simp_all add: append_to_def note_seen_def ownedRecord_def stopFollowing_def stopHeartbeat_def
      scheduleHeartbeat_def push_event_def recordRequest_def heartbeat_def Let_def)

section \<open>What every writer keeps\<close>

text \<open>
  The journal writers (the emitter, the follower, the sealer, the resumption) change the index and
  the deliveries in one way only: an event is pushed to a job that is not done, and published.  A
  predicate on the index and the deliveries that this step keeps is kept by all of them.
\<close>

locale spine_invariant =
  fixes P :: "spine \<Rightarrow> bool"
  assumes same: "P sp \<Longrightarrow> sp_index sp' = sp_index sp \<Longrightarrow> sp_heard sp' = sp_heard sp \<Longrightarrow> P sp'"
    and grows: "P sp \<Longrightarrow> job_at i sp = Some j \<Longrightarrow> \<not> ij_done j \<Longrightarrow>
      sp_index mid = sp_index (push_event i ev sp) \<Longrightarrow> sp_heard mid = sp_heard sp \<Longrightarrow>
      P (publish now i ev h mid)"
    and marks: "P sp \<Longrightarrow> P (sp\<lparr>sp_index := row_upd i (\<lambda>j. j\<lparr>ij_stopped := True\<rparr>) (sp_index sp)\<rparr>)"
begin

lemma seal: "P sp \<Longrightarrow> P (snd (sealInterrupted cfg now i sp))"
proof (cases "job_done i sp")
  case True
  then show "P sp \<Longrightarrow> ?thesis"
    by (simp add: sealInterrupted_def job_done_def split: option.splits)
next
  case False
  assume ok: "P sp"
  obtain j where j: "job_at i sp = Some j" "\<not> ij_done j" using not_job_done [OF False] by blast
  let ?o = "ownedRecord (interrupted_event now) sp"
  have "P (snd ?o)" using ok by (rule same) simp_all
  then show ?thesis
    using j grows [of "snd ?o" i j "append_to cfg i (fst ?o) (push_event i (fst ?o) (snd ?o))" "fst ?o"]
    by (simp add: sealInterrupted_def case_prod_unfold)
qed

lemma resume: "P sp \<Longrightarrow> P (attemptResume cfg now i raw n sp)"
  using seal [of sp cfg now i] by (auto simp: attemptResume_def intro: same split: option.split)

lemma tail: "P sp \<Longrightarrow> P (snd (tail_records now i evs (seen, sp)))"
proof (induction evs arbitrary: seen sp)
  case (Cons ev evs)
  show ?case
  proof (cases "job_done i sp")
    case True
    then show ?thesis using Cons by (simp add: Let_def)
  next
    case False
    then obtain j where "job_at i sp = Some j" "\<not> ij_done j" using not_job_done by blast
    then have "P (publish now i ev False (push_event i ev sp))"
      using grows [OF Cons.prems, of i j "push_event i ev sp" ev now False] by simp
    then show ?thesis using Cons False by (simp add: Let_def)
  qed
qed simp

lemma followers: "P sp \<Longrightarrow> P (sp\<lparr>sp_followers := fs\<rparr>)"
  by (rule same) simp_all

lemma later_retry: "P sp \<Longrightarrow> P (sp\<lparr>sp_retries := ts\<rparr>)"
  by (rule same) simp_all

lemma unfollow: "P sp \<Longrightarrow> P (stopFollowing i sp)"
  by (rule same) simp_all

lemma reconcile: "P sp \<Longrightarrow> P (snd (reconcileOne cfg now b i sp))"
  using tail [of sp now i]
  by (simp add: reconcileOne_def Let_def case_prod_unfold seal resume followers unfollow split: option.split)

lemma emits: "P sp \<Longrightarrow> P (snd (emit cfg now i ev sp))"
proof -
  assume "P sp"
  let ?sp = "snd (reconcileOne cfg now False i sp)"
  let ?o = "ownedRecord (ev\<lparr>je_at := now\<rparr>) ?sp"
  have ok1: "P ?sp" using \<open>P sp\<close> by (rule reconcile)
  show ?thesis
  proof (cases "job_done i ?sp \<or> je_type ev \<notin> set EVENT_TYPES")
    case True
    then show ?thesis using ok1 by (auto simp: emit_def Let_def)
  next
    case False
    then obtain j where j: "job_at i ?sp = Some j" "\<not> ij_done j" using not_job_done by blast
    have ok2: "P (snd ?o)" using ok1 by (rule same) simp_all
    show ?thesis
      using False j grows [OF ok2, of i j
          "note_seen i (fst ?o) (append_to cfg i (fst ?o) (push_event i (fst ?o) (snd ?o)))" "fst ?o"]
      by (simp add: emit_def Let_def case_prod_unfold)
  qed
qed

lemma stops: "P sp \<Longrightarrow> P (snd (stop_job cfg now i r sp))"
  using reconcile [of sp cfg now True i]
  by (simp add: stop_job_def get_ide_job_def Let_def marks emits split: option.split)

lemma settles: "P sp \<Longrightarrow> P (resume_settle cfg now i info raw r sp)"
proof -
  assume ok: "P sp"
  let ?sp = "sp\<lparr>sp_resuming := remove1 (i, info) (sp_resuming sp)\<rparr>"
  have ok1: "P ?sp" using ok by (rule same) simp_all
  show ?thesis
    using ok1 emits [OF ok1] seal [OF ok1]
    by (simp add: resume_settle_def Let_def later_retry split: resume_answer.split)
qed

lemma retries: "P sp \<Longrightarrow> P (resume_retry cfg now i raw n sp)"
  by (auto simp: resume_retry_def Let_def intro!: resume intro: same)

end

lemma spine_ok_index: "sp_index sp' = sp_index sp \<Longrightarrow> spine_ok sp' = spine_ok sp"
  by (simp add: spine_ok_def)

text \<open>Changing a field of one job that the invariant allows.\<close>

lemma spine_ok_upd:
  assumes "spine_ok sp" and "sp_index sp' = row_upd i f (sp_index sp)"
    and "\<And>j. job_at i sp = Some j \<Longrightarrow> job_ok j \<Longrightarrow> job_ok (f j)"
  shows "spine_ok sp'"
  using assms by (auto simp: spine_ok_def job_at_def row_simps simp del: map_of_eq_Some_iff split: if_splits)

interpretation ok: spine_invariant spine_ok
proof
  fix sp i
  assume "spine_ok sp"
  then show "spine_ok (sp\<lparr>sp_index := row_upd i (\<lambda>j. j\<lparr>ij_stopped := True\<rparr>) (sp_index sp)\<rparr>)"
    by (rule spine_ok_upd [of _ _ i "\<lambda>j. j\<lparr>ij_stopped := True\<rparr>"]) (auto simp: job_ok_def)
qed (auto intro: spine_ok_record(1) iffD2 [OF spine_ok_index])

end
