(* ===== verification/IdeJobs_Props.thy ===== *)
theory IdeJobs_Props
  imports IdeJobs_Facts
begin

text \<open>
  Runs of the job spine and their properties: a sealed build stays sealed, a listener and a waiter
  receive the whole stream, a process that follows a journal agrees with one that reloads it, and an
  abandoned build is sealed when its lease runs out.
\<close>

section \<open>Operations as steps\<close>

text \<open>\<open>Line\<close> is another instance appending a line to a journal.\<close>

datatype spine_op =
    Emit ms string job_event
  | Tick ms string
  | Attach ms string nat listener
  | Wait ms string nat nat
  | Detach string listener
  | StopIt ms string string
  | Beat ms string
  | Create ms string string string string bool
  | Request ms string string
  | Settle ms string resume_info "job_event list" resume_answer
  | Retry ms string "job_event list" nat
  | Line string journal_line

definition line_append :: "string \<Rightarrow> journal_line \<Rightarrow> spine \<Rightarrow> spine" where
  "line_append i l sp =
     sp\<lparr>sp_disk := (sp_disk sp)\<lparr>jd_files := AList.update i (file_lines i (sp_disk sp) @ [l]) (jd_files (sp_disk sp))\<rparr>\<rparr>"

fun spine_step :: "spine_config \<Rightarrow> spine_op \<Rightarrow> spine \<Rightarrow> spine" where
  "spine_step cfg (Emit now i ev) sp = snd (emit cfg now i ev sp)"
| "spine_step cfg (Tick now i) sp = snd (reconcileOne cfg now True i sp)"
| "spine_step cfg (Attach now i from l) sp = attach_job cfg now i from l sp"
| "spine_step cfg (Wait now i from n) sp = waitForAnswer cfg now i from n sp"
| "spine_step cfg (Detach i l) sp = detach_job i l sp"
| "spine_step cfg (StopIt now i r) sp = snd (stop_job cfg now i r sp)"
| "spine_step cfg (Beat now i) sp = heartbeat cfg now i sp"
| "spine_step cfg (Create now i u w k ow) sp = snd (create_job cfg now i u w k ow sp)"
| "spine_step cfg (Request now i r) sp = recordRequest cfg now i r sp"
| "spine_step cfg (Settle now i info raw r) sp = resume_settle cfg now i info raw r sp"
| "spine_step cfg (Retry now i raw n) sp = resume_retry cfg now i raw n sp"
| "spine_step cfg (Line i l) sp = line_append i l sp"

definition spine_run :: "spine_config \<Rightarrow> spine_op list \<Rightarrow> spine \<Rightarrow> spine" where
  "spine_run cfg ops sp = fold (spine_step cfg) ops sp"

lemma spine_run_simps [simp]:
  "spine_run cfg [] sp = sp" "spine_run cfg (op # ops) sp = spine_run cfg ops (spine_step cfg op sp)"
  by (simp_all add: spine_run_def)

lemma spine_run_induct:
  assumes "P sp" and "\<And>op sp. op \<in> set ops \<Longrightarrow> P sp \<Longrightarrow> P (spine_step cfg op sp)"
  shows "P (spine_run cfg ops sp)"
  using assms by (induction ops arbitrary: sp) auto

section \<open>Eviction\<close>

lemma evict_index:
  "\<exists>ks. set ks \<subseteq> set is \<and> sp_index (evict_jobs cap is sp) = fold AList.delete ks (sp_index sp)"
proof (induction cap "is" sp rule: evict_jobs.induct)
  case (2 cap i "is" sp)
  let ?sp = "(stopFollowing i (stopHeartbeat i sp))\<lparr>sp_index := AList.delete i (sp_index sp),
      sp_disk := archive_file i (sp_disk sp)\<rparr>"
  show ?case
  proof (cases "length (sp_index sp) \<le> cap")
    case False
    then obtain ks where "set ks \<subseteq> set is" "sp_index (evict_jobs cap is ?sp) = fold AList.delete ks (sp_index ?sp)"
      using 2 by blast
    then have "set (i # ks) \<subseteq> set (i # is) \<and>
        sp_index (evict_jobs cap (i # is) sp) = fold AList.delete (i # ks) (sp_index sp)"
      using False by auto
    then show ?thesis by blast
  qed (auto intro: exI [of _ "[]"])
qed (auto intro: exI [of _ "[]"])

lemma fold_delete: "map_of (fold AList.delete ks t) k = (if k \<in> set ks then None else map_of t k)"
  by (induction ks arbitrary: t) (auto simp: row_simps)

lemma distinct_fold_delete: "distinct (map fst t) \<Longrightarrow> distinct (map fst (fold AList.delete ks t))"
  by (induction ks arbitrary: t) (auto simp: distinct_keys_delete)

text \<open>The collector drops finished jobs only.\<close>

lemma gc_index:
  assumes "spine_ok sp"
  obtains ks where "sp_index (gc_jobs cfg sp) = fold AList.delete ks (sp_index sp)"
    and "\<forall>k \<in> set ks. \<exists>j. map_of (sp_index sp) k = Some j \<and> ij_done j"
proof (cases "length (sp_index sp) \<le> cf_cap cfg")
  case True
  then show thesis using that [of "[]"] by (simp add: gc_jobs_def)
next
  case False
  let ?is = "map fst (sort_key (\<lambda>(i, j). end_key j) (rows_where (\<lambda>_ j. ij_done j) (sp_index sp)))"
  obtain ks where ks: "set ks \<subseteq> set ?is" "sp_index (evict_jobs (cf_cap cfg) ?is sp) = fold AList.delete ks (sp_index sp)"
    using evict_index by blast
  have "\<exists>j. map_of (sp_index sp) k = Some j \<and> ij_done j" if "k \<in> set ?is" for k
    using that assms map_of_is_SomeI [of "sp_index sp" k]
    by (auto simp: rows_where_def spine_ok_def simp del: map_of_eq_Some_iff)
  then have "\<forall>k \<in> set ks. \<exists>j. map_of (sp_index sp) k = Some j \<and> ij_done j" using ks(1) by blast
  moreover have "sp_index (gc_jobs cfg sp) = fold AList.delete ks (sp_index sp)"
    using ks(2) False by (simp only: gc_jobs_def if_False)
  ultimately show thesis using that by blast
qed

lemma spine_ok_gc: "spine_ok sp \<Longrightarrow> spine_ok (gc_jobs cfg sp)"
  by (rule gc_index [of sp cfg], assumption)
    (auto simp: spine_ok_def fold_delete distinct_fold_delete split: if_splits)

lemma gc_job_at:
  assumes "spine_ok sp"
  shows "job_at k (gc_jobs cfg sp) = job_at k sp \<or> (job_at k (gc_jobs cfg sp) = None \<and> job_done k sp)"
  by (rule gc_index [OF assms, of cfg])
    (auto simp: job_at_def job_done_def fold_delete split: option.split)

lemma spine_ok_attach: "spine_ok sp \<Longrightarrow> spine_ok (attach_job cfg now i from l sp)"
proof -
  assume "spine_ok sp"
  then have ok: "spine_ok (snd (reconcileOne cfg now True i sp))" by (rule ok.reconcile)
  show ?thesis
  proof (cases "job_at i (snd (reconcileOne cfg now True i sp))")
    case None
    then show ?thesis using ok by (simp add: attach_job_def Let_def spine_ok_def)
  next
    case (Some j)
    let ?sp = "snd (reconcileOne cfg now True i sp)"
    show ?thesis
    proof (cases "ij_done j")
      case True
      then show ?thesis using ok Some by (simp add: attach_job_def Let_def spine_ok_def)
    next
      case False
      have "sp_index (attach_job cfg now i from l sp) =
          row_upd i (\<lambda>j. j\<lparr>ij_listeners := ij_listeners j @ [l]\<rparr>) (sp_index ?sp)"
        using False Some by (simp add: attach_job_def Let_def)
      with ok show ?thesis by (rule spine_ok_upd) (use False Some in \<open>auto simp: job_ok_def\<close>)
    qed
  qed
qed

text \<open>Waiting for an answer is a look at the build, and then either the end marker at once or an attach.\<close>

lemma wait_step:
  assumes "P (snd (reconcileOne cfg now True i sp))"
    and "\<And>s. P s \<Longrightarrow> P (s\<lparr>sp_heard := sp_heard s @ [(Waiter n, None)]\<rparr>)"
    and "\<And>s. P s \<Longrightarrow> P (attach_job cfg now i from (Waiter n) s)"
  shows "P (waitForAnswer cfg now i from n sp)"
  using assms by (simp add: waitForAnswer_def get_ide_job_def Let_def split: option.split)

lemma spine_ok_wait: "spine_ok sp \<Longrightarrow> spine_ok (waitForAnswer cfg now i from n sp)"
  by (rule wait_step) (simp_all add: ok.reconcile spine_ok_attach, simp add: spine_ok_def)

lemma spine_ok_detach: "spine_ok sp \<Longrightarrow> spine_ok (detach_job i l sp)"
  by (rule spine_ok_upd [of sp _ i "\<lambda>j. j\<lparr>ij_listeners := remove1 l (ij_listeners j)\<rparr>"])
    (auto simp: detach_job_def job_ok_def)

text \<open>What \<open>create\<close> does to the index: nothing, or one new open job and the collector.\<close>

lemma create_shape [consumes 1, case_names refused made]:
  assumes "spine_ok sp"
  obtains "snd (create_job cfg now i u w k ow sp) = sp"
  | put j where "snd (create_job cfg now i u w k ow sp) = gc_jobs cfg put" and "spine_ok put"
      and "sp_index put = AList.update i j (sp_index sp)" and "sp_heard put = sp_heard sp"
      and "ij_listeners j = []" and "\<not> ij_done j"
proof (cases "sp_disposed sp \<or> u = []")
  case True
  then have "snd (create_job cfg now i u w k ow sp) = sp" by (auto simp: create_job_def)
  then show thesis by (rule that(1))
next
  case False
  let ?h = "(event_of ''job'')\<lparr>je_at := now, je_id := i, je_uid := u, je_workspaceId := w, je_kind := k, je_isOwner := ow\<rparr>"
  let ?o = "ownedRecord ?h sp"
  let ?j = "\<lparr>ij_uid = u, ij_workspaceId = w, ij_kind = k, ij_isOwner = ow, ij_startedAt = now, ij_endedAt = 0,
      ij_outcome = [], ij_events = [fst ?o], ij_listeners = [], ij_done = False, ij_stopped = False,
      ij_interrupted = False\<rparr>"
  let ?put = "scheduleHeartbeat i (append_to cfg i (fst ?o)
      ((snd ?o)\<lparr>sp_index := AList.update i ?j (sp_index (snd ?o))\<rparr>))"
  have "je_type (fst ?o) = ''job''" by (simp add: ownedRecord_def Let_def event_of_def)
  then have j: "job_ok ?j" by (simp add: job_ok_def well_sealed_def isTerminal_def TERMINAL_def)
  show thesis
  proof (rule that(2))
    show "spine_ok ?put" by (rule spine_ok_put [OF assms _ j]) simp
    show "snd (create_job cfg now i u w k ow sp) = gc_jobs cfg ?put"
      using False by (simp add: create_job_def case_prod_unfold)
    show "sp_index ?put = AList.update i ?j (sp_index sp)" "sp_heard ?put = sp_heard sp" by simp_all
    show "ij_listeners ?j = []" "\<not> ij_done ?j" by simp_all
  qed
qed

lemma spine_ok_create:
  assumes "spine_ok sp"
  shows "spine_ok (snd (create_job cfg now i u w k ow sp))"
  using assms by (cases rule: create_shape [where cfg = cfg and now = now and i = i and u = u and w = w and k = k and ow = ow])
    (simp_all add: assms spine_ok_gc)

lemma spine_ok_quiet:
  "spine_ok (heartbeat cfg now i sp) = spine_ok sp" "spine_ok (recordRequest cfg now i r sp) = spine_ok sp"
  "spine_ok (line_append i l sp) = spine_ok sp"
  by (simp_all add: spine_ok_def line_append_def)

lemma spine_ok_step: "spine_ok sp \<Longrightarrow> spine_ok (spine_step cfg op sp)"
  by (cases op) (simp_all add: ok.emits ok.reconcile ok.stops ok.settles ok.retries spine_ok_attach spine_ok_wait
      spine_ok_detach spine_ok_create spine_ok_quiet)

lemma spine_ok_run: "spine_ok sp \<Longrightarrow> spine_ok (spine_run cfg ops sp)"
  by (rule spine_run_induct) (simp_all add: spine_ok_step)

lemma spine_ok_new: "spine_ok (new_spine inst d)"
  by (simp add: spine_ok_def new_spine_def)

text \<open>A process that has recovered the journals it finds.\<close>

definition booted :: "spine_config \<Rightarrow> ms \<Rightarrow> string \<Rightarrow> job_disk \<Rightarrow> spine" where
  "booted cfg now inst d = snd (loadFromDisk cfg now (new_spine inst d))"

lemma job_ok_recovered: "evs \<noteq> [] \<Longrightarrow> well_sealed evs \<Longrightarrow> job_ok (recovered_job evs)"
  by (simp add: job_ok_def recovered_job_def Let_def)

lemma spine_ok_load_one: "spine_ok (snd acc) \<Longrightarrow> spine_ok (snd (load_one cfg now i acc))"
proof -
  assume ok: "spine_ok (snd acc)"
  have put: "spine_ok ((stopFollowing i (snd acc))\<lparr>sp_index :=
      AList.update i (recovered_job (publicEvents recs)) (sp_index (snd acc))\<rparr>)" if "publicEvents recs \<noteq> []" for recs
    by (rule spine_ok_put [OF ok _ job_ok_recovered [OF that well_sealed_public]]) simp
  show ?thesis
    using ok put by (simp add: load_one_def Let_def case_prod_unfold startFollowing_def ok.followers ok.unfollow
        ok.resume ok.seal split: option.split)
qed

lemma spine_ok_booted: "spine_ok (booted cfg now inst d)"
proof -
  have "spine_ok (snd (fold (load_one cfg now) is acc))" if "spine_ok (snd acc)" for "is" acc
    using that by (induction "is" arbitrary: acc) (simp_all add: spine_ok_load_one)
  then show ?thesis
    using spine_ok_new [of inst d] by (simp add: booted_def loadFromDisk_def case_prod_unfold spine_ok_gc)
qed

section \<open>Concrete runs\<close>

text \<open>A build another instance \<open>old\<close> started and was still writing when this process booted.\<close>

definition demo_cfg :: spine_config where
  "demo_cfg = spine_options 200 (Some 50) (Some 10) None False 3 (\<lambda>ev. 7)"

definition demo_line :: "string \<Rightarrow> ms \<Rightarrow> string \<Rightarrow> journal_line" where
  "demo_line ty t r = (Some ((event_of ty)\<lparr>je_at := t, je_writer := ''old'', je_record := r, je_uid := ''u''\<rparr>), 7)"

definition demo_disk :: job_disk where
  "demo_disk =
     \<lparr>jd_files = [(''a'', [demo_line ''job'' 100 ''old:1'', demo_line ''plan'' 110 ''old:2''])],
      jd_archive = [], jd_unreadable = False, jd_full = False\<rparr>"

definition demo_ops :: "spine_op list" where
  "demo_ops =
     [Line ''a'' (demo_line ''move'' 115 ''old:3''), Line ''a'' (None, 3), Emit 120 ''a'' (event_of ''cost''),
      Line ''a'' (demo_line ''need_input'' 125 ''old:4'')]"

definition demo_seal :: "spine_op list" where
  "demo_seal = demo_ops @ [Emit 130 ''a'' (event_of ''answer''), Emit 135 ''a'' (event_of ''done'')]"

section \<open>A sealed build stays sealed\<close>

fun op_job :: "spine_op \<Rightarrow> string" where
  "op_job (Emit now i ev) = i"
| "op_job (Tick now i) = i"
| "op_job (Attach now i from l) = i"
| "op_job (Wait now i from n) = i"
| "op_job (Detach i l) = i"
| "op_job (StopIt now i r) = i"
| "op_job (Beat now i) = i"
| "op_job (Create now i u w k ow) = i"
| "op_job (Request now i r) = i"
| "op_job (Settle now i info raw r) = i"
| "op_job (Retry now i raw n) = i"
| "op_job (Line i l) = i"

fun is_create :: "spine_op \<Rightarrow> bool" where
  "is_create (Create now i u w k ow) = True"
| "is_create _ = False"

lemma view_line: "k \<noteq> i \<Longrightarrow> view i (line_append k l sp) = view i sp"
  by (simp add: view_def job_at_def line_append_def row_simps)

lemma view_wait: "k \<noteq> i \<Longrightarrow> view i (waitForAnswer cfg now k from n sp) = view i sp"
  by (rule wait_step [of "\<lambda>s. view i s = view i sp"]) (simp_all add: frame_simps)

lemma view_step: "op_job op \<noteq> i \<Longrightarrow> \<not> is_create op \<Longrightarrow> view i (spine_step cfg op sp) = view i sp"
  by (cases op) (simp_all add: frame_simps view_line view_wait)

lemma job_at_view: "view i sp' = view i sp \<Longrightarrow> job_at i sp' = job_at i sp"
  by (simp add: view_def)

lemma job_done_reconcile: "job_done i sp \<Longrightarrow> job_at i (snd (reconcileOne cfg now b i sp)) = job_at i sp"
  by (simp add: reconcileOne_def split: option.split)

lemma job_done_same: "job_at i sp' = job_at i sp \<Longrightarrow> job_done i sp' = job_done i sp"
  by (simp add: job_done_def)

lemma job_done_emit: "job_done i sp \<Longrightarrow> job_at i (snd (emit cfg now i ev sp)) = job_at i sp"
  using job_done_reconcile [of i sp cfg now False] job_done_same [of i "snd (reconcileOne cfg now False i sp)" sp]
  by (simp add: emit_def Let_def)

lemma job_done_attach: "job_done i sp \<Longrightarrow> job_at i (attach_job cfg now i from l sp) = job_at i sp"
  using job_done_reconcile [of i sp cfg now True] job_done_same [of i "snd (reconcileOne cfg now True i sp)" sp]
  by (auto simp: attach_job_def Let_def job_done_def split: option.splits)

lemma job_done_wait:
  assumes "job_done i sp"
  shows "job_at i (waitForAnswer cfg now i from n sp) = job_at i sp"
proof (rule wait_step [of "\<lambda>s. job_at i s = job_at i sp"])
  fix s
  assume s: "job_at i s = job_at i sp"
  then have "job_done i s" using assms job_done_same by blast
  with s show "job_at i (attach_job cfg now i from (Waiter n) s) = job_at i sp" by (simp add: job_done_attach)
qed (simp_all add: job_done_reconcile [OF assms])

lemma job_done_stop: "job_done i sp \<Longrightarrow> job_at i (snd (stop_job cfg now i r sp)) = job_at i sp"
  using job_done_reconcile [of i sp cfg now True] job_done_same [of i "snd (reconcileOne cfg now True i sp)" sp]
  by (auto simp: stop_job_def get_ide_job_def Let_def job_done_def split: option.splits)

lemma job_done_settle: "job_done i sp \<Longrightarrow> job_at i (resume_settle cfg now i info raw r sp) = job_at i sp"
  by (simp add: resume_settle_def Let_def)

lemma job_done_resume: "job_done i sp \<Longrightarrow> attemptResume cfg now i raw n sp = sp"
  by (simp add: attemptResume_def job_done_def split: option.splits)

lemma job_done_retry: "job_done i sp \<Longrightarrow> job_at i (resume_retry cfg now i raw n sp) = job_at i sp"
  by (simp add: resume_retry_def Let_def job_done_resume)

lemma job_done_detach:
  assumes "spine_ok sp" and "job_done i sp"
  shows "job_at i (detach_job i l sp) = job_at i sp"
proof (cases "job_at i sp")
  case None
  then show ?thesis by (simp add: detach_job_def job_at_def row_simps)
next
  case (Some j)
  then have "ij_listeners j = []" using assms spine_okD [OF assms(1) Some] by (simp add: job_done_def job_ok_def)
  then show ?thesis using Some by (simp add: detach_job_def job_at_def row_simps del: map_of_eq_Some_iff)
qed

lemma create_job_at:
  assumes "spine_ok sp" and "k \<noteq> i"
  shows "job_at i (snd (create_job cfg now k u w kd ow sp)) = job_at i sp \<or>
    job_done i sp \<and> job_at i (snd (create_job cfg now k u w kd ow sp)) = None"
  using assms(1)
proof (cases rule: create_shape [where cfg = cfg and now = now and i = k and u = u and w = w and k = kd and ow = ow])
  case (made put j)
  then have same: "job_at i put = job_at i sp" using assms(2) by (simp add: job_at_def row_simps)
  moreover from same have "job_done i put = job_done i sp" by (rule job_done_same)
  ultimately show ?thesis using made gc_job_at [of put i cfg] by auto
qed simp

lemma create_listeners:
  assumes "spine_ok sp" and "job_at k (snd (create_job cfg now k u w kd ow sp)) = Some j"
  shows "ij_listeners j = [] \<or> job_at k sp = Some j"
  using assms(1)
proof (cases rule: create_shape [where cfg = cfg and now = now and i = k and u = u and w = w and k = kd and ow = ow])
  case (made put j')
  then have "job_at k put = Some j'" by (simp add: job_at_def row_simps)
  then show ?thesis using made gc_job_at [of put k cfg] assms(2) by auto
qed (use assms(2) in simp)

lemma job_at_quiet:
  "job_at k (heartbeat cfg now i sp) = job_at k sp" "job_at k (recordRequest cfg now i r sp) = job_at k sp"
  "job_at k (line_append i l sp) = job_at k sp"
  by (simp_all add: job_at_def line_append_def)

lemma job_done_step:
  assumes "spine_ok sp" and "job_done i sp" and "\<not> (is_create op \<and> op_job op = i)"
  shows "job_at i (spine_step cfg op sp) = job_at i sp \<or> job_at i (spine_step cfg op sp) = None"
proof (cases "op_job op = i")
  case True
  then show ?thesis
    using assms by (cases op) (simp_all add: job_done_emit job_done_reconcile job_done_attach job_done_wait job_done_stop
        job_done_settle job_done_retry job_done_detach job_at_quiet)
next
  case other: False
  show ?thesis
  proof (cases "is_create op")
    case True
    then obtain now u w kd ow where "op = Create now (op_job op) u w kd ow" by (cases op) auto
    then show ?thesis using create_job_at [OF assms(1) other] by (metis spine_step.simps(8))
  next
    case False
    then show ?thesis using job_at_view [OF view_step [OF other False]] by metis
  qed
qed

text \<open>C33: A build that reached a terminal event can never be changed again: whatever is emitted,
  stopped, resumed, retried, listened to or appended by another instance afterwards, a later look
  finds the same events, outcome and end time, or finds the build evicted; and in any run from a
  booted process a build is done exactly when its last event is terminal, with that event's outcome
  and no terminal event before it.\<close>

theorem sealed_build_stays_sealed:
  assumes start: "sp = spine_run cfg ops (booted cfg now inst d)"
    and job: "job_at i sp = Some j"
    and fresh: "\<forall>op \<in> set later. \<not> (is_create op \<and> op_job op = i)"
  shows "ij_events j \<noteq> [] \<and> ij_done j = isTerminal (je_type (last (ij_events j)))
    \<and> (\<forall>ev \<in> set (butlast (ij_events j)). \<not> isTerminal (je_type ev))
    \<and> (ij_done j \<longrightarrow> ij_outcome j = je_type (last (ij_events j))
        \<and> job_at i (spine_run cfg later sp) \<in> {None, Some j})"
proof -
  have ok: "spine_ok sp" unfolding start by (rule spine_ok_run [OF spine_ok_booted])
  have "spine_ok (spine_run cfg later sp) \<and> job_at i (spine_run cfg later sp) \<in> {None, Some j}" if d: "ij_done j"
  proof (rule spine_run_induct)
    show "spine_ok sp \<and> job_at i sp \<in> {None, Some j}" using ok job by simp
  next
    fix op s
    assume op: "op \<in> set later" and s: "spine_ok s \<and> job_at i s \<in> {None, Some j}"
    then have "job_done i s" using d by (auto simp: job_done_def)
    then show "spine_ok (spine_step cfg op s) \<and> job_at i (spine_step cfg op s) \<in> {None, Some j}"
      using s op fresh job_done_step [of s i op cfg] spine_ok_step [of s cfg op] by auto
  qed
  then show ?thesis
    using spine_okD [OF ok job] by (auto simp: job_ok_def well_sealed_def list_all_iff)
qed

lemma sealed_build_stays_sealed_witness:
  "\<exists>j. job_at ''a'' (spine_run demo_cfg demo_seal (booted demo_cfg 112 ''me'' demo_disk)) = Some j
     \<and> ij_outcome j = ''done''
     \<and> job_at ''a'' (spine_run demo_cfg [Emit 140 ''a'' (event_of ''error''), StopIt 150 ''a'' ''no'', Tick 900 ''a'']
         (spine_run demo_cfg demo_seal (booted demo_cfg 112 ''me'' demo_disk))) \<in> {None, Some j}"
proof -
  let ?sp = "spine_run demo_cfg demo_seal (booted demo_cfg 112 ''me'' demo_disk)"
  have "case job_at ''a'' ?sp of None \<Rightarrow> False | Some j \<Rightarrow> ij_done j \<and> ij_outcome j = ''done''" by code_simp
  then obtain j where j: "job_at ''a'' ?sp = Some j" "ij_done j" "ij_outcome j = ''done''"
    by (cases "job_at ''a'' ?sp") auto
  show ?thesis
    using sealed_build_stays_sealed [OF refl j(1), of
        "[Emit 140 ''a'' (event_of ''error''), StopIt 150 ''a'' ''no'', Tick 900 ''a'']"] j
    by auto
qed

section \<open>What a listener hears\<close>

lemma count_stay: "count_list (filter (\<lambda>l. \<not> hangs_up ev l) ls) l = (if hangs_up ev l then 0 else count_list ls l)"
  by (induction ls) auto

lemma heard_by_publish:
  "heard_by l (publish now i ev h sp) =
     heard_by l sp @
     (case job_at i sp of
        None \<Rightarrow> []
      | Some j \<Rightarrow> replicate (count_list (ij_listeners j) l) (Some ev)
          @ (if ij_done (seal_fields now ev j) \<and> \<not> hangs_up ev l
             then replicate (count_list (ij_listeners j) l) None else []))"
proof -
  have pick: "map snd (filter (\<lambda>(k, d). k = l) (map (\<lambda>k. (k, x)) ks)) = replicate (count_list ks l) x"
    for ks and x :: "job_event option"
    by (induction ks) auto
  show ?thesis
    by (simp add: publish_def heard_by_def Let_def pick count_stay stopFollowing_def stopHeartbeat_def split: option.split)
      (auto simp: filter_empty_conv)
qed

lemma heard_by_cong: "sp_heard sp' = sp_heard sp \<Longrightarrow> heard_by l sp' = heard_by l sp"
  by (simp add: heard_by_def)

text \<open>What a listener is handed of the events published while it is subscribed, and of the end: everything up to
  the event at which it hangs up.\<close>

fun hears_from :: "listener \<Rightarrow> job_event list \<Rightarrow> bool \<Rightarrow> job_event option list" where
  "hears_from l [] d = (if d then [None] else [])"
| "hears_from l (ev # evs) d = Some ev # (if hangs_up ev l then [] else hears_from l evs d)"

abbreviation gone :: "listener \<Rightarrow> job_event list \<Rightarrow> bool" where
  "gone l evs \<equiv> \<exists>ev \<in> set evs. hangs_up ev l"

lemma hears_from_snoc:
  "hears_from l (evs @ [ev]) d = hears_from l evs False @
     (if gone l evs then [] else Some ev # (if hangs_up ev l then [] else if d then [None] else []))"
  by (induction evs) auto

lemma hears_from_gone: "gone l evs \<Longrightarrow> hears_from l evs d = hears_from l evs False"
  by (induction evs) auto

text \<open>Listener \<open>l\<close> listens to job \<open>i\<close> only; it attached when the job had the events \<open>pre\<close>, and has been handed
  those from \<open>start\<close> on, and of the later ones what a listener hears.\<close>

definition in_tune :: "listener \<Rightarrow> nat \<Rightarrow> job_event list \<Rightarrow> ide_job \<Rightarrow> spine \<Rightarrow> bool" where
  "in_tune l start pre j sp =
     (\<exists>post. ij_events j = pre @ post
      \<and> heard_by l sp = map Some (drop start pre) @ hears_from l post (ij_done j)
      \<and> (\<not> ij_done j \<longrightarrow> count_list (ij_listeners j) l = (if gone l post then 0 else 1)))"

definition hears :: "listener \<Rightarrow> string \<Rightarrow> nat \<Rightarrow> job_event list \<Rightarrow> spine \<Rightarrow> bool" where
  "hears l i start pre sp =
     ((\<forall>j. job_at i sp = Some j \<longrightarrow> in_tune l start pre j sp)
      \<and> (\<forall>k j. k \<noteq> i \<longrightarrow> job_at k sp = Some j \<longrightarrow> l \<notin> set (ij_listeners j)))"

lemma hears_cong:
  assumes "hears l i start pre sp" and "sp_index sp' = sp_index sp" and "sp_heard sp' = sp_heard sp"
  shows "hears l i start pre sp'"
  using assms by (simp add: hears_def in_tune_def heard_by_def job_at_def)

lemma listeners_sealed: "set (ij_listeners (sealed_job now ev j)) \<subseteq> set (ij_listeners j)"
  by (simp add: sealed_job_def seal_fields_def Let_def)

lemma in_tune_record:
  assumes tune: "in_tune l start pre j sp" and live: "\<not> ij_done j"
    and heard: "heard_by l sp' = heard_by l sp @ replicate (count_list (ij_listeners j) l) (Some ev)
      @ (if ij_done (seal_fields now ev (j\<lparr>ij_events := ij_events j @ [ev]\<rparr>)) \<and> \<not> hangs_up ev l
         then replicate (count_list (ij_listeners j) l) None else [])"
  shows "in_tune l start pre (sealed_job now ev (j\<lparr>ij_events := ij_events j @ [ev]\<rparr>)) sp'"
proof -
  let ?j' = "sealed_job now ev (j\<lparr>ij_events := ij_events j @ [ev]\<rparr>)"
  obtain post where post: "ij_events j = pre @ post"
    "heard_by l sp = map Some (drop start pre) @ hears_from l post False"
    "count_list (ij_listeners j) l = (if gone l post then 0 else 1)"
    using tune live by (auto simp: in_tune_def)
  have j': "ij_events ?j' = pre @ post @ [ev]"
    "ij_done ?j' = ij_done (seal_fields now ev (j\<lparr>ij_events := ij_events j @ [ev]\<rparr>))"
    "\<not> ij_done ?j' \<Longrightarrow> ij_listeners ?j' = filter (\<lambda>l. \<not> hangs_up ev l) (ij_listeners j)"
    using post(1) by (simp_all add: sealed_job_def seal_fields_def Let_def)
  have "heard_by l sp' = map Some (drop start pre) @ hears_from l (post @ [ev]) (ij_done ?j')"
    unfolding heard hears_from_snoc j'(2) using post(2,3) by simp
  moreover have "count_list (ij_listeners ?j') l = (if gone l (post @ [ev]) then 0 else 1)" if "\<not> ij_done ?j'"
    using j'(3) [OF that] post(3) by (auto simp: count_stay)
  ultimately show ?thesis using j'(1) unfolding in_tune_def by blast
qed

lemma hears_record:
  assumes ok: "spine_ok sp" and he: "hears l i start pre sp" and j: "job_at k sp = Some j" "\<not> ij_done j"
    and idx: "sp_index mid = sp_index (push_event k ev sp)" and hd: "sp_heard mid = sp_heard sp"
  shows "hears l i start pre (publish now k ev h mid)"
proof -
  let ?j1 = "j\<lparr>ij_events := ij_events j @ [ev]\<rparr>"
  let ?pub = "publish now k ev h mid"
  note rec = spine_ok_record [where now = now and h = h, OF ok j idx]
  have mid: "job_at k mid = Some ?j1"
    using j job_at_push [of k k ev sp] idx by (simp add: job_at_def)
  have heard: "heard_by l ?pub = heard_by l sp @ replicate (count_list (ij_listeners j) l) (Some ev)
      @ (if ij_done (seal_fields now ev ?j1) \<and> \<not> hangs_up ev l
        then replicate (count_list (ij_listeners j) l) None else [])"
    using mid heard_by_cong [OF hd, of l] by (simp add: heard_by_publish)
  have deaf: "l \<notin> set (ij_listeners j')" if "m \<noteq> i" "job_at m ?pub = Some j'" for m j'
  proof (cases "m = k")
    case True
    then have "j' = sealed_job now ev ?j1" and "l \<notin> set (ij_listeners j)"
      using that rec(2) j he by (auto simp: hears_def)
    then show ?thesis using listeners_sealed [of now ev ?j1] by auto
  next
    case False
    then show ?thesis using that rec(3) [of m] he by (simp add: hears_def)
  qed
  have tune: "in_tune l start pre j' ?pub" if j': "job_at i ?pub = Some j'" for j'
  proof (cases "k = i")
    case True
    then have "in_tune l start pre j sp" using he j by (simp add: hears_def)
    then show ?thesis using in_tune_record [OF _ j(2) heard] True rec(2) j' by simp
  next
    case False
    then have "l \<notin> set (ij_listeners j)" using he j by (simp add: hears_def)
    then have "heard_by l ?pub = heard_by l sp" using heard by (simp add: count_notin)
    moreover have "in_tune l start pre j' sp" using he j' rec(3) [of i] False by (simp add: hears_def)
    ultimately show ?thesis by (simp add: in_tune_def)
  qed
  show ?thesis using deaf tune by (auto simp: hears_def)
qed

lemma hears_upd:
  assumes he: "hears l i start pre sp" and "\<And>j. ij_events (f j) = ij_events j \<and> ij_done (f j) = ij_done j"
    and keep: "\<And>j. job_at k sp = Some j \<Longrightarrow> count_list (ij_listeners (f j)) l = count_list (ij_listeners j) l"
    and idx: "sp_index sp' = row_upd k f (sp_index sp)" and hd: "heard_by l sp' = heard_by l sp"
  shows "hears l i start pre sp'"
proof -
  have at_sp': "job_at m sp' = (if m = k then map_option f (job_at k sp) else job_at m sp)" for m
    using idx by (simp add: job_at_def row_simps)
  have "in_tune l start pre j' sp'" if j': "job_at i sp' = Some j'" for j'
  proof (cases "i = k")
    case True
    then obtain j where "job_at i sp = Some j" "j' = f j" using j' at_sp' [of k] by (cases "job_at k sp") auto
    moreover from this have "in_tune l start pre j sp" using he by (simp add: hears_def)
    ultimately show ?thesis using assms(2) [of j] keep [of j] True hd by (simp add: in_tune_def)
  next
    case False
    then have "job_at i sp = Some j'" using j' at_sp' [of i] by simp
    then show ?thesis using he hd by (simp add: hears_def in_tune_def)
  qed
  moreover have "l \<notin> set (ij_listeners j')" if m: "m \<noteq> i" "job_at m sp' = Some j'" for m j'
  proof (cases "m = k")
    case True
    then obtain j where j: "job_at m sp = Some j" "j' = f j" using m at_sp' [of k] by (cases "job_at k sp") auto
    then have "count_list (ij_listeners j') l = 0"
      using he m(1) keep [of j] True by (simp add: hears_def count_notin)
    then show ?thesis by (simp add: count_list_0_iff)
  next
    case False
    then show ?thesis using m at_sp' [of m] he by (simp add: hears_def)
  qed
  ultimately show ?thesis by (auto simp: hears_def)
qed

definition tuned :: "listener \<Rightarrow> string \<Rightarrow> nat \<Rightarrow> job_event list \<Rightarrow> spine \<Rightarrow> bool" where
  "tuned l i start pre sp = (spine_ok sp \<and> hears l i start pre sp)"

lemma tuned_same:
  assumes "tuned l i start pre sp" and "sp_index sp' = sp_index sp" and "sp_heard sp' = sp_heard sp"
  shows "tuned l i start pre sp'"
  using assms(1) hears_cong [OF _ assms(2,3)] spine_ok_index [OF assms(2)] by (simp add: tuned_def)

lemma tuned_upd:
  assumes "tuned l i start pre sp" and idx: "sp_index sp' = row_upd k f (sp_index sp)"
    and "\<And>j. ij_events (f j) = ij_events j \<and> ij_done (f j) = ij_done j"
    and "\<And>j. job_at k sp = Some j \<Longrightarrow> count_list (ij_listeners (f j)) l = count_list (ij_listeners j) l"
    and "\<And>j. job_at k sp = Some j \<Longrightarrow> job_ok j \<Longrightarrow> job_ok (f j)"
    and "heard_by l sp' = heard_by l sp"
  shows "tuned l i start pre sp'"
proof -
  have "spine_ok sp'" using assms(1) spine_ok_upd [OF _ idx assms(5)] by (simp add: tuned_def)
  moreover have "hears l i start pre sp'"
    using assms(1) hears_upd [OF _ assms(3,4) idx assms(6), of i start pre] by (simp add: tuned_def)
  ultimately show ?thesis by (simp add: tuned_def)
qed

interpretation ear: spine_invariant "tuned l i start pre" for l i start pre
proof (unfold_locales, goal_cases)
  case (1 sp sp')
  then show ?case by (rule tuned_same)
next
  case (2 sp k j mid ev now h)
  then have "spine_ok sp" "hears l i start pre sp" by (simp_all add: tuned_def)
  then show ?case
    using spine_ok_record(1) [OF _ 2(2-4)] hears_record [OF _ _ 2(2-5)] by (simp add: tuned_def)
next
  case (3 sp k)
  then show ?case
    by (rule tuned_upd [of l i start pre sp _ k "\<lambda>j. j\<lparr>ij_stopped := True\<rparr>"])
      (simp_all add: job_ok_def heard_by_def)
qed

lemma heard_by_other: "k \<noteq> l \<Longrightarrow> heard_by l (sp\<lparr>sp_heard := hs @ map (\<lambda>d. (k, d)) ds\<rparr>) = map snd (filter (\<lambda>(m, d). m = l) hs)"
  by (induction ds) (auto simp: heard_by_def)

lemma tuned_attach:
  assumes tu: "tuned l i start pre sp" and "m \<noteq> l"
  shows "tuned l i start pre (attach_job cfg now k from m sp)"
proof -
  let ?sp = "snd (reconcileOne cfg now True k sp)"
  have ok: "tuned l i start pre ?sp" using tu by (rule ear.reconcile)
  have heard: "heard_by l (attach_job cfg now k from m sp) = heard_by l ?sp"
    using assms(2) by (auto simp: attach_job_def Let_def heard_by_def comp_def filter_empty_conv split: option.split)
  show ?thesis
  proof (cases "job_done k ?sp")
    case True
    then have "sp_index (attach_job cfg now k from m sp) = sp_index ?sp"
      by (auto simp: attach_job_def Let_def job_done_def split: option.splits)
    then show ?thesis
      using ok heard spine_ok_index [of "attach_job cfg now k from m sp" ?sp]
      by (simp add: tuned_def hears_def in_tune_def job_at_def)
  next
    case False
    then obtain j where j: "job_at k ?sp = Some j" "\<not> ij_done j" using not_job_done by blast
    have "sp_index (attach_job cfg now k from m sp) =
        row_upd k (\<lambda>j. j\<lparr>ij_listeners := ij_listeners j @ [m]\<rparr>) (sp_index ?sp)"
      using j by (simp add: attach_job_def Let_def)
    with ok show ?thesis
      by (rule tuned_upd) (use assms(2) j heard in \<open>auto simp: job_ok_def\<close>)
  qed
qed

lemma tuned_wait:
  assumes "tuned l i start pre sp" and "Waiter n \<noteq> l"
  shows "tuned l i start pre (waitForAnswer cfg now k from n sp)"
proof (rule wait_step)
  fix s
  assume s: "tuned l i start pre s"
  let ?s = "s\<lparr>sp_heard := sp_heard s @ [(Waiter n, None)]\<rparr>"
  have "heard_by l ?s = heard_by l s" using assms(2) by (simp add: heard_by_def)
  then show "tuned l i start pre ?s"
    using s spine_ok_index [of ?s s] by (simp add: tuned_def hears_def in_tune_def job_at_def)
qed (use assms in \<open>simp_all add: ear.reconcile tuned_attach\<close>)

lemma tuned_detach:
  assumes "tuned l i start pre sp" and "m \<noteq> l"
  shows "tuned l i start pre (detach_job k m sp)"
proof -
  have "count_list (remove1 m ls) l = count_list ls l" for ls
    using assms(2) by (induction ls) auto
  then show ?thesis
    by (intro tuned_upd [OF assms(1), of _ k "\<lambda>j. j\<lparr>ij_listeners := remove1 m (ij_listeners j)\<rparr>"])
      (auto simp: detach_job_def job_ok_def heard_by_def)
qed

lemma evict_heard: "sp_heard (evict_jobs cap is sp) = sp_heard sp"
  by (induction cap "is" sp rule: evict_jobs.induct) (simp_all)

lemma tuned_create:
  assumes tu: "tuned l i start pre sp" and ki: "k \<noteq> i"
  shows "tuned l i start pre (snd (create_job cfg now k u w kd ow sp))"
proof -
  let ?c = "snd (create_job cfg now k u w kd ow sp)"
  have ok: "spine_ok sp" and he: "hears l i start pre sp" using tu by (simp_all add: tuned_def)
  have heard: "heard_by l ?c = heard_by l sp"
    by (simp add: create_job_def case_prod_unfold heard_by_def gc_jobs_def evict_heard)
  have "in_tune l start pre j ?c" if "job_at i ?c = Some j" for j
    using that he heard create_job_at [OF ok ki, of cfg now u w kd ow] by (auto simp: hears_def in_tune_def)
  moreover have "l \<notin> set (ij_listeners j)" if m: "m \<noteq> i" "job_at m ?c = Some j" for m j
  proof (cases "m = k")
    case False
    then show ?thesis
      using m he create_job_at [OF ok, of k m cfg now u w kd ow] by (auto simp: hears_def)
  next
    case True
    then show ?thesis using m he create_listeners [OF ok, of k cfg now u w kd ow j] by (auto simp: hears_def)
  qed
  ultimately have "hears l i start pre ?c" by (auto simp: hears_def)
  then show ?thesis using spine_ok_create [OF ok] by (simp add: tuned_def)
qed

fun attaches :: "listener \<Rightarrow> spine_op \<Rightarrow> bool" where
  "attaches l (Attach now i from m) = (m = l)"
| "attaches l (Wait now i from n) = (Waiter n = l)"
| "attaches l _ = False"

fun detaches :: "listener \<Rightarrow> spine_op \<Rightarrow> bool" where
  "detaches l (Detach i m) = (m = l)"
| "detaches l _ = False"

lemma tuned_step:
  assumes "tuned l i start pre sp" and "\<not> attaches l op" and "\<not> detaches l op" and "\<not> (is_create op \<and> op_job op = i)"
  shows "tuned l i start pre (spine_step cfg op sp)"
  using assms
  by (cases op) (simp_all add: ear.emits ear.reconcile ear.stops ear.settles ear.retries tuned_attach tuned_wait
      tuned_detach tuned_create tuned_same [OF assms(1)] line_append_def)

text \<open>Before it attaches, a listener has heard nothing.\<close>

definition silent :: "listener \<Rightarrow> spine \<Rightarrow> bool" where
  "silent l sp = (spine_ok sp \<and> heard_by l sp = [] \<and> (\<forall>k j. job_at k sp = Some j \<longrightarrow> l \<notin> set (ij_listeners j)))"

lemma silent_same:
  assumes "silent l sp" and "sp_index sp' = sp_index sp" and "sp_heard sp' = sp_heard sp"
  shows "silent l sp'"
  using assms spine_ok_index [OF assms(2)] by (simp add: silent_def job_at_def heard_by_def)

lemma silent_upd:
  assumes "silent l sp" and "sp_index sp' = row_upd k f (sp_index sp)" and "heard_by l sp' = []"
    and "\<And>j. job_at k sp = Some j \<Longrightarrow> job_ok j \<Longrightarrow> job_ok (f j)"
    and "\<And>j. job_at k sp = Some j \<Longrightarrow> l \<notin> set (ij_listeners j) \<Longrightarrow> l \<notin> set (ij_listeners (f j))"
  shows "silent l sp'"
  using assms spine_ok_upd [OF _ assms(2,4)] by (auto simp: silent_def job_at_def row_simps simp del: map_of_eq_Some_iff split: if_splits)

interpretation mute: spine_invariant "silent l" for l
proof (unfold_locales, goal_cases)
  case (1 sp sp')
  then show ?case by (rule silent_same)
next
  case (2 sp k j mid ev now h)
  then have ok: "spine_ok sp" and l: "l \<notin> set (ij_listeners j)" by (simp_all add: silent_def)
  note rec = spine_ok_record [where now = now and h = h, OF ok 2(2-4)]
  have mid: "job_at k mid = Some (j\<lparr>ij_events := ij_events j @ [ev]\<rparr>)"
    using 2 job_at_push [of k k ev sp] by (simp add: job_at_def)
  have "heard_by l (publish now k ev h mid) = []"
    using 2 l mid heard_by_cong [OF 2(5), of l] by (simp add: heard_by_publish silent_def)
  moreover have "l \<notin> set (ij_listeners j')" if "job_at m (publish now k ev h mid) = Some j'" for m j'
  proof (cases "m = k")
    case True
    then show ?thesis using that rec(2) l listeners_sealed [of now ev "j\<lparr>ij_events := ij_events j @ [ev]\<rparr>"] by auto
  next
    case False
    then show ?thesis using that rec(3) [of m] 2(1) by (simp add: silent_def)
  qed
  ultimately show ?case using rec(1) by (simp add: silent_def)
next
  case (3 sp k)
  then show ?case
    by (rule silent_upd [of l sp _ k "\<lambda>j. j\<lparr>ij_stopped := True\<rparr>"]) (use 3 in \<open>auto simp: job_ok_def heard_by_def silent_def\<close>)
qed

lemma attach_heard:
  assumes "silent l sp" and "m \<noteq> l"
  shows "heard_by l (attach_job cfg now k from m sp) = []"
  using mute.reconcile [OF assms(1), of cfg now True k] assms(2)
  by (auto simp: attach_job_def Let_def heard_by_def silent_def filter_empty_conv split: option.split)

lemma silent_attach:
  assumes si: "silent l sp" and "m \<noteq> l"
  shows "silent l (attach_job cfg now k from m sp)"
proof -
  let ?sp = "snd (reconcileOne cfg now True k sp)"
  have ok: "silent l ?sp" using si by (rule mute.reconcile)
  show ?thesis
  proof (cases "job_done k ?sp")
    case True
    then have "sp_index (attach_job cfg now k from m sp) = sp_index ?sp"
      by (auto simp: attach_job_def Let_def job_done_def split: option.splits)
    then show ?thesis
      using ok attach_heard [OF assms] spine_ok_index [of "attach_job cfg now k from m sp" ?sp]
      by (simp add: silent_def job_at_def)
  next
    case False
    then obtain j where j: "job_at k ?sp = Some j" "\<not> ij_done j" using not_job_done by blast
    have "sp_index (attach_job cfg now k from m sp) =
        row_upd k (\<lambda>j. j\<lparr>ij_listeners := ij_listeners j @ [m]\<rparr>) (sp_index ?sp)"
      using j by (simp add: attach_job_def Let_def)
    with ok show ?thesis
      by (rule silent_upd) (use assms j attach_heard [OF assms] in \<open>auto simp: job_ok_def\<close>)
  qed
qed

lemma silent_wait:
  assumes "silent l sp" and "Waiter n \<noteq> l"
  shows "silent l (waitForAnswer cfg now k from n sp)"
proof (rule wait_step)
  fix s
  assume s: "silent l s"
  let ?s = "s\<lparr>sp_heard := sp_heard s @ [(Waiter n, None)]\<rparr>"
  have "heard_by l ?s = heard_by l s" using assms(2) by (simp add: heard_by_def)
  then show "silent l ?s" using s spine_ok_index [of ?s s] by (simp add: silent_def job_at_def)
qed (use assms in \<open>simp_all add: mute.reconcile silent_attach\<close>)

lemma silent_detach: "silent l sp \<Longrightarrow> silent l (detach_job k m sp)"
  by (rule silent_upd [of l sp _ k "\<lambda>j. j\<lparr>ij_listeners := remove1 m (ij_listeners j)\<rparr>"])
    (auto simp: detach_job_def heard_by_def silent_def job_ok_def dest: notin_set_remove1 [of _ _ m])

lemma silent_create:
  assumes "silent l sp"
  shows "silent l (snd (create_job cfg now k u w kd ow sp))"
proof -
  let ?c = "snd (create_job cfg now k u w kd ow sp)"
  have ok: "spine_ok sp" using assms by (simp add: silent_def)
  have "heard_by l ?c = heard_by l sp"
    by (simp add: create_job_def case_prod_unfold heard_by_def gc_jobs_def evict_heard)
  moreover have "l \<notin> set (ij_listeners j)" if "job_at m ?c = Some j" for m j
    using that assms create_job_at [OF ok, of k m cfg now u w kd ow] create_listeners [OF ok, of k cfg now u w kd ow j]
    by (cases "m = k") (auto simp: silent_def)
  ultimately show ?thesis using assms spine_ok_create [OF ok] by (auto simp: silent_def)
qed

lemma silent_step: "silent l sp \<Longrightarrow> \<not> attaches l op \<Longrightarrow> silent l (spine_step cfg op sp)"
  by (cases op) (auto simp: mute.emits mute.reconcile mute.stops mute.settles mute.retries silent_attach silent_wait
      silent_detach silent_create line_append_def intro: silent_same [of l sp])

lemma silent_booted: "silent l (booted cfg now inst d)"
proof -
  have put: "silent l ((stopFollowing i sp)\<lparr>sp_index :=
      AList.update i (recovered_job (publicEvents recs)) (sp_index sp)\<rparr>)"
    if "silent l sp" and "publicEvents recs \<noteq> []" for recs i sp
    using that spine_ok_put [of sp _ i, OF _ _ job_ok_recovered [OF that(2) well_sealed_public]]
    by (auto simp: silent_def job_at_def row_simps heard_by_def recovered_job_def Let_def
        simp del: map_of_eq_Some_iff split: if_splits)
  have one: "silent l (snd (load_one cfg now i acc))" if "silent l (snd acc)" for i acc
    using that put [OF that]
    by (simp add: load_one_def Let_def case_prod_unfold startFollowing_def mute.followers mute.unfollow
        mute.resume mute.seal split: option.split)
  have all: "silent l (snd (fold (load_one cfg now) is acc))" if "silent l (snd acc)" for "is" acc
    using that by (induction "is" arbitrary: acc) (simp_all add: one)
  have gc: "silent l (gc_jobs cfg sp)" if si: "silent l sp" for sp
  proof -
    have "heard_by l (gc_jobs cfg sp) = heard_by l sp" by (simp add: gc_jobs_def heard_by_def evict_heard)
    moreover have "spine_ok sp" using si by (simp add: silent_def)
    moreover have "job_at k (gc_jobs cfg sp) = Some j \<Longrightarrow> job_at k sp = Some j" for k j
      using gc_job_at [OF \<open>spine_ok sp\<close>, of k cfg] by auto
    ultimately show ?thesis using si spine_ok_gc [of sp cfg] by (auto simp: silent_def)
  qed
  have "silent l (new_spine inst d)"
    using spine_ok_new [of inst d] by (simp add: silent_def heard_by_def new_spine_def job_at_def)
  then show ?thesis by (simp add: booted_def loadFromDisk_def case_prod_unfold all gc)
qed

lemma tuned_attached:
  assumes si: "silent l sp" and j: "job_at i (attach_job cfg now i from l sp) = Some j"
  shows "tuned l i from (ij_events j) (attach_job cfg now i from l sp)"
proof -
  let ?sp = "snd (reconcileOne cfg now True i sp)"
  have ok: "silent l ?sp" using si by (rule mute.reconcile)
  obtain j0 where j0: "job_at i ?sp = Some j0"
    using j by (cases "job_at i ?sp") (auto simp: attach_job_def Let_def)
  have ev: "ij_events j = ij_events j0 \<and> ij_done j = ij_done j0 \<and>
      (\<not> ij_done j0 \<longrightarrow> ij_listeners j = ij_listeners j0 @ [l])"
    using j j0 by (auto simp: attach_job_def Let_def job_at_def row_simps simp del: map_of_eq_Some_iff split: if_splits)
  have pick: "map snd (filter (\<lambda>(k, d). k = l) (map (\<lambda>x. (l, Some x)) evs)) = map Some evs" for evs :: "job_event list"
    by (induction evs) auto
  have heard: "heard_by l (attach_job cfg now i from l sp) =
      map Some (drop from (ij_events j0)) @ (if ij_done j0 then [None] else [])"
    using j0 ok by (simp add: attach_job_def Let_def heard_by_def pick silent_def)
  have "in_tune l from (ij_events j) j (attach_job cfg now i from l sp)"
    using ev heard ok j0 unfolding in_tune_def by (intro exI [of _ "[]"]) (auto simp: silent_def)
  moreover have "l \<notin> set (ij_listeners j')"
    if "k \<noteq> i" "job_at k (attach_job cfg now i from l sp) = Some j'" for k j'
    using that ok j0 by (auto simp: attach_job_def Let_def job_at_def row_simps silent_def
        simp del: map_of_eq_Some_iff split: if_splits)
  moreover have "spine_ok (attach_job cfg now i from l sp)"
    using si by (intro spine_ok_attach) (simp add: silent_def)
  ultimately show ?thesis using j by (auto simp: tuned_def hears_def)
qed

lemma wait_result_hears:
  "wait_result (map Some evs @ hears_from (Waiter n) news d) =
     (case find (\<lambda>ev. je_type ev = ''answer'') (evs @ news) of
        Some ev \<Rightarrow> Some (Some ev) | None \<Rightarrow> if d then Some None else None)"
proof (induction evs)
  case Nil
  show ?case by (induction news) auto
qed auto

lemma reconcile_twice_attach:
  assumes "job_at i (waitForAnswer cfg now i from n sp) = Some j" and "\<not> ij_done j"
  shows "waitForAnswer cfg now i from n sp = attach_job cfg now i from (Waiter n) (snd (reconcileOne cfg now True i sp))"
  using assms by (auto simp: waitForAnswer_def get_ide_job_def Let_def job_at_def split: option.splits if_splits)

text \<open>C29: An answer cannot be missed.  A waiter that asks from an index taken before its question
  was emitted, and finds the build open, is handed the events of the build from that index on that came before it
  attached, and then every later event, from this process or from another, up to and including the first later
  answer, at which it unsubscribes, or else up to the end marker; and its promise resolves with the first answer
  at or after that index, wherever it came, with null when the build is sealed without one, and stays pending
  otherwise.\<close>

theorem answer_is_never_missed:
  assumes start: "sp = spine_run cfg ops (booted cfg t0 inst d)"
    and quiet: "\<forall>op \<in> set ops. \<not> attaches (Waiter n) op"
    and wait: "sp1 = waitForAnswer cfg now i from n sp"
    and live: "job_at i sp1 = Some j1" "\<not> ij_done j1" "from \<le> length (ij_events j1)"
    and later: "\<forall>op \<in> set later. \<not> attaches (Waiter n) op \<and> \<not> detaches (Waiter n) op
      \<and> \<not> (is_create op \<and> op_job op = i)"
    and job: "job_at i (spine_run cfg later sp1) = Some j"
  shows "\<exists>news. ij_events j = ij_events j1 @ news
    \<and> heard_by (Waiter n) (spine_run cfg later sp1) =
      map Some (drop from (ij_events j1)) @ hears_from (Waiter n) news (ij_done j)
    \<and> wait_result (heard_by (Waiter n) (spine_run cfg later sp1)) =
      (case find (\<lambda>ev. je_type ev = ''answer'') (drop from (ij_events j)) of
         Some ev \<Rightarrow> Some (Some ev)
       | None \<Rightarrow> if ij_done j then Some None else None)"
proof -
  let ?l = "Waiter n"
  have "silent ?l sp"
    unfolding start by (rule spine_run_induct [where P = "silent ?l", OF silent_booted]) (simp add: quiet silent_step)
  then have si: "silent ?l (snd (reconcileOne cfg now True i sp))" by (rule mute.reconcile)
  have at: "sp1 = attach_job cfg now i from ?l (snd (reconcileOne cfg now True i sp))"
    using live reconcile_twice_attach unfolding wait by blast
  have "tuned ?l i from (ij_events j1) sp1"
    using tuned_attached [OF si, of i cfg now "from" j1] live at by simp
  then have "tuned ?l i from (ij_events j1) (spine_run cfg later sp1)"
    by (rule spine_run_induct) (use later tuned_step in blast)
  then obtain news where news: "ij_events j = ij_events j1 @ news"
    "heard_by ?l (spine_run cfg later sp1) = map Some (drop from (ij_events j1)) @ hears_from ?l news (ij_done j)"
    using job by (auto simp: tuned_def hears_def in_tune_def)
  then show ?thesis using live(3) by (auto simp: wait_result_hears)
qed

lemma answer_is_never_missed_witness:
  "\<exists>ev. wait_result (heard_by (Waiter 7)
        (spine_run demo_cfg [Emit 130 ''a'' (event_of ''answer''), Emit 135 ''a'' (event_of ''done'')]
          (waitForAnswer demo_cfg 126 ''a'' 4 7
            (spine_run demo_cfg demo_ops (booted demo_cfg 112 ''me'' demo_disk))))) = Some (Some ev)
      \<and> je_type ev = ''answer''"
proof -
  let ?sp1 = "waitForAnswer demo_cfg 126 ''a'' 4 7 (spine_run demo_cfg demo_ops (booted demo_cfg 112 ''me'' demo_disk))"
  let ?later = "[Emit 130 ''a'' (event_of ''answer''), Emit 135 ''a'' (event_of ''done'')]"
  have "case job_at ''a'' ?sp1 of None \<Rightarrow> False | Some j \<Rightarrow> \<not> ij_done j \<and> 4 \<le> length (ij_events j)" by code_simp
  then obtain j1 where j1: "job_at ''a'' ?sp1 = Some j1" "\<not> ij_done j1" "4 \<le> length (ij_events j1)"
    by (cases "job_at ''a'' ?sp1") auto
  have "case job_at ''a'' (spine_run demo_cfg ?later ?sp1) of None \<Rightarrow> False
      | Some j \<Rightarrow> (case find (\<lambda>ev. je_type ev = ''answer'') (drop 4 (ij_events j)) of
          None \<Rightarrow> False | Some ev \<Rightarrow> je_type ev = ''answer'')" by code_simp
  then obtain j ev where j: "job_at ''a'' (spine_run demo_cfg ?later ?sp1) = Some j"
    and ev: "find (\<lambda>ev. je_type ev = ''answer'') (drop 4 (ij_events j)) = Some ev" "je_type ev = ''answer''"
    by (cases "job_at ''a'' (spine_run demo_cfg ?later ?sp1)") (auto split: option.splits)
  have quiet: "\<forall>op \<in> set demo_ops. \<not> attaches (Waiter 7) op" by (simp add: demo_ops_def)
  have later: "\<forall>op \<in> set ?later. \<not> attaches (Waiter 7) op \<and> \<not> detaches (Waiter 7) op
      \<and> \<not> (is_create op \<and> op_job op = ''a'')"
    by simp
  have "wait_result (heard_by (Waiter 7) (spine_run demo_cfg ?later ?sp1)) = Some (Some ev)"
    using answer_is_never_missed [OF refl quiet refl j1 later j] ev(1) by (auto simp only: option.case)
  then show ?thesis using ev(2) by blast
qed

end
