(* ===== verification/IdeJobs_Follow.thy ===== *)
theory IdeJobs_Follow
  imports IdeJobs_Props
begin

text \<open>
  A process that follows a journal another instance may still be writing: it agrees with a process
  that reads the journal afresh, it never interrupts a build whose journal is alive, and it settles
  a build whose journal has gone quiet.
\<close>

section \<open>What following adds\<close>

lemma disk_tail: "sp_disk (snd (tail_records now i rs (seen, sp))) = sp_disk sp"
  by (induction rs arbitrary: seen sp)
    (simp_all add: Let_def publish_def push_event_def stopFollowing_def stopHeartbeat_def split: option.split)

lemma tail_skips:
  assumes "\<forall>r \<in> set xs. je_type r = LEASE_EVENT \<or> (je_record r \<noteq> [] \<and> je_record r \<in> set seen)"
  shows "tail_records now i (xs @ rs) (seen, sp) = tail_records now i rs (seen, sp)"
  using assms by (induction xs) auto

lemma record_ids_simps [simp]:
  "record_ids [] = []"
  "record_ids (r # rs) = (if je_record r \<noteq> [] then je_record r # record_ids rs else record_ids rs)"
  "record_ids (xs @ ys) = record_ids xs @ record_ids ys"
  by (simp_all add: record_ids_def)

lemma tail_fresh:
  assumes "je_type r \<noteq> LEASE_EVENT" and "\<not> (je_record r \<noteq> [] \<and> je_record r \<in> set seen)"
  shows "tail_records now i (r # rs) (seen, sp) =
    tail_records now i rs (if je_record r \<noteq> [] then je_record r # seen else seen,
      if job_done i sp then sp else publish now i r False (push_event i r sp))"
  using assms by (auto simp: Let_def)

lemma tail_known:
  assumes "je_type r = LEASE_EVENT \<or> je_record r \<noteq> [] \<and> je_record r \<in> set seen"
  shows "tail_records now i (r # rs) (seen, sp) = tail_records now i rs (seen, sp)"
  using assms by auto

lemma tail_seen: "set (fst (tail_records now i rs (seen, sp))) \<subseteq> set seen \<union> set (record_ids rs)"
proof (induction rs arbitrary: seen sp)
  case (Cons r rs)
  show ?case
  proof (cases "je_type r = LEASE_EVENT \<or> je_record r \<noteq> [] \<and> je_record r \<in> set seen")
    case True
    then show ?thesis using Cons [of seen sp] by (auto simp: tail_known simp del: tail_records.simps)
  next
    case False
    then show ?thesis
      using Cons [of "if je_record r \<noteq> [] then je_record r # seen else seen"
          "if job_done i sp then sp else publish now i r False (push_event i r sp)"]
      by (auto simp: tail_fresh simp del: tail_records.simps split: if_splits)
  qed
qed simp

lemma public_push_private: "is_private ev \<Longrightarrow> public_push evs ev = evs"
  by (simp add: public_push_def)

lemma tail_events:
  assumes "spine_ok sp" and "job_at i sp = Some j"
    and "\<forall>r \<in> set rs. je_type r \<noteq> REQUEST_EVENT"
    and "distinct (record_ids rs)" and "set (record_ids rs) \<inter> set seen = {}"
  shows "\<exists>j'. job_at i (snd (tail_records now i rs (seen, sp))) = Some j' \<and>
    ij_events j' = foldl public_push (ij_events j) rs"
  using assms
proof (induction rs arbitrary: seen sp j)
  case (Cons r rs)
  let ?seen = "if je_record r \<noteq> [] then je_record r # seen else seen"
  have rest: "\<forall>r \<in> set rs. je_type r \<noteq> REQUEST_EVENT" "distinct (record_ids rs)"
    "set (record_ids rs) \<inter> set seen = {}" "set (record_ids rs) \<inter> set ?seen = {}"
    using Cons.prems by (auto split: if_splits)
  have ok: "job_ok j" using Cons.prems by (simp add: spine_okD)
  show ?case
  proof (cases "je_type r = LEASE_EVENT")
    case True
    then show ?thesis using Cons.IH [OF Cons.prems(1,2) rest(1-3)] by (simp add: public_push_private is_private_def)
  next
    case no_lease: False
    then have push: "public_push evs r = (if evs \<noteq> [] \<and> isTerminal (je_type (last evs)) then evs else evs @ [r])" for evs
      using Cons.prems(3) by (simp add: public_push_def is_private_def)
    have new: "\<not> (je_record r \<noteq> [] \<and> je_record r \<in> set seen)"
      using Cons.prems(5) by auto
    show ?thesis
    proof (cases "ij_done j")
      case True
      then have "public_push (ij_events j) r = ij_events j" using ok by (simp add: push job_ok_def)
      then show ?thesis
        using Cons.IH [OF Cons.prems(1,2) rest(1,2,4)] True tail_fresh [OF no_lease new, of now i rs sp] Cons.prems(2)
        by (simp add: job_done_def del: tail_records.simps split del: if_split)
    next
      case False
      let ?pub = "publish now i r False (push_event i r sp)"
      note rec = spine_ok_record [where now = now and h = False and ev = r, OF Cons.prems(1,2) False refl]
      have "public_push (ij_events j) r = ij_events j @ [r]" using ok False by (simp add: push job_ok_def)
      moreover have "ij_events (sealed_job now r (j\<lparr>ij_events := ij_events j @ [r]\<rparr>)) = ij_events j @ [r]"
        by (simp add: sealed_job_def seal_fields_def Let_def)
      ultimately show ?thesis
        using Cons.IH [OF rec(1,2) rest(1,2,4)] False tail_fresh [OF no_lease new, of now i rs sp] Cons.prems(2)
        by (simp add: job_done_def del: tail_records.simps split del: if_split)
    qed
  qed
qed simp

section \<open>Keeping in step\<close>

text \<open>A follower that has read the first \<open>k\<close> records.\<close>

definition lags :: "nat \<Rightarrow> follower \<Rightarrow> job_event list \<Rightarrow> bool" where
  "lags k f recs =
     (fo_rawCursor f \<le> k \<and> k \<le> length recs
      \<and> (\<forall>r \<in> set (drop (fo_rawCursor f) (take k recs)).
           je_type r = LEASE_EVENT \<or> (je_record r \<noteq> [] \<and> je_record r \<in> set (fo_seen f)))
      \<and> set (fo_seen f) \<subseteq> set (record_ids recs)
      \<and> (\<forall>r \<in> set (drop k recs). je_type r \<noteq> REQUEST_EVENT)
      \<and> distinct (record_ids (drop k recs)) \<and> set (record_ids (drop k recs)) \<inter> set (fo_seen f) = {})"

fun in_line :: "ide_job option \<times> follower option \<times> journal_line list option \<Rightarrow> bool" where
  "in_line (None, fo, ls) = True"
| "in_line (Some j, fo, None) = False"
| "in_line (Some j, fo, Some ls) =
     (if ij_done j then ij_events j = publicEvents (parsed_lines ls)
      else case fo of
             None \<Rightarrow> ij_events j = publicEvents (parsed_lines ls)
           | Some f \<Rightarrow> \<exists>k. ij_events j = publicEvents (take k (parsed_lines ls)) \<and> lags k f (parsed_lines ls))"

definition sound_disk :: "spine \<Rightarrow> bool" where
  "sound_disk sp = (\<not> jd_unreadable (sp_disk sp) \<and> \<not> jd_full (sp_disk sp))"

definition abreast :: "string \<Rightarrow> spine \<Rightarrow> bool" where
  "abreast i sp = (spine_ok sp \<and> sound_disk sp \<and> in_line (view i sp))"

lemma abreast_frame:
  assumes "abreast i sp" and "view i sp' = view i sp" and "fixed_parts sp' = fixed_parts sp" and "spine_ok sp'"
  shows "abreast i sp'"
  using assms fixed_partsD [OF assms(3)] by (simp add: abreast_def sound_disk_def)

text \<open>The writer's step: the event in memory and the same event at the end of the journal.\<close>

lemma view_record:
  assumes "spine_ok sp" and "job_at i sp = Some j" and "\<not> ij_done j" and "sp_index mid = sp_index (push_event i ev sp)"
  shows "view i (publish now i ev h mid) =
    (Some (sealed_job now ev (j\<lparr>ij_events := ij_events j @ [ev]\<rparr>)),
     if isTerminal (je_type ev) then None else map_of (sp_followers mid) i,
     map_of (jd_files (sp_disk mid)) i)"
proof -
  have "job_at i mid = Some (j\<lparr>ij_events := ij_events j @ [ev]\<rparr>)"
    using assms job_at_push [of i i ev sp] by (simp add: job_at_def)
  then have "map_of (sp_followers (publish now i ev h mid)) i =
      (if isTerminal (je_type ev) then None else map_of (sp_followers mid) i)"
    and "sp_disk (publish now i ev h mid) = sp_disk mid"
    by (simp_all add: publish_def Let_def stopFollowing_def stopHeartbeat_def row_simps)
  then show ?thesis using spine_ok_record(2) [OF assms] by (simp add: view_def)
qed

lemma sealed_job_events:
  "ij_events (sealed_job now ev j) = ij_events j"
  "ij_done (sealed_job now ev j) = (ij_done j \<or> isTerminal (je_type ev))"
  by (simp_all add: sealed_job_def seal_fields_def Let_def)

lemma public_own:
  assumes "evs = publicEvents recs" and "\<not> sealed_stream evs" and "\<not> is_private ev"
  shows "publicEvents (recs @ [ev]) = evs @ [ev]"
  using assms by (auto simp: publicEvents_snoc public_push_def sealed_stream_def)

lemma job_ok_open: "job_ok j \<Longrightarrow> \<not> ij_done j \<Longrightarrow> \<not> sealed_stream (ij_events j)"
  by (simp add: job_ok_def sealed_stream_def)

lemma map_of_append_to:
  "\<not> jd_full (sp_disk sp) \<Longrightarrow>
   map_of (jd_files (sp_disk (append_to cfg i ev sp))) i = Some (file_lines i (sp_disk sp) @ [(Some ev, cf_bytes cfg ev)])"
  by (simp add: append_to_def append_line_def row_simps)

lemma abreast_seal:
  assumes ok: "spine_ok sp" "sound_disk sp" and job: "job_at i sp = Some j" "\<not> ij_done j"
    and ondisk: "map_of (jd_files (sp_disk sp)) i = Some ls" and ev: "ij_events j = publicEvents (parsed_lines ls)"
  shows "abreast i (snd (sealInterrupted cfg now i sp))"
proof -
  let ?o = "ownedRecord (interrupted_event now) sp"
  let ?ev = "fst ?o"
  let ?mid = "append_to cfg i ?ev (push_event i ?ev (snd ?o))"
  have ok1: "spine_ok (snd ?o)" using ok(1) by (simp add: spine_ok_def)
  have ty: "je_type ?ev = ''error''"
    by (simp add: ownedRecord_def interrupted_event_def event_of_def Let_def)
  have seal: "snd (sealInterrupted cfg now i sp) = publish now i ?ev False ?mid"
    using job by (simp add: sealInterrupted_def case_prod_unfold)
  have disk: "sp_disk (push_event i ?ev (snd ?o)) = sp_disk sp"
    by (simp add: push_event_def ownedRecord_def Let_def)
  have lines: "map_of (jd_files (sp_disk ?mid)) i = Some (ls @ [(Some ?ev, cf_bytes cfg ?ev)])"
    using ok(2) ondisk map_of_append_to [of "push_event i ?ev (snd ?o)" cfg i ?ev] disk
    by (simp add: sound_disk_def file_lines_def)
  have "view i (publish now i ?ev False ?mid) =
      (Some (sealed_job now ?ev (j\<lparr>ij_events := ij_events j @ [?ev]\<rparr>)), None, Some (ls @ [(Some ?ev, cf_bytes cfg ?ev)]))"
    using view_record [OF ok1, of i j ?mid ?ev now False] job lines ty
    by (simp add: isTerminal_def TERMINAL_def)
  moreover have "publicEvents (parsed_lines ls @ [?ev]) = ij_events j @ [?ev]"
    using public_own [OF ev job_ok_open [OF spine_okD [OF ok(1) job(1)] job(2)], of ?ev] ty
    by (simp add: is_private_def LEASE_EVENT_def REQUEST_EVENT_def)
  moreover have "fixed_parts (publish now i ?ev False ?mid) = fixed_parts sp" by (simp add: frame_simps)
  ultimately show ?thesis
    using ok.seal [OF ok(1), of cfg now i] ok(2) seal fixed_partsD [of "publish now i ?ev False ?mid" sp]
    by (simp add: abreast_def sound_disk_def sealed_job_events parsed_append)
qed

text \<open>Nothing is pending: memory and journal agree.\<close>

fun exact :: "ide_job option \<times> follower option \<times> journal_line list option \<Rightarrow> bool" where
  "exact (None, fo, ls) = True"
| "exact (Some j, fo, None) = False"
| "exact (Some j, fo, Some ls) =
     (ij_events j = publicEvents (parsed_lines ls)
      \<and> (\<not> ij_done j \<longrightarrow> (\<forall>f. fo = Some f \<longrightarrow> lags (length (parsed_lines ls)) f (parsed_lines ls))))"

lemma exact_in_line: "exact v \<Longrightarrow> in_line v"
  by (cases v rule: exact.cases) (auto split: option.splits, metis order.refl take_all_iff)

definition level :: "string \<Rightarrow> spine \<Rightarrow> bool" where
  "level i sp = (spine_ok sp \<and> sound_disk sp \<and> exact (view i sp))"

lemma level_abreast: "level i sp \<Longrightarrow> abreast i sp"
  by (simp add: level_def abreast_def exact_in_line)

lemma view_parts: "view i sp = (j, fo, ls) \<Longrightarrow>
    job_at i sp = j \<and> map_of (sp_followers sp) i = fo \<and> map_of (jd_files (sp_disk sp)) i = ls"
  by (simp add: view_def)

lemma level_seal:
  assumes "spine_ok sp" "sound_disk sp" and "job_at i sp = Some j" "\<not> ij_done j"
    and "map_of (jd_files (sp_disk sp)) i = Some ls" and "ij_events j = publicEvents (parsed_lines ls)"
  shows "level i (snd (sealInterrupted cfg now i sp))"
proof -
  let ?sp = "snd (sealInterrupted cfg now i sp)"
  have ab: "abreast i ?sp" by (rule abreast_seal [OF assms])
  have "job_done i ?sp"
  proof -
    let ?o = "ownedRecord (interrupted_event now) sp"
    have "je_type (fst ?o) = ''error''" by (simp add: ownedRecord_def interrupted_event_def event_of_def Let_def)
    moreover have "spine_ok (snd ?o)" using assms(1) by (simp add: spine_ok_def)
    ultimately show ?thesis
      using assms(3,4) spine_ok_record(2) [of "snd ?o" i j "append_to cfg i (fst ?o) (push_event i (fst ?o) (snd ?o))" "fst ?o" now False]
      by (simp add: sealInterrupted_def case_prod_unfold job_done_def sealed_job_events isTerminal_def TERMINAL_def)
  qed
  then show ?thesis
    using ab by (cases "view i ?sp" rule: exact.cases)
      (auto simp: abreast_def level_def job_done_def dest!: view_parts)
qed

text \<open>Reading the rest of the journal brings a follower level.\<close>

lemma foldl_public: "foldl public_push (publicEvents (take k recs)) (drop k recs) = publicEvents recs"
  by (simp add: publicEvents_def flip: foldl_append)

lemma abreast_cases [consumes 1, case_names gone settled lagging]:
  assumes "abreast i sp"
  obtains "job_at i sp = None"
  | j ls where "job_at i sp = Some j" and "map_of (jd_files (sp_disk sp)) i = Some ls"
      and "ij_events j = publicEvents (parsed_lines ls)" and "ij_done j \<or> map_of (sp_followers sp) i = None"
  | j ls f k where "job_at i sp = Some j" and "map_of (jd_files (sp_disk sp)) i = Some ls"
      and "\<not> ij_done j" and "map_of (sp_followers sp) i = Some f"
      and "ij_events j = publicEvents (take k (parsed_lines ls))" and "lags k f (parsed_lines ls)"
  using assms that
  by (cases "view i sp" rule: exact.cases)
    (auto simp: abreast_def dest: view_parts split: if_splits option.splits)

text \<open>A spine whose job, journal and follower agree is level.\<close>

lemma level_intro:
  assumes "spine_ok sp" "sound_disk sp" and "job_at i sp = Some j" and "map_of (jd_files (sp_disk sp)) i = Some ls"
    and "ij_events j = publicEvents (parsed_lines ls)"
    and "\<And>f. \<not> ij_done j \<Longrightarrow> map_of (sp_followers sp) i = Some f \<Longrightarrow> lags (length (parsed_lines ls)) f (parsed_lines ls)"
  shows "level i sp"
  using assms by (simp add: level_def view_def)

lemma level_gone: "spine_ok sp \<Longrightarrow> sound_disk sp \<Longrightarrow> job_at i sp = None \<Longrightarrow> level i sp"
  by (simp add: level_def view_def)

lemma level_resume:
  assumes ok: "spine_ok sp" "sound_disk sp" and job: "job_at i sp = Some j"
    and ondisk: "map_of (jd_files (sp_disk sp)) i = Some ls"
    and ev: "ij_events j = publicEvents (parsed_lines ls)"
    and fo: "\<And>f. \<not> ij_done j \<Longrightarrow> map_of (sp_followers sp) i = Some f \<Longrightarrow> lags (length (parsed_lines ls)) f (parsed_lines ls)"
  shows "level i (attemptResume cfg now i raw n sp)"
proof (cases "sp_disposed sp \<or> ij_done j")
  case True
  then have "attemptResume cfg now i raw n sp = sp" using job by (simp add: attemptResume_def)
  then show ?thesis using level_intro [OF assms] by simp
next
  case False
  show ?thesis
  proof (cases "cf_resume cfg")
    case True
    have "level i ((stopFollowing i sp)\<lparr>sp_resuming := sp_resuming sp @ [(i, dossier raw n)]\<rparr>)"
      by (rule level_intro [where j = j and ls = ls])
        (use ok job ondisk ev in \<open>simp_all add: spine_ok_def sound_disk_def stopFollowing_def job_at_def row_simps\<close>)
    then show ?thesis using True False job by (simp add: attemptResume_def)
  next
    case no: False
    then show ?thesis
      using False job level_seal [OF ok job _ ondisk ev] by (simp add: attemptResume_def)
  qed
qed

lemma level_done:
  assumes "abreast i sp" and "job_done i sp"
  shows "level i sp"
proof -
  have ok: "spine_ok sp" "sound_disk sp" using assms(1) by (simp_all add: abreast_def)
  from assms(1) show ?thesis
  proof (cases rule: abreast_cases)
    case gone
    then show ?thesis using level_gone ok by blast
  next
    case (settled j ls)
    show ?thesis
      by (rule level_intro [OF ok settled(1-3)]) (use assms(2) settled(1) in \<open>simp add: job_done_def\<close>)
  next
    case (lagging j ls f k)
    then show ?thesis using assms(2) by (simp add: job_done_def)
  qed
qed

lemma level_unfollow: "level i sp \<Longrightarrow> level i (stopFollowing i sp)"
  by (cases "view i sp" rule: exact.cases)
    (auto simp: level_def sound_disk_def stopFollowing_def view_def job_at_def spine_ok_def row_simps
      simp del: map_of_eq_Some_iff)

text \<open>Reading the rest of the journal brings a follower level.\<close>

lemma tail_catches_up:
  assumes "spine_ok sp" and "job_at i sp = Some j"
    and ev: "ij_events j = publicEvents (take k recs)" and lag: "lags k f recs"
  shows "\<exists>j'. job_at i (snd (tail_records now i (drop (fo_rawCursor f) recs) (fo_seen f, sp))) = Some j' \<and>
    ij_events j' = publicEvents recs"
proof -
  have "drop (fo_rawCursor f) recs = drop (fo_rawCursor f) (take k recs @ drop k recs)" by simp
  also have "\<dots> = drop (fo_rawCursor f) (take k recs) @ drop k recs"
    using lag by (simp only: drop_append lags_def) simp
  finally have split: "drop (fo_rawCursor f) recs = drop (fo_rawCursor f) (take k recs) @ drop k recs" .
  have "tail_records now i (drop (fo_rawCursor f) recs) (fo_seen f, sp) = tail_records now i (drop k recs) (fo_seen f, sp)"
    unfolding split by (rule tail_skips) (use lag in \<open>simp add: lags_def\<close>)
  moreover obtain j' where "job_at i (snd (tail_records now i (drop k recs) (fo_seen f, sp))) = Some j'"
    and "ij_events j' = foldl public_push (ij_events j) (drop k recs)"
    using tail_events [OF assms(1,2), of "drop k recs" "fo_seen f" now] lag by (auto simp: lags_def)
  ultimately show ?thesis using foldl_public ev by simp
qed

lemma lags_all:
  assumes "set seen \<subseteq> set (record_ids recs)"
  shows "lags (length recs) \<lparr>fo_rawCursor = length recs, fo_bytes = b, fo_seen = seen, fo_leaseUntil = u, fo_readFailures = n\<rparr> recs"
  using assms by (simp add: lags_def)

lemma level_reconcile:
  assumes ab: "abreast i sp"
  shows "level i (snd (reconcileOne cfg now b i sp))"
proof (cases "job_done i sp")
  case True
  then have "snd (reconcileOne cfg now b i sp) \<in> {sp, stopFollowing i sp}"
    by (simp add: reconcileOne_def split: option.split)
  then show ?thesis using level_done [OF ab True] level_unfollow by auto
next
  case False
  have ok: "spine_ok sp" "sound_disk sp" using ab by (simp_all add: abreast_def)
  from ab show ?thesis
  proof (cases rule: abreast_cases)
    case gone
    then show ?thesis using False by (simp add: job_done_def)
  next
    case (settled j ls)
    then have nf: "map_of (sp_followers sp) i = None" using False by (simp add: job_done_def)
    then have "snd (reconcileOne cfg now b i sp) = sp" by (simp add: reconcileOne_def)
    then show ?thesis using level_intro [OF ok settled(1-3)] nf by simp
  next
    case (lagging j ls f k)
    let ?recs = "parsed_lines ls"
    let ?tail = "tail_records now i (drop (fo_rawCursor f) ?recs) (fo_seen f, sp)"
    let ?act = "foreign_activity (sp_instance sp) \<lparr>sn_records = ?recs, sn_bytes = sum_list (map snd ls)\<rparr> f"
    let ?f1 = "\<lparr>fo_rawCursor = length ?recs, fo_bytes = sum_list (map snd ls), fo_seen = fst ?tail,
        fo_leaseUntil = (if ?act then now + cf_grace cfg else fo_leaseUntil f), fo_readFailures = 0\<rparr>"
    let ?sp2 = "(snd ?tail)\<lparr>sp_followers := AList.update i ?f1 (sp_followers (snd ?tail))\<rparr>"
    have rd: "readJournal i (sp_disk sp) = Some \<lparr>sn_records = ?recs, sn_bytes = sum_list (map snd ls)\<rparr>"
      using lagging(2) ok(2) by (simp add: readJournal_def sound_disk_def)
    have f1: "f\<lparr>fo_rawCursor := length ?recs, fo_bytes := sum_list (map snd ls), fo_seen := fst ?tail,
        fo_readFailures := 0, fo_leaseUntil := (if ?act then now + cf_grace cfg else fo_leaseUntil f)\<rparr> = ?f1"
      by simp
    have rec: "snd (reconcileOne cfg now b i sp) =
        (if job_done i (snd ?tail) then stopFollowing i (snd ?tail)
         else if b \<and> fo_leaseUntil ?f1 \<le> now
         then (if cf_resume cfg then attemptResume cfg now i ?recs 1 ?sp2 else snd (sealInterrupted cfg now i ?sp2))
         else ?sp2)"
      using lagging(4) False rd f1
      by (simp only: reconcileOne_def option.case Let_def case_prod_unfold snapshot.select_convs if_False snd_conv
          if_distrib [of snd] follower.select_convs)
    obtain j' where j': "job_at i (snd ?tail) = Some j'" "ij_events j' = publicEvents ?recs"
      using tail_catches_up [OF ok(1) lagging(1,5,6)] by blast
    have ok1: "spine_ok (snd ?tail)" using ok(1) by (rule ok.tail)
    have d1: "sound_disk (snd ?tail)" using ok(2) disk_tail by (simp add: sound_disk_def)
    have file1: "map_of (jd_files (sp_disk (snd ?tail))) i = Some ls" using lagging(2) disk_tail by simp
    have lag1: "lags (length ?recs) ?f1 ?recs"
      by (rule lags_all) (use tail_seen [of now i "drop (fo_rawCursor f) ?recs" "fo_seen f" sp] lagging(6)
          in \<open>auto simp: lags_def record_ids_def dest: in_set_dropD\<close>)
    have ok2: "spine_ok ?sp2" "sound_disk ?sp2" using ok1 d1 ok.followers by (simp_all add: sound_disk_def)
    have l2: "job_at i ?sp2 = Some j'" "map_of (jd_files (sp_disk ?sp2)) i = Some ls"
      "map_of (sp_followers ?sp2) i = Some ?f1"
      using j'(1) file1 by (simp_all add: row_simps)
    show ?thesis
    proof (cases "job_done i (snd ?tail)")
      case True
      have "level i (snd ?tail)"
        by (rule level_intro [OF ok1 d1 j'(1) file1 j'(2)]) (use True j'(1) in \<open>simp add: job_done_def\<close>)
      then show ?thesis using True level_unfollow by (simp add: rec)
    next
      case open_job: False
      then have nd: "\<not> ij_done j'" using j'(1) by (simp add: job_done_def)
      have "level i ?sp2" by (rule level_intro [OF ok2 l2(1,2) j'(2)]) (use l2(3) lag1 in auto)
      moreover have "level i (attemptResume cfg now i ?recs 1 ?sp2)"
        by (rule level_resume [OF ok2 l2(1,2) j'(2)]) (use l2(3) lag1 in auto)
      moreover have "level i (snd (sealInterrupted cfg now i ?sp2))"
        by (rule level_seal [OF ok2 l2(1) nd l2(2) j'(2)])
      ultimately show ?thesis using open_job by (simp only: rec if_False split: if_split) blast
    qed
  qed
qed

lemma event_types_public: "je_type ev \<in> set EVENT_TYPES \<Longrightarrow> \<not> is_private ev"
  by (auto simp: is_private_def EVENT_TYPES_def LEASE_EVENT_def REQUEST_EVENT_def)

lemma level_emit:
  assumes ab: "abreast i sp0"
  shows "level i (snd (emit cfg now i ev sp0))"
proof -
  let ?sp = "snd (reconcileOne cfg now False i sp0)"
  have lev: "level i ?sp" using ab by (rule level_reconcile)
  show ?thesis
  proof (cases "job_done i ?sp \<or> je_type ev \<notin> set EVENT_TYPES")
    case True
    then show ?thesis using lev by (auto simp: emit_def Let_def)
  next
    case False
    then obtain j where j: "job_at i ?sp = Some j" "\<not> ij_done j" using not_job_done by blast
    have ok: "spine_ok ?sp" "sound_disk ?sp" "abreast i ?sp" using lev level_abreast by (simp_all add: level_def)
    obtain ls where ls: "map_of (jd_files (sp_disk ?sp)) i = Some ls" "ij_events j = publicEvents (parsed_lines ls)"
      and fo: "\<And>f. map_of (sp_followers ?sp) i = Some f \<Longrightarrow> lags (length (parsed_lines ls)) f (parsed_lines ls)"
      using lev j by (cases "view i ?sp" rule: exact.cases) (auto simp: level_def dest: view_parts)
    let ?o = "ownedRecord (ev\<lparr>je_at := now\<rparr>) ?sp"
    let ?out = "fst ?o"
    let ?mid = "note_seen i ?out (append_to cfg i ?out (push_event i ?out (snd ?o)))"
    let ?new = "publish now i ?out True ?mid"
    have emit: "snd (emit cfg now i ev sp0) = ?new" using False by (simp add: emit_def Let_def case_prod_unfold)
    have ty: "je_type ?out = je_type ev" "je_record ?out \<noteq> []" by (simp_all add: ownedRecord_def Let_def)
    have ok1: "spine_ok (snd ?o)" using ok(1) by (simp add: spine_ok_def)
    have j1: "job_at i (snd ?o) = Some j" using j by simp
    have idx: "sp_index ?mid = sp_index (push_event i ?out (snd ?o))" by simp
    have disk: "sp_disk (push_event i ?out (snd ?o)) = sp_disk ?sp" "sp_disk ?mid = sp_disk (append_to cfg i ?out (push_event i ?out (snd ?o)))"
      by (simp_all add: push_event_def ownedRecord_def note_seen_def Let_def)
    have file1: "map_of (jd_files (sp_disk ?mid)) i = Some (ls @ [(Some ?out, cf_bytes cfg ?out)])"
      using ls(1) ok(2) map_of_append_to [of "push_event i ?out (snd ?o)" cfg i ?out] disk
      by (simp add: sound_disk_def file_lines_def)
    have fmid: "map_of (sp_followers ?mid) i =
        map_option (\<lambda>f. f\<lparr>fo_seen := je_record ?out # fo_seen f\<rparr>) (map_of (sp_followers ?sp) i)"
      by (simp add: note_seen_def append_to_def push_event_def ownedRecord_def Let_def row_simps)
    have "spine_ok ?new" using ok.emits [of sp0 cfg now i ev] ab emit by (simp add: abreast_def)
    moreover have "sound_disk ?new"
      using ok(2) fixed_partsD(2,3) [of ?new ?sp] by (simp add: sound_disk_def frame_simps)
    moreover have "publicEvents (parsed_lines ls @ [?out]) = ij_events j @ [?out]"
      using public_own [OF ls(2) job_ok_open [OF spine_okD [OF ok(1) j(1)] j(2)], of ?out]
        event_types_public [of ?out] False ty(1) by simp
    moreover have "lags (length (parsed_lines ls @ [?out])) f (parsed_lines ls @ [?out])"
      if f: "map_of (sp_followers ?mid) i = Some f" for f
    proof -
      obtain f0 where f0: "map_of (sp_followers ?sp) i = Some f0" "f = f0\<lparr>fo_seen := je_record ?out # fo_seen f0\<rparr>"
        using f fmid by (cases "map_of (sp_followers ?sp) i") auto
      then show ?thesis using fo [OF f0(1)] ty(2) by (auto simp: lags_def)
    qed
    ultimately show ?thesis
      unfolding emit
      using view_record [OF ok1 j1 j(2) idx, of now True] file1
      by (simp add: level_def sealed_job_events parsed_append)
  qed
qed

section \<open>Lines another writer adds\<close>

definition fresh_line :: "journal_line \<Rightarrow> job_event list \<Rightarrow> bool" where
  "fresh_line l recs =
     (case fst l of
        None \<Rightarrow> True
      | Some ev \<Rightarrow> je_type ev \<noteq> REQUEST_EVENT \<and> je_record ev \<notin> set (record_ids recs))"

lemma lags_append:
  assumes "lags k f recs" and "je_type ev \<noteq> REQUEST_EVENT" and "je_record ev \<notin> set (record_ids recs)"
  shows "lags k f (recs @ [ev])"
proof -
  have "set (record_ids (drop k recs)) \<subseteq> set (record_ids recs)"
    by (auto simp: record_ids_def dest: in_set_dropD)
  then show ?thesis using assms by (auto simp: lags_def)
qed

lemma in_line_append:
  assumes il: "in_line (Some j, fo, Some ls)" and ok: "job_ok j"
    and line: "fst l = None \<or> (\<exists>ev. fst l = Some ev \<and>
      (ij_done j \<or> (is_private ev \<and> (fo = None \<or> fresh_line l (parsed_lines ls)))
       \<or> fo \<noteq> None \<and> fresh_line l (parsed_lines ls)))"
  shows "in_line (Some j, fo, Some (ls @ [l]))"
proof (cases "fst l")
  case None
  then have recs: "parsed_lines (ls @ [l]) = parsed_lines ls" by (cases l) (simp add: parsed_append)
  show ?thesis using il unfolding in_line.simps recs .
next
  case (Some ev)
  then have recs: "parsed_lines (ls @ [l]) = parsed_lines ls @ [ev]" by (cases l) (simp add: parsed_append)
  have hidden: "is_private ev \<Longrightarrow> publicEvents (parsed_lines ls @ [ev]) = publicEvents (parsed_lines ls)"
    by (simp add: publicEvents_snoc public_push_private)
  show ?thesis
  proof (cases "ij_done j")
    case True
    then have ev_j: "ij_events j = publicEvents (parsed_lines ls)" using il by simp
    then have "sealed_stream (publicEvents (parsed_lines ls))" using ok True by (simp add: job_ok_def sealed_stream_def)
    then show ?thesis using True ev_j recs public_after_seal [of "parsed_lines ls" "[ev]"] by simp
  next
    case False
    show ?thesis
    proof (cases fo)
      case None
      then show ?thesis using False line Some il hidden recs by auto
    next
      case (Some f)
      then obtain k where k: "ij_events j = publicEvents (take k (parsed_lines ls))" "lags k f (parsed_lines ls)"
        using il False by auto
      have "fresh_line l (parsed_lines ls)" using line False Some \<open>fst l = Some ev\<close> by auto
      then have "lags k f (parsed_lines ls @ [ev])"
        using lags_append [OF k(2)] \<open>fst l = Some ev\<close> by (simp add: fresh_line_def)
      moreover have "take k (parsed_lines ls @ [ev]) = take k (parsed_lines ls)" using k(2) by (simp add: lags_def)
      ultimately have "\<exists>k. ij_events j = publicEvents (take k (parsed_lines ls @ [ev])) \<and> lags k f (parsed_lines ls @ [ev])"
        using k(1) by metis
      then show ?thesis using False Some recs by simp
    qed
  qed
qed

lemma abreast_append:
  assumes ab: "abreast i sp" and same: "sp_index sp' = sp_index sp" "sp_followers sp' = sp_followers sp"
    "fixed_parts sp' = fixed_parts sp"
    and disk: "map_of (jd_files (sp_disk sp')) i = Some (file_lines i (sp_disk sp) @ [l])"
    and line: "fst l = None \<or> (\<exists>ev. fst l = Some ev \<and> (job_done i sp
      \<or> (is_private ev \<and> (map_of (sp_followers sp) i = None \<or> fresh_line l (parsed_lines (file_lines i (sp_disk sp)))))
      \<or> map_of (sp_followers sp) i \<noteq> None \<and> fresh_line l (parsed_lines (file_lines i (sp_disk sp)))))"
  shows "abreast i sp'"
proof -
  have ok: "spine_ok sp'" "sound_disk sp'"
    using ab spine_ok_index [OF same(1)] fixed_partsD [OF same(3)] by (simp_all add: abreast_def sound_disk_def)
  show ?thesis
  proof (cases "job_at i sp")
    case None
    then show ?thesis using ok same(1) by (simp add: abreast_def view_def job_at_def)
  next
    case (Some j)
    then obtain ls where ls: "map_of (jd_files (sp_disk sp)) i = Some ls"
      using ab by (cases "map_of (jd_files (sp_disk sp)) i") (auto simp: abreast_def view_def)
    then have "in_line (Some j, map_of (sp_followers sp) i, Some (ls @ [l]))"
      using ab line Some spine_okD [of sp i j]
      by (intro in_line_append) (auto simp: abreast_def view_def file_lines_def job_done_def)
    then show ?thesis using ok same disk ls Some by (simp add: abreast_def view_def job_at_def file_lines_def)
  qed
qed

text \<open>A change of one job's other fields.\<close>

lemma abreast_upd:
  assumes ab: "abreast i sp" and "sp_index sp' = row_upd k f (sp_index sp)" and "sp_followers sp' = sp_followers sp"
    and "sp_disk sp' = sp_disk sp" and "\<And>j. ij_events (f j) = ij_events j \<and> ij_done (f j) = ij_done j"
    and "spine_ok sp'"
  shows "abreast i sp'"
proof -
  have "in_line (map_option g jo, fo, ls) = in_line (jo, fo, ls)"
    if "\<And>j. ij_events (g j) = ij_events j \<and> ij_done (g j) = ij_done j" for g jo fo ls
    using that by (cases "(jo, fo :: follower option, ls)" rule: in_line.cases) (auto split: option.splits)
  then have "in_line (map_option f (job_at k sp), fo, ls) = in_line (job_at k sp, fo, ls)" for fo ls
    using assms(5) by blast
  moreover have "job_at i sp' = (if i = k then map_option f (job_at k sp) else job_at i sp)"
    using assms(2) by (simp add: job_at_def row_simps)
  ultimately have "in_line (view i sp') = in_line (view i sp)"
    using assms(3,4) by (simp add: view_def)
  then show ?thesis using ab assms(4,6) by (simp add: abreast_def sound_disk_def)
qed

lemma evict_view:
  "job_at i (evict_jobs cap ks sp) = None \<or> view i (evict_jobs cap ks sp) = view i sp"
  "job_at i sp = None \<Longrightarrow> job_at i (evict_jobs cap ks sp) = None"
  "fixed_parts (evict_jobs cap ks sp) = fixed_parts sp"
proof (induction cap ks sp rule: evict_jobs.induct)
  case (2 cap k ks sp)
  let ?sp = "(stopFollowing k (stopHeartbeat k sp))\<lparr>sp_index := AList.delete k (sp_index sp),
      sp_disk := archive_file k (sp_disk sp)\<rparr>"
  have one: "k \<noteq> i \<Longrightarrow> view i ?sp = view i sp" "k = i \<Longrightarrow> job_at i ?sp = None"
    "job_at i sp = None \<Longrightarrow> job_at i ?sp = None" "fixed_parts ?sp = fixed_parts sp"
    by (simp_all add: view_def job_at_def stopFollowing_def stopHeartbeat_def archive_file_def fixed_parts_def
        row_simps split: option.split)
  { case 1 show ?case using 2 one by (cases "k = i") auto }
  { case 2 show ?case using "2.IH"(2) one(3) 2 by auto }
  { case 3 show ?case using "2.IH"(3) one(4) by auto }
qed simp_all

lemma gc_view:
  "job_at i (gc_jobs cfg sp) = None \<or> view i (gc_jobs cfg sp) = view i sp"
  "fixed_parts (gc_jobs cfg sp) = fixed_parts sp"
  by (simp_all add: gc_jobs_def evict_view)

lemma abreast_create:
  assumes ab: "abreast i sp" and "k \<noteq> i"
  shows "abreast i (snd (create_job cfg now k u w kd ow sp))"
proof -
  let ?h = "(event_of ''job'')\<lparr>je_at := now, je_id := k, je_uid := u, je_workspaceId := w, je_kind := kd, je_isOwner := ow\<rparr>"
  let ?o = "ownedRecord ?h sp"
  let ?put = "scheduleHeartbeat k (append_to cfg k (fst ?o) ((snd ?o)\<lparr>sp_index := AList.update k
      \<lparr>ij_uid = u, ij_workspaceId = w, ij_kind = kd, ij_isOwner = ow, ij_startedAt = now, ij_endedAt = 0,
       ij_outcome = [], ij_events = [fst ?o], ij_listeners = [], ij_done = False, ij_stopped = False,
       ij_interrupted = False\<rparr> (sp_index (snd ?o))\<rparr>))"
  let ?c = "snd (create_job cfg now k u w kd ow sp)"
  have put: "view i ?put = view i sp" "fixed_parts ?put = fixed_parts sp"
    using assms(2) by (simp_all add: scheduleHeartbeat_def frame_simps row_simps)
  have c: "?c = sp \<or> ?c = gc_jobs cfg ?put" by (simp add: create_job_def case_prod_unfold)
  then have "fixed_parts ?c = fixed_parts sp" "job_at i ?c = None \<or> view i ?c = view i sp"
    using put gc_view(1) [of i cfg ?put] gc_view(2) [of cfg ?put] by auto
  moreover have "spine_ok ?c" using ab spine_ok_create by (simp add: abreast_def)
  ultimately show ?thesis
    using ab abreast_frame [OF ab, of ?c] fixed_partsD [of ?c sp]
    by (auto simp: abreast_def sound_disk_def view_def)
qed

text \<open>
  The runs the agreement is about: the other instance writes only lines of its own, with fresh record
  numbers, while this process follows; no job of the same identifier is created; a request snapshot
  is not recorded for a job being followed; and a resumption answers only for a job no longer followed.
\<close>

definition followed :: "string \<Rightarrow> spine \<Rightarrow> bool" where
  "followed i sp = (map_of (sp_followers sp) i \<noteq> None)"

fun orderly_op :: "string \<Rightarrow> spine_op \<Rightarrow> spine \<Rightarrow> bool" where
  "orderly_op i (Line k l) sp =
     (k = i \<longrightarrow> fst l = None \<or> job_done i sp \<or> followed i sp \<and> fresh_line l (parsed_lines (file_lines i (sp_disk sp))))"
| "orderly_op i (Create now k u w kd ow) sp = (k \<noteq> i)"
| "orderly_op i (Request now k r) sp = (k = i \<longrightarrow> job_done i sp \<or> \<not> followed i sp)"
| "orderly_op i (Settle now k info raw r) sp = (k = i \<longrightarrow> job_done i sp \<or> \<not> followed i sp)"
| "orderly_op i (Retry now k raw n) sp = (k = i \<longrightarrow> job_done i sp \<or> \<not> followed i sp)"
| "orderly_op i _ sp = True"

fun orderly :: "spine_config \<Rightarrow> string \<Rightarrow> spine_op list \<Rightarrow> spine \<Rightarrow> bool" where
  "orderly cfg i [] sp = True"
| "orderly cfg i (op # ops) sp = (orderly_op i op sp \<and> orderly cfg i ops (spine_step cfg op sp))"

lemma unfollowed_level: "abreast i sp \<Longrightarrow> job_done i sp \<or> \<not> followed i sp \<Longrightarrow> level i sp"
  by (cases "view i sp" rule: exact.cases)
    (auto simp: abreast_def level_def followed_def job_done_def dest: view_parts split: if_splits)

lemma level_seals: "level i sp \<Longrightarrow> level i (snd (sealInterrupted cfg now i sp))"
proof (cases "job_done i sp")
  case True
  then show "level i sp \<Longrightarrow> ?thesis" by (simp add: sealInterrupted_def job_done_def split: option.splits)
next
  case False
  assume lev: "level i sp"
  obtain j where j: "job_at i sp = Some j" "\<not> ij_done j" using not_job_done [OF False] by blast
  then obtain ls where "map_of (jd_files (sp_disk sp)) i = Some ls" "ij_events j = publicEvents (parsed_lines ls)"
    using lev by (cases "view i sp" rule: exact.cases) (auto simp: level_def dest: view_parts)
  then show ?thesis using lev j level_seal by (simp add: level_def)
qed

lemma level_resumes: "level i sp \<Longrightarrow> level i (attemptResume cfg now i raw n sp)"
proof (cases "job_at i sp")
  case None
  then show "level i sp \<Longrightarrow> ?thesis" by (simp add: attemptResume_def)
next
  case (Some j)
  assume lev: "level i sp"
  obtain ls where "map_of (jd_files (sp_disk sp)) i = Some ls" "ij_events j = publicEvents (parsed_lines ls)"
    "\<And>f. \<not> ij_done j \<Longrightarrow> map_of (sp_followers sp) i = Some f \<Longrightarrow> lags (length (parsed_lines ls)) f (parsed_lines ls)"
    using lev Some by (cases "view i sp" rule: exact.cases) (auto simp: level_def dest: view_parts)
  then show ?thesis using lev Some level_resume by (simp add: level_def)
qed

lemma level_same:
  "level i (sp\<lparr>sp_resuming := rs\<rparr>) = level i sp" "level i (sp\<lparr>sp_retries := ts\<rparr>) = level i sp"
  by (simp_all add: level_def spine_ok_def sound_disk_def view_def)

lemma followers_small [simp]:
  "sp_followers (append_to cfg i ev sp) = sp_followers sp" "sp_followers (stopHeartbeat i sp) = sp_followers sp"
  by (simp_all add: append_to_def stopHeartbeat_def)

lemma row_upd_same: "row_upd i (\<lambda>j. j) t = t"
  by (simp add: row_upd_def)

lemma attach_index:
  "sp_index (attach_job cfg now i from l sp) =
     row_upd i (\<lambda>j. j\<lparr>ij_listeners := ij_listeners j @ [l]\<rparr>) (sp_index (snd (reconcileOne cfg now True i sp)))
   \<or> sp_index (attach_job cfg now i from l sp) =
     row_upd i (\<lambda>j. j) (sp_index (snd (reconcileOne cfg now True i sp)))"
  by (cases "job_at i (snd (reconcileOne cfg now True i sp))") (simp_all add: attach_job_def Let_def row_upd_same)

lemma abreast_attach:
  assumes "abreast i sp"
  shows "abreast i (attach_job cfg now i from l sp)"
proof -
  let ?sp = "snd (reconcileOne cfg now True i sp)"
  let ?new = "attach_job cfg now i from l sp"
  have lev: "abreast i ?sp" using assms level_abreast level_reconcile by blast
  have ok: "spine_ok ?new" using assms spine_ok_attach by (simp add: abreast_def)
  have disk: "sp_disk ?new = sp_disk ?sp" "sp_followers ?new = sp_followers ?sp"
    by (simp_all add: attach_job_def Let_def split: option.split)
  from attach_index [of cfg now i "from" l sp]
  show ?thesis
  proof
    assume "sp_index ?new = row_upd i (\<lambda>j. j\<lparr>ij_listeners := ij_listeners j @ [l]\<rparr>) (sp_index ?sp)"
    then show ?thesis by (rule abreast_upd [OF lev _ disk(2,1) _ ok]) simp
  next
    assume "sp_index ?new = row_upd i (\<lambda>j. j) (sp_index ?sp)"
    then show ?thesis by (rule abreast_upd [OF lev _ disk(2,1) _ ok]) simp
  qed
qed

lemma abreast_wait:
  assumes "abreast i sp"
  shows "abreast i (waitForAnswer cfg now i from n sp)"
proof (rule wait_step)
  show "abreast i (snd (reconcileOne cfg now True i sp))" using assms level_reconcile level_abreast by blast
next
  fix s
  assume s: "abreast i s"
  let ?s = "s\<lparr>sp_heard := sp_heard s @ [(Waiter n, None)]\<rparr>"
  have "spine_ok ?s" using s spine_ok_index [of ?s s] by (simp add: abreast_def)
  then show "abreast i ?s" by (rule abreast_frame [OF s, rotated 2]) (simp_all add: frame_simps)
qed (rule abreast_attach)

lemma abreast_stop:
  assumes "abreast i sp"
  shows "abreast i (snd (stop_job cfg now i r sp))"
proof -
  let ?sp = "snd (reconcileOne cfg now True i sp)"
  let ?marked = "?sp\<lparr>sp_index := row_upd i (\<lambda>j. j\<lparr>ij_stopped := True\<rparr>) (sp_index ?sp)\<rparr>"
  have lev: "abreast i ?sp" using assms level_abreast level_reconcile by blast
  have "abreast i ?marked"
    by (rule abreast_upd [OF lev, of _ i "\<lambda>j. j\<lparr>ij_stopped := True\<rparr>"])
      (use lev ok.marks in \<open>simp_all add: abreast_def\<close>)
  then have "abreast i (snd (emit cfg now i ev ?marked))" for ev using level_emit level_abreast by blast
  then show ?thesis using lev by (simp add: stop_job_def get_ide_job_def Let_def split: option.split)
qed

lemma file_lines_append:
  "\<not> jd_full (sp_disk sp) \<Longrightarrow>
   map_of (jd_files (sp_disk (append_to cfg i ev sp))) i = Some (file_lines i (sp_disk sp) @ [(Some ev, cf_bytes cfg ev)])"
  by (rule map_of_append_to)

lemma abreast_beat:
  assumes ab: "abreast i sp"
  shows "abreast i (heartbeat cfg now i sp)"
proof -
  let ?lease = "(event_of LEASE_EVENT)\<lparr>je_at := now, je_writer := sp_instance sp\<rparr>"
  let ?mid = "append_to cfg i ?lease (stopHeartbeat i sp)"
  have lease: "is_private ?lease" "je_record ?lease = []" "je_type ?lease \<noteq> REQUEST_EVENT"
    by (simp_all add: is_private_def event_of_def LEASE_EVENT_def REQUEST_EVENT_def)
  have full: "\<not> jd_full (sp_disk (stopHeartbeat i sp))" "file_lines i (sp_disk (stopHeartbeat i sp)) = file_lines i (sp_disk sp)"
    using ab by (simp_all add: abreast_def sound_disk_def stopHeartbeat_def)
  have "abreast i ?mid"
  proof (rule abreast_append [OF ab])
    show "map_of (jd_files (sp_disk ?mid)) i = Some (file_lines i (sp_disk sp) @ [(Some ?lease, cf_bytes cfg ?lease)])"
      using file_lines_append [OF full(1)] full(2) by simp
  qed (use lease in \<open>simp_all add: frame_simps fresh_line_def record_ids_def\<close>)
  then have "abreast i (?mid\<lparr>sp_beats := bs\<rparr>)" for bs
    by (simp add: abreast_def spine_ok_def sound_disk_def view_def job_at_def)
  moreover have "abreast i (stopHeartbeat i sp)"
    using ab by (simp add: abreast_def spine_ok_def sound_disk_def view_def stopHeartbeat_def job_at_def)
  ultimately show ?thesis
    using ab \<open>abreast i ?mid\<close> by (simp add: heartbeat_def scheduleHeartbeat_def Let_def)
qed

lemma abreast_request:
  assumes ab: "abreast i sp" and "job_done i sp \<or> \<not> followed i sp"
  shows "abreast i (recordRequest cfg now i r sp)"
proof -
  let ?ev = "(event_of REQUEST_EVENT)\<lparr>je_at := now, je_request := Some r\<rparr>"
  have ev: "is_private ?ev" by (simp add: is_private_def event_of_def)
  show ?thesis
    unfolding recordRequest_def
  proof (rule abreast_append [OF ab])
    show "map_of (jd_files (sp_disk (append_to cfg i ?ev sp))) i = Some (file_lines i (sp_disk sp) @ [(Some ?ev, cf_bytes cfg ?ev)])"
      using ab by (intro file_lines_append) (simp add: abreast_def sound_disk_def)
    show "fst (Some ?ev, cf_bytes cfg ?ev) = None \<or> (\<exists>ev. fst (Some ?ev, cf_bytes cfg ?ev) = Some ev \<and> (job_done i sp
        \<or> (is_private ev \<and> (map_of (sp_followers sp) i = None
            \<or> fresh_line (Some ?ev, cf_bytes cfg ?ev) (parsed_lines (file_lines i (sp_disk sp)))))
        \<or> map_of (sp_followers sp) i \<noteq> None
          \<and> fresh_line (Some ?ev, cf_bytes cfg ?ev) (parsed_lines (file_lines i (sp_disk sp)))))"
      using ev assms(2) by (auto simp: followed_def)
  qed (simp_all add: frame_simps)
qed

lemma abreast_line:
  assumes ab: "abreast i sp" and "orderly_op i (Line i l) sp"
  shows "abreast i (line_append i l sp)"
proof (rule abreast_append [OF ab])
  show "map_of (jd_files (sp_disk (line_append i l sp))) i = Some (file_lines i (sp_disk sp) @ [l])"
    by (simp add: line_append_def row_simps)
  show "fst l = None \<or> (\<exists>ev. fst l = Some ev \<and> (job_done i sp
      \<or> (is_private ev \<and> (map_of (sp_followers sp) i = None \<or> fresh_line l (parsed_lines (file_lines i (sp_disk sp)))))
      \<or> map_of (sp_followers sp) i \<noteq> None \<and> fresh_line l (parsed_lines (file_lines i (sp_disk sp)))))"
    using assms(2) by (cases "fst l") (auto simp: followed_def)
qed (simp_all add: line_append_def fixed_parts_def)

lemma abreast_settle:
  assumes ab: "abreast i sp" and un: "job_done i sp \<or> \<not> followed i sp"
  shows "abreast i (resume_settle cfg now i info raw r sp)"
proof -
  let ?sp = "sp\<lparr>sp_resuming := remove1 (i, info) (sp_resuming sp)\<rparr>"
  have lev: "level i ?sp" using unfollowed_level [OF ab un] by (simp add: level_same)
  have "level i (snd (emit cfg now i ev ?sp))" for ev using lev level_abreast level_emit by blast
  then have "level i (resume_settle cfg now i info raw r sp)"
    using lev level_seals [OF lev] by (simp add: resume_settle_def Let_def level_same split: resume_answer.split)
  then show ?thesis by (rule level_abreast)
qed

lemma abreast_step:
  assumes ab: "abreast i sp" and "orderly_op i op sp"
  shows "abreast i (spine_step cfg op sp)"
proof (cases "op_job op = i")
  case False
  show ?thesis
  proof (cases "is_create op")
    case True
    then obtain now u w kd ow where "op = Create now (op_job op) u w kd ow" by (cases op) auto
    then show ?thesis using abreast_create [OF ab False] by (metis spine_step.simps(8))
  next
    case noc: False
    have "fixed_parts (waitForAnswer cfg now k from n sp) = fixed_parts sp" for now k n and "from"
      by (rule wait_step [of "\<lambda>s. fixed_parts s = fixed_parts sp"]) (simp_all add: frame_simps)
    then have "fixed_parts (spine_step cfg op sp) = fixed_parts sp"
      using noc by (cases op) (simp_all add: frame_simps line_append_def fixed_parts_def [of "sp\<lparr>sp_disk := x\<rparr>" for x], simp add: fixed_parts_def)
    then show ?thesis
      using abreast_frame [OF ab view_step [OF False noc]] spine_ok_step ab by (simp add: abreast_def)
  qed
next
  case True
  show ?thesis
  proof (cases op)
    case (Emit now k ev)
    then show ?thesis using True level_emit [OF ab] level_abreast by simp
  next
    case (Tick now k)
    then show ?thesis using True level_reconcile [OF ab] level_abreast by simp
  next
    case (Detach k l)
    have "abreast i (detach_job i l sp)"
      by (rule abreast_upd [OF ab, of _ i "\<lambda>j. j\<lparr>ij_listeners := remove1 l (ij_listeners j)\<rparr>"])
        (use ab spine_ok_detach in \<open>simp_all add: detach_job_def abreast_def\<close>)
    then show ?thesis using Detach True by simp
  next
    case (Retry now k raw n)
    have "level i (sp\<lparr>sp_retries := remove1 (i, raw, n) (sp_retries sp)\<rparr>)"
      using unfollowed_level [OF ab] assms(2) Retry True by (simp add: level_same)
    then show ?thesis
      using Retry True level_abreast [OF level_resumes] by (simp add: resume_retry_def Let_def)
  qed (use assms True abreast_attach abreast_wait abreast_stop abreast_beat abreast_request abreast_line abreast_settle in auto)
qed

section \<open>Agreement with a process that reads the journal afresh\<close>

lemma abreast_load_one:
  assumes ok: "spine_ok sp" "sound_disk sp" and none: "job_at i sp = None" "map_of (sp_followers sp) i = None"
  shows "abreast i (snd (load_one cfg now i (n, sp)))"
proof (cases "readJournal i (sp_disk sp)")
  case None
  then show ?thesis using ok none by (simp add: load_one_def abreast_def view_def)
next
  case (Some sn)
  then obtain ls where ls: "map_of (jd_files (sp_disk sp)) i = Some ls" and sn: "sn_records sn = parsed_lines ls"
    by (auto simp: readJournal_def split: if_splits)
  let ?evs = "publicEvents (sn_records sn)"
  let ?j = "recovered_job ?evs"
  let ?sp1 = "(stopFollowing i sp)\<lparr>sp_index := AList.update i ?j (sp_index sp)\<rparr>"
  show ?thesis
  proof (cases "?evs = []")
    case True
    then show ?thesis using Some ok none by (simp add: load_one_def abreast_def view_def)
  next
    case False
    have ok1: "spine_ok ?sp1"
      by (rule spine_ok_put [OF ok(1) _ job_ok_recovered [OF False well_sealed_public]]) simp
    have d1: "sound_disk ?sp1" using ok(2) by (simp add: sound_disk_def stopFollowing_def)
    have at1: "job_at i ?sp1 = Some ?j" "map_of (jd_files (sp_disk ?sp1)) i = Some ls"
      "map_of (sp_followers ?sp1) i = None"
      using ls by (simp_all add: job_at_def row_simps stopFollowing_def)
    have ev: "ij_events ?j = publicEvents (parsed_lines ls)" by (simp add: recovered_job_def Let_def sn)
    have lev: "level i ?sp1" by (rule level_intro [OF ok1 d1 at1(1,2) ev]) (use at1(3) in simp)
    have fol: "level i (startFollowing now i sn g ?sp1)" for g
      by (rule level_intro [where j = ?j and ls = ls])
        (use ok1 d1 at1 ev sn in \<open>auto simp: startFollowing_def spine_ok_def sound_disk_def stopFollowing_def
          job_at_def row_simps intro!: lags_all\<close>)
    show ?thesis
      using level_abreast [OF lev] level_abreast [OF fol] level_abreast [OF level_seals [OF lev]]
        level_abreast [OF level_resumes [OF lev]] Some False
      by (simp add: load_one_def Let_def)
  qed
qed

lemma frame_load [frame_simps]:
  "fixed_parts (snd (load_one cfg now k acc)) = fixed_parts (snd acc)"
  "k \<noteq> i \<Longrightarrow> view i (snd (load_one cfg now k acc)) = view i (snd acc)"
  by (simp_all add: load_one_def Let_def case_prod_unfold startFollowing_def frame_simps row_simps split: option.split)

lemma fold_load_frame:
  "fixed_parts (snd (fold (load_one cfg now) ks acc)) = fixed_parts (snd acc)"
  "i \<notin> set ks \<Longrightarrow> view i (snd (fold (load_one cfg now) ks acc)) = view i (snd acc)"
  by (induction ks arbitrary: acc) (auto simp: frame_simps)

lemma fold_load_ok: "spine_ok (snd acc) \<Longrightarrow> spine_ok (snd (fold (load_one cfg now) ks acc))"
  by (induction ks arbitrary: acc) (simp_all add: spine_ok_load_one)

lemma abreast_booted:
  assumes "distinct (map fst (jd_files d))" and "\<not> jd_unreadable d" "\<not> jd_full d"
  shows "abreast i (booted cfg now inst d)"
proof -
  let ?n0 = "\<lparr>bc_recovered = 0, bc_interrupted = 0, bc_resuming = 0\<rparr>"
  let ?new = "new_spine inst d"
  let ?names = "map fst (jd_files d)"
  have new: "spine_ok ?new" "sound_disk ?new" "job_at i ?new = None" "map_of (sp_followers ?new) i = None"
    using spine_ok_new [of inst d] assms(2,3) by (simp_all add: sound_disk_def new_spine_def job_at_def)
  have loaded: "abreast i (snd (fold (load_one cfg now) ?names (?n0, ?new)))"
  proof (cases "i \<in> set ?names")
    case False
    let ?sp = "snd (fold (load_one cfg now) ?names (?n0, ?new))"
    have "view i ?sp = view i ?new" using fold_load_frame(2) [OF False, of cfg now "(?n0, ?new)"] by simp
    moreover have "abreast i ?new" using new by (simp add: abreast_def view_def)
    ultimately show ?thesis
      using abreast_frame [of i ?new ?sp] fold_load_frame(1) [of cfg now ?names "(?n0, ?new)"] fold_load_ok [of "(?n0, ?new)"] new
      by simp
  next
    case True
    then obtain xs ys where names: "?names = xs @ i # ys" by (meson split_list)
    then have notin: "i \<notin> set xs" "i \<notin> set ys" using assms(1) by (metis distinct_append distinct.simps(2) disjoint_iff list.set_intros(1))+
    let ?a = "fold (load_one cfg now) xs (?n0, ?new)"
    have va: "view i (snd ?a) = view i ?new" "fixed_parts (snd ?a) = fixed_parts ?new"
      using fold_load_frame(2) [OF notin(1), of cfg now "(?n0, ?new)"] fold_load_frame(1) [of cfg now xs "(?n0, ?new)"] by simp_all
    have ok_a: "spine_ok (snd ?a)" "sound_disk (snd ?a)" "job_at i (snd ?a) = None" "map_of (sp_followers (snd ?a)) i = None"
      using new va fold_load_ok [of "(?n0, ?new)" cfg now xs] fixed_partsD [OF va(2)]
      by (simp_all add: view_def sound_disk_def)
    let ?b = "load_one cfg now i (fst ?a, snd ?a)"
    have ab: "abreast i (snd ?b)" by (rule abreast_load_one [OF ok_a])
    have "abreast i (snd (fold (load_one cfg now) ys ?b))"
      by (rule abreast_frame [OF ab])
        (use ab notin(2) fold_load_frame fold_load_ok in \<open>auto simp: abreast_def\<close>)
    then show ?thesis by (simp add: names)
  qed
  let ?sp = "snd (fold (load_one cfg now) ?names (?n0, ?new))"
  have eq: "booted cfg now inst d = gc_jobs cfg ?sp"
    by (simp add: booted_def loadFromDisk_def case_prod_unfold new_spine_def)
  have "spine_ok (gc_jobs cfg ?sp)" using loaded spine_ok_gc by (simp add: abreast_def)
  then show ?thesis
    unfolding eq
    using loaded abreast_frame [OF loaded, of "gc_jobs cfg ?sp"] gc_view(1) [of i cfg ?sp] gc_view(2) [of cfg ?sp]
      fixed_partsD [OF gc_view(2) [of cfg ?sp]]
    by (auto simp: abreast_def sound_disk_def view_def)
qed

lemma abreast_run: "abreast i sp \<Longrightarrow> orderly cfg i ops sp \<Longrightarrow> abreast i (spine_run cfg ops sp)"
  by (induction ops arbitrary: sp) (auto simp: abreast_step)

text \<open>C30: A process that tails a journal agrees with one that would read it afresh.  After booting on a
  healthy disk and any orderly run (its own events, another instance's lines and torn lines, leases,
  listeners, stops, ticks of the follower, seals and resumptions, other jobs; but while it follows the other instance
  writes fresh public records only, nobody records a request snapshot or answers a resumption for the build, and
  no build is created under the same identifier), the next
  reconciliation leaves the build with exactly the events, the ending and the outcome that
  recovering its journal from scratch gives.\<close>

theorem follower_agrees_with_reload:
  assumes boot: "sp = booted cfg t0 inst d" "distinct (map fst (jd_files d))" "\<not> jd_unreadable d" "\<not> jd_full d"
    and run: "orderly cfg i ops sp"
    and now: "sp' = snd (reconcileOne cfg t True i (spine_run cfg ops sp))"
    and job: "job_at i sp' = Some j"
  shows "\<exists>sn. readJournal i (sp_disk sp') = Some sn
    \<and> ij_events j = ij_events (recovered_job (publicEvents (sn_records sn)))
    \<and> ij_done j = ij_done (recovered_job (publicEvents (sn_records sn)))
    \<and> (ij_done j \<longrightarrow> ij_outcome j = ij_outcome (recovered_job (publicEvents (sn_records sn))))"
proof -
  have "abreast i sp" unfolding boot(1) using boot(2-4) by (rule abreast_booted)
  then have lev: "level i sp'" unfolding now by (intro level_reconcile abreast_run run)
  then obtain ls where ls: "map_of (jd_files (sp_disk sp')) i = Some ls" "ij_events j = publicEvents (parsed_lines ls)"
    using job by (cases "view i sp'" rule: exact.cases) (auto simp: level_def dest: view_parts)
  have "job_ok j" using lev spine_okD [OF _ job] by (simp add: level_def)
  then show ?thesis
    using ls lev by (auto simp: readJournal_def level_def sound_disk_def recovered_job_def Let_def job_ok_def)
qed

section \<open>A lease that runs out\<close>

text \<open>The follower's timer: it fires after \<open>follower_delay\<close> until the job is no longer followed.\<close>

fun watch_loop :: "nat \<Rightarrow> spine_config \<Rightarrow> string \<Rightarrow> ms \<Rightarrow> spine \<Rightarrow> ms \<times> spine" where
  "watch_loop 0 cfg i now sp = (now, sp)"
| "watch_loop (Suc n) cfg i now sp =
     (case map_of (sp_followers sp) i of
        None \<Rightarrow> (now, sp)
      | Some f \<Rightarrow>
          let t = now + follower_delay cfg now f
          in watch_loop n cfg i t (snd (reconcileOne cfg t True i sp)))"

text \<open>Nothing has been written since the follower last looked.\<close>

definition quiet_follower :: "follower \<Rightarrow> journal_line list \<Rightarrow> bool" where
  "quiet_follower f ls = (fo_rawCursor f = length (parsed_lines ls) \<and> fo_bytes f = sum_list (map snd ls))"

lemma reconcile_quiet:
  assumes f: "map_of (sp_followers sp) i = Some f" and job: "job_at i sp = Some j" "\<not> ij_done j"
    and ls: "map_of (jd_files (sp_disk sp)) i = Some ls" "\<not> jd_unreadable (sp_disk sp)" and q: "quiet_follower f ls"
  shows "snd (reconcileOne cfg t True i sp) =
    (let sp2 = sp\<lparr>sp_followers := AList.update i (f\<lparr>fo_readFailures := 0\<rparr>) (sp_followers sp)\<rparr>
     in if fo_leaseUntil f \<le> t
        then (if cf_resume cfg then attemptResume cfg t i (parsed_lines ls) 1 sp2 else snd (sealInterrupted cfg t i sp2))
        else sp2)"
  using f job ls q
  by (cases f) (simp add: reconcileOne_def readJournal_def foreign_activity_def quiet_follower_def job_done_def Let_def)

lemma delay_bounds: "1 \<le> cf_tail cfg \<Longrightarrow> 1 \<le> follower_delay cfg now f \<and>
    now + follower_delay cfg now f \<le> max (fo_leaseUntil f) (now + 1)"
  by (auto simp: follower_delay_def)

text \<open>What an abandoned build looks like once its lease has run out at time \<open>t\<close>.\<close>

definition let_go :: "spine_config \<Rightarrow> string \<Rightarrow> ms \<Rightarrow> spine \<Rightarrow> spine \<Rightarrow> bool" where
  "let_go cfg i t sp sp' =
     (if cf_resume cfg
      then map_of (sp_followers sp') i = None \<and> job_at i sp' = job_at i sp
        \<and> (\<exists>info. sp_resuming sp' = sp_resuming sp @ [(i, info)] \<and> ri_attempt info = 1)
      else (\<exists>j. job_at i sp' = Some j \<and> ij_done j \<and> ij_interrupted j \<and> ij_outcome j = ''error'' \<and> ij_endedAt j = t))"

lemma let_go_followers: "let_go cfg i t (sp\<lparr>sp_followers := fs\<rparr>) sp' = let_go cfg i t sp sp'"
  by (simp add: let_go_def)

lemma let_go_seal:
  assumes "job_at i sp = Some j" "\<not> ij_done j" and "t \<noteq> 0" and "\<not> sp_disposed sp"
  shows "let_go cfg i t sp (let sp2 = sp\<lparr>sp_followers := fs\<rparr>
     in if cf_resume cfg then attemptResume cfg t i raw 1 sp2 else snd (sealInterrupted cfg t i sp2))"
proof (cases "cf_resume cfg")
  case True
  then show ?thesis
    using assms by (simp add: let_go_def Let_def attemptResume_def stopFollowing_def dossier_def job_at_def row_simps)
next
  case False
  let ?sp = "sp\<lparr>sp_followers := fs\<rparr>"
  let ?o = "ownedRecord (interrupted_event t) ?sp"
  let ?mid = "append_to cfg i (fst ?o) (push_event i (fst ?o) (snd ?o))"
  have mid: "job_at i ?mid = Some (j\<lparr>ij_events := ij_events j @ [fst ?o]\<rparr>)"
    using assms(1) by (simp add: job_at_push)
  have ev: "je_type (fst ?o) = ''error''" "je_at (fst ?o) = t" "je_code (fst ?o) = ''interrupted''"
    by (simp_all add: ownedRecord_def interrupted_event_def event_of_def Let_def)
  have "job_at i (publish t i (fst ?o) False ?mid) = Some (sealed_job t (fst ?o) (j\<lparr>ij_events := ij_events j @ [fst ?o]\<rparr>))"
    using mid by (simp add: job_at_def [of i "publish t i (fst ?o) False ?mid"] index_publish row_simps)
  then show ?thesis
    using False assms ev
    by (simp add: let_go_def Let_def sealInterrupted_def case_prod_unfold sealed_job_def seal_fields_def isTerminal_def TERMINAL_def)
qed

lemma watch_unfollowed: "map_of (sp_followers sp) i = None \<Longrightarrow> watch_loop n cfg i now sp = (now, sp)"
  by (cases n) simp_all

lemma unfollowed_let_go:
  assumes "job_at i sp = Some j" "\<not> ij_done j"
  shows "\<not> cf_resume cfg \<Longrightarrow> map_of (sp_followers (snd (sealInterrupted cfg t i sp))) i = None"
    and "cf_resume cfg \<Longrightarrow> \<not> sp_disposed sp \<Longrightarrow> map_of (sp_followers (attemptResume cfg t i raw n sp)) i = None"
  using assms
  by (simp_all add: sealInterrupted_def attemptResume_def ownedRecord_def interrupted_event_def event_of_def
      publish_def isTerminal_def TERMINAL_def Let_def job_at_def push_event_def append_to_def stopFollowing_def
      stopHeartbeat_def row_simps)

text \<open>C32: A build whose instance has gone quiet is let go exactly when its lease runs out: the follower's
  timer keeps it open until then, and at the first tick at or after the end of the lease (at most one
  millisecond late) seals it as interrupted, or hands it to the resumption when one is configured; as
  many ticks as there are milliseconds left on the lease, plus one, always suffice.\<close>

theorem abandoned_build_is_let_go:
  assumes f: "map_of (sp_followers sp) i = Some f" and job: "job_at i sp = Some j" "\<not> ij_done j"
    and ls: "map_of (jd_files (sp_disk sp)) i = Some ls" "\<not> jd_unreadable (sp_disk sp)" and q: "quiet_follower f ls"
    and up: "\<not> sp_disposed sp" "1 \<le> cf_tail cfg" "0 \<le> now" and fuel: "nat (fo_leaseUntil f - now) < n"
  shows "\<exists>t sp'. watch_loop n cfg i now sp = (t, sp') \<and> now < t
    \<and> fo_leaseUntil f \<le> t \<and> t \<le> max (fo_leaseUntil f) (now + 1) \<and> let_go cfg i t sp sp'"
  using f job(1) ls up(1,3) q fuel
proof (induction n arbitrary: now sp f)
  case (Suc n)
  let ?t = "now + follower_delay cfg now f"
  let ?f1 = "f\<lparr>fo_readFailures := 0\<rparr>"
  let ?sp2 = "sp\<lparr>sp_followers := AList.update i ?f1 (sp_followers sp)\<rparr>"
  note bounds = delay_bounds [OF up(2), of now f]
  note rec = reconcile_quiet [OF Suc.prems(1,2) job(2) Suc.prems(3,4,7), of cfg ?t]
  have step: "watch_loop (Suc n) cfg i now sp = watch_loop n cfg i ?t (snd (reconcileOne cfg ?t True i sp))"
    using Suc.prems(1) by (simp add: Let_def)
  show ?case
  proof (cases "fo_leaseUntil f \<le> ?t")
    case True
    let ?final = "if cf_resume cfg then attemptResume cfg ?t i (parsed_lines ls) 1 ?sp2 else snd (sealInterrupted cfg ?t i ?sp2)"
    have r: "snd (reconcileOne cfg ?t True i sp) = ?final" using rec True by (simp add: Let_def)
    have "map_of (sp_followers ?final) i = None"
      using unfollowed_let_go [of i ?sp2 j] Suc.prems(2,5) job(2) by simp
    then have "watch_loop (Suc n) cfg i now sp = (?t, ?final)" unfolding step r by (rule watch_unfollowed)
    moreover have "let_go cfg i ?t sp ?final"
      using let_go_seal [OF Suc.prems(2) job(2), of ?t cfg] Suc.prems(5,6) bounds by (simp add: Let_def)
    ultimately show ?thesis using True bounds by auto
  next
    case False
    have r: "snd (reconcileOne cfg ?t True i sp) = ?sp2" using rec False by (simp add: Let_def)
    have "\<exists>t sp'. watch_loop n cfg i ?t ?sp2 = (t, sp') \<and> ?t < t \<and> fo_leaseUntil ?f1 \<le> t
        \<and> t \<le> max (fo_leaseUntil ?f1) (?t + 1) \<and> let_go cfg i t ?sp2 sp'"
      by (rule Suc.IH) (use Suc.prems False bounds in \<open>auto simp: row_simps quiet_follower_def\<close>)
    then obtain t sp' where t: "watch_loop n cfg i ?t ?sp2 = (t, sp')" "?t < t" "fo_leaseUntil f \<le> t"
      "t \<le> max (fo_leaseUntil f) (?t + 1)" "let_go cfg i t ?sp2 sp'"
      by auto
    moreover from t(5) have "let_go cfg i t sp sp'" by (simp add: let_go_followers)
    ultimately show ?thesis unfolding step r using bounds False by auto
  qed
qed simp

lemma follower_agrees_with_reload_witness:
  "\<exists>j sn. job_at ''a'' (snd (reconcileOne demo_cfg 130 True ''a''
       (spine_run demo_cfg demo_ops (booted demo_cfg 112 ''me'' demo_disk)))) = Some j
    \<and> map je_type (ij_events j) = [''job'', ''plan'', ''move'', ''cost'', ''need_input'']
    \<and> readJournal ''a'' (sp_disk (snd (reconcileOne demo_cfg 130 True ''a''
       (spine_run demo_cfg demo_ops (booted demo_cfg 112 ''me'' demo_disk))))) = Some sn
    \<and> ij_events j = ij_events (recovered_job (publicEvents (sn_records sn)))"
proof -
  let ?sp = "snd (reconcileOne demo_cfg 130 True ''a'' (spine_run demo_cfg demo_ops (booted demo_cfg 112 ''me'' demo_disk)))"
  have "case job_at ''a'' ?sp of None \<Rightarrow> False
      | Some j \<Rightarrow> map je_type (ij_events j) = [''job'', ''plan'', ''move'', ''cost'', ''need_input'']"
    by code_simp
  then obtain j where j: "job_at ''a'' ?sp = Some j"
    and ty: "map je_type (ij_events j) = [''job'', ''plan'', ''move'', ''cost'', ''need_input'']"
    by (cases "job_at ''a'' ?sp") auto
  have "orderly demo_cfg ''a'' demo_ops (booted demo_cfg 112 ''me'' demo_disk)" by code_simp
  moreover have "distinct (map fst (jd_files demo_disk))" "\<not> jd_unreadable demo_disk" "\<not> jd_full demo_disk"
    by (simp_all add: demo_disk_def)
  ultimately obtain sn where "readJournal ''a'' (sp_disk ?sp) = Some sn"
    "ij_events j = ij_events (recovered_job (publicEvents (sn_records sn)))"
    using follower_agrees_with_reload [OF refl _ _ _ _ refl j] by blast
  with j ty show ?thesis by (intro exI conjI)
qed

text \<open>
  Two corners outside the orderly runs.  A request snapshot another instance records while this process
  follows is published: the follower filters leases only, so the private record enters the event
  stream, which no reload would show.  And a resumed build is no longer followed and keeps no lease.
\<close>

lemma followed_request_leaks:
  "case job_at ''a'' (snd (reconcileOne demo_cfg 130 True ''a''
      (spine_run demo_cfg [Line ''a'' (demo_line REQUEST_EVENT 115 [])] (booted demo_cfg 112 ''me'' demo_disk)))) of
     None \<Rightarrow> False | Some j \<Rightarrow> map je_type (ij_events j) = [''job'', ''plan'', ''_request'']"
  by code_simp

lemma resumed_build_keeps_no_lease:
  "i \<notin> set (sp_beats (attemptResume cfg now i raw n sp)) \<or> i \<in> set (sp_beats sp)"
  by (auto simp: attemptResume_def sealInterrupted_def ownedRecord_def publish_def push_event_def append_to_def
      stopFollowing_def stopHeartbeat_def Let_def split: option.split)

text \<open>The lease of the build of \<open>demo_disk\<close> ends at 160: 50 after its last line.\<close>

lemma abandoned_build_is_let_go_witness:
  "\<exists>t sp'. watch_loop 51 demo_cfg ''a'' 112 (booted demo_cfg 112 ''me'' demo_disk) = (t, sp') \<and> t = 160
     \<and> let_go demo_cfg ''a'' t (booted demo_cfg 112 ''me'' demo_disk) sp'"
proof -
  let ?sp = "booted demo_cfg 112 ''me'' demo_disk"
  have "case (map_of (sp_followers ?sp) ''a'', job_at ''a'' ?sp, map_of (jd_files (sp_disk ?sp)) ''a'') of
      (Some f, Some j, Some ls) \<Rightarrow> \<not> ij_done j \<and> quiet_follower f ls \<and> fo_leaseUntil f = 160 | _ \<Rightarrow> False"
    by code_simp
  then obtain f j ls where st: "map_of (sp_followers ?sp) ''a'' = Some f" "job_at ''a'' ?sp = Some j" "\<not> ij_done j"
    "map_of (jd_files (sp_disk ?sp)) ''a'' = Some ls" "quiet_follower f ls" and lease: "fo_leaseUntil f = 160"
    by (auto split: option.splits prod.splits)
  have up: "\<not> jd_unreadable (sp_disk ?sp)" "\<not> sp_disposed ?sp" "1 \<le> cf_tail demo_cfg" by code_simp+
  show ?thesis
    using abandoned_build_is_let_go [OF st(1-4) up(1) st(5) up(2,3), of 112 51] lease by fastforce
qed

end
