(* ===== verification/AltanaMoney.thy ===== *)
theory AltanaMoney
  imports Billing_Facts RoadmapText "HOL-Library.Multiset"
begin

text \<open>
  The two money verbs of the Altana assistant: the parsing of a typed amount, the five digit code, the
  confirmation request and the decision on the typed answer (\<open>altana-money.mjs\<close>), the single-use
  confirmation rows and purchase rows of her store (\<open>altana.mjs\<close>), and the handler that charges
  (\<open>handleAltanaTyped\<close> and the issuing loop in \<open>server.mjs\<close>) over the credit ledger of \<open>Billing\<close>.

  SHA-256 is a parameter: \<open>hash\<close> gives the first 40 bits of the digest of a text.  The card processor
  answers a request later, so a charge is two steps: the request leaves (\<open>typed_begin\<close>), the answer
  comes back (\<open>typed_finish\<close>), and anything may happen in between.  Sentences that are only shown are
  left out, except the refusals of an amount.
\<close>

unbundle bit_operations_syntax

section \<open>What a human typed\<close>

definition MIN_PURCHASE_USD :: rat where "MIN_PURCHASE_USD = 25 / 2"
definition MAX_PURCHASE_USD :: rat where "MAX_PURCHASE_USD = 200"
definition CONFIRM_TTL_MS :: ms where "CONFIRM_TTL_MS = 15 * 60 * 1000"

definition strip_dollar :: "string \<Rightarrow> string" where
  "strip_dollar s = (case s of [] \<Rightarrow> [] | c # r \<Rightarrow> if c = CHR ''$'' then r else s)"

definition UNIT_WORDS :: "string list" where
  "UNIT_WORDS = [''usd'', ''dollars'', ''dollar'', ''bucks'', ''buck'']"

definition ends_with :: "string \<Rightarrow> string \<Rightarrow> bool" where
  "ends_with w s = (length w \<le> length s \<and> drop (length s - length w) s = w)"

definition strip_unit :: "string \<Rightarrow> string" where
  "strip_unit s =
     (let b = (if s \<noteq> [] \<and> last s = CHR ''.'' then butlast s else s)
      in case find (\<lambda>w. ends_with w (lowercase b)) UNIT_WORDS of
           Some w \<Rightarrow> take (length b - length w) b
         | None \<Rightarrow> s)"

text \<open>A comma goes when exactly a group of three digits and a word boundary follow.\<close>

fun thousands :: "string \<Rightarrow> bool" where
  "thousands (a # b # c # r) = (is_digit a \<and> is_digit b \<and> is_digit c \<and> (r = [] \<or> \<not> is_word_char (hd r)))"
| "thousands _ = False"

fun drop_commas :: "string \<Rightarrow> string" where
  "drop_commas [] = []"
| "drop_commas (c # cs) = (if c = CHR '','' \<and> thousands cs then drop_commas cs else c # drop_commas cs)"

definition clean_amount :: "string \<Rightarrow> string" where
  "clean_amount text = js_trim (drop_commas (strip_unit (strip_dollar text)))"

text \<open>\<open>\d+(\.\d{1,2})?\<close>: the whole part and the cents.\<close>

definition amount_shape :: "string \<Rightarrow> (string \<times> string) option" where
  "amount_shape s =
     (let ip = takeWhile is_digit s
      in if ip = [] then None
         else case dropWhile is_digit s of
                [] \<Rightarrow> Some (ip, [])
              | c # f \<Rightarrow>
                  if c = CHR ''.'' \<and> f \<noteq> [] \<and> length f \<le> 2 \<and> list_all is_digit f then Some (ip, f) else None)"

definition amount_value :: "string \<Rightarrow> string \<Rightarrow> rat" where
  "amount_value ip f = of_nat (nat_of_digits ip) + of_nat (nat_of_digits f) / 10 ^ length f"

fun three_places :: "string \<Rightarrow> bool" where
  "three_places [] = False"
| "three_places (c # cs) =
     (c = CHR ''.'' \<and> 3 \<le> length cs \<and> list_all is_digit (take 3 cs) \<or> three_places cs)"

datatype typed_amount =
  NotAmount string
| BelowFloor rat
| AboveCeiling rat
| AmountUsd rat

text \<open>The en dash of the range test is not an ASCII character; the word "to" has letters, so the test
  for words has already caught it.\<close>

definition parseTypedAmount :: "string \<Rightarrow> typed_amount" where
  "parseTypedAmount raw =
     (let text = js_trim raw
      in if text = [] then NotAmount ''I did not catch an amount there. Type it as a number, like 25.''
         else
           let cleaned = clean_amount text
           in case amount_shape cleaned of
                None \<Rightarrow>
                  if list_ex is_letter cleaned
                  then NotAmount ''Type the amount as digits rather than words, like 25 or 12.50.''
                  else if list_ex (\<lambda>c. c \<in> set ''-:/'') cleaned
                  then NotAmount ''That looks like a range. Type the single amount you want to add.''
                  else if three_places cleaned
                  then NotAmount ''Amounts go to cents, so two places after the point at most, like 12.50.''
                  else NotAmount ''I could not read that as an amount. Type it as a number, like 25.''
              | Some (ip, f) \<Rightarrow>
                  let usd = amount_value ip f
                  in if usd \<le> 0
                     then NotAmount ''The amount needs to be more than nothing. Type it as a number, like 25.''
                     else if usd < MIN_PURCHASE_USD then BelowFloor usd
                     else if MAX_PURCHASE_USD < usd then AboveCeiling usd
                     else AmountUsd (of_int (js_round (usd * 100)) / 100))"

definition typed_credits :: "rat \<Rightarrow> rat \<Rightarrow> jsnum \<Rightarrow> int" where
  "typed_credits creditsPerUsd markup usd = js_round (or_zero usd / markup * creditsPerUsd)"

section \<open>The five digit code\<close>

definition json_char :: "char \<Rightarrow> string" where
  "json_char c =
     (let n = (of_char c :: nat); hex = (\<lambda>d. if d < 10 then digit_char d else char_of (87 + d))
      in if n = 34 \<or> n = 92 then [CHR 0x5C, c]
         else if n = 8 then [CHR 0x5C, CHR ''b''] else if n = 9 then [CHR 0x5C, CHR ''t'']
         else if n = 10 then [CHR 0x5C, CHR ''n''] else if n = 12 then [CHR 0x5C, CHR ''f'']
         else if n = 13 then [CHR 0x5C, CHR ''r'']
         else if n < 32 then [CHR 0x5C, CHR ''u'', CHR ''0'', CHR ''0'', hex (n div 16), hex (n mod 16)]
         else [c])"

definition json_str :: "string \<Rightarrow> string" where
  "json_str s = [CHR 0x22] @ concat (map json_char s) @ [CHR 0x22]"

definition code_canon :: "string \<Rightarrow> string \<Rightarrow> bool \<Rightarrow> string \<Rightarrow> string" where
  "code_canon nonce tool on uid =
     ''['' @ json_str tool @ '',{'' @ json_str ''on'' @ '':'' @ (if on then ''true'' else ''false'') @ ''},''
       @ json_str uid @ '','' @ json_str nonce @ '']''"

definition pad5 :: "string \<Rightarrow> string" where
  "pad5 s = replicate (5 - length s) (CHR ''0'') @ s"

definition typedConfirmCode :: "(string \<Rightarrow> nat) \<Rightarrow> string \<Rightarrow> string \<Rightarrow> bool \<Rightarrow> string \<Rightarrow> string" where
  "typedConfirmCode hash nonce tool on uid = pad5 (show_nat (hash (code_canon nonce tool on uid) mod 100000))"

definition codeMatches :: "string \<Rightarrow> string \<Rightarrow> bool" where
  "codeMatches typed expected =
     (let a = filter is_digit typed; b = filter is_digit expected
      in if a = [] \<or> b = [] \<or> length a \<noteq> length b then False
         else foldl (\<lambda>diff (x, y). diff OR ((of_char x :: int) XOR of_char y)) 0 (zip a b) = 0)"

section \<open>The tools\<close>

text \<open>\<open>mt_schema\<close>: the declared properties, and whether \<open>additionalProperties\<close> is \<open>false\<close>.\<close>

record money_tool =
  mt_name :: string
  mt_write :: bool
  mt_typedConfirm :: string
  mt_zone :: string
  mt_schema :: "(string list \<times> bool) option"

definition buyCreditsTool :: money_tool where
  "buyCreditsTool =
     \<lparr>mt_name = ''buy_credits'', mt_write = True, mt_typedConfirm = ''amount'', mt_zone = ''billing'',
      mt_schema = Some ([], True)\<rparr>"

definition setTopOffTool :: money_tool where
  "setTopOffTool =
     \<lparr>mt_name = ''set_top_off'', mt_write = True, mt_typedConfirm = ''code'', mt_zone = ''billing'',
      mt_schema = Some ([''on''], True)\<rparr>"

definition readMoneyTool :: money_tool where
  "readMoneyTool =
     \<lparr>mt_name = ''read_money_state'', mt_write = False, mt_typedConfirm = ''none'', mt_zone = ''budgets'',
      mt_schema = Some ([], True)\<rparr>"

definition MONEY_TOOLS :: "money_tool list" where
  "MONEY_TOOLS = [readMoneyTool, buyCreditsTool, setTopOffTool]"

definition AMOUNT_WORDS :: "string list" where
  "AMOUNT_WORDS =
     [''usd'', ''amount'', ''value'', ''total'', ''sum'', ''price'', ''cost'', ''credit'', ''credits'', ''cents'',
      ''dollar'', ''dollars'', ''qty'', ''quantity'', ''topup'', ''top_up'', ''topoff'', ''top_off'']"

definition amount_shaped :: "string \<Rightarrow> bool" where
  "amount_shaped p = (lowercase p \<in> set AMOUNT_WORDS)"

datatype tool_problem =
  NoTypedConfirm string
| BuyTakesArguments "string list"
| AmountArgument string string
| OpenSchema string

definition tool_problems :: "money_tool \<Rightarrow> tool_problem list" where
  "tool_problems t =
     (let props = (case mt_schema t of Some (ps, strict) \<Rightarrow> ps | None \<Rightarrow> [])
      in (if mt_typedConfirm t = [] then [NoTypedConfirm (mt_name t)] else [])
         @ (if mt_name t = ''buy_credits'' \<and> props \<noteq> [] then [BuyTakesArguments props] else [])
         @ map (AmountArgument (mt_name t)) (filter amount_shaped props)
         @ (case mt_schema t of Some (ps, False) \<Rightarrow> [OpenSchema (mt_name t)] | _ \<Rightarrow> []))"

definition assertMoneyToolsSafe :: "money_tool list \<Rightarrow> tool_problem list + unit" where
  "assertMoneyToolsSafe tools =
     (let problems = concat (map tool_problems tools) in if problems \<noteq> [] then Inl problems else Inr ())"

section \<open>Confirmation requests\<close>

text \<open>The model's argument \<open>on\<close>, as it arrived: no schema check has run on it.\<close>

datatype on_arg = OnBool bool | OnText string | OnMissing

fun asked_on :: "on_arg \<Rightarrow> bool" where
  "asked_on (OnBool b) = b"
| "asked_on (OnText s) = (lowercase s = ''true'')"
| "asked_on OnMissing = False"

fun stored_on :: "on_arg \<Rightarrow> bool" where
  "stored_on (OnBool b) = b"
| "stored_on _ = False"

record confirm_request =
  tq_kind :: string
  tq_tool :: string
  tq_nonce :: string
  tq_code :: string
  tq_prompt :: string

definition PROMPT_AMOUNT :: string where
  "PROMPT_AMOUNT = ''Please type the amount of credits you would like to purchase.''"
definition PROMPT_ON :: string where
  "PROMPT_ON = ''Type the number above to switch automatic top-off on.''"
definition PROMPT_OFF :: string where
  "PROMPT_OFF = ''Type the number above to switch automatic top-off off.''"

definition confirmRequestFor ::
  "(string \<Rightarrow> nat) \<Rightarrow> string \<Rightarrow> on_arg \<Rightarrow> string \<Rightarrow> string \<Rightarrow> confirm_request option" where
  "confirmRequestFor hash tool arg uid nonce =
     (if tool = ''buy_credits''
      then Some \<lparr>tq_kind = ''amount'', tq_tool = tool, tq_nonce = nonce, tq_code = [], tq_prompt = PROMPT_AMOUNT\<rparr>
      else if tool = ''set_top_off''
      then Some \<lparr>tq_kind = ''code'', tq_tool = tool, tq_nonce = nonce,
                 tq_code = typedConfirmCode hash nonce tool (asked_on arg) uid,
                 tq_prompt = (if asked_on arg then PROMPT_ON else PROMPT_OFF)\<rparr>
      else None)"

section \<open>Deciding on the typed answer\<close>

record confirm_row =
  pc_uid :: string
  pc_tool :: string
  pc_kind :: string
  pc_on :: on_arg
  pc_expectedCode :: string
  pc_createdAt :: ms
  pc_spentAt :: "ms option"

datatype typed_verdict =
  VUnknown
| VAlready
| VExpired
| VWrongAccount
| VBadAmount typed_amount
| VCharge rat int
| VCheckout rat int
| VBadCode
| VToggle bool
| VUnknownKind

definition is_spent :: "confirm_row \<Rightarrow> bool" where
  "is_spent p = (case pc_spentAt p of None \<Rightarrow> False | Some t \<Rightarrow> t \<noteq> 0)"

definition decideTypedAnswer ::
  "confirm_row option \<Rightarrow> string \<Rightarrow> string \<Rightarrow> account_view option \<Rightarrow> ms \<Rightarrow> typed_verdict" where
  "decideTypedAnswer pending typed uid account now =
     (case pending of
        None \<Rightarrow> VUnknown
      | Some p \<Rightarrow>
          if is_spent p then VAlready
          else if pc_createdAt p + CONFIRM_TTL_MS < now then VExpired
          else if pc_uid p \<noteq> uid then VWrongAccount
          else if pc_kind p = ''amount''
          then (case parseTypedAmount typed of
                  AmountUsd usd \<Rightarrow>
                    (if (case account of Some a \<Rightarrow> av_hasCard a | None \<Rightarrow> False)
                     then VCharge usd (typed_credits 100 (5 / 4) (Some usd))
                     else VCheckout usd (typed_credits 100 (5 / 4) (Some usd)))
                | bad \<Rightarrow> VBadAmount bad)
          else if pc_kind p = ''code''
          then (if codeMatches typed (pc_expectedCode p) then VToggle (stored_on (pc_on p)) else VBadCode)
          else VUnknownKind)"

section \<open>The store and the handler\<close>

record purchase_row =
  pu_uid :: string
  pu_email :: string
  pu_usd :: rat
  pu_credits :: int
  pu_status :: string

text \<open>A request to the card processor.  The account view the handler reads for the customer and the
  card has no such fields, so a charge leaves with neither.\<close>

datatype call_kind = SavedCard | Checkout

record card_call =
  cc_nonce :: string
  cc_kind :: call_kind
  cc_email :: string
  cc_usd :: rat
  cc_customer :: "string option"
  cc_pm :: "string option"

record money_desk =
  md_confirms :: "(string \<times> confirm_row) list"
  md_purchases :: "(string \<times> purchase_row) list"
  md_billing :: billing
  md_calls :: "card_call list"
  md_flights :: "card_call list"

record money_caller =
  mc_uid :: string
  mc_email :: string
  mc_role :: string
  mc_isOwner :: bool

definition new_desk :: "billing \<Rightarrow> money_desk" where
  "new_desk b = \<lparr>md_confirms = [], md_purchases = [], md_billing = b, md_calls = [], md_flights = []\<rparr>"

text \<open>\<open>billing.account\<close> for a credit account; it creates the row it reads.\<close>

definition caller_account :: "ms \<Rightarrow> money_caller \<Rightarrow> billing \<Rightarrow> account_view option \<times> billing" where
  "caller_account t u b =
     (if \<not> mc_isOwner u \<and> mc_role u = ''credit'' \<and> mc_email u \<noteq> [] then account_of t (mc_email u) b
      else (None, b))"

text \<open>An \<open>INSERT\<close> of a nonce that is there throws.\<close>

definition putConfirm :: "string \<Rightarrow> confirm_row \<Rightarrow> money_desk \<Rightarrow> money_desk option" where
  "putConfirm nonce row d =
     (if map_of (md_confirms d) nonce \<noteq> None then None
      else Some (d\<lparr>md_confirms := AList.update nonce row (md_confirms d)\<rparr>))"

definition getConfirm :: "string \<Rightarrow> string \<Rightarrow> money_desk \<Rightarrow> confirm_row option" where
  "getConfirm nonce uid d =
     (case map_of (md_confirms d) nonce of
        Some p \<Rightarrow> if pc_uid p = uid then Some p else None | None \<Rightarrow> None)"

definition spendConfirm :: "string \<Rightarrow> ms \<Rightarrow> money_desk \<Rightarrow> bool \<times> money_desk" where
  "spendConfirm nonce t d =
     (case map_of (md_confirms d) nonce of
        None \<Rightarrow> (False, d)
      | Some p \<Rightarrow>
          if pc_spentAt p \<noteq> None then (False, d)
          else (True, d\<lparr>md_confirms := row_upd nonce (\<lambda>p. p\<lparr>pc_spentAt := Some t\<rparr>) (md_confirms d)\<rparr>))"

definition sweepConfirms :: "ms \<Rightarrow> money_desk \<Rightarrow> money_desk" where
  "sweepConfirms before d = d\<lparr>md_confirms := rows_where (\<lambda>_ p. \<not> pc_createdAt p < before) (md_confirms d)\<rparr>"

definition beginPurchase :: "string \<Rightarrow> purchase_row \<Rightarrow> money_desk \<Rightarrow> bool \<times> money_desk" where
  "beginPurchase nonce row d =
     (if map_of (md_purchases d) nonce \<noteq> None then (False, d)
      else (True, d\<lparr>md_purchases := AList.update nonce row (md_purchases d)\<rparr>))"

definition settlePurchase :: "string \<Rightarrow> string \<Rightarrow> money_desk \<Rightarrow> money_desk" where
  "settlePurchase nonce status d =
     d\<lparr>md_purchases := row_upd nonce (\<lambda>p. p\<lparr>pu_status := status\<rparr>) (md_purchases d)\<rparr>"

text \<open>Putting the question on the screen.\<close>

definition issue_confirm ::
  "(string \<Rightarrow> nat) \<Rightarrow> ms \<Rightarrow> money_caller \<Rightarrow> string \<Rightarrow> on_arg \<Rightarrow> string \<Rightarrow> money_desk
     \<Rightarrow> confirm_request option \<times> money_desk" where
  "issue_confirm hash t u tool arg nonce d =
     (let d1 = d\<lparr>md_billing := snd (caller_account t u (md_billing d))\<rparr>
      in case confirmRequestFor hash tool arg (mc_uid u) nonce of
           None \<Rightarrow> (None, d1)
         | Some rq \<Rightarrow>
             if tool \<noteq> ''read_money_state'' \<and> \<not> mc_isOwner u \<and> mc_role u \<noteq> ''credit'' then (None, d1)
             else
               case putConfirm nonce
                      \<lparr>pc_uid = mc_uid u, pc_tool = tool, pc_kind = tq_kind rq, pc_on = arg,
                       pc_expectedCode = tq_code rq, pc_createdAt = t, pc_spentAt = None\<rparr> d1 of
                 None \<Rightarrow> (None, d1)
               | Some d2 \<Rightarrow> (Some rq, d2))"

datatype typed_reply =
  Refused typed_verdict
| AlreadyDone
| NothingToSwitch
| Switched bool
| CardCalled card_call

definition is_ok_verdict :: "typed_verdict \<Rightarrow> bool" where
  "is_ok_verdict v = (case v of VCharge _ _ \<Rightarrow> True | VCheckout _ _ \<Rightarrow> True | VToggle _ \<Rightarrow> True | _ \<Rightarrow> False)"

definition purchase_begin ::
  "ms \<Rightarrow> money_caller \<Rightarrow> string \<Rightarrow> call_kind \<Rightarrow> rat \<Rightarrow> int \<Rightarrow> money_desk \<Rightarrow> typed_reply \<times> money_desk" where
  "purchase_begin t u nonce kind usd credits d =
     (case beginPurchase nonce
             \<lparr>pu_uid = mc_uid u, pu_email = mc_email u, pu_usd = usd, pu_credits = credits,
              pu_status = ''pending''\<rparr> d of
        (False, d1) \<Rightarrow> (AlreadyDone, d1)
      | (True, d1) \<Rightarrow>
          let d2 = (if kind = SavedCard then d1\<lparr>md_billing := snd (account_of t (mc_email u) (md_billing d1))\<rparr>
                    else d1);
              call = \<lparr>cc_nonce = nonce, cc_kind = kind, cc_email = mc_email u, cc_usd = usd,
                      cc_customer = None, cc_pm = None\<rparr>
          in (CardCalled call, d2\<lparr>md_calls := md_calls d2 @ [call], md_flights := md_flights d2 @ [call]\<rparr>))"

definition switch_top_off ::
  "ms \<Rightarrow> money_caller \<Rightarrow> bool \<Rightarrow> account_view option \<Rightarrow> money_desk \<Rightarrow> typed_reply \<times> money_desk" where
  "switch_top_off t u on account d =
     (if mc_email u = [] \<or> mc_role u \<noteq> ''credit'' then (NothingToSwitch, d)
      else
        let b1 = snd (setAutorecharge t (mc_email u) on (map_option av_topupUsd account) (md_billing d));
            (acct, b2) = account_of t (mc_email u) b1
        in (Switched (case acct of Some a \<Rightarrow> av_autorecharge a | None \<Rightarrow> False), d\<lparr>md_billing := b2\<rparr>))"

definition typed_begin ::
  "ms \<Rightarrow> money_caller \<Rightarrow> string \<Rightarrow> string \<Rightarrow> money_desk \<Rightarrow> typed_reply \<times> money_desk" where
  "typed_begin t u nonce typed d =
     (let pending = getConfirm nonce (mc_uid u) d;
          (account, b) = caller_account t u (md_billing d);
          d1 = d\<lparr>md_billing := b\<rparr>;
          v = decideTypedAnswer pending typed (mc_uid u) account t
      in if \<not> is_ok_verdict v then (Refused v, d1)
         else case spendConfirm nonce t d1 of
                (False, d2) \<Rightarrow> (AlreadyDone, d2)
              | (True, d2) \<Rightarrow>
                  (case v of
                     VToggle on \<Rightarrow> switch_top_off t u on account d2
                   | VCharge usd credits \<Rightarrow> purchase_begin t u nonce SavedCard usd credits d2
                   | VCheckout usd credits \<Rightarrow> purchase_begin t u nonce Checkout usd credits d2
                   | _ \<Rightarrow> (Refused v, d2)))"

text \<open>The processor's answer; a credit that throws (no account) is reported as a failure.\<close>

datatype card_answer = CardOk | CardFailed

definition ALTANA_TOPUP :: reason where "ALTANA_TOPUP = Reason ''altana top-up''"

definition typed_finish :: "ms \<Rightarrow> card_call \<Rightarrow> card_answer \<Rightarrow> money_desk \<Rightarrow> money_desk" where
  "typed_finish t call ans d =
     (if call \<notin> set (md_flights d) then d
      else
        let d1 = d\<lparr>md_flights := remove1 call (md_flights d)\<rparr>
        in case (cc_kind call, ans) of
             (SavedCard, CardOk) \<Rightarrow>
               (case grantUsd t (cc_email call) (cc_usd call) ALTANA_TOPUP (md_billing d1) of
                  (Some bal, b) \<Rightarrow> settlePurchase (cc_nonce call) ''charged'' (d1\<lparr>md_billing := b\<rparr>)
                | (None, b) \<Rightarrow> settlePurchase (cc_nonce call) ''failed'' (d1\<lparr>md_billing := b\<rparr>))
           | (Checkout, CardOk) \<Rightarrow> settlePurchase (cc_nonce call) ''checkout'' d1
           | (_, CardFailed) \<Rightarrow> settlePurchase (cc_nonce call) ''failed'' d1)"

section \<open>Runs\<close>

text \<open>\<open>Elsewhere\<close> is anything another part of the server does to the billing database meanwhile.\<close>

datatype desk_op =
  Issue ms money_caller string on_arg string
| Typed ms money_caller string string
| Answer ms card_call card_answer
| Sweep ms
| Elsewhere "billing \<Rightarrow> billing"

fun desk_step :: "(string \<Rightarrow> nat) \<Rightarrow> money_desk \<Rightarrow> desk_op \<Rightarrow> money_desk" where
  "desk_step hash d (Issue t u tool arg nonce) = snd (issue_confirm hash t u tool arg nonce d)"
| "desk_step hash d (Typed t u nonce typed) = snd (typed_begin t u nonce typed d)"
| "desk_step hash d (Answer t call ans) = typed_finish t call ans d"
| "desk_step hash d (Sweep before) = sweepConfirms before d"
| "desk_step hash d (Elsewhere f) = d\<lparr>md_billing := f (md_billing d)\<rparr>"

definition run_desk :: "(string \<Rightarrow> nat) \<Rightarrow> desk_op list \<Rightarrow> money_desk \<Rightarrow> money_desk" where
  "run_desk hash ops d = foldl (desk_step hash) d ops"

text \<open>The credits a purchase through the assistant added, as the ledger shows them.\<close>

definition altana_lines :: "billing \<Rightarrow> ledger_row list" where
  "altana_lines b = filter (\<lambda>l. lg_reason l = ALTANA_TOPUP) (bl_ledger b)"

definition line_credit :: "ledger_row \<Rightarrow> string \<times> rat" where
  "line_credit l = (lg_email l, lg_delta l)"

definition call_credit :: "card_call \<Rightarrow> string \<times> rat" where
  "call_credit c = (lc (cc_email c), of_int (creditsForUsd (Some (cc_usd c))))"

definition saved_credits :: "card_call list \<Rightarrow> (string \<times> rat) multiset" where
  "saved_credits cs = image_mset call_credit (mset (filter (\<lambda>c. cc_kind c = SavedCard) cs))"

text \<open>What stands behind a confirmation row, and behind a request to the card processor.\<close>

definition asked_in :: "desk_op list \<Rightarrow> string \<Rightarrow> confirm_row \<Rightarrow> bool" where
  "asked_in ops n p =
     (\<exists>u arg. Issue (pc_createdAt p) u (pc_tool p) arg n \<in> set ops \<and> mc_uid u = pc_uid p
        \<and> (pc_kind p = ''amount'' \<longrightarrow> pc_tool p = ''buy_credits'')
        \<and> (mc_isOwner u \<or> mc_role u = ''credit''))"

definition typed_in :: "desk_op list \<Rightarrow> card_call \<Rightarrow> bool" where
  "typed_in ops c =
     (\<exists>t u typed. Typed t u (cc_nonce c) typed \<in> set ops \<and> cc_email c = mc_email u
        \<and> parseTypedAmount typed = AmountUsd (cc_usd c)
        \<and> (\<exists>t0 u0 arg. Issue t0 u0 ''buy_credits'' arg (cc_nonce c) \<in> set ops \<and> mc_uid u0 = mc_uid u
             \<and> t \<le> t0 + CONFIRM_TTL_MS \<and> (mc_isOwner u0 \<or> mc_role u0 = ''credit'')))"

section \<open>What each operation does to the desk\<close>

lemma asked_in_mono: "asked_in ops n p \<Longrightarrow> asked_in (ops @ more_ops) n p"
  unfolding asked_in_def set_append by blast

lemma typed_in_mono: "typed_in ops c \<Longrightarrow> typed_in (ops @ more_ops) c"
  unfolding typed_in_def set_append by blast

lemma altana_lines_ensure [simp]: "altana_lines (snd (ensure_account t e b)) = altana_lines b"
  by (simp add: altana_lines_def)

lemma altana_lines_account [simp]: "altana_lines (snd (account_of t e b)) = altana_lines b"
  by (simp add: account_of_def case_prod_unfold Let_def)

lemma altana_lines_caller [simp]: "altana_lines (snd (caller_account t u b)) = altana_lines b"
  by (simp add: caller_account_def)

lemma altana_lines_auto [simp]: "altana_lines (snd (setAutorecharge t e on x b)) = altana_lines b"
  by (simp add: setAutorecharge_def Let_def set_recharge_def altana_lines_def)

end
