(* ===== verification/AltanaMoney_Props.thy ===== *)
theory AltanaMoney_Props
  imports AltanaMoney
begin

text \<open>
  What the typed confirmations guarantee: money moves at most once per confirmation, only in an amount
  its owner typed, and what the ledger shows was requested that way.
\<close>

section \<open>Frames\<close>

lemma caller_account_frame:
  "md_confirms (d\<lparr>md_billing := b\<rparr>) = md_confirms d" "md_calls (d\<lparr>md_billing := b\<rparr>) = md_calls d"
  by simp_all

lemma spendConfirm_rows:
  assumes "spendConfirm n t d = (done_it, d')"
  shows "md_purchases d' = md_purchases d \<and> md_calls d' = md_calls d \<and> md_flights d' = md_flights d
    \<and> md_billing d' = md_billing d
    \<and> (\<forall>k p'. (k, p') \<in> set (md_confirms d') \<longrightarrow>
          (\<exists>p. (k, p) \<in> set (md_confirms d) \<and> pc_uid p' = pc_uid p \<and> pc_tool p' = pc_tool p
             \<and> pc_kind p' = pc_kind p \<and> pc_createdAt p' = pc_createdAt p))"
  using assms by (fastforce simp: spendConfirm_def row_upd_def split: option.splits if_splits)

lemma switch_top_off_desk:
  "switch_top_off t u on a d = (r, d') \<Longrightarrow>
     md_purchases d' = md_purchases d \<and> md_calls d' = md_calls d \<and> md_flights d' = md_flights d
     \<and> md_confirms d' = md_confirms d \<and> altana_lines (md_billing d') = altana_lines (md_billing d)"
  by (auto simp: switch_top_off_def Let_def case_prod_unfold split: if_splits)

lemma purchase_begin_desk:
  assumes "purchase_begin t u n kind usd cr d = (r, d')"
  shows "md_confirms d' = md_confirms d \<and> altana_lines (md_billing d') = altana_lines (md_billing d)
    \<and> (if map_of (md_purchases d) n = None
       then \<exists>row. md_purchases d' = AList.update n row (md_purchases d) \<and>
         (\<exists>c. md_calls d' = md_calls d @ [c] \<and> md_flights d' = md_flights d @ [c] \<and> cc_nonce c = n
            \<and> cc_kind c = kind \<and> cc_email c = mc_email u \<and> cc_usd c = usd)
       else d' = d)"
  using assms
  by (auto simp: purchase_begin_def beginPurchase_def Let_def split: if_splits)

lemma decide_amount:
  assumes "decideTypedAnswer pending typed uid a t = v" and "v = VCharge usd cr \<or> v = VCheckout usd cr"
  shows "\<exists>p. pending = Some p \<and> pc_kind p = ''amount'' \<and> pc_uid p = uid
    \<and> t \<le> pc_createdAt p + CONFIRM_TTL_MS \<and> parseTypedAmount typed = AmountUsd usd"
  using assms
  by (auto simp: decideTypedAnswer_def split: option.splits if_splits typed_amount.splits)

lemma getConfirm_row: "getConfirm n uid d = Some p \<longleftrightarrow> map_of (md_confirms d) n = Some p \<and> pc_uid p = uid"
  by (auto simp: getConfirm_def split: option.splits)

text \<open>An answered confirmation either leaves the requests alone or adds exactly one, for a nonce that
  never bought anything, in the amount that was typed.\<close>

definition desk_frame :: "money_desk \<Rightarrow> money_desk \<Rightarrow> bool" where
  "desk_frame d d' = (altana_lines (md_billing d') = altana_lines (md_billing d)
     \<and> (\<forall>k p'. (k, p') \<in> set (md_confirms d') \<longrightarrow>
          (\<exists>p. (k, p) \<in> set (md_confirms d) \<and> pc_uid p' = pc_uid p \<and> pc_tool p' = pc_tool p
             \<and> pc_kind p' = pc_kind p \<and> pc_createdAt p' = pc_createdAt p)))"

definition adds_call :: "money_caller \<Rightarrow> ms \<Rightarrow> string \<Rightarrow> string \<Rightarrow> money_desk \<Rightarrow> money_desk \<Rightarrow> card_call \<Rightarrow> bool" where
  "adds_call u t n typed d d' c =
     (map_of (md_purchases d) n = None \<and> (\<exists>row. md_purchases d' = AList.update n row (md_purchases d))
      \<and> md_calls d' = md_calls d @ [c] \<and> md_flights d' = md_flights d @ [c] \<and> cc_nonce c = n
      \<and> cc_email c = mc_email u \<and> parseTypedAmount typed = AmountUsd (cc_usd c)
      \<and> (\<exists>p. (n, p) \<in> set (md_confirms d) \<and> pc_uid p = mc_uid u \<and> pc_kind p = ''amount''
           \<and> t \<le> pc_createdAt p + CONFIRM_TTL_MS))"

definition same_calls :: "money_desk \<Rightarrow> money_desk \<Rightarrow> bool" where
  "same_calls d d' = (md_purchases d' = md_purchases d \<and> md_calls d' = md_calls d \<and> md_flights d' = md_flights d)"

lemma typed_begin_desk:
  assumes "typed_begin t u n typed d = (r, d')"
  shows "desk_frame d d' \<and> (same_calls d d' \<or> (\<exists>c. adds_call u t n typed d d' c))"
proof -
  define a where "a = fst (caller_account t u (md_billing d))"
  define d1 where "d1 = d\<lparr>md_billing := snd (caller_account t u (md_billing d))\<rparr>"
  define v where "v = decideTypedAnswer (getConfirm n (mc_uid u) d) typed (mc_uid u) a t"
  have d1: "desk_frame d d1" "same_calls d d1" "md_confirms d1 = md_confirms d"
    by (auto simp: d1_def desk_frame_def same_calls_def)
  obtain ok d2 where sp: "spendConfirm n t d1 = (ok, d2)" by fastforce
  from spendConfirm_rows [OF this] d1 have d2: "desk_frame d d2" "same_calls d d2"
    by (auto simp: desk_frame_def same_calls_def)
  have res: "(r, d') = (if \<not> is_ok_verdict v then (Refused v, d1)
      else if \<not> ok then (AlreadyDone, d2)
      else case v of VToggle on \<Rightarrow> switch_top_off t u on a d2
           | VCharge usd credits \<Rightarrow> purchase_begin t u n SavedCard usd credits d2
           | VCheckout usd credits \<Rightarrow> purchase_begin t u n Checkout usd credits d2
           | _ \<Rightarrow> (Refused v, d2))"
    using assms unfolding typed_begin_def Let_def case_prod_unfold
      a_def [symmetric] d1_def [symmetric] v_def [symmetric] sp fst_conv snd_conv
    by (cases ok) (simp_all split: if_splits)
  have bought: "purchase_begin t u n kind usd cr d2 = (r, d') \<Longrightarrow> v = VCharge usd cr \<or> v = VCheckout usd cr
      \<Longrightarrow> ?thesis" for kind usd cr
  proof -
    assume "purchase_begin t u n kind usd cr d2 = (r, d')" and v: "v = VCharge usd cr \<or> v = VCheckout usd cr"
    from purchase_begin_desk [OF this(1)] d2
    have fr: "desk_frame d d'" by (auto simp: desk_frame_def)
    from decide_amount [OF v_def [symmetric] v] obtain p where
      "(n, p) \<in> set (md_confirms d)" "pc_uid p = mc_uid u" "pc_kind p = ''amount''"
      "t \<le> pc_createdAt p + CONFIRM_TTL_MS" "parseTypedAmount typed = AmountUsd usd"
      by (auto simp: getConfirm_row dest: map_of_SomeD)
    with purchase_begin_desk [OF \<open>purchase_begin t u n kind usd cr d2 = (r, d')\<close>] d2(2) fr show ?thesis
      by (auto simp: same_calls_def adds_call_def split: if_splits)
  qed
  show ?thesis
    using res d1 d2 bought switch_top_off_desk [of t u _ a d2 r d']
    by (auto simp: desk_frame_def same_calls_def split: if_splits typed_verdict.splits)
qed

lemma issue_desk:
  assumes "issue_confirm hash t u tool arg n d = (rq, d')"
  shows "altana_lines (md_billing d') = altana_lines (md_billing d) \<and> same_calls d d'
    \<and> (md_confirms d' = md_confirms d
       \<or> (\<exists>p. md_confirms d' = AList.update n p (md_confirms d) \<and> asked_in [Issue t u tool arg n] n p))"
  using assms
  by (auto simp: issue_confirm_def putConfirm_def confirmRequestFor_def same_calls_def asked_in_def Let_def
      split: if_splits option.splits)

lemma sweep_desk: "desk_frame d (sweepConfirms b d)" "same_calls d (sweepConfirms b d)"
  by (auto simp: sweepConfirms_def desk_frame_def same_calls_def rows_where_def)

lemma saved_credits_append [simp]: "saved_credits (xs @ ys) = saved_credits xs + saved_credits ys"
  by (simp add: saved_credits_def)

lemma saved_credits_remove1:
  "c \<in> set cs \<Longrightarrow> cc_kind c = SavedCard \<Longrightarrow> saved_credits cs = add_mset (call_credit c) (saved_credits (remove1 c cs))"
  by (induction cs) (auto simp: saved_credits_def)

lemma saved_credits_remove1_other:
  "cc_kind c \<noteq> SavedCard \<Longrightarrow> saved_credits (remove1 c cs) = saved_credits cs"
  by (induction cs) (auto simp: saved_credits_def)

lemma grant_line:
  assumes "grantUsd t e usd ALTANA_TOPUP b = (res, b')"
  shows "altana_lines b' = altana_lines b
    \<or> (\<exists>l. altana_lines b' = altana_lines b @ [l] \<and> line_credit l = (lc e, of_int (creditsForUsd (Some usd))))"
  using assms round_micro [of "of_int (creditsForUsd (Some usd))"]
  by (auto simp: grantUsd_def apply_credits_def Let_def case_prod_unfold altana_lines_def line_credit_def
        upd_credit_def ALTANA_TOPUP_def
      split: option.splits)

lemma finish_desk:
  assumes "d' = typed_finish t c ans d"
  shows "md_calls d' = md_calls d \<and> md_confirms d' = md_confirms d
    \<and> map fst (md_purchases d') = map fst (md_purchases d)"
  using assms
  by (auto simp: typed_finish_def settlePurchase_def Let_def split: call_kind.splits card_answer.splits
      prod.splits option.splits)

lemma finish_money:
  assumes "d' = typed_finish t c ans d"
  shows "image_mset line_credit (mset (altana_lines (md_billing d'))) + saved_credits (md_flights d')
    \<subseteq># image_mset line_credit (mset (altana_lines (md_billing d))) + saved_credits (md_flights d)"
proof (cases "c \<in> set (md_flights d)")
  case False
  then show ?thesis using assms by (simp add: typed_finish_def)
next
  case True
  obtain res b' where g: "grantUsd t (cc_email c) (cc_usd c) ALTANA_TOPUP (md_billing d) = (res, b')" by fastforce
  have fl: "md_flights d' = remove1 c (md_flights d)"
    and bl: "md_billing d' = (if cc_kind c = SavedCard \<and> ans = CardOk then b' else md_billing d)"
    using assms True g
    by (auto simp: typed_finish_def settlePurchase_def Let_def split: call_kind.splits card_answer.splits
        option.splits)
  show ?thesis
  proof (cases "cc_kind c = SavedCard")
    case True
    with fl bl grant_line [OF g] saved_credits_remove1 [OF \<open>c \<in> set (md_flights d)\<close> True] show ?thesis
      by (auto simp: call_credit_def intro: subset_mset.order_trans)
  next
    case False
    with fl bl saved_credits_remove1_other [OF False] show ?thesis by simp
  qed
qed

section \<open>The invariant of a desk\<close>

definition desk_inv :: "desk_op list \<Rightarrow> money_desk \<Rightarrow> bool" where
  "desk_inv ops d =
     (distinct (map cc_nonce (md_calls d))
      \<and> cc_nonce ` set (md_calls d) \<subseteq> fst ` set (md_purchases d)
      \<and> (\<forall>k p. (k, p) \<in> set (md_confirms d) \<longrightarrow> asked_in ops k p)
      \<and> (\<forall>c\<in>set (md_calls d). typed_in ops c)
      \<and> image_mset line_credit (mset (altana_lines (md_billing d))) + saved_credits (md_flights d)
          \<subseteq># saved_credits (md_calls d))"

lemma keys_update_insert: "fst ` set (AList.update k v t) = insert k (fst ` set t)"
  by (simp add: dom_map_of_conv_image_fst [symmetric] update_conv' dom_fun_upd)

lemma update_rows: "(k', v') \<in> set (AList.update k v t) \<Longrightarrow> k' = k \<and> v' = v \<or> (k', v') \<in> set t"
  by (induction t) (auto split: if_splits)

text \<open>A step that leaves the requests alone.\<close>

lemma desk_inv_same:
  assumes "desk_inv ops d" "same_calls d d'" "altana_lines (md_billing d') = altana_lines (md_billing d)"
    and "\<And>k p. (k, p) \<in> set (md_confirms d') \<Longrightarrow> asked_in (ops @ [op']) k p"
  shows "desk_inv (ops @ [op']) d'"
  using assms by (auto simp: desk_inv_def same_calls_def intro: typed_in_mono)

lemma desk_frame_asked:
  assumes "desk_inv ops d" "desk_frame d d'" "(k, p) \<in> set (md_confirms d')"
  shows "asked_in (ops @ [op']) k p"
proof -
  from assms(2, 3) obtain q where q: "(k, q) \<in> set (md_confirms d)" "pc_uid p = pc_uid q" "pc_tool p = pc_tool q"
    "pc_kind p = pc_kind q" "pc_createdAt p = pc_createdAt q" unfolding desk_frame_def by blast
  with assms(1) have "asked_in ops k q" by (auto simp: desk_inv_def)
  then have "asked_in ops k p" unfolding asked_in_def q(2-5) .
  then show ?thesis by (rule asked_in_mono)
qed

lemma desk_inv_adds:
  assumes inv: "desk_inv ops d" and fr: "desk_frame d d'" and ad: "adds_call u t n typed d d' c"
  shows "desk_inv (ops @ [Typed t u n typed]) d'"
proof -
  from ad obtain p row where d': "md_purchases d' = AList.update n row (md_purchases d)"
    "md_calls d' = md_calls d @ [c]" "md_flights d' = md_flights d @ [c]" "cc_nonce c = n"
    and free: "map_of (md_purchases d) n = None"
    and c: "cc_email c = mc_email u" "parseTypedAmount typed = AmountUsd (cc_usd c)"
    and p: "(n, p) \<in> set (md_confirms d)" "pc_uid p = mc_uid u" "pc_kind p = ''amount''"
      "t \<le> pc_createdAt p + CONFIRM_TTL_MS"
    unfolding adds_call_def by blast
  from inv p(1) have "asked_in ops n p" by (auto simp: desk_inv_def)
  with p(2, 3) obtain u0 arg where u0: "Issue (pc_createdAt p) u0 ''buy_credits'' arg n \<in> set ops"
    "mc_uid u0 = mc_uid u" "mc_isOwner u0 \<or> mc_role u0 = ''credit''"
    unfolding asked_in_def by auto
  have "typed_in (ops @ [Typed t u n typed]) c"
    unfolding typed_in_def d'(4) set_append
  proof (intro exI conjI)
    show "Typed t u n typed \<in> set ops \<union> set [Typed t u n typed]" by simp
    show "Issue (pc_createdAt p) u0 ''buy_credits'' arg n \<in> set ops \<union> set [Typed t u n typed]"
      using u0(1) by simp
  qed (fact c u0 p)+
  moreover have "n \<notin> cc_nonce ` set (md_calls d)"
    using inv free by (auto simp: desk_inv_def map_of_eq_None_iff)
  moreover have "altana_lines (md_billing d') = altana_lines (md_billing d)"
    using fr by (simp add: desk_frame_def)
  ultimately show ?thesis
    using inv d' desk_frame_asked [OF inv fr]
    by (auto simp: desk_inv_def keys_update_insert typed_in_mono union_assoc [symmetric] intro: subset_mset.add_right_mono)
qed

lemma desk_inv_issue:
  assumes inv: "desk_inv ops d" and iss: "issue_confirm hash t u tool arg n d = (rq, d')"
  shows "desk_inv (ops @ [Issue t u tool arg n]) d'"
proof (rule desk_inv_same [OF inv])
  note fr = issue_desk [OF iss]
  then show "same_calls d d'" "altana_lines (md_billing d') = altana_lines (md_billing d)" by simp_all
  show "asked_in (ops @ [Issue t u tool arg n]) k p" if row: "(k, p) \<in> set (md_confirms d')" for k p
  proof (cases "(k, p) \<in> set (md_confirms d)")
    case True
    with inv show ?thesis by (auto simp: desk_inv_def intro: asked_in_mono)
  next
    case False
    with row fr have "k = n \<and> asked_in [Issue t u tool arg n] n p" by (auto dest: update_rows)
    then show ?thesis by (auto simp: asked_in_def)
  qed
qed

lemma desk_inv_finish:
  assumes "desk_inv ops d"
  shows "desk_inv (ops @ [Answer t c ans]) (typed_finish t c ans d)"
proof -
  define d' where "d' = typed_finish t c ans d"
  note frame = finish_desk [OF d'_def] and moved = finish_money [OF d'_def]
  from frame have "fst ` set (md_purchases d') = fst ` set (md_purchases d)" by (metis list.set_map)
  with assms frame moved show ?thesis
    unfolding d'_def [symmetric] desk_inv_def
    by (auto intro: asked_in_mono typed_in_mono subset_mset.order_trans)
qed

definition elsewhere_fair :: "desk_op list \<Rightarrow> bool" where
  "elsewhere_fair ops = (\<forall>f. Elsewhere f \<in> set ops \<longrightarrow> (\<forall>b. altana_lines (f b) = altana_lines b))"

lemma desk_inv_step:
  assumes inv: "desk_inv ops d" and fair: "elsewhere_fair [x]"
  shows "desk_inv (ops @ [x]) (desk_step hash d x)"
proof (cases x)
  case (Issue t u tool arg n)
  then show ?thesis using desk_inv_issue [OF inv, of hash t u tool arg n] by (simp add: prod_eq_iff)
next
  case (Typed t u n typed)
  obtain r d' where b: "typed_begin t u n typed d = (r, d')" by fastforce
  note typed_begin_desk [OF b]
  then show ?thesis
    using Typed b desk_inv_adds [OF inv] desk_inv_same [OF inv] desk_frame_asked [OF inv, of d']
    by (auto simp: desk_frame_def)
next
  case (Answer t c ans)
  then show ?thesis using desk_inv_finish [OF inv] by simp
next
  case (Sweep before)
  then show ?thesis
    using desk_inv_same [OF inv] desk_frame_asked [OF inv] sweep_desk [of d before] by (simp add: desk_frame_def)
next
  case (Elsewhere f)
  with fair inv show ?thesis
    by (auto simp: elsewhere_fair_def same_calls_def desk_inv_def intro: asked_in_mono typed_in_mono)
qed

lemma desk_inv_run:
  assumes "elsewhere_fair ops" "altana_lines b = []"
  shows "desk_inv ops (run_desk hash ops (new_desk b))"
  using assms(1)
proof (induction ops rule: rev_induct)
  case Nil
  then show ?case using assms(2) by (simp add: desk_inv_def run_desk_def new_desk_def saved_credits_def)
next
  case (snoc x ops)
  then have "desk_inv ops (run_desk hash ops (new_desk b))" "elsewhere_fair [x]"
    by (auto simp: elsewhere_fair_def)
  then show ?case using desk_inv_step by (simp add: run_desk_def)
qed

lemma parsed_amount_bounds:
  assumes "parseTypedAmount s = AmountUsd usd"
  shows "MIN_PURCHASE_USD \<le> usd \<and> usd \<le> MAX_PURCHASE_USD"
proof -
  from assms obtain ip f where "of_int (js_round (amount_value ip f * 100)) = usd * 100"
    "\<not> amount_value ip f < MIN_PURCHASE_USD" "\<not> MAX_PURCHASE_USD < amount_value ip f"
    by (auto simp: parseTypedAmount_def Let_def split: option.splits if_splits)
  then obtain x where x: "of_int (js_round (x * 100)) = usd * 100" "\<not> x < MIN_PURCHASE_USD"
    "\<not> MAX_PURCHASE_USD < x" by blast
  have "js_round (x * 100) \<le> 20000"
    using x js_round_mono [of "x * 100" 20000] js_round_of_int [of 20000] by (simp add: MAX_PURCHASE_USD_def)
  moreover have "1250 \<le> js_round (x * 100)"
    using x js_round_mono [of 1250 "x * 100"] js_round_of_int [of 1250] by (simp add: MIN_PURCHASE_USD_def)
  ultimately have "1250 \<le> usd * 100" "usd * 100 \<le> 20000"
    unfolding x(1) [symmetric] by linarith+
  then show ?thesis by (simp add: MIN_PURCHASE_USD_def MAX_PURCHASE_USD_def)
qed

section \<open>Reading an amount\<close>

text \<open>An amount in cents, as a person writes it.\<close>

definition usd_text :: "nat \<Rightarrow> string" where
  "usd_text c = show_nat (c div 100) @ ''.'' @ [digit_char (c mod 100 div 10), digit_char (c mod 10)]"

lemma usd_text_ends: "usd_text c \<noteq> []" "is_digit (hd (usd_text c))" "is_digit (last (usd_text c))"
  using show_nat_ends [of "c div 100"] by (simp_all add: usd_text_def hd_append)

lemma usd_text_chars: "x \<in> set (usd_text c) \<Longrightarrow> is_digit x \<or> x = CHR ''.''"
  by (auto simp: usd_text_def dest: show_nat_digits)

lemma dot_not_digit: "\<not> is_digit (CHR ''.'')" "\<not> is_digit (CHR '','')" "\<not> is_digit (CHR ''$'')"
  by (simp_all add: is_digit_def)

lemma js_trim_pad:
  assumes "\<forall>x\<in>set l. is_ws x" "\<forall>x\<in>set r. is_ws x" "s \<noteq> []" "\<not> is_ws (hd s)" "\<not> is_ws (last s)"
  shows "js_trim (l @ s @ r) = s"
proof -
  have "dropWhile is_ws (l @ s @ r) = s @ r"
    using assms by (subst dropWhile_append2) (auto simp: dropWhile_hd)
  moreover have "dropWhile is_ws (rev r @ rev s) = rev s"
    using assms by (subst dropWhile_append2) (auto simp: dropWhile_hd hd_rev)
  ultimately show ?thesis by (simp add: js_trim_def)
qed

lemma amount_shape_usd:
  "amount_shape (usd_text c) = Some (show_nat (c div 100), [digit_char (c mod 100 div 10), digit_char (c mod 10)])"
proof -
  have "takeWhile is_digit (show_nat k @ CHR ''.'' # y) = show_nat k"
    "dropWhile is_digit (show_nat k @ CHR ''.'' # y) = CHR ''.'' # y" for k y
    using show_nat_digits [of _ k]
    by (simp_all add: takeWhile_append2 dropWhile_append3 dot_not_digit)
  then show ?thesis by (simp add: amount_shape_def usd_text_def)
qed

lemma nat_of_two_digits: "a < 10 \<Longrightarrow> b < 10 \<Longrightarrow> nat_of_digits [digit_char a, digit_char b] = 10 * a + b"
  using nat_of_digits_snoc [of "[digit_char a]" "digit_char b"] nat_of_digits_snoc [of "[]" "digit_char a"]
  by (simp add: of_char_digit nat_of_digits_def)

lemma amount_value_usd:
  "amount_value (show_nat (c div 100)) [digit_char (c mod 100 div 10), digit_char (c mod 10)] = of_nat c / 100"
proof -
  have "c mod 100 div 10 < 10" "c mod 10 < 10" by simp_all
  then have "amount_value (show_nat (c div 100)) [digit_char (c mod 100 div 10), digit_char (c mod 10)]
      = of_nat (c div 100) + of_nat (10 * (c mod 100 div 10) + c mod 10) / 100"
    by (simp add: amount_value_def nat_of_two_digits)
  also have "10 * (c mod 100 div 10) + c mod 10 = c mod 100"
    using mult_div_mod_eq [of 10 "c mod 100"] mod_mod_cancel [of 10 100 c] by simp
  also have "(of_nat (c div 100) + of_nat (c mod 100) / 100 :: rat) = of_nat (100 * (c div 100) + c mod 100) / 100"
    by (simp only: of_nat_add of_nat_mult) (simp add: field_simps)
  finally show ?thesis by simp
qed

lemma ends_with_rev: "ends_with w s \<longleftrightarrow> take (length w) (rev s) = rev w"
proof (cases "length w \<le> length s")
  case True
  then show ?thesis by (simp add: ends_with_def take_rev rev_swap)
next
  case False
  then have "length (take (length w) (rev s)) \<noteq> length (rev w)" by simp
  then show ?thesis using False by (metis ends_with_def)
qed

lemma find_unit: "u \<in> set UNIT_WORDS \<Longrightarrow> find (\<lambda>w. ends_with w (y @ u)) UNIT_WORDS = Some u"
  by (simp add: UNIT_WORDS_def ends_with_rev) (elim disjE; simp)

lemma drop_commas_id: "CHR '','' \<notin> set s \<Longrightarrow> drop_commas s = s"
  by (induction s) auto

lemma find_no_unit:
  assumes "is_digit (last s)" "s \<noteq> []"
  shows "find (\<lambda>w. ends_with w (lowercase s)) UNIT_WORDS = None"
proof -
  obtain t c where s: "s = t @ [c]" "is_digit c" using assms by (cases s rule: rev_cases) auto
  then have "to_lower c = c" by (auto simp: to_lower_def is_digit_def Let_def)
  then have l: "rev (lowercase s) = c # rev (lowercase t)" using s by (simp add: lowercase_def)
  from s(2) have "c \<noteq> CHR ''d''" "c \<noteq> CHR ''s''" "c \<noteq> CHR ''r''" "c \<noteq> CHR ''k''" by (auto simp: is_digit_def)
  then show ?thesis by (simp add: UNIT_WORDS_def ends_with_rev l)
qed

lemma last_unit: "lowercase u \<in> set UNIT_WORDS \<Longrightarrow> u \<noteq> [] \<and> \<not> is_ws (last u) \<and> last u \<noteq> CHR ''.''"
proof -
  assume u: "lowercase u \<in> set UNIT_WORDS"
  then have ne: "u \<noteq> []" by (auto simp: UNIT_WORDS_def lowercase_def)
  then have l: "last (lowercase u) = to_lower (last u)" by (simp add: lowercase_def last_map)
  from u have "\<not> is_ws (last (lowercase u)) \<and> last (lowercase u) \<noteq> CHR ''.''"
    by (auto simp: UNIT_WORDS_def is_ws_def)
  then have "\<not> is_ws (last u)" "to_lower (last u) \<noteq> CHR ''.''" unfolding l by simp_all
  then show ?thesis using ne by (auto simp: to_lower_def)
qed

lemma clean_plain: "clean_amount (usd_text c) = usd_text c"
proof -
  have ends: "\<not> is_ws (hd (usd_text c))" "\<not> is_ws (last (usd_text c))"
    using usd_text_ends digit_not_ws by blast+
  have d: "strip_dollar (usd_text c) = usd_text c"
    using usd_text_ends [of c] dot_not_digit by (auto simp: strip_dollar_def split: list.splits)
  have "last (usd_text c) \<noteq> CHR ''.''" using usd_text_ends [of c] dot_not_digit by metis
  then have "strip_unit (usd_text c) = usd_text c"
    using find_no_unit [of "usd_text c"] usd_text_ends [of c] by (simp add: strip_unit_def)
  with d have "clean_amount (usd_text c) = js_trim (drop_commas (usd_text c))" by (simp add: clean_amount_def)
  also have "CHR '','' \<notin> set (usd_text c)" using usd_text_chars [of "CHR '',''" c] dot_not_digit by auto
  then have "drop_commas (usd_text c) = usd_text c" by (rule drop_commas_id)
  finally show ?thesis using js_trim_sound [OF usd_text_ends(1) ends] by simp
qed

lemma clean_unit:
  assumes u: "lowercase u \<in> set UNIT_WORDS" and dot: "dot = [] \<or> dot = ''.''" and gap: "\<forall>x\<in>set gap. is_ws x"
  shows "clean_amount (usd_text c @ gap @ u @ dot) = usd_text c"
proof -
  have ends: "\<not> is_ws (hd (usd_text c))" "\<not> is_ws (last (usd_text c))"
    using usd_text_ends digit_not_ws by blast+
  have d: "strip_dollar (usd_text c @ gap @ u @ dot) = usd_text c @ gap @ u @ dot"
    using usd_text_ends [of c] dot_not_digit
    by (cases "usd_text c") (auto simp: strip_dollar_def)
  have b: "(if usd_text c @ gap @ u @ dot \<noteq> [] \<and> last (usd_text c @ gap @ u @ dot) = CHR ''.''
      then butlast (usd_text c @ gap @ u @ dot) else usd_text c @ gap @ u @ dot) = (usd_text c @ gap) @ u"
    using dot last_unit [OF u] by (auto simp: butlast_append)
  have "find (\<lambda>w. ends_with w (lowercase ((usd_text c @ gap) @ u))) UNIT_WORDS = Some (lowercase u)"
    using find_unit [OF u, of "lowercase (usd_text c @ gap)"] by (simp add: lowercase_def)
  then have "strip_unit (usd_text c @ gap @ u @ dot) = usd_text c @ gap"
    unfolding strip_unit_def b Let_def by (simp add: lowercase_def)
  moreover have "CHR '','' \<notin> set (usd_text c @ gap)"
    using usd_text_chars [of "CHR '',''" c] dot_not_digit gap by (auto simp: is_ws_def)
  ultimately have "clean_amount (usd_text c @ gap @ u @ dot) = js_trim (usd_text c @ gap)"
    using d by (simp add: clean_amount_def drop_commas_id)
  then show ?thesis using js_trim_pad [of "[]" gap "usd_text c"] gap usd_text_ends(1) ends by simp
qed

lemma clean_dollar: "clean_amount (''$'' @ usd_text c @ s) = clean_amount (usd_text c @ s)"
  using usd_text_ends [of c] dot_not_digit
  by (cases "usd_text c") (auto simp: clean_amount_def strip_dollar_def)

lemma parse_usd:
  assumes "clean_amount (js_trim raw) = usd_text c" and "js_trim raw \<noteq> []" and "0 < c"
  shows "parseTypedAmount raw
    = (if c < 1250 then BelowFloor (of_nat c / 100)
       else if 20000 < c then AboveCeiling (of_nat c / 100)
       else AmountUsd (of_nat c / 100))"
proof -
  have "js_round (of_nat c / 100 * 100) = int c" using js_round_of_int [of "int c"] by simp
  then show ?thesis
    using assms unfolding parseTypedAmount_def Let_def assms(1) amount_shape_usd
    by (simp add: amount_value_usd MIN_PURCHASE_USD_def MAX_PURCHASE_USD_def)
qed

text \<open>an amount is read as it was written. Any number of cents, printed with two places, with or
  without a dollar sign, followed or not by a currency word in any capitalization and with any spacing,
  comes back as exactly that amount, and it is accepted exactly between the floor of 12.50 and the
  ceiling of 200 dollars.\<close>

theorem typed_amount_round_trip:
  assumes "0 < c" and "sign = [] \<or> sign = ''$''"
    and "\<forall>x\<in>set (lead @ gap @ trail). is_ws x"
    and "unit_word = [] \<or> lowercase unit_word \<in> set UNIT_WORDS"
    and "dot = [] \<or> dot = ''.'' \<and> unit_word \<noteq> []"
  shows "parseTypedAmount (lead @ sign @ usd_text c @ gap @ unit_word @ dot @ trail)
    = (if c < 1250 then BelowFloor (of_nat c / 100)
       else if 20000 < c then AboveCeiling (of_nat c / 100)
       else AmountUsd (of_nat c / 100))"
proof (rule parse_usd)
  have ends: "\<not> is_ws (hd (usd_text c))" "\<not> is_ws (last (usd_text c))"
    using usd_text_ends digit_not_ws by blast+
  define core where "core = sign @ usd_text c @ (if unit_word = [] then [] else gap @ unit_word @ dot)"
  have core: "core \<noteq> []" "\<not> is_ws (hd core)" "\<not> is_ws (last core)"
    using assms(2-5) ends usd_text_ends(1) last_unit [of unit_word] by (auto simp: core_def is_ws_def)
  have "lead @ sign @ usd_text c @ gap @ unit_word @ dot @ trail
      = lead @ core @ (if unit_word = [] then gap @ trail else trail)"
    using assms(5) by (auto simp: core_def)
  also have "js_trim \<dots> = core" using assms(3) core by (intro js_trim_pad) auto
  finally have tr: "js_trim (lead @ sign @ usd_text c @ gap @ unit_word @ dot @ trail) = core" .
  show "js_trim (lead @ sign @ usd_text c @ gap @ unit_word @ dot @ trail) \<noteq> []" using tr core by simp
  have "clean_amount (usd_text c @ (if unit_word = [] then [] else gap @ unit_word @ dot)) = usd_text c"
    using assms(3-5) clean_plain clean_unit [of unit_word dot gap c] by auto
  then show "clean_amount (js_trim (lead @ sign @ usd_text c @ gap @ unit_word @ dot @ trail)) = usd_text c"
    using assms(2) clean_dollar [of c] clean_dollar [of c "[]"] unfolding tr core_def by auto
qed (fact assms(1))

lemma typed_amount_round_trip_witness:
  "parseTypedAmount '' $17.05  Dollars. '' = AmountUsd (1705 / 100)"
proof -
  have "usd_text 1705 = ''17.05''" "lowercase ''Dollars'' \<in> set UNIT_WORDS" by code_simp+
  then show ?thesis
    using typed_amount_round_trip [of 1705 "''$''" "'' ''" "''  ''" "'' ''" "''Dollars''" "''.''"]
    by (simp add: is_ws_def)
qed

section \<open>Money moves once\<close>

text \<open>C3: money moves at most once per confirmation, and only in a typed amount. Over any sequence of
  questions put on the screen, typed answers (repeated, late or foreign ones too), answers of the card
  processor and sweeps, with anything else happening to the billing database meanwhile but top-ups written in the desk's name, no nonce ever
  reaches the card processor twice; behind every request stand a question about buying credits that was
  put to the same account at most fifteen minutes before, and a text typed by that account that reads as
  exactly the amount requested, between 12.50 and 200 dollars; and the top-ups in the ledger are among
  the requests, each at most once and for the credits of its amount.\<close>

theorem typed_money_moves_once:
  assumes "elsewhere_fair ops" and "altana_lines b = []"
  shows "(let d = run_desk hash ops (new_desk b)
    in distinct (map cc_nonce (md_calls d))
       \<and> (\<forall>c\<in>set (md_calls d). typed_in ops c \<and> MIN_PURCHASE_USD \<le> cc_usd c \<and> cc_usd c \<le> MAX_PURCHASE_USD)
       \<and> image_mset line_credit (mset (altana_lines (md_billing d))) \<subseteq># saved_credits (md_calls d))"
proof -
  have "desk_inv ops (run_desk hash ops (new_desk b))" using assms by (rule desk_inv_run)
  then show ?thesis
    unfolding desk_inv_def Let_def
    by (auto simp: typed_in_def dest: parsed_amount_bounds
        intro: subset_mset.order_trans [OF mset_subset_eq_add_left])
qed

definition demo_user :: money_caller where
  "demo_user = \<lparr>mc_uid = ''u1'', mc_email = ''A@x'', mc_role = ''credit'', mc_isOwner = False\<rparr>"

definition demo_billing :: billing where
  "demo_billing = createBilling\<lparr>bl_credits := [(''a@x'', (new_credit_row 0)\<lparr>cr_defaultPm := Some ''pm1''\<rparr>)]\<rparr>"

definition demo_call :: card_call where
  "demo_call = \<lparr>cc_nonce = ''n1'', cc_kind = SavedCard, cc_email = ''A@x'', cc_usd = 25, cc_customer = None,
     cc_pm = None\<rparr>"

definition desk_demo :: "desk_op list" where
  "desk_demo =
     [Issue 10 demo_user ''buy_credits'' OnMissing ''n1'', Typed 20 demo_user ''n1'' ''$25'',
      Typed 21 demo_user ''n1'' ''$25'', Elsewhere (\<lambda>b. snd (ensure_account 22 ''b@x'' b)),
      Answer 30 demo_call CardOk, Answer 31 demo_call CardOk, Typed 32 demo_user ''n1'' ''200'']"

lemma typed_money_moves_once_witness:
  "(let d = run_desk (\<lambda>s. length s) desk_demo (new_desk demo_billing)
    in md_calls d = [demo_call] \<and> map line_credit (altana_lines (md_billing d)) = [(''a@x'', 2000)]
       \<and> typed_in desk_demo demo_call
       \<and> image_mset line_credit (mset (altana_lines (md_billing d))) \<subseteq># saved_credits (md_calls d))"
proof -
  have "elsewhere_fair desk_demo" "altana_lines demo_billing = []"
    by (auto simp: elsewhere_fair_def desk_demo_def altana_lines_def demo_billing_def createBilling_def)
  note typed_money_moves_once [OF this, of "\<lambda>s. length s"]
  moreover have "(let d = run_desk (\<lambda>s. length s) desk_demo (new_desk demo_billing)
     in md_calls d = [demo_call] \<and> map line_credit (altana_lines (md_billing d)) = [(''a@x'', 2000)])"
    by code_simp
  ultimately show ?thesis by (simp add: Let_def)
qed

section \<open>The direction of the switch\<close>

lemma xor_zero_iff: "((a :: int) XOR b = 0) = (a = b)"
proof
  assume "a XOR b = 0"
  then have "(a XOR b) XOR b = 0 XOR b" by (rule arg_cong)
  then show "a = b" by (simp add: xor.assoc)
qed simp

lemma fold_diff_zero:
  "foldl (\<lambda>diff (x, y). diff OR ((of_char x :: int) XOR of_char y)) n (zip a b) = 0
     \<longleftrightarrow> n = 0 \<and> (\<forall>(x, y)\<in>set (zip a b). x = y)"
proof (induction "zip a b" arbitrary: a b n)
  case Nil
  then have "zip a b = []" by simp
  then show ?case by (auto simp del: zip_eq_Nil_iff)
next
  case (Cons p ps)
  then obtain x a' y b' where ab: "a = x # a'" "b = y # b'" "ps = zip a' b'"
    by (cases a; cases b) auto
  have "((of_char x :: int) XOR of_char y = 0) = (x = y)"
    by (simp add: xor_zero_iff)
  with Cons(1) [OF ab(3)] show ?case by (auto simp: ab or_eq_0_iff)
qed

lemma codeMatches_iff:
  "codeMatches typed expected \<longleftrightarrow> filter is_digit typed = filter is_digit expected \<and> filter is_digit expected \<noteq> []"
proof -
  have "length a = length b \<Longrightarrow> (\<forall>(x, y)\<in>set (zip a b). x = y) = (a = b)" for a b :: string
    by (induction a b rule: list_induct2) auto
  then show ?thesis by (auto simp: codeMatches_def Let_def fold_diff_zero)
qed

lemma code_digits: "filter is_digit (typedConfirmCode hash n tool on uid) = typedConfirmCode hash n tool on uid"
  "typedConfirmCode hash n tool on uid \<noteq> []"
  by (auto simp: typedConfirmCode_def pad5_def filter_id_conv is_digit_def [of "CHR ''0''"] dest: show_nat_digits)

text \<open>the switch follows the question, except for one argument. When the question about automatic
  top-off has been put on the screen and its account answers in time, then the digits typed are the digits
  shown exactly when something is switched, whatever else was typed around them. The question shown and
  the direction switched agree exactly when the argument of the call was not the text "true" (in any
  capitalization): that text is shown as "switch on", and switches off.\<close>

theorem toggle_follows_the_question:
  assumes "issue_confirm hash t u ''set_top_off'' arg n d = (Some rq, d')" and "now \<le> t + CONFIRM_TTL_MS"
  shows "decideTypedAnswer (getConfirm n (mc_uid u) d') typed (mc_uid u) account now
      = (if filter is_digit typed = tq_code rq then VToggle (stored_on arg) else VBadCode)
    \<and> (tq_prompt rq = (if stored_on arg then PROMPT_ON else PROMPT_OFF))
      = (\<nexists>s. arg = OnText s \<and> lowercase s = ''true'')"
proof
  have row: "getConfirm n (mc_uid u) d' = Some \<lparr>pc_uid = mc_uid u, pc_tool = ''set_top_off'', pc_kind = ''code'',
      pc_on = arg, pc_expectedCode = tq_code rq, pc_createdAt = t, pc_spentAt = None\<rparr>"
    and rq: "tq_code rq = typedConfirmCode hash n ''set_top_off'' (asked_on arg) (mc_uid u)"
      "tq_prompt rq = (if asked_on arg then PROMPT_ON else PROMPT_OFF)"
    using assms(1)
    by (auto simp: issue_confirm_def confirmRequestFor_def putConfirm_def getConfirm_def Let_def row_simps
        split: if_splits)
  show "decideTypedAnswer (getConfirm n (mc_uid u) d') typed (mc_uid u) account now
      = (if filter is_digit typed = tq_code rq then VToggle (stored_on arg) else VBadCode)"
    using assms(2) by (simp add: decideTypedAnswer_def is_spent_def row codeMatches_iff rq(1) code_digits)
  have "PROMPT_ON \<noteq> PROMPT_OFF" by (simp add: PROMPT_ON_def PROMPT_OFF_def)
  then show "(tq_prompt rq = (if stored_on arg then PROMPT_ON else PROMPT_OFF))
      = (\<nexists>s. arg = OnText s \<and> lowercase s = ''true'')"
    unfolding rq(2) by (cases arg) auto
qed

lemma toggle_follows_the_question_witness:
  "(case issue_confirm (\<lambda>s. length s) 10 demo_user ''set_top_off'' (OnText ''True'') ''n2'' (new_desk demo_billing) of
      (Some rq, d') \<Rightarrow> tq_prompt rq = PROMPT_ON
        \<and> decideTypedAnswer (getConfirm ''n2'' ''u1'' d') (''it is '' @ tq_code rq) ''u1'' None 20 = VToggle False
    | _ \<Rightarrow> False)"
proof -
  have "asked_on (OnText ''True'')" by code_simp
  then have "\<exists>rq d'. issue_confirm (\<lambda>s. length s) 10 demo_user ''set_top_off'' (OnText ''True'') ''n2''
      (new_desk demo_billing) = (Some rq, d') \<and> tq_prompt rq = PROMPT_ON"
    by (simp add: issue_confirm_def confirmRequestFor_def putConfirm_def new_desk_def demo_user_def Let_def
        del: asked_on.simps)
  then obtain rq d' where is1: "issue_confirm (\<lambda>s. length s) 10 demo_user ''set_top_off'' (OnText ''True'') ''n2''
      (new_desk demo_billing) = (Some rq, d')" and pr: "tq_prompt rq = PROMPT_ON" by blast
  have code: "filter is_digit (tq_code rq) = tq_code rq"
    using is1 code_digits
    by (auto simp: issue_confirm_def confirmRequestFor_def putConfirm_def Let_def split: if_splits)
  then have "filter is_digit (''it is '' @ tq_code rq) = tq_code rq" by (simp add: is_digit_def)
  then show ?thesis
    using toggle_follows_the_question [OF is1, of 20 "''it is '' @ tq_code rq" None] pr is1
    by (simp add: demo_user_def CONFIRM_TTL_MS_def)
qed

end
