(* ===== verification/JsRegex.thy ===== *)
theory JsRegex
  imports IdeTasks
begin

text \<open>
  JavaScript regular expressions, as far as the modules use them: a backtracking matcher over ASCII
  text.  A position is the character before it (none at the start) and the text after it; \<open>ends r p\<close>
  lists the positions where a match of \<open>r\<close> that begins at \<open>p\<close> can end, in the order in which the engine
  tries them.  The flag \<open>i\<close> is matching against the lower-cased text, for patterns written in lower case.
\<close>

type_synonym pos = "char option \<times> string"

datatype re =
  Cls "char \<Rightarrow> bool"
| Lit string
| Eps
| Seq re re
| Alt re re
| Star re
| WordB
| AtStart
| AtEnd
| NotAhead re

text \<open>A repetition tries one more round first, and a round must move forward.\<close>

fun star_ends :: "(pos \<Rightarrow> pos list) \<Rightarrow> nat \<Rightarrow> pos \<Rightarrow> pos list" where
  "star_ends f 0 p = [p]"
| "star_ends f (Suc n) p =
     concat (map (star_ends f n) (filter (\<lambda>q. length (snd q) < length (snd p)) (f p))) @ [p]"

fun ends_lit :: "string \<Rightarrow> pos \<Rightarrow> pos list" where
  "ends_lit [] p = [p]"
| "ends_lit (c # cs) (pr, []) = []"
| "ends_lit (c # cs) (pr, d # ds) = (if c = d then ends_lit cs (Some d, ds) else [])"

definition word_boundary :: "pos \<Rightarrow> bool" where
  "word_boundary p =
     ((case fst p of None \<Rightarrow> False | Some c \<Rightarrow> is_word_char c)
      \<noteq> (case snd p of [] \<Rightarrow> False | c # _ \<Rightarrow> is_word_char c))"

primrec ends :: "re \<Rightarrow> pos \<Rightarrow> pos list" where
  "ends (Cls P) p = (case snd p of [] \<Rightarrow> [] | c # cs \<Rightarrow> if P c then [(Some c, cs)] else [])"
| "ends (Lit w) p = ends_lit w p"
| "ends Eps p = [p]"
| "ends (Seq r s) p = concat (map (ends s) (ends r p))"
| "ends (Alt r s) p = ends r p @ ends s p"
| "ends (Star r) p = star_ends (ends r) (length (snd p)) p"
| "ends WordB p = (if word_boundary p then [p] else [])"
| "ends AtStart p = (if fst p = None then [p] else [])"
| "ends AtEnd p = (if snd p = [] then [p] else [])"
| "ends (NotAhead r) p = (if ends r p = [] then [p] else [])"

text \<open>\<open>re.test\<close>: a match that begins anywhere.\<close>

fun test_from :: "re \<Rightarrow> char option \<Rightarrow> string \<Rightarrow> bool" where
  "test_from r prev [] = (ends r (prev, []) \<noteq> [])"
| "test_from r prev (c # cs) = (ends r (prev, c # cs) \<noteq> [] \<or> test_from r (Some c) cs)"

definition re_test :: "re \<Rightarrow> string \<Rightarrow> bool" where
  "re_test r s = test_from r None s"

definition re_test_i :: "re \<Rightarrow> string \<Rightarrow> bool" where
  "re_test_i r s = re_test r (lowercase s)"

text \<open>The number of matches of a global pattern: after a match the search goes on behind it.\<close>

fun count_from :: "nat \<Rightarrow> re \<Rightarrow> pos \<Rightarrow> nat" where
  "count_from 0 r p = 0"
| "count_from (Suc n) r p =
     (case ends r p of
        q # _ \<Rightarrow> 1 + (if length (snd q) < length (snd p) then count_from n r q
                      else case snd p of [] \<Rightarrow> 0 | c # cs \<Rightarrow> count_from n r (Some c, cs))
      | [] \<Rightarrow> (case snd p of [] \<Rightarrow> 0 | c # cs \<Rightarrow> count_from n r (Some c, cs)))"

definition re_count :: "re \<Rightarrow> string \<Rightarrow> nat" where
  "re_count r s = count_from (length s + 1) r (None, s)"

section \<open>Pieces of patterns\<close>

definition re_chr :: "char \<Rightarrow> re" where "re_chr c = Cls (\<lambda>x. x = c)"
definition re_any_of :: "string \<Rightarrow> re" where "re_any_of cs = Cls (\<lambda>x. x \<in> set cs)"
definition re_digit :: re where "re_digit = Cls is_digit"
definition re_space :: re where "re_space = Cls is_ws"
definition re_not_space :: re where "re_not_space = Cls (\<lambda>c. \<not> is_ws c)"
definition re_word :: re where "re_word = Cls is_word_char"
definition re_lower :: re where "re_lower = Cls (\<lambda>c. 97 \<le> (of_char c :: nat) \<and> (of_char c :: nat) \<le> 122)"
definition re_not_lower :: re where
  "re_not_lower = Cls (\<lambda>c. \<not> (97 \<le> (of_char c :: nat) \<and> (of_char c :: nat) \<le> 122))"
definition re_any :: re where "re_any = Cls (\<lambda>_. True)"

definition re_lit :: "string \<Rightarrow> re" where "re_lit w = Lit w"

fun re_seq :: "re list \<Rightarrow> re" where
  "re_seq [] = Eps"
| "re_seq [r] = r"
| "re_seq (r # rs) = Seq r (re_seq rs)"

fun re_alt :: "re list \<Rightarrow> re" where
  "re_alt [] = Cls (\<lambda>_. False)"
| "re_alt [r] = r"
| "re_alt (r # rs) = Alt r (re_alt rs)"

definition re_words :: "string list \<Rightarrow> re" where
  "re_words ws = re_alt (map re_lit ws)"

definition re_opt :: "re \<Rightarrow> re" where "re_opt r = Alt r Eps"
definition re_plus :: "re \<Rightarrow> re" where "re_plus r = Seq r (Star r)"
definition re_bounded :: "re \<Rightarrow> re" where "re_bounded r = re_seq [WordB, r, WordB]"

text \<open>\<open>r{0,n}\<close>\<close>

fun re_upto :: "nat \<Rightarrow> re \<Rightarrow> re" where
  "re_upto 0 r = Eps"
| "re_upto (Suc n) r = re_opt (Seq r (re_upto n r))"

section \<open>What a match is\<close>

text \<open>The language of a pattern between two positions, without an order of search.\<close>

inductive matches :: "re \<Rightarrow> pos \<Rightarrow> pos \<Rightarrow> bool" where
  m_cls: "P c \<Longrightarrow> matches (Cls P) (pr, c # cs) (Some c, cs)"
| m_lit: "matches (Lit w) (pr, w @ cs) (if w = [] then pr else Some (last w), cs)"
| m_eps: "matches Eps p p"
| m_seq: "matches r p q \<Longrightarrow> matches s q t \<Longrightarrow> matches (Seq r s) p t"
| m_alt1: "matches r p q \<Longrightarrow> matches (Alt r s) p q"
| m_alt2: "matches s p q \<Longrightarrow> matches (Alt r s) p q"
| m_star0: "matches (Star r) p p"
| m_star: "matches r p q \<Longrightarrow> length (snd q) < length (snd p) \<Longrightarrow> matches (Star r) q t \<Longrightarrow> matches (Star r) p t"
| m_wordb: "word_boundary p \<Longrightarrow> matches WordB p p"
| m_start: "fst p = None \<Longrightarrow> matches AtStart p p"
| m_end: "snd p = [] \<Longrightarrow> matches AtEnd p p"
| m_not: "ends r p = [] \<Longrightarrow> matches (NotAhead r) p p"

inductive_cases matches_clsE: "matches (Cls P) p q"
inductive_cases matches_litE: "matches (Lit w) p q"
inductive_cases matches_seqE: "matches (Seq r s) p q"
inductive_cases matches_altE: "matches (Alt r s) p q"
inductive_simps matches_eps_iff: "matches Eps p q"
inductive_simps matches_wordb_iff: "matches WordB p q"
inductive_simps matches_start_iff: "matches AtStart p q"
inductive_simps matches_end_iff: "matches AtEnd p q"
inductive_simps matches_not_iff: "matches (NotAhead r) p q"

lemma ends_lit_append: "ends_lit w (pr, w @ cs) = [(if w = [] then pr else Some (last w), cs)]"
  by (induction w arbitrary: pr) auto

lemma ends_lit_matches: "q \<in> set (ends_lit w p) \<Longrightarrow> matches (Lit w) p q"
proof -
  have "q \<in> set (ends_lit w p) \<Longrightarrow>
      \<exists>cs. snd p = w @ cs \<and> q = (if w = [] then fst p else Some (last w), cs)"
    by (induction w p rule: ends_lit.induct) (auto split: if_splits)
  then show "q \<in> set (ends_lit w p) \<Longrightarrow> matches (Lit w) p q"
    using m_lit [of w "fst p"] by (metis prod.collapse)
qed

lemma star_ends_sound:
  assumes "\<And>p q. q \<in> set (f p) \<Longrightarrow> matches r p q"
  shows "q \<in> set (star_ends f n p) \<Longrightarrow> matches (Star r) p q"
proof (induction n arbitrary: p)
  case 0
  then show ?case by (simp add: m_star0)
next
  case (Suc n)
  then consider "q = p" | t where "t \<in> set (f p)" "length (snd t) < length (snd p)" "q \<in> set (star_ends f n t)"
    by auto
  then show ?case
  proof cases
    case 1
    then show ?thesis by (simp add: m_star0)
  next
    case 2
    then show ?thesis using m_star [OF assms [OF 2(1)] 2(2)] Suc.IH by blast
  qed
qed

lemma star_ends_complete:
  assumes "\<And>p q. matches r p q \<Longrightarrow> q \<in> set (f p)"
  shows "matches s p q \<Longrightarrow> s = Star r \<Longrightarrow> length (snd p) \<le> n \<Longrightarrow> q \<in> set (star_ends f n p)"
proof (induction arbitrary: n rule: matches.induct)
  case (m_star0 r' p)
  then show ?case by (cases n) auto
next
  case (m_star r' p q t)
  then obtain m where n: "n = Suc m" by (cases n) auto
  with m_star have "t \<in> set (star_ends f m q)" by simp
  moreover from m_star assms have "q \<in> set (f p)" by blast
  ultimately show ?case using m_star.hyps(2) unfolding n star_ends.simps set_append set_concat set_map set_filter
    by blast
qed simp_all

theorem ends_iff_matches: "q \<in> set (ends r p) \<longleftrightarrow> matches r p q"
proof (induction r arbitrary: p q)
  case (Cls P)
  show ?case by (cases p; cases "snd p") (auto intro: m_cls elim: matches_clsE)
next
  case (Lit w)
  show ?case
  proof
    assume "matches (Lit w) p q"
    then show "q \<in> set (ends (Lit w) p)" by (auto simp: ends_lit_append elim!: matches_litE)
  qed (simp add: ends_lit_matches)
next
  case (Seq r s)
  have "q \<in> set (ends (Seq r s) p) \<longleftrightarrow> (\<exists>t\<in>set (ends r p). q \<in> set (ends s t))" by simp
  also have "\<dots> \<longleftrightarrow> (\<exists>t. matches r p t \<and> matches s t q)" unfolding Bex_def Seq.IH ..
  finally have "q \<in> set (ends (Seq r s) p) \<longleftrightarrow> (\<exists>t. matches r p t \<and> matches s t q)" .
  then show ?case by (metis m_seq matches_seqE)
next
  case (Alt r s)
  then show ?case by (auto intro: m_alt1 m_alt2 elim: matches_altE)
next
  case (Star r)
  show ?case
  proof
    assume "q \<in> set (ends (Star r) p)"
    then show "matches (Star r) p q" using star_ends_sound [of "ends r" r q] Star.IH by simp
  next
    assume "matches (Star r) p q"
    then show "q \<in> set (ends (Star r) p)" using star_ends_complete [of r "ends r" "Star r" p q] Star.IH by simp
  qed
qed (auto simp: matches_eps_iff matches_wordb_iff matches_start_iff matches_end_iff matches_not_iff)

end
