(* ===== verification/AltanaGate.thy ===== *)
theory AltanaGate
  imports AltanaMoney JsRegex "HOL-Library.List_Lexorder" "HOL-Library.Char_ord"
begin

text \<open>
  The walls around the Altana assistant (\<open>altana.mjs\<close>): the excluded zones and their patterns, the check
  that refuses to start with an unsafe toolset, the adaptation of the app's own tools, and the screening
  of every tool call a model produces.  The digest behind a confirmation token (SHA-256 of the canonical
  JSON text) is the parameter \<open>digest\<close>.  Reasons shown to a reader are kept as the zone or tag they name.
\<close>

section \<open>Excluded zones\<close>

record zone =
  zn_zone :: string
  zn_re :: re

definition re_dash :: re where "re_dash = re_opt (re_any_of ''_-'')"
definition re_s :: re where "re_s = re_opt (re_chr (CHR ''s''))"

definition ZONE_BILLING :: re where
  "ZONE_BILLING = re_alt
     [re_lit ''billing'', re_seq [re_lit ''credit'', re_dash, re_lit ''card''], re_bounded (re_lit ''card''),
      re_lit ''payment'', re_lit ''invoice'', re_lit ''stripe'', re_lit ''checkout'', re_lit ''charge'',
      re_lit ''topup'', re_seq [re_lit ''top'', re_dash, re_lit ''up''], re_lit ''recharge'',
      re_lit ''subscription'', re_lit ''pricing'', re_lit ''payout'', re_lit ''refund'']"

definition ZONE_BUDGETS :: re where
  "ZONE_BUDGETS = re_alt
     [re_lit ''budget'', re_lit ''spend'', re_lit ''spending'', re_seq [re_lit ''credit'', re_s, WordB],
      re_lit ''allowance'', re_lit ''quota'', re_bounded (re_lit ''cap''), re_lit ''ceiling'',
      re_seq [re_lit ''limit'', re_s, WordB], re_lit ''meter'', re_lit ''balance'', re_lit ''wallet'']"

definition ZONE_PII :: re where
  "ZONE_PII = re_alt
     [re_bounded (re_lit ''pii''),
      re_seq [re_lit ''personal'', re_dash, re_words [''data'', ''info'']],
      re_bounded (re_lit ''ssn''), re_seq [re_lit ''social'', re_dash, re_lit ''security''], re_lit ''passport'',
      re_seq [re_lit ''date'', re_dash, re_lit ''of'', re_dash, re_lit ''birth''], re_bounded (re_lit ''dob''),
      re_seq [re_lit ''home'', re_dash, re_lit ''address''], re_seq [re_lit ''phone'', re_dash, re_lit ''number''],
      re_seq [re_lit ''contact'', re_dash, re_lit ''details''], re_lit ''identity'',
      re_seq [re_lit ''persona'', re_s, WordB], re_seq [re_lit ''profile'', re_s, WordB],
      re_seq [re_lit ''user'', re_dash, re_words [''record'', ''detail'', ''data'', ''info'', ''list''], re_s, WordB]]"

definition not_letter_before :: re where "not_letter_before = Alt AtStart re_not_lower"

definition ZONE_SECRETS :: re where
  "ZONE_SECRETS = re_alt
     [re_lit ''secret'', re_seq [re_lit ''api'', re_dash, re_lit ''key''], re_bounded (re_lit ''apikey''),
      re_seq [re_lit ''access'', re_dash, re_lit ''key''], re_lit ''token'', re_lit ''credential'',
      re_lit ''password'', re_lit ''passwd'',
      re_seq [not_letter_before, re_lit ''env'', re_s, NotAhead re_lower],
      re_seq [re_lit ''environment'', re_dash, re_lit ''var''], re_lit ''vault'', re_lit ''keychain'',
      re_lit ''oauth'', re_seq [not_letter_before, re_lit ''auth'', NotAhead re_lower]]"

definition ZONE_IP :: re where
  "ZONE_IP = re_alt
     [re_seq [re_lit ''source'', re_dash, re_lit ''code''], re_lit ''sourcecode'', re_bounded (re_lit ''repo''),
      re_lit ''repository'', re_lit ''github'',
      re_seq [re_lit ''forge_'', re_words [''read'', ''write'', ''edit'', ''run'', ''send'', ''rollback'']],
      re_seq [re_lit ''sandbox_'', re_words [''read'', ''write'', ''append'', ''list'']],
      re_seq [re_lit ''workspace_'', re_words [''read'', ''list'']],
      re_seq [re_lit ''system'', re_dash, re_lit ''prompt''], re_seq [re_lit ''prompt'', re_dash, re_lit ''text''],
      re_seq [re_lit ''internal'', re_dash, re_words [''doc'', ''design'']],
      re_seq [re_lit ''schema'', re_dash, re_lit ''dump''], re_seq [re_lit ''catalog'', re_dash, re_lit ''dump'']]"

definition ALTANA_EXCLUSIONS :: "zone list" where
  "ALTANA_EXCLUSIONS =
     [\<lparr>zn_zone = ''billing'', zn_re = ZONE_BILLING\<rparr>, \<lparr>zn_zone = ''budgets'', zn_re = ZONE_BUDGETS\<rparr>,
      \<lparr>zn_zone = ''pii'', zn_re = ZONE_PII\<rparr>, \<lparr>zn_zone = ''secrets'', zn_re = ZONE_SECRETS\<rparr>,
      \<lparr>zn_zone = ''ip'', zn_re = ZONE_IP\<rparr>]"

text \<open>\<open>wordify\<close>: an identifier broken into words.\<close>

definition is_upper :: "char \<Rightarrow> bool" where
  "is_upper c = (let n = (of_char c :: nat) in 65 \<le> n \<and> n \<le> 90)"
definition is_lower :: "char \<Rightarrow> bool" where
  "is_lower c = (let n = (of_char c :: nat) in 97 \<le> n \<and> n \<le> 122)"

fun split_camel :: "string \<Rightarrow> string" where
  "split_camel (a # b # r) =
     (if (is_lower a \<or> is_digit a) \<and> is_upper b then a # CHR '' '' # b # split_camel r else a # split_camel (b # r))"
| "split_camel s = s"

text \<open>A run of capitals is split before its last letter when a small letter follows; \<open>us\<close> is the run so
  far.\<close>

fun split_acronym :: "string \<Rightarrow> string \<Rightarrow> string" where
  "split_acronym us [] = us"
| "split_acronym us (c # cs) =
     (if is_upper c then split_acronym (us @ [c]) cs
      else if is_lower c \<and> 2 \<le> length us then butlast us @ [CHR '' '', last us, c] @ split_acronym [] cs
      else us @ c # split_acronym [] cs)"

definition is_separator :: "char \<Rightarrow> bool" where "is_separator c = (c \<in> set ''_-.'')"

fun join_separators :: "bool \<Rightarrow> string \<Rightarrow> string" where
  "join_separators inside [] = []"
| "join_separators inside (c # cs) =
     (if is_separator c then (if inside then [] else [CHR '' '']) @ join_separators True cs
      else c # join_separators False cs)"

definition wordify :: "string \<Rightarrow> string" where
  "wordify s = js_trim (join_separators False (split_acronym [] (split_camel s)))"

definition zoneMatches :: "zone \<Rightarrow> string \<Rightarrow> bool" where
  "zoneMatches ex name =
     (let w = wordify name in re_test_i (zn_re ex) name \<or> (w \<noteq> name \<and> re_test_i (zn_re ex) w))"

definition exclusionFor :: "string \<Rightarrow> zone option" where
  "exclusionFor name = find (\<lambda>ex. zoneMatches ex name) ALTANA_EXCLUSIONS"

section \<open>Her tools\<close>

text \<open>A tool with its declared argument names; \<open>tl_typedConfirm\<close> is empty when the field is missing.
  \<open>tl_fromRegistry\<close> marks a tool of the app, with its permission class.\<close>

record tool =
  tl_name :: string
  tl_write :: bool
  tl_irreversible :: bool
  tl_typedConfirm :: string
  tl_zone :: string
  tl_args :: "string list"
  tl_fromRegistry :: "string option"

definition own_tool :: "string \<Rightarrow> bool \<Rightarrow> bool \<Rightarrow> string list \<Rightarrow> tool" where
  "own_tool name write irreversible args =
     \<lparr>tl_name = name, tl_write = write, tl_irreversible = irreversible, tl_typedConfirm = [], tl_zone = [],
      tl_args = args, tl_fromRegistry = None\<rparr>"

definition tool_of_money :: "money_tool \<Rightarrow> tool" where
  "tool_of_money m =
     \<lparr>tl_name = mt_name m, tl_write = mt_write m, tl_irreversible = False, tl_typedConfirm = mt_typedConfirm m,
      tl_zone = mt_zone m, tl_args = (case mt_schema m of Some (ps, strict) \<Rightarrow> ps | None \<Rightarrow> []),
      tl_fromRegistry = None\<rparr>"

definition ALTANA_SETTABLE_SETTINGS :: "string list" where
  "ALTANA_SETTABLE_SETTINGS = [''privacy_mode'', ''model'', ''sound'']"

definition ALTANA_TOOLS :: "tool list" where
  "ALTANA_TOOLS =
     [own_tool ''list_settings'' False False [],
      own_tool ''set_setting'' True False [''setting'', ''value''],
      own_tool ''open_screen'' True False [''screen''],
      own_tool ''search_help'' False False [''question''],
      own_tool ''list_work'' False False [''kind''],
      own_tool ''log_complaint'' True False [''summary'', ''reply_to''],
      own_tool ''support_lookup'' False False [''problem''],
      own_tool ''open_ticket'' True False [''problem'', ''reply_to''],
      own_tool ''escalate_to_owner'' True False [''ticket'', ''why''],
      own_tool ''check_my_tickets'' False False []]
     @ map tool_of_money MONEY_TOOLS
     @ [own_tool ''delete_saved_work'' True True [''id'', ''title''],
        own_tool ''delete_work_order'' True True [''id'', ''title'']]"

text \<open>The carve-outs: a tool and the zones it may reach.  Each records a reason and what must be typed.\<close>

record carve =
  cv_tool :: string
  cv_zones :: "string list"
  cv_recorded :: bool

definition ALTANA_CARVE_OUT :: "carve list" where
  "ALTANA_CARVE_OUT =
     [\<lparr>cv_tool = ''read_money_state'', cv_zones = [''budgets''], cv_recorded = True\<rparr>,
      \<lparr>cv_tool = ''buy_credits'', cv_zones = [''billing'', ''budgets''], cv_recorded = True\<rparr>,
      \<lparr>cv_tool = ''set_top_off'', cv_zones = [''billing'', ''budgets''], cv_recorded = True\<rparr>]"

definition carveOutFor :: "string \<Rightarrow> carve option" where
  "carveOutFor name = find (\<lambda>c. cv_tool c = name) ALTANA_CARVE_OUT"

definition ALTANA_FORBIDDEN_TOOLS :: "string list" where
  "ALTANA_FORBIDDEN_TOOLS =
     [''desktop_control'', ''browser_control'', ''forge_send'', ''claude_work_order'', ''dominion_work_order'',
      ''add_to_persona'', ''scrape_to_persona'', ''long_job'']"

text \<open>The verbs the assistant is deliberately not given, each with the zone it lies in.\<close>

definition ALTANA_WITHHELD :: "(string \<times> string) list" where
  "ALTANA_WITHHELD =
     [(''billing_topup'', ''billing''), (''billing_autorecharge'', ''billing''), (''set_spend_limit'', ''budgets''),
      (''set_budget'', ''budgets''), (''read_credits_balance'', ''budgets''), (''read_account_profile'', ''pii''),
      (''search_persona'', ''pii''), (''list_user_profiles'', ''pii''), (''connector_credentials'', ''secrets''),
      (''forge_token'', ''secrets''), (''read_env'', ''secrets''), (''forge_read'', ''ip''), (''workspace_read'', ''ip''),
      (''github_read'', ''ip''), (''sandbox_read'', ''ip'')]"

datatype toolset_problem =
  NameInZone string string
| NoTypedValue string string
| ZoneNotGranted string string
| ArgumentInZone string string string
| AmountArgumentOn string string
| Unrecorded string
| SettingInZone string string

definition name_problems :: "tool \<Rightarrow> toolset_problem list" where
  "name_problems t =
     (let zonesHit = filter (\<lambda>ex. zoneMatches ex (tl_name t)) ALTANA_EXCLUSIONS in
      case zonesHit of
        [] \<Rightarrow> []
      | z # _ \<Rightarrow>
          (case carveOutFor (tl_name t) of
             None \<Rightarrow> [NameInZone (tl_name t) (zn_zone z)]
           | Some carve \<Rightarrow>
               if tl_typedConfirm t = [] then [NoTypedValue (tl_name t) (zn_zone z)]
               else map (\<lambda>z. ZoneNotGranted (tl_name t) (zn_zone z))
                      (filter (\<lambda>z. zn_zone z \<notin> set (cv_zones carve)) zonesHit)))"

definition argument_problems :: "tool \<Rightarrow> string \<Rightarrow> toolset_problem list" where
  "argument_problems t arg =
     (case exclusionFor arg of Some z \<Rightarrow> [ArgumentInZone (tl_name t) arg (zn_zone z)] | None \<Rightarrow> [])
     @ (if carveOutFor (tl_name t) \<noteq> None \<and> amount_shaped arg then [AmountArgumentOn (tl_name t) arg] else [])"

definition assertToolsetSafe :: "tool list \<Rightarrow> string list \<Rightarrow> toolset_problem list + unit" where
  "assertToolsetSafe tools settableKeys =
     (let problems =
        concat (map (\<lambda>t. name_problems t @ concat (map (argument_problems t) (tl_args t))) tools)
        @ map (\<lambda>c. Unrecorded (cv_tool c))
            (filter (\<lambda>c. list_ex (\<lambda>t. tl_name t = cv_tool c) tools \<and> \<not> cv_recorded c) ALTANA_CARVE_OUT)
        @ concat (map (\<lambda>key. case exclusionFor key of Some z \<Rightarrow> [SettingInZone key (zn_zone z)] | None \<Rightarrow> [])
            settableKeys)
      in if problems \<noteq> [] then Inl problems else Inr ())"

section \<open>The tools of the app\<close>

record registry_def =
  rd_name :: string
  rd_args :: "string list"

definition IRREVERSIBLE_CLASSES :: "string list" where "IRREVERSIBLE_CLASSES = [''dangerous'']"

definition WRITE_CLASSES :: "string list" where
  "WRITE_CLASSES = [''dangerous'', ''requires_confirmation'', ''safe_local_write'', ''draft_only'']"

datatype refusal = OnDenyList string | ZoneOfName string string | ZoneOfArgument string string string

text \<open>\<open>metaFor\<close> gives the permission class the app declares for a tool, if any.\<close>

definition adapt_one :: "(string \<Rightarrow> string option) \<Rightarrow> string list \<Rightarrow> registry_def \<Rightarrow> (refusal + tool) option" where
  "adapt_one metaFor forbidden d =
     (let name = rd_name d in
      if name = [] then None
      else if name \<in> set forbidden then Some (Inl (OnDenyList name))
      else case (exclusionFor name, carveOutFor name) of
             (Some z, None) \<Rightarrow> Some (Inl (ZoneOfName name (zn_zone z)))
           | _ \<Rightarrow>
               (case find (\<lambda>a. exclusionFor a \<noteq> None) (rd_args d) of
                  Some a \<Rightarrow> Some (Inl (ZoneOfArgument name a (case exclusionFor a of Some z \<Rightarrow> zn_zone z | None \<Rightarrow> [])))
                | None \<Rightarrow>
                    let cls = (case metaFor name of Some c \<Rightarrow> if c = [] then ''read_only'' else c
                               | None \<Rightarrow> ''read_only'')
                    in Some (Inr \<lparr>tl_name = name, tl_write = (cls \<in> set WRITE_CLASSES),
                                 tl_irreversible = (cls \<in> set IRREVERSIBLE_CLASSES), tl_typedConfirm = [],
                                 tl_zone = [], tl_args = rd_args d, tl_fromRegistry = Some cls\<rparr>)))"

definition adaptRegistryTools ::
  "(string \<Rightarrow> string option) \<Rightarrow> string list \<Rightarrow> registry_def list \<Rightarrow> tool list \<times> refusal list" where
  "adaptRegistryTools metaFor forbidden defs =
     (let rs = List.map_filter (adapt_one metaFor forbidden) defs
      in (List.map_filter (\<lambda>r. case r of Inr t \<Rightarrow> Some t | Inl _ \<Rightarrow> None) rs,
          List.map_filter (\<lambda>r. case r of Inl e \<Rightarrow> Some e | Inr _ \<Rightarrow> None) rs))"

fun merge_tools :: "string list \<Rightarrow> tool list \<Rightarrow> tool list" where
  "merge_tools seen [] = []"
| "merge_tools seen (t # ts) =
     (if tl_name t \<in> set seen then merge_tools seen ts else t # merge_tools (tl_name t # seen) ts)"

definition altanaToolsetFor ::
  "(string \<Rightarrow> string option) \<Rightarrow> registry_def list \<Rightarrow> tool list \<Rightarrow> tool list \<times> refusal list" where
  "altanaToolsetFor metaFor registryDefs base =
     (let (extra, refused) = adaptRegistryTools metaFor ALTANA_FORBIDDEN_TOOLS registryDefs
      in (base @ merge_tools (map tl_name base) extra, refused))"

definition altanaTool :: "tool list \<Rightarrow> string \<Rightarrow> tool option" where
  "altanaTool tools name = find (\<lambda>t. tl_name t = name) tools"

section \<open>What a model writes into a call\<close>

datatype json =
  JNull
| JBool bool
| JNum int
| JStr string
| JArr "json list"
| JObj "(string \<times> json) list"

text \<open>\<open>sortedish\<close>: keys in order, at every depth.  \<open>Object.keys\<close> of an object has every key once.  Numbers
  are whole, and keys are not array indices, whose order an object fixes by itself.\<close>

fun sortedish :: "json \<Rightarrow> json" where
  "sortedish (JArr xs) = JArr (map sortedish xs)"
| "sortedish (JObj kvs) = JObj (sort_key fst (map (\<lambda>(k, v). (k, sortedish v)) kvs))"
| "sortedish v = v"

definition confirmationToken :: "(string \<Rightarrow> json \<Rightarrow> string) \<Rightarrow> string \<Rightarrow> json \<Rightarrow> string" where
  "confirmationToken digest name args = digest name (sortedish args)"

definition truthy :: "json \<Rightarrow> bool" where
  "truthy v = (case v of JNull \<Rightarrow> False | JBool b \<Rightarrow> b | JNum n \<Rightarrow> n \<noteq> 0 | JStr s \<Rightarrow> s \<noteq> [] | _ \<Rightarrow> True)"

text \<open>\<open>String(v)\<close>\<close>

fun js_text :: "json \<Rightarrow> string" where
  "js_text JNull = ''null''"
| "js_text (JBool b) = (if b then ''true'' else ''false'')"
| "js_text (JNum n) = show_int n"
| "js_text (JStr s) = s"
| "js_text (JArr xs) = join '','' (map (\<lambda>x. if x = JNull then [] else js_text x) xs)"
| "js_text (JObj _) = ''[object Object]''"

definition js_field :: "json \<Rightarrow> string \<Rightarrow> json option" where
  "js_field v k = (case v of JObj kvs \<Rightarrow> map_of kvs k | _ \<Rightarrow> None)"

definition setting_key :: "json \<Rightarrow> string" where
  "setting_key args = (case js_field args ''setting'' of Some v \<Rightarrow> if truthy v then js_text v else [] | None \<Rightarrow> [])"

section \<open>The gate on every call\<close>

datatype block_reason = UnknownTool "string option" | ShapedByDocument | SettingZone string | NotSettable string

datatype call_verdict =
  Allow
| Confirm string
| TypedConfirm string string
| Block block_reason

definition CONFIRM_WHEN_DOCUMENT_PRESENT :: "string list" where
  "CONFIRM_WHEN_DOCUMENT_PRESENT = [''set_setting'', ''log_complaint'', ''open_ticket'', ''escalate_to_owner'']"

record screen_ctx =
  sx_confirmations :: "string list"
  sx_injectionFlagged :: bool
  sx_toolResultPresent :: bool
  sx_settableKeys :: "string list"
  sx_tools :: "tool list"

definition typed_zone :: "tool \<Rightarrow> string" where
  "typed_zone t = (if tl_zone t \<noteq> [] then tl_zone t else [])"

definition setting_block :: "string list \<Rightarrow> string \<Rightarrow> json \<Rightarrow> block_reason option" where
  "setting_block settableKeys name args =
     (if name = ''set_setting''
      then let key = setting_key args in
           case exclusionFor key of
             Some z \<Rightarrow> Some (SettingZone (zn_zone z))
           | None \<Rightarrow> if key \<notin> set settableKeys then Some (NotSettable key) else None
      else None)"

text \<open>The arguments of a call, the empty object when they are missing or falsy.\<close>

definition call_args :: "json \<Rightarrow> json" where
  "call_args v = (if truthy v then v else JObj [])"

definition screenToolCall :: "(string \<Rightarrow> json \<Rightarrow> string) \<Rightarrow> screen_ctx \<Rightarrow> string \<Rightarrow> json \<Rightarrow> call_verdict" where
  "screenToolCall digest cx name cargs =
     (let args = call_args cargs in case altanaTool (sx_tools cx) name of
        None \<Rightarrow> Block (UnknownTool (map_option zn_zone (exclusionFor name)))
      | Some t \<Rightarrow>
          if tl_typedConfirm t \<noteq> [] \<and> tl_typedConfirm t \<noteq> ''none''
          then TypedConfirm (tl_typedConfirm t) (typed_zone t)
          else if sx_injectionFlagged cx \<and> tl_write t then Block ShapedByDocument
          else case setting_block (sx_settableKeys cx) name args of
                 Some r \<Rightarrow> Block r
               | None \<Rightarrow>
                   let needsYes = (tl_irreversible t
                         \<or> sx_toolResultPresent cx \<and> name \<in> set CONFIRM_WHEN_DOCUMENT_PRESENT);
                       token = confirmationToken digest name args
                   in if needsYes \<and> token \<notin> set (sx_confirmations cx) then Confirm token else Allow)"

section \<open>Text that reads as an instruction\<close>

definition re_nouns :: "string list \<Rightarrow> re" where
  "re_nouns ws = re_seq [re_words ws, re_s]"

definition sp1 :: re where "sp1 = re_plus re_space"

definition INJECTION_PATTERNS :: "re list" where
  "INJECTION_PATTERNS =
     [re_seq [re_lit ''ignore '', re_opt (re_words [''all '', ''any '', ''the '']),
        re_words [''previous'', ''prior'', ''earlier'', ''above''], sp1,
        re_alt [re_nouns [''instruction''], re_nouns [''rule''], re_nouns [''prompt'']]],
      re_seq [re_lit ''disregard '', re_words [''your'', ''the'', ''all'', ''any''], sp1,
        re_alt [re_nouns [''instruction''], re_nouns [''rule''], re_nouns [''guideline''], re_lit ''system'']],
      re_seq [re_alt [re_seq [re_lit ''you '', re_words [''are'', ''must'', ''should''], re_lit '' now''],
          re_seq [re_lit ''from now on'', re_opt (re_chr (CHR '','')), re_lit '' you'']], WordB],
      re_seq [re_lit ''new '', re_opt (re_lit ''system ''),
        re_alt [re_nouns [''instruction''], re_lit ''prompt'', re_nouns [''rule'']], Star re_space, re_lit '':''],
      re_seq [WordB, re_words [''system'', ''assistant'', ''developer''], Star re_space, re_lit '':'', Star re_space,
        re_not_space],
      re_seq [re_lit ''<'', re_opt (re_lit ''|''), re_words [''im_start'', ''im_end'', ''system'', ''endoftext''],
        re_opt (re_lit ''|''), re_lit ''>''],
      re_seq [WordB, re_words [''call'', ''invoke'', ''use'', ''run''], sp1, re_opt (Seq (re_lit ''the'') sp1),
        re_words [''tool'', ''function''], WordB],
      re_seq [WordB, re_words [''set'', ''change'', ''update'', ''turn'', ''toggle'', ''disable'', ''enable'', ''switch''],
        sp1, re_opt (Seq (re_lit ''the'') sp1), re_upto 24 (Alt re_lower (re_any_of ''_ '')),
        re_words [''setting'', ''mode'', ''flag'', ''option'', ''theme'', ''cap'', ''limit''], WordB],
      re_seq [WordB, re_lit ''do not '', re_words [''tell'', ''mention'', ''show'', ''inform''], sp1, re_lit ''the'', sp1,
        re_lit ''user'', WordB],
      re_seq [WordB, re_words [''reveal'', ''print'', ''output'', ''repeat'', ''show''], sp1,
        re_words [''your'', ''the''], sp1, re_opt (Seq (re_lit ''system'') sp1),
        re_alt [re_lit ''prompt'', re_nouns [''instruction''], re_lit ''key'', re_lit ''token'', re_lit ''secret'']]]"

definition looksLikeInjectedInstruction :: "string \<Rightarrow> bool" where
  "looksLikeInjectedInstruction text = list_ex (\<lambda>r. re_test_i r text) INJECTION_PATTERNS"

record wire_msg =
  wm_role :: string
  wm_content :: string

definition TOOL_RESULT_HEADER :: string where "TOOL_RESULT_HEADER = ''TOOL RESULT (''"

definition isToolResultMessage :: "wire_msg \<Rightarrow> bool" where
  "isToolResultMessage m =
     (wm_role m = ''tool'' \<or> take (length TOOL_RESULT_HEADER) (wm_content m) = TOOL_RESULT_HEADER)"

section \<open>Screening a reply\<close>

record tool_call =
  tc_name :: string
  tc_args :: json

record screened =
  sd_allowed :: "tool_call list"
  sd_blocked :: "(tool_call \<times> block_reason) list"
  sd_confirm :: "(tool_call \<times> string) list"
  sd_typed :: "(tool_call \<times> string) list"

definition turn_ctx :: "wire_msg list \<Rightarrow> string list \<Rightarrow> bool \<Rightarrow> string list \<Rightarrow> tool list \<Rightarrow> screen_ctx" where
  "turn_ctx wire confirmations injectionFlagged settableKeys toolset =
     \<lparr>sx_confirmations = confirmations,
      sx_injectionFlagged = (injectionFlagged \<or>
         list_ex (\<lambda>m. isToolResultMessage m \<and> looksLikeInjectedInstruction (wm_content m)) wire),
      sx_toolResultPresent = list_ex isToolResultMessage wire,
      sx_settableKeys = settableKeys, sx_tools = toolset\<rparr>"

definition screen_one :: "(string \<Rightarrow> json \<Rightarrow> string) \<Rightarrow> screen_ctx \<Rightarrow> screened \<Rightarrow> tool_call \<Rightarrow> screened" where
  "screen_one digest cx s c =
     (case screenToolCall digest cx (tc_name c) (tc_args c) of
        Allow \<Rightarrow> s\<lparr>sd_allowed := sd_allowed s @ [c]\<rparr>
      | Confirm token \<Rightarrow> s\<lparr>sd_confirm := sd_confirm s @ [(c, token)]\<rparr>
      | TypedConfirm kind zn \<Rightarrow> s\<lparr>sd_typed := sd_typed s @ [(c, kind)]\<rparr>
      | Block r \<Rightarrow> s\<lparr>sd_blocked := sd_blocked s @ [(c, r)]\<rparr>)"

definition screen_calls :: "(string \<Rightarrow> json \<Rightarrow> string) \<Rightarrow> screen_ctx \<Rightarrow> tool_call list \<Rightarrow> screened" where
  "screen_calls digest cx calls =
     foldl (screen_one digest cx) \<lparr>sd_allowed = [], sd_blocked = [], sd_confirm = [], sd_typed = []\<rparr> calls"

end
