(* ===== verification/AltanaGate_Props.thy ===== *)
theory AltanaGate_Props
  imports AltanaGate
begin

text \<open>
  What the walls around the assistant give: the properties of a toolset that passed the check at load, of
  the tools adapted from the app, and of every call that is let through.
\<close>

section \<open>A toolset that passed the check\<close>

lemma problems_Nil_iff:
  "assertToolsetSafe tools keys = Inr () \<longleftrightarrow>
     (\<forall>t \<in> set tools. name_problems t = [] \<and> (\<forall>a \<in> set (tl_args t). argument_problems t a = []))
     \<and> (\<forall>c \<in> set ALTANA_CARVE_OUT. list_ex (\<lambda>t. tl_name t = cv_tool c) tools \<longrightarrow> cv_recorded c)
     \<and> (\<forall>k \<in> set keys. exclusionFor k = None)"
  by (auto simp: assertToolsetSafe_def Let_def filter_empty_conv split: option.splits)

lemma exclusionFor_None: "exclusionFor n = None \<longleftrightarrow> filter (\<lambda>ex. zoneMatches ex n) ALTANA_EXCLUSIONS = []"
  by (auto simp: exclusionFor_def find_None_iff filter_empty_conv)

text \<open>The same search with the two forms of the name made once.\<close>

lemma exclusionFor_code [code]:
  "exclusionFor n =
     (let w = wordify n; l = lowercase n in
      if w = n then find (\<lambda>ex. re_test (zn_re ex) l) ALTANA_EXCLUSIONS
      else let lw = lowercase w in find (\<lambda>ex. re_test (zn_re ex) l \<or> re_test (zn_re ex) lw) ALTANA_EXCLUSIONS)"
  by (simp add: exclusionFor_def zoneMatches_def re_test_i_def Let_def)

lemma name_problems_Nil:
  "name_problems t = [] \<Longrightarrow>
     exclusionFor (tl_name t) = None
     \<or> (\<exists>c. carveOutFor (tl_name t) = Some c \<and> tl_typedConfirm t \<noteq> []
            \<and> (\<forall>z \<in> set ALTANA_EXCLUSIONS. zoneMatches z (tl_name t) \<longrightarrow> zn_zone z \<in> set (cv_zones c)))"
proof -
  assume p: "name_problems t = []"
  show ?thesis
  proof (cases "filter (\<lambda>ex. zoneMatches ex (tl_name t)) ALTANA_EXCLUSIONS")
    case Nil
    then show ?thesis by (simp add: exclusionFor_None)
  next
    case (Cons y ys)
    have "z \<in> set (y # ys)" if "z \<in> set ALTANA_EXCLUSIONS" "zoneMatches z (tl_name t)" for z
      unfolding Cons [symmetric] using that by simp
    with p Cons show ?thesis
      by (auto simp: name_problems_def filter_empty_conv split: option.splits if_splits)
  qed
qed

lemma argument_problems_Nil:
  "argument_problems t a = [] \<Longrightarrow>
     exclusionFor a = None \<and> (carveOutFor (tl_name t) \<noteq> None \<longrightarrow> \<not> amount_shaped a)"
  by (auto simp: argument_problems_def split: option.splits if_splits)

lemma base_carved: "\<forall>t \<in> set ALTANA_TOOLS. carveOutFor (tl_name t) \<noteq> None \<longrightarrow>
   tl_name t = ''read_money_state'' \<or> (tl_typedConfirm t \<noteq> [] \<and> tl_typedConfirm t \<noteq> ''none'')"
  by code_simp

lemma carved_in_base: "carveOutFor n \<noteq> None \<Longrightarrow> n \<in> set (map tl_name ALTANA_TOOLS)"
proof -
  have a: "list_all (\<lambda>c. cv_tool c \<in> set (map tl_name ALTANA_TOOLS)) ALTANA_CARVE_OUT" by code_simp
  assume "carveOutFor n \<noteq> None"
  then obtain c where "find (\<lambda>c. cv_tool c = n) ALTANA_CARVE_OUT = Some c" by (auto simp: carveOutFor_def)
  then have "c \<in> set ALTANA_CARVE_OUT" "cv_tool c = n" by (auto simp: find_Some_iff)
  with a show ?thesis by (auto simp: list_all_iff)
qed

section \<open>The merged toolset\<close>

lemma adapt_one_tool:
  assumes "adapt_one metaFor forbidden d = Some (Inr t)"
  shows "tl_name t = rd_name d" "rd_name d \<notin> set forbidden"
    "exclusionFor (rd_name d) = None \<or> carveOutFor (rd_name d) \<noteq> None"
    "tl_args t = rd_args d" "\<forall>a \<in> set (rd_args d). exclusionFor a = None"
    "tl_typedConfirm t = []" "tl_fromRegistry t \<noteq> None"
    "tl_irreversible t = (metaFor (rd_name d) = Some ''dangerous'')"
proof -
  have "set (rd_args d) \<subseteq> {a. exclusionFor a = None} \<longleftrightarrow> find (\<lambda>a. exclusionFor a \<noteq> None) (rd_args d) = None"
    by (auto simp: find_None_iff)
  with assms show "tl_name t = rd_name d" "rd_name d \<notin> set forbidden"
    "exclusionFor (rd_name d) = None \<or> carveOutFor (rd_name d) \<noteq> None"
    "tl_args t = rd_args d" "\<forall>a \<in> set (rd_args d). exclusionFor a = None"
    "tl_typedConfirm t = []" "tl_fromRegistry t \<noteq> None"
    "tl_irreversible t = (metaFor (rd_name d) = Some ''dangerous'')"
    by (auto simp: adapt_one_def Let_def IRREVERSIBLE_CLASSES_def split: if_splits option.splits)
qed

lemma adapted_from:
  assumes "t \<in> set (fst (adaptRegistryTools metaFor forbidden defs))"
  obtains d where "d \<in> set defs" "adapt_one metaFor forbidden d = Some (Inr t)"
  using assms by (auto simp: adaptRegistryTools_def Let_def List.map_filter_def split: sum.splits)

lemma merge_tools_mem: "t \<in> set (merge_tools seen ts) \<Longrightarrow> t \<in> set ts \<and> tl_name t \<notin> set seen"
  by (induction seen ts rule: merge_tools.induct) (auto split: if_splits)

lemma toolset_mem:
  assumes "altanaToolsetFor metaFor defs base = (ts, refused)" "t \<in> set ts"
  obtains "t \<in> set base"
  | d where "d \<in> set defs" "adapt_one metaFor ALTANA_FORBIDDEN_TOOLS d = Some (Inr t)"
      "tl_name t \<notin> set (map tl_name base)"
proof -
  from assms have "t \<in> set base
      \<or> t \<in> set (merge_tools (map tl_name base) (fst (adaptRegistryTools metaFor ALTANA_FORBIDDEN_TOOLS defs)))"
    by (auto simp: altanaToolsetFor_def split: prod.splits)
  then show thesis
    by (meson adapted_from merge_tools_mem that)
qed

section \<open>A call that is let through\<close>

lemma screen_Allow:
  assumes "screenToolCall digest cx name cargs = Allow"
  obtains t where "altanaTool (sx_tools cx) name = Some t"
    "tl_typedConfirm t = [] \<or> tl_typedConfirm t = ''none''"
    "sx_injectionFlagged cx \<longrightarrow> \<not> tl_write t"
    "setting_block (sx_settableKeys cx) name (call_args cargs) = None"
    "tl_irreversible t \<or> sx_toolResultPresent cx \<and> name \<in> set CONFIRM_WHEN_DOCUMENT_PRESENT \<longrightarrow>
       confirmationToken digest name (call_args cargs) \<in> set (sx_confirmations cx)"
  using assms
  by (auto simp: screenToolCall_def Let_def split: option.splits if_splits)

lemma altanaTool_Some: "altanaTool ts name = Some t \<Longrightarrow> t \<in> set ts \<and> tl_name t = name"
  by (auto simp: altanaTool_def find_Some_iff)

lemma setting_block_None:
  "setting_block keys name args = None \<longleftrightarrow>
     (name = ''set_setting'' \<longrightarrow> exclusionFor (setting_key args) = None \<and> setting_key args \<in> set keys)"
  by (auto simp: setting_block_def Let_def split: option.splits if_splits)

text \<open>C4: what is left of a call that the gate lets through.  Take any toolset that passed the check at load
  and holds the carved-out verbs, any tools of the app adapted to it, and any context.  If a call is
  allowed then its tool is in the toolset, asks for no typed value, is not on the deny-list unless it is one
  of the base verbs, and takes no argument in an excluded zone; its name lies in no excluded zone, except for
  a base verb that was carved out, declares the typed value ''none'' and has every zone it reaches granted;
  a flagged turn lets no write through; an irreversible verb, and a persisting verb while a document is in the
  turn, carries the confirmation of exactly this call; and a setting is on the list and in no zone.\<close>

theorem allowed_call_is_walled:
  assumes started: "assertToolsetSafe base keys = Inr ()"
    and carved: "\<forall>c \<in> set ALTANA_CARVE_OUT. cv_tool c \<in> set (map tl_name base)"
    and merged: "altanaToolsetFor metaFor defs base = (sx_tools cx, refused)"
    and allowed: "screenToolCall digest cx name cargs = Allow"
  shows "\<exists>t \<in> set (sx_tools cx). tl_name t = name \<and> (tl_typedConfirm t = [] \<or> tl_typedConfirm t = ''none'')
    \<and> (t \<in> set base \<or> name \<notin> set ALTANA_FORBIDDEN_TOOLS)
    \<and> (\<forall>a \<in> set (tl_args t). exclusionFor a = None)
    \<and> (exclusionFor name = None
        \<or> t \<in> set base \<and> tl_typedConfirm t = ''none''
          \<and> (\<exists>c. carveOutFor name = Some c
               \<and> (\<forall>z \<in> set ALTANA_EXCLUSIONS. zoneMatches z name \<longrightarrow> zn_zone z \<in> set (cv_zones c))))
    \<and> (sx_injectionFlagged cx \<longrightarrow> \<not> tl_write t)
    \<and> (tl_irreversible t \<or> sx_toolResultPresent cx \<and> name \<in> set CONFIRM_WHEN_DOCUMENT_PRESENT \<longrightarrow>
         confirmationToken digest name (call_args cargs) \<in> set (sx_confirmations cx))
    \<and> (name = ''set_setting'' \<longrightarrow>
         setting_key (call_args cargs) \<in> set (sx_settableKeys cx) \<and> exclusionFor (setting_key (call_args cargs)) = None)"
proof -
  obtain t where t: "altanaTool (sx_tools cx) name = Some t"
    and typed: "tl_typedConfirm t = [] \<or> tl_typedConfirm t = ''none''"
    and rest: "sx_injectionFlagged cx \<longrightarrow> \<not> tl_write t"
      "setting_block (sx_settableKeys cx) name (call_args cargs) = None"
      "tl_irreversible t \<or> sx_toolResultPresent cx \<and> name \<in> set CONFIRM_WHEN_DOCUMENT_PRESENT \<longrightarrow>
         confirmationToken digest name (call_args cargs) \<in> set (sx_confirmations cx)"
    using allowed by (rule screen_Allow)
  then have mem: "t \<in> set (sx_tools cx)" and nm: "tl_name t = name" using altanaTool_Some by auto
  have "(t \<in> set base \<or> name \<notin> set ALTANA_FORBIDDEN_TOOLS) \<and> (\<forall>a \<in> set (tl_args t). exclusionFor a = None)
      \<and> (exclusionFor name = None
        \<or> t \<in> set base \<and> tl_typedConfirm t = ''none''
          \<and> (\<exists>c. carveOutFor name = Some c
               \<and> (\<forall>z \<in> set ALTANA_EXCLUSIONS. zoneMatches z name \<longrightarrow> zn_zone z \<in> set (cv_zones c))))"
    using merged mem
  proof (cases rule: toolset_mem)
    case 1
    with started have "name_problems t = []" "\<forall>a \<in> set (tl_args t). exclusionFor a = None"
      using argument_problems_Nil [of t] unfolding problems_Nil_iff by blast+
    with 1 typed name_problems_Nil [of t] nm show ?thesis by auto
  next
    case (2 d)
    note a = adapt_one_tool [OF 2(2)]
    have "carveOutFor name = None"
      using carved 2(3) nm unfolding carveOutFor_def find_None_iff by (metis (lifting))
    with a nm show ?thesis by auto
  qed
  with mem nm typed rest show ?thesis unfolding setting_block_None by blast
qed

section \<open>Money never moves on a click\<close>

text \<open>Whatever else is in the turn, the two verbs that spend are answered with a field to type into.\<close>

lemma find_app: "find P (xs @ ys) = (case find P xs of Some x \<Rightarrow> Some x | None \<Rightarrow> find P ys)"
  by (induction xs) auto

lemma altanaTool_base:
  assumes "altanaToolsetFor metaFor defs base = (ts, refused)" "altanaTool base name = Some t"
  shows "altanaTool ts name = Some t"
  using assms by (auto simp: altanaToolsetFor_def altanaTool_def find_app split: prod.splits)

lemma spending_verbs_are_typed:
  assumes "altanaToolsetFor metaFor defs ALTANA_TOOLS = (sx_tools cx, refused)"
    and "name = ''buy_credits'' \<or> name = ''set_top_off''"
  shows "\<exists>kind zn. screenToolCall digest cx name cargs = TypedConfirm kind zn"
proof -
  have "altanaTool ALTANA_TOOLS ''buy_credits'' = Some (tool_of_money buyCreditsTool)"
    "altanaTool ALTANA_TOOLS ''set_top_off'' = Some (tool_of_money setTopOffTool)"
    "tl_typedConfirm (tool_of_money buyCreditsTool) \<notin> {[], ''none''}"
    "tl_typedConfirm (tool_of_money setTopOffTool) \<notin> {[], ''none''}"
    by code_simp+
  with altanaTool_base [OF assms(1)] assms(2) show ?thesis
    by (auto simp: screenToolCall_def)
qed

section \<open>Tools of the app that ask for a confirmation\<close>

lemma adapt_asks_for_confirmation:
  assumes "adapt_one metaFor forbidden d = Some (Inr t)" "metaFor (rd_name d) = Some ''requires_confirmation''"
  shows "tl_write t" "\<not> tl_irreversible t"
  using assms
  by (auto simp: adapt_one_def Let_def IRREVERSIBLE_CLASSES_def WRITE_CLASSES_def split: if_splits option.splits)

lemma merge_tools_distinct: "distinct (map tl_name (merge_tools seen ts))"
  by (induction seen ts rule: merge_tools.induct) (auto dest: merge_tools_mem)

lemma find_named: "distinct (map tl_name ts) \<Longrightarrow> t \<in> set ts \<Longrightarrow> find (\<lambda>x. tl_name x = tl_name t) ts = Some t"
  by (induction ts) auto

text \<open>A tool that came from the app is the one its name finds: base names and repeated names were dropped.\<close>

lemma altanaTool_merged:
  assumes "altanaToolsetFor metaFor defs base = (ts, refused)" "t \<in> set ts" "t \<notin> set base"
  shows "altanaTool ts (tl_name t) = Some t"
proof -
  let ?more = "merge_tools (map tl_name base) (fst (adaptRegistryTools metaFor ALTANA_FORBIDDEN_TOOLS defs))"
  have ts: "ts = base @ ?more" using assms(1) by (auto simp: altanaToolsetFor_def split: prod.splits)
  with assms(2,3) have t: "t \<in> set ?more" by simp
  then have "tl_name t \<notin> set (map tl_name base)" using merge_tools_mem by blast
  then have "find (\<lambda>x. tl_name x = tl_name t) base = None" unfolding find_None_iff by (metis (lifting) image_eqI image_set)
  with t show ?thesis by (simp add: altanaTool_def ts find_app find_named merge_tools_distinct)
qed

text \<open>C5: the permission class \<open>requires_confirmation\<close> asks nobody.  Every tool of the app, wherever its
  registry lists it, that reaches the assistant with this class under a name that is not one of the four
  persisting verbs is allowed at once on every turn that is not flagged: with no confirmation at all, and even
  while a document is in the turn.\<close>

theorem confirmation_class_asks_nobody:
  assumes merged: "altanaToolsetFor metaFor defs base = (sx_tools cx, refused)"
    and offered: "t \<in> set (sx_tools cx)" "t \<notin> set base"
    and cls: "metaFor (tl_name t) = Some ''requires_confirmation''"
    and other: "tl_name t \<notin> set CONFIRM_WHEN_DOCUMENT_PRESENT"
    and unflagged: "\<not> sx_injectionFlagged cx"
  shows "screenToolCall digest cx (tl_name t) cargs = Allow"
proof -
  obtain d where d: "adapt_one metaFor ALTANA_FORBIDDEN_TOOLS d = Some (Inr t)"
    using merged offered(1) by (rule toolset_mem) (use offered(2) in auto)
  note a = adapt_one_tool [OF d] adapt_asks_for_confirmation [OF d]
  have "tl_name t \<noteq> ''set_setting''" using other by (auto simp: CONFIRM_WHEN_DOCUMENT_PRESENT_def)
  with altanaTool_merged [OF merged offered] a cls other unflagged show ?thesis
    by (simp add: screenToolCall_def Let_def setting_block_def)
qed

section \<open>A concrete toolset\<close>

definition deck_meta :: "string \<Rightarrow> string option" where
  "deck_meta n = (if n = ''dj'' then Some ''requires_confirmation'' else None)"

definition deck_def :: registry_def where "deck_def = \<lparr>rd_name = ''dj'', rd_args = [''id'']\<rparr>"

definition deck_defs :: "registry_def list" where "deck_defs = [\<lparr>rd_name = ''fx'', rd_args = []\<rparr>, deck_def]"

definition deck_base :: "tool list" where
  "deck_base = own_tool ''op'' True False [''id''] # map tool_of_money MONEY_TOOLS"

definition deck_cx :: screen_ctx where
  "deck_cx = \<lparr>sx_confirmations = [], sx_injectionFlagged = False, sx_toolResultPresent = True,
     sx_settableKeys = [''fx''], sx_tools = fst (altanaToolsetFor deck_meta deck_defs deck_base)\<rparr>"

lemma deck_names_free: "exclusionFor ''dj'' = None \<and> exclusionFor ''id'' = None \<and> exclusionFor ''op'' = None"
  by code_simp

lemma name_problems_free: "exclusionFor (tl_name t) = None \<Longrightarrow> name_problems t = []"
  by (simp add: name_problems_def exclusionFor_None)

lemma money_names_safe:
  "name_problems (tool_of_money buyCreditsTool) = []" "name_problems (tool_of_money readMoneyTool) = []"
  by code_simp+

lemma top_off_name_safe: "name_problems (tool_of_money setTopOffTool) = []"
  by code_simp

lemma deck_names_safe: "list_all (\<lambda>t. name_problems t = []) deck_base"
  using deck_names_free money_names_safe top_off_name_safe
  by (simp add: deck_base_def MONEY_TOOLS_def name_problems_free own_tool_def)

lemma deck_args_safe: "list_all (\<lambda>t. list_all (\<lambda>a. argument_problems t a = []) (tl_args t)) deck_base"
  by code_simp

lemma deck_rest_safe: "list_all cv_recorded ALTANA_CARVE_OUT \<and> exclusionFor ''fx'' = None"
  by code_simp

lemma deck_base_safe: "assertToolsetSafe deck_base [''fx''] = Inr ()"
  using deck_names_safe deck_args_safe deck_rest_safe unfolding problems_Nil_iff list_all_iff by simp

lemma deck_merged: "altanaToolsetFor deck_meta deck_defs deck_base = (sx_tools deck_cx, [])"
proof -
  have "snd (altanaToolsetFor deck_meta deck_defs deck_base) = []" by code_simp
  then show ?thesis by (simp add: deck_cx_def prod_eq_iff)
qed

definition deck_tool :: tool where
  "deck_tool = \<lparr>tl_name = ''dj'', tl_write = True, tl_irreversible = False, tl_typedConfirm = [], tl_zone = [],
     tl_args = [''id''], tl_fromRegistry = Some ''requires_confirmation''\<rparr>"

lemma deck_offered: "deck_tool \<in> set (sx_tools deck_cx)" "deck_tool \<notin> set deck_base"
  by code_simp+

lemma deck_allowed: "screenToolCall (\<lambda>n v. n) deck_cx ''dj'' (JObj []) = Allow"
  by code_simp

lemma carved_are_money: "\<forall>c \<in> set ALTANA_CARVE_OUT. cv_tool c \<in> set (map tl_name deck_base)"
  by code_simp

theorem allowed_call_is_walled_witness:
  "\<exists>t \<in> set (sx_tools deck_cx). tl_name t = ''dj'' \<and> (\<forall>a \<in> set (tl_args t). exclusionFor a = None)"
  using allowed_call_is_walled [OF deck_base_safe carved_are_money deck_merged deck_allowed] by blast

theorem confirmation_class_asks_nobody_witness:
  "sx_toolResultPresent deck_cx \<and> sx_confirmations deck_cx = []
   \<and> screenToolCall (\<lambda>n v. n) deck_cx ''dj'' (JObj []) = Allow"
proof -
  have "\<not> sx_injectionFlagged deck_cx" "sx_toolResultPresent deck_cx" "sx_confirmations deck_cx = []"
    "deck_meta (tl_name deck_tool) = Some ''requires_confirmation''" "tl_name deck_tool = ''dj''"
    "tl_name deck_tool \<notin> set CONFIRM_WHEN_DOCUMENT_PRESENT"
    by (simp_all add: deck_cx_def deck_tool_def deck_meta_def CONFIRM_WHEN_DOCUMENT_PRESENT_def)
  then show ?thesis
    using confirmation_class_asks_nobody [OF deck_merged deck_offered, of "\<lambda>n v. n" "JObj []"] by simp
qed

end
