(* ===== verification/TarLite.thy ===== *)
theory TarLite
  imports RoadmapText "HOL-Library.Word"
begin

text \<open>
  \<open>tarlite.mjs\<close>: the ustar archive in which a project travels to the build machine and comes back.
  A buffer is a list of 8 bit words.  A name is the string of its UTF-8 bytes, one character per byte;
  the code looks into a name only for separators, which are ASCII.  Offsets and sizes are integers,
  because a size is whatever \<open>parseInt\<close> made of a header field.  \<open>unpack\<close> is a loop that need not come
  to an end: its value \<open>None\<close> is not returning.
\<close>

section \<open>Bytes and fields\<close>

type_synonym bytes = "8 word list"

definition bytes_of :: "string \<Rightarrow> bytes" where
  "bytes_of s = map (\<lambda>c. word_of_nat (of_char c)) s"

definition chars_of :: "bytes \<Rightarrow> string" where
  "chars_of b = map (\<lambda>w. char_of (unat w)) b"

definition zeros :: "nat \<Rightarrow> bytes" where
  "zeros n = replicate n 0"

definition BLOCK :: nat where "BLOCK = 512"
definition NAME_MAX :: nat where "NAME_MAX = 100"
definition PREFIX_MAX :: nat where "PREFIX_MAX = 155"

text \<open>\<open>pad\<close>: the bytes of a text in a field, cut to the field. \<open>octal\<close>: the digits and a NUL.\<close>

definition pad_field :: "string \<Rightarrow> nat \<Rightarrow> bytes" where
  "pad_field s n = (let b = take n (bytes_of s) in b @ zeros (n - length b))"

fun show_octal :: "nat \<Rightarrow> string" where
  "show_octal n = (if n < 8 then [digit_char n] else show_octal (n div 8) @ [digit_char (n mod 8)])"

declare show_octal.simps [simp del]

definition NUL :: char where "NUL = CHR 0x00"

definition octal :: "nat \<Rightarrow> nat \<Rightarrow> string" where
  "octal n len =
     (if length (show_nat n) > len then []
      else let s = show_octal n in replicate (len - 1 - length s) (CHR ''0'') @ s @ [NUL])"

definition copy_at :: "nat \<Rightarrow> bytes \<Rightarrow> bytes \<Rightarrow> bytes" where
  "copy_at off b h = take off h @ b @ drop (off + length b) h"

definition checksum :: "bytes \<Rightarrow> nat" where
  "checksum h = sum_list (map (\<lambda>i. if 148 \<le> i \<and> i < 156 then 32 else unat (h ! i)) [0..<BLOCK])"

section \<open>Writing\<close>

datatype tar_error = PathTooLong string | OverSizeCap | OverEntryCap

text \<open>The split of a long path: the last separator at which both halves fit.\<close>

definition split_fits :: "string \<Rightarrow> nat \<Rightarrow> bool" where
  "split_fits n i = (n ! i = CHR ''/'' \<and> length (take i n) \<le> PREFIX_MAX \<and> length (drop (i + 1) n) \<le> NAME_MAX)"

definition best_split :: "string \<Rightarrow> int" where
  "best_split n = foldl (\<lambda>best i. if split_fits n i then int i else best) (-1) [0..<length n]"

definition split_path :: "string \<Rightarrow> tar_error + string \<times> string" where
  "split_path name =
     (if length name > NAME_MAX
      then let best = best_split name
           in if best \<le> 0 then Inl (PathTooLong name)
              else Inr (take (nat best) name, drop (nat best + 1) name)
      else Inr ([], name))"

definition header_fields :: "string \<Rightarrow> string \<Rightarrow> nat \<Rightarrow> nat \<Rightarrow> char \<Rightarrow> nat \<Rightarrow> bytes" where
  "header_fields prefix n sz mode type mtime =
     (let h = zeros BLOCK;
          h = copy_at 0 (pad_field n NAME_MAX) h;
          h = copy_at 100 (pad_field (octal mode 8) 8) h;
          h = copy_at 108 (pad_field (octal 0 8) 8) h;
          h = copy_at 116 (pad_field (octal 0 8) 8) h;
          h = copy_at 124 (pad_field (octal sz 12) 12) h;
          h = copy_at 136 (pad_field (octal mtime 12) 12) h;
          h = copy_at 148 (pad_field ''        '' 8) h;
          h = copy_at 156 (bytes_of [type]) h;
          h = copy_at 257 (pad_field (''ustar'' @ [NUL]) 6) h;
          h = copy_at 263 (pad_field ''00'' 2) h;
          h = (if prefix \<noteq> [] then copy_at 345 (pad_field prefix PREFIX_MAX) h else h)
      in copy_at 148 (pad_field (octal (checksum h) 8) 8) h)"

definition tarHeader :: "string \<Rightarrow> nat \<Rightarrow> nat \<Rightarrow> char \<Rightarrow> nat \<Rightarrow> tar_error + bytes" where
  "tarHeader name sz mode type mtime =
     (case split_path name of
        Inl e \<Rightarrow> Inl e
      | Inr (prefix, n) \<Rightarrow> Inr (header_fields prefix n sz mode type mtime))"

text \<open>\<open>%\<close> takes the sign of its left operand.\<close>

definition js_rem :: "int \<Rightarrow> int \<Rightarrow> int" where
  "js_rem a b = (if a < 0 then - ((- a) mod b) else a mod b)"

definition tarPadding :: "int \<Rightarrow> int" where
  "tarPadding sz = (if js_rem sz 512 = 0 then 0 else 512 - js_rem sz 512)"

record pack_entry =
  pe_name :: string
  pe_data :: bytes
  pe_dir :: bool
  pe_mode :: "nat option"

definition entry_name :: "string \<Rightarrow> string" where
  "entry_name name =
     (case bs_to_slash name of
        [] \<Rightarrow> []
      | c # r \<Rightarrow> if c = CHR ''/'' then r
                 else if c = CHR ''.'' \<and> r \<noteq> [] \<and> hd r = CHR ''/'' then tl r else c # r)"

definition dir_name :: "string \<Rightarrow> string" where
  "dir_name n = (if last n = CHR ''/'' then n else n @ ''/'')"

definition pack_one :: "pack_entry \<Rightarrow> tar_error + bytes" where
  "pack_one e =
     (let name = entry_name (pe_name e) in
      if name = [] then Inr []
      else if pe_dir e
      then tarHeader (dir_name name) 0 (case pe_mode e of Some m \<Rightarrow> m | None \<Rightarrow> 493) (CHR ''5'') 0
      else let data = pe_data e in
           case tarHeader name (length data) (case pe_mode e of Some m \<Rightarrow> m | None \<Rightarrow> 420) (CHR ''0'') 0 of
             Inl err \<Rightarrow> Inl err
           | Inr h \<Rightarrow> Inr (h @ data @ zeros (nat (tarPadding (int (length data))))))"

fun pack_parts :: "pack_entry list \<Rightarrow> tar_error + bytes" where
  "pack_parts [] = Inr []"
| "pack_parts (e # es) =
     (case pack_one e of
        Inl err \<Rightarrow> Inl err
      | Inr b \<Rightarrow> (case pack_parts es of Inl err \<Rightarrow> Inl err | Inr bs \<Rightarrow> Inr (b @ bs)))"

definition pack :: "pack_entry list \<Rightarrow> tar_error + bytes" where
  "pack es = (case pack_parts es of Inl err \<Rightarrow> Inl err | Inr b \<Rightarrow> Inr (b @ zeros (BLOCK * 2)))"

section \<open>Reading\<close>

text \<open>\<open>buf.subarray\<close>: negative positions count from behind, and both are kept within the buffer.\<close>

definition sub_pos :: "int \<Rightarrow> int \<Rightarrow> nat" where
  "sub_pos len i = nat (if i < 0 then max (len + i) 0 else min i len)"

definition subarray :: "bytes \<Rightarrow> int \<Rightarrow> int \<Rightarrow> bytes" where
  "subarray b start stop =
     (let len = int (length b); i = sub_pos len start; j = sub_pos len stop in take (j - i) (drop i b))"

text \<open>\<open>.replace(/\0.*$/, "")\<close>: the point does not match a line end.\<close>

fun cut_nul :: "string \<Rightarrow> string" where
  "cut_nul [] = []"
| "cut_nul (c # cs) =
     (if c = NUL \<and> list_all (\<lambda>x. x \<noteq> CHR 0x0A \<and> x \<noteq> CHR 0x0D) cs then [] else c # cut_nul cs)"

definition field_text :: "bytes \<Rightarrow> nat \<Rightarrow> nat \<Rightarrow> string" where
  "field_text h off n = cut_nul (chars_of (take n (drop off h)))"

definition is_octal :: "char \<Rightarrow> bool" where
  "is_octal c = (let n = (of_char c :: nat) in 48 \<le> n \<and> n \<le> 55)"

definition nat_of_octal :: "string \<Rightarrow> nat" where
  "nat_of_octal ds = foldl (\<lambda>n c. 8 * n + (of_char c - 48)) 0 ds"

text \<open>\<open>parseInt(s, 8) || 0\<close>\<close>

definition parse_octal :: "string \<Rightarrow> int" where
  "parse_octal s =
     (let s = dropWhile is_ws s;
          neg = (s \<noteq> [] \<and> hd s = CHR ''-'');
          s = (if s \<noteq> [] \<and> (hd s = CHR ''-'' \<or> hd s = CHR ''+'') then tl s else s);
          k = int (nat_of_octal (takeWhile is_octal s))
      in if neg then - k else k)"

definition header_size :: "bytes \<Rightarrow> int" where
  "header_size h = (let s = js_trim (field_text h 124 12) in parse_octal (if s = [] then ''0'' else s))"

definition header_name :: "bytes \<Rightarrow> string" where
  "header_name h =
     (let raw = field_text h 0 NAME_MAX; prefix = field_text h 345 PREFIX_MAX
      in (if prefix \<noteq> [] then prefix @ ''/'' else []) @ raw)"

definition header_type :: "bytes \<Rightarrow> char" where
  "header_type h = (if 156 < length h then char_of (unat (h ! 156)) else NUL)"

record tar_item =
  ti_name :: string
  ti_data :: bytes
  ti_dir :: bool

record unpack_state =
  un_out :: "tar_item list"
  un_off :: int
  un_total :: int

datatype unpack_step = Done "tar_item list" | Failed tar_error | Next unpack_state

text \<open>One turn of the loop of \<open>unpack\<close>.\<close>

definition unpack_turn :: "bytes \<Rightarrow> int \<Rightarrow> nat \<Rightarrow> unpack_state \<Rightarrow> unpack_step" where
  "unpack_turn buf maxTotalBytes maxEntries st =
     (if \<not> un_off st + 512 \<le> int (length buf) then Done (un_out st)
      else
        let h = subarray buf (un_off st) (un_off st + 512) in
        if list_all (\<lambda>b. b = 0) h then Done (un_out st)
        else
          let name = header_name h; sz = header_size h; type = header_type h; off = un_off st + 512;
              capped = (\<lambda>st. if length (un_out st) > maxEntries then Failed OverEntryCap else Next st)
          in if type = CHR ''0'' \<or> type = NUL
             then let total = un_total st + sz in
                  if total > maxTotalBytes then Failed OverSizeCap
                  else capped \<lparr>un_out = un_out st @
                                  [\<lparr>ti_name = name, ti_data = subarray buf off (off + sz), ti_dir = False\<rparr>],
                               un_off = off + sz + tarPadding sz, un_total = total\<rparr>
             else if type = CHR ''5''
             then capped \<lparr>un_out = un_out st @ [\<lparr>ti_name = name, ti_data = [], ti_dir = True\<rparr>],
                          un_off = off, un_total = un_total st\<rparr>
             else capped (st\<lparr>un_off := off + sz + tarPadding sz\<rparr>))"

partial_function (option) unpack_loop ::
  "bytes \<Rightarrow> int \<Rightarrow> nat \<Rightarrow> unpack_state \<Rightarrow> (tar_error + tar_item list) option" where
  "unpack_loop buf maxTotalBytes maxEntries st =
     (case unpack_turn buf maxTotalBytes maxEntries st of
        Done out \<Rightarrow> Some (Inr out)
      | Failed e \<Rightarrow> Some (Inl e)
      | Next st' \<Rightarrow> unpack_loop buf maxTotalBytes maxEntries st')"

declare unpack_loop.simps [code]

definition unpack :: "bytes \<Rightarrow> int \<Rightarrow> nat \<Rightarrow> (tar_error + tar_item list) option" where
  "unpack buf maxTotalBytes maxEntries =
     unpack_loop buf maxTotalBytes maxEntries \<lparr>un_out = [], un_off = 0, un_total = 0\<rparr>"

definition MAX_TOTAL_BYTES :: int where "MAX_TOTAL_BYTES = 128 * 1024 * 1024"
definition MAX_ENTRIES :: nat where "MAX_ENTRIES = 20000"

section \<open>Where an entry may land\<close>

fun path_segs :: "string list \<Rightarrow> string list \<Rightarrow> string list option" where
  "path_segs parts [] = Some parts"
| "path_segs parts (seg # segs) =
     (if seg = [] \<or> seg = ''.'' then path_segs parts segs
      else if seg = ''..'' then (if parts = [] then None else path_segs (butlast parts) segs)
      else path_segs (parts @ [seg]) segs)"

definition has_drive :: "string \<Rightarrow> bool" where
  "has_drive n = (case n of c # d # _ \<Rightarrow> is_letter c \<and> d = CHR '':'' | _ \<Rightarrow> False)"

definition strip_dot :: "string \<Rightarrow> string" where
  "strip_dot n = (case n of c # d # r \<Rightarrow> if c = CHR ''.'' \<and> d = CHR ''/'' then r else n | _ \<Rightarrow> n)"

definition safeEntryPath :: "string \<Rightarrow> string" where
  "safeEntryPath name =
     (let n = strip_dot (bs_to_slash name) in
      if n = [] \<or> hd n = CHR ''/'' \<or> has_drive n then []
      else case path_segs [] (split_on (CHR ''/'') n) of None \<Rightarrow> [] | Some parts \<Rightarrow> join ''/'' parts)"

end
