(* ===== verification/TarLite_Facts.thy ===== *)
theory TarLite_Facts
  imports TarLite
begin

text \<open>
  What the archive promises: a packed project is read back as it was, an entry lands inside its folder,
  and reading comes to an end when no header announces a negative size, and only then in general.
\<close>

section \<open>Fields\<close>

named_theorems tar_simps

lemma chars_of_bytes_of [simp, tar_simps]: "chars_of (bytes_of s) = s"
proof -
  have "char_of (unat (word_of_nat (of_char c) :: 8 word)) = c" for c :: char
  proof -
    have "(of_char c :: nat) < 2 ^ 8" using nat_of_char_less_256 [of c] by simp
    then show ?thesis by (simp add: unat_of_nat)
  qed
  then show ?thesis by (simp add: chars_of_def bytes_of_def comp_def)
qed

lemma length_bytes_of [simp, tar_simps]: "length (bytes_of s) = length s"
  by (simp add: bytes_of_def)

lemma length_chars_of [simp, tar_simps]: "length (chars_of b) = length b"
  by (simp add: chars_of_def)

lemma chars_of_append [tar_simps]: "chars_of (a @ b) = chars_of a @ chars_of b"
  by (simp add: chars_of_def)

lemma chars_of_zeros [tar_simps]: "chars_of (zeros n) = replicate n NUL"
proof -
  have "char_of (0 :: nat) = CHR 0x00" by code_simp
  then show ?thesis by (simp add: chars_of_def zeros_def NUL_def)
qed

lemma take_bytes_of: "take n (bytes_of s) = bytes_of (take n s)"
  by (simp add: bytes_of_def take_map)

lemma length_zeros [simp, tar_simps]: "length (zeros n) = n"
  by (simp add: zeros_def)

lemma take_zeros [simp, tar_simps]: "take n (zeros m) = zeros (min n m)"
  by (simp add: zeros_def)

lemma drop_zeros [simp, tar_simps]: "drop n (zeros m) = zeros (m - n)"
  by (simp add: zeros_def)

lemma length_pad_field [simp, tar_simps]: "length (pad_field s n) = n"
  by (simp add: pad_field_def Let_def)

lemma chars_of_pad_field: "chars_of (pad_field s n) = take n s @ replicate (n - length s) NUL"
  by (simp add: pad_field_def take_bytes_of chars_of_append chars_of_zeros Let_def min_def)

lemma cut_nul_id: "NUL \<notin> set s \<Longrightarrow> cut_nul (s @ replicate k NUL) = s"
proof (induction s)
  case Nil
  show ?case by (cases k) (auto simp: NUL_def list_all_iff)
qed auto

lemma field_text_slice: "take n (drop off h) = pad_field s n \<Longrightarrow> NUL \<notin> set (take n s) \<Longrightarrow>
    field_text h off n = take n s"
  by (simp add: field_text_def chars_of_pad_field cut_nul_id)

section \<open>Octal numbers\<close>

lemma is_octal_digit [simp]: "d < 8 \<Longrightarrow> is_octal (digit_char d)"
  by (simp add: is_octal_def of_char_digit)

lemma show_octal_digits: "c \<in> set (show_octal n) \<Longrightarrow> is_octal c"
proof (induction n rule: show_octal.induct)
  case (1 n)
  show ?case
  proof (cases "n < 8")
    case True
    with 1(2) show ?thesis by (simp add: show_octal.simps [of n])
  next
    case False
    with 1(2) have "c \<in> set (show_octal (n div 8)) \<or> c = digit_char (n mod 8)"
      by (auto simp: show_octal.simps [of n])
    with 1(1) [OF False] show ?thesis by auto
  qed
qed

lemma nat_of_octal_snoc: "nat_of_octal (ds @ [c]) = 8 * nat_of_octal ds + (of_char c - 48)"
  by (simp add: nat_of_octal_def)

lemma nat_of_octal_show [simp]: "nat_of_octal (show_octal n) = n"
proof (induction n rule: show_octal.induct)
  case (1 n)
  show ?case
  proof (cases "n < 8")
    case True
    then show ?thesis using nat_of_octal_snoc [of "[]" "digit_char n"]
      by (simp add: show_octal.simps [of n] of_char_digit nat_of_octal_def)
  next
    case False
    with 1 show ?thesis by (simp add: show_octal.simps [of n] nat_of_octal_snoc of_char_digit)
  qed
qed

lemma nat_of_octal_zeros: "nat_of_octal (replicate k (CHR ''0'') @ ds) = nat_of_octal ds"
proof (induction k)
  case (Suc k)
  have "foldl (\<lambda>n c. 8 * n + (of_char c - 48)) 0 (CHR ''0'' # s) = nat_of_octal s" for s
    by (simp add: nat_of_octal_def)
  with Suc show ?case by (simp add: nat_of_octal_def)
qed simp

lemma length_show_octal: "n < 8 ^ k \<Longrightarrow> 0 < k \<Longrightarrow> length (show_octal n) \<le> k"
proof (induction n arbitrary: k rule: show_octal.induct)
  case (1 n)
  show ?case
  proof (cases "n < 8")
    case True
    with 1(3) show ?thesis by (simp add: show_octal.simps [of n])
  next
    case False
    with 1(2, 3) obtain j where k: "k = Suc j" "0 < j" by (cases k; cases "k - 1") auto
    with 1(2) have "n div 8 < 8 ^ j" by (simp add: less_mult_imp_div_less)
    with 1(1) [OF False this k(2)] show ?thesis using False by (simp add: show_octal.simps [of n] k(1))
  qed
qed

lemma length_show_nat: "n < 10 ^ k \<Longrightarrow> 0 < k \<Longrightarrow> length (show_nat n) \<le> k"
proof (induction n arbitrary: k rule: show_nat.induct)
  case (1 n)
  show ?case
  proof (cases "n < 10")
    case True
    with 1(3) show ?thesis by (simp add: show_nat.simps [of n])
  next
    case False
    with 1(2, 3) obtain j where k: "k = Suc j" "0 < j" by (cases k; cases "k - 1") auto
    with 1(2) have "n div 10 < 10 ^ j" by (simp add: less_mult_imp_div_less)
    with 1(1) [OF False this k(2)] show ?thesis using False by (simp add: show_nat.simps [of n] k(1))
  qed
qed

lemma octal_not_NUL: "is_octal c \<Longrightarrow> c \<noteq> NUL"
  by (auto simp: is_octal_def NUL_def)

lemma octal_not_ws: "is_octal c \<Longrightarrow> \<not> is_ws c"
  by (auto simp: is_octal_def is_ws_def)

lemma parse_octal_digits:
  assumes "\<forall>c\<in>set s. is_octal c" "s \<noteq> []"
  shows "parse_octal s = int (nat_of_octal s)"
proof -
  have "is_octal (hd s)" using assms by simp
  then have "\<not> is_ws (hd s)" "hd s \<noteq> CHR ''-''" "hd s \<noteq> CHR ''+''"
    using octal_not_ws by (blast, auto simp: is_octal_def)
  then show ?thesis using assms(2)
    by (simp add: parse_octal_def dropWhile_hd Let_def takeWhile_eq_all_conv [THEN iffD2, OF assms(1)])
qed

lemma octal_field:
  assumes "n < 8 ^ 12"
  shows "\<exists>k j. chars_of (pad_field (octal n 12) 12) = (replicate k (CHR ''0'') @ show_octal n) @ replicate j NUL"
proof -
  have len: "length (show_octal n) \<le> 12" using assms by (intro length_show_octal) simp_all
  have "n < 10 ^ 12" using assms by (rule order.strict_trans2) simp
  then have "length (show_nat n) \<le> 12" by (intro length_show_nat) simp_all
  then have o: "octal n 12 = replicate (11 - length (show_octal n)) (CHR ''0'') @ show_octal n @ [NUL]"
    by (simp add: octal_def Let_def)
  show ?thesis
  proof (cases "length (show_octal n) = 12")
    case True
    then have "chars_of (pad_field (octal n 12) 12) = (replicate 0 (CHR ''0'') @ show_octal n) @ replicate 0 NUL"
      by (simp add: o chars_of_pad_field)
    then show ?thesis by blast
  next
    case False
    with len have "chars_of (pad_field (octal n 12) 12)
      = (replicate (11 - length (show_octal n)) (CHR ''0'') @ show_octal n) @ replicate 1 NUL"
      by (simp add: o chars_of_pad_field)
    then show ?thesis by blast
  qed
qed

lemma size_field:
  assumes "take 12 (drop 124 h) = pad_field (octal n 12) 12" and "n < 8 ^ 12"
  shows "header_size h = int n"
proof -
  obtain k j where t: "chars_of (take 12 (drop 124 h)) = (replicate k (CHR ''0'') @ show_octal n) @ replicate j NUL"
    using octal_field [OF assms(2)] assms(1) by auto
  define ds where "ds = replicate k (CHR ''0'') @ show_octal n"
  have "is_octal (CHR ''0'')" by (simp add: is_octal_def)
  then have ds: "\<forall>c\<in>set ds. is_octal c" "ds \<noteq> []"
    using show_octal_digits by (auto simp: ds_def show_octal.simps [of n])
  then have "NUL \<notin> set ds" using octal_not_NUL by blast
  then have "field_text h 124 12 = ds" unfolding field_text_def t ds_def [symmetric] by (rule cut_nul_id)
  moreover have "js_trim ds = ds" using ds octal_not_ws by (intro js_trim_sound) auto
  ultimately have "header_size h = int (nat_of_octal ds)"
    using ds by (simp add: header_size_def parse_octal_digits Let_def)
  then show ?thesis by (simp add: ds_def nat_of_octal_zeros)
qed

section \<open>The header\<close>

lemma length_copy_at [tar_simps]:
  "length h = 512 \<Longrightarrow> off + length b \<le> 512 \<Longrightarrow> length (copy_at off b h) = 512"
  by (simp add: copy_at_def)

lemma slice_copy_same [tar_simps]:
  "length h = 512 \<Longrightarrow> n = length b \<Longrightarrow> off + length b \<le> 512 \<Longrightarrow> take n (drop off (copy_at off b h)) = b"
  by (simp add: copy_at_def)

lemma slice_copy_other [tar_simps]:
  assumes "length h = 512" "off + length b \<le> 512" "i + n \<le> off \<or> off + length b \<le> i"
  shows "take n (drop i (copy_at off b h)) = take n (drop i h)"
proof (cases "i + n \<le> off")
  case True
  then have len: "n \<le> length (drop i (take off h))" using assms by simp
  have "copy_at off b h = take off h @ b @ drop (off + length b) h" by (simp add: copy_at_def)
  then have "take n (drop i (copy_at off b h)) = take n (drop i (take off h))" using len True by simp
  also have "take n (drop i (take off h)) = take n (drop i h)"
    using True by (simp add: drop_take min_def)
  finally show ?thesis .
next
  case False
  with assms(3) have "off + length b \<le> i" by simp
  then show ?thesis using assms by (simp add: copy_at_def drop_take)
qed

lemma header_fields_read:
  assumes "h = header_fields prefix n sz mode type mtime"
  shows "length h = 512"
    and "take 100 (drop 0 h) = pad_field n 100"
    and "take 12 (drop 124 h) = pad_field (octal sz 12) 12"
    and "take 1 (drop 156 h) = bytes_of [type]"
    and "take 6 (drop 257 h) = pad_field (''ustar'' @ [NUL]) 6"
    and "take 155 (drop 345 h) = (if prefix = [] then zeros 155 else pad_field prefix 155)"
  unfolding assms header_fields_def Let_def BLOCK_def NAME_MAX_def PREFIX_MAX_def
  by (simp_all add: tar_simps del: drop0)

lemma best_split_fits:
  assumes "best_split n = b" "0 \<le> b"
  shows "nat b < length n \<and> split_fits n (nat b)"
proof -
  have "foldl (\<lambda>best i. if split_fits n i then int i else best) (-1) [0..<m] = -1
    \<or> (\<exists>i<m. split_fits n i \<and> foldl (\<lambda>best i. if split_fits n i then int i else best) (-1) [0..<m] = int i)" for m
    by (induction m) (auto intro: less_SucI)
  from this [of "length n"] assms show ?thesis by (auto simp: best_split_def)
qed

text \<open>A path is either refused by name or split at a separator into halves that fit.\<close>

lemma split_path_cases:
  assumes "split_path name = r"
  shows "(\<exists>prefix n. r = Inr (prefix, n) \<and> length n \<le> 100 \<and> length prefix \<le> 155
      \<and> name = (if prefix = [] then n else prefix @ ''/'' @ n)) \<or> r = Inl (PathTooLong name)"
proof (cases "length name > NAME_MAX")
  case False
  then have "r = Inr ([], name)" "length name \<le> 100" using assms by (simp_all add: split_path_def NAME_MAX_def)
  then show ?thesis by simp
next
  case True
  show ?thesis
  proof (cases "best_split name \<le> 0")
    case le: True
    then show ?thesis using assms True by (simp add: split_path_def)
  next
    case False
    define i where "i = nat (best_split name)"
    have i: "0 < i" "i < length name" "split_fits name i"
      using False best_split_fits [OF refl, of name] by (auto simp: i_def)
    then have "name ! i = CHR ''/''" by (simp add: split_fits_def)
    with id_take_nth_drop [OF i(2)] have "name = take i name @ ''/'' @ drop (i + 1) name" by simp
    moreover from i(1, 2) have "take i name \<noteq> []" by auto
    moreover have "r = Inr (take i name, drop (i + 1) name)"
      using assms True False by (simp add: split_path_def Let_def i_def)
    moreover have "length (take i name) \<le> 155" "length (drop (i + 1) name) \<le> 100"
      using i(3) unfolding split_fits_def NAME_MAX_def PREFIX_MAX_def by blast+
    ultimately show ?thesis by simp
  qed
qed

lemma field_text_pad:
  assumes "take k (drop off h) = pad_field s k" "length s \<le> k" "NUL \<notin> set s"
  shows "field_text h off k = s"
  using assms by (simp add: field_text_def chars_of_pad_field cut_nul_id)

lemma header_read:
  assumes "tarHeader name sz mode type mtime = Inr h" and "NUL \<notin> set name" and "sz < 8 ^ 12"
  shows "length h = 512" "header_name h = name" "header_size h = int sz" "header_type h = type"
    "\<not> list_all (\<lambda>b. b = 0) h"
proof -
  from assms(1) obtain prefix n where sp: "split_path name = Inr (prefix, n)"
    and h: "h = header_fields prefix n sz mode type mtime"
    by (auto simp: tarHeader_def split: sum.splits)
  note rd = header_fields_read [OF h]
  from split_path_cases [OF sp] have n: "length n \<le> 100" "length prefix \<le> 155"
    "name = (if prefix = [] then n else prefix @ ''/'' @ n)" by auto
  with assms(2) have nul: "NUL \<notin> set n" "NUL \<notin> set prefix" by (auto split: if_splits)
  show "length h = 512" by (rule rd(1))
  show "header_size h = int sz" using rd(3) assms(3) by (rule size_field)
  have "field_text h 0 100 = n" using field_text_pad [OF rd(2) n(1) nul(1)] .
  moreover have "field_text h 345 155 = prefix"
  proof (cases "prefix = []")
    case True
    then show ?thesis using rd(6) cut_nul_id [of "[]" 155] by (simp add: field_text_def chars_of_zeros)
  next
    case False
    with rd(6) have "take 155 (drop 345 h) = pad_field prefix 155" by simp
    then show ?thesis using n(2) nul(2) by (rule field_text_pad)
  qed
  ultimately show "header_name h = name"
    using n(3) by (simp add: header_name_def NAME_MAX_def PREFIX_MAX_def Let_def)
  have "chars_of (take 1 (drop 156 h)) = [type]" using rd(4) by simp
  then show "header_type h = type" using rd(1)
    by (simp add: header_type_def chars_of_def take_Suc_conv_app_nth hd_drop_conv_nth drop_eq_Nil take_Suc)
  have "chars_of (take 6 (drop 257 h)) = ''ustar'' @ [NUL]" using rd(5) by (simp add: chars_of_pad_field)
  moreover have "chars_of (take 6 (drop 257 h)) = replicate 6 NUL" if "list_all (\<lambda>b. b = 0) h"
  proof -
    from that have "\<forall>x\<in>set h. x = 0" by (simp add: list_all_iff)
    from replicate_length_same [OF this] have "h = zeros 512" using rd(1) by (simp add: zeros_def)
    then show ?thesis by (simp add: chars_of_zeros)
  qed
  ultimately show "\<not> list_all (\<lambda>b. b = 0) h" by (auto simp: NUL_def numeral_eq_Suc)
qed

section \<open>Reading what was written\<close>

lemma subarray_mid:
  "start = int (length a) \<Longrightarrow> stop = int (length a + length b) \<Longrightarrow> subarray (a @ b @ c) start stop = b"
  by (simp add: subarray_def sub_pos_def Let_def)

lemma padding_nonneg: "0 \<le> n \<Longrightarrow> 0 \<le> tarPadding n"
proof -
  assume "0 \<le> n"
  moreover have "n mod 512 \<le> 512" by (rule less_imp_le) simp
  ultimately show ?thesis by (simp add: tarPadding_def js_rem_def)
qed

definition item_of :: "pack_entry \<Rightarrow> tar_item list" where
  "item_of e =
     (let name = entry_name (pe_name e) in
      if name = [] then []
      else if pe_dir e then [\<lparr>ti_name = dir_name name, ti_data = [], ti_dir = True\<rparr>]
      else [\<lparr>ti_name = name, ti_data = pe_data e, ti_dir = False\<rparr>])"

definition stored_bytes :: "pack_entry \<Rightarrow> int" where
  "stored_bytes e = (if entry_name (pe_name e) = [] \<or> pe_dir e then 0 else int (length (pe_data e)))"

lemma entry_name_set: "c \<in> set (entry_name n) \<Longrightarrow> c \<in> set n \<or> c = CHR ''/''"
proof -
  assume c: "c \<in> set (entry_name n)"
  have "set (entry_name n) \<subseteq> set (bs_to_slash n)"
    by (cases "bs_to_slash n") (auto simp: entry_name_def dest: list.set_sel(2))
  with c show ?thesis by (auto simp: bs_to_slash_def split: if_splits)
qed

lemma header_turn:
  assumes "length h = 512" "\<not> list_all (\<lambda>b. b = 0) h" "st = \<lparr>un_out = out, un_off = int (length a), un_total = tot\<rparr>"
  shows "unpack_turn (a @ h @ c) M N st =
     (let name = header_name h; sz = header_size h; type = header_type h; off = int (length (a @ h));
          capped = (\<lambda>st. if length (un_out st) > N then Failed OverEntryCap else Next st)
      in if type = CHR ''0'' \<or> type = NUL
         then let total' = tot + sz in
              if total' > M then Failed OverSizeCap
              else capped \<lparr>un_out = out @
                              [\<lparr>ti_name = name, ti_data = subarray ((a @ h) @ c) off (off + sz), ti_dir = False\<rparr>],
                           un_off = off + sz + tarPadding sz, un_total = total'\<rparr>
         else if type = CHR ''5''
         then capped \<lparr>un_out = out @ [\<lparr>ti_name = name, ti_data = [], ti_dir = True\<rparr>],
                      un_off = off, un_total = tot\<rparr>
         else capped (st\<lparr>un_off := off + sz + tarPadding sz\<rparr>))"
proof -
  have "subarray (a @ h @ c) (int (length a)) (int (length a) + 512) = h"
    using assms(1) by (intro subarray_mid) simp_all
  then show ?thesis using assms by (simp add: unpack_turn_def Let_def)
qed

lemma turn_on_file:
  assumes "tarHeader name (length d) mode (CHR ''0'') mtime = Inr h" "NUL \<notin> set name" "length d < 8 ^ 12"
    and "tot + int (length d) \<le> M" "length out < N"
  shows "unpack_turn (a @ (h @ d @ zeros (nat (tarPadding (int (length d))))) @ c) M N
      \<lparr>un_out = out, un_off = int (length a), un_total = tot\<rparr>
    = Next \<lparr>un_out = out @ [\<lparr>ti_name = name, ti_data = d, ti_dir = False\<rparr>],
            un_off = int (length (a @ (h @ d @ zeros (nat (tarPadding (int (length d))))))),
            un_total = tot + int (length d)\<rparr>"
proof -
  note rd = header_read [OF assms(1-3)]
  define p where "p = zeros (nat (tarPadding (int (length d))))"
  have p: "int (length p) = tarPadding (int (length d))" using padding_nonneg by (simp add: p_def)
  have "subarray ((a @ h) @ d @ p @ c) (int (length (a @ h))) (int (length (a @ h)) + int (length d)) = d"
    by (intro subarray_mid) simp_all
  then show ?thesis
    using header_turn [OF rd(1, 5) refl, where a = a and c = "d @ p @ c" and M = M and N = N] assms(4, 5) p
    unfolding p_def [symmetric] by (simp add: rd(2-4) Let_def)
qed

lemma turn_on_dir:
  assumes "tarHeader name 0 mode (CHR ''5'') mtime = Inr h" "NUL \<notin> set name" "length out < N"
  shows "unpack_turn (a @ h @ c) M N \<lparr>un_out = out, un_off = int (length a), un_total = tot\<rparr>
    = Next \<lparr>un_out = out @ [\<lparr>ti_name = name, ti_data = [], ti_dir = True\<rparr>],
            un_off = int (length (a @ h)), un_total = tot\<rparr>"
proof -
  have "(0 :: nat) < 8 ^ 12" by simp
  note rd = header_read [OF assms(1, 2) this]
  show ?thesis
    using header_turn [OF rd(1, 5) refl, where a = a and c = c and M = M and N = N] assms(3)
    by (simp add: rd(2-4) Let_def NUL_def)
qed

lemma loop_next: "unpack_turn buf M N st = Next st' \<Longrightarrow> unpack_loop buf M N st = unpack_loop buf M N st'"
  by (subst unpack_loop.simps) simp

lemma loop_done: "unpack_turn buf M N st = Done out \<Longrightarrow> unpack_loop buf M N st = Some (Inr out)"
  by (subst unpack_loop.simps) simp

lemma turn_at_close:
  "unpack_turn (a @ zeros 1024) M N \<lparr>un_out = out, un_off = int (length a), un_total = tot\<rparr> = Done out"
proof -
  have "subarray (a @ zeros 512 @ zeros 512) (int (length a)) (int (length a) + 512) = zeros 512"
    by (intro subarray_mid) simp_all
  moreover have "zeros 512 @ zeros 512 = zeros 1024" by (simp add: zeros_def replicate_add [symmetric])
  moreover have "list_all (\<lambda>b. b = 0) (zeros 512)" by (simp add: zeros_def list_all_iff)
  ultimately show ?thesis by (simp add: unpack_turn_def Let_def)
qed

text \<open>\<open>reads_as b its n\<close>: wherever the bytes \<open>b\<close> stand in an archive, the loop passes over them, puts
  out the items \<open>its\<close> and counts \<open>n\<close> bytes, unless a cap is hit.\<close>

definition reads_as :: "bytes \<Rightarrow> tar_item list \<Rightarrow> int \<Rightarrow> bool" where
  "reads_as b its n = (0 \<le> n \<and>
     (\<forall>a c out tot M N. tot + n \<le> M \<longrightarrow> length (out @ its) \<le> N \<longrightarrow>
        unpack_loop (a @ b @ c) M N \<lparr>un_out = out, un_off = int (length a), un_total = tot\<rparr>
        = unpack_loop (a @ b @ c) M N \<lparr>un_out = out @ its, un_off = int (length (a @ b)), un_total = tot + n\<rparr>))"

lemma reads_as_Nil: "reads_as [] [] 0"
  by (simp add: reads_as_def)

lemma reads_asD:
  "reads_as b its n \<Longrightarrow> tot + n \<le> M \<Longrightarrow> length (out @ its) \<le> N \<Longrightarrow>
     unpack_loop (a @ b @ c) M N \<lparr>un_out = out, un_off = int (length a), un_total = tot\<rparr>
     = unpack_loop (a @ b @ c) M N \<lparr>un_out = out @ its, un_off = int (length (a @ b)), un_total = tot + n\<rparr>"
  unfolding reads_as_def by blast

lemma reads_as_append:
  assumes "reads_as b1 i1 n1" "reads_as b2 i2 n2"
  shows "reads_as (b1 @ b2) (i1 @ i2) (n1 + n2)"
  unfolding reads_as_def
proof (intro conjI allI impI)
  show "0 \<le> n1 + n2" using assms by (simp add: reads_as_def)
next
  fix a c out tot M N
  assume le: "tot + (n1 + n2) \<le> M" "length (out @ i1 @ i2) \<le> N"
  from assms have n: "0 \<le> n1" "0 \<le> n2" by (simp_all add: reads_as_def)
  have "unpack_loop (a @ b1 @ b2 @ c) M N \<lparr>un_out = out, un_off = int (length a), un_total = tot\<rparr>
      = unpack_loop (a @ b1 @ b2 @ c) M N
          \<lparr>un_out = out @ i1, un_off = int (length (a @ b1)), un_total = tot + n1\<rparr>"
    using le n by (intro reads_asD [OF assms(1)]) simp_all
  moreover have "unpack_loop ((a @ b1) @ b2 @ c) M N
        \<lparr>un_out = out @ i1, un_off = int (length (a @ b1)), un_total = tot + n1\<rparr>
      = unpack_loop ((a @ b1) @ b2 @ c) M N
          \<lparr>un_out = (out @ i1) @ i2, un_off = int (length ((a @ b1) @ b2)), un_total = (tot + n1) + n2\<rparr>"
    using le n by (intro reads_asD [OF assms(2)]) simp_all
  ultimately show "unpack_loop (a @ (b1 @ b2) @ c) M N \<lparr>un_out = out, un_off = int (length a), un_total = tot\<rparr>
      = unpack_loop (a @ (b1 @ b2) @ c) M N
          \<lparr>un_out = out @ i1 @ i2, un_off = int (length (a @ b1 @ b2)), un_total = tot + (n1 + n2)\<rparr>"
    by (simp add: add.assoc)
qed

lemma reads_as_unpack:
  assumes "reads_as b its n" "n \<le> M" "length its \<le> N"
  shows "unpack (b @ zeros 1024) M N = Some (Inr its)"
proof -
  have "unpack_loop ([] @ b @ zeros 1024) M N \<lparr>un_out = [], un_off = int (length ([] :: bytes)), un_total = 0\<rparr>
      = unpack_loop ([] @ b @ zeros 1024) M N
          \<lparr>un_out = [] @ its, un_off = int (length ([] @ b)), un_total = 0 + n\<rparr>"
    using assms(2, 3) by (intro reads_asD [OF assms(1)]) simp_all
  then show ?thesis using loop_done [OF turn_at_close, of b M N its n] by (simp add: unpack_def)
qed

lemma reads_as_file:
  assumes "tarHeader name (length d) mode (CHR ''0'') mtime = Inr h" "NUL \<notin> set name" "length d < 8 ^ 12"
  shows "reads_as (h @ d @ zeros (nat (tarPadding (int (length d)))))
    [\<lparr>ti_name = name, ti_data = d, ti_dir = False\<rparr>] (int (length d))"
  unfolding reads_as_def using loop_next [OF turn_on_file [OF assms]] by auto

lemma reads_as_dir:
  assumes "tarHeader name 0 mode (CHR ''5'') mtime = Inr h" "NUL \<notin> set name"
  shows "reads_as h [\<lparr>ti_name = name, ti_data = [], ti_dir = True\<rparr>] 0"
  unfolding reads_as_def using loop_next [OF turn_on_dir [OF assms]] by auto

definition packable :: "pack_entry list \<Rightarrow> bool" where
  "packable es = (\<forall>e\<in>set es. NUL \<notin> set (pe_name e))"

lemma reads_as_entry:
  assumes "pack_one e = Inr b" "NUL \<notin> set (pe_name e)" "stored_bytes e < 8 ^ 12"
  shows "reads_as b (item_of e) (stored_bytes e)"
proof -
  have nul: "NUL \<notin> set (entry_name (pe_name e))" "NUL \<notin> set (dir_name (entry_name (pe_name e)))"
    using assms(2) entry_name_set [of NUL "pe_name e"] by (auto simp: dir_name_def NUL_def)
  show ?thesis
  proof (cases "entry_name (pe_name e) = []")
    case True
    then show ?thesis using assms(1) reads_as_Nil by (simp add: pack_one_def item_of_def stored_bytes_def)
  next
    case False
    show ?thesis
    proof (cases "pe_dir e")
      case True
      define m where "m = (case pe_mode e of Some m \<Rightarrow> m | None \<Rightarrow> 493)"
      have "tarHeader (dir_name (entry_name (pe_name e))) 0 m (CHR ''5'') 0 = Inr b"
        using assms(1) False True by (simp add: pack_one_def m_def)
      from reads_as_dir [OF this nul(2)] show ?thesis using False True by (simp add: item_of_def stored_bytes_def)
    next
      case plain: False
      define m where "m = (case pe_mode e of Some m \<Rightarrow> m | None \<Rightarrow> 420)"
      obtain h where h: "tarHeader (entry_name (pe_name e)) (length (pe_data e)) m (CHR ''0'') 0 = Inr h"
        and b: "b = h @ pe_data e @ zeros (nat (tarPadding (int (length (pe_data e)))))"
        using assms(1) False plain by (auto simp: pack_one_def m_def Let_def split: sum.splits)
      have "length (pe_data e) < 8 ^ 12" using assms(3) False plain by (simp add: stored_bytes_def)
      from reads_as_file [OF h nul(1) this] show ?thesis
        using False plain by (simp add: item_of_def stored_bytes_def b)
    qed
  qed
qed

lemma stored_bytes_nonneg: "0 \<le> stored_bytes e"
  by (simp add: stored_bytes_def)

lemma reads_as_packed:
  assumes "pack_parts es = Inr b" "packable es" "(\<Sum>e\<leftarrow>es. stored_bytes e) < 8 ^ 12"
  shows "reads_as b (concat (map item_of es)) (\<Sum>e\<leftarrow>es. stored_bytes e)"
  using assms
proof (induction es arbitrary: b)
  case Nil
  then show ?case using reads_as_Nil by simp
next
  case (Cons e es)
  obtain b1 b2 where b: "pack_one e = Inr b1" "pack_parts es = Inr b2" "b = b1 @ b2"
    using Cons.prems(1) by (auto split: sum.splits)
  have "0 \<le> (\<Sum>e\<leftarrow>es. stored_bytes e)" using stored_bytes_nonneg by (induction es) auto
  then have "stored_bytes e < 8 ^ 12" "(\<Sum>e\<leftarrow>es. stored_bytes e) < 8 ^ 12"
    using Cons.prems(3) stored_bytes_nonneg [of e] by simp_all
  then show ?case
    using reads_as_append [OF reads_as_entry [OF b(1)] Cons.IH [OF b(2)]] Cons.prems(2) by (simp add: b(3) packable_def)
qed

lemma pack_refusal:
  assumes "pack_parts es = Inl err"
  shows "\<exists>e\<in>set es. \<exists>n. err = PathTooLong n \<and> (n = entry_name (pe_name e) \<or> n = dir_name (entry_name (pe_name e)))
    \<and> split_path n = Inl err"
  using assms
proof (induction es)
  case (Cons e es)
  have hd: "tarHeader n sz mode type mtime = Inl err \<Longrightarrow> err = PathTooLong n \<and> split_path n = Inl err"
    for n sz mode type mtime err
    using split_path_cases [OF refl, of n] by (auto simp: tarHeader_def split: sum.splits)
  from Cons show ?case
    by (auto simp: pack_one_def Let_def split: sum.splits if_splits dest: hd)
qed simp

text \<open>C20: a packed project is read back as it was. Packing either refuses an entry by name, whose path is
  over 100 bytes and has no separator at which it could be split, or gives an archive that unpacks, in
  order, to exactly the entries packed (those without a name apart), with their names normalised and
  their bytes unchanged, as long as they stay within the caps of 128 MB and 20000 entries and no name
  contains a NUL.\<close>

theorem archive_round_trip:
  assumes "packable es" and "(\<Sum>e\<leftarrow>es. stored_bytes e) \<le> MAX_TOTAL_BYTES"
    and "length (concat (map item_of es)) \<le> MAX_ENTRIES"
  shows "case pack es of
      Inl err \<Rightarrow> \<exists>e\<in>set es. \<exists>n. err = PathTooLong n
          \<and> (n = entry_name (pe_name e) \<or> n = dir_name (entry_name (pe_name e))) \<and> split_path n = Inl err
    | Inr b \<Rightarrow> unpack b MAX_TOTAL_BYTES MAX_ENTRIES = Some (Inr (concat (map item_of es)))"
proof (cases "pack_parts es")
  case (Inl err)
  then show ?thesis using pack_refusal [OF Inl] by (simp add: pack_def)
next
  case (Inr b)
  have "MAX_TOTAL_BYTES < 8 ^ 12" by (simp add: MAX_TOTAL_BYTES_def)
  with assms(2) have "(\<Sum>e\<leftarrow>es. stored_bytes e) < 8 ^ 12" by (rule order.strict_trans1)
  from reads_as_unpack [OF reads_as_packed [OF Inr assms(1) this] assms(2, 3)] show ?thesis
    using Inr by (simp add: pack_def BLOCK_def)
qed

definition demo_entries :: "pack_entry list" where
  "demo_entries =
     [\<lparr>pe_name = ''./src/a.js'', pe_data = [104, 105], pe_dir = False, pe_mode = None\<rparr>,
      \<lparr>pe_name = ''docs'', pe_data = [], pe_dir = True, pe_mode = None\<rparr>]"

lemma archive_round_trip_witness:
  "case pack demo_entries of Inl _ \<Rightarrow> False | Inr b \<Rightarrow> unpack b MAX_TOTAL_BYTES MAX_ENTRIES =
     Some (Inr [\<lparr>ti_name = ''src/a.js'', ti_data = [104, 105], ti_dir = False\<rparr>,
                \<lparr>ti_name = ''docs/'', ti_data = [], ti_dir = True\<rparr>])"
proof -
  have items: "concat (map item_of demo_entries) =
     [\<lparr>ti_name = ''src/a.js'', ti_data = [104, 105], ti_dir = False\<rparr>,
      \<lparr>ti_name = ''docs/'', ti_data = [], ti_dir = True\<rparr>]" by code_simp
  have "packable demo_entries" "(\<Sum>e\<leftarrow>demo_entries. stored_bytes e) \<le> MAX_TOTAL_BYTES" by code_simp+
  moreover have "length (concat (map item_of demo_entries)) \<le> MAX_ENTRIES"
    unfolding items by (simp add: MAX_ENTRIES_def)
  ultimately have "case pack demo_entries of
      Inl err \<Rightarrow> \<exists>e\<in>set demo_entries. \<exists>n. err = PathTooLong n
          \<and> (n = entry_name (pe_name e) \<or> n = dir_name (entry_name (pe_name e))) \<and> split_path n = Inl err
    | Inr b \<Rightarrow> unpack b MAX_TOTAL_BYTES MAX_ENTRIES = Some (Inr (concat (map item_of demo_entries)))"
    by (rule archive_round_trip)
  moreover have "\<exists>b. pack demo_entries = Inr b"
    by (simp add: pack_def demo_entries_def pack_one_def entry_name_def bs_to_slash_def dir_name_def tarHeader_def
        split_path_def NAME_MAX_def Let_def)
  ultimately show ?thesis by (auto simp: items)
qed

section \<open>Coming to an end\<close>

lemma loop_stuck: "unpack_turn buf M N st = Next st \<Longrightarrow> unpack_loop buf M N st = None"
proof (rule ccontr)
  assume st: "unpack_turn buf M N st = Next st" and "unpack_loop buf M N st \<noteq> None"
  then obtain y where y: "unpack_loop buf M N st = Some y" by auto
  have "unpack_turn buf M N st \<noteq> Next st"
    by (rule unpack_loop.raw_induct [OF _ y]) (auto split: unpack_step.splits)
  with st show False by blast
qed

text \<open>C21: one header of an archive that a hostile machine sends back stops the server. When the archive
  begins with a block that is neither a file nor a folder (a symbolic link, say) and announces the size
  "-1000" (octal for -512), reading steps forward over the header and back over the announced size, for
  ever: \<open>unpack\<close> does not return, whatever follows the block and whatever the caps.\<close>

theorem negative_size_hangs:
  assumes "length h = 512" and "header_size h = - 512"
    and "header_type h \<noteq> CHR ''0''" "header_type h \<noteq> NUL" "header_type h \<noteq> CHR ''5''"
    and "\<not> list_all (\<lambda>b. b = 0) h"
  shows "unpack (h @ c) M N = None"
proof -
  have "unpack_turn ([] @ h @ c) M N \<lparr>un_out = [], un_off = 0, un_total = 0\<rparr>
      = Next \<lparr>un_out = [], un_off = 0, un_total = 0\<rparr>"
    using header_turn [OF assms(1, 6), of "\<lparr>un_out = [], un_off = 0, un_total = 0\<rparr>" "[]" "[]" 0 c M N] assms(1-5)
    by (simp add: Let_def tarPadding_def js_rem_def)
  then show ?thesis by (simp add: unpack_def loop_stuck)
qed

definition hostile_header :: bytes where
  "hostile_header = copy_at 124 (pad_field ''-1000'' 12) (header_fields [] ''x'' 0 420 (CHR ''2'') 0)"

lemma hostile_header_reads:
  "length hostile_header = 512" "header_size hostile_header = - 512" "header_type hostile_header = CHR ''2''"
  "\<not> list_all (\<lambda>b. b = 0) hostile_header"
proof -
  define g where "g = header_fields [] ''x'' 0 420 (CHR ''2'') 0"
  note rd = header_fields_read [OF g_def]
  have h: "hostile_header = copy_at 124 (pad_field ''-1000'' 12) g" by (simp add: hostile_header_def g_def)
  show len: "length hostile_header = 512" unfolding h using rd(1) by (simp add: tar_simps)
  have "take 12 (drop 124 hostile_header) = pad_field ''-1000'' 12" unfolding h using rd(1) by (simp add: tar_simps)
  then have "field_text hostile_header 124 12 = ''-1000''" by (rule field_text_pad) (simp_all add: NUL_def)
  moreover have "js_trim ''-1000'' = ''-1000''" "parse_octal ''-1000'' = - 512" by code_simp+
  ultimately show "header_size hostile_header = - 512" by (simp add: header_size_def)
  have "take 1 (drop 156 hostile_header) = bytes_of ''2''" unfolding h using rd(1, 4) by (simp add: tar_simps)
  then have t: "chars_of (take 1 (drop 156 hostile_header)) = ''2''" by simp
  then show "header_type hostile_header = CHR ''2''" using len
    by (simp add: header_type_def chars_of_def take_Suc hd_drop_conv_nth)
  show "\<not> list_all (\<lambda>b. b = 0) hostile_header"
  proof
    assume "list_all (\<lambda>b. b = 0) hostile_header"
    then have "\<forall>x\<in>set hostile_header. x = 0" by (simp add: list_all_iff)
    from replicate_length_same [OF this] len have "hostile_header = zeros 512" by (simp add: zeros_def)
    with t have "chars_of (take 1 (drop 156 (zeros 512))) = ''2''" by (simp only:)
    then show False by (simp add: chars_of_zeros NUL_def)
  qed
qed

lemma negative_size_hangs_witness: "unpack (hostile_header @ zeros 1024) MAX_TOTAL_BYTES MAX_ENTRIES = None"
  by (rule negative_size_hangs) (simp_all add: hostile_header_reads NUL_def)

text \<open>What holds of a reading state.\<close>

definition unpack_ok :: "int \<Rightarrow> nat \<Rightarrow> unpack_state \<Rightarrow> bool" where
  "unpack_ok M N st = (0 \<le> un_off st \<and> 512 dvd un_off st \<and> length (un_out st) \<le> N \<and> un_total st \<le> M
     \<and> (\<Sum>i\<leftarrow>un_out st. int (length (ti_data i))) \<le> un_total st)"

lemma length_subarray: "0 \<le> start \<Longrightarrow> 0 \<le> n \<Longrightarrow> int (length (subarray b start (start + n))) \<le> n"
  by (auto simp: subarray_def sub_pos_def Let_def min_def)

lemma padded_dvd: "0 \<le> n \<Longrightarrow> 512 dvd n + tarPadding n"
proof -
  assume "0 \<le> n"
  then have "n + tarPadding n = 512 * (n div 512) + (if n mod 512 = 0 then 0 else 512)"
    using mult_div_mod_eq [of 512 n] by (auto simp: tarPadding_def js_rem_def minus_mod_eq_mult_div)
  then show ?thesis by (auto simp: dvd_add)
qed

lemma turn_next:
  assumes "unpack_turn buf M N st = Next st'" "unpack_ok M N st"
    and "0 \<le> header_size (subarray buf (un_off st) (un_off st + 512))"
  shows "unpack_ok M N st' \<and> un_off st + 512 \<le> un_off st' \<and> un_off st + 512 \<le> int (length buf)"
proof -
  define sz where "sz = header_size (subarray buf (un_off st) (un_off st + 512))"
  have sz: "0 \<le> sz" "0 \<le> tarPadding sz" using assms(3) padding_nonneg by (simp_all add: sz_def)
  have off: "0 \<le> un_off st + 512" using assms(2) by (simp add: unpack_ok_def)
  have "int (length (subarray buf (un_off st + 512) (un_off st + 512 + sz))) \<le> sz"
    using length_subarray [OF off sz(1)] .
  moreover have "512 dvd un_off st + 512" "512 dvd un_off st + 512 + sz + tarPadding sz"
    using assms(2) padded_dvd [OF sz(1)] by (auto simp: unpack_ok_def add.assoc)
  ultimately show ?thesis using assms(1, 2) sz
    unfolding unpack_turn_def Let_def sz_def [symmetric]
    by (auto simp: unpack_ok_def split: if_splits)
qed

text \<open>no other archive does. When no block of the archive announces a negative size, reading comes to
  an end, and what it returns respects both caps: at most \<open>N\<close> entries, and at most \<open>M\<close> bytes of data.\<close>

theorem unpack_returns_within_caps:
  assumes "\<forall>k\<ge>0. 0 \<le> header_size (subarray buf (512 * k) (512 * k + 512))" and "0 \<le> M"
  shows "\<exists>r. unpack buf M N = Some r
    \<and> (case r of Inl _ \<Rightarrow> True
       | Inr out \<Rightarrow> length out \<le> N \<and> (\<Sum>i\<leftarrow>out. int (length (ti_data i))) \<le> M)"
proof -
  have "\<exists>r. unpack_loop buf M N st = Some r
      \<and> (case r of Inl _ \<Rightarrow> True | Inr out \<Rightarrow> length out \<le> N \<and> (\<Sum>i\<leftarrow>out. int (length (ti_data i))) \<le> M)"
    if "unpack_ok M N st" for st
    using that
  proof (induction "nat (int (length buf) - un_off st)" arbitrary: st rule: less_induct)
    case less
    show ?case
    proof (cases "unpack_turn buf M N st")
      case (Done out)
      then have "out = un_out st" by (auto simp: unpack_turn_def Let_def split: if_splits)
      then show ?thesis using loop_done [OF Done] less.prems by (simp add: unpack_ok_def)
    next
      case (Failed e)
      then show ?thesis by (subst unpack_loop.simps) simp
    next
      case (Next st')
      obtain k where "un_off st = 512 * k" "0 \<le> k"
        using less.prems by (auto simp: unpack_ok_def elim!: dvdE)
      with assms(1) have "0 \<le> header_size (subarray buf (un_off st) (un_off st + 512))" by simp
      from turn_next [OF Next less.prems this] have st': "unpack_ok M N st'"
        "un_off st + 512 \<le> un_off st'" "un_off st + 512 \<le> int (length buf)" by simp_all
      then have "nat (int (length buf) - un_off st') < nat (int (length buf) - un_off st)" by linarith
      from less.hyps [OF this st'(1)] show ?thesis unfolding loop_next [OF Next] .
    qed
  qed
  from this [of "\<lparr>un_out = [], un_off = 0, un_total = 0\<rparr>"] assms(2) show ?thesis
    by (simp add: unpack_def unpack_ok_def)
qed

lemma zero_block: "header_size (zeros k) = 0"
proof -
  have "field_text (zeros k) 124 12 = []"
    using cut_nul_id [of "[]"] by (simp add: field_text_def chars_of_zeros)
  moreover have "js_trim [] = []" "parse_octal ''0'' = 0" by code_simp+
  ultimately show ?thesis by (simp add: header_size_def)
qed

lemma unpack_returns_within_caps_witness:
  "\<exists>h r. tarHeader ''a'' 0 420 (CHR ''0'') 0 = Inr h \<and> unpack (h @ zeros 1024) 0 5 = Some r"
proof -
  obtain h where h: "tarHeader ''a'' 0 420 (CHR ''0'') 0 = Inr h"
    by (auto simp: tarHeader_def split_path_def NAME_MAX_def)
  have rd: "length h = 512" "header_size h = 0" using header_read(1, 3) [OF h] by (simp_all add: NUL_def)
  have "0 \<le> header_size (subarray (h @ zeros 1024) (512 * k) (512 * k + 512))" if "0 \<le> k" for k
  proof (cases "k = 0")
    case True
    then show ?thesis using rd subarray_mid [of 0 "[]" 512 h "zeros 1024"] by simp
  next
    case False
    with that have "1 \<le> k" by simp
    then have "\<exists>m. subarray (h @ zeros 1024) (512 * k) (512 * k + 512) = zeros m"
      using rd(1) by (auto simp: subarray_def sub_pos_def Let_def)
    then show ?thesis using zero_block by auto
  qed
  then have "\<forall>k\<ge>0. 0 \<le> header_size (subarray (h @ zeros 1024) (512 * k) (512 * k + 512))" by simp
  from unpack_returns_within_caps [OF this, of 0 5] h show ?thesis by auto
qed

section \<open>Staying inside\<close>

definition plain_seg :: "string \<Rightarrow> bool" where
  "plain_seg s = (s \<noteq> [] \<and> s \<noteq> ''.'' \<and> s \<noteq> ''..'' \<and> CHR ''/'' \<notin> set s \<and> CHR 0x5C \<notin> set s)"

lemma split_on_segs: "seg \<in> set (split_on c s) \<Longrightarrow> set seg \<subseteq> set s \<and> c \<notin> set seg"
  by (induction s arbitrary: seg) (fastforce split: if_splits list.splits)+

lemma path_segs_plain:
  assumes "path_segs parts segs = Some out" "\<forall>s\<in>set parts. plain_seg s"
    and "\<forall>s\<in>set segs. CHR ''/'' \<notin> set s \<and> CHR 0x5C \<notin> set s"
  shows "\<forall>s\<in>set out. plain_seg s"
  using assms
proof (induction parts segs rule: path_segs.induct)
  case (2 parts seg segs)
  consider "seg = [] \<or> seg = ''.''" | "seg = ''..''" "parts \<noteq> []" | "plain_seg seg" | "seg = ''..''" "parts = []"
    using 2(6) by (auto simp: plain_seg_def)
  then show ?case
  proof cases
    case 1
    then show ?thesis using 2(1) 2(4-6) by simp
  next
    case 2
    then show ?thesis using "2.IH"(2) "2.prems" by (auto dest: in_set_butlastD)
  next
    case 3
    then have "seg \<noteq> []" "seg \<noteq> ''.''" "seg \<noteq> ''..''" by (simp_all add: plain_seg_def)
    then show ?thesis using "2.IH"(3) "2.prems" 3 by simp
  next
    case 4
    then show ?thesis using "2.prems" by simp
  qed
qed simp

lemma path_segs_id: "\<forall>s\<in>set segs. plain_seg s \<Longrightarrow> path_segs parts segs = Some (parts @ segs)"
  by (induction segs arbitrary: parts) (auto simp: plain_seg_def)

lemma segs_found:
  assumes "path_segs [] (split_on (CHR ''/'') n) = Some out" "CHR 0x5C \<notin> set n" "out \<noteq> []"
  shows "split_on (CHR ''/'') (join ''/'' out) = out \<and> (\<forall>s\<in>set out. plain_seg s)"
proof -
  have "\<forall>s\<in>set (split_on (CHR ''/'') n). CHR ''/'' \<notin> set s \<and> CHR 0x5C \<notin> set s"
    using split_on_segs [of _ "CHR ''/''" n] assms(2) by blast
  with path_segs_plain [OF assms(1)] have "\<forall>s\<in>set out. plain_seg s" by simp
  then show ?thesis using split_join_lines [OF assms(3), of "CHR ''/''"] by (simp add: plain_seg_def)
qed

lemma no_backslash: "CHR 0x5C \<notin> set (strip_dot (bs_to_slash n))"
proof -
  have "set (strip_dot s) \<subseteq> set s" for s by (auto simp: strip_dot_def split: list.splits)
  moreover have "CHR 0x5C \<notin> set (bs_to_slash n)" by (auto simp: bs_to_slash_def)
  ultimately show ?thesis by blast
qed

lemma plain_join:
  assumes "segs \<noteq> []" "\<forall>s\<in>set segs. plain_seg s"
  shows "strip_dot (bs_to_slash (join ''/'' segs)) = join ''/'' segs \<and> join ''/'' segs \<noteq> []
    \<and> hd (join ''/'' segs) \<noteq> CHR ''/'' \<and> split_on (CHR ''/'') (join ''/'' segs) = segs"
proof -
  define n where "n = join ''/'' segs"
  have sp: "split_on (CHR ''/'') n = segs"
    using split_join_lines [OF assms(1), of "CHR ''/''"] assms(2) by (simp add: n_def plain_seg_def)
  have "CHR 0x5C \<notin> set n"
    using set_join [of "''/''" segs] assms(2) by (auto simp: n_def plain_seg_def)
  then have bs: "bs_to_slash n = n" by (rule bs_to_slash_id)
  have "[] \<notin> set segs" using assms(2) by (auto simp: plain_seg_def)
  then have no_empty: "split_on (CHR ''/'') n \<noteq> [[]]" "\<And>r. split_on (CHR ''/'') n \<noteq> [] # r"
    unfolding sp by (metis list.set_intros(1))+
  from no_empty(1) have "n \<noteq> []" by (intro notI) simp
  moreover have "hd n \<noteq> CHR ''/''" using no_empty(2) [of "split_on (CHR ''/'') (tl n)"] \<open>n \<noteq> []\<close>
    by (cases n) auto
  moreover have "strip_dot n = n"
  proof (rule ccontr)
    assume "strip_dot n \<noteq> n"
    then obtain r where "n = CHR ''.'' # CHR ''/'' # r" by (auto simp: strip_dot_def split: list.splits if_splits)
    with sp have "''.'' \<in> set segs" by auto
    with assms(2) show False by (auto simp: plain_seg_def)
  qed
  ultimately show ?thesis using bs sp by (simp add: n_def)
qed

text \<open>C23: an extracted entry lands inside its folder. Whatever name an archive carries, the path the
  containment check returns is empty, which the caller refuses, or leads from any folder to a place
  strictly below that folder: it has no backslash and no leading separator, none of its segments is
  empty, "." or "..", and walking them never leaves the folder. A relative name made of such segments
  is accepted as it is, unless it begins with a drive letter.\<close>

theorem entries_stay_inside:
  "(safeEntryPath name = [] \<or>
      (\<exists>segs. segs \<noteq> [] \<and> (\<forall>s\<in>set segs. plain_seg s) \<and> split_on (CHR ''/'') (safeEntryPath name) = segs
         \<and> (\<forall>folder. path_segs folder segs = Some (folder @ segs))))
    \<and> (ok_segs \<noteq> [] \<and> (\<forall>s\<in>set ok_segs. plain_seg s) \<and> \<not> has_drive (join ''/'' ok_segs)
      \<longrightarrow> safeEntryPath (join ''/'' ok_segs) = join ''/'' ok_segs)"
proof (rule conjI)
  define n where "n = strip_dot (bs_to_slash name)"
  show "safeEntryPath name = [] \<or>
      (\<exists>segs. segs \<noteq> [] \<and> (\<forall>s\<in>set segs. plain_seg s) \<and> split_on (CHR ''/'') (safeEntryPath name) = segs
         \<and> (\<forall>folder. path_segs folder segs = Some (folder @ segs)))"
  proof (cases "safeEntryPath name = []")
    case False
    then obtain out where out: "path_segs [] (split_on (CHR ''/'') n) = Some out" "safeEntryPath name = join ''/'' out"
      by (auto simp: safeEntryPath_def n_def Let_def split: if_splits option.splits)
    with False have "out \<noteq> []" by auto
    with segs_found [OF out(1)] no_backslash [of name] path_segs_id [of out] out(2) show ?thesis
      by (simp add: n_def)
  qed simp
next
  show "ok_segs \<noteq> [] \<and> (\<forall>s\<in>set ok_segs. plain_seg s) \<and> \<not> has_drive (join ''/'' ok_segs)
      \<longrightarrow> safeEntryPath (join ''/'' ok_segs) = join ''/'' ok_segs"
    using plain_join [of ok_segs] path_segs_id [of ok_segs "[]"] by (auto simp: safeEntryPath_def Let_def)
qed

lemma entries_stay_inside_witness:
  "safeEntryPath ''src/a.js'' = ''src/a.js'' \<and> safeEntryPath ''../x'' = [] \<and> safeEntryPath ''a/../../x'' = []"
proof -
  have "\<forall>s\<in>set [''src'', ''a.js'']. plain_seg s" "\<not> has_drive (join ''/'' [''src'', ''a.js''])"
    by (simp_all add: plain_seg_def has_drive_def)
  then have "safeEntryPath (join ''/'' [''src'', ''a.js'']) = join ''/'' [''src'', ''a.js'']"
    using entries_stay_inside [of "''../x''" "[''src'', ''a.js'']"] by blast
  moreover have "safeEntryPath ''../x'' = []" "safeEntryPath ''a/../../x'' = []" by code_simp+
  ultimately show ?thesis by simp
qed

text \<open>The check for a drive letter looks at the first segment as it came, so one behind a second dot
  segment gets through.\<close>

lemma drive_letter_slips_through: "safeEntryPath ''./C:/x'' = [] \<and> safeEntryPath ''././C:/x'' = ''C:/x''"
  by code_simp

text \<open>\<open>octal\<close> compares the number of decimal digits with the field, so a size from 64 GiB on is not refused:
  its thirteenth octal digit is cut off, and the header promises another size.\<close>

lemma oversize_is_misread:
  assumes "tarHeader ''a'' 68719476736 420 (CHR ''0'') 0 = Inr h"
  shows "header_size h = 8589934592"
proof -
  have h: "h = header_fields [] ''a'' 68719476736 420 (CHR ''0'') 0"
    using assms by (simp add: tarHeader_def split_path_def NAME_MAX_def)
  have "digit_char 1 = CHR ''1''" "digit_char 0 = CHR ''0''" by code_simp+
  then have "octal 68719476736 12 = ''1000000000000'' @ [NUL]"
    by (simp add: octal_def show_nat.simps show_octal.simps Let_def)
  then have "chars_of (take 12 (drop 124 h)) = ''100000000000''"
    using header_fields_read(3) [OF h] by (simp add: chars_of_pad_field)
  then have "field_text h 124 12 = ''100000000000''" by (simp add: field_text_def NUL_def)
  moreover have "js_trim ''100000000000'' = ''100000000000''" by code_simp
  moreover have "parse_octal ''100000000000'' = 8589934592"
    by (simp add: parse_octal_def is_ws_def is_octal_def nat_of_octal_def)
  ultimately show ?thesis by (simp add: header_size_def)
qed

end
