(* ===== verification/TarStream.thy ===== *)
theory TarStream
  imports TarLite_Facts
begin

text \<open>
  \<open>tarstream.mjs\<close>: the archive of a backup, written and read as a stream.  A file on disk is what the
  code can observe of it: its size and modification time when asked, the chunks its read stream delivers,
  and whether reading then fails.  A source is the list of chunks it delivers.  A chunk size of zero
  would never end and is never passed.
\<close>

section \<open>Writing\<close>

record stream_file =
  sf_name :: string
  sf_size :: "nat option"
  sf_mtime :: "nat option"
  sf_stat :: "(nat \<times> nat) option"     \<comment> \<open>\<open>None\<close> when the file is gone\<close>
  sf_chunks :: "bytes list"
  sf_readFails :: bool

definition size_mtime :: "stream_file \<Rightarrow> (nat \<times> nat) option" where
  "size_mtime f =
     (case (sf_size f, sf_mtime f) of (Some s, Some m) \<Rightarrow> Some (s, m) | _ \<Rightarrow> sf_stat f)"

text \<open>The promised bytes: what the file delivers, cut when it grew, and zeros when it shrank.  The last
  component says that reading was broken off because the file grew.\<close>

fun send_chunks :: "nat \<Rightarrow> bytes list \<Rightarrow> bytes list \<times> nat \<times> bool" where
  "send_chunks remaining [] = ([], remaining, False)"
| "send_chunks remaining (chunk # cs) =
     (if remaining \<le> 0 then ([], remaining, True)
      else let piece = (if length chunk > remaining then take remaining chunk else chunk);
               (rest, left, broke) = send_chunks (remaining - length piece) cs
           in (piece # rest, left, broke))"

function zero_fill :: "nat \<Rightarrow> nat \<Rightarrow> bytes list" where
  "zero_fill remaining chunkBytes =
     (if remaining = 0 \<or> chunkBytes = 0 then []
      else let n = min remaining chunkBytes in zeros n # zero_fill (remaining - n) chunkBytes)"
  by pat_completeness auto
termination by (relation "measure fst") auto

declare zero_fill.simps [simp del]

record stream_out =
  so_blocks :: "bytes list"
  so_skipped :: "string list"
  so_files :: "(string \<times> nat) list"

definition stream_one :: "nat \<Rightarrow> stream_file \<Rightarrow> stream_out" where
  "stream_one chunkBytes f =
     (case size_mtime f of
        None \<Rightarrow> \<lparr>so_blocks = [], so_skipped = [sf_name f], so_files = []\<rparr>
      | Some (sz, mtime) \<Rightarrow>
          (case tarHeader (sf_name f) sz 420 (CHR ''0'') mtime of
             Inl e \<Rightarrow> \<lparr>so_blocks = [], so_skipped = [sf_name f], so_files = []\<rparr>
           | Inr head \<Rightarrow>
               let (sent, remaining, broke) = send_chunks sz (sf_chunks f); pad = nat (tarPadding (int sz))
               in \<lparr>so_blocks = head # sent @ zero_fill remaining chunkBytes @ (if pad \<noteq> 0 then [zeros pad] else []),
                   so_skipped = (if sf_readFails f \<and> \<not> broke then [sf_name f] else []),
                   so_files = [(sf_name f, sz)]\<rparr>))"

definition tarStream :: "nat \<Rightarrow> stream_file list \<Rightarrow> stream_out" where
  "tarStream chunkBytes files =
     (let outs = map (stream_one chunkBytes) files
      in \<lparr>so_blocks = concat (map so_blocks outs) @ [zeros BLOCK, zeros BLOCK],
          so_skipped = concat (map so_skipped outs), so_files = concat (map so_files outs)\<rparr>)"

section \<open>Reading\<close>

datatype extract_error = TooLarge string int | EndedMidEntry string

record extract_result =
  xr_error :: "extract_error option"
  xr_entries :: nat
  xr_extracted :: nat
  xr_writes :: "(string \<times> bytes) list"

text \<open>\<open>fill\<close> waits until the rolling buffer holds \<open>n\<close> bytes.\<close>

fun fill :: "nat \<Rightarrow> bytes \<Rightarrow> bytes list \<Rightarrow> bool \<times> bytes \<times> bytes list" where
  "fill n buf [] = (n \<le> length buf, buf, [])"
| "fill n buf (v # vs) = (if n \<le> length buf then (True, buf, v # vs) else fill n (buf @ v) vs)"

lemma fill_flat: "fill n buf src = (ok, buf', src') \<Longrightarrow> buf' @ concat src' = buf @ concat src
    \<and> ok = (n \<le> length (buf @ concat src)) \<and> (ok \<longrightarrow> n \<le> length buf')
    \<and> (\<not> ok \<longrightarrow> src' = [])"
  by (induction n buf src rule: fill.induct) (auto split: if_splits)

text \<open>The loops that take \<open>left\<close> bytes piece by piece: the bytes taken, how many are missing, and what
  remains.\<close>

function take_pieces :: "nat \<Rightarrow> bytes \<Rightarrow> bytes list \<Rightarrow> bytes \<times> nat \<times> bytes \<times> bytes list" where
  "take_pieces left buf src =
     (if left = 0 then ([], 0, buf, src)
      else case (if buf = [] then fill 1 buf src else (True, buf, src)) of
             (False, buf, src) \<Rightarrow> ([], left, buf, src)
           | (True, buf, src) \<Rightarrow>
               let n = min left (length buf);
                   (taken, missing, buf', src') = take_pieces (left - n) (drop n buf) src
               in (take n buf @ taken, missing, buf', src'))"
  by pat_completeness auto
termination
  by (relation "measure fst") (auto split: if_splits dest!: fill_flat [OF sym])

declare take_pieces.simps [simp del]

lemma take_pieces_flat:
  assumes "take_pieces left buf src = (taken, missing, buf', src')"
  shows "taken = take left (buf @ concat src) \<and> missing = left - length (buf @ concat src)
     \<and> buf' @ concat src' = drop left (buf @ concat src)"
  using assms
proof (induction left buf src arbitrary: taken missing buf' src' rule: take_pieces.induct)
  case (1 left buf src)
  show ?case
  proof (cases "left = 0")
    case True
    then show ?thesis using 1(2) by (simp add: take_pieces.simps)
  next
    case False
    obtain ok b2 s2 where f: "(if buf = [] then fill 1 buf src else (True, buf, src)) = (ok, b2, s2)"
      by (metis prod_cases3)
    have "b2 @ concat s2 = buf @ concat src \<and> ok = (1 \<le> length (buf @ concat src))"
    proof (cases "buf = []")
      case True
      then show ?thesis using fill_flat [of 1 buf src ok b2 s2] f by simp
    next
      case False
      then show ?thesis using f by (cases buf) auto
    qed
    then have flat: "b2 @ concat s2 = buf @ concat src" and len: "ok = (1 \<le> length (buf @ concat src))"
      by simp_all
    from len have ok: "ok \<longleftrightarrow> buf @ concat src \<noteq> []" by (cases "buf @ concat src") auto
    show ?thesis
    proof (cases ok)
      case False
      then have "(taken, missing, buf', src') = ([], left, b2, s2)"
        using 1(2) f \<open>left \<noteq> 0\<close> by (simp add: take_pieces.simps [of left])
      moreover from False ok have e: "buf @ concat src = []" by simp
      moreover have "b2 @ concat s2 = []" using flat unfolding e .
      ultimately show ?thesis unfolding e by simp
    next
      case True
      define n where "n = min left (length b2)"
      obtain t m b3 s3 where r: "take_pieces (left - n) (drop n b2) s2 = (t, m, b3, s3)" by (metis prod_cases4)
      have eq: "taken = take n b2 @ t" "missing = m" "buf' = b3" "src' = s3"
        using 1(2) f \<open>left \<noteq> 0\<close> True r by (simp_all add: take_pieces.simps [of left] n_def Let_def)
      have f': "(True, b2, s2) = (if buf = [] then fill 1 buf src else (True, buf, src))" using f True by simp
      have "t = take (left - n) (drop n b2 @ concat s2) \<and> m = left - n - length (drop n b2 @ concat s2)
          \<and> b3 @ concat s3 = drop (left - n) (drop n b2 @ concat s2)"
        using "1.IH" [OF \<open>left \<noteq> 0\<close> f' refl refl n_def r] .
      then show ?thesis unfolding eq flat [symmetric] by (auto simp: n_def min_def)
    qed
  qed
qed

text \<open>The reading loop.  \<open>want\<close> and \<open>onEntry\<close> are the caller's; no path means that the entry is passed
  over.\<close>

definition keep_entry :: "(string \<Rightarrow> bool) \<Rightarrow> bytes \<Rightarrow> bool" where
  "keep_entry want head =
     ((if header_type head = NUL then CHR ''0'' else header_type head) \<noteq> CHR ''5''
      \<and> header_size head > 0 \<and> want (header_name head))"

definition fail_with :: "extract_error \<Rightarrow> extract_result \<Rightarrow> extract_result" where
  "fail_with e r = r\<lparr>xr_error := Some e\<rparr>"

lemma pieces_length:
  "take_pieces left buf src = (taken, missing, buf', src') \<Longrightarrow>
     length buf' + length (concat src') \<le> length buf + length (concat src)"
  using take_pieces_flat [of left buf src taken missing buf' src'] by (metis diff_le_self length_append length_drop)

lemma fill_length:
  "fill n buf src = (True, buf', src') \<Longrightarrow>
     n \<le> length buf' \<and> length buf' + length (concat src') = length buf + length (concat src)"
  using fill_flat [of n buf src True buf' src'] by (metis length_append)

function extract_loop ::
  "(string \<Rightarrow> bool) \<Rightarrow> (string \<Rightarrow> int \<Rightarrow> string option) \<Rightarrow> int \<Rightarrow> bytes \<Rightarrow> bytes list \<Rightarrow> extract_result
     \<Rightarrow> extract_result" where
  "extract_loop want onEntry maxEntryBytes buf src r =
     (case fill 512 buf src of
        (False, buf, src) \<Rightarrow> r
      | (True, buf, src) \<Rightarrow>
          let head = take 512 buf; buf = drop 512 buf in
          if list_all (\<lambda>b. b = 0) head then r
          else
            let name = header_name head; sz = header_size head; pad = tarPadding sz;
                r = r\<lparr>xr_entries := xr_entries r + 1\<rparr> in
            if sz > maxEntryBytes then fail_with (TooLarge name sz) r
            else if \<not> keep_entry want head
            then (case take_pieces (nat (sz + pad)) buf src of
                    (_, missing, buf, src) \<Rightarrow>
                      if missing > 0 then fail_with (EndedMidEntry name) r
                      else extract_loop want onEntry maxEntryBytes buf src r)
            else (case onEntry name sz of
                    None \<Rightarrow>
                      (case take_pieces (nat (sz + pad)) buf src of
                         (_, _, buf, src) \<Rightarrow> extract_loop want onEntry maxEntryBytes buf src r)
                  | Some dest \<Rightarrow>
                      (case take_pieces (nat sz) buf src of
                         (data, missing, buf, src) \<Rightarrow>
                           let r = r\<lparr>xr_writes := xr_writes r @ [(dest, data)]\<rparr> in
                           if missing > 0 then fail_with (EndedMidEntry name) r
                           else (case take_pieces (nat pad) buf src of
                                   (_, _, buf, src) \<Rightarrow>
                                     extract_loop want onEntry maxEntryBytes buf src
                                       (r\<lparr>xr_extracted := xr_extracted r + 1\<rparr>)))))"
  by pat_completeness auto

termination
proof (relation "measure (\<lambda>(_, _, _, buf, src, _). length buf + length (concat src))", goal_cases)
  case 1
  show ?case by simp
qed (force dest!: fill_length [OF sym] pieces_length [OF sym])+

declare extract_loop.simps [simp del]

definition extractStream ::
  "(string \<Rightarrow> bool) \<Rightarrow> (string \<Rightarrow> int \<Rightarrow> string option) \<Rightarrow> int \<Rightarrow> bytes list \<Rightarrow> extract_result" where
  "extractStream want onEntry maxEntryBytes source =
     extract_loop want onEntry maxEntryBytes [] source
       \<lparr>xr_error = None, xr_entries = 0, xr_extracted = 0, xr_writes = []\<rparr>"

section \<open>The whole archive at once\<close>

text \<open>What the reading loop means: the same entries, read from the bytes of the archive in one piece.\<close>

function extract_flat ::
  "(string \<Rightarrow> bool) \<Rightarrow> (string \<Rightarrow> int \<Rightarrow> string option) \<Rightarrow> int \<Rightarrow> bytes \<Rightarrow> extract_result \<Rightarrow> extract_result" where
  "extract_flat want onEntry maxEntryBytes b r =
     (if length b < 512 \<or> list_all (\<lambda>x. x = 0) (take 512 b) then r
      else
        let head = take 512 b; rest = drop 512 b; name = header_name head; sz = header_size head;
            left = nat (sz + tarPadding sz); r = r\<lparr>xr_entries := xr_entries r + 1\<rparr> in
        if sz > maxEntryBytes then fail_with (TooLarge name sz) r
        else if \<not> keep_entry want head
        then if length rest < left then fail_with (EndedMidEntry name) r
             else extract_flat want onEntry maxEntryBytes (drop left rest) r
        else (case onEntry name sz of
                None \<Rightarrow> extract_flat want onEntry maxEntryBytes (drop left rest) r
              | Some dest \<Rightarrow>
                  let r = r\<lparr>xr_writes := xr_writes r @ [(dest, take (nat sz) rest)]\<rparr> in
                  if length rest < nat sz then fail_with (EndedMidEntry name) r
                  else extract_flat want onEntry maxEntryBytes (drop left rest)
                         (r\<lparr>xr_extracted := xr_extracted r + 1\<rparr>)))"
  by pat_completeness auto
termination by (relation "measure (\<lambda>(_, _, _, b, _). length b)") auto

declare extract_flat.simps [simp del]

lemma take_pieces_eq:
  "\<exists>b s. take_pieces left buf src = (take left (buf @ concat src), left - length (buf @ concat src), b, s)
     \<and> b @ concat s = drop left (buf @ concat src)"
proof -
  obtain t m b s where "take_pieces left buf src = (t, m, b, s)" by (metis prod_cases4)
  with take_pieces_flat [OF this] show ?thesis by auto
qed

lemma extraction_flat:
  "extractStream want onEntry maxEntryBytes source
     = extract_flat want onEntry maxEntryBytes (concat source)
         \<lparr>xr_error = None, xr_entries = 0, xr_extracted = 0, xr_writes = []\<rparr>"
proof -
  have "extract_loop want onEntry maxEntryBytes buf src r
      = extract_flat want onEntry maxEntryBytes (buf @ concat src) r" for buf src r
  proof (induction "length (buf @ concat src)" arbitrary: buf src r rule: less_induct)
    case less
    define fl where "fl = buf @ concat src"
    have step: "extract_loop want onEntry maxEntryBytes b s r'
        = extract_flat want onEntry maxEntryBytes (drop k (drop 512 fl)) r'"
      if "b @ concat s = drop k (drop 512 fl)" "512 \<le> length fl" for b s k r'
      using less [of b s r'] that by (simp add: fl_def)
    obtain ok b0 s0 where f: "fill 512 buf src = (ok, b0, s0)" by (metis prod_cases3)
    note ff = fill_flat [OF f, folded fl_def]
    show ?case
    proof (cases "length fl < 512")
      case True
      then have "fill 512 buf src = (False, b0, s0)" using f ff by auto
      then show ?thesis unfolding fl_def [symmetric]
        by (simp add: extract_loop.simps [of _ _ _ buf] extract_flat.simps [of _ _ _ fl] True)
    next
      case False
      then have ok: "fill 512 buf src = (True, b0, s0)" and len: "512 \<le> length b0" using f ff by auto
      have head: "take 512 b0 = take 512 fl" and rest: "drop 512 b0 @ concat s0 = drop 512 fl"
        using ff len by (metis drop_append take_append diff_is_0_eq' drop0 take0 append_Nil2)+
      define sz where "sz = header_size (take 512 fl)"
      obtain b1 s1 where t1: "take_pieces (nat (sz + tarPadding sz)) (drop 512 b0) s0
          = (take (nat (sz + tarPadding sz)) (drop 512 fl), nat (sz + tarPadding sz) - length (drop 512 fl), b1, s1)"
        "b1 @ concat s1 = drop (nat (sz + tarPadding sz)) (drop 512 fl)"
        using take_pieces_eq [of _ "drop 512 b0" s0] unfolding rest by blast
      obtain b2 s2 where t2: "take_pieces (nat sz) (drop 512 b0) s0
          = (take (nat sz) (drop 512 fl), nat sz - length (drop 512 fl), b2, s2)"
        "b2 @ concat s2 = drop (nat sz) (drop 512 fl)"
        using take_pieces_eq [of _ "drop 512 b0" s0] unfolding rest by blast
      obtain b3 s3 where t3: "take_pieces (nat (tarPadding sz)) b2 s2
          = (take (nat (tarPadding sz)) (drop (nat sz) (drop 512 fl)),
             nat (tarPadding sz) - length (drop (nat sz) (drop 512 fl)), b3, s3)"
        "b3 @ concat s3 = drop (nat (tarPadding sz)) (drop (nat sz) (drop 512 fl))"
        using take_pieces_eq [of _ b2 s2] unfolding t2(2) by blast
      show ?thesis
      proof (cases "list_all (\<lambda>b. b = 0) (take 512 fl)")
        case True
        then show ?thesis unfolding fl_def [symmetric]
          by (simp add: extract_loop.simps [of _ _ _ buf] extract_flat.simps [of _ _ _ fl] ok head)
      next
        case alive: False
        have pad: "0 \<le> sz \<Longrightarrow> nat (sz + tarPadding sz) = nat (tarPadding sz) + nat sz"
          using padding_nonneg [of sz] by simp
        have keep: "keep_entry want (take 512 fl) \<Longrightarrow> 0 \<le> sz" by (simp add: keep_entry_def sz_def)
        have joined: "drop (nat (tarPadding sz)) (drop (nat sz) (drop 512 fl))
            = drop (nat (sz + tarPadding sz)) (drop 512 fl)" if "0 \<le> sz"
          using pad [OF that] by (simp add: add.assoc)
        have next1: "extract_loop want onEntry maxEntryBytes b1 s1 r'
            = extract_flat want onEntry maxEntryBytes (drop (nat (sz + tarPadding sz)) (drop 512 fl)) r'" for r'
          using step [OF t1(2)] False by simp
        have next3: "0 \<le> sz \<Longrightarrow> extract_loop want onEntry maxEntryBytes b3 s3 r'
            = extract_flat want onEntry maxEntryBytes (drop (nat (sz + tarPadding sz)) (drop 512 fl)) r'" for r'
          using step [OF trans [OF t3(2) joined]] False by simp
        note lhs = extract_loop.simps [of want onEntry maxEntryBytes buf src r]
        note rhs = extract_flat.simps [of want onEntry maxEntryBytes fl r]
        note unfold = fl_def [symmetric] lhs rhs ok prod.case bool.case head Let_def sz_def [symmetric]
        consider "sz > maxEntryBytes" | "\<not> sz > maxEntryBytes" "\<not> keep_entry want (take 512 fl)"
          | "\<not> sz > maxEntryBytes" "keep_entry want (take 512 fl)" "onEntry (header_name (take 512 fl)) sz = None"
          | dest where "\<not> sz > maxEntryBytes" "keep_entry want (take 512 fl)"
              "onEntry (header_name (take 512 fl)) sz = Some dest"
          by (cases "onEntry (header_name (take 512 fl)) sz") auto
        then show ?thesis
        proof cases
          case 1
          then show ?thesis unfolding unfold using alive False by simp
        next
          case 2
          then show ?thesis unfolding unfold using alive False t1(1) next1 by simp
        next
          case 3
          then show ?thesis unfolding unfold using alive False t1(1) next1 by simp
        next
          case 4
          then show ?thesis unfolding unfold using alive False t2(1) t3(1) next3 keep by simp
        qed
      qed
    qed
  qed
  from this [of "[]" source] show ?thesis by (simp add: extractStream_def)
qed

text \<open>C31: how a backup is cut into chunks does not matter. Whatever chunks the source delivers, empty ones
  too, streaming extraction counts, writes and reports exactly what reading the archive in one piece
  would.\<close>

theorem extraction_ignores_chunking:
  "extractStream want onEntry maxEntryBytes source
     = extract_flat want onEntry maxEntryBytes (concat source)
         \<lparr>xr_error = None, xr_entries = 0, xr_extracted = 0, xr_writes = []\<rparr>"
  by (rule extraction_flat)

section \<open>From disk to disk\<close>

lemma send_chunks_flat:
  "send_chunks n cs = (sent, left, broke) \<Longrightarrow> concat sent = take n (concat cs) \<and> left = n - length (concat cs)"
proof (induction n cs arbitrary: sent left broke rule: send_chunks.induct)
  case (2 n c cs)
  show ?case
  proof (cases "n = 0")
    case True
    with 2(2) show ?thesis by simp
  next
    case False
    define piece where "piece = (if length c > n then take n c else c)"
    obtain rest l br where r: "send_chunks (n - length piece) cs = (rest, l, br)" by (metis prod_cases3)
    have "\<not> n \<le> 0" using False by simp
    from "2.IH" [OF this piece_def r] 2(2) r False show ?thesis
      by (auto simp: piece_def [symmetric] Let_def) (auto simp: piece_def)
  qed
qed simp

lemma concat_zero_fill: "0 < c \<Longrightarrow> concat (zero_fill n c) = zeros n"
proof (induction n c rule: zero_fill.induct)
  case (1 n c)
  then show ?case
    by (cases "n = 0") (simp_all add: zero_fill.simps [of n] zero_fill.simps [of 0] Let_def zeros_def
        replicate_add [symmetric])
qed

text \<open>What the archive holds of a file: the bytes its header promised.\<close>

definition promised :: "stream_file \<Rightarrow> nat \<Rightarrow> bytes" where
  "promised f sz = take sz (concat (sf_chunks f)) @ zeros (sz - length (concat (sf_chunks f)))"

definition stream_items :: "stream_file \<Rightarrow> tar_item list" where
  "stream_items f =
     (case (size_mtime f, split_path (sf_name f)) of
        (Some (sz, _), Inr _) \<Rightarrow> [\<lparr>ti_name = sf_name f, ti_data = promised f sz, ti_dir = False\<rparr>]
      | _ \<Rightarrow> [])"

lemma length_promised [simp]: "length (promised f sz) = sz"
  by (simp add: promised_def min_def)

lemma stream_one_blocks:
  assumes "0 < c"
  shows "(so_blocks (stream_one c f) = [] \<and> stream_items f = []) \<or>
    (\<exists>sz mtime h. stream_items f = [\<lparr>ti_name = sf_name f, ti_data = promised f sz, ti_dir = False\<rparr>]
       \<and> tarHeader (sf_name f) sz 420 (CHR ''0'') mtime = Inr h
       \<and> concat (so_blocks (stream_one c f)) = h @ promised f sz @ zeros (nat (tarPadding (int sz))))"
proof (cases "size_mtime f")
  case None
  then show ?thesis by (simp add: stream_one_def stream_items_def)
next
  case (Some p)
  obtain sz mtime where p: "size_mtime f = Some (sz, mtime)" using Some by (cases p) auto
  show ?thesis
  proof (cases "tarHeader (sf_name f) sz 420 (CHR ''0'') mtime")
    case (Inl e)
    then show ?thesis
      by (auto simp: stream_one_def stream_items_def p tarHeader_def split: sum.splits)
  next
    case (Inr h)
    obtain sent left br where s: "send_chunks sz (sf_chunks f) = (sent, left, br)" by (metis prod_cases3)
    from send_chunks_flat [OF s] have "concat sent @ concat (zero_fill left c) = promised f sz"
      using concat_zero_fill [OF assms] by (simp add: promised_def)
    then have "concat (so_blocks (stream_one c f)) = h @ promised f sz @ zeros (nat (tarPadding (int sz)))"
      using Inr by (auto simp: stream_one_def p s Let_def zeros_def)
    moreover have "stream_items f = [\<lparr>ti_name = sf_name f, ti_data = promised f sz, ti_dir = False\<rparr>]"
      using Inr by (auto simp: stream_items_def p tarHeader_def split: sum.splits)
    ultimately show ?thesis using Inr by blast
  qed
qed

text \<open>Restoring one entry.\<close>

definition restored :: "(string \<Rightarrow> bool) \<Rightarrow> (string \<Rightarrow> int \<Rightarrow> string option) \<Rightarrow> tar_item \<Rightarrow> (string \<times> bytes) list" where
  "restored want onEntry i =
     (if ti_data i \<noteq> [] \<and> want (ti_name i)
      then case onEntry (ti_name i) (int (length (ti_data i))) of None \<Rightarrow> [] | Some dest \<Rightarrow> [(dest, ti_data i)]
      else [])"

lemma extract_block:
  assumes "tarHeader name (length d) mode (CHR ''0'') mtime = Inr h" "NUL \<notin> set name" "length d < 8 ^ 12"
    and "int (length d) \<le> M" and i: "i = \<lparr>ti_name = name, ti_data = d, ti_dir = False\<rparr>"
  shows "extract_flat want onEntry M ((h @ d @ zeros (nat (tarPadding (int (length d))))) @ c) r
    = extract_flat want onEntry M c
        (r\<lparr>xr_entries := xr_entries r + 1, xr_extracted := xr_extracted r + length (restored want onEntry i),
           xr_writes := xr_writes r @ restored want onEntry i\<rparr>)"
proof -
  note rd = header_read [OF assms(1-3)]
  define p where "p = zeros (nat (tarPadding (int (length d))))"
  have left: "nat (int (length d) + tarPadding (int (length d))) = length d + length p"
    using padding_nonneg [of "int (length d)"] by (simp add: p_def nat_add_distrib)
  have keep: "keep_entry want h = (d \<noteq> [] \<and> want name)" using rd by (auto simp: keep_entry_def NUL_def)
  show ?thesis
    unfolding p_def [symmetric] extract_flat.simps [of _ _ _ "(h @ d @ p) @ c"]
    using rd assms(4) left keep by (cases r) (auto simp: restored_def i Let_def split: option.splits)
qed

lemma extract_block_too_large:
  assumes "tarHeader name (length d) mode (CHR ''0'') mtime = Inr h" "NUL \<notin> set name" "length d < 8 ^ 12"
    and "\<not> int (length d) \<le> M"
  shows "extract_flat want onEntry M (h @ c) r
    = fail_with (TooLarge name (int (length d))) (r\<lparr>xr_entries := xr_entries r + 1\<rparr>)"
  using header_read [OF assms(1-3)] assms(4) by (simp add: extract_flat.simps [of _ _ _ "h @ c"] Let_def)

lemma extract_close: "extract_flat want onEntry M (zeros 1024) r = r"
  by (simp add: extract_flat.simps [of _ _ _ "zeros 1024"]) (simp add: zeros_def list_all_iff)

text \<open>Restoring the entries of an archive one after the other, up to the first that is over the limit.\<close>

abbreviation fits :: "int \<Rightarrow> tar_item \<Rightarrow> bool" where
  "fits M i \<equiv> int (length (ti_data i)) \<le> M"

fun restore_items ::
  "(string \<Rightarrow> bool) \<Rightarrow> (string \<Rightarrow> int \<Rightarrow> string option) \<Rightarrow> int \<Rightarrow> tar_item list \<Rightarrow> extract_result \<Rightarrow> extract_result" where
  "restore_items want onEntry M [] r = r"
| "restore_items want onEntry M (i # its) r =
     (if fits M i
      then restore_items want onEntry M its
        (r\<lparr>xr_entries := xr_entries r + 1, xr_extracted := xr_extracted r + length (restored want onEntry i),
           xr_writes := xr_writes r @ restored want onEntry i\<rparr>)
      else fail_with (TooLarge (ti_name i) (int (length (ti_data i)))) (r\<lparr>xr_entries := xr_entries r + 1\<rparr>))"

lemma restore_items_eq:
  "xr_error r = None \<Longrightarrow> restore_items want onEntry M its r =
     (let ok = takeWhile (fits M) its; ws = concat (map (restored want onEntry) ok)
      in \<lparr>xr_error = (case dropWhile (fits M) its of [] \<Rightarrow> None
                      | i # _ \<Rightarrow> Some (TooLarge (ti_name i) (int (length (ti_data i))))),
          xr_entries = xr_entries r + length ok + (if ok = its then 0 else 1),
          xr_extracted = xr_extracted r + length ws, xr_writes = xr_writes r @ ws\<rparr>)"
  by (induction its arbitrary: r) (simp_all add: Let_def fail_with_def)

text \<open>What a header can carry: a name without NUL and a size of at most twelve octal digits.\<close>

definition restorable :: "stream_file list \<Rightarrow> bool" where
  "restorable files = (\<forall>f\<in>set files. NUL \<notin> set (sf_name f)
     \<and> (case size_mtime f of None \<Rightarrow> True | Some (sz, _) \<Rightarrow> sz < 8 ^ 12))"

lemma extract_streamed:
  assumes "restorable files" "0 < c"
  shows "extract_flat want onEntry M
      (concat (concat (map (\<lambda>f. so_blocks (stream_one c f)) files)) @ zeros 1024) r
    = restore_items want onEntry M (concat (map stream_items files)) r"
  using assms(1)
proof (induction files arbitrary: r)
  case Nil
  then show ?case by (simp add: extract_close)
next
  case (Cons f files)
  have tail: "restorable files" using Cons.prems by (simp add: restorable_def)
  from stream_one_blocks [OF assms(2), of f] show ?case
  proof (elim disjE exE conjE)
    assume "so_blocks (stream_one c f) = []" "stream_items f = []"
    then show ?thesis using Cons.IH [OF tail, of r] by simp
  next
    fix sz mtime h
    assume its: "stream_items f = [\<lparr>ti_name = sf_name f, ti_data = promised f sz, ti_dir = False\<rparr>]"
      and h: "tarHeader (sf_name f) sz 420 (CHR ''0'') mtime = Inr h"
      and bl: "concat (so_blocks (stream_one c f)) = h @ promised f sz @ zeros (nat (tarPadding (int sz)))"
    obtain n m where n: "size_mtime f = Some (n, m)" "promised f n = promised f sz"
      using its by (auto simp: stream_items_def split: option.splits sum.splits)
    then have "n = sz" by (metis length_promised)
    with n(1) have sz: "sz < 8 ^ 12" "NUL \<notin> set (sf_name f)" using Cons.prems by (auto simp: restorable_def)
    let ?more = "concat (concat (map (\<lambda>f. so_blocks (stream_one c f)) files)) @ zeros 1024"
    show ?thesis
    proof (cases "int sz \<le> M")
      case True
      note step = extract_block [of "sf_name f" "promised f sz", unfolded length_promised, OF h sz(2,1) True refl]
      show ?thesis unfolding map_append list.map concat.simps concat_append bl append_assoc [of _ _ "zeros 1024"]
        using step [of want onEntry ?more r] Cons.IH [OF tail] True by (simp add: its)
    next
      case False
      note step = extract_block_too_large [of "sf_name f" "promised f sz", unfolded length_promised, OF h sz(2,1) False]
      show ?thesis unfolding map_append list.map concat.simps concat_append bl append_assoc
        using step False by (simp add: its)
    qed
  qed
qed

text \<open>C22: a streamed backup restores what was promised. Take files whose names hold no NUL and whose sizes fit
  the twelve octal digits of a header. Whatever the files did between being listed and being read (vanish, grow,
  shrink, fail halfway), and however the archive is cut into chunks on its way back, streaming extraction counts
  every file that was written to the archive and writes exactly the wanted, non-empty ones, each with the bytes
  its header promised: the file's own bytes, cut at the promised size or filled up with zeros. It ends without an
  error when no promised size is over the reader's limit; otherwise it does so up to the first file that is, and
  ends with the error that names that file and its size.\<close>

theorem backup_restores_what_was_promised:
  assumes "0 < chunkBytes" and "restorable files"
    and "concat source = concat (so_blocks (tarStream chunkBytes files))"
  shows "extractStream want onEntry maxEntryBytes source
    = (let its = concat (map stream_items files); ok = takeWhile (fits maxEntryBytes) its;
           ws = concat (map (restored want onEntry) ok)
       in \<lparr>xr_error = (case dropWhile (fits maxEntryBytes) its of [] \<Rightarrow> None
                       | i # _ \<Rightarrow> Some (TooLarge (ti_name i) (int (length (ti_data i))))),
           xr_entries = length ok + (if ok = its then 0 else 1), xr_extracted = length ws, xr_writes = ws\<rparr>)"
proof -
  have "zeros 512 @ zeros 512 = zeros 1024" by (simp add: zeros_def replicate_add [symmetric])
  then have "concat source = concat (concat (map (\<lambda>f. so_blocks (stream_one chunkBytes f)) files)) @ zeros 1024"
    using assms(3) by (simp add: tarStream_def BLOCK_def comp_def)
  then show ?thesis
    by (simp add: extraction_flat extract_streamed [OF assms(2,1)] restore_items_eq Let_def)
qed

definition demo_files :: "stream_file list" where
  "demo_files =
     [\<lparr>sf_name = ''a.db'', sf_size = Some 3, sf_mtime = Some 7, sf_stat = None, sf_chunks = [[1, 2], [3, 4]],
       sf_readFails = False\<rparr>,
      \<lparr>sf_name = ''gone'', sf_size = None, sf_mtime = None, sf_stat = None, sf_chunks = [], sf_readFails = False\<rparr>,
      \<lparr>sf_name = ''b.db'', sf_size = None, sf_mtime = None, sf_stat = Some (4, 9), sf_chunks = [[5]],
       sf_readFails = True\<rparr>]"

lemma demo_restorable: "restorable demo_files"
  by (simp add: restorable_def demo_files_def size_mtime_def NUL_def)

lemma demo_items:
  "concat (map stream_items demo_files) =
     [\<lparr>ti_name = ''a.db'', ti_data = [1, 2, 3], ti_dir = False\<rparr>, \<lparr>ti_name = ''b.db'', ti_data = [5, 0, 0, 0], ti_dir = False\<rparr>]"
  by code_simp

lemma backup_restores_what_was_promised_witness:
  "extractStream (\<lambda>_. True) (\<lambda>n _. Some (''/r/'' @ n)) 1000 (so_blocks (tarStream 2 demo_files))
    = \<lparr>xr_error = None, xr_entries = 2, xr_extracted = 2,
       xr_writes = [(''/r/a.db'', [1, 2, 3]), (''/r/b.db'', [5, 0, 0, 0])]\<rparr>
   \<and> xr_error (extractStream (\<lambda>_. True) (\<lambda>n _. Some (''/r/'' @ n)) 3 (so_blocks (tarStream 2 demo_files)))
    = Some (TooLarge ''b.db'' 4)"
proof -
  note run = backup_restores_what_was_promised [OF zero_less_numeral demo_restorable refl]
  show ?thesis unfolding run demo_items Let_def by (simp add: restored_def)
qed

end
