(* ===== verification/GameRules.thy ===== *)
theory GameRules
  imports Prelude
begin

text \<open>
  The lifecycle of a game in the game factory (\<open>gamefactory.mjs\<close>): its states, the transitions between
  them, and the evidence each transition asks for.  A state name is a constructor; the empty resume state
  is \<open>None\<close>.  An unknown name never reaches the rules below, which \<open>isGameState\<close> guards.
\<close>

section \<open>States\<close>

datatype game_state =
  IDEA | SPECIFICATION | ARCHITECTURE | ASSET_GENERATION | IMPLEMENTATION | INTEGRATION
| AUTOMATED_TESTING | PLAYTEST_READY | REVISION | RELEASE_CANDIDATE | APPROVED | STORE_PREP
| DEPLOYED | PAUSED | BLOCKED | FAILED

definition GAME_STATES :: "game_state list" where
  "GAME_STATES = [IDEA, SPECIFICATION, ARCHITECTURE, ASSET_GENERATION, IMPLEMENTATION, INTEGRATION,
     AUTOMATED_TESTING, PLAYTEST_READY, REVISION, RELEASE_CANDIDATE, APPROVED, STORE_PREP,
     DEPLOYED, PAUSED, BLOCKED, FAILED]"

definition HAPPY_PATH :: "game_state list" where
  "HAPPY_PATH = [IDEA, SPECIFICATION, ARCHITECTURE, ASSET_GENERATION, IMPLEMENTATION, INTEGRATION,
     AUTOMATED_TESTING, PLAYTEST_READY, RELEASE_CANDIDATE, APPROVED, STORE_PREP, DEPLOYED]"

definition HOLD_STATES :: "game_state list" where "HOLD_STATES = [PAUSED, BLOCKED, FAILED]"

fun FORWARD :: "game_state \<Rightarrow> game_state list" where
  "FORWARD IDEA = [SPECIFICATION]"
| "FORWARD SPECIFICATION = [ARCHITECTURE, REVISION]"
| "FORWARD ARCHITECTURE = [ASSET_GENERATION, REVISION]"
| "FORWARD ASSET_GENERATION = [IMPLEMENTATION, REVISION]"
| "FORWARD IMPLEMENTATION = [INTEGRATION, REVISION]"
| "FORWARD INTEGRATION = [AUTOMATED_TESTING, REVISION]"
| "FORWARD AUTOMATED_TESTING = [PLAYTEST_READY, REVISION]"
| "FORWARD PLAYTEST_READY = [RELEASE_CANDIDATE, REVISION]"
| "FORWARD REVISION = [SPECIFICATION, ARCHITECTURE, ASSET_GENERATION, IMPLEMENTATION, INTEGRATION,
     AUTOMATED_TESTING, PLAYTEST_READY]"
| "FORWARD RELEASE_CANDIDATE = [APPROVED, REVISION]"
| "FORWARD APPROVED = [STORE_PREP, REVISION]"
| "FORWARD STORE_PREP = [DEPLOYED, REVISION]"
| "FORWARD DEPLOYED = [REVISION]"
| "FORWARD PAUSED = []"
| "FORWARD BLOCKED = []"
| "FORWARD FAILED = []"

definition is_hold :: "game_state \<Rightarrow> bool" where "is_hold s = (s \<in> set HOLD_STATES)"

definition allowedTransitions :: "game_state \<Rightarrow> game_state option \<Rightarrow> game_state list" where
  "allowedTransitions from' resumeState =
     (if is_hold from'
      then (case resumeState of Some r \<Rightarrow> if is_hold r then [] else [r] | None \<Rightarrow> [])
      else if from' = DEPLOYED then FORWARD from'
      else FORWARD from' @ [PAUSED, BLOCKED, FAILED])"

fun index_of :: "'a \<Rightarrow> 'a list \<Rightarrow> nat option" where
  "index_of x [] = None"
| "index_of x (y # ys) = (if x = y then Some 0 else map_option Suc (index_of x ys))"

definition defaultNextState :: "game_state \<Rightarrow> game_state option" where
  "defaultNextState s =
     (case index_of s HAPPY_PATH of
        Some i \<Rightarrow> if i < length HAPPY_PATH - 1 then Some (HAPPY_PATH ! (i + 1)) else None
      | None \<Rightarrow> None)"

definition stateProgress :: "game_state \<Rightarrow> int" where
  "stateProgress s =
     (case index_of s HAPPY_PATH of
        Some i \<Rightarrow> js_round (of_nat i / of_nat (length HAPPY_PATH - 1) * 100)
      | None \<Rightarrow> if s = REVISION then 55 else 0)"

section \<open>Approval gates\<close>

datatype approval_gate_name =
  G_SPECIFICATION | G_VISUAL_SYSTEM | G_PLAYTEST | G_RELEASE_CANDIDATE | G_LEGAL_AND_PRIVACY
| G_STORE_SUBMISSION | G_PRODUCTION_RELEASE

fun APPROVAL_GATE_STATES :: "approval_gate_name \<Rightarrow> game_state list" where
  "APPROVAL_GATE_STATES G_SPECIFICATION = [SPECIFICATION]"
| "APPROVAL_GATE_STATES G_VISUAL_SYSTEM = [ARCHITECTURE, ASSET_GENERATION]"
| "APPROVAL_GATE_STATES G_PLAYTEST = [PLAYTEST_READY]"
| "APPROVAL_GATE_STATES G_RELEASE_CANDIDATE = [RELEASE_CANDIDATE]"
| "APPROVAL_GATE_STATES G_LEGAL_AND_PRIVACY = [RELEASE_CANDIDATE, APPROVED, STORE_PREP]"
| "APPROVAL_GATE_STATES G_STORE_SUBMISSION = [STORE_PREP]"
| "APPROVAL_GATE_STATES G_PRODUCTION_RELEASE = [STORE_PREP]"

definition approvalAllowed :: "game_state \<Rightarrow> approval_gate_name \<Rightarrow> bool" where
  "approvalAllowed s g = (s \<in> set (APPROVAL_GATE_STATES g))"

section \<open>The decision\<close>

record evidence =
  ev_specificationApproved :: bool
  ev_visualSystemApproved :: bool
  ev_qaReady :: bool
  ev_playtestApproved :: bool
  ev_releaseCandidateApproved :: bool
  ev_artifactsComplete :: bool
  ev_legalAndPrivacyApproved :: bool
  ev_storeSubmissionApproved :: bool
  ev_productionReleaseApproved :: bool
  ev_releaseReady :: bool

datatype refused_transition =
  illegal_transition
| specification_approval_required
| visual_approval_required
| tests_required
| playtest_approval_required
| release_approval_required
| qa_gate_required
| artifact_copies_required
| legal_privacy_approval_required
| store_submission_approval_required
| production_approval_required
| release_not_ready

datatype transition_decision = Refused refused_transition | Noop | Granted

definition gate_refusal :: "game_state \<Rightarrow> game_state \<Rightarrow> evidence \<Rightarrow> refused_transition option" where
  "gate_refusal from' to ev =
     (if from' = SPECIFICATION \<and> to = ARCHITECTURE \<and> \<not> ev_specificationApproved ev
      then Some specification_approval_required
      else if from' = ARCHITECTURE \<and> to = ASSET_GENERATION \<and> \<not> ev_visualSystemApproved ev
      then Some visual_approval_required
      else if from' = AUTOMATED_TESTING \<and> to = PLAYTEST_READY \<and> \<not> ev_qaReady ev
      then Some tests_required
      else if from' = PLAYTEST_READY \<and> to = RELEASE_CANDIDATE \<and> \<not> ev_playtestApproved ev
      then Some playtest_approval_required
      else if from' = RELEASE_CANDIDATE \<and> to = APPROVED \<and> \<not> ev_releaseCandidateApproved ev
      then Some release_approval_required
      else if from' = RELEASE_CANDIDATE \<and> to = APPROVED \<and> \<not> ev_qaReady ev
      then Some qa_gate_required
      else if from' = APPROVED \<and> to = STORE_PREP \<and> \<not> ev_artifactsComplete ev
      then Some artifact_copies_required
      else if from' = APPROVED \<and> to = STORE_PREP \<and> \<not> ev_legalAndPrivacyApproved ev
      then Some legal_privacy_approval_required
      else if from' = STORE_PREP \<and> to = DEPLOYED
      then (if \<not> ev_storeSubmissionApproved ev then Some store_submission_approval_required
            else if \<not> ev_productionReleaseApproved ev then Some production_approval_required
            else if \<not> ev_releaseReady ev then Some release_not_ready
            else None)
      else None)"

definition transitionDecision ::
  "game_state \<Rightarrow> game_state option \<Rightarrow> game_state \<Rightarrow> evidence \<Rightarrow> transition_decision" where
  "transitionDecision from' resumeState to ev =
     (if from' = to then Noop
      else if to \<notin> set (allowedTransitions from' resumeState) then Refused illegal_transition
      else case gate_refusal from' to ev of Some r \<Rightarrow> Refused r | None \<Rightarrow> Granted)"

section \<open>Facts\<close>

lemma is_hold_simps [simp]:
  "is_hold PAUSED" "is_hold BLOCKED" "is_hold FAILED" "\<not> is_hold IDEA" "\<not> is_hold SPECIFICATION"
  "\<not> is_hold ARCHITECTURE" "\<not> is_hold ASSET_GENERATION" "\<not> is_hold IMPLEMENTATION" "\<not> is_hold INTEGRATION"
  "\<not> is_hold AUTOMATED_TESTING" "\<not> is_hold PLAYTEST_READY" "\<not> is_hold REVISION" "\<not> is_hold RELEASE_CANDIDATE"
  "\<not> is_hold APPROVED" "\<not> is_hold STORE_PREP" "\<not> is_hold DEPLOYED"
  by (simp_all add: is_hold_def HOLD_STATES_def)

lemma is_hold_cases: "is_hold s \<longleftrightarrow> s = PAUSED \<or> s = BLOCKED \<or> s = FAILED"
  by (cases s) simp_all

lemma defaultNextState_not_hold: "defaultNextState s = Some t \<Longrightarrow> \<not> is_hold t"
  by (cases s) (auto simp: defaultNextState_def HAPPY_PATH_def)

lemma defaultNextState_forward: "defaultNextState s = Some t \<Longrightarrow> t \<in> set (FORWARD s)"
  by (cases s) (auto simp: defaultNextState_def HAPPY_PATH_def)

lemma Granted_iff:
  "transitionDecision s r t ev = Granted \<longleftrightarrow>
     s \<noteq> t \<and> t \<in> set (allowedTransitions s r) \<and> gate_refusal s t ev = None"
  by (auto simp: transitionDecision_def split: option.splits)

end
