(* ===== verification/GameStore.thy ===== *)
theory GameStore
  imports GameRules IdeTasks
begin

text \<open>
  The durable store of the game factory (\<open>gamefactorystore.mjs\<close>): its tables, the helpers every
  operation uses, and the commands of an owner.  Text arguments are what \<open>cleanText\<close>, \<open>cleanUid\<close> and
  \<open>safeText\<close> leave of them, \<open>at\<close> is the clock's answer during the operation, and an identifier drawn at random
  is an argument; drawing one that exists violates the primary key and leaves the store as it was.  What
  the evidence tables say is read through the two functions of \<open>readers\<close>; the digest of a request is the
  parameter \<open>digest\<close>.
\<close>

section \<open>Tables\<close>

datatype operation = NoOperation | PAUSE_REQUESTED | STOP_REQUESTED | OP_PAUSED | OP_STOPPED

record gproject =
  gp_id :: string
  gp_uid :: string
  gp_slug :: string
  gp_order :: int
  gp_state :: game_state
  gp_resumeState :: "game_state option"
  gp_operation :: operation
  gp_activeBuildId :: string
  gp_workspaceId :: string
  gp_workspaceRoot :: string
  gp_version :: nat
  gp_blocker :: string
  gp_updatedAt :: ms

datatype task_status = QUEUED | RUNNING | CANCEL_REQUESTED | T_PAUSED | T_COMPLETED | T_CANCELLED | T_FAILED

text \<open>The stored result of a task, as far as it is read again.\<close>

datatype task_result =
  NoResult
| WorkerResult string bool
| ErrorResult string
| SecurityStopped nat bool bool

record gtask =
  gt_id :: string
  gt_projectId :: string
  gt_buildId :: string
  gt_uid :: string
  gt_capability :: string
  gt_title :: string
  gt_payload :: string
  gt_acceptance :: string
  gt_result :: task_result
  gt_status :: task_status
  gt_priority :: int
  gt_attempt :: nat
  gt_maxAttempts :: nat
  gt_safeToRetry :: bool
  gt_workerId :: string
  gt_leaseUntil :: ms
  gt_heartbeatAt :: ms
  gt_cancelRequested :: bool
  gt_createdAt :: ms
  gt_startedAt :: ms
  gt_endedAt :: ms

record gcheckpoint =
  ck_projectId :: string
  ck_buildId :: string
  ck_taskId :: string
  ck_uid :: string
  ck_state :: game_state
  ck_nextState :: game_state
  ck_reason :: string
  ck_compatible :: bool
  ck_createdAt :: ms

record gbuild =
  gb_id :: string
  gb_projectId :: string
  gb_uid :: string
  gb_sourceCommit :: string
  gb_status :: string
  gb_createdAt :: ms

record approval =
  ap_id :: string
  ap_projectId :: string
  ap_buildId :: string
  ap_uid :: string
  ap_gate :: approval_gate_name
  ap_approved :: bool
  ap_subjectHash :: string
  ap_createdAt :: ms
  ap_invalidatedAt :: ms

record gevent =
  ge_projectId :: string
  ge_uid :: string
  ge_type :: string
  ge_from :: "game_state option"
  ge_to :: "game_state option"
  ge_at :: ms

record response =
  rs_status :: nat
  rs_code :: string
  rs_project :: "gproject option"
  rs_noop :: bool
  rs_waiting :: bool
  rs_paused :: bool
  rs_finalized :: bool
  rs_requeued :: bool
  rs_blocked :: bool
  rs_replayed :: bool

record gstore =
  gs_projects :: "gproject list"
  gs_tasks :: "gtask list"
  gs_checkpoints :: "gcheckpoint list"
  gs_builds :: "gbuild list"
  gs_approvals :: "approval list"
  gs_events :: "gevent list"
  gs_outbox :: "nat list"
  gs_commands :: "((string \<times> string) \<times> (string \<times> response)) list"

section \<open>Helpers of every operation\<close>

definition upd :: "('r \<Rightarrow> bool) \<Rightarrow> ('r \<Rightarrow> 'r) \<Rightarrow> 'r list \<Rightarrow> 'r list" where
  "upd P f rows = map (\<lambda>r. if P r then f r else r) rows"

definition project_row :: "gstore \<Rightarrow> string \<Rightarrow> string \<Rightarrow> gproject option" where
  "project_row s pid uid = find (\<lambda>p. gp_id p = pid \<and> gp_uid p = uid) (gs_projects s)"

definition is_row :: "gproject \<Rightarrow> gproject \<Rightarrow> bool" where
  "is_row p r = (gp_id r = gp_id p \<and> gp_uid r = gp_uid p)"

text \<open>The row as it stands now; the operations have just read it.\<close>

definition reread :: "gstore \<Rightarrow> gproject \<Rightarrow> gproject" where
  "reread s p = (case project_row s (gp_id p) (gp_uid p) of Some q \<Rightarrow> q | None \<Rightarrow> p)"

definition on_project :: "gproject \<Rightarrow> (gproject \<Rightarrow> gproject) \<Rightarrow> gstore \<Rightarrow> gstore" where
  "on_project p f s = s\<lparr>gs_projects := upd (is_row p) f (gs_projects s)\<rparr>"

definition of_project :: "gproject \<Rightarrow> gtask \<Rightarrow> bool" where
  "of_project p t = (gt_projectId t = gp_id p \<and> gt_uid t = gp_uid p)"

definition on_tasks :: "(gtask \<Rightarrow> bool) \<Rightarrow> (gtask \<Rightarrow> gtask) \<Rightarrow> gstore \<Rightarrow> gstore" where
  "on_tasks P f s = s\<lparr>gs_tasks := upd P f (gs_tasks s)\<rparr>"

text \<open>\<open>UPDATE game_projects SET state, resumeState, operation, blocker, version=version+1, updatedAt\<close>\<close>

definition move_project ::
  "gproject \<Rightarrow> game_state \<Rightarrow> game_state option \<Rightarrow> operation \<Rightarrow> string \<Rightarrow> ms \<Rightarrow> gstore \<Rightarrow> gstore" where
  "move_project p st rs opn bl at' =
     on_project p (\<lambda>r. r\<lparr>gp_state := st, gp_resumeState := rs, gp_operation := opn, gp_blocker := bl,
       gp_version := gp_version r + 1, gp_updatedAt := at'\<rparr>)"

definition emit_event ::
  "gproject \<Rightarrow> string \<Rightarrow> game_state option \<Rightarrow> game_state option \<Rightarrow> ms \<Rightarrow> gstore \<Rightarrow> gstore" where
  "emit_event p ty fr to at' s =
     s\<lparr>gs_events := gs_events s @ [\<lparr>ge_projectId = gp_id p, ge_uid = gp_uid p, ge_type = ty, ge_from = fr,
                                    ge_to = to, ge_at = at'\<rparr>],
       gs_outbox := gs_outbox s @ [length (gs_events s) + 1]\<rparr>"

definition activeTasks :: "gstore \<Rightarrow> gproject \<Rightarrow> nat" where
  "activeTasks s p = length (filter (\<lambda>t. of_project p t \<and> gt_status t = RUNNING) (gs_tasks s))"

definition resume_point :: "gproject \<Rightarrow> game_state option" where
  "resume_point p = (if is_hold (gp_state p) then gp_resumeState p else Some (gp_state p))"

definition createCheckpoint :: "gproject \<Rightarrow> string \<Rightarrow> string \<Rightarrow> ms \<Rightarrow> gstore \<Rightarrow> gstore" where
  "createCheckpoint row taskId reason at' s =
     emit_event row ''checkpoint.created'' None None at'
       (s\<lparr>gs_checkpoints := gs_checkpoints s @
          [\<lparr>ck_projectId = gp_id row, ck_buildId = gp_activeBuildId row, ck_taskId = taskId, ck_uid = gp_uid row,
            ck_state = gp_state row,
            ck_nextState = (case gp_resumeState row of Some r \<Rightarrow> r | None \<Rightarrow> gp_state row),
            ck_reason = reason, ck_compatible = True, ck_createdAt = at'\<rparr>]\<rparr>)"

text \<open>\<open>ORDER BY createdAt DESC LIMIT 1\<close>; among equal times the index lists the first row first.\<close>

definition latestCheckpoint :: "gstore \<Rightarrow> gproject \<Rightarrow> gcheckpoint option" where
  "latestCheckpoint s p =
     (case sort_key (\<lambda>c. - ck_createdAt c)
             (filter (\<lambda>c. ck_projectId c = gp_id p \<and> ck_uid c = gp_uid p \<and> ck_compatible c) (gs_checkpoints s)) of
        [] \<Rightarrow> None | c # _ \<Rightarrow> Some c)"

definition close_task :: "task_status \<Rightarrow> ms \<Rightarrow> gtask \<Rightarrow> gtask" where
  "close_task st at' t = t\<lparr>gt_status := st, gt_endedAt := at', gt_workerId := [], gt_leaseUntil := 0,
     gt_heartbeatAt := 0\<rparr>"

definition finalizePause :: "gproject \<Rightarrow> string \<Rightarrow> ms \<Rightarrow> gstore \<Rightarrow> bool \<times> gstore" where
  "finalizePause row reason at' s =
     (if activeTasks s row \<noteq> 0 then (False, s)
      else let current = reread s row; rs = resume_point current;
               s1 = createCheckpoint current [] reason at' s;
               s2 = on_tasks (\<lambda>t. of_project current t \<and> gt_status t \<in> {QUEUED, CANCEL_REQUESTED})
                      (close_task T_PAUSED at') s1;
               s3 = move_project current PAUSED rs OP_PAUSED [] at' s2
           in (True, emit_event current ''project.paused'' rs None at' s3))"

definition finalizeStop :: "gproject \<Rightarrow> string \<Rightarrow> ms \<Rightarrow> gstore \<Rightarrow> bool \<times> gstore" where
  "finalizeStop row reason at' s =
     (if activeTasks s row \<noteq> 0 then (False, s)
      else let current = reread s row; rs = resume_point current;
               s1 = createCheckpoint current [] reason at' s;
               s2 = on_tasks (\<lambda>t. of_project current t \<and> gt_status t \<in> {QUEUED, T_PAUSED, CANCEL_REQUESTED})
                      (close_task T_CANCELLED at') s1;
               s3 = move_project current FAILED rs OP_STOPPED reason at' s2
           in (True, emit_event current ''project.stopped'' rs None at' s3))"

text \<open>An answer: the HTTP status, the error code, empty on success, and what the body reports.\<close>

definition reply_code :: "nat \<Rightarrow> string \<Rightarrow> response" where
  "reply_code st code = \<lparr>rs_status = st, rs_code = code, rs_project = None, rs_noop = False, rs_waiting = False,
     rs_paused = False, rs_finalized = False, rs_requeued = False, rs_blocked = False, rs_replayed = False\<rparr>"

definition ok_with :: "nat \<Rightarrow> gproject \<Rightarrow> response" where
  "ok_with st p = (reply_code st [])\<lparr>rs_project := Some p\<rparr>"

definition noop_with :: "gproject \<Rightarrow> response" where
  "noop_with p = (ok_with 200 p)\<lparr>rs_noop := True\<rparr>"

section \<open>The portfolio\<close>

definition PORTFOLIO :: "(int \<times> string) list" where
  "PORTFOLIO = [(1, ''vector-vault''), (2, ''bolt-bloom''), (3, ''pocket-gravity''), (4, ''chromalock''),
     (5, ''tiny-foundry''), (6, ''letter-loom''), (7, ''pulse-path''), (8, ''shelf-shift''), (9, ''wobble-works''),
     (10, ''signal-grid'')]"

definition az09 :: "char \<Rightarrow> bool" where
  "az09 c = (is_digit c \<or> (97 \<le> (of_char c :: nat) \<and> (of_char c :: nat) \<le> 122))"

fun collapse_dashes :: "string \<Rightarrow> string" where
  "collapse_dashes (a # b # cs) =
     (if a = CHR ''-'' \<and> b = CHR ''-'' then collapse_dashes (b # cs) else a # collapse_dashes (b # cs))"
| "collapse_dashes cs = cs"

definition strip_dash :: "string \<Rightarrow> string" where
  "strip_dash cs =
     (let d = (case cs of c # r \<Rightarrow> if c = CHR ''-'' then r else cs | [] \<Rightarrow> [])
      in if d \<noteq> [] \<and> last d = CHR ''-'' then butlast d else d)"

definition text_or :: "string \<Rightarrow> string \<Rightarrow> string" where
  "text_or a b = (if a = [] then b else a)"

definition projectIdFor :: "string \<Rightarrow> string \<Rightarrow> string" where
  "projectIdFor uid slug =
     (let u = text_or (take 40 (filter (\<lambda>c. az09 c \<or> c \<in> set ''_-'') (lowercase (text_or uid ''owner'')))) ''owner'';
          g = text_or (take 80 (strip_dash (collapse_dashes
                (map (\<lambda>c. if az09 c \<or> c = CHR ''-'' then c else CHR ''-'') (lowercase (text_or slug ''game'')))))) ''game''
      in ''gf_'' @ u @ ''_'' @ g)"

text \<open>\<open>INSERT OR IGNORE\<close>: the row is left out when the id or the slug of this user exists.\<close>

definition seed_one :: "string \<Rightarrow> ms \<Rightarrow> gstore \<Rightarrow> int \<times> string \<Rightarrow> gstore" where
  "seed_one who at' s item =
     (let pid = projectIdFor who (snd item) in
      if list_ex (\<lambda>p. gp_id p = pid \<or> gp_uid p = who \<and> gp_slug p = snd item) (gs_projects s) then s
      else let p = \<lparr>gp_id = pid, gp_uid = who, gp_slug = snd item, gp_order = fst item, gp_state = IDEA,
             gp_resumeState = None, gp_operation = NoOperation, gp_activeBuildId = [], gp_workspaceId = [],
             gp_workspaceRoot = [], gp_version = 1, gp_blocker = [], gp_updatedAt = at'\<rparr>
           in emit_event p ''project.created'' None None at' (s\<lparr>gs_projects := gs_projects s @ [p]\<rparr>))"

definition seedPortfolio :: "string \<Rightarrow> ms \<Rightarrow> gstore \<Rightarrow> gstore" where
  "seedPortfolio uid at' s = foldl (seed_one (text_or uid ''owner'') at') s PORTFOLIO"

section \<open>The commands of an owner\<close>

datatype target = NoTarget | UnknownTarget | Target game_state

datatype gcommand =
  Advance
| Transition target
| Pause
| Resume
| Stop
| Retry
| Revise string
| BlockGame string
| AttachWorkspace string string bool
| Decide bool "approval_gate_name option" string
| UnknownCommand

record readers =
  rd_evidenceFor :: "gstore \<Rightarrow> gproject \<Rightarrow> evidence"
  rd_approvalSubject :: "gstore \<Rightarrow> gproject \<Rightarrow> approval_gate_name \<Rightarrow> string + string"

definition cmd_transition :: "readers \<Rightarrow> bool \<Rightarrow> target \<Rightarrow> gproject \<Rightarrow> ms \<Rightarrow> gstore \<Rightarrow> response \<times> gstore" where
  "cmd_transition rdr explicit toState row at' s =
     (case toState of
        NoTarget \<Rightarrow> (reply_code 409 ''no_next_state'', s)
      | UnknownTarget \<Rightarrow> (reply_code 409 ''bad_state'', s)
      | Target st \<Rightarrow>
          if explicit \<and> is_hold st then (reply_code 409 ''hold_transition_requires_command'', s)
          else (case transitionDecision (gp_state row) (gp_resumeState row) st (rd_evidenceFor rdr s row) of
                  Refused r \<Rightarrow> (reply_code 409 ''refused'', s)
                | Noop \<Rightarrow> (noop_with row, s)
                | Granted \<Rightarrow>
                    let s1 = move_project row st (if is_hold st then Some (gp_state row) else None) NoOperation [] at' s;
                        s2 = emit_event row ''project.transitioned'' (Some (gp_state row)) (Some st) at' s1
                    in (ok_with 200 (reread s2 row), s2)))"

definition request_operation :: "gproject \<Rightarrow> operation \<Rightarrow> ms \<Rightarrow> gstore \<Rightarrow> gstore" where
  "request_operation row opn at' s =
     on_tasks (\<lambda>t. of_project row t \<and> gt_status t = RUNNING) (\<lambda>t. t\<lparr>gt_cancelRequested := True\<rparr>)
       (on_project row (\<lambda>r. r\<lparr>gp_operation := opn, gp_version := gp_version r + 1, gp_updatedAt := at'\<rparr>) s)"

definition cmd_pause :: "gproject \<Rightarrow> ms \<Rightarrow> gstore \<Rightarrow> response \<times> gstore" where
  "cmd_pause row at' s =
     (if gp_state row = PAUSED then (noop_with row, s)
      else if gp_state row = DEPLOYED then (reply_code 409 ''deployed'', s)
      else let active = activeTasks s row;
               s1 = request_operation row PAUSE_REQUESTED at' s;
               s2 = emit_event row ''project.pause_requested'' None None at' s1;
               s3 = (if active = 0 then snd (finalizePause (reread s2 row) ''pause requested'' at' s2) else s2)
           in ((ok_with (if active > 0 then 202 else 200) (reread s3 row))\<lparr>rs_waiting := (active > 0)\<rparr>, s3))"

definition cmd_resume :: "gproject \<Rightarrow> ms \<Rightarrow> gstore \<Rightarrow> response \<times> gstore" where
  "cmd_resume row at' s =
     (if gp_state row \<noteq> PAUSED then (reply_code 409 ''not_paused'', s)
      else case latestCheckpoint s row of
             None \<Rightarrow> (reply_code 409 ''checkpoint_required'', s)
           | Some c \<Rightarrow>
               if ck_buildId c \<noteq> gp_activeBuildId row then (reply_code 409 ''checkpoint_build_mismatch'', s)
               else (case gp_resumeState row of
                       None \<Rightarrow> (reply_code 409 ''checkpoint_incompatible'', s)
                     | Some r \<Rightarrow>
                         if is_hold r then (reply_code 409 ''checkpoint_incompatible'', s)
                         else let s1 = on_tasks (\<lambda>t. of_project row t \<and> gt_status t = T_PAUSED)
                                         (\<lambda>t. t\<lparr>gt_status := QUEUED, gt_cancelRequested := False, gt_endedAt := 0\<rparr>) s;
                                  s2 = move_project row r None NoOperation [] at' s1;
                                  s3 = emit_event row ''project.resumed'' None (Some r) at' s2
                              in (ok_with 200 (reread s3 row), s3)))"

definition cmd_stop :: "gproject \<Rightarrow> ms \<Rightarrow> gstore \<Rightarrow> response \<times> gstore" where
  "cmd_stop row at' s =
     (if gp_state row = DEPLOYED then (reply_code 409 ''deployed'', s)
      else let active = activeTasks s row;
               s1 = request_operation row STOP_REQUESTED at' s;
               s2 = on_tasks (\<lambda>t. of_project row t \<and> gt_status t = QUEUED)
                      (\<lambda>t. t\<lparr>gt_status := T_CANCELLED, gt_endedAt := at'\<rparr>) s1;
               s3 = emit_event row ''project.stop_requested'' None None at' s2;
               s4 = (if active = 0 then snd (finalizeStop (reread s3 row) ''stopped by owner'' at' s3) else s3)
           in ((ok_with (if active > 0 then 202 else 200) (reread s4 row))\<lparr>rs_waiting := (active > 0)\<rparr>, s4))"

definition cmd_retry :: "gproject \<Rightarrow> ms \<Rightarrow> gstore \<Rightarrow> response \<times> gstore" where
  "cmd_retry row at' s =
     (if \<not> is_hold (gp_state row) \<or> gp_state row = PAUSED then (reply_code 409 ''not_retryable'', s)
      else let to = (case gp_resumeState row of Some r \<Rightarrow> if is_hold r then REVISION else r | None \<Rightarrow> REVISION);
               s1 = move_project row to None NoOperation [] at' s;
               s2 = emit_event row ''project.retried'' (Some (gp_state row)) (Some to) at' s1
           in (ok_with 200 (reread s2 row), s2))"

definition invalidate_approvals :: "gproject \<Rightarrow> (approval \<Rightarrow> bool) \<Rightarrow> ms \<Rightarrow> gstore \<Rightarrow> gstore" where
  "invalidate_approvals row P at' s =
     s\<lparr>gs_approvals := upd (\<lambda>a. ap_projectId a = gp_id row \<and> ap_uid a = gp_uid row \<and> P a \<and> ap_invalidatedAt a = 0)
         (\<lambda>a. a\<lparr>ap_invalidatedAt := at'\<rparr>) (gs_approvals s)\<rparr>"

definition cmd_revise :: "string \<Rightarrow> gproject \<Rightarrow> ms \<Rightarrow> gstore \<Rightarrow> response \<times> gstore" where
  "cmd_revise reason row at' s =
     (if reason = [] then (reply_code 400 ''revision_reason_required'', s)
      else if gp_state row = REVISION then (noop_with row, s)
      else if REVISION \<notin> set (allowedTransitions (gp_state row) (gp_resumeState row))
      then (reply_code 409 ''revision_not_available'', s)
      else let s1 = invalidate_approvals row (\<lambda>_. True) at' s;
               s2 = move_project row REVISION (Some (gp_state row)) NoOperation (''Revision requested: '' @ reason) at' s1;
               s3 = emit_event row ''project.revision_requested'' (Some (gp_state row)) (Some REVISION) at' s2
           in (ok_with 200 (reread s3 row), s3))"

definition cmd_block :: "string \<Rightarrow> gproject \<Rightarrow> ms \<Rightarrow> gstore \<Rightarrow> response \<times> gstore" where
  "cmd_block reason row at' s =
     (let s' = (if gp_state row \<noteq> BLOCKED
                then emit_event row ''project.blocked'' (Some (gp_state row)) None at'
                       (move_project row BLOCKED (Some (gp_state row)) NoOperation
                          (if reason = [] then ''Blocked pending owner or platform action.'' else reason) at' s)
                else s)
      in (ok_with 200 (reread s' row), s'))"

definition cmd_attach :: "string \<Rightarrow> string \<Rightarrow> bool \<Rightarrow> gproject \<Rightarrow> ms \<Rightarrow> gstore \<Rightarrow> response \<times> gstore" where
  "cmd_attach wid wroot hasSecret row at' s =
     (if wid = [] \<and> wroot = [] then (reply_code 400 ''workspace_required'', s)
      else if hasSecret then (reply_code 400 ''workspace_contains_secret'', s)
      else let s1 = on_project row (\<lambda>r. r\<lparr>gp_workspaceId := wid, gp_workspaceRoot := wroot,
                      gp_version := gp_version r + 1, gp_updatedAt := at'\<rparr>) s;
               s2 = emit_event row ''project.workspace_attached'' None None at' s1
           in (ok_with 200 (reread s2 row), s2))"

definition BUILD_BOUND_GATES :: "approval_gate_name list" where
  "BUILD_BOUND_GATES = [G_PLAYTEST, G_RELEASE_CANDIDATE, G_LEGAL_AND_PRIVACY, G_STORE_SUBMISSION, G_PRODUCTION_RELEASE]"

definition bound_build :: "gproject \<Rightarrow> approval_gate_name \<Rightarrow> string" where
  "bound_build row g = (if g \<in> set BUILD_BOUND_GATES then gp_activeBuildId row else [])"

definition cmd_decide ::
  "readers \<Rightarrow> bool \<Rightarrow> approval_gate_name option \<Rightarrow> string \<Rightarrow> string \<Rightarrow> gproject \<Rightarrow> ms \<Rightarrow> gstore \<Rightarrow> response \<times> gstore" where
  "cmd_decide rdr approve gate suppliedHash aid row at' s =
     (case gate of
        None \<Rightarrow> (reply_code 400 ''bad_gate'', s)
      | Some g \<Rightarrow>
          if \<not> approvalAllowed (gp_state row) g then (reply_code 409 ''gate_not_available'', s)
          else (case rd_approvalSubject rdr s row g of
                  Inl code \<Rightarrow> (reply_code 409 code, s)
                | Inr hash \<Rightarrow>
                    if suppliedHash \<noteq> [] \<and> suppliedHash \<noteq> hash then (reply_code 409 ''approval_subject_changed'', s)
                    else let s1 = invalidate_approvals row (\<lambda>a. ap_gate a = g) at' s;
                             s2 = s1\<lparr>gs_approvals := gs_approvals s1 @
                                    [\<lparr>ap_id = aid, ap_projectId = gp_id row, ap_buildId = bound_build row g,
                                      ap_uid = gp_uid row, ap_gate = g, ap_approved = approve, ap_subjectHash = hash,
                                      ap_createdAt = at', ap_invalidatedAt = 0\<rparr>]\<rparr>;
                             s3 = emit_event row ''approval.recorded'' None None at' s2;
                             s4 = (if \<not> approve \<and> \<not> is_hold (gp_state row) \<and> gp_state row \<noteq> IDEA
                                   then move_project row REVISION (Some (gp_state row)) NoOperation
                                          ''The gate was rejected.'' at' s3
                                   else on_project row (\<lambda>r. r\<lparr>gp_version := gp_version r + 1, gp_updatedAt := at'\<rparr>) s3)
                         in (ok_with 200 (reread s4 row), s4)))"

text \<open>\<open>aid\<close> is the identifier an approval would get.\<close>

definition run_command ::
  "readers \<Rightarrow> string \<Rightarrow> gcommand \<Rightarrow> gproject \<Rightarrow> ms \<Rightarrow> gstore \<Rightarrow> response \<times> gstore" where
  "run_command rdr aid c row at' s =
     (case c of
        Advance \<Rightarrow> cmd_transition rdr False
          (case defaultNextState (gp_state row) of Some t \<Rightarrow> Target t | None \<Rightarrow> NoTarget) row at' s
      | Transition t \<Rightarrow> cmd_transition rdr True t row at' s
      | Pause \<Rightarrow> cmd_pause row at' s
      | Resume \<Rightarrow> cmd_resume row at' s
      | Stop \<Rightarrow> cmd_stop row at' s
      | Retry \<Rightarrow> cmd_retry row at' s
      | Revise reason \<Rightarrow> cmd_revise reason row at' s
      | BlockGame reason \<Rightarrow> cmd_block reason row at' s
      | AttachWorkspace wid wroot hasSecret \<Rightarrow> cmd_attach wid wroot hasSecret row at' s
      | Decide approve gate suppliedHash \<Rightarrow> cmd_decide rdr approve gate suppliedHash aid row at' s
      | UnknownCommand \<Rightarrow> (reply_code 400 ''bad_command'', s))"

text \<open>A request: the project, the version the client saw, and the command.  The transaction reads the
  key again, which in one process finds what the first look found.\<close>

record request =
  rq_projectId :: string
  rq_expectedVersion :: "nat option"
  rq_command :: gcommand

definition saveCommand :: "string \<Rightarrow> string \<Rightarrow> string \<Rightarrow> response \<times> gstore \<Rightarrow> response \<times> gstore" where
  "saveCommand who key hash x =
     (fst x, (snd x)\<lparr>gs_commands := gs_commands (snd x) @ [((who, key), (hash, fst x))]\<rparr>)"

definition executeCommand ::
  "(request \<Rightarrow> string) \<Rightarrow> readers \<Rightarrow> string \<Rightarrow> string \<Rightarrow> string \<Rightarrow> request \<Rightarrow> ms \<Rightarrow> gstore \<Rightarrow> response \<times> gstore" where
  "executeCommand digest rdr aid who key rq at' s =
     (if who = [] then (reply_code 401 ''no_identity'', s)
      else if key = [] then (reply_code 400 ''idempotency_required'', s)
      else case map_of (gs_commands s) (who, key) of
             Some (hash, prior) \<Rightarrow>
               if hash \<noteq> digest rq then (reply_code 409 ''idempotency_conflict'', s)
               else (prior\<lparr>rs_replayed := True\<rparr>, s)
           | None \<Rightarrow>
               saveCommand who key (digest rq)
                 (case project_row s (rq_projectId rq) who of
                    None \<Rightarrow> (reply_code 404 ''not_found'', s)
                  | Some row \<Rightarrow>
                      (case rq_expectedVersion rq of
                         Some v \<Rightarrow> if v \<noteq> gp_version row then (reply_code 409 ''version_conflict'', s)
                                   else run_command rdr aid (rq_command rq) row at' s
                       | None \<Rightarrow> run_command rdr aid (rq_command rq) row at' s)))"

end
