(* ===== verification/GameTasks.thy ===== *)
theory GameTasks
  imports GameStore
begin

text \<open>
  The work queue of the game factory (\<open>gamefactorystore.mjs\<close>): builds, tasks, the leases of workers, their
  answers, the security stop, and the reconciler that takes back what dead workers held.
\<close>

section \<open>Builds and new work\<close>

definition runnable :: "gproject \<Rightarrow> bool" where
  "runnable p = (\<not> (is_hold (gp_state p) \<or> gp_state p = DEPLOYED \<or> gp_operation p \<noteq> NoOperation))"

definition REVISION_INVALIDATION_STATES :: "game_state list" where
  "REVISION_INVALIDATION_STATES = [PLAYTEST_READY, RELEASE_CANDIDATE, APPROVED, STORE_PREP, DEPLOYED]"

definition invalidateMaterialChange :: "gproject \<Rightarrow> string \<Rightarrow> ms \<Rightarrow> gstore \<Rightarrow> gstore" where
  "invalidateMaterialChange p reason at' s =
     (let s1 = invalidate_approvals p (\<lambda>_. True) at' s in
      if gp_state p \<in> set REVISION_INVALIDATION_STATES
      then emit_event p ''project.evidence_invalidated'' (Some (gp_state p)) (Some REVISION) at'
             (move_project p REVISION (Some (gp_state p)) NoOperation reason at' s1)
      else on_project p (\<lambda>r. r\<lparr>gp_version := gp_version r + 1, gp_updatedAt := at'\<rparr>) s1)"

definition createBuild :: "string \<Rightarrow> string \<Rightarrow> string \<Rightarrow> string \<Rightarrow> ms \<Rightarrow> gstore \<Rightarrow> response \<times> gstore" where
  "createBuild bid who pid sourceCommit at' s =
     (case project_row s pid who of
        None \<Rightarrow> (reply_code 404 ''not_found'', s)
      | Some p \<Rightarrow>
          if \<not> runnable p then (reply_code 409 ''project_not_runnable'', s)
          else if list_ex (\<lambda>b. gb_id b = bid) (gs_builds s) then (reply_code 500 ''constraint'', s)
          else let s1 = s\<lparr>gs_builds := gs_builds s @ [\<lparr>gb_id = bid, gb_projectId = gp_id p, gb_uid = who,
                            gb_sourceCommit = sourceCommit, gb_status = ''PLANNED'', gb_createdAt = at'\<rparr>],
                          gs_checkpoints := upd (\<lambda>c. ck_projectId c = gp_id p \<and> ck_uid c = who \<and> ck_compatible c)
                            (\<lambda>c. c\<lparr>ck_compatible := False\<rparr>) (gs_checkpoints s)\<rparr>;
                   s2 = on_project p (\<lambda>r. r\<lparr>gp_activeBuildId := bid, gp_updatedAt := at'\<rparr>) s1;
                   s3 = invalidateMaterialChange p ''A new build invalidated evidence and approvals for the prior build.'' at' s2
               in (reply_code 201 [], emit_event p ''build.created'' None None at' s3))"

definition updateBuildStatus :: "string \<Rightarrow> string \<Rightarrow> string \<Rightarrow> string \<Rightarrow> ms \<Rightarrow> gstore \<Rightarrow> response \<times> gstore" where
  "updateBuildStatus who pid bid st at' s =
     (if st \<notin> {''PLANNED'', ''BUILT'', ''TESTED'', ''FAILED''} then (reply_code 400 ''bad_status'', s)
      else case project_row s pid who of
             None \<Rightarrow> (reply_code 404 ''not_found'', s)
           | Some p \<Rightarrow>
               let mine = (\<lambda>b. gb_id b = bid \<and> gb_projectId b = gp_id p \<and> gb_uid b = who) in
               if \<not> list_ex mine (gs_builds s) then (reply_code 404 ''build_not_found'', s)
               else (reply_code 200 [], emit_event p ''build.updated'' None None at'
                       (s\<lparr>gs_builds := upd mine (\<lambda>b. b\<lparr>gb_status := st\<rparr>) (gs_builds s)\<rparr>)))"

definition TASK_CAPABILITIES :: "string list" where
  "TASK_CAPABILITIES = [''product_planning'', ''gameplay_engineering'', ''visual_design'', ''quality_assurance'',
     ''release_coordination'', ''godot'', ''android'', ''ios'', ''artifact_mirroring'']"

definition has_task :: "gstore \<Rightarrow> string \<Rightarrow> bool" where
  "has_task s tid = list_ex (\<lambda>t. gt_id t = tid) (gs_tasks s)"

definition new_task ::
  "string \<Rightarrow> gproject \<Rightarrow> string \<Rightarrow> string \<Rightarrow> string \<Rightarrow> string \<Rightarrow> string \<Rightarrow> int \<Rightarrow> nat \<Rightarrow> bool \<Rightarrow> ms \<Rightarrow> gtask" where
  "new_task tid p bid cap title payload acceptance prio attempts safe at' =
     \<lparr>gt_id = tid, gt_projectId = gp_id p, gt_buildId = bid, gt_uid = gp_uid p, gt_capability = cap,
      gt_title = title, gt_payload = payload, gt_acceptance = acceptance, gt_result = NoResult,
      gt_status = QUEUED, gt_priority = prio, gt_attempt = 0, gt_maxAttempts = attempts,
      gt_safeToRetry = safe, gt_workerId = [], gt_leaseUntil = 0, gt_heartbeatAt = 0,
      gt_cancelRequested = False, gt_createdAt = at', gt_startedAt = 0, gt_endedAt = 0\<rparr>"

text \<open>\<open>Math.min(Math.max(Number(maxAttempts) || 3, 1), 10)\<close>\<close>

definition clamp_attempts :: "int \<Rightarrow> nat" where
  "clamp_attempts n = nat (min (max (if n = 0 then 3 else n) 1) 10)"

record task_order =
  to_buildId :: string
  to_capability :: string
  to_title :: string
  to_payload :: string
  to_acceptance :: string
  to_priority :: int
  to_safeToRetry :: bool
  to_maxAttempts :: int

definition queueTask :: "string \<Rightarrow> string \<Rightarrow> string \<Rightarrow> task_order \<Rightarrow> ms \<Rightarrow> gstore \<Rightarrow> response \<times> gstore" where
  "queueTask tid who pid q at' s =
     (if to_capability q \<notin> set TASK_CAPABILITIES then (reply_code 400 ''bad_capability'', s)
      else case project_row s pid who of
             None \<Rightarrow> (reply_code 404 ''not_found'', s)
           | Some p \<Rightarrow>
               if \<not> runnable p then (reply_code 409 ''project_not_runnable'', s)
               else let bid = (if to_buildId q \<noteq> [] then to_buildId q else gp_activeBuildId p) in
                 if bid \<noteq> [] \<and> \<not> list_ex (\<lambda>b. gb_id b = bid \<and> gb_projectId b = gp_id p \<and> gb_uid b = who) (gs_builds s)
                 then (reply_code 400 ''bad_build'', s)
                 else if has_task s tid then (reply_code 500 ''constraint'', s)
                 else (reply_code 201 [],
                   emit_event p ''task.queued'' None None at'
                     (s\<lparr>gs_tasks := gs_tasks s @
                        [new_task tid p bid (to_capability q)
                           (if to_title q = [] then to_capability q else to_title q) (to_payload q) (to_acceptance q)
                           (to_priority q) (clamp_attempts (to_maxAttempts q)) (to_safeToRetry q) at']\<rparr>)))"

section \<open>The synthetic canary\<close>

definition SYNTHETIC_CANARY_TITLE :: string where "SYNTHETIC_CANARY_TITLE = ''Trusted synthetic worker canary''"
definition SYNTHETIC_CANARY_CAPABILITY :: string where "SYNTHETIC_CANARY_CAPABILITY = ''quality_assurance''"
definition SYNTHETIC_CANARY_MAX_ATTEMPTS :: nat where "SYNTHETIC_CANARY_MAX_ATTEMPTS = 2"
definition CANARY_PREFIX :: string where "CANARY_PREFIX = ''gft_canary_''"

text \<open>The stored texts of the fixed recipe.  The code compares digests of the parsed texts.\<close>

definition canary_payload :: string where
  \<open>canary_payload = ''{"syntheticCanary":{"schema":"game-factory.synthetic-worker-canary.v1","evidenceEffects":"none"},'' @
     ''"workerPlan":{"workspaceRoot":"/workspace/system-canary","steps":[{"label":"Report the Node.js runtime version",'' @
     ''"program":"node","args":["--version"],"cwd":".","timeoutMs":30000}],"collect":[]}}''\<close>
definition canary_acceptance :: string where
  \<open>canary_acceptance = ''["The fixed Node.js version probe exits successfully without collecting artifacts."]''\<close>

definition is_hex :: "char \<Rightarrow> bool" where "is_hex c = (is_digit c \<or> c \<in> set ''abcdef'')"

definition isSyntheticCanaryTask :: "gtask \<Rightarrow> bool" where
  "isSyntheticCanaryTask t =
     (take 11 (gt_id t) = CANARY_PREFIX \<and> length (gt_id t) = 43 \<and> list_all is_hex (drop 11 (gt_id t))
      \<and> gt_capability t = SYNTHETIC_CANARY_CAPABILITY \<and> gt_title t = SYNTHETIC_CANARY_TITLE
      \<and> gt_buildId t = [] \<and> gt_safeToRetry t \<and> gt_maxAttempts t = SYNTHETIC_CANARY_MAX_ATTEMPTS
      \<and> gt_payload t = canary_payload \<and> gt_acceptance t = canary_acceptance)"

text \<open>\<open>hash\<close> is the digest of the request, \<open>tid\<close> the identifier made from it; \<open>key\<close> has passed the checks of its
  form and carries the prefix of canaries.\<close>

definition queueSyntheticCanary ::
  "string \<Rightarrow> string \<Rightarrow> string \<Rightarrow> string \<Rightarrow> string \<Rightarrow> ms \<Rightarrow> gstore \<Rightarrow> response \<times> gstore" where
  "queueSyntheticCanary hash tid who key pid at' s =
     (if who = [] then (reply_code 401 ''no_identity'', s)
      else case map_of (gs_commands s) (who, key) of
             Some (h, prior) \<Rightarrow>
               if h \<noteq> hash then (reply_code 409 ''idempotency_conflict'', s) else (prior\<lparr>rs_replayed := True\<rparr>, s)
           | None \<Rightarrow>
               (case project_row s pid who of
                  None \<Rightarrow> saveCommand who key hash (reply_code 404 ''not_found'', s)
                | Some p \<Rightarrow>
                    if \<not> runnable p then saveCommand who key hash (reply_code 409 ''project_not_runnable'', s)
                    else if list_ex (\<lambda>t. gt_uid t = who \<and> gt_status t \<in> {QUEUED, RUNNING} \<and> isSyntheticCanaryTask t)
                              (gs_tasks s)
                    then saveCommand who key hash (reply_code 409 ''synthetic_canary_in_progress'', s)
                    else if has_task s tid then (reply_code 500 ''constraint'', s)
                    else saveCommand who key hash (reply_code 201 [],
                      emit_event p ''synthetic_canary.queued'' None None at'
                        (s\<lparr>gs_tasks := gs_tasks s @
                           [new_task tid p [] SYNTHETIC_CANARY_CAPABILITY SYNTHETIC_CANARY_TITLE canary_payload
                              canary_acceptance 1000 SYNTHETIC_CANARY_MAX_ATTEMPTS True at']\<rparr>))))"

section \<open>Leases\<close>

definition on_task :: "gtask \<Rightarrow> (gtask \<Rightarrow> gtask) \<Rightarrow> gstore \<Rightarrow> gstore" where
  "on_task t f = on_tasks (\<lambda>r. gt_id r = gt_id t \<and> gt_uid r = gt_uid t) f"

definition task_row :: "gstore \<Rightarrow> string \<Rightarrow> string \<Rightarrow> gtask option" where
  "task_row s tid uid = find (\<lambda>t. gt_id t = tid \<and> gt_uid t = uid) (gs_tasks s)"

definition claimable :: "gstore \<Rightarrow> string \<Rightarrow> gtask \<Rightarrow> bool" where
  "claimable s capability t =
     (gt_status t = QUEUED \<and> \<not> gt_cancelRequested t
      \<and> (case project_row s (gt_projectId t) (gt_uid t) of None \<Rightarrow> False | Some p \<Rightarrow> runnable p)
      \<and> (capability = [] \<or> gt_capability t = capability)
      \<and> \<not> list_ex (\<lambda>r. gt_projectId r = gt_projectId t \<and> gt_status r = RUNNING) (gs_tasks s))"

text \<open>\<open>ORDER BY t.priority DESC, t.createdAt LIMIT 1\<close>\<close>

definition queued :: "gstore \<Rightarrow> string \<Rightarrow> gtask option" where
  "queued s capability =
     (case sort_key (\<lambda>t. - gt_priority t) (sort_key gt_createdAt (filter (claimable s capability) (gs_tasks s))) of
        [] \<Rightarrow> None | t # _ \<Rightarrow> Some t)"

definition lease_ms :: "int \<Rightarrow> int" where
  "lease_ms n = min (max (if n = 0 then 120000 else n) 15000) (15 * 60 * 1000)"

definition claimed :: "string \<Rightarrow> int \<Rightarrow> ms \<Rightarrow> gtask \<Rightarrow> gtask" where
  "claimed worker leaseMs at' t =
     t\<lparr>gt_status := RUNNING, gt_workerId := worker, gt_leaseUntil := at' + lease_ms leaseMs, gt_heartbeatAt := at',
       gt_startedAt := (if gt_startedAt t = 0 then at' else gt_startedAt t), gt_attempt := gt_attempt t + 1\<rparr>"

text \<open>The project of a task, which the foreign key keeps.\<close>

definition task_project :: "gstore \<Rightarrow> gtask \<Rightarrow> gproject option" where
  "task_project s t = project_row s (gt_projectId t) (gt_uid t)"

definition claimNextTask :: "string \<Rightarrow> string \<Rightarrow> int \<Rightarrow> ms \<Rightarrow> gstore \<Rightarrow> gtask option \<times> gstore" where
  "claimNextTask worker capability leaseMs at' s =
     (if worker = [] then (None, s)
      else case queued s capability of
             None \<Rightarrow> (None, s)
           | Some t \<Rightarrow>
               (case task_project s t of
                  None \<Rightarrow> (None, s)
                | Some p \<Rightarrow>
                    (Some (claimed worker leaseMs at' t),
                     emit_event p ''task.claimed'' None None at' (on_task t (claimed worker leaseMs at') s))))"

text \<open>The checks in front of every answer of a worker.\<close>

definition lease_check :: "gstore \<Rightarrow> string \<Rightarrow> string \<Rightarrow> nat \<Rightarrow> string \<Rightarrow> response + gtask" where
  "lease_check s who tid attempt worker =
     (case task_row s tid who of
        None \<Rightarrow> Inl (reply_code 404 ''not_found'')
      | Some t \<Rightarrow>
          if attempt \<noteq> gt_attempt t then Inl (reply_code 409 ''attempt_lost'')
          else if gt_status t \<noteq> RUNNING \<or> gt_workerId t \<noteq> worker then Inl (reply_code 409 ''lease_lost'')
          else Inr t)"

definition heartbeatTask ::
  "string \<Rightarrow> string \<Rightarrow> string \<Rightarrow> nat \<Rightarrow> int \<Rightarrow> ms \<Rightarrow> gstore \<Rightarrow> response \<times> gstore" where
  "heartbeatTask who tid worker attempt leaseMs at' s =
     (case lease_check s who tid attempt worker of
        Inl r \<Rightarrow> (r, s)
      | Inr t \<Rightarrow> ((reply_code 200 [])\<lparr>rs_waiting := gt_cancelRequested t\<rparr>,
          on_task t (\<lambda>r. r\<lparr>gt_heartbeatAt := at', gt_leaseUntil := at' + lease_ms leaseMs\<rparr>) s))"

section \<open>Answers of a worker\<close>

definition finish_task :: "task_status \<Rightarrow> task_result \<Rightarrow> ms \<Rightarrow> gtask \<Rightarrow> gtask" where
  "finish_task st res at' t = (close_task st at' t)\<lparr>gt_result := res\<rparr>"

text \<open>An owner's request that waited for the worker is carried out.\<close>

definition settle_operation :: "gproject \<Rightarrow> string \<Rightarrow> string \<Rightarrow> ms \<Rightarrow> gstore \<Rightarrow> bool \<times> gstore" where
  "settle_operation current pauseReason stopReason at' s =
     (if gp_operation current = PAUSE_REQUESTED then finalizePause current pauseReason at' s
      else if gp_operation current = STOP_REQUESTED then finalizeStop current stopReason at' s
      else (False, s))"

definition completeTask ::
  "string \<Rightarrow> string \<Rightarrow> string \<Rightarrow> nat \<Rightarrow> string \<Rightarrow> bool \<Rightarrow> bool \<Rightarrow> ms \<Rightarrow> gstore \<Rightarrow> response \<times> gstore" where
  "completeTask who tid worker attempt resultStatus resultStopped hasCheckpoint at' s =
     (case lease_check s who tid attempt worker of
        Inl r \<Rightarrow> (r, s)
      | Inr t \<Rightarrow>
          (case task_project s t of
             None \<Rightarrow> (reply_code 500 ''constraint'', s)
           | Some p \<Rightarrow>
               let canary = isSyntheticCanaryTask t;
                   terminalSuccess = (resultStatus \<in> {''SUCCEEDED'', ''COMPLETED''});
                   stopped = (gt_cancelRequested t \<and> \<not> terminalSuccess);
                   ownerStopped = (stopped \<and> gp_operation p = STOP_REQUESTED);
                   st = (if ownerStopped then T_CANCELLED else if stopped then T_PAUSED else T_COMPLETED);
                   s1 = on_task t (finish_task st (WorkerResult resultStatus resultStopped) at') s;
                   s2 = (if \<not> canary \<and> hasCheckpoint \<or> stopped \<or> gt_cancelRequested t \<and> terminalSuccess
                         then createCheckpoint p (gt_id t)
                                (if stopped then ''worker reached a requested safe boundary''
                                 else if gt_cancelRequested t
                                 then ''worker completed before the owner operation took effect''
                                 else ''task checkpoint'') at' s1
                         else s1);
                   s3 = emit_event p (if ownerStopped then ''task.cancelled'' else if stopped then ''task.paused''
                                      else if canary then ''synthetic_canary.completed'' else ''task.completed'')
                          None None at' s2;
                   (finalized, s4) = settle_operation (reread s3 p) ''worker reached a safe boundary''
                                       ''worker reached a stop boundary'' at' s3
               in ((reply_code 200 [])\<lparr>rs_paused := stopped, rs_finalized := finalized\<rparr>, s4)))"

definition fail_project :: "gproject \<Rightarrow> game_state \<Rightarrow> string \<Rightarrow> ms \<Rightarrow> gstore \<Rightarrow> gstore" where
  "fail_project p st blocker at' = move_project p st (resume_point p) NoOperation blocker at'"

definition unconfirmed :: "gproject \<Rightarrow> bool \<Rightarrow> string \<Rightarrow> ms \<Rightarrow> gstore \<Rightarrow> gstore" where
  "unconfirmed p pausing blocker at' s =
     emit_event p (if pausing then ''project.pause_unconfirmed'' else ''project.stop_unconfirmed'') None None at'
       (fail_project p BLOCKED blocker at' s)"

definition failTask ::
  "string \<Rightarrow> string \<Rightarrow> string \<Rightarrow> nat \<Rightarrow> string \<Rightarrow> bool \<Rightarrow> ms \<Rightarrow> gstore \<Rightarrow> response \<times> gstore" where
  "failTask who tid worker attempt err retryable at' s =
     (case lease_check s who tid attempt worker of
        Inl r \<Rightarrow> (r, s)
      | Inr t \<Rightarrow>
          if worker = [] then (reply_code 409 ''lease_lost'', s)
          else (case task_project s t of
             None \<Rightarrow> (reply_code 500 ''constraint'', s)
           | Some p \<Rightarrow>
               if gt_cancelRequested t \<and> gp_operation p \<in> {PAUSE_REQUESTED, STOP_REQUESTED}
               then let s1 = on_task t (finish_task T_FAILED (ErrorResult err) at') s;
                        s2 = emit_event p ''task.failed'' None None at' s1
                    in ((reply_code 200 [])\<lparr>rs_blocked := True\<rparr>,
                        unconfirmed p (gp_operation p = PAUSE_REQUESTED)
                          ''The worker failed before the requested operation reached a confirmed safe boundary.'' at' s2)
               else let mayRetry = (retryable \<and> gt_safeToRetry t \<and> gt_attempt t < gt_maxAttempts t);
                        canary = isSyntheticCanaryTask t;
                        s1 = on_task t (finish_task (if mayRetry then QUEUED else T_FAILED) (ErrorResult err)
                               (if mayRetry then 0 else at')) s;
                        s2 = emit_event p (if mayRetry then ''task.requeued'' else ''task.failed'') None None at' s1;
                        s3 = (if \<not> mayRetry \<and> \<not> canary then fail_project p FAILED err at' s2 else s2)
                    in ((reply_code 200 [])\<lparr>rs_requeued := mayRetry\<rparr>, s3)))"

section \<open>The security stop\<close>

definition result_is_security_stop :: "task_result \<Rightarrow> bool" where
  "result_is_security_stop r =
     (case r of SecurityStopped n c u \<Rightarrow> True | WorkerResult st b \<Rightarrow> b | _ \<Rightarrow> False)"

definition stale_checkpoint :: "gproject \<Rightarrow> gtask \<Rightarrow> gcheckpoint \<Rightarrow> bool" where
  "stale_checkpoint p t c =
     (ck_projectId c = gp_id p \<and> ck_uid c = gp_uid p \<and> ck_compatible c
      \<and> (ck_taskId c = gt_id t \<or> 0 < gt_endedAt t \<and> gt_endedAt t \<le> ck_createdAt c))"

definition securityStopTask :: "string \<Rightarrow> string \<Rightarrow> nat \<Rightarrow> string \<Rightarrow> ms \<Rightarrow> gstore \<Rightarrow> response \<times> gstore" where
  "securityStopTask who tid attempt reason at' s =
     (case task_row s tid who of
        None \<Rightarrow> (reply_code 404 ''not_found'', s)
      | Some t \<Rightarrow>
          if attempt \<noteq> gt_attempt t then (reply_code 409 ''attempt_lost'', s)
          else if result_is_security_stop (gt_result t) then ((reply_code 200 [])\<lparr>rs_replayed := True\<rparr>, s)
          else (case task_project s t of
             None \<Rightarrow> (reply_code 404 ''not_found'', s)
           | Some p \<Rightarrow>
               let canary = isSyntheticCanaryTask t;
                   stale = filter (stale_checkpoint p t) (gs_checkpoints s);
                   s1 = s\<lparr>gs_checkpoints := upd (stale_checkpoint p t) (\<lambda>c. c\<lparr>ck_compatible := False\<rparr>) (gs_checkpoints s)\<rparr>;
                   pauseUnconfirmed = (gt_cancelRequested t \<and>
                     (gp_operation p = PAUSE_REQUESTED \<or> gp_operation p = OP_PAUSED \<or> gp_state p = PAUSED));
                   stopUnconfirmed = (gt_cancelRequested t \<and>
                     (gp_operation p = STOP_REQUESTED \<or> gp_operation p = OP_STOPPED));
                   owner = (pauseUnconfirmed \<or> stopUnconfirmed);
                   s2 = on_task t (\<lambda>r. if gt_attempt r = gt_attempt t
                          then (finish_task T_FAILED (SecurityStopped (length stale) canary (canary \<and> \<not> owner)) at' r)
                                 \<lparr>gt_cancelRequested := False\<rparr> else r) s1;
                   s3 = emit_event p (if canary then ''synthetic_canary.security_stopped'' else ''task.security_stopped'')
                          None None at' s2;
                   s4 = (if owner
                         then unconfirmed p pauseUnconfirmed
                                ''The worker lost its isolation proof before the requested operation was confirmed.'' at' s3
                         else if \<not> canary
                         then emit_event p ''project.security_stopped'' None None at' (fail_project p FAILED reason at' s3)
                         else s3)
               in (reply_code 200 [], s4)))"

section \<open>Reconciliation\<close>

definition expired :: "gstore \<Rightarrow> ms \<Rightarrow> nat \<Rightarrow> gtask list" where
  "expired s at' limit =
     take limit (sort_key gt_leaseUntil
       (filter (\<lambda>t. gt_status t = RUNNING \<and> 0 < gt_leaseUntil t \<and> gt_leaseUntil t < at') (gs_tasks s)))"

definition expire_one :: "ms \<Rightarrow> gstore \<Rightarrow> gtask \<Rightarrow> gstore" where
  "expire_one at' s t =
     (case task_project s t of
        None \<Rightarrow> s
      | Some p \<Rightarrow>
          let owner = (gp_operation p = PAUSE_REQUESTED \<or> gp_operation p = STOP_REQUESTED);
              mayRetry = (\<not> owner \<and> gt_safeToRetry t \<and> gt_attempt t < gt_maxAttempts t);
              st = (if mayRetry then QUEUED else T_FAILED);
              s1 = on_tasks (\<lambda>r. gt_id r = gt_id t \<and> gt_status r = RUNNING)
                     (finish_task st (ErrorResult ''worker lease expired'') (if mayRetry then 0 else at')) s;
              s2 = emit_event p ''task.lease_expired'' None None at' s1
          in if mayRetry then s2
             else if owner
             then unconfirmed p (gp_operation p = PAUSE_REQUESTED)
                    ''The worker lease expired before the requested operation reached a confirmed safe boundary.'' at' s2
             else if \<not> isSyntheticCanaryTask t
             then fail_project p FAILED ''A worker lease expired during a non-retryable task.'' at' s2
             else emit_event p ''synthetic_canary.failed'' None None at' s2)"

definition settle_one :: "ms \<Rightarrow> gstore \<Rightarrow> gproject \<Rightarrow> gstore" where
  "settle_one at' s p =
     (if activeTasks s p > 0 then s
      else let s1 = (if gp_operation p = PAUSE_REQUESTED
                     then snd (finalizePause p ''reconciled after worker lease ended'' at' s) else s)
           in if gp_operation p = STOP_REQUESTED
              then snd (finalizeStop p ''reconciled after worker lease ended'' at' s1) else s1)"

definition pending_projects :: "gstore \<Rightarrow> gproject list" where
  "pending_projects s = filter (\<lambda>p. gp_operation p \<in> {PAUSE_REQUESTED, STOP_REQUESTED}) (gs_projects s)"

text \<open>\<open>Math.min(Math.max(Number(limit) || 100, 1), 1000)\<close>\<close>

definition clamp_limit :: "int \<Rightarrow> nat" where
  "clamp_limit n = nat (min (max (if n = 0 then 100 else n) 1) 1000)"

definition reconcile_leases :: "int \<Rightarrow> ms \<Rightarrow> gstore \<Rightarrow> gstore" where
  "reconcile_leases limit at' s =
     (let s1 = foldl (expire_one at') s (expired s at' (clamp_limit limit))
      in foldl (settle_one at') s1 (pending_projects s1))"

section \<open>Runs\<close>

datatype gop =
  Seed string
| Command string string string request
| CreateBuild string string string string
| BuildStatus string string string string
| QueueTask string string string task_order
| QueueCanary string string string string string
| Claim string string int
| Heartbeat string string string nat int
| Complete string string string nat string bool bool
| Fail string string string nat string bool
| SecurityStop string string nat string
| Reconcile int

fun gstep :: "(request \<Rightarrow> string) \<Rightarrow> readers \<Rightarrow> gstore \<Rightarrow> ms \<times> gop \<Rightarrow> gstore" where
  "gstep digest rdr s (t, Seed uid) = seedPortfolio uid t s"
| "gstep digest rdr s (t, Command aid who key rq) = snd (executeCommand digest rdr aid who key rq t s)"
| "gstep digest rdr s (t, CreateBuild bid who pid commit) = snd (createBuild bid who pid commit t s)"
| "gstep digest rdr s (t, BuildStatus who pid bid st) = snd (updateBuildStatus who pid bid st t s)"
| "gstep digest rdr s (t, QueueTask tid who pid q) = snd (queueTask tid who pid q t s)"
| "gstep digest rdr s (t, QueueCanary hash tid who key pid) = snd (queueSyntheticCanary hash tid who key pid t s)"
| "gstep digest rdr s (t, Claim worker cap lease) = snd (claimNextTask worker cap lease t s)"
| "gstep digest rdr s (t, Heartbeat who tid worker a lease) = snd (heartbeatTask who tid worker a lease t s)"
| "gstep digest rdr s (t, Complete who tid worker a st stopped ck) =
     snd (completeTask who tid worker a st stopped ck t s)"
| "gstep digest rdr s (t, Fail who tid worker a err retryable) = snd (failTask who tid worker a err retryable t s)"
| "gstep digest rdr s (t, SecurityStop who tid a reason) = snd (securityStopTask who tid a reason t s)"
| "gstep digest rdr s (t, Reconcile limit) = reconcile_leases limit t s"

definition grun :: "(request \<Rightarrow> string) \<Rightarrow> readers \<Rightarrow> gstore \<Rightarrow> (ms \<times> gop) list \<Rightarrow> gstore" where
  "grun digest rdr s ops = foldl (gstep digest rdr) s ops"

definition empty_store :: gstore where
  "empty_store = \<lparr>gs_projects = [], gs_tasks = [], gs_checkpoints = [], gs_builds = [], gs_approvals = [],
     gs_events = [], gs_outbox = [], gs_commands = []\<rparr>"

end
