(* ===== verification/GameSafety.thy ===== *)
theory GameSafety
  imports GameTasks
begin

text \<open>
  One interface for the safety of the store: the locale \<open>store_safety\<close> names what an invariant must allow
  of the primitive writes, and shows once that every operation keeps it.
\<close>

section \<open>Reading and writing rows\<close>

lemma upd_simps [simp]: "upd P f [] = []" "upd P f (r # rs) = (if P r then f r else r) # upd P f rs"
  by (simp_all add: upd_def)

lemma set_upd: "set (upd P f rs) = (\<lambda>r. if P r then f r else r) ` set rs"
  by (simp add: upd_def)

lemma map_upd_same: "(\<And>r. g (f r) = g r) \<Longrightarrow> map g (upd P f rs) = map g rs"
  by (induction rs) auto

lemma project_row_Some: "project_row s pid uid = Some p \<Longrightarrow> p \<in> set (gs_projects s) \<and> gp_id p = pid \<and> gp_uid p = uid"
  by (auto simp: project_row_def find_Some_iff)

lemma task_row_Some: "task_row s tid uid = Some t \<Longrightarrow> t \<in> set (gs_tasks s) \<and> gt_id t = tid \<and> gt_uid t = uid"
  by (auto simp: task_row_def find_Some_iff)

lemma reread_cases: "reread s p = p \<or> reread s p \<in> set (gs_projects s)"
  by (auto simp: reread_def project_row_def find_Some_iff split: option.splits)

lemma reread_key [simp]: "gp_id (reread s p) = gp_id p" "gp_uid (reread s p) = gp_uid p"
  by (auto simp: reread_def project_row_def find_Some_iff split: option.splits)

lemma activeTasks_key: "gp_id p = gp_id q \<Longrightarrow> gp_uid p = gp_uid q \<Longrightarrow> activeTasks s p = activeTasks s q"
  by (simp add: activeTasks_def of_project_def)

lemma activeTasks_reread [simp]: "activeTasks s (reread s' p) = activeTasks s p"
  by (rule activeTasks_key) simp_all

lemma tables_emit [simp]:
  "gs_projects (emit_event p ty a b t s) = gs_projects s" "gs_tasks (emit_event p ty a b t s) = gs_tasks s"
  "gs_checkpoints (emit_event p ty a b t s) = gs_checkpoints s" "gs_commands (emit_event p ty a b t s) = gs_commands s"
  "gs_approvals (emit_event p ty a b t s) = gs_approvals s" "gs_builds (emit_event p ty a b t s) = gs_builds s"
  by (simp_all add: emit_event_def)

lemma tables_on_project [simp]:
  "gs_tasks (on_project p f s) = gs_tasks s" "gs_checkpoints (on_project p f s) = gs_checkpoints s"
  "gs_commands (on_project p f s) = gs_commands s" "gs_projects (on_project p f s) = upd (is_row p) f (gs_projects s)"
  by (simp_all add: on_project_def)

lemma tables_on_tasks [simp]:
  "gs_projects (on_tasks P f s) = gs_projects s" "gs_checkpoints (on_tasks P f s) = gs_checkpoints s"
  "gs_commands (on_tasks P f s) = gs_commands s" "gs_tasks (on_tasks P f s) = upd P f (gs_tasks s)"
  by (simp_all add: on_tasks_def)

lemma tables_checkpoint [simp]:
  "gs_projects (createCheckpoint p i r t s) = gs_projects s" "gs_tasks (createCheckpoint p i r t s) = gs_tasks s"
  "gs_commands (createCheckpoint p i r t s) = gs_commands s"
  by (simp_all add: createCheckpoint_def)

lemma activeTasks_same: "gs_tasks s = gs_tasks s' \<Longrightarrow> activeTasks s p = activeTasks s' p"
  by (simp add: activeTasks_def)

section \<open>The interface\<close>

text \<open>A set of late states is entered from outside only by a transition.\<close>

definition late :: "game_state set \<Rightarrow> gproject \<Rightarrow> bool" where
  "late X p = (gp_state p \<in> X \<or> gp_resumeState p \<in> Some ` X)"

text \<open>An update of a task that starts nothing and keeps who the task is.\<close>

definition calm :: "(gtask \<Rightarrow> gtask) \<Rightarrow> bool" where
  "calm f = (\<forall>t. gt_id (f t) = gt_id t \<and> gt_projectId (f t) = gt_projectId t \<and> gt_uid (f t) = gt_uid t
     \<and> gt_attempt (f t) = gt_attempt t
     \<and> (gt_status (f t) = RUNNING \<longrightarrow> gt_status t = RUNNING \<and> gt_workerId (f t) = gt_workerId t))"

lemma active_calm: "calm g \<Longrightarrow> activeTasks s p = 0 \<Longrightarrow> activeTasks (on_tasks P g s) p = 0"
  by (auto simp: activeTasks_def filter_empty_conv set_upd calm_def of_project_def)

text \<open>The commands that lead into a set of late states from outside.\<close>

definition enters :: "game_state set \<Rightarrow> readers \<Rightarrow> gstore \<Rightarrow> gproject \<Rightarrow> gcommand \<Rightarrow> game_state \<Rightarrow> bool" where
  "enters X rdr s row c st =
     (st \<in> X \<and> gp_state row \<notin> X \<and> \<not> is_hold (gp_state row)
      \<and> (c = Transition (Target st) \<or> c = Advance \<and> defaultNextState (gp_state row) = Some st)
      \<and> transitionDecision (gp_state row) (gp_resumeState row) st (rd_evidenceFor rdr s row) = Granted)"

locale store_safety =
  fixes X :: "game_state set"
    and I :: "gstore \<Rightarrow> bool"
    and K :: "gproject \<Rightarrow> bool"
    and M :: "gproject \<Rightarrow> game_state \<Rightarrow> game_state option \<Rightarrow> bool"
  assumes X_late: "X \<inter> {PAUSED, BLOCKED, FAILED, REVISION, IDEA} = {}"
    and quiet: "I s \<Longrightarrow> gs_projects s' = gs_projects s \<Longrightarrow> gs_tasks s' = gs_tasks s \<Longrightarrow> I s'"
    and touch: "I s \<Longrightarrow> (\<And>r. gp_id (f r) = gp_id r \<and> gp_uid (f r) = gp_uid r \<and> gp_state (f r) = gp_state r
        \<and> gp_resumeState (f r) = gp_resumeState r) \<Longrightarrow> I (on_project p f s)"
    and known: "I s \<Longrightarrow> p \<in> set (gs_projects s) \<Longrightarrow> K p"
    and move: "I s \<Longrightarrow> K p \<Longrightarrow> M p st rs \<Longrightarrow> (st = PAUSED \<longrightarrow> activeTasks s p = 0) \<Longrightarrow>
        I (move_project p st rs opn bl at' s)"
    and M_plain: "st \<notin> X \<Longrightarrow> rs \<notin> Some ` X \<Longrightarrow> M p st rs"
    and M_stays: "late X p \<Longrightarrow> M p st rs"
    and tasks: "I s \<Longrightarrow> calm g \<Longrightarrow> I (on_tasks P g s)"
    and claim: "I s \<Longrightarrow> claimable s cap t \<Longrightarrow> t \<in> set (gs_tasks s) \<Longrightarrow> worker \<noteq> [] \<Longrightarrow>
        I (on_task t (claimed worker lease at') s)"
    and fresh: "I s \<Longrightarrow> p \<in> set (gs_projects s) \<Longrightarrow> \<not> has_task s tid \<Longrightarrow>
        I (s\<lparr>gs_tasks := gs_tasks s @ [new_task tid p bid cap title payload acc prio att safe at']\<rparr>)"
    and seed: "I s \<Longrightarrow> (\<forall>q \<in> set (gs_projects s). gp_id q \<noteq> gp_id p) \<Longrightarrow> gp_state p = IDEA \<Longrightarrow>
        gp_resumeState p = None \<Longrightarrow> I (s\<lparr>gs_projects := gs_projects s @ [p]\<rparr>)"
begin

lemma emit_keeps: "I s \<Longrightarrow> I (emit_event p ty a b t s)"
  by (erule quiet) simp_all

lemma emit_iff: "I (emit_event p ty a b t s) \<longleftrightarrow> I s"
  by (auto intro: quiet)

lemma checkpoint_keeps: "I s \<Longrightarrow> I (createCheckpoint p i r t s)"
  by (erule quiet) simp_all

lemma approvals: "I s \<Longrightarrow> I (invalidate_approvals p P t s)"
  by (erule quiet) (simp_all add: invalidate_approvals_def)

lemma saved: "I (snd x) \<Longrightarrow> I (snd (saveCommand who key h x))"
  by (erule quiet) (simp_all add: saveCommand_def)

lemma known_reread: "I s \<Longrightarrow> K p \<Longrightarrow> K (reread s p)"
  using reread_cases [of s p] known by auto

lemma not_late [simp]: "PAUSED \<notin> X" "BLOCKED \<notin> X" "FAILED \<notin> X" "REVISION \<notin> X" "IDEA \<notin> X"
  using X_late by auto

lemma M_back: "rs \<in> Some ` X \<longrightarrow> late X p \<Longrightarrow> st \<in> X \<longrightarrow> late X p \<Longrightarrow> M p st rs"
  using M_plain M_stays by blast

lemma M_resume_point: "M p PAUSED (resume_point p)" "M p BLOCKED (resume_point p)" "M p FAILED (resume_point p)"
  by (rule M_back; auto simp: late_def resume_point_def split: if_splits)+

lemma M_from: "st \<notin> X \<Longrightarrow> M p st (Some (gp_state p))"
  by (rule M_back) (auto simp: late_def)

lemma calm_close: "st \<noteq> RUNNING \<Longrightarrow> calm (close_task st t)" "st \<noteq> RUNNING \<Longrightarrow> calm (finish_task st r t)"
  by (simp_all add: calm_def close_task_def finish_task_def)

lemma calm_flag: "calm (\<lambda>t. t\<lparr>gt_cancelRequested := b\<rparr>)"
  "st \<noteq> RUNNING \<Longrightarrow> calm (\<lambda>t. t\<lparr>gt_status := st, gt_endedAt := e\<rparr>)"
  "st \<noteq> RUNNING \<Longrightarrow> calm (\<lambda>t. t\<lparr>gt_status := st, gt_cancelRequested := b, gt_endedAt := e\<rparr>)"
  "calm (\<lambda>r. r\<lparr>gt_heartbeatAt := h, gt_leaseUntil := l\<rparr>)"
  by (simp_all add: calm_def)

lemma pausing: "I s \<Longrightarrow> K row \<Longrightarrow> I (snd (finalizePause row reason t s))"
  unfolding finalizePause_def Let_def
  by (auto intro!: emit_keeps move tasks checkpoint_keeps calm_close M_resume_point known_reread active_calm
      simp: activeTasks_same [of "createCheckpoint _ _ _ _ _" s])

lemma stopping: "I s \<Longrightarrow> K row \<Longrightarrow> I (snd (finalizeStop row reason t s))"
  unfolding finalizeStop_def Let_def
  by (auto intro!: emit_keeps move tasks checkpoint_keeps calm_close M_resume_point known_reread)

lemma requested: "I s \<Longrightarrow> I (request_operation row opn t s)"
  unfolding request_operation_def by (intro tasks calm_flag touch) auto

section \<open>Commands\<close>

lemma transition_safe:
  assumes "I s" "K row"
    and plain: "\<And>st. to = Target st \<Longrightarrow> explicit \<or> \<not> is_hold st"
    and gate: "\<And>st. to = Target st \<Longrightarrow> st \<in> X \<Longrightarrow> gp_state row \<notin> X \<Longrightarrow> \<not> is_hold (gp_state row) \<Longrightarrow>
      transitionDecision (gp_state row) (gp_resumeState row) st (rd_evidenceFor rdr s row) = Granted \<Longrightarrow> M row st None"
  shows "I (snd (cmd_transition rdr explicit to row t s))"
proof (cases to)
  case (Target st)
  show ?thesis
  proof (cases "\<not> is_hold st \<and>
      transitionDecision (gp_state row) (gp_resumeState row) st (rd_evidenceFor rdr s row) = Granted")
    case True
    then have "is_hold (gp_state row) \<Longrightarrow> gp_resumeState row = Some st"
      by (auto simp: Granted_iff allowedTransitions_def split: option.splits if_splits)
    then have "M row st None"
      using True gate [OF Target] M_back [of None row st] by (auto simp: late_def)
    with True assms(1,2) Target show ?thesis
      by (auto simp: cmd_transition_def Let_def is_hold_cases intro!: emit_keeps move)
  next
    case False
    with assms(1) Target plain show ?thesis
      by (auto simp: cmd_transition_def Let_def split: transition_decision.splits)
  qed
qed (simp_all add: cmd_transition_def assms)

lemma pause_safe: "I s \<Longrightarrow> K row \<Longrightarrow> I (snd (cmd_pause row t s))"
  by (auto simp: cmd_pause_def Let_def intro!: pausing emit_keeps requested known_reread)

lemma resume_safe: "I s \<Longrightarrow> K row \<Longrightarrow> I (snd (cmd_resume row t s))"
  unfolding cmd_resume_def Let_def
  by (auto intro!: emit_keeps move tasks calm_flag M_back simp: late_def split: option.splits)

lemma stop_safe: "I s \<Longrightarrow> K row \<Longrightarrow> I (snd (cmd_stop row t s))"
  by (auto simp: cmd_stop_def Let_def intro!: stopping emit_keeps requested tasks calm_flag known_reread)

lemma retry_safe: "I s \<Longrightarrow> K row \<Longrightarrow> I (snd (cmd_retry row t s))"
  unfolding cmd_retry_def Let_def
  by (auto intro!: emit_keeps move M_back simp: late_def split: option.splits if_splits)

lemma revise_safe: "I s \<Longrightarrow> K row \<Longrightarrow> I (snd (cmd_revise reason row t s))"
  unfolding cmd_revise_def Let_def
  by (auto intro!: emit_keeps move approvals M_from)

lemma block_safe: "I s \<Longrightarrow> K row \<Longrightarrow> I (snd (cmd_block reason row t s))"
  unfolding cmd_block_def Let_def by (auto intro!: emit_keeps move M_from)

lemma attach_safe: "I s \<Longrightarrow> I (snd (cmd_attach a b c row t s))"
  unfolding cmd_attach_def Let_def by (auto intro!: emit_keeps touch)

lemma recorded: "I s \<Longrightarrow> I (s\<lparr>gs_approvals := as\<rparr>)"
  by (erule quiet) simp_all

lemma decide_safe: "I s \<Longrightarrow> K row \<Longrightarrow> I (snd (cmd_decide rdr ap g h aid row t s))"
  unfolding cmd_decide_def Let_def
  by (auto intro!: emit_keeps move touch M_from approvals recorded split: option.splits sum.splits)

lemma command_safe:
  assumes "I s" "K row" "\<And>st. enters X rdr s row c st \<Longrightarrow> M row st None"
  shows "I (snd (run_command rdr aid c row t s))"
  using assms
  by (cases c)
     (auto simp: run_command_def enters_def defaultNextState_not_hold split: option.splits
       intro!: transition_safe pause_safe resume_safe stop_safe retry_safe revise_safe block_safe attach_safe decide_safe)

lemma execute_safe:
  assumes "I s" "\<And>row st. project_row s (rq_projectId rq) who = Some row \<Longrightarrow> enters X rdr s row (rq_command rq) st \<Longrightarrow>
      M row st None"
  shows "I (snd (executeCommand digest rdr aid who key rq t s))"
proof (cases "project_row s (rq_projectId rq) who")
  case None
  with assms(1) show ?thesis
    unfolding executeCommand_def by (auto intro!: saved split: option.splits)
next
  case (Some row)
  then have "K row" using known [OF assms(1)] project_row_Some by blast
  with assms Some have "I (snd (run_command rdr aid (rq_command rq) row t s))" by (blast intro: command_safe)
  with assms(1) Some show ?thesis
    unfolding executeCommand_def by (auto intro!: saved split: option.splits)
qed

section \<open>Builds, tasks and workers\<close>

lemma build_safe: "I s \<Longrightarrow> I (snd (createBuild bid who pid commit t s))"
proof (cases "project_row s pid who")
  case (Some p)
  assume i: "I s"
  then have k: "K p" using known project_row_Some [OF Some] by blast
  have "I (s\<lparr>gs_builds := b, gs_checkpoints := c\<rparr>)" for b c using i by (rule quiet) simp_all
  with k Some i show ?thesis
    unfolding createBuild_def invalidateMaterialChange_def Let_def
    by (auto intro!: emit_keeps move touch approvals M_from)
qed (simp add: createBuild_def)

lemma status_safe: "I s \<Longrightarrow> I (snd (updateBuildStatus who pid bid st t s))"
  unfolding updateBuildStatus_def Let_def
  by (auto intro!: emit_keeps elim!: quiet split: option.splits)

lemma queue_safe: "I s \<Longrightarrow> I (snd (queueTask tid who pid q t s))"
  unfolding queueTask_def Let_def
  by (auto intro!: emit_keeps fresh dest: project_row_Some split: option.splits)

lemma canary_safe: "I s \<Longrightarrow> I (snd (queueSyntheticCanary h tid who key pid t s))"
  unfolding queueSyntheticCanary_def
  by (auto intro!: saved emit_keeps fresh dest: project_row_Some split: option.splits)

lemma queued_Some: "queued s cap = Some t \<Longrightarrow> claimable s cap t \<and> t \<in> set (gs_tasks s)"
proof -
  assume "queued s cap = Some t"
  then obtain ts where "sort_key (\<lambda>t. - gt_priority t) (sort_key gt_createdAt (filter (claimable s cap) (gs_tasks s))) = t # ts"
    by (auto simp: queued_def split: list.splits)
  then have "t \<in> set (sort_key (\<lambda>t. - gt_priority t) (sort_key gt_createdAt (filter (claimable s cap) (gs_tasks s))))"
    unfolding set_simps(2) [symmetric] by (metis list.set_intros(1))
  then show ?thesis unfolding set_sort set_filter by simp
qed

lemma claim_safe: "I s \<Longrightarrow> I (snd (claimNextTask worker cap lease t s))"
  unfolding claimNextTask_def
  by (auto intro!: emit_keeps claim dest: queued_Some split: option.splits)

lemma heartbeat_safe: "I s \<Longrightarrow> I (snd (heartbeatTask who tid worker a lease t s))"
  unfolding heartbeatTask_def on_task_def
  by (auto intro!: tasks calm_flag split: sum.splits)

lemma known_task: "I s \<Longrightarrow> task_project s t = Some p \<Longrightarrow> K p"
  using known project_row_Some unfolding task_project_def by blast

lemma settle_keeps: "I s \<Longrightarrow> K p \<Longrightarrow> I (snd (settle_operation p a b t s))"
  by (auto simp: settle_operation_def intro: pausing stopping)

lemma complete_safe: "I s \<Longrightarrow> I (snd (completeTask who tid worker a st stopped ck t s))"
  unfolding completeTask_def on_task_def Let_def
  by (auto simp: case_prod_beta intro!: settle_keeps known_reread emit_keeps checkpoint_keeps tasks calm_close
      split: sum.splits option.splits dest: known_task)

lemma project_failed: "I s \<Longrightarrow> K p \<Longrightarrow> st = FAILED \<or> st = BLOCKED \<Longrightarrow> I (fail_project p st bl t s)"
  unfolding fail_project_def by (auto intro!: move M_resume_point)

lemma unconfirmed_safe: "I s \<Longrightarrow> K p \<Longrightarrow> I (unconfirmed p b bl t s)"
  unfolding unconfirmed_def by (intro emit_keeps project_failed) simp_all

lemma fail_safe: "I s \<Longrightarrow> I (snd (failTask who tid worker a err retryable t s))"
  unfolding failTask_def on_task_def Let_def
  by (auto intro!: unconfirmed_safe project_failed emit_keeps tasks calm_close
      split: sum.splits option.splits dest: known_task)

lemma security_safe: "I s \<Longrightarrow> I (snd (securityStopTask who tid a reason t s))"
proof -
  assume i: "I s"
  have c: "calm (\<lambda>r. if gt_attempt r = n then (finish_task T_FAILED x t r)\<lparr>gt_cancelRequested := False\<rparr> else r)" for n x
    by (auto simp: calm_def finish_task_def close_task_def)
  have "I (s\<lparr>gs_checkpoints := cs\<rparr>)" for cs using i by (rule quiet) simp_all
  with i show ?thesis
    unfolding securityStopTask_def on_task_def Let_def
    by (auto intro!: unconfirmed_safe project_failed emit_keeps tasks c split: option.splits dest: known_task)
qed

section \<open>Reconciliation and runs\<close>

lemma expire_safe: "I s \<Longrightarrow> I (expire_one t s x)"
  unfolding expire_one_def Let_def
  by (auto intro!: unconfirmed_safe project_failed emit_keeps tasks calm_close split: option.splits dest: known_task)

lemma settle_safe: "I s \<Longrightarrow> K p \<Longrightarrow> I (settle_one t s p)"
  unfolding settle_one_def Let_def by (auto intro: pausing stopping)

lemma reconcile_safe: "I s \<Longrightarrow> I (reconcile_leases limit t s)"
proof -
  assume i: "I s"
  have a: "I (foldl (expire_one t) s xs)" for xs
    using i by (induction xs arbitrary: s) (auto intro: expire_safe)
  have b: "I s' \<Longrightarrow> \<forall>p \<in> set ps. K p \<Longrightarrow> I (foldl (settle_one t) s' ps)" for ps s'
    by (induction ps arbitrary: s') (auto intro: settle_safe)
  show ?thesis
    unfolding reconcile_leases_def Let_def using a known
    by (intro b) (auto simp: pending_projects_def)
qed

lemma seed_one_safe: "I s \<Longrightarrow> I (seed_one who t s item)"
  by (auto simp: seed_one_def Let_def list_ex_iff intro!: emit_keeps seed)

lemma seed_safe: "I s \<Longrightarrow> I (seedPortfolio uid t s)"
proof -
  assume "I s"
  then have "I (foldl (seed_one who t) s items)" for who items
    by (induction items arbitrary: s) (auto intro: seed_one_safe)
  then show ?thesis by (simp add: seedPortfolio_def)
qed

lemma step_safe:
  assumes "I s" "\<And>aid who key rq row st. x = Command aid who key rq \<Longrightarrow>
      project_row s (rq_projectId rq) who = Some row \<Longrightarrow> enters X rdr s row (rq_command rq) st \<Longrightarrow> M row st None"
  shows "I (gstep digest rdr s (t, x))"
  using assms
  by (cases x) (auto intro: execute_safe seed_safe build_safe status_safe queue_safe canary_safe claim_safe
      heartbeat_safe complete_safe fail_safe security_safe reconcile_safe)

end

end
