(* ===== verification/GameFacts.thy ===== *)
theory GameFacts
  imports GameSafety
begin

text \<open>
  Three invariants of the store, each an instance of \<open>store_safety\<close>, and the properties of the game factory
  that follow: one worker per game, no launch around the gate, no answer from a lost attempt.
\<close>

section \<open>One worker per game\<close>

definition running_in :: "gstore \<Rightarrow> string \<Rightarrow> nat" where
  "running_in s pid = length (filter (\<lambda>t. gt_projectId t = pid \<and> gt_status t = RUNNING) (gs_tasks s))"

definition wf_store :: "gstore \<Rightarrow> bool" where
  "wf_store s \<longleftrightarrow>
     distinct (map gt_id (gs_tasks s)) \<and> distinct (map gp_id (gs_projects s))
     \<and> (\<forall>t \<in> set (gs_tasks s). gt_status t = RUNNING \<longrightarrow> gt_workerId t \<noteq> [] \<and> 0 < gt_attempt t)
     \<and> (\<forall>pid. running_in s pid \<le> 1)
     \<and> (\<forall>p \<in> set (gs_projects s). gp_state p = PAUSED \<longrightarrow> activeTasks s p = 0)
     \<and> (\<forall>t \<in> set (gs_tasks s). \<exists>p \<in> set (gs_projects s). of_project p t)"

lemma filter_upd_calm:
  assumes "calm g"
  shows "length (filter (\<lambda>t. gt_projectId t = pid \<and> gt_status t = RUNNING) (upd P g ts))
      \<le> length (filter (\<lambda>t. gt_projectId t = pid \<and> gt_status t = RUNNING) ts)"
  using assms by (induction ts) (auto simp: calm_def)

lemma count_one_id: "distinct (map gt_id ts) \<Longrightarrow> length (filter (\<lambda>t. gt_id t = i) ts) \<le> 1"
  by (induction ts) (auto simp: filter_empty_conv image_iff split: if_splits)

lemma in_upd: "q \<in> set (upd P f rs) \<Longrightarrow> \<exists>r \<in> set rs. q = (if P r then f r else r)"
  by (auto simp: set_upd)

lemma by_id: "distinct (map key xs) \<Longrightarrow> x \<in> set xs \<Longrightarrow> y \<in> set xs \<Longrightarrow> key x = key y \<Longrightarrow> x = y"
  by (metis distinct_map inj_onD)

lemma wf_quiet: "wf_store s \<Longrightarrow> gs_projects s' = gs_projects s \<Longrightarrow> gs_tasks s' = gs_tasks s \<Longrightarrow> wf_store s'"
  by (simp add: wf_store_def running_in_def activeTasks_def)

lemma of_project_key: "gp_id q = gp_id p \<Longrightarrow> gp_uid q = gp_uid p \<Longrightarrow> of_project q t = of_project p t"
  by (simp add: of_project_def)

lemma wf_on_project:
  assumes "wf_store s" and key: "\<And>r. gp_id (f r) = gp_id r \<and> gp_uid (f r) = gp_uid r"
    and st: "\<And>r. is_row p r \<Longrightarrow> gp_state (f r) = PAUSED \<Longrightarrow> gp_state r = PAUSED \<or> activeTasks s p = 0"
  shows "wf_store (on_project p f s)"
proof -
  have "activeTasks s q = 0" if q: "q \<in> set (upd (is_row p) f (gs_projects s))" "gp_state q = PAUSED" for q
  proof -
    obtain r where r: "r \<in> set (gs_projects s)" "q = (if is_row p r then f r else r)" using in_upd [OF q(1)] by blast
    have "activeTasks s q = activeTasks s r" using r(2) key by (auto intro!: activeTasks_key)
    moreover have "activeTasks s r = activeTasks s p" if "is_row p r"
      using that by (auto simp: is_row_def intro!: activeTasks_key)
    moreover have "gp_state r = PAUSED \<Longrightarrow> activeTasks s r = 0" using assms(1) r(1) by (auto simp: wf_store_def)
    ultimately show ?thesis using st [of r] r(2) q(2) by (cases "is_row p r") auto
  qed
  moreover have "\<exists>q \<in> set (upd (is_row p) f (gs_projects s)). of_project q t" if tm: "t \<in> set (gs_tasks s)" for t
  proof -
    obtain q where "q \<in> set (gs_projects s)" "of_project q t" using assms(1) tm unfolding wf_store_def by blast
    then show ?thesis unfolding set_upd using key
      by (intro bexI [of _ "if is_row p q then f q else q"] imageI) (auto simp: of_project_def)
  qed
  moreover have "map gp_id (upd (is_row p) f (gs_projects s)) = map gp_id (gs_projects s)"
    using key by (intro map_upd_same) simp
  ultimately show ?thesis using assms(1)
    by (simp add: wf_store_def running_in_def activeTasks_same [of "on_project p f s" s])
qed

lemma wf_on_tasks:
  assumes "wf_store s" "calm g" shows "wf_store (on_tasks P g s)"
proof -
  have "running_in (on_tasks P g s) pid \<le> running_in s pid" for pid
    by (simp add: running_in_def filter_upd_calm [OF assms(2)])
  moreover have "\<forall>pid. running_in s pid \<le> 1" using assms(1) by (simp add: wf_store_def)
  ultimately have "\<forall>pid. running_in (on_tasks P g s) pid \<le> 1" using le_trans by blast
  moreover have "map gt_id (upd P g (gs_tasks s)) = map gt_id (gs_tasks s)"
    using assms(2) by (intro map_upd_same) (simp add: calm_def)
  moreover have "gt_status r = RUNNING \<longrightarrow> gt_workerId r \<noteq> [] \<and> 0 < gt_attempt r"
    "\<exists>p \<in> set (gs_projects s). of_project p r" if r: "r \<in> set (upd P g (gs_tasks s))" for r
  proof -
    obtain t where t: "t \<in> set (gs_tasks s)" "r = (if P t then g t else t)" using in_upd [OF r] by blast
    with assms show "gt_status r = RUNNING \<longrightarrow> gt_workerId r \<noteq> [] \<and> 0 < gt_attempt r"
      by (auto simp: wf_store_def calm_def)
    from t assms obtain p where "p \<in> set (gs_projects s)" "of_project p t" by (auto simp: wf_store_def)
    with t(2) assms(2) show "\<exists>p \<in> set (gs_projects s). of_project p r"
      by (auto simp: calm_def of_project_def)
  qed
  moreover have "activeTasks (on_tasks P g s) p = 0" if "p \<in> set (gs_projects s)" "gp_state p = PAUSED" for p
    using assms(1) that by (intro active_calm [OF assms(2)]) (simp add: wf_store_def)
  ultimately show ?thesis using assms(1) unfolding wf_store_def tables_on_tasks by metis
qed

lemma wf_claim:
  assumes w: "wf_store s" and c: "claimable s cap t" "t \<in> set (gs_tasks s)" "worker \<noteq> []"
  shows "wf_store (on_task t (claimed worker lease at') s)"
proof -
  let ?g = "claimed worker lease at'"
  let ?P = "\<lambda>r. gt_id r = gt_id t \<and> gt_uid r = gt_uid t"
  let ?ts = "gs_tasks s"
  obtain p where p: "project_row s (gt_projectId t) (gt_uid t) = Some p" "runnable p"
    and none: "\<forall>r \<in> set ?ts. gt_projectId r = gt_projectId t \<longrightarrow> gt_status r \<noteq> RUNNING"
    using c(1) by (auto simp: claimable_def list_ex_iff split: option.splits)
  note pr = project_row_Some [OF p(1)]
  have d: "distinct (map gt_id ?ts)" "distinct (map gp_id (gs_projects s))" using w by (simp_all add: wf_store_def)
  have same: "r = t" if "r \<in> set ?ts" "gt_id r = gt_id t" for r
    using d(1) c(2) that by (intro by_id [of gt_id ?ts])
  have "running_in (on_tasks ?P ?g s) pid \<le> 1" for pid
  proof (cases "pid = gt_projectId t")
    case True
    have "length (filter (\<lambda>r. gt_projectId r = gt_projectId t \<and> gt_status r = RUNNING) (upd ?P ?g xs))
        \<le> length (filter (\<lambda>r. gt_id r = gt_id t) xs)" if "set xs \<subseteq> set ?ts" for xs
      using that none by (induction xs) (auto simp: claimed_def)
    with count_one_id [OF d(1), of "gt_id t"] True show ?thesis
      by (simp add: running_in_def) (meson le_trans order_refl)
  next
    case False
    have "filter (\<lambda>r. gt_projectId r = pid \<and> gt_status r = RUNNING) (upd ?P ?g xs)
        = filter (\<lambda>r. gt_projectId r = pid \<and> gt_status r = RUNNING) xs" if "set xs \<subseteq> set ?ts" for xs
      using that
    proof (induction xs)
      case (Cons x xs)
      then show ?case using same [of x] False by (cases "gt_id x = gt_id t") (auto simp: claimed_def)
    qed simp
    with w show ?thesis by (simp add: running_in_def wf_store_def)
  qed
  moreover have "activeTasks (on_tasks ?P ?g s) q = 0"
    if q: "q \<in> set (gs_projects s)" "gp_state q = PAUSED" for q
  proof -
    have "q = p" if "gp_id q = gt_projectId t"
      using d(2) pr q(1) that by (intro by_id [of gp_id "gs_projects s"]) simp_all
    then have "gp_id q \<noteq> gt_projectId t" using q(2) p(2) by (auto simp: runnable_def)
    moreover have "activeTasks s q = 0" using w q by (simp add: wf_store_def)
    moreover have "gt_projectId r = gt_projectId t" if "r \<in> set ?ts" "gt_id r = gt_id t" for r
      using same [OF that] by simp
    ultimately show ?thesis
      by (auto simp: activeTasks_def filter_empty_conv set_upd of_project_def claimed_def)
  qed
  moreover have "map gt_id (upd ?P ?g ?ts) = map gt_id ?ts" by (intro map_upd_same) (simp add: claimed_def)
  moreover have "(gt_status r = RUNNING \<longrightarrow> gt_workerId r \<noteq> [] \<and> 0 < gt_attempt r)
      \<and> (\<exists>p \<in> set (gs_projects s). of_project p r)" if r: "r \<in> set (upd ?P ?g ?ts)" for r
  proof -
    obtain x where x: "x \<in> set ?ts" "r = (if ?P x then ?g x else x)" using in_upd [OF r] by blast
    with w c(3) have "gt_status r = RUNNING \<longrightarrow> gt_workerId r \<noteq> [] \<and> 0 < gt_attempt r"
      by (auto simp: wf_store_def claimed_def)
    moreover obtain q where "q \<in> set (gs_projects s)" "of_project q x" using w x(1) unfolding wf_store_def by blast
    moreover have "of_project q r = of_project q x" using x(2) by (simp add: of_project_def claimed_def)
    ultimately show ?thesis by blast
  qed
  ultimately show ?thesis using d unfolding wf_store_def on_task_def tables_on_tasks
    by (intro conjI allI ballI impI) auto
qed

lemma wf_fresh:
  assumes "wf_store s" "p \<in> set (gs_projects s)" "\<not> has_task s tid"
  shows "wf_store (s\<lparr>gs_tasks := gs_tasks s @ [new_task tid p bid cap title payload acc prio att safe at']\<rparr>)"
  using assms
  by (auto simp: wf_store_def has_task_def list_ex_iff new_task_def running_in_def activeTasks_def of_project_def)

lemma wf_seed:
  assumes w: "wf_store s" and n: "\<forall>q \<in> set (gs_projects s). gp_id q \<noteq> gp_id p" and i: "gp_state p = IDEA"
  shows "wf_store (s\<lparr>gs_projects := gs_projects s @ [p]\<rparr>)"
  using assms by (auto simp: wf_store_def running_in_def activeTasks_def)

interpretation game_wf: store_safety "{}" wf_store "\<lambda>_. True" "\<lambda>_ _ _. True"
proof unfold_locales
  show "wf_store (move_project p st rs opn bl at' s)"
    if "wf_store s" "st = PAUSED \<longrightarrow> activeTasks s p = 0" for s p st rs opn bl at'
    unfolding move_project_def using that by (intro wf_on_project) auto
qed (auto intro: wf_quiet wf_on_project wf_on_tasks wf_claim wf_fresh wf_seed)

lemma wf_empty: "wf_store empty_store"
  by (simp add: wf_store_def empty_store_def running_in_def)

lemma wf_step: "wf_store s \<Longrightarrow> wf_store (gstep digest rdr s x)"
  by (cases x) (auto intro: game_wf.step_safe)

lemma wf_run: "wf_store s \<Longrightarrow> wf_store (grun digest rdr s ops)"
  unfolding grun_def by (induction ops arbitrary: s) (auto intro: wf_step)

section \<open>Late states\<close>

definition project_key :: "gproject \<Rightarrow> string \<times> string" where
  "project_key p = (gp_id p, gp_uid p)"

definition late_within :: "game_state set \<Rightarrow> (string \<times> string) set \<Rightarrow> gstore \<Rightarrow> bool" where
  "late_within X D s = (\<forall>p \<in> set (gs_projects s). late X p \<longrightarrow> project_key p \<in> D)"

text \<open>The four transitions on the way to a launch that ask for approvals, and the states behind each.\<close>

datatype release_gate = PlaytestGate | CandidateGate | PreparationGate | LaunchGate

fun gate_rank :: "release_gate \<Rightarrow> nat" where
  "gate_rank PlaytestGate = 0"
| "gate_rank CandidateGate = 1"
| "gate_rank PreparationGate = 2"
| "gate_rank LaunchGate = 3"

lemma gate_rank_inj: "gate_rank g = gate_rank h \<Longrightarrow> g = h"
  by (cases g; cases h) simp_all

instantiation release_gate :: linorder
begin

definition less_eq_release_gate :: "release_gate \<Rightarrow> release_gate \<Rightarrow> bool" where
  "less_eq_release_gate g h = (gate_rank g \<le> gate_rank h)"

definition less_release_gate :: "release_gate \<Rightarrow> release_gate \<Rightarrow> bool" where
  "less_release_gate g h = (gate_rank g < gate_rank h)"

instance
  by standard (auto simp: less_eq_release_gate_def less_release_gate_def intro: gate_rank_inj)

end

fun behind :: "release_gate \<Rightarrow> game_state set" where
  "behind PlaytestGate = {RELEASE_CANDIDATE, APPROVED, STORE_PREP, DEPLOYED}"
| "behind CandidateGate = {APPROVED, STORE_PREP, DEPLOYED}"
| "behind PreparationGate = {STORE_PREP, DEPLOYED}"
| "behind LaunchGate = {DEPLOYED}"

lemma late_on_project:
  assumes "late_within X D s" "\<And>r. is_row p r \<Longrightarrow> project_key (f r) = project_key r \<and> (late X (f r) \<longrightarrow> late X r \<or> project_key p \<in> D)"
  shows "late_within X D (on_project p f s)"
proof -
  have "project_key q \<in> D" if q: "q \<in> set (upd (is_row p) f (gs_projects s))" "late X q" for q
  proof -
    obtain r where r: "r \<in> set (gs_projects s)" "q = (if is_row p r then f r else r)" using in_upd [OF q(1)] by blast
    then have d: "late X r \<Longrightarrow> project_key r \<in> D" using assms(1) by (simp add: late_within_def)
    show ?thesis
    proof (cases "is_row p r")
      case True
      then have "project_key r = project_key p" by (simp add: is_row_def project_key_def)
      with True r(2) d q(2) assms(2) [OF True] show ?thesis by auto
    qed (use r(2) d q(2) in simp)
  qed
  then show ?thesis by (simp add: late_within_def)
qed

interpretation game_late: store_safety "behind g" "late_within (behind g) D"
  "\<lambda>p. late (behind g) p \<longrightarrow> project_key p \<in> D"
  "\<lambda>p st rs. st \<in> behind g \<or> rs \<in> Some ` behind g \<longrightarrow> late (behind g) p \<or> project_key p \<in> D" for g D
proof unfold_locales
  have e: "IDEA \<notin> behind g" by (cases g) simp_all
  show "behind g \<inter> {PAUSED, BLOCKED, FAILED, REVISION, IDEA} = {}" by (cases g) simp_all
  show "late_within (behind g) D (on_project p f s)" if "late_within (behind g) D s"
    "\<And>r. gp_id (f r) = gp_id r \<and> gp_uid (f r) = gp_uid r \<and> gp_state (f r) = gp_state r \<and> gp_resumeState (f r) = gp_resumeState r"
    for s f p
    using that by (intro late_on_project) (auto simp: project_key_def late_def)
  show "late_within (behind g) D (move_project p st rs opn bl at' s)" if "late_within (behind g) D s" "late (behind g) p \<longrightarrow> project_key p \<in> D"
    "st \<in> behind g \<or> rs \<in> Some ` behind g \<longrightarrow> late (behind g) p \<or> project_key p \<in> D" for s p st rs opn bl at'
    unfolding move_project_def using that
    by (intro late_on_project) (auto simp: project_key_def late_def)
  show "late_within (behind g) D (s\<lparr>gs_projects := gs_projects s @ [p]\<rparr>)"
    if "late_within (behind g) D s" "gp_state p = IDEA" "gp_resumeState p = None" for s p
    using that e by (auto simp: late_within_def late_def)
qed (auto simp: late_within_def on_task_def)

section \<open>Attempts that are over\<close>

definition attempt_over :: "string \<Rightarrow> nat \<Rightarrow> gstore \<Rightarrow> bool" where
  "attempt_over tid a s =
     (has_task s tid \<and> (\<forall>t \<in> set (gs_tasks s). gt_id t = tid \<longrightarrow>
        a < gt_attempt t \<or> gt_attempt t = a \<and> gt_status t \<noteq> RUNNING))"

lemma has_task_upd: "(\<And>t. gt_id (g t) = gt_id t) \<Longrightarrow> has_task (on_tasks P g s) tid = has_task s tid"
  by (auto simp: has_task_def list_ex_iff set_upd)

lemma over_on_tasks:
  assumes "attempt_over tid a s" "\<And>t. gt_id (g t) = gt_id t"
    "\<And>t. t \<in> set (gs_tasks s) \<Longrightarrow> P t \<Longrightarrow> gt_attempt t < gt_attempt (g t)
       \<or> gt_attempt (g t) = gt_attempt t \<and> (gt_status (g t) = RUNNING \<longrightarrow> gt_status t = RUNNING)"
  shows "attempt_over tid a (on_tasks P g s)"
proof -
  have "a < gt_attempt q \<or> gt_attempt q = a \<and> gt_status q \<noteq> RUNNING"
    if q: "q \<in> set (upd P g (gs_tasks s))" "gt_id q = tid" for q
  proof -
    obtain t where t: "t \<in> set (gs_tasks s)" "q = (if P t then g t else t)" using in_upd [OF q(1)] by blast
    with assms(2) q(2) have "gt_id t = tid" by (auto split: if_splits)
    with assms(1) t(1) have "a < gt_attempt t \<or> gt_attempt t = a \<and> gt_status t \<noteq> RUNNING"
      by (simp add: attempt_over_def)
    with t assms(3) [OF t(1)] show ?thesis by (auto split: if_splits)
  qed
  with assms(1,2) show ?thesis by (simp add: attempt_over_def has_task_upd)
qed

interpretation game_attempt: store_safety "{}" "attempt_over tid a" "\<lambda>_. True" "\<lambda>_ _ _. True" for tid a
proof unfold_locales
  show "attempt_over tid a s'" if "attempt_over tid a s" "gs_tasks s' = gs_tasks s" for s s'
    using that by (simp add: attempt_over_def has_task_def)
  show "attempt_over tid a (on_project p f s)" if "attempt_over tid a s" for s p f
    using that by (simp add: attempt_over_def has_task_def)
  show "attempt_over tid a (move_project p st rs opn bl at' s)" if "attempt_over tid a s" for s p st rs opn bl at'
    using that by (simp add: attempt_over_def has_task_def move_project_def)
  show "attempt_over tid a (on_tasks P g s)" if "attempt_over tid a s" "calm g" for s P g
    using that by (intro over_on_tasks) (auto simp: calm_def)
  show "attempt_over tid a (on_task t (claimed worker lease at') s)" if "attempt_over tid a s" for s t worker lease at'
    unfolding on_task_def using that by (intro over_on_tasks) (auto simp: claimed_def)
  show "attempt_over tid a (s\<lparr>gs_tasks := gs_tasks s @ [new_task i p bid cap title payload acc prio att safe at']\<rparr>)"
    if "attempt_over tid a s" "\<not> has_task s i" for s i p bid cap title payload acc prio att safe at'
    using that by (auto simp: attempt_over_def has_task_def list_ex_iff new_task_def)
  show "attempt_over tid a (s\<lparr>gs_projects := gs_projects s @ [p]\<rparr>)" if "attempt_over tid a s" for s p
    using that by (simp add: attempt_over_def has_task_def)
qed simp_all

lemma over_step: "attempt_over tid a s \<Longrightarrow> attempt_over tid a (gstep digest rdr s x)"
  by (cases x) (auto intro: game_attempt.step_safe)

lemma over_run: "attempt_over tid a s \<Longrightarrow> attempt_over tid a (grun digest rdr s ops)"
  unfolding grun_def by (induction ops arbitrary: s) (auto intro: over_step)

end
