(* ===== verification/GameProps.thy ===== *)
theory GameProps
  imports GameFacts
begin

text \<open>The properties of the game factory, each with a concrete run.\<close>

section \<open>One worker per game\<close>

lemma at_most_one: "length xs \<le> 1 \<Longrightarrow> x \<in> set xs \<Longrightarrow> y \<in> set xs \<Longrightarrow> x = y"
  by (cases xs) auto

text \<open>C12: whatever owners, workers, the security stop and the reconciler do, in whatever order, a game never has
  two running tasks; every running task has a worker and a positive attempt, belongs to a game of its own
  tenant, and that game is not paused; and no two tasks share an identifier.\<close>

theorem one_worker_per_game:
  assumes "wf_store s0" "s = grun digest rdr s0 ops"
  shows "distinct (map gt_id (gs_tasks s))
    \<and> (\<forall>t \<in> set (gs_tasks s). gt_status t = RUNNING \<longrightarrow>
         gt_workerId t \<noteq> [] \<and> 0 < gt_attempt t
         \<and> (\<forall>u \<in> set (gs_tasks s). gt_status u = RUNNING \<and> gt_projectId u = gt_projectId t \<longrightarrow> u = t)
         \<and> (\<exists>p \<in> set (gs_projects s). of_project p t \<and> gp_state p \<noteq> PAUSED))"
proof -
  have w: "wf_store s" using assms wf_run by simp
  have "u = t" if "t \<in> set (gs_tasks s)" "gt_status t = RUNNING" "u \<in> set (gs_tasks s)" "gt_status u = RUNNING"
    "gt_projectId u = gt_projectId t" for t u
  proof -
    let ?f = "filter (\<lambda>x. gt_projectId x = gt_projectId t \<and> gt_status x = RUNNING) (gs_tasks s)"
    have "length ?f \<le> 1" using w by (simp add: wf_store_def running_in_def)
    moreover have "t \<in> set ?f" "u \<in> set ?f" using that by simp_all
    ultimately show ?thesis by (rule at_most_one [symmetric])
  qed
  moreover have "\<exists>p \<in> set (gs_projects s). of_project p t \<and> gp_state p \<noteq> PAUSED"
    if t: "t \<in> set (gs_tasks s)" "gt_status t = RUNNING" for t
  proof -
    obtain p where p: "p \<in> set (gs_projects s)" "of_project p t" using w t(1) unfolding wf_store_def by blast
    then have "activeTasks s p \<noteq> 0" using t by (auto simp: activeTasks_def filter_empty_conv)
    with p w show ?thesis unfolding wf_store_def by metis
  qed
  ultimately show ?thesis using w unfolding wf_store_def by blast
qed

section \<open>The gates of a launch\<close>

fun gate_from :: "release_gate \<Rightarrow> game_state" where
  "gate_from PlaytestGate = PLAYTEST_READY"
| "gate_from CandidateGate = RELEASE_CANDIDATE"
| "gate_from PreparationGate = APPROVED"
| "gate_from LaunchGate = STORE_PREP"

fun gate_evidence :: "release_gate \<Rightarrow> evidence \<Rightarrow> bool" where
  "gate_evidence PlaytestGate ev = ev_playtestApproved ev"
| "gate_evidence CandidateGate ev = (ev_releaseCandidateApproved ev \<and> ev_qaReady ev)"
| "gate_evidence PreparationGate ev = (ev_artifactsComplete ev \<and> ev_legalAndPrivacyApproved ev)"
| "gate_evidence LaunchGate ev =
     (ev_storeSubmissionApproved ev \<and> ev_productionReleaseApproved ev \<and> ev_releaseReady ev)"

lemma enters_gate:
  "enters (behind g) rdr s row c st \<Longrightarrow> gp_state row = gate_from g \<and> gate_evidence g (rd_evidenceFor rdr s row)"
  by (cases g; cases "gp_state row"; cases st)
     (auto simp: enters_def Granted_iff allowedTransitions_def gate_refusal_def split: if_splits)

text \<open>Operation \<open>n\<close> of a run is a command on the game \<open>k\<close>, given where the gate \<open>g\<close> stands and with its evidence,
  and it takes the game past the gate for the first time.\<close>

definition passes_gate ::
  "(request \<Rightarrow> string) \<Rightarrow> readers \<Rightarrow> gstore \<Rightarrow> (ms \<times> gop) list \<Rightarrow> release_gate \<Rightarrow> string \<times> string \<Rightarrow> nat \<Rightarrow> bool" where
  "passes_gate digest rdr s0 ops g k n \<longleftrightarrow>
     n < length ops \<and> (\<exists>t aid who key rq row. ops ! n = (t, Command aid who key rq)
       \<and> project_row (grun digest rdr s0 (take n ops)) (rq_projectId rq) who = Some row \<and> project_key row = k
       \<and> gp_state row = gate_from g \<and> gate_evidence g (rd_evidenceFor rdr (grun digest rdr s0 (take n ops)) row))
     \<and> (\<forall>q \<in> set (gs_projects (grun digest rdr s0 (take n ops))). project_key q = k \<longrightarrow> \<not> late (behind g) q)
     \<and> (\<exists>q \<in> set (gs_projects (grun digest rdr s0 (take (Suc n) ops))). project_key q = k \<and> late (behind g) q)"

lemma passes_gate_take: "passes_gate digest rdr s0 (take m ops) g k n \<Longrightarrow> passes_gate digest rdr s0 ops g k n \<and> n < m"
  by (auto simp: passes_gate_def min_def split: if_splits)

lemma passes_gate_append: "passes_gate digest rdr s0 ops g k n \<Longrightarrow> passes_gate digest rdr s0 (ops @ xs) g k n"
  by (auto simp: passes_gate_def nth_append)

lemma gate_was_passed:
  assumes "\<forall>p \<in> set (gs_projects s0). \<not> late (behind g) p"
  shows "p \<in> set (gs_projects (grun digest rdr s0 ops)) \<Longrightarrow> late (behind g) p \<Longrightarrow>
    \<exists>n. passes_gate digest rdr s0 ops g (project_key p) n"
proof (induction ops arbitrary: p rule: rev_induct)
  case Nil
  with assms show ?case by (simp add: grun_def)
next
  case (snoc x ops)
  let ?s = "grun digest rdr s0 ops"
  obtain t y where x: "x = (t, y)" by (cases x)
  define E where "E = {k. \<exists>aid who key rq row st. y = Command aid who key rq
      \<and> project_row ?s (rq_projectId rq) who = Some row \<and> enters (behind g) rdr ?s row (rq_command rq) st
      \<and> k = project_key row}"
  define D where "D = {project_key q | q. q \<in> set (gs_projects ?s) \<and> late (behind g) q} \<union> E"
  have "late_within (behind g) D (gstep digest rdr ?s (t, y))"
  proof (rule game_late.step_safe)
    show "late_within (behind g) D ?s" by (auto simp: late_within_def D_def)
    show "st \<in> behind g \<or> None \<in> Some ` behind g \<longrightarrow> late (behind g) row \<or> project_key row \<in> D"
      if "y = Command aid who key rq" "project_row ?s (rq_projectId rq) who = Some row"
        "enters (behind g) rdr ?s row (rq_command rq) st" for aid who key rq row st
      using that unfolding D_def E_def by blast
  qed
  with snoc.prems x have "project_key p \<in> D" by (auto simp: late_within_def grun_def)
  then have D: "(\<exists>q \<in> set (gs_projects ?s). late (behind g) q \<and> project_key q = project_key p) \<or> project_key p \<in> E"
    by (auto simp: D_def)
  show ?case
  proof (cases "\<exists>q \<in> set (gs_projects ?s). late (behind g) q \<and> project_key q = project_key p")
    case True
    then show ?thesis using snoc.IH passes_gate_append by metis
  next
    case False
    with D obtain aid who key rq row st where c: "y = Command aid who key rq"
      "project_row ?s (rq_projectId rq) who = Some row" "enters (behind g) rdr ?s row (rq_command rq) st"
      "project_key row = project_key p"
      unfolding E_def by auto
    have "passes_gate digest rdr s0 (ops @ [x]) g (project_key p) (length ops)"
      using c enters_gate [OF c(3)] False snoc.prems x unfolding passes_gate_def by auto
    then show ?thesis ..
  qed
qed

lemma late_behind: "gp_state p = gate_from CandidateGate \<Longrightarrow> late (behind PlaytestGate) p"
  "gp_state p = gate_from PreparationGate \<Longrightarrow> late (behind CandidateGate) p"
  "gp_state p = gate_from LaunchGate \<Longrightarrow> late (behind PreparationGate) p"
  "gp_state p = DEPLOYED \<Longrightarrow> late (behind LaunchGate) p"
  by (simp_all add: late_def)

lemma late_mono: "late (behind g) p \<Longrightarrow> late (behind PlaytestGate) p"
  by (cases g) (auto simp: late_def)

lemma gate_before:
  assumes fresh: "\<forall>p \<in> set (gs_projects s0). \<not> late (behind PlaytestGate) p"
    and n: "passes_gate digest rdr s0 ops g' k n"
    and l: "\<And>p. gp_state p = gate_from g' \<Longrightarrow> late (behind g) p"
  shows "\<exists>m < n. passes_gate digest rdr s0 ops g k m"
proof -
  obtain row pid who where row: "project_row (grun digest rdr s0 (take n ops)) pid who = Some row"
    "project_key row = k" "gp_state row = gate_from g'"
    using n by (auto simp: passes_gate_def)
  have "\<forall>p \<in> set (gs_projects s0). \<not> late (behind g) p" using fresh late_mono by blast
  from gate_was_passed [OF this, of row digest rdr "take n ops"] project_row_Some [OF row(1)] l [OF row(3)] row(2)
  obtain m where "passes_gate digest rdr s0 (take n ops) g k m" by auto
  then show ?thesis using passes_gate_take by blast
qed

text \<open>C6: no launch around the gates.  In any run from a store in which no game has passed the playtest gate, a
  game that is deployed has been taken past the four gates by four commands, in this order: out of playtesting with a current playtest
  approval, out of release candidate with its approval and every test suite passed, out of approved with the
  artifacts complete and the legal approval, and out of store preparation with the submission approval, the
  production approval and the release ready.  Pausing, blocking, failing, retrying and revising do not lead around
  any of them.\<close>

theorem deployed_passed_every_gate:
  assumes "\<forall>p \<in> set (gs_projects s0). \<not> late (behind PlaytestGate) p"
    and "p \<in> set (gs_projects (grun digest rdr s0 ops))" "gp_state p = DEPLOYED"
  shows "\<exists>n :: release_gate \<Rightarrow> nat. strict_mono n \<and> (\<forall>g. passes_gate digest rdr s0 ops g (project_key p) (n g))"
proof -
  have "\<forall>p \<in> set (gs_projects s0). \<not> late (behind LaunchGate) p" using assms(1) late_mono by blast
  from gate_was_passed [OF this assms(2)] late_behind(4) assms(3)
  obtain n4 where n4: "passes_gate digest rdr s0 ops LaunchGate (project_key p) n4" by blast
  then obtain n3 where n3: "n3 < n4" "passes_gate digest rdr s0 ops PreparationGate (project_key p) n3"
    using gate_before [OF assms(1) n4 late_behind(3)] by blast
  then obtain n2 where n2: "n2 < n3" "passes_gate digest rdr s0 ops CandidateGate (project_key p) n2"
    using gate_before [OF assms(1) n3(2) late_behind(2)] by blast
  then obtain n1 where n1: "n1 < n2" "passes_gate digest rdr s0 ops PlaytestGate (project_key p) n1"
    using gate_before [OF assms(1) n2(2) late_behind(1)] by blast
  let ?n = "\<lambda>g. case g of PlaytestGate \<Rightarrow> n1 | CandidateGate \<Rightarrow> n2 | PreparationGate \<Rightarrow> n3 | LaunchGate \<Rightarrow> n4"
  have "strict_mono ?n"
    using n1(1) n2(1) n3(1)
    by (auto simp: strict_mono_def less_release_gate_def split: release_gate.splits)
  moreover have "passes_gate digest rdr s0 ops g (project_key p) (?n g)" for g
    using n1(2) n2(2) n3(2) n4 by (cases g) simp_all
  ultimately show ?thesis by blast
qed

text \<open>the gates in front of playtesting do not hold.  Whatever the evidence says, the rules let a game go from
  specification, or from architecture, into revision and from there straight to playtesting: with no approval of
  the specification or the visual system, and with no test suite passed.\<close>

theorem revision_leads_around_the_early_gates:
  assumes "s = SPECIFICATION \<or> s = ARCHITECTURE \<or> s = AUTOMATED_TESTING"
  shows "transitionDecision s r REVISION ev = Granted \<and> transitionDecision REVISION r' PLAYTEST_READY ev = Granted
    \<and> transitionDecision REVISION r' ASSET_GENERATION ev = Granted"
  using assms by (auto simp: Granted_iff allowedTransitions_def gate_refusal_def)

section \<open>An attempt answers once\<close>

lemma lease_check_over:
  assumes "attempt_over tid a s" "lease_check s who tid a worker = Inr t" shows False
  using assms
  by (auto simp: lease_check_def attempt_over_def split: option.splits if_splits dest!: task_row_Some)

lemma lease_check_Inl: "lease_check s who tid a worker = Inl r \<Longrightarrow> rs_status r \<noteq> 200"
  by (auto simp: lease_check_def reply_code_def split: option.splits if_splits)

lemma over_refused:
  assumes "attempt_over tid a s"
  shows "rs_status (fst (completeTask who tid w a st b ck t s)) \<noteq> 200 \<and> snd (completeTask who tid w a st b ck t s) = s"
    "rs_status (fst (failTask who tid w a err rt t s)) \<noteq> 200 \<and> snd (failTask who tid w a err rt t s) = s"
    "rs_status (fst (heartbeatTask who tid w a l t s)) \<noteq> 200 \<and> snd (heartbeatTask who tid w a l t s) = s"
  using lease_check_over [OF assms] lease_check_Inl
  by (auto simp: completeTask_def failTask_def heartbeatTask_def split: sum.splits)

lemma finish_over:
  assumes "wf_store s" "t \<in> set (gs_tasks s)" "st \<noteq> RUNNING"
  shows "attempt_over (gt_id t) (gt_attempt t) (on_task t (finish_task st r at') s)"
proof -
  have same: "x = t" if "x \<in> set (gs_tasks s)" "gt_id x = gt_id t" for x
    using assms(1,2) that by (intro by_id [of gt_id "gs_tasks s"]) (simp_all add: wf_store_def)
  have "gt_attempt q = gt_attempt t \<and> gt_status q \<noteq> RUNNING"
    if q: "q \<in> set (gs_tasks (on_task t (finish_task st r at') s))" "gt_id q = gt_id t" for q
  proof -
    have "q \<in> set (upd (\<lambda>x. gt_id x = gt_id t \<and> gt_uid x = gt_uid t) (finish_task st r at') (gs_tasks s))"
      using q(1) by (simp add: on_task_def)
    from in_upd [OF this] obtain x where x: "x \<in> set (gs_tasks s)"
      "q = (if gt_id x = gt_id t \<and> gt_uid x = gt_uid t then finish_task st r at' x else x)" by blast
    moreover from x(2) q(2) have "gt_id x = gt_id t" by (auto simp: finish_task_def close_task_def split: if_splits)
    ultimately show ?thesis using same [of x] assms(3) by (simp add: finish_task_def close_task_def)
  qed
  moreover have "has_task (on_task t (finish_task st r at') s) (gt_id t)"
    using assms(2) unfolding on_task_def
    by (subst has_task_upd) (auto simp: finish_task_def close_task_def has_task_def list_ex_iff)
  ultimately show ?thesis by (simp add: attempt_over_def)
qed

lemma lease_check_Inr:
  "lease_check s who tid a worker = Inr t \<Longrightarrow> t \<in> set (gs_tasks s) \<and> gt_id t = tid \<and> gt_attempt t = a"
  by (auto simp: lease_check_def split: option.splits if_splits dest!: task_row_Some)

lemma complete_over:
  assumes "wf_store s" "rs_status (fst (completeTask who tid worker a st b ck t s)) = 200"
  shows "attempt_over tid a (snd (completeTask who tid worker a st b ck t s))"
proof -
  obtain x where x: "lease_check s who tid a worker = Inr x"
    using assms(2) lease_check_Inl by (auto simp: completeTask_def split: sum.splits)
  obtain p where p: "task_project s x = Some p"
    using assms(2) x by (auto simp: completeTask_def reply_code_def split: option.splits)
  have "attempt_over tid a (on_task x (finish_task st' r t) s)" if "st' \<noteq> RUNNING" for st' r
    using finish_over [OF assms(1) _ that] lease_check_Inr [OF x] by blast
  then show ?thesis
    unfolding completeTask_def x p Let_def
    by (auto simp: x p case_prod_beta intro!: game_attempt.settle_keeps game_attempt.emit_keeps game_attempt.checkpoint_keeps)
qed

lemma fail_over:
  assumes "wf_store s" "rs_status (fst (failTask who tid worker a err rt t s)) = 200"
  shows "attempt_over tid a (snd (failTask who tid worker a err rt t s))"
proof -
  obtain x where x: "lease_check s who tid a worker = Inr x"
    using assms(2) lease_check_Inl by (auto simp: failTask_def split: sum.splits)
  obtain p where p: "task_project s x = Some p" and w: "worker \<noteq> []"
    using assms(2) x by (auto simp: failTask_def reply_code_def split: option.splits if_splits)
  have "attempt_over tid a (on_task x (finish_task st' r at') s)" if "st' \<noteq> RUNNING" for st' r at'
    using finish_over [OF assms(1) _ that] lease_check_Inr [OF x] by blast
  then show ?thesis
    unfolding failTask_def x p Let_def
    by (auto simp: x p w intro!: game_attempt.unconfirmed_safe game_attempt.project_failed game_attempt.emit_keeps)
qed

text \<open>C13: an attempt answers once.  After a worker's completion or failure of an attempt has been accepted, no later
  heartbeat, completion or failure for this attempt is accepted or changes anything, from whichever worker it
  comes and whatever happened in between: the task may have been claimed again, paused, resumed or reconciled.\<close>

theorem an_attempt_answers_once:
  assumes "wf_store s"
    and "rs_status (fst (completeTask who tid worker a st b ck t s)) = 200
         \<and> s1 = snd (completeTask who tid worker a st b ck t s)
       \<or> rs_status (fst (failTask who tid worker a err rt t s)) = 200
         \<and> s1 = snd (failTask who tid worker a err rt t s)"
    and "s2 = grun digest rdr s1 ops"
  shows "rs_status (fst (completeTask who' tid w a st' b' ck' t' s2)) \<noteq> 200
    \<and> snd (completeTask who' tid w a st' b' ck' t' s2) = s2
    \<and> rs_status (fst (failTask who' tid w a err' rt' t' s2)) \<noteq> 200 \<and> snd (failTask who' tid w a err' rt' t' s2) = s2
    \<and> rs_status (fst (heartbeatTask who' tid w a l t' s2)) \<noteq> 200 \<and> snd (heartbeatTask who' tid w a l t' s2) = s2"
proof -
  have "attempt_over tid a s1" using assms(1,2) complete_over fail_over by blast
  then have "attempt_over tid a s2" using assms(3) over_run by simp
  from over_refused(1) [OF this, of who' w st' b' ck' t'] over_refused(2) [OF this, of who' w err' rt' t']
    over_refused(3) [OF this, of who' w l t']
  show ?thesis by simp
qed

end
