(* ===== verification/GameCommands.thy ===== *)
theory GameCommands
  imports GameFacts
begin

text \<open>
  Commands of an owner over time: a key is used once, a pause that waits for a worker takes hold, and
  pausing and resuming give back the game.
\<close>

section \<open>The table of commands\<close>

lemma commands_primitive [simp]:
  "gs_commands (move_project p st rs opn bl t s) = gs_commands s"
  "gs_commands (invalidate_approvals p P t s) = gs_commands s"
  "gs_commands (createCheckpoint p i r t s) = gs_commands s"
  "gs_commands (request_operation p opn t s) = gs_commands s"
  "gs_commands (on_task x g s) = gs_commands s"
  by (simp_all add: move_project_def invalidate_approvals_def createCheckpoint_def request_operation_def on_task_def)

lemma commands_finalize [simp]:
  "gs_commands (snd (finalizePause p r t s)) = gs_commands s" "gs_commands (snd (finalizeStop p r t s)) = gs_commands s"
  by (simp_all add: finalizePause_def finalizeStop_def Let_def)

lemma commands_composed [simp]:
  "gs_commands (snd (settle_operation p a b t s)) = gs_commands s"
  "gs_commands (fail_project p st bl t s) = gs_commands s"
  "gs_commands (unconfirmed p pausing bl t s) = gs_commands s"
  "gs_commands (invalidateMaterialChange p rs t s) = gs_commands s"
  by (simp_all add: settle_operation_def fail_project_def unconfirmed_def invalidateMaterialChange_def Let_def)

lemma commands_run [simp]: "gs_commands (snd (run_command rdr aid c row t s)) = gs_commands s"
  by (cases c)
     (auto simp: run_command_def cmd_transition_def cmd_pause_def cmd_resume_def cmd_stop_def cmd_retry_def
       cmd_revise_def cmd_block_def cmd_attach_def cmd_decide_def Let_def
       split: option.splits target.splits transition_decision.splits sum.splits)

lemma commands_tasks [simp]:
  "gs_commands (snd (createBuild bid who pid c t s)) = gs_commands s"
  "gs_commands (snd (updateBuildStatus who pid bid st t s)) = gs_commands s"
  "gs_commands (snd (queueTask tid who pid q t s)) = gs_commands s"
  "gs_commands (snd (claimNextTask worker cap lease t s)) = gs_commands s"
  "gs_commands (snd (heartbeatTask who tid worker a l t s)) = gs_commands s"
  "gs_commands (snd (failTask who tid worker a err rt t s)) = gs_commands s"
  by (auto simp: createBuild_def updateBuildStatus_def queueTask_def claimNextTask_def heartbeatTask_def
      failTask_def Let_def split: option.splits sum.splits)

lemma commands_complete [simp]: "gs_commands (snd (completeTask who tid worker a st b ck t s)) = gs_commands s"
  by (auto simp: completeTask_def Let_def case_prod_beta split: option.splits sum.splits)

lemma commands_security [simp]: "gs_commands (snd (securityStopTask who tid a reason t s)) = gs_commands s"
  by (auto simp: securityStopTask_def Let_def split: option.splits)

lemma commands_reconcile [simp]: "gs_commands (reconcile_leases limit t s) = gs_commands s"
proof -
  have "gs_commands (expire_one t s x) = gs_commands s" for s x
    by (auto simp: expire_one_def Let_def split: option.splits)
  then have a: "gs_commands (foldl (expire_one t) s xs) = gs_commands s" for xs s
    by (induction xs arbitrary: s) simp_all
  have "gs_commands (settle_one t s p) = gs_commands s" for s p by (simp add: settle_one_def Let_def)
  then have "gs_commands (foldl (settle_one t) s ps) = gs_commands s" for ps s
    by (induction ps arbitrary: s) simp_all
  with a show ?thesis by (simp add: reconcile_leases_def Let_def)
qed

lemma commands_seed [simp]: "gs_commands (seedPortfolio uid t s) = gs_commands s"
proof -
  have "gs_commands (seed_one who t s item) = gs_commands s" for who item s by (simp add: seed_one_def Let_def)
  then have "gs_commands (foldl (seed_one who t) s items) = gs_commands s" for who items
    by (induction items arbitrary: s) simp_all
  then show ?thesis by (simp add: seedPortfolio_def)
qed

lemma commands_save [simp]:
  "gs_commands (snd (saveCommand who key h x)) = gs_commands (snd x) @ [((who, key), (h, fst x))]"
  by (simp add: saveCommand_def)

lemma save_row: "(r, s1) = saveCommand who key h x \<Longrightarrow> gs_commands s1 = gs_commands (snd x) @ [((who, key), (h, r))]"
  by (simp add: saveCommand_def)

lemma execute_keeps:
  "map_of (gs_commands s) k = Some v \<Longrightarrow>
     map_of (gs_commands (snd (executeCommand digest rdr aid who key rq t s))) k = Some v"
  by (auto simp: executeCommand_def split: option.splits)

lemma canary_keeps:
  "map_of (gs_commands s) k = Some v \<Longrightarrow>
     map_of (gs_commands (snd (queueSyntheticCanary h tid who key pid t s))) k = Some v"
  by (auto simp: queueSyntheticCanary_def split: option.splits)

lemma step_keeps: "map_of (gs_commands s) k = Some v \<Longrightarrow> map_of (gs_commands (gstep digest rdr s (t, x))) k = Some v"
  by (cases x) (simp_all add: execute_keeps canary_keeps)

lemma run_keeps: "map_of (gs_commands s) k = Some v \<Longrightarrow> map_of (gs_commands (grun digest rdr s ops)) k = Some v"
  unfolding grun_def by (induction ops arbitrary: s) (auto intro: step_keeps)

lemma execute_saves:
  assumes "who \<noteq> []" "key \<noteq> []" "map_of (gs_commands s) (who, key) = None"
    "executeCommand digest rdr aid who key rq t s = (r, s1)"
  shows "map_of (gs_commands s1) (who, key) = Some (digest rq, r)"
proof -
  let ?x = "case project_row s (rq_projectId rq) who of
      None \<Rightarrow> (reply_code 404 ''not_found'', s)
    | Some row \<Rightarrow> (case rq_expectedVersion rq of
        Some v \<Rightarrow> if v \<noteq> gp_version row then (reply_code 409 ''version_conflict'', s)
                  else run_command rdr aid (rq_command rq) row t s
      | None \<Rightarrow> run_command rdr aid (rq_command rq) row t s)"
  have "(r, s1) = saveCommand who key (digest rq) ?x"
    using assms by (simp add: executeCommand_def)
  moreover have "gs_commands (snd ?x) = gs_commands s" by (simp split: option.splits)
  ultimately have "gs_commands s1 = gs_commands s @ [((who, key), (digest rq, r))]"
    by (simp add: save_row)
  with assms(3) show ?thesis by (simp add: map_add_def)
qed

text \<open>a command takes effect once.  Once a command was given under a fresh key, giving it again at any later
  time, whatever happened in between, answers what it answered then, marked as a replay, and changes
  nothing; a different request under the same key is a conflict and changes nothing.\<close>

theorem command_takes_effect_once:
  assumes "who \<noteq> []" "key \<noteq> []" "map_of (gs_commands s) (who, key) = None"
    and "executeCommand digest rdr aid who key rq t s = (r, s1)" "s2 = grun digest rdr s1 ops"
  shows "executeCommand digest rdr' aid' who key rq t' s2 = (r\<lparr>rs_replayed := True\<rparr>, s2)
    \<and> (digest rq' \<noteq> digest rq \<longrightarrow>
         executeCommand digest rdr' aid' who key rq' t' s2 = (reply_code 409 ''idempotency_conflict'', s2))"
  using run_keeps [OF execute_saves [OF assms(1-4)], of digest rdr ops] assms(1,2,5)
  by (simp add: executeCommand_def)

section \<open>Reading rows back\<close>

lemma find_upd:
  assumes "\<And>r. key (f r) = key r"
  shows "find (\<lambda>r. key r = k) (upd P f rs) = map_option (\<lambda>r. if P r then f r else r) (find (\<lambda>r. key r = k) rs)"
  using assms by (induction rs) auto

lemma project_row_find: "project_row s pid uid = find (\<lambda>p. project_key p = (pid, uid)) (gs_projects s)"
  by (simp add: project_row_def project_key_def)

lemma row_on_project:
  assumes "\<And>r. project_key (f r) = project_key r" "project_row s (gp_id p) (gp_uid p) = Some q"
  shows "project_row (on_project p f s) (gp_id p) (gp_uid p) = Some (f q)"
proof -
  have "is_row p q" using project_row_Some [OF assms(2)] by (simp add: is_row_def)
  then show ?thesis using assms unfolding project_row_find by (simp add: find_upd [of project_key])
qed

lemma row_other [simp]:
  "project_row (emit_event p ty a b t s) = project_row s" "project_row (on_tasks P g s) = project_row s"
  "project_row (createCheckpoint p i r t s) = project_row s"
  by (rule ext; rule ext; simp add: project_row_def)+

lemma reread_Some: "project_row s (gp_id p) (gp_uid p) = Some q \<Longrightarrow> reread s p = q"
  by (simp add: reread_def)

definition pause_queued :: "gproject \<Rightarrow> ms \<Rightarrow> gtask list \<Rightarrow> gtask list" where
  "pause_queued p t ts = upd (\<lambda>x. of_project p x \<and> gt_status x \<in> {QUEUED, CANCEL_REQUESTED}) (close_task T_PAUSED t) ts"

lemma finalizePause_idle:
  assumes "activeTasks s p = 0" "project_row s (gp_id p) (gp_uid p) = Some q"
  shows "\<exists>s' c. finalizePause p reason t s = (True, s')
    \<and> project_row s' (gp_id p) (gp_uid p) =
        Some (q\<lparr>gp_state := PAUSED, gp_resumeState := resume_point q, gp_operation := OP_PAUSED, gp_blocker := [],
               gp_version := gp_version q + 1, gp_updatedAt := t\<rparr>)
    \<and> gs_tasks s' = pause_queued p t (gs_tasks s)
    \<and> gs_checkpoints s' = gs_checkpoints s @ [c] \<and> ck_projectId c = gp_id p \<and> ck_uid c = gp_uid p
    \<and> ck_compatible c \<and> ck_buildId c = gp_activeBuildId q \<and> ck_createdAt c = t"
proof -
  note k = project_row_Some [OF assms(2)]
  have o: "of_project q = of_project p" using k by (simp add: of_project_def fun_eq_iff)
  let ?s2 = "on_tasks (\<lambda>x. of_project q x \<and> gt_status x \<in> {QUEUED, CANCEL_REQUESTED}) (close_task T_PAUSED t)
    (createCheckpoint q [] reason t s)"
  have "project_row ?s2 (gp_id q) (gp_uid q) = Some q" using assms(2) k by simp
  from row_on_project [OF _ this] k
  have "project_row (move_project q PAUSED (resume_point q) OP_PAUSED [] t ?s2) (gp_id p) (gp_uid p) =
      Some (q\<lparr>gp_state := PAUSED, gp_resumeState := resume_point q, gp_operation := OP_PAUSED, gp_blocker := [],
             gp_version := gp_version q + 1, gp_updatedAt := t\<rparr>)"
    by (simp add: move_project_def project_key_def)
  then show ?thesis
    using assms k
    by (simp add: finalizePause_def Let_def reread_Some o pause_queued_def move_project_def createCheckpoint_def
        emit_event_def on_project_def on_tasks_def project_row_def)
qed

section \<open>Pausing and resuming\<close>

lemma sort_key_least:
  fixes f :: "'a \<Rightarrow> 'b::linorder"
  assumes "n \<in> set xs" "\<And>x. x \<in> set xs \<Longrightarrow> x = n \<or> f n < f x"
  shows "\<exists>r. sort_key f xs = n # r"
proof (cases "sort_key f xs")
  case Nil
  then have "set xs = {}" by (metis set_empty set_sort)
  with assms(1) show ?thesis by simp
next
  case (Cons y r)
  then have y: "y \<in> set xs" by (metis list.set_intros(1) set_sort)
  have "sorted (map f (y # r))" using sorted_sort_key [of f xs] Cons by simp
  moreover have "n \<in> set (y # r)" using assms(1) Cons by (metis set_sort)
  ultimately have "f y \<le> f n" by auto
  with assms(2) [OF y] Cons show ?thesis by (auto dest: leD)
qed

lemma latestCheckpoint_new:
  assumes "gs_checkpoints s = cs @ [c]" "ck_projectId c = gp_id p" "ck_uid c = gp_uid p" "ck_compatible c"
    "\<And>x. x \<in> set cs \<Longrightarrow> ck_createdAt x < ck_createdAt c"
  shows "latestCheckpoint s p = Some c"
proof -
  let ?xs = "filter (\<lambda>c. ck_projectId c = gp_id p \<and> ck_uid c = gp_uid p \<and> ck_compatible c) (gs_checkpoints s)"
  obtain r where "sort_key (\<lambda>c. - ck_createdAt c) ?xs = c # r"
    using sort_key_least [of c ?xs "\<lambda>c. - ck_createdAt c"] assms by auto
  then show ?thesis by (simp add: latestCheckpoint_def)
qed

lemma no_active_requested:
  assumes "activeTasks s p = 0"
  shows "gs_tasks (request_operation p opn t s) = gs_tasks s"
proof -
  have "upd P g ts = ts" if "\<forall>x \<in> set ts. \<not> P x" for P g and ts :: "gtask list"
    using that by (induction ts) auto
  then show ?thesis using assms by (simp add: request_operation_def activeTasks_def filter_empty_conv)
qed

lemma row_requested:
  assumes "project_row s (gp_id p) (gp_uid p) = Some p"
  shows "project_row (request_operation p opn t s) (gp_id p) (gp_uid p) =
    Some (p\<lparr>gp_operation := opn, gp_version := gp_version p + 1, gp_updatedAt := t\<rparr>)"
  using row_on_project [OF _ assms] by (simp add: request_operation_def project_key_def)

lemma pause_idle:
  assumes "project_row s (gp_id p) (gp_uid p) = Some p" "\<not> is_hold (gp_state p)" "gp_state p \<noteq> DEPLOYED"
    "activeTasks s p = 0"
  shows "\<exists>s' c q. cmd_pause p t s = (ok_with 200 q, s') \<and> project_row s' (gp_id p) (gp_uid p) = Some q
    \<and> gp_state q = PAUSED \<and> gp_resumeState q = Some (gp_state p) \<and> gp_activeBuildId q = gp_activeBuildId p
    \<and> gp_id q = gp_id p \<and> gp_uid q = gp_uid p
    \<and> gs_tasks s' = pause_queued p t (gs_tasks s)
    \<and> gs_checkpoints s' = gs_checkpoints s @ [c] \<and> ck_projectId c = gp_id p \<and> ck_uid c = gp_uid p
    \<and> ck_compatible c \<and> ck_buildId c = gp_activeBuildId p \<and> ck_createdAt c = t"
proof -
  let ?q = "p\<lparr>gp_operation := PAUSE_REQUESTED, gp_version := gp_version p + 1, gp_updatedAt := t\<rparr>"
  let ?s2 = "emit_event p ''project.pause_requested'' None None t (request_operation p PAUSE_REQUESTED t s)"
  have row: "project_row ?s2 (gp_id p) (gp_uid p) = Some ?q" using row_requested [OF assms(1)] by simp
  have ts: "gs_tasks ?s2 = gs_tasks s" using no_active_requested [OF assms(4)] by simp
  have cs: "gs_checkpoints ?s2 = gs_checkpoints s" by (simp add: request_operation_def)
  have "activeTasks ?s2 ?q = 0" using assms(4) ts by (simp add: activeTasks_def of_project_def)
  from finalizePause_idle [OF this, of ?q "''pause requested''" t] row
  obtain s' c where f: "finalizePause ?q ''pause requested'' t ?s2 = (True, s')"
    "project_row s' (gp_id p) (gp_uid p) =
      Some (?q\<lparr>gp_state := PAUSED, gp_resumeState := resume_point ?q, gp_operation := OP_PAUSED, gp_blocker := [],
               gp_version := gp_version ?q + 1, gp_updatedAt := t\<rparr>)"
    "gs_tasks s' = pause_queued ?q t (gs_tasks s)"
    "gs_checkpoints s' = gs_checkpoints s @ [c]" "ck_projectId c = gp_id p" "ck_uid c = gp_uid p"
    "ck_compatible c" "ck_buildId c = gp_activeBuildId p" "ck_createdAt c = t"
    unfolding ts cs by auto
  have "pause_queued ?q t = pause_queued p t" by (simp add: pause_queued_def fun_eq_iff of_project_def)
  moreover have "gp_state p \<noteq> PAUSED" using assms(2) by auto
  moreover have "reread s' p = the (project_row s' (gp_id p) (gp_uid p))" using f(2) by (simp add: reread_def)
  ultimately show ?thesis
    using f assms(2-4) reread_Some [OF row]
    by (simp add: cmd_pause_def Let_def resume_point_def ok_with_def reply_code_def)
qed

definition requeue :: "gproject \<Rightarrow> gtask list \<Rightarrow> gtask list" where
  "requeue p ts = upd (\<lambda>x. of_project p x \<and> gt_status x = T_PAUSED)
     (\<lambda>x. x\<lparr>gt_status := QUEUED, gt_cancelRequested := False, gt_endedAt := 0\<rparr>) ts"

lemma resume_paused:
  assumes "project_row s (gp_id p) (gp_uid p) = Some p" "gp_state p = PAUSED" "gp_resumeState p = Some r"
    "\<not> is_hold r" "latestCheckpoint s p = Some c" "ck_buildId c = gp_activeBuildId p"
  shows "\<exists>s'. cmd_resume p t s = (ok_with 200 (p\<lparr>gp_state := r, gp_resumeState := None, gp_operation := NoOperation,
        gp_blocker := [], gp_version := gp_version p + 1, gp_updatedAt := t\<rparr>), s')
    \<and> project_row s' (gp_id p) (gp_uid p) = Some (p\<lparr>gp_state := r, gp_resumeState := None,
        gp_operation := NoOperation, gp_blocker := [], gp_version := gp_version p + 1, gp_updatedAt := t\<rparr>)
    \<and> gs_tasks s' = requeue p (gs_tasks s)"
proof -
  let ?s1 = "on_tasks (\<lambda>t. of_project p t \<and> gt_status t = T_PAUSED)
    (\<lambda>t. t\<lparr>gt_status := QUEUED, gt_cancelRequested := False, gt_endedAt := 0\<rparr>) s"
  let ?q = "p\<lparr>gp_state := r, gp_resumeState := None, gp_operation := NoOperation, gp_blocker := [],
    gp_version := gp_version p + 1, gp_updatedAt := t\<rparr>"
  have "project_row ?s1 (gp_id p) (gp_uid p) = Some p" using assms(1) by simp
  from row_on_project [OF _ this]
  have row: "project_row (move_project p r None NoOperation [] t ?s1) (gp_id p) (gp_uid p) = Some ?q"
    by (simp add: move_project_def project_key_def)
  then have "reread (emit_event p ''project.resumed'' None (Some r) t (move_project p r None NoOperation [] t ?s1)) p = ?q"
    by (simp add: reread_def)
  with row assms show ?thesis by (simp add: cmd_resume_def Let_def requeue_def move_project_def)
qed

lemma requeue_paused:
  assumes "\<forall>x \<in> set ts. of_project p x \<longrightarrow> gt_status x \<noteq> RUNNING"
  shows "list_all2 (\<lambda>x y. gt_id y = gt_id x \<and> gt_attempt y = gt_attempt x \<and>
      gt_status y = (if of_project p x \<and> gt_status x \<in> {QUEUED, CANCEL_REQUESTED, T_PAUSED} then QUEUED
                     else gt_status x)) ts (requeue p (pause_queued p t ts))"
  using assms by (induction ts) (auto simp: requeue_def pause_queued_def close_task_def of_project_def)

text \<open>C15: pausing and resuming give back the game.  A game that is neither held nor deployed and has no running
  task, paused at a time after all checkpoints of the store, is paused at once; resumed, it stands in the state it was
  paused in, with its build and with no pending request; every task that waited, was paused or was about to be
  cancelled is queued, and every other task is as it was, with the same attempts.\<close>

theorem pause_resume_round_trip:
  assumes "project_row s (gp_id p) (gp_uid p) = Some p" "\<not> is_hold (gp_state p)" "gp_state p \<noteq> DEPLOYED"
    and "activeTasks s p = 0" "\<forall>c \<in> set (gs_checkpoints s). ck_createdAt c < t1"
    and "(r1, s1) = cmd_pause p t1 s" "project_row s1 (gp_id p) (gp_uid p) = Some p1" "(r2, s2) = cmd_resume p1 t2 s1"
  shows "rs_status r1 = 200 \<and> gp_state p1 = PAUSED \<and> rs_status r2 = 200
    \<and> (\<exists>p2. project_row s2 (gp_id p) (gp_uid p) = Some p2 \<and> gp_state p2 = gp_state p \<and> gp_resumeState p2 = None
          \<and> gp_operation p2 = NoOperation \<and> gp_activeBuildId p2 = gp_activeBuildId p)
    \<and> list_all2 (\<lambda>x y. gt_id y = gt_id x \<and> gt_attempt y = gt_attempt x \<and>
        gt_status y = (if of_project p x \<and> gt_status x \<in> {QUEUED, CANCEL_REQUESTED, T_PAUSED} then QUEUED
                       else gt_status x)) (gs_tasks s) (gs_tasks s2)"
proof -
  obtain c where q: "r1 = ok_with 200 p1" "gp_state p1 = PAUSED" "gp_resumeState p1 = Some (gp_state p)"
    "gp_activeBuildId p1 = gp_activeBuildId p" "gp_id p1 = gp_id p" "gp_uid p1 = gp_uid p"
    "gs_tasks s1 = pause_queued p t1 (gs_tasks s)"
    and c: "gs_checkpoints s1 = gs_checkpoints s @ [c]" "ck_projectId c = gp_id p" "ck_uid c = gp_uid p"
      "ck_compatible c" "ck_buildId c = gp_activeBuildId p" "ck_createdAt c = t1"
    using pause_idle [OF assms(1-4), of t1] assms(6,7) by auto
  have "latestCheckpoint s1 p1 = Some c" using c q assms(5) by (intro latestCheckpoint_new) auto
  from resume_paused [OF _ q(2,3) assms(2) this, of t2] assms(7,8) q c(5)
  obtain p2 where p2: "rs_status r2 = 200" "project_row s2 (gp_id p) (gp_uid p) = Some p2" "gp_state p2 = gp_state p"
    "gp_resumeState p2 = None" "gp_operation p2 = NoOperation" "gp_activeBuildId p2 = gp_activeBuildId p"
    "gs_tasks s2 = requeue p1 (gs_tasks s1)"
    by (auto simp: ok_with_def reply_code_def)
  have "requeue p1 = requeue p" using q by (simp add: requeue_def of_project_def fun_eq_iff)
  moreover have "\<forall>x \<in> set (gs_tasks s). of_project p x \<longrightarrow> gt_status x \<noteq> RUNNING"
    using assms(4) by (auto simp: activeTasks_def filter_empty_conv)
  ultimately show ?thesis using requeue_paused p2 q by (auto simp: ok_with_def reply_code_def)
qed

section \<open>A pause waits for the worker\<close>

lemma find_mapped:
  assumes "distinct (map gt_id ts)" "x \<in> set ts" "gt_uid x = u" "\<And>r. gt_id (g r) = gt_id r \<and> gt_uid (g r) = gt_uid r"
  shows "find (\<lambda>r. gt_id r = gt_id x \<and> gt_uid r = u) (upd P g ts) = Some (if P x then g x else x)"
  using assms by (induction ts) (auto simp: image_iff)

lemma only_running:
  assumes "wf_store s" "x \<in> set (gs_tasks s)" "gt_status x = RUNNING" "of_project p x"
    "y \<in> set (gs_tasks s)" "gt_status y = RUNNING" "of_project p y"
  shows "y = x"
proof -
  let ?f = "filter (\<lambda>z. gt_projectId z = gp_id p \<and> gt_status z = RUNNING) (gs_tasks s)"
  have "length ?f \<le> 1" using assms(1) by (simp add: wf_store_def running_in_def)
  moreover have "x \<in> set ?f" "y \<in> set ?f" using assms by (simp_all add: of_project_def)
  ultimately show ?thesis by (cases ?f) auto
qed

lemma finished_idle:
  assumes w: "wf_store s" and x: "x \<in> set (gs_tasks s)" "gt_status x = RUNNING" "of_project p x"
    and st: "st \<noteq> RUNNING"
    and ts: "gs_tasks s' = upd (\<lambda>r. gt_id r = gt_id x \<and> gt_uid r = gt_uid x) (finish_task st res t)
      (upd (\<lambda>r. of_project p r \<and> gt_status r = RUNNING) (\<lambda>r. r\<lparr>gt_cancelRequested := True\<rparr>) (gs_tasks s))"
  shows "activeTasks s' p = 0"
proof -
  have "\<not> (of_project p y \<and> gt_status y = RUNNING)" if y: "y \<in> set (gs_tasks s')" for y
  proof
    assume a: "of_project p y \<and> gt_status y = RUNNING"
    obtain z where z: "z \<in> set (upd (\<lambda>r. of_project p r \<and> gt_status r = RUNNING) (\<lambda>r. r\<lparr>gt_cancelRequested := True\<rparr>) (gs_tasks s))"
      "y = (if gt_id z = gt_id x \<and> gt_uid z = gt_uid x then finish_task st res t z else z)"
      using in_upd [OF y [unfolded ts]] by blast
    with a st have n: "\<not> (gt_id z = gt_id x \<and> gt_uid z = gt_uid x)" "y = z"
      by (auto simp: finish_task_def close_task_def split: if_splits)
    obtain v where "v \<in> set (gs_tasks s)" "z = (if of_project p v \<and> gt_status v = RUNNING then v\<lparr>gt_cancelRequested := True\<rparr> else v)"
      using in_upd [OF z(1)] by blast
    with a n(2) have v: "v \<in> set (gs_tasks s)" "of_project p v" "gt_status v = RUNNING" "gt_id z = gt_id v" "gt_uid z = gt_uid v"
      by (auto simp: of_project_def split: if_splits)
    from only_running [OF w x v(1,3,2)] v n show False by simp
  qed
  then show ?thesis by (auto simp: activeTasks_def filter_empty_conv)
qed

lemma pause_queued_idle:
  assumes "activeTasks s p = 0" "y \<in> set (pause_queued p t (gs_tasks s))" "of_project p y"
  shows "gt_status y \<notin> {QUEUED, RUNNING}"
proof -
  obtain z where "z \<in> set (gs_tasks s)"
    "y = (if of_project p z \<and> gt_status z \<in> {QUEUED, CANCEL_REQUESTED} then close_task T_PAUSED t z else z)"
    using in_upd [OF assms(2) [unfolded pause_queued_def]] by blast
  with assms(1,3) show ?thesis
    by (auto simp: activeTasks_def filter_empty_conv close_task_def split: if_splits)
qed

lemma complete_cancelled:
  assumes "lease_check s who tid a worker = Inr y" "task_project s y = Some q" "gt_cancelRequested y"
    "gp_operation q = PAUSE_REQUESTED"
  shows "\<exists>ty rs. completeTask who tid worker a res b ck t s =
    (let s3 = emit_event q ty None None t (createCheckpoint q (gt_id y) rs t
       (on_task y (finish_task (if res \<in> {''SUCCEEDED'', ''COMPLETED''} then T_COMPLETED else T_PAUSED)
          (WorkerResult res b) t) s));
         (fin, s4) = settle_operation (reread s3 q) ''worker reached a safe boundary''
                       ''worker reached a stop boundary'' t s3
     in ((reply_code 200 [])\<lparr>rs_paused := ((if res \<in> {''SUCCEEDED'', ''COMPLETED''} then T_COMPLETED else T_PAUSED) = T_PAUSED),
           rs_finalized := fin\<rparr>, s4))"
  using assms by (cases "res \<in> {''SUCCEEDED'', ''COMPLETED''}") (simp_all add: completeTask_def, blast+)

text \<open>C14: a pause waits for the worker and then takes hold.  Take a game with a busy worker.  A game that is
  paused already, or deployed (it answers 409, deployed), is left as it is.  On every other game, also one that is
  blocked or has failed, the pause answers that it waits; the worker's next heartbeat tells it to stop; and when it
  hands in its attempt, finished or not, the game is paused in the same step, remembers where to resume (its state,
  or what a blocked or failed one remembered), and has no task queued or running.\<close>

theorem pause_takes_hold_at_the_boundary:
  assumes w: "wf_store s" and row: "project_row s (gp_id p) (gp_uid p) = Some p"
    and x: "x \<in> set (gs_tasks s)" "gt_status x = RUNNING" "of_project p x"
    and s1: "(r1, s1) = cmd_pause p t1 s"
    and s2: "(r2, s2) = completeTask (gt_uid x) (gt_id x) (gt_workerId x) (gt_attempt x) res b ck t2 s1"
  shows "if gp_state p = PAUSED then (r1, s1) = (noop_with p, s)
    else if gp_state p = DEPLOYED then (r1, s1) = (reply_code 409 ''deployed'', s)
    else rs_status r1 = 202 \<and> rs_waiting r1
    \<and> rs_waiting (fst (heartbeatTask (gt_uid x) (gt_id x) (gt_workerId x) (gt_attempt x) l t s1))
    \<and> rs_status r2 = 200 \<and> rs_finalized r2
    \<and> (\<exists>q. project_row s2 (gp_id p) (gp_uid p) = Some q \<and> gp_state q = PAUSED
          \<and> gp_resumeState q = (if is_hold (gp_state p) then gp_resumeState p else Some (gp_state p)))
    \<and> (\<forall>y \<in> set (gs_tasks s2). of_project p y \<longrightarrow> gt_status y \<notin> {QUEUED, RUNNING})"
proof (cases "gp_state p = PAUSED \<or> gp_state p = DEPLOYED")
  case True
  then show ?thesis using s1 by (auto simp: cmd_pause_def)
next
  case False
  let ?q = "p\<lparr>gp_operation := PAUSE_REQUESTED, gp_version := gp_version p + 1, gp_updatedAt := t1\<rparr>"
  let ?x = "x\<lparr>gt_cancelRequested := True\<rparr>"
  have act: "activeTasks s p > 0" using x by (auto simp: activeTasks_def filter_empty_conv)
  have e: "s1 = emit_event p ''project.pause_requested'' None None t1 (request_operation p PAUSE_REQUESTED t1 s)"
    and r1: "rs_status r1 = 202 \<and> rs_waiting r1"
    using s1 False act by (simp_all add: cmd_pause_def Let_def ok_with_def reply_code_def)
  have ts: "gs_tasks s1 = upd (\<lambda>r. of_project p r \<and> gt_status r = RUNNING) (\<lambda>r. r\<lparr>gt_cancelRequested := True\<rparr>) (gs_tasks s)"
    by (simp add: e request_operation_def)
  have pr: "project_row s1 (gp_id p) (gp_uid p) = Some ?q" using row_requested [OF row] by (simp add: e)
  have uid: "gt_uid x = gp_uid p" "gt_projectId x = gp_id p" using x(3) by (simp_all add: of_project_def)
  have tr: "task_row s1 (gt_id x) (gt_uid x) = Some ?x"
    unfolding task_row_def ts using w x by (subst find_mapped) (simp_all add: wf_store_def)
  then have lc: "lease_check s1 (gt_uid x) (gt_id x) (gt_attempt x) (gt_workerId x) = Inr ?x"
    using x(2) by (simp add: lease_check_def)
  have tp: "task_project s1 ?x = Some ?q" using pr uid by (simp add: task_project_def)
  let ?st = "if res \<in> {''SUCCEEDED'', ''COMPLETED''} then T_COMPLETED else T_PAUSED"
  let ?a = "on_task ?x (finish_task ?st (WorkerResult res b) t2) s1"
  have idle: "activeTasks ?a p = 0"
    by (rule finished_idle [OF w x, of ?st]) (simp_all add: on_task_def ts)
  have row_a: "project_row (createCheckpoint ?q i rs t2 ?a) (gp_id p) (gp_uid p) = Some ?q" for i rs
    using pr by (simp add: on_task_def)
  define s3 where "s3 = (\<lambda>ty rs. emit_event ?q ty None None t2 (createCheckpoint ?q (gt_id x) rs t2 ?a))"
  have row3: "project_row (s3 ty rs) (gp_id p) (gp_uid p) = Some ?q" for ty rs
    using row_a by (simp add: s3_def)
  have idle3: "activeTasks (s3 ty rs) p = 0" for ty rs using idle by (simp add: s3_def activeTasks_def)
  have rr: "reread (s3 ty rs) ?q = ?q" for ty rs using row3 [of ty rs] by (simp add: reread_def)
  have can: "gt_cancelRequested ?x" "gp_operation ?q = PAUSE_REQUESTED" by simp_all
  have "\<exists>ty rs. (r2, s2) = ((reply_code 200 [])\<lparr>rs_paused := ?st = T_PAUSED,
      rs_finalized := fst (finalizePause ?q ''worker reached a safe boundary'' t2 (s3 ty rs))\<rparr>,
      snd (finalizePause ?q ''worker reached a safe boundary'' t2 (s3 ty rs)))"
    using complete_cancelled [OF lc tp can, of res b ck t2] s2 rr unfolding s3_def
    by (auto simp: Let_def settle_operation_def case_prod_beta)
  then obtain ty rs where f: "(r2, s2) = ((reply_code 200 [])\<lparr>rs_paused := ?st = T_PAUSED,
      rs_finalized := fst (finalizePause ?q ''worker reached a safe boundary'' t2 (s3 ty rs))\<rparr>,
      snd (finalizePause ?q ''worker reached a safe boundary'' t2 (s3 ty rs)))" by blast
  have i3: "activeTasks (s3 ty rs) ?q = 0"
    using idle3 [of ty rs] by (simp add: activeTasks_def of_project_def)
  from finalizePause_idle [OF i3, of ?q "''worker reached a safe boundary''" t2] row3 [of ty rs]
  have g: "rs_status r2 = 200" "rs_finalized r2"
    "\<exists>q. project_row s2 (gp_id p) (gp_uid p) = Some q \<and> gp_state q = PAUSED
      \<and> gp_resumeState q = (if is_hold (gp_state p) then gp_resumeState p else Some (gp_state p))"
    "gs_tasks s2 = pause_queued p t2 (gs_tasks (s3 ty rs))"
    using f by (auto simp: resume_point_def reply_code_def pause_queued_def of_project_def)
  have "rs_waiting (fst (heartbeatTask (gt_uid x) (gt_id x) (gt_workerId x) (gt_attempt x) l t s1))"
    using lc by (simp add: heartbeatTask_def)
  with r1 g False show ?thesis using pause_queued_idle [OF idle3, of _ t2 ty rs] by auto
qed

end
