(* ===== verification/GameWitness.thy ===== *)
theory GameWitness
  imports GameProps GameCommands
begin

text \<open>Concrete games for the properties of the factory: a small store and short runs over it.\<close>

definition g_project :: "game_state \<Rightarrow> gproject" where
  "g_project st = \<lparr>gp_id = ''gf_a_g'', gp_uid = ''a'', gp_slug = ''g'', gp_order = 1, gp_state = st,
     gp_resumeState = None, gp_operation = NoOperation, gp_activeBuildId = [], gp_workspaceId = [],
     gp_workspaceRoot = [], gp_version = 1, gp_blocker = [], gp_updatedAt = 0\<rparr>"

definition g_task :: "string \<Rightarrow> task_status \<Rightarrow> gtask" where
  "g_task i st = \<lparr>gt_id = i, gt_projectId = ''gf_a_g'', gt_buildId = [], gt_uid = ''a'', gt_capability = ''godot'',
     gt_title = ''t'', gt_payload = ''{}'', gt_acceptance = ''[]'', gt_result = NoResult, gt_status = st,
     gt_priority = 0, gt_attempt = (if st = RUNNING then 1 else 0), gt_maxAttempts = 3, gt_safeToRetry = True,
     gt_workerId = (if st = RUNNING then ''w'' else []), gt_leaseUntil = (if st = RUNNING then 50 else 0),
     gt_heartbeatAt = 0, gt_cancelRequested = False, gt_createdAt = 0, gt_startedAt = 0, gt_endedAt = 0\<rparr>"

definition g_store :: "game_state \<Rightarrow> gtask list \<Rightarrow> gstore" where
  "g_store st ts = empty_store\<lparr>gs_projects := [g_project st], gs_tasks := ts\<rparr>"

definition g_evidence :: evidence where
  "g_evidence = \<lparr>ev_specificationApproved = True, ev_visualSystemApproved = True, ev_qaReady = True,
     ev_playtestApproved = True, ev_releaseCandidateApproved = True, ev_artifactsComplete = True,
     ev_legalAndPrivacyApproved = True, ev_storeSubmissionApproved = True, ev_productionReleaseApproved = True,
     ev_releaseReady = True\<rparr>"

definition g_readers :: readers where
  "g_readers = \<lparr>rd_evidenceFor = \<lambda>_ _. g_evidence, rd_approvalSubject = \<lambda>_ _ _. Inr ''h''\<rparr>"

definition g_digest :: "request \<Rightarrow> string" where
  "g_digest rq = (case rq_command rq of Advance \<Rightarrow> ''advance'' | Pause \<Rightarrow> ''pause'' | _ \<Rightarrow> ''other'')"

definition g_request :: "gcommand \<Rightarrow> request" where
  "g_request c = \<lparr>rq_projectId = ''gf_a_g'', rq_expectedVersion = None, rq_command = c\<rparr>"

definition g_order :: task_order where
  "g_order = \<lparr>to_buildId = [], to_capability = ''godot'', to_title = ''t'', to_payload = ''{}'', to_acceptance = ''[]'',
     to_priority = 0, to_safeToRetry = True, to_maxAttempts = 0\<rparr>"

lemma wf_g_store:
  "wf_store (g_store IMPLEMENTATION [])" "wf_store (g_store IMPLEMENTATION [g_task ''t1'' RUNNING, g_task ''t2'' QUEUED])"
  by (simp_all add: wf_store_def g_store_def empty_store_def running_in_def g_project_def g_task_def of_project_def
      activeTasks_def)

definition g_work :: "(ms \<times> gop) list" where
  "g_work = [(1, QueueTask ''t1'' ''a'' ''gf_a_g'' g_order), (2, QueueTask ''t2'' ''a'' ''gf_a_g'' g_order),
     (3, Claim ''w'' ''godot'' 0), (4, Claim ''v'' ''godot'' 0)]"

lemma g_work_runs:
  "map (\<lambda>t. (gt_id t, gt_status t)) (gs_tasks (grun g_digest g_readers (g_store IMPLEMENTATION []) g_work)) =
     [(''t1'', RUNNING), (''t2'', QUEUED)]"
  by code_simp

theorem one_worker_per_game_witness:
  "wf_store (g_store IMPLEMENTATION []) \<and>
   (\<exists>t \<in> set (gs_tasks (grun g_digest g_readers (g_store IMPLEMENTATION []) g_work)).
      gt_workerId t \<noteq> [] \<and> gt_status t = RUNNING)"
proof -
  let ?s = "grun g_digest g_readers (g_store IMPLEMENTATION []) g_work"
  have "(''t1'', RUNNING) \<in> set (map (\<lambda>t. (gt_id t, gt_status t)) (gs_tasks ?s))" unfolding g_work_runs by simp
  then obtain t where "t \<in> set (gs_tasks ?s)" "gt_status t = RUNNING" by auto
  with one_worker_per_game [OF wf_g_store(1) refl, of g_digest g_readers g_work] wf_g_store(1)
  show ?thesis by blast
qed

definition g_launch :: "(ms \<times> gop) list" where
  "g_launch = [(1, Command ''x'' ''a'' ''k1'' (g_request Advance)), (2, Command ''x'' ''a'' ''k2'' (g_request Advance)),
     (3, Command ''x'' ''a'' ''k3'' (g_request Advance)), (4, Command ''x'' ''a'' ''k4'' (g_request Advance))]"

lemma g_launch_runs: "map gp_state (gs_projects (grun g_digest g_readers (g_store PLAYTEST_READY []) g_launch)) = [DEPLOYED]"
  by code_simp

theorem deployed_passed_every_gate_witness:
  "\<exists>k n. passes_gate g_digest g_readers (g_store PLAYTEST_READY []) g_launch PlaytestGate k n"
proof -
  let ?s = "grun g_digest g_readers (g_store PLAYTEST_READY []) g_launch"
  have "\<forall>p \<in> set (gs_projects (g_store PLAYTEST_READY [])). \<not> late (behind PlaytestGate) p"
    by (simp add: g_store_def g_project_def late_def)
  moreover obtain p where "p \<in> set (gs_projects ?s)" "gp_state p = DEPLOYED"
    using g_launch_runs by (metis (no_types, lifting) list.set_intros(1) map_eq_Cons_D)
  ultimately show ?thesis using deployed_passed_every_gate by blast
qed

theorem revision_leads_around_the_early_gates_witness:
  "transitionDecision SPECIFICATION None REVISION (g_evidence\<lparr>ev_specificationApproved := False\<rparr>) = Granted"
  using revision_leads_around_the_early_gates [of SPECIFICATION] by simp

definition g_busy :: gstore where "g_busy = g_store IMPLEMENTATION [g_task ''t1'' RUNNING, g_task ''t2'' QUEUED]"

lemma wf_g_busy: "wf_store g_busy" by (simp add: g_busy_def wf_g_store)

lemma g_completes: "rs_status (fst (completeTask ''a'' ''t1'' ''w'' 1 ''SUCCEEDED'' False False 9 g_busy)) = 200"
  by code_simp

theorem an_attempt_answers_once_witness:
  "rs_status (fst (completeTask ''a'' ''t1'' ''w'' 1 ''SUCCEEDED'' False False 20
     (grun g_digest g_readers (snd (completeTask ''a'' ''t1'' ''w'' 1 ''SUCCEEDED'' False False 9 g_busy))
       [(10, Claim ''w'' [] 0)]))) \<noteq> 200"
  by (rule an_attempt_answers_once [OF wf_g_busy disjI1 [OF conjI [OF g_completes refl]] refl, THEN conjunct1])

theorem command_takes_effect_once_witness:
  "\<exists>r s1. executeCommand g_digest g_readers ''x'' ''a'' ''k'' (g_request Advance) 1 (g_store IMPLEMENTATION []) = (r, s1)
     \<and> executeCommand g_digest g_readers ''y'' ''a'' ''k'' (g_request Advance) 9 s1 = (r\<lparr>rs_replayed := True\<rparr>, s1)"
proof -
  obtain r s1 where e: "executeCommand g_digest g_readers ''x'' ''a'' ''k'' (g_request Advance) 1 (g_store IMPLEMENTATION [])
    = (r, s1)" by fastforce
  have "map_of (gs_commands (g_store IMPLEMENTATION [])) (''a'', ''k'') = None" by (simp add: g_store_def empty_store_def)
  from command_takes_effect_once [OF _ _ this e, where ops = "[]" and ?s2.0 = s1]
  have "executeCommand g_digest g_readers ''y'' ''a'' ''k'' (g_request Advance) 9 s1 = (r\<lparr>rs_replayed := True\<rparr>, s1)"
    by (simp add: grun_def)
  with e show ?thesis by blast
qed

definition g_idle :: gstore where "g_idle = g_store IMPLEMENTATION [g_task ''t2'' QUEUED]"

lemma g_idle_facts:
  "project_row g_idle ''gf_a_g'' ''a'' = Some (g_project IMPLEMENTATION)" "activeTasks g_idle (g_project IMPLEMENTATION) = 0"
  "gs_checkpoints g_idle = []"
  "map_option gp_state (project_row (snd (cmd_pause (g_project IMPLEMENTATION) 1 g_idle)) ''gf_a_g'' ''a'') = Some PAUSED"
  by code_simp+

lemma g_project_key [simp]: "gp_id (g_project st) = ''gf_a_g''" "gp_uid (g_project st) = ''a''" "gp_state (g_project st) = st"
  by (simp_all add: g_project_def)

theorem pause_resume_round_trip_witness:
  "\<exists>(p1::gproject) p2 s2. gp_state p1 = PAUSED \<and> gp_state p2 = IMPLEMENTATION \<and> project_row s2 ''gf_a_g'' ''a'' = Some p2"
proof -
  obtain r1 s1 where s1: "cmd_pause (g_project IMPLEMENTATION) 1 g_idle = (r1, s1)" by fastforce
  with g_idle_facts(4) obtain p1 where p1: "project_row s1 ''gf_a_g'' ''a'' = Some p1" by auto
  obtain r2 s2 where s2: "cmd_resume p1 2 s1 = (r2, s2)" by fastforce
  have "gp_state p1 = PAUSED \<and> (\<exists>p2. project_row s2 ''gf_a_g'' ''a'' = Some p2 \<and> gp_state p2 = IMPLEMENTATION)"
    using pause_resume_round_trip [of g_idle "g_project IMPLEMENTATION" 1 r1 s1 p1 r2 s2 2] g_idle_facts s1 p1 s2
    by auto
  then show ?thesis by blast
qed

lemma g_busy_facts:
  "project_row g_busy ''gf_a_g'' ''a'' = Some (g_project IMPLEMENTATION)" "g_task ''t1'' RUNNING \<in> set (gs_tasks g_busy)"
  "gt_status (g_task ''t1'' RUNNING) = RUNNING" "of_project (g_project IMPLEMENTATION) (g_task ''t1'' RUNNING)"
  by (simp_all add: g_busy_def g_store_def empty_store_def project_row_def g_project_def g_task_def of_project_def)

theorem pause_takes_hold_at_the_boundary_witness:
  "\<exists>r1 s1 r2 s2. cmd_pause (g_project IMPLEMENTATION) 1 g_busy = (r1, s1) \<and> rs_status r1 = 202
     \<and> completeTask ''a'' ''t1'' ''w'' 1 ''PAUSED'' False True 2 s1 = (r2, s2)
     \<and> rs_finalized r2 \<and> (\<exists>q. project_row s2 ''gf_a_g'' ''a'' = Some q \<and> gp_state q = PAUSED)"
proof -
  obtain r1 s1 where s1: "cmd_pause (g_project IMPLEMENTATION) 1 g_busy = (r1, s1)" by fastforce
  obtain r2 s2 where s2: "completeTask ''a'' ''t1'' ''w'' 1 ''PAUSED'' False True 2 s1 = (r2, s2)" by fastforce
  have t: "gt_uid (g_task ''t1'' RUNNING) = ''a''" "gt_id (g_task ''t1'' RUNNING) = ''t1''"
    "gt_workerId (g_task ''t1'' RUNNING) = ''w''" "gt_attempt (g_task ''t1'' RUNNING) = 1"
    by (simp_all add: g_task_def)
  note pause_takes_hold_at_the_boundary [OF wf_g_busy _ g_busy_facts(2-4) s1 [symmetric], of r2 s2 "''PAUSED''" False True 2]
  then have "rs_status r1 = 202 \<and> rs_finalized r2 \<and> (\<exists>q. project_row s2 ''gf_a_g'' ''a'' = Some q \<and> gp_state q = PAUSED)"
    using s2 t g_busy_facts(1) by (simp, blast)
  with s1 s2 show ?thesis by blast
qed

end
