(* ===== verification/GameEvidence.thy ===== *)
theory GameEvidence
  imports GameTasks
begin

text \<open>
  The evidence tables of the game factory (\<open>gamefactorystore.mjs\<close>): artifacts and their copies, test runs,
  releases, and what they say to the approvals and transitions of a game.  Text arguments are what
  \<open>cleanText\<close> and \<open>safeText\<close> leave of them, in the letter case the code gives them.  The rows that prove a
  copy in the native ChatGPT project stand here as the copy they are read as; recording one replaces it.
\<close>

section \<open>Tables\<close>

record artifact_row =
  ar_id :: string
  ar_projectId :: string
  ar_uid :: string
  ar_key :: string
  ar_version :: nat
  ar_sha256 :: string
  ar_bytes :: int
  ar_mimeType :: string
  ar_createdAt :: ms

record copy_row =
  cp_artifactId :: string
  cp_backend :: string
  cp_locator :: string
  cp_status :: string
  cp_fingerprint :: string
  cp_algorithm :: string
  cp_attempts :: nat
  cp_lastError :: string
  cp_verifiedAt :: ms
  cp_updatedAt :: ms

datatype test_status = TS_PASSED | TS_FAILED | TS_BLOCKED | TS_SKIPPED

record test_row =
  tr_id :: string
  tr_projectId :: string
  tr_buildId :: string
  tr_uid :: string
  tr_suite :: string
  tr_target :: string
  tr_status :: test_status
  tr_sourceHash :: string
  tr_createdAt :: ms

datatype release_status =
  RL_DRAFT | RL_VALIDATING | RL_READY | RL_UPLOADED | RL_SUBMITTED | RL_RELEASED | RL_BLOCKED | RL_FAILED

text \<open>The evidence of a release: its two receipts, the rest of the body as text, and the answer of the
  verifier once there is one.\<close>

record release_evidence =
  re_submissionReceipt :: string
  re_releaseReceipt :: string
  re_rest :: string
  re_verification :: "string option"

record release_row =
  rl_id :: string
  rl_projectId :: string
  rl_buildId :: string
  rl_uid :: string
  rl_platform :: string
  rl_packageId :: string
  rl_versionName :: string
  rl_versionCode :: int
  rl_status :: release_status
  rl_storeLocator :: string
  rl_evidence :: release_evidence
  rl_createdAt :: ms
  rl_updatedAt :: ms

record estore =
  es_store :: gstore
  es_artifacts :: "artifact_row list"
  es_copies :: "copy_row list"
  es_native :: "(string \<times> copy_row) list"
  es_tests :: "test_row list"
  es_releases :: "release_row list"

section \<open>What the store is built on\<close>

text \<open>The columns of a build that \<open>createBuild\<close> fixes and nobody changes; a build's identifier is drawn once,
  so a run has one such row per identifier.\<close>

record build_detail =
  bd_toolchain :: string
  bd_targets :: string
  bd_versionName :: string
  bd_versionCode :: int

type_synonym artifact_ident = "string \<times> string \<times> nat \<times> string \<times> int"
type_synonym build_ident = "string \<times> string \<times> string \<times> string \<times> string \<times> int"
type_synonym test_ident = "string \<times> string \<times> string \<times> test_status \<times> string"
type_synonym release_ident = "string \<times> string \<times> string \<times> int"
type_synonym copy_ident = "string \<times> (string \<times> string \<times> string \<times> string \<times> ms) list"

text \<open>What an approval is about, and the descriptor the code hashes: the sets in it are hashes themselves.\<close>

record subject =
  sj_gate :: approval_gate_name
  sj_projectId :: string
  sj_artifacts :: "artifact_ident list"
  sj_relevant :: "string list"
  sj_build :: "build_ident option"
  sj_tests :: "test_ident list option"
  sj_identities :: "release_ident list option"
  sj_submissions :: "(string \<times> string) list option"
  sj_copies :: "copy_ident list option"

record descriptor =
  ds_gate :: approval_gate_name
  ds_projectId :: string
  ds_policyVersion :: nat
  ds_artifactSetHash :: string
  ds_relevantArtifacts :: "string list"
  ds_build :: "build_ident option"
  ds_testSetHash :: string
  ds_releaseSetHash :: string
  ds_submissionSetHash :: string
  ds_copySetHash :: string

text \<open>\<open>w_rank\<close> is the position of a text in the order of \<open>localeCompare\<close>, the hashes are \<open>requestHash\<close> at the
  types it is used at, and \<open>w_verify\<close> is the verifier of store receipts the store may be built with; \<open>None\<close> is
  also its answer for a receipt that is not good, or when it throws.\<close>

record world =
  w_rank :: "string \<Rightarrow> int"
  w_detail :: "string \<Rightarrow> build_detail"
  w_hashText :: "string \<Rightarrow> string"
  w_hashArtifacts :: "artifact_ident list \<Rightarrow> string"
  w_hashTests :: "test_ident list \<Rightarrow> string"
  w_hashIdentities :: "release_ident list \<Rightarrow> string"
  w_hashSubmissions :: "(string \<times> string) list \<Rightarrow> string"
  w_hashCopies :: "copy_ident list \<Rightarrow> string"
  w_hashDescriptor :: "descriptor \<Rightarrow> string"
  w_hashEvidence :: "release_evidence \<Rightarrow> string"
  w_verify :: "(gproject \<Rightarrow> gbuild \<Rightarrow> release_status \<Rightarrow> release_ident \<Rightarrow> release_evidence \<Rightarrow> release_row option
      \<Rightarrow> string option) option"

section \<open>Constants\<close>

definition REQUIRED_GAME_ARTIFACTS :: "string list" where
  "REQUIRED_GAME_ARTIFACTS = [''00_GAME_BRIEF'', ''01_MARKET_CASE'', ''02_RELEASE_ROADMAP'', ''03_BUILD_WORKFLOW'',
     ''04_GAME_ARCHITECTURE'', ''05_VISUAL_SYSTEM'', ''06_MONETIZATION'', ''07_QA_AND_TESTING'',
     ''08_STORE_RELEASE'', ''09_HANDOFF_PROMPT'', ''10_COMPLETENESS_REVIEW'']"

definition MANDATORY_ARTIFACT_BACKENDS :: "string list" where
  "MANDATORY_ARTIFACT_BACKENDS = [''google_drive'']"

definition KNOWN_ARTIFACT_BACKENDS :: "string list" where
  "KNOWN_ARTIFACT_BACKENDS = ''primary'' # MANDATORY_ARTIFACT_BACKENDS @ [''chatgpt_project'']"

definition QA_REQUIRED_SUITES :: "string list" where
  "QA_REQUIRED_SUITES = [''core-loop'', ''launch-smoke'', ''crash-regression'', ''controls'', ''save-state'',
     ''viewport'', ''performance'', ''monetization'', ''offline'', ''analytics'', ''privacy-consent'',
     ''store-readiness'']"

definition PLATFORMS :: "string list" where "PLATFORMS = [''android'', ''ios'']"

fun APPROVAL_ARTIFACTS :: "approval_gate_name \<Rightarrow> string list" where
  "APPROVAL_ARTIFACTS G_SPECIFICATION =
     [''00_GAME_BRIEF'', ''01_MARKET_CASE'', ''02_RELEASE_ROADMAP'', ''03_BUILD_WORKFLOW'']"
| "APPROVAL_ARTIFACTS G_VISUAL_SYSTEM = [''04_GAME_ARCHITECTURE'', ''05_VISUAL_SYSTEM'']"
| "APPROVAL_ARTIFACTS G_LEGAL_AND_PRIVACY = [''06_MONETIZATION'', ''08_STORE_RELEASE'']"
| "APPROVAL_ARTIFACTS g = []"

fun allowedAfter :: "release_status \<Rightarrow> release_status list" where
  "allowedAfter RL_DRAFT = [RL_DRAFT, RL_VALIDATING, RL_READY, RL_BLOCKED, RL_FAILED]"
| "allowedAfter RL_VALIDATING = [RL_VALIDATING, RL_READY, RL_BLOCKED, RL_FAILED]"
| "allowedAfter RL_READY = [RL_READY, RL_UPLOADED, RL_SUBMITTED, RL_BLOCKED, RL_FAILED]"
| "allowedAfter RL_UPLOADED = [RL_UPLOADED, RL_SUBMITTED, RL_BLOCKED, RL_FAILED]"
| "allowedAfter RL_SUBMITTED = [RL_SUBMITTED, RL_RELEASED, RL_BLOCKED, RL_FAILED]"
| "allowedAfter RL_RELEASED = [RL_RELEASED]"
| "allowedAfter RL_BLOCKED = [RL_BLOCKED, RL_VALIDATING, RL_READY, RL_FAILED]"
| "allowedAfter RL_FAILED = [RL_FAILED, RL_VALIDATING, RL_READY]"

definition is_external :: "release_status \<Rightarrow> bool" where
  "is_external st = (st \<in> {RL_UPLOADED, RL_SUBMITTED, RL_RELEASED})"

text \<open>\<open>/^[a-f0-9]{64}$/\<close>\<close>

definition is_sha256 :: "string \<Rightarrow> bool" where
  "is_sha256 h = (length h = 64 \<and> list_all is_hex h)"

section \<open>Copies of an artifact\<close>

definition native_default :: "artifact_row \<Rightarrow> copy_row list \<Rightarrow> copy_row" where
  "native_default a legacy =
     \<lparr>cp_artifactId = ar_id a, cp_backend = ''chatgpt_project'', cp_locator = [],
      cp_status = (if legacy \<noteq> [] then ''UNTRUSTED_LEGACY'' else ''DEFERRED''), cp_fingerprint = [],
      cp_algorithm = ''sha256'', cp_attempts = length legacy,
      cp_lastError = (if legacy \<noteq> []
        then ''Legacy mutable native Project copy rows cannot satisfy completion without v2 append-only evidence.''
        else ''ChatGPT Project sync is deferred; use the offline owner-attestation command when ready.''),
      cp_verifiedAt = 0, cp_updatedAt = 0\<rparr>"

definition nativeEvidenceCopy :: "estore \<Rightarrow> artifact_row \<Rightarrow> copy_row list \<Rightarrow> copy_row" where
  "nativeEvidenceCopy es a legacy =
     (case map_of (es_native es) (ar_id a) of Some c \<Rightarrow> c | None \<Rightarrow> native_default a legacy)"

definition stored_copies :: "estore \<Rightarrow> artifact_row \<Rightarrow> copy_row list" where
  "stored_copies es a = filter (\<lambda>c. cp_artifactId c = ar_id a) (es_copies es)"

definition is_native :: "copy_row \<Rightarrow> bool" where
  "is_native c = (cp_backend c = ''chatgpt_project'')"

definition copies_of :: "estore \<Rightarrow> artifact_row \<Rightarrow> copy_row list" where
  "copies_of es a =
     filter (\<lambda>c. \<not> is_native c) (stored_copies es a)
     @ [nativeEvidenceCopy es a (filter is_native (stored_copies es a))]"

text \<open>\<open>backend\<close> is one the store requires, which the native project is not.\<close>

definition copySatisfiesBackend :: "copy_row option \<Rightarrow> artifact_row \<Rightarrow> string \<Rightarrow> bool" where
  "copySatisfiesBackend c a backend =
     (case c of
        None \<Rightarrow> False
      | Some c \<Rightarrow> cp_backend c = backend \<and> cp_algorithm c = ''sha256'' \<and> cp_fingerprint c = ar_sha256 a
          \<and> cp_status c = ''VERIFIED'')"

definition artifact_complete :: "estore \<Rightarrow> artifact_row \<Rightarrow> bool" where
  "artifact_complete es a =
     list_all (\<lambda>b. copySatisfiesBackend (find (\<lambda>c. cp_backend c = b) (copies_of es a)) a b) MANDATORY_ARTIFACT_BACKENDS"

text \<open>The first row of every key.\<close>

fun first_by :: "('a \<Rightarrow> 'k) \<Rightarrow> 'a list \<Rightarrow> 'a list" where
  "first_by f [] = []"
| "first_by f (x # xs) = x # first_by f (filter (\<lambda>y. f y \<noteq> f x) xs)"

text \<open>\<open>ORDER BY artifactKey, version DESC\<close>; the order of the keys does not show in what follows, where rows are
  found by key or sorted again.\<close>

definition latest_artifacts :: "estore \<Rightarrow> gproject \<Rightarrow> artifact_row list" where
  "latest_artifacts es p =
     first_by ar_key (sort_key (\<lambda>a. - int (ar_version a))
       (filter (\<lambda>a. ar_projectId a = gp_id p \<and> ar_uid a = gp_uid p) (es_artifacts es)))"

text \<open>The summary: the rows by key, and the required keys whose row is missing or not complete.\<close>

definition by_key :: "artifact_row list \<Rightarrow> string \<Rightarrow> artifact_row option" where
  "by_key as key = find (\<lambda>a. ar_key a = key) as"

definition artifact_lacking :: "estore \<Rightarrow> artifact_row list \<Rightarrow> string \<Rightarrow> bool" where
  "artifact_lacking es as key =
     (case by_key as key of None \<Rightarrow> True | Some a \<Rightarrow> \<not> artifact_complete es a)"

definition missing_artifacts :: "estore \<Rightarrow> gproject \<Rightarrow> string list" where
  "missing_artifacts es p = filter (artifact_lacking es (latest_artifacts es p)) REQUIRED_GAME_ARTIFACTS"

section \<open>Tests and releases of the active build\<close>

definition build_row :: "gstore \<Rightarrow> gproject \<Rightarrow> string \<Rightarrow> gbuild option" where
  "build_row s p bid = find (\<lambda>b. gb_id b = bid \<and> gb_projectId b = gp_id p \<and> gb_uid b = gp_uid p) (gs_builds s)"

definition active_build :: "gstore \<Rightarrow> gproject \<Rightarrow> gbuild option" where
  "active_build s p = (if gp_activeBuildId p = [] then None else build_row s p (gp_activeBuildId p))"

text \<open>\<open>ORDER BY createdAt DESC, rowid DESC\<close>\<close>

definition newest_rows :: "('a \<Rightarrow> ms) \<Rightarrow> 'a list \<Rightarrow> 'a list" where
  "newest_rows f rows = rev (sort_key f rows)"

definition latest_tests :: "estore \<Rightarrow> gproject \<Rightarrow> test_row list" where
  "latest_tests es p =
     first_by tr_suite (filter (\<lambda>t. tr_buildId t = gp_activeBuildId p)
       (newest_rows tr_createdAt (filter (\<lambda>t. tr_projectId t = gp_id p \<and> tr_uid t = gp_uid p) (es_tests es))))"

definition passed_suites :: "estore \<Rightarrow> gproject \<Rightarrow> string list" where
  "passed_suites es p =
     map tr_suite (filter (\<lambda>t. tr_status t = TS_PASSED
        \<and> (case active_build (es_store es) p of
             None \<Rightarrow> True
           | Some b \<Rightarrow> gb_sourceCommit b = [] \<or> tr_sourceHash t = gb_sourceCommit b))
       (latest_tests es p))"

definition qa_missing :: "estore \<Rightarrow> gproject \<Rightarrow> string list" where
  "qa_missing es p = filter (\<lambda>suite. suite \<notin> set (passed_suites es p)) QA_REQUIRED_SUITES"

definition releases_of :: "estore \<Rightarrow> gproject \<Rightarrow> release_row list" where
  "releases_of es p =
     newest_rows rl_updatedAt (filter (\<lambda>r. rl_projectId r = gp_id p \<and> rl_uid r = gp_uid p) (es_releases es))"

definition latest_releases :: "estore \<Rightarrow> gproject \<Rightarrow> release_row list" where
  "latest_releases es p =
     first_by rl_platform (filter (\<lambda>r. rl_buildId r = gp_activeBuildId p) (releases_of es p))"

definition latest_release :: "estore \<Rightarrow> gproject \<Rightarrow> string \<Rightarrow> release_row option" where
  "latest_release es p pf = find (\<lambda>r. rl_platform r = pf) (latest_releases es p)"

definition receipt :: "release_row \<Rightarrow> string" where
  "receipt r = lowercase (re_submissionReceipt (rl_evidence r))"

section \<open>The subject of an approval\<close>

definition artifact_rows :: "world \<Rightarrow> estore \<Rightarrow> gproject \<Rightarrow> artifact_row list" where
  "artifact_rows w es p = sort_key (\<lambda>a. w_rank w (ar_key a)) (latest_artifacts es p)"

definition release_rows :: "world \<Rightarrow> estore \<Rightarrow> gproject \<Rightarrow> release_row list" where
  "release_rows w es p = sort_key (\<lambda>r. w_rank w (rl_platform r)) (latest_releases es p)"

definition ident_of_copy :: "world \<Rightarrow> estore \<Rightarrow> artifact_row \<Rightarrow> copy_ident" where
  "ident_of_copy w es a =
     (ar_id a, map (\<lambda>c. (cp_backend c, cp_status c, cp_fingerprint c, cp_algorithm c, cp_verifiedAt c))
                 (sort_key (\<lambda>c. w_rank w (cp_backend c)) (copies_of es a)))"

definition relevant_id :: "artifact_row list \<Rightarrow> string \<Rightarrow> string" where
  "relevant_id as key = (case by_key as key of Some a \<Rightarrow> ar_id a | None \<Rightarrow> [])"

definition store_gate :: "approval_gate_name \<Rightarrow> bool" where
  "store_gate g = (g = G_STORE_SUBMISSION \<or> g = G_PRODUCTION_RELEASE)"

definition submission_ready :: "approval_gate_name \<Rightarrow> release_row option \<Rightarrow> bool" where
  "submission_ready g r =
     (case r of
        None \<Rightarrow> False
      | Some r \<Rightarrow> rl_status r \<in> (if g = G_STORE_SUBMISSION then {RL_READY, RL_UPLOADED, RL_SUBMITTED, RL_RELEASED}
                               else {RL_SUBMITTED, RL_RELEASED}))"

definition subject_refusal :: "estore \<Rightarrow> gproject \<Rightarrow> approval_gate_name \<Rightarrow> string option" where
  "subject_refusal es p g =
     (let required = APPROVAL_ARTIFACTS g; arts = latest_artifacts es p in
      if list_ex (\<lambda>key. key \<notin> set (map ar_key arts)) required then Some ''approval_subject_missing''
      else if list_ex (artifact_lacking es arts) required
      then Some ''approval_artifact_copies_missing''
      else if g \<in> set BUILD_BOUND_GATES \<and> active_build (es_store es) p = None then Some ''approval_build_missing''
      else if g = G_PLAYTEST \<and> passed_suites es p = [] then Some ''approval_tests_missing''
      else if g = G_RELEASE_CANDIDATE \<and> qa_missing es p \<noteq> [] then Some ''approval_qa_missing''
      else if store_gate g \<and> missing_artifacts es p \<noteq> [] then Some ''approval_artifact_copies_missing''
      else if store_gate g \<and> list_ex (\<lambda>pf. \<not> submission_ready g (latest_release es p pf)) PLATFORMS
      then Some ''approval_release_subject_missing''
      else if g = G_PRODUCTION_RELEASE
        \<and> list_ex (\<lambda>pf. case latest_release es p pf of None \<Rightarrow> True | Some r \<Rightarrow> \<not> is_sha256 (receipt r)) PLATFORMS
      then Some ''approval_submission_receipt_missing''
      else None)"

definition ident_of_build :: "world \<Rightarrow> gbuild \<Rightarrow> build_ident" where
  "ident_of_build w b =
     (let d = w_detail w (gb_id b)
      in (gb_id b, gb_sourceCommit b, w_hashText w (bd_toolchain d), w_hashText w (bd_targets d),
          bd_versionName d, bd_versionCode d))"

definition subject_of :: "world \<Rightarrow> estore \<Rightarrow> gproject \<Rightarrow> approval_gate_name \<Rightarrow> subject" where
  "subject_of w es p g =
     (let arts = artifact_rows w es p;
          copied = (if store_gate g then arts else filter (\<lambda>a. ar_key a \<in> set (APPROVAL_ARTIFACTS g)) arts)
      in \<lparr>sj_gate = g, sj_projectId = gp_id p,
          sj_artifacts = map (\<lambda>a. (ar_id a, ar_key a, ar_version a, ar_sha256 a, ar_bytes a)) arts,
          sj_relevant = map (relevant_id arts) (APPROVAL_ARTIFACTS g),
          sj_build = map_option (ident_of_build w) (active_build (es_store es) p),
          sj_tests = (if g \<in> set BUILD_BOUND_GATES
            then Some (map (\<lambda>t. (tr_id t, tr_suite t, tr_target t, tr_status t, tr_sourceHash t))
                        (sort_key (\<lambda>t. w_rank w (tr_suite t)) (latest_tests es p)))
            else None),
          sj_identities = (if store_gate g
            then Some (map (\<lambda>r. (rl_platform r, rl_packageId r, rl_versionName r, rl_versionCode r)) (release_rows w es p))
            else None),
          sj_submissions = (if g = G_PRODUCTION_RELEASE
            then Some (map (\<lambda>r. (rl_platform r, receipt r)) (release_rows w es p)) else None),
          sj_copies = (if copied \<noteq> [] then Some (map (ident_of_copy w es) copied) else None)\<rparr>)"

text \<open>A set that the gate does not look at leaves its hash empty.\<close>

definition hash_or_empty :: "('a \<Rightarrow> string) \<Rightarrow> 'a option \<Rightarrow> string" where
  "hash_or_empty h x = (case x of None \<Rightarrow> [] | Some y \<Rightarrow> h y)"

definition seal_subject :: "world \<Rightarrow> subject \<Rightarrow> descriptor" where
  "seal_subject w v =
     \<lparr>ds_gate = sj_gate v, ds_projectId = sj_projectId v, ds_policyVersion = 1,
      ds_artifactSetHash = w_hashArtifacts w (sj_artifacts v), ds_relevantArtifacts = sj_relevant v,
      ds_build = sj_build v, ds_testSetHash = hash_or_empty (w_hashTests w) (sj_tests v),
      ds_releaseSetHash = hash_or_empty (w_hashIdentities w) (sj_identities v),
      ds_submissionSetHash = hash_or_empty (w_hashSubmissions w) (sj_submissions v),
      ds_copySetHash = hash_or_empty (w_hashCopies w) (sj_copies v)\<rparr>"

definition subject_hash :: "world \<Rightarrow> subject \<Rightarrow> string" where
  "subject_hash w v = w_hashDescriptor w (seal_subject w v)"

definition approvalSubject :: "world \<Rightarrow> estore \<Rightarrow> gproject \<Rightarrow> approval_gate_name \<Rightarrow> string + string" where
  "approvalSubject w es p g =
     (case subject_refusal es p g of Some code \<Rightarrow> Inl code | None \<Rightarrow> Inr (subject_hash w (subject_of w es p g)))"

definition approvalIsCurrent :: "world \<Rightarrow> estore \<Rightarrow> approval_gate_name \<Rightarrow> gproject \<Rightarrow> bool" where
  "approvalIsCurrent w es g p =
     (case approvalSubject w es p g of
        Inl code \<Rightarrow> False
      | Inr hash \<Rightarrow>
          list_ex (\<lambda>a. ap_projectId a = gp_id p \<and> ap_uid a = gp_uid p \<and> ap_gate a = g \<and> ap_approved a
                     \<and> ap_invalidatedAt a = 0 \<and> ap_buildId a = bound_build p g \<and> ap_subjectHash a = hash)
            (gs_approvals (es_store es)))"

definition evidenceFor :: "world \<Rightarrow> estore \<Rightarrow> gproject \<Rightarrow> evidence" where
  "evidenceFor w es p =
     \<lparr>ev_specificationApproved = approvalIsCurrent w es G_SPECIFICATION p,
      ev_visualSystemApproved = approvalIsCurrent w es G_VISUAL_SYSTEM p,
      ev_qaReady = (gp_activeBuildId p \<noteq> [] \<and> qa_missing es p = []),
      ev_playtestApproved = approvalIsCurrent w es G_PLAYTEST p,
      ev_releaseCandidateApproved = approvalIsCurrent w es G_RELEASE_CANDIDATE p,
      ev_artifactsComplete = (missing_artifacts es p = []),
      ev_legalAndPrivacyApproved = approvalIsCurrent w es G_LEGAL_AND_PRIVACY p,
      ev_storeSubmissionApproved = approvalIsCurrent w es G_STORE_SUBMISSION p,
      ev_productionReleaseApproved = approvalIsCurrent w es G_PRODUCTION_RELEASE p,
      ev_releaseReady = (gp_activeBuildId p \<noteq> []
        \<and> list_all (\<lambda>pf. pf \<in> set (map rl_platform (filter (\<lambda>r. rl_status r = RL_RELEASED) (latest_releases es p))))
            PLATFORMS)\<rparr>"

text \<open>What the commands of an owner read; they pass the store as it stands in their transaction.\<close>

definition evidence_now :: "world \<Rightarrow> estore \<Rightarrow> gstore \<Rightarrow> gproject \<Rightarrow> evidence" where
  "evidence_now w es s p = evidenceFor w (es\<lparr>es_store := s\<rparr>) p"

definition subject_now :: "world \<Rightarrow> estore \<Rightarrow> gstore \<Rightarrow> gproject \<Rightarrow> approval_gate_name \<Rightarrow> string + string" where
  "subject_now w es s p g = approvalSubject w (es\<lparr>es_store := s\<rparr>) p g"

definition readers_of :: "world \<Rightarrow> estore \<Rightarrow> readers" where
  "readers_of w es = \<lparr>rd_evidenceFor = evidence_now w es, rd_approvalSubject = subject_now w es\<rparr>"

section \<open>Recording\<close>

definition bump :: "gproject \<Rightarrow> ms \<Rightarrow> gstore \<Rightarrow> gstore" where
  "bump p at' = on_project p (\<lambda>r. r\<lparr>gp_version := gp_version r + 1, gp_updatedAt := at'\<rparr>)"

definition recordArtifact ::
  "string \<Rightarrow> string \<Rightarrow> string \<Rightarrow> string \<Rightarrow> string \<Rightarrow> int \<Rightarrow> string \<Rightarrow> ms \<Rightarrow> estore \<Rightarrow> response \<times> estore" where
  "recordArtifact aid who pid key hash bytes mime at' es =
     (if \<not> is_sha256 hash then (reply_code 400 ''bad_hash'', es)
      else case project_row (es_store es) pid who of
             None \<Rightarrow> (reply_code 404 ''not_found'', es)
           | Some p \<Rightarrow>
               if list_ex (\<lambda>a. ar_id a = aid) (es_artifacts es) then (reply_code 500 ''constraint'', es)
               else let prior = map ar_version (filter (\<lambda>a. ar_projectId a = gp_id p \<and> ar_key a = key) (es_artifacts es));
                        row = \<lparr>ar_id = aid, ar_projectId = gp_id p, ar_uid = who, ar_key = key,
                               ar_version = foldr max prior 0 + 1, ar_sha256 = hash, ar_bytes = max bytes 0,
                               ar_mimeType = mime, ar_createdAt = at'\<rparr>;
                        s1 = invalidateMaterialChange p
                               (''A new '' @ key @ '' artifact version invalidated dependent evidence and approvals.'')
                               at' (es_store es);
                        s2 = emit_event p ''artifact.version_created'' None None at' s1
                    in (reply_code 201 [], es\<lparr>es_store := s2, es_artifacts := es_artifacts es @ [row]\<rparr>))"

definition copy_verdict :: "string \<Rightarrow> string \<Rightarrow> string \<Rightarrow> artifact_row \<Rightarrow> string" where
  "copy_verdict status alg fp a =
     (let st = (if status \<in> {''PENDING'', ''COPYING'', ''VERIFIED'', ''RETRYABLE'', ''CONFLICT'', ''FAILED''}
                then status else ''FAILED'')
      in if st = ''VERIFIED'' \<and> alg = ''sha256'' \<and> fp \<noteq> ar_sha256 a then ''CONFLICT'' else st)"

definition copy_error :: "string \<Rightarrow> string \<Rightarrow> string" where
  "copy_error err final =
     (if err \<noteq> [] then err
      else if final = ''CONFLICT'' then ''fingerprint does not match the registered artifact'' else [])"

definition put_copy :: "copy_row \<Rightarrow> copy_row list \<Rightarrow> copy_row list" where
  "put_copy c cs =
     (let same = (\<lambda>r. cp_artifactId r = cp_artifactId c \<and> cp_backend r = cp_backend c) in
      if list_ex same cs then upd same (\<lambda>r. c\<lparr>cp_attempts := cp_attempts r + 1\<rparr>) cs else cs @ [c])"

definition recordArtifactCopy ::
  "string \<Rightarrow> string \<Rightarrow> string \<Rightarrow> string \<Rightarrow> string \<Rightarrow> string \<Rightarrow> string \<Rightarrow> string \<Rightarrow> ms \<Rightarrow> estore \<Rightarrow> response \<times> estore" where
  "recordArtifactCopy who aid backend locator status fp algorithm err at' es =
     (if backend \<notin> set KNOWN_ARTIFACT_BACKENDS then (reply_code 400 ''bad_backend'', es)
      else if backend = ''chatgpt_project'' then (reply_code 403 ''native_project_evidence_offline_only'', es)
      else case find (\<lambda>a. ar_id a = aid \<and> ar_uid a = who) (es_artifacts es) of
             None \<Rightarrow> (reply_code 404 ''not_found'', es)
           | Some a \<Rightarrow>
               (case project_row (es_store es) (ar_projectId a) who of
                  None \<Rightarrow> (reply_code 500 ''constraint'', es)
                | Some p \<Rightarrow>
                    let alg = text_or algorithm ''sha256'';
                        final = copy_verdict status alg fp a;
                        c = \<lparr>cp_artifactId = aid, cp_backend = backend, cp_locator = locator, cp_status = final,
                             cp_fingerprint = fp, cp_algorithm = alg, cp_attempts = 1, cp_lastError = copy_error err final,
                             cp_verifiedAt = (if final = ''VERIFIED'' then at' else 0), cp_updatedAt = at'\<rparr>
                    in (reply_code (if final = ''CONFLICT'' then 409 else 200) [],
                        es\<lparr>es_copies := put_copy c (es_copies es),
                           es_store := emit_event p ''artifact.copy_updated'' None None at' (bump p at' (es_store es))\<rparr>)))"

definition recordTestRun ::
  "string \<Rightarrow> string \<Rightarrow> string \<Rightarrow> string \<Rightarrow> string \<Rightarrow> string \<Rightarrow> test_status option \<Rightarrow> string \<Rightarrow> ms \<Rightarrow> estore
   \<Rightarrow> response \<times> estore" where
  "recordTestRun rid who pid bid suite target status sourceHash at' es =
     (if suite \<notin> set QA_REQUIRED_SUITES then (reply_code 400 ''bad_suite'', es)
      else case status of
        None \<Rightarrow> (reply_code 400 ''bad_status'', es)
      | Some st \<Rightarrow>
          (case project_row (es_store es) pid who of
             None \<Rightarrow> (reply_code 404 ''not_found'', es)
           | Some p \<Rightarrow>
               let bound = text_or bid (gp_activeBuildId p) in
               if bound \<noteq> [] \<and> build_row (es_store es) p bound = None then (reply_code 400 ''bad_build'', es)
               else if list_ex (\<lambda>t. tr_id t = rid) (es_tests es) then (reply_code 500 ''constraint'', es)
               else let row = \<lparr>tr_id = rid, tr_projectId = gp_id p, tr_buildId = bound, tr_uid = who, tr_suite = suite,
                               tr_target = target, tr_status = st, tr_sourceHash = sourceHash, tr_createdAt = at'\<rparr>;
                        s1 = (if st = TS_FAILED \<or> st = TS_BLOCKED
                              then invalidateMaterialChange p (''The '' @ suite @ '' QA suite did not pass.'') at' (es_store es)
                              else bump p at' (es_store es))
                    in (reply_code 201 [],
                        es\<lparr>es_store := emit_event p ''test.recorded'' None None at' s1, es_tests := es_tests es @ [row]\<rparr>)))"

section \<open>Releases\<close>

definition prior_release :: "estore \<Rightarrow> gproject \<Rightarrow> string \<Rightarrow> string \<Rightarrow> release_row option" where
  "prior_release es p bid pf = find (\<lambda>r. rl_buildId r = bid \<and> rl_platform r = pf) (releases_of es p)"

definition same_identity :: "release_ident \<Rightarrow> release_row \<Rightarrow> bool" where
  "same_identity i r = (snd i = (rl_packageId r, rl_versionName r, rl_versionCode r))"

definition release_refusal ::
  "world \<Rightarrow> estore \<Rightarrow> gproject \<Rightarrow> release_status \<Rightarrow> release_evidence \<Rightarrow> release_row option \<Rightarrow> release_ident \<Rightarrow> string option" where
  "release_refusal w es p st ev prior i =
     (if (case prior of Some r \<Rightarrow> \<not> same_identity i r | None \<Rightarrow> False) then Some ''release_identity_changed''
      else if prior = None \<and> is_external st then Some ''release_preflight_required''
      else if (case prior of Some r \<Rightarrow> st \<notin> set (allowedAfter (rl_status r)) | None \<Rightarrow> False)
      then Some ''release_status_regression''
      else if st \<in> {RL_UPLOADED, RL_SUBMITTED} \<and> \<not> approvalIsCurrent w es G_STORE_SUBMISSION p
      then Some ''store_submission_approval_required''
      else if st = RL_RELEASED \<and> \<not> approvalIsCurrent w es G_PRODUCTION_RELEASE p
      then Some ''production_approval_required''
      else if st \<in> {RL_SUBMITTED, RL_RELEASED} \<and> \<not> is_sha256 (lowercase (re_submissionReceipt ev))
      then Some ''submission_receipt_required''
      else if st = RL_RELEASED \<and> \<not> is_sha256 (lowercase (re_releaseReceipt ev)) then Some ''release_receipt_required''
      else if st = RL_RELEASED
        \<and> lowercase (re_submissionReceipt ev) \<noteq> (case prior of Some r \<Rightarrow> receipt r | None \<Rightarrow> [])
      then Some ''release_subject_changed''
      else None)"

text \<open>What the store keeps as evidence: with the verifier's answer when the status is external.\<close>

definition verified_evidence ::
  "world \<Rightarrow> gproject \<Rightarrow> gbuild \<Rightarrow> release_status \<Rightarrow> release_ident \<Rightarrow> release_evidence \<Rightarrow> release_row option
   \<Rightarrow> string + release_evidence" where
  "verified_evidence w p b st i ev prior =
     (if \<not> is_external st then Inr ev
      else case w_verify w of
             None \<Rightarrow> Inl ''release_verifier_required''
           | Some f \<Rightarrow>
               (case f p b st i ev prior of
                  None \<Rightarrow> Inl ''release_evidence_unverified''
                | Some v \<Rightarrow> Inr (ev\<lparr>re_verification := Some v\<rparr>)))"

text \<open>The approvals of the stores that a release of this status takes back.\<close>

definition retired_gates :: "release_status \<Rightarrow> approval_gate_name list" where
  "retired_gates st =
     (if \<not> is_external st then [G_STORE_SUBMISSION, G_PRODUCTION_RELEASE]
      else if st \<noteq> RL_RELEASED then [G_PRODUCTION_RELEASE] else [])"

record release_order =
  ro_buildId :: string
  ro_platform :: string
  ro_packageId :: string
  ro_versionName :: string
  ro_versionCode :: int
  ro_status :: "release_status option"
  ro_storeLocator :: string
  ro_evidence :: release_evidence

definition save_release ::
  "string \<Rightarrow> string \<Rightarrow> release_order \<Rightarrow> release_status \<Rightarrow> gproject \<Rightarrow> gbuild \<Rightarrow> release_evidence \<Rightarrow> ms \<Rightarrow> estore
   \<Rightarrow> response \<times> estore" where
  "save_release rid who q st p b ev at' es =
     (let row = \<lparr>rl_id = rid, rl_projectId = gp_id p, rl_buildId = gb_id b, rl_uid = who, rl_platform = ro_platform q,
            rl_packageId = ro_packageId q, rl_versionName = ro_versionName q, rl_versionCode = ro_versionCode q,
            rl_status = st, rl_storeLocator = ro_storeLocator q, rl_evidence = ev, rl_createdAt = at', rl_updatedAt = at'\<rparr>;
          s1 = invalidate_approvals p (\<lambda>a. ap_gate a \<in> set (retired_gates st)) at' (es_store es);
          s2 = emit_event p ''release.recorded'' None None at' (bump p at' s1)
      in (reply_code 201 [], es\<lparr>es_store := s2, es_releases := es_releases es @ [row]\<rparr>))"

definition recordRelease ::
  "world \<Rightarrow> string \<Rightarrow> string \<Rightarrow> string \<Rightarrow> release_order \<Rightarrow> ms \<Rightarrow> estore \<Rightarrow> response \<times> estore" where
  "recordRelease w rid who pid q at' es =
     (if ro_platform q \<notin> set PLATFORMS then (reply_code 400 ''bad_platform'', es)
      else case ro_status q of
        None \<Rightarrow> (reply_code 400 ''bad_status'', es)
      | Some st \<Rightarrow>
          (case project_row (es_store es) pid who of
             None \<Rightarrow> (reply_code 404 ''not_found'', es)
           | Some p \<Rightarrow>
               let bid = text_or (ro_buildId q) (gp_activeBuildId p);
                   i = (ro_platform q, ro_packageId q, ro_versionName q, ro_versionCode q);
                   prior = prior_release es p bid (ro_platform q) in
               (case (if bid = [] then None else build_row (es_store es) p bid) of
                  None \<Rightarrow> (reply_code 409 ''active_build_required'', es)
                | Some b \<Rightarrow>
                    if bid \<noteq> gp_activeBuildId p then (reply_code 409 ''active_build_required'', es)
                    else if ro_packageId q = [] \<or> ro_versionName q = [] \<or> ro_versionCode q < 1
                    then (reply_code 400 ''release_identity_required'', es)
                    else (case release_refusal w es p st (ro_evidence q) prior i of
                      Some code \<Rightarrow> (reply_code 409 code, es)
                    | None \<Rightarrow>
                        (case verified_evidence w p b st i (ro_evidence q) prior of
                           Inl code \<Rightarrow> (reply_code 409 code, es)
                         | Inr ev \<Rightarrow>
                             if (case prior of None \<Rightarrow> False
                                 | Some r \<Rightarrow> rl_status r = st \<and> w_hashEvidence w (rl_evidence r) = w_hashEvidence w ev
                                     \<and> rl_storeLocator r = ro_storeLocator q)
                             then ((reply_code 200 [])\<lparr>rs_noop := True\<rparr>, es)
                             else if list_ex (\<lambda>r. rl_id r = rid) (es_releases es) then (reply_code 500 ''constraint'', es)
                             else save_release rid who q st p b ev at' es)))))"

section \<open>Runs\<close>

text \<open>\<open>NativeEvidence\<close> is whatever the offline operator's path does: another copy is read for an artifact, the
  game's version grows and an event is written.\<close>

datatype eop =
  Store gop
| RecordArtifact string string string string string int string
| RecordCopy string string string string string string string string
| RecordTest string string string string string string "test_status option" string
| RecordRelease string string string release_order
| NativeEvidence string string copy_row

definition native_evidence :: "string \<Rightarrow> string \<Rightarrow> copy_row \<Rightarrow> ms \<Rightarrow> estore \<Rightarrow> estore" where
  "native_evidence who aid c at' es =
     (case find (\<lambda>a. ar_id a = aid \<and> ar_uid a = who) (es_artifacts es) of
        None \<Rightarrow> es
      | Some a \<Rightarrow>
          (case project_row (es_store es) (ar_projectId a) who of
             None \<Rightarrow> es
           | Some p \<Rightarrow>
               es\<lparr>es_native := (aid, c\<lparr>cp_artifactId := aid, cp_backend := ''chatgpt_project''\<rparr>) # es_native es,
                  es_store := emit_event p ''artifact.native_project_evidence'' None None at' (bump p at' (es_store es))\<rparr>))"

fun estep :: "world \<Rightarrow> (request \<Rightarrow> string) \<Rightarrow> estore \<Rightarrow> ms \<times> eop \<Rightarrow> estore" where
  "estep w digest es (t, Store op) = es\<lparr>es_store := gstep digest (readers_of w es) (es_store es) (t, op)\<rparr>"
| "estep w digest es (t, RecordArtifact aid who pid key hash bytes mime) =
     snd (recordArtifact aid who pid key hash bytes mime t es)"
| "estep w digest es (t, RecordCopy who aid backend locator status fp alg err) =
     snd (recordArtifactCopy who aid backend locator status fp alg err t es)"
| "estep w digest es (t, RecordTest rid who pid bid suite target status sourceHash) =
     snd (recordTestRun rid who pid bid suite target status sourceHash t es)"
| "estep w digest es (t, RecordRelease rid who pid q) = snd (recordRelease w rid who pid q t es)"
| "estep w digest es (t, NativeEvidence who aid c) = native_evidence who aid c t es"

definition erun :: "world \<Rightarrow> (request \<Rightarrow> string) \<Rightarrow> estore \<Rightarrow> (ms \<times> eop) list \<Rightarrow> estore" where
  "erun w digest es ops = foldl (estep w digest) es ops"

end
