(* ===== verification/GameFrame.thy ===== *)
theory GameFrame
  imports GameEvidence GameFacts
begin

text \<open>
  What the operations of the game factory leave alone.  The locale \<open>table_frame\<close> is about any reading of the
  store that the tables of games, tasks, checkpoints, events and commands do not show in; it is used for the
  approvals, as far as who gave them for what, and for the builds.
\<close>

locale table_frame =
  fixes T :: "gstore \<Rightarrow> 'x"
  assumes frame [simp]: "T (gs_projects_update fp s) = T s" "T (gs_tasks_update ft s) = T s"
      "T (gs_checkpoints_update fc s) = T s" "T (gs_events_update fe s) = T s" "T (gs_outbox_update fo s) = T s"
      "T (gs_commands_update fm s) = T s"
    and invalidation [simp]: "T (invalidate_approvals p P t s) = T s"
begin

lemma writes [simp]:
  "T (on_project p f s) = T s" "T (on_tasks Q g s) = T s" "T (move_project p st rs opn bl t s) = T s"
  "T (on_task tk g s) = T s" "T (emit_event p ty a b t s) = T s" "T (createCheckpoint p i r t s) = T s"
  "T (request_operation p opn t s) = T s" "T (bump p t s) = T s" "T (snd (saveCommand who key h x)) = T (snd x)"
  by (simp_all add: on_project_def on_tasks_def move_project_def on_task_def emit_event_def createCheckpoint_def
      request_operation_def saveCommand_def bump_def)

lemma owner_writes [simp]:
  "T (snd (finalizePause p r t s)) = T s" "T (snd (finalizeStop p r t s)) = T s"
  "T (snd (settle_operation p r r' t s)) = T s" "T (unconfirmed p b bl t s) = T s"
  "T (fail_project p st bl t s) = T s" "T (invalidateMaterialChange p r t s) = T s"
  by (simp_all add: finalizePause_def finalizeStop_def settle_operation_def unconfirmed_def fail_project_def
      invalidateMaterialChange_def Let_def)

lemma commands [simp]:
  "T (snd (cmd_transition rdr ex to row t s)) = T s" "T (snd (cmd_pause row t s)) = T s"
  "T (snd (cmd_resume row t s)) = T s" "T (snd (cmd_stop row t s)) = T s" "T (snd (cmd_retry row t s)) = T s"
  "T (snd (cmd_revise reason row t s)) = T s" "T (snd (cmd_block reason row t s)) = T s"
  "T (snd (cmd_attach wid root' sec row t s)) = T s"
  by (simp_all add: cmd_transition_def cmd_pause_def cmd_resume_def cmd_stop_def cmd_retry_def cmd_revise_def
      cmd_block_def cmd_attach_def Let_def split: option.split target.split transition_decision.split)

lemma work [simp]:
  "T (snd (queueTask tid who pid q t s)) = T s" "T (snd (queueSyntheticCanary h tid who key pid t s)) = T s"
  "T (snd (claimNextTask worker cap lease t s)) = T s" "T (snd (heartbeatTask who tid worker a lease t s)) = T s"
  "T (snd (completeTask who tid worker a rst stopped ck t s)) = T s"
  "T (snd (failTask who tid worker a err rt t s)) = T s" "T (snd (securityStopTask who tid a reason t s)) = T s"
  by (simp_all add: queueTask_def queueSyntheticCanary_def claimNextTask_def heartbeatTask_def completeTask_def
      failTask_def securityStopTask_def Let_def case_prod_beta split: option.split sum.split)

lemma seeding [simp]: "T (seedPortfolio uid t s) = T s"
proof -
  have "T (foldl (seed_one u t) s items) = T s" for u items
    by (induction items arbitrary: s) (simp_all add: seed_one_def Let_def)
  then show ?thesis by (simp add: seedPortfolio_def)
qed

lemma reconciling [simp]: "T (reconcile_leases n t s) = T s"
proof -
  have "T (foldl (expire_one t) s ts) = T s" for ts s
    by (induction ts arbitrary: s) (simp_all add: expire_one_def Let_def split: option.split)
  moreover have "T (foldl (settle_one t) s ps) = T s" for ps s
    by (induction ps arbitrary: s) (simp_all add: settle_one_def Let_def)
  ultimately show ?thesis by (simp add: reconcile_leases_def Let_def)
qed

lemma recording [simp]:
  "T (es_store (snd (recordArtifact aid who pid key hash bytes mime t es))) = T (es_store es)"
  "T (es_store (snd (recordArtifactCopy who aid backend loc st fp alg err t es))) = T (es_store es)"
  "T (es_store (snd (recordTestRun rid who pid bid suite target tst src t es))) = T (es_store es)"
  "T (es_store (snd (recordRelease w rid who pid q t es))) = T (es_store es)"
  "T (es_store (native_evidence who aid c t es)) = T (es_store es)"
  by (simp_all add: recordArtifact_def recordArtifactCopy_def recordTestRun_def recordRelease_def save_release_def
      native_evidence_def Let_def split: option.split sum.split)

end

text \<open>The evidence operations keep what the operations of the queue keep.\<close>

context store_safety
begin

lemma bumped: "I s \<Longrightarrow> I (bump p t s)"
  unfolding bump_def by (rule touch) auto

lemma material: "I s \<Longrightarrow> K p \<Longrightarrow> I (invalidateMaterialChange p r t s)"
  unfolding invalidateMaterialChange_def Let_def by (auto intro!: emit_keeps move touch approvals M_from)

lemma row_known: "I s \<Longrightarrow> project_row s pid who = Some p \<Longrightarrow> K p"
  using known project_row_Some by blast

lemma recorded_safe:
  assumes i: "I (es_store es)"
  shows "I (es_store (snd (recordArtifact aid who pid key hash bytes mime t es)))"
    "I (es_store (snd (recordArtifactCopy who aid backend loc st fp alg err t es)))"
    "I (es_store (snd (recordTestRun rid who pid bid suite target tst src t es)))"
    "I (es_store (snd (recordRelease w rid who pid q t es)))"
    "I (es_store (native_evidence who aid c t es))"
  using i row_known [OF i]
  by (auto simp: recordArtifact_def recordArtifactCopy_def recordTestRun_def recordRelease_def save_release_def
      native_evidence_def Let_def emit_iff split: option.split sum.split intro!: material bumped approvals)

lemma estep_safe:
  assumes "I (es_store es)" "\<And>aid who key rq row st. x = Store (Command aid who key rq) \<Longrightarrow>
      project_row (es_store es) (rq_projectId rq) who = Some row \<Longrightarrow>
      enters X (readers_of w es) (es_store es) row (rq_command rq) st \<Longrightarrow> M row st None"
  shows "I (es_store (estep w digest es (t, x)))"
  using assms by (cases x) (auto intro: recorded_safe step_safe)

end

section \<open>Approvals\<close>

text \<open>The approvals in the table, without the mark that takes them back.\<close>

definition unstamped :: "approval \<Rightarrow> approval" where
  "unstamped a = a\<lparr>ap_invalidatedAt := 0\<rparr>"

definition given_approvals :: "gstore \<Rightarrow> approval set" where
  "given_approvals s = unstamped ` {a \<in> set (gs_approvals s). ap_approved a}"

lemma approved_same: "gs_approvals s = gs_approvals s' \<Longrightarrow> given_approvals s = given_approvals s'"
  by (simp add: given_approvals_def)

lemma approved_invalidate: "given_approvals (invalidate_approvals p P t s) = given_approvals s"
proof -
  let ?g = "\<lambda>a. if ap_projectId a = gp_id p \<and> ap_uid a = gp_uid p \<and> P a \<and> ap_invalidatedAt a = 0
      then a\<lparr>ap_invalidatedAt := t\<rparr> else a"
  let ?A = "set (gs_approvals s)"
  have u: "unstamped (?g a) = unstamped a" and k: "ap_approved (?g a) = ap_approved a" for a
    by (simp_all add: unstamped_def)
  have "{a \<in> ?g ` ?A. ap_approved a} = ?g ` {a \<in> ?A. ap_approved a}" using k by blast
  then have "unstamped ` {a \<in> ?g ` ?A. ap_approved a} = (\<lambda>a. unstamped (?g a)) ` {a \<in> ?A. ap_approved a}"
    by (simp only: image_image)
  then show ?thesis by (simp add: u given_approvals_def invalidate_approvals_def set_upd)
qed

interpretation approvals: table_frame given_approvals
  by unfold_locales (auto intro!: approved_same approved_invalidate)

lemma approved_build: "given_approvals (snd (createBuild bid who pid commit t s)) = given_approvals s"
  "given_approvals (snd (updateBuildStatus who pid bid st t s)) = given_approvals s"
proof -
  have b: "given_approvals (gs_builds_update f s) = given_approvals s" for f and s :: gstore by (rule approved_same) simp
  show "given_approvals (snd (createBuild bid who pid commit t s)) = given_approvals s"
    "given_approvals (snd (updateBuildStatus who pid bid st t s)) = given_approvals s"
    by (simp_all add: createBuild_def updateBuildStatus_def Let_def b split: option.split)
qed

section \<open>Builds and games stay\<close>

lemma keys_upd:
  assumes "\<And>r. key (f r) = key r" shows "key ` set (upd P f rs) = key ` set rs"
proof -
  have "map key (upd P f rs) = map key rs" using assms by (rule map_upd_same)
  then show ?thesis by (metis set_map)
qed

definition build_keys :: "gstore \<Rightarrow> (string \<times> string \<times> string) set" where
  "build_keys s = (\<lambda>b. (gb_id b, gb_projectId b, gb_uid b)) ` set (gs_builds s)"

interpretation builds: table_frame build_keys
  by unfold_locales (auto simp: build_keys_def invalidate_approvals_def)

lemma builds_decide: "build_keys (snd (cmd_decide rdr ok g h aid row t s)) = build_keys s"
proof -
  have "build_keys (gs_approvals_update f s) = build_keys s" for f and s :: gstore by (simp add: build_keys_def)
  then show ?thesis by (simp add: cmd_decide_def Let_def split: option.split sum.split)
qed

lemma builds_execute: "build_keys (snd (executeCommand digest rdr aid who key rq t s)) = build_keys s"
  by (auto simp: executeCommand_def run_command_def builds_decide split: option.split gcommand.split)

lemma builds_status: "build_keys (snd (updateBuildStatus who pid bid st t s)) = build_keys s"
proof -
  have "build_keys (s\<lparr>gs_builds := upd P (\<lambda>b. b\<lparr>gb_status := x\<rparr>) (gs_builds s)\<rparr>) = build_keys s" for P x
    by (simp add: build_keys_def keys_upd)
  then show ?thesis by (simp add: updateBuildStatus_def Let_def split: option.split)
qed

lemma builds_create: "build_keys s \<subseteq> build_keys (snd (createBuild bid who pid commit t s))"
proof -
  have "build_keys (s\<lparr>gs_builds := gs_builds s @ [b], gs_checkpoints := c\<rparr>)
      = insert (gb_id b, gb_projectId b, gb_uid b) (build_keys s)" for b c
    by (auto simp: build_keys_def)
  then show ?thesis by (auto simp: createBuild_def Let_def split: option.split)
qed

lemma builds_stay: "build_keys (es_store es) \<subseteq> build_keys (es_store (estep w digest es (t, x)))"
proof (cases x)
  case (Store op)
  show ?thesis unfolding Store
    by (cases op) (auto simp: builds_execute builds_status intro: builds_create [THEN subsetD])
qed simp_all

interpretation games: store_safety "{}" "\<lambda>s. k \<in> project_key ` set (gs_projects s)" "\<lambda>_. True" "\<lambda>_ _ _. True" for k
  by unfold_locales (simp_all add: keys_upd project_key_def move_project_def on_task_def)

end
