(* ===== verification/GameApprovals.thy ===== *)
theory GameApprovals
  imports GameFrame
begin

text \<open>
  Where the approvals of the game factory come from: every approval in the table is the answer of an owner to
  the subject as it was when the owner decided.
\<close>

section \<open>The approvals an operation adds\<close>

text \<open>The approval an owner's decision makes.\<close>

definition makes_approval :: "readers \<Rightarrow> gstore \<Rightarrow> gproject \<Rightarrow> gcommand \<Rightarrow> approval \<Rightarrow> bool" where
  "makes_approval rdr s row c a \<longleftrightarrow>
     (\<exists>h. c = Decide True (Some (ap_gate a)) h \<and> rd_approvalSubject rdr s row (ap_gate a) = Inr (ap_subjectHash a)
        \<and> ap_projectId a = gp_id row \<and> ap_uid a = gp_uid row \<and> ap_buildId a = bound_build row (ap_gate a))"

lemma approved_decide:
  assumes "a \<in> given_approvals (snd (cmd_decide rdr ok g h aid row t s))"
  shows "a \<in> given_approvals s \<or> makes_approval rdr s row (Decide ok g h) a"
proof -
  have "given_approvals (r\<lparr>gs_approvals := gs_approvals r @ [x]\<rparr>) = given_approvals r \<union> (if ap_approved x then {unstamped x} else {})"
    for r x by (auto simp: given_approvals_def)
  with assms show ?thesis
    by (auto simp: cmd_decide_def Let_def makes_approval_def unstamped_def split: option.splits sum.splits if_splits)
qed

lemma approved_command:
  assumes "a \<in> given_approvals (snd (run_command rdr aid c row t s))"
  shows "a \<in> given_approvals s \<or> makes_approval rdr s row c a"
  using assms approved_decide
  by (cases c) (auto simp: run_command_def)

lemma approved_execute:
  assumes "a \<in> given_approvals (snd (executeCommand digest rdr aid who key rq t s))"
  shows "a \<in> given_approvals s
    \<or> (\<exists>row. project_row s (rq_projectId rq) who = Some row \<and> makes_approval rdr s row (rq_command rq) a)"
proof -
  from assms approved_command show ?thesis
    by (auto simp: executeCommand_def split: option.splits if_splits)
qed

lemma approved_step:
  assumes "a \<in> given_approvals (gstep digest rdr s (t, x))"
  shows "a \<in> given_approvals s
    \<or> (\<exists>aid who key rq row. x = Command aid who key rq \<and> project_row s (rq_projectId rq) who = Some row
         \<and> makes_approval rdr s row (rq_command rq) a)"
  using assms approved_execute
  by (cases x) (auto simp: approved_build)

lemma approved_estep:
  assumes "a \<in> given_approvals (es_store (estep w digest es (t, x)))"
  shows "a \<in> given_approvals (es_store es)
    \<or> (\<exists>aid who key rq row. x = Store (Command aid who key rq) \<and> project_row (es_store es) (rq_projectId rq) who = Some row
         \<and> makes_approval (readers_of w es) (es_store es) row (rq_command rq) a)"
  using assms approved_step
  by (cases x) auto

section \<open>What an approval was given for\<close>

text \<open>At operation \<open>n\<close> of a run the owner of the game approved \<open>v\<close>: it was what the gate is about at that time.\<close>

definition approved_at ::
  "world \<Rightarrow> (request \<Rightarrow> string) \<Rightarrow> estore \<Rightarrow> (ms \<times> eop) list \<Rightarrow> nat \<Rightarrow> string \<times> string \<Rightarrow> approval_gate_name \<Rightarrow> subject
   \<Rightarrow> bool" where
  "approved_at w digest es0 ops n k g v \<longleftrightarrow>
     n < length ops \<and> (let es = erun w digest es0 (take n ops) in
       \<exists>t aid who key rq row h. ops ! n = (t, Store (Command aid who key rq)) \<and> rq_command rq = Decide True (Some g) h
         \<and> project_row (es_store es) (rq_projectId rq) who = Some row \<and> project_key row = k
         \<and> subject_refusal es row g = None \<and> subject_of w es row g = v)"

lemma approved_at_append: "approved_at w digest es0 ops n k g v \<Longrightarrow> approved_at w digest es0 (ops @ xs) n k g v"
  by (auto simp: approved_at_def Let_def nth_append)

lemma approved_at_take: "approved_at w digest es0 (take m ops) n k g v \<Longrightarrow> approved_at w digest es0 ops n k g v \<and> n < m"
  by (auto simp: approved_at_def Let_def min_def split: if_splits)

lemma approval_was_given:
  assumes "given_approvals (es_store es0) = {}"
  shows "a \<in> given_approvals (es_store (erun w digest es0 ops)) \<Longrightarrow>
    \<exists>n v. approved_at w digest es0 ops n (ap_projectId a, ap_uid a) (ap_gate a) v \<and> ap_subjectHash a = subject_hash w v"
proof (induction ops arbitrary: a rule: rev_induct)
  case Nil
  with assms show ?case by (simp add: erun_def)
next
  case (snoc x ops)
  let ?es = "erun w digest es0 ops"
  obtain t y where x: "x = (t, y)" by (cases x)
  have "a \<in> given_approvals (es_store (estep w digest ?es (t, y)))" using snoc.prems x by (simp add: erun_def)
  from approved_estep [OF this] show ?case
  proof (elim disjE exE conjE)
    assume "a \<in> given_approvals (es_store ?es)"
    with snoc.IH show ?thesis using approved_at_append by blast
  next
    fix aid who key rq row
    assume c: "y = Store (Command aid who key rq)" "project_row (es_store ?es) (rq_projectId rq) who = Some row"
      "makes_approval (readers_of w ?es) (es_store ?es) row (rq_command rq) a"
    then have "approvalSubject w ?es row (ap_gate a) = Inr (ap_subjectHash a)"
      by (simp add: makes_approval_def readers_of_def subject_now_def)
    then have "subject_refusal ?es row (ap_gate a) = None"
      "ap_subjectHash a = subject_hash w (subject_of w ?es row (ap_gate a))"
      by (simp_all add: approvalSubject_def split: option.splits)
    moreover have "approved_at w digest es0 (ops @ [x]) (length ops) (ap_projectId a, ap_uid a) (ap_gate a)
        (subject_of w ?es row (ap_gate a))"
      using c calculation x by (auto simp: approved_at_def makes_approval_def project_key_def)
    ultimately show ?thesis by blast
  qed
qed

section \<open>Fingerprints\<close>

text \<open>No two contents share a fingerprint, and no fingerprint is empty: what the code takes SHA-256 for.\<close>

definition collision_free :: "world \<Rightarrow> bool" where
  "collision_free w \<longleftrightarrow>
     inj (w_hashArtifacts w) \<and> inj (w_hashTests w) \<and> inj (w_hashIdentities w) \<and> inj (w_hashSubmissions w)
     \<and> inj (w_hashCopies w) \<and> inj (w_hashDescriptor w)
     \<and> [] \<notin> range (w_hashTests w) \<union> range (w_hashIdentities w) \<union> range (w_hashSubmissions w) \<union> range (w_hashCopies w)"

lemma hash_or_empty_inj: "inj h \<Longrightarrow> [] \<notin> range h \<Longrightarrow> hash_or_empty h x = hash_or_empty h y \<Longrightarrow> x = y"
  by (cases x; cases y) (auto simp: hash_or_empty_def image_iff dest: injD sym)

lemma seal_inj: "collision_free w \<Longrightarrow> seal_subject w v = seal_subject w v' \<Longrightarrow> v = v'"
  unfolding collision_free_def seal_subject_def
  by (cases v; cases v') (auto dest: injD hash_or_empty_inj)

lemma subject_hash_inj: "collision_free w \<Longrightarrow> subject_hash w v = subject_hash w v' \<Longrightarrow> v = v'"
  unfolding subject_hash_def by (rule seal_inj) (auto simp: collision_free_def dest: injD)

lemma current_approval_given:
  assumes "given_approvals (es_store es0) = {}" "collision_free w" "approvalIsCurrent w (erun w digest es0 ops) g p"
  shows "\<exists>n. approved_at w digest es0 ops n (project_key p) g (subject_of w (erun w digest es0 ops) p g)"
proof -
  let ?es = "erun w digest es0 ops"
  obtain a where a: "a \<in> set (gs_approvals (es_store ?es))" "ap_approved a" "ap_projectId a = gp_id p" "ap_uid a = gp_uid p"
    "ap_gate a = g" "ap_subjectHash a = subject_hash w (subject_of w ?es p g)"
    using assms(3) by (auto simp: approvalIsCurrent_def approvalSubject_def list_ex_iff split: option.splits)
  then have "unstamped a \<in> given_approvals (es_store ?es)" by (simp add: given_approvals_def)
  from approval_was_given [OF assms(1) this] a obtain n v where
    "approved_at w digest es0 ops n (project_key p) g v" "subject_hash w v = subject_hash w (subject_of w ?es p g)"
    by (auto simp: unstamped_def project_key_def)
  with subject_hash_inj [OF assms(2)] show ?thesis by blast
qed

end
