(* ===== verification/GameReleases.thy ===== *)
theory GameReleases
  imports GameFrame
begin

text \<open>
  The release rows of the game factory: which rows \<open>recordRelease\<close> writes, the descent of a row from the
  rows before it, and the well-formedness of the evidence tables.
\<close>

section \<open>Newest rows\<close>

lemma set_newest_rows [simp]: "set (newest_rows f xs) = set xs"
  by (simp add: newest_rows_def)

lemma set_first_by: "x \<in> set (first_by f xs) \<Longrightarrow> x \<in> set xs"
  by (induction f xs rule: first_by.induct) auto

lemma first_by_key: "f ` set (first_by f xs) = f ` set xs"
proof (induction f xs rule: first_by.induct)
  case (2 f x xs)
  have "f ` set xs \<subseteq> insert (f x) (f ` set (filter (\<lambda>y. f y \<noteq> f x) xs))" by auto
  with 2 show ?case by auto
qed simp

lemma distinct_first_by: "distinct (map f (first_by f xs))"
proof (induction f xs rule: first_by.induct)
  case (2 f x xs)
  have "f x \<notin> f ` set (first_by f (filter (\<lambda>y. f y \<noteq> f x) xs))" by (auto simp: first_by_key)
  with 2 show ?case by simp
qed simp

lemma find_first_by: "find (\<lambda>r. f r = k) (first_by f xs) = find (\<lambda>r. f r = k) xs"
proof (induction f xs rule: first_by.induct)
  case (2 f x xs)
  have "find (\<lambda>r. f r = k) (filter (\<lambda>y. f y \<noteq> f x) xs) = find (\<lambda>r. f r = k) xs" if "f x \<noteq> k"
    using that by (induction xs) auto
  with 2 show ?case by auto
qed simp

text \<open>The row a release goes on from is the newest row of its platform, the one approvals and transitions see.\<close>

lemma prior_is_latest: "prior_release es p (gp_activeBuildId p) pf = latest_release es p pf"
proof -
  have "find (\<lambda>r. rl_platform r = pf) (filter (\<lambda>r. rl_buildId r = b) xs)
      = find (\<lambda>r. rl_buildId r = b \<and> rl_platform r = pf) xs" for b and xs :: "release_row list"
    by (induction xs) auto
  then show ?thesis by (simp add: prior_release_def latest_release_def latest_releases_def find_first_by)
qed

lemma latest_release_Some:
  "latest_release es p pf = Some r \<Longrightarrow> r \<in> set (es_releases es) \<and> rl_projectId r = gp_id p \<and> rl_uid r = gp_uid p
    \<and> rl_buildId r = gp_activeBuildId p \<and> rl_platform r = pf"
  by (auto simp: latest_release_def latest_releases_def releases_of_def find_Some_iff dest!: set_first_by nth_mem)

lemma released_platform:
  assumes "pf \<in> set (map rl_platform (filter (\<lambda>r. rl_status r = RL_RELEASED) (latest_releases es p)))"
  shows "\<exists>r. latest_release es p pf = Some r \<and> rl_status r = RL_RELEASED"
proof -
  obtain r where r: "r \<in> set (latest_releases es p)" "rl_status r = RL_RELEASED" "rl_platform r = pf" using assms by auto
  have d: "distinct (map rl_platform (latest_releases es p))"
    by (simp add: latest_releases_def distinct_first_by)
  have "latest_release es p pf \<noteq> None" using r by (auto simp: latest_release_def find_None_iff)
  then obtain q where q: "latest_release es p pf = Some q" by blast
  then have "q \<in> set (latest_releases es p)" "rl_platform q = pf" by (auto simp: latest_release_def find_Some_iff)
  then have "q = r" using by_id [OF d] r by metis
  with q r show ?thesis by simp
qed

section \<open>What a release row rests on\<close>

lemma build_row_Some:
  "build_row s p bid = Some b \<Longrightarrow> b \<in> set (gs_builds s) \<and> gb_id b = bid \<and> gb_projectId b = gp_id p \<and> gb_uid b = gp_uid p"
  by (auto simp: build_row_def find_Some_iff)

definition accepted ::
  "world \<Rightarrow> estore \<Rightarrow> string \<Rightarrow> string \<Rightarrow> string \<Rightarrow> release_order \<Rightarrow> gproject \<Rightarrow> gbuild \<Rightarrow> release_status \<Rightarrow> release_evidence
   \<Rightarrow> bool" where
  "accepted w es rid who pid q p b st ev \<longleftrightarrow>
     (let i = (ro_platform q, ro_packageId q, ro_versionName q, ro_versionCode q);
          prior = latest_release es p (ro_platform q)
      in ro_platform q \<in> set PLATFORMS \<and> ro_status q = Some st \<and> project_row (es_store es) pid who = Some p
        \<and> build_row (es_store es) p (gp_activeBuildId p) = Some b
        \<and> ro_packageId q \<noteq> [] \<and> ro_versionName q \<noteq> [] \<and> 1 \<le> ro_versionCode q
        \<and> release_refusal w es p st (ro_evidence q) prior i = None
        \<and> verified_evidence w p b st i (ro_evidence q) prior = Inr ev
        \<and> rid \<notin> rl_id ` set (es_releases es))"

lemma recordRelease_cases:
  "snd (recordRelease w rid who pid q t es) = es
   \<or> (\<exists>p b st ev. accepted w es rid who pid q p b st ev
        \<and> snd (recordRelease w rid who pid q t es) = snd (save_release rid who q st p b ev t es))"
proof -
  have "(\<exists>p b st ev. accepted w es rid who pid q p b st ev
        \<and> snd (recordRelease w rid who pid q t es) = snd (save_release rid who q st p b ev t es))"
    if n: "snd (recordRelease w rid who pid q t es) \<noteq> es"
  proof -
    let ?i = "(ro_platform q, ro_packageId q, ro_versionName q, ro_versionCode q)"
    obtain st p where st: "ro_platform q \<in> set PLATFORMS" "ro_status q = Some st" "project_row (es_store es) pid who = Some p"
      using n by (auto simp: recordRelease_def split: option.splits if_splits)
    have bid: "text_or (ro_buildId q) (gp_activeBuildId p) = gp_activeBuildId p"
      using n st by (auto simp: recordRelease_def Let_def split: option.splits if_splits)
    obtain b where b: "gp_activeBuildId p \<noteq> []" "build_row (es_store es) p (gp_activeBuildId p) = Some b"
      using n st by (auto simp: recordRelease_def Let_def bid split: option.splits if_splits)
    have i: "ro_packageId q \<noteq> [] \<and> ro_versionName q \<noteq> [] \<and> 1 \<le> ro_versionCode q"
      using n st b by (auto simp: recordRelease_def Let_def bid split: option.splits if_splits)
    have r: "release_refusal w es p st (ro_evidence q) (latest_release es p (ro_platform q)) ?i = None"
      using n st b i
      by (auto simp: recordRelease_def Let_def bid prior_is_latest split: option.splits if_splits)
    obtain ev where ev: "verified_evidence w p b st ?i (ro_evidence q) (latest_release es p (ro_platform q)) = Inr ev"
      using n st b i r
      by (auto simp: recordRelease_def Let_def bid prior_is_latest split: sum.splits)
    show ?thesis
      using n st b i r ev
      by (intro exI [of _ p] exI [of _ b] exI [of _ st] exI [of _ ev])
         (auto simp: accepted_def recordRelease_def Let_def bid prior_is_latest list_ex_iff split: if_splits)
  qed
  then show ?thesis by blast
qed

lemma save_release_rows:
  "es_releases (snd (save_release rid who q st p b ev t es)) = es_releases es @
     [\<lparr>rl_id = rid, rl_projectId = gp_id p, rl_buildId = gb_id b, rl_uid = who, rl_platform = ro_platform q,
       rl_packageId = ro_packageId q, rl_versionName = ro_versionName q, rl_versionCode = ro_versionCode q,
       rl_status = st, rl_storeLocator = ro_storeLocator q, rl_evidence = ev, rl_createdAt = t, rl_updatedAt = t\<rparr>]"
  by (simp add: save_release_def Let_def)

lemma releases_kept [simp]:
  "es_releases (snd (recordArtifact aid who pid key hash bytes mime t es)) = es_releases es"
  "es_releases (snd (recordArtifactCopy who aid backend loc st fp alg err t es)) = es_releases es"
  "es_releases (snd (recordTestRun rid who pid bid suite target tst src t es)) = es_releases es"
  "es_releases (native_evidence who aid c t es) = es_releases es"
  by (simp_all add: recordArtifact_def recordArtifactCopy_def recordTestRun_def native_evidence_def Let_def
      split: option.split)

text \<open>Two rows of the same release: one platform of one build of one game, under one package identity.\<close>

definition same_release :: "release_row \<Rightarrow> release_row \<Rightarrow> bool" where
  "same_release r r' \<longleftrightarrow>
     rl_projectId r = rl_projectId r' \<and> rl_uid r = rl_uid r' \<and> rl_buildId r = rl_buildId r'
     \<and> rl_platform r = rl_platform r' \<and> rl_packageId r = rl_packageId r' \<and> rl_versionName r = rl_versionName r'
     \<and> rl_versionCode r = rl_versionCode r'"

definition rooted :: "release_row set \<Rightarrow> release_row \<Rightarrow> bool" where
  "rooted earlier r \<longleftrightarrow>
     (is_external (rl_status r) \<longrightarrow> re_verification (rl_evidence r) \<noteq> None
        \<and> (\<exists>q \<in> earlier. same_release q r \<and> rl_status q = RL_READY))
     \<and> (rl_status r \<in> {RL_SUBMITTED, RL_RELEASED} \<longrightarrow> is_sha256 (receipt r))
     \<and> (rl_status r = RL_RELEASED \<longrightarrow> is_sha256 (lowercase (re_releaseReceipt (rl_evidence r)))
        \<and> (\<exists>q \<in> earlier. same_release q r \<and> rl_status q = RL_SUBMITTED \<and> receipt q = receipt r))"

inductive lineage :: "release_row list \<Rightarrow> bool" where
  lineage_Nil: "lineage []"
| lineage_snoc: "lineage rs \<Longrightarrow> rooted (set rs) r \<Longrightarrow> lineage (rs @ [r])"

lemma lineage_split: "lineage rs \<Longrightarrow> rs = xs @ r # ys \<Longrightarrow> rooted (set xs) r"
proof (induction rs arbitrary: ys rule: lineage.induct)
  case (lineage_snoc rs q)
  show ?case
  proof (cases ys rule: rev_cases)
    case Nil
    with lineage_snoc.prems lineage_snoc.hyps show ?thesis by simp
  next
    case (snoc zs z)
    with lineage_snoc.prems have "rs = xs @ r # zs" by simp
    then show ?thesis by (rule lineage_snoc.IH)
  qed
qed simp

lemma rooted_mono: "rooted A r \<Longrightarrow> A \<subseteq> B \<Longrightarrow> rooted B r"
  by (auto simp: rooted_def)

lemma lineage_member: "lineage rs \<Longrightarrow> r \<in> set rs \<Longrightarrow> rooted (set rs) r"
proof -
  assume l: "lineage rs" and "r \<in> set rs"
  then obtain xs ys where "rs = xs @ r # ys" by (auto simp: in_set_conv_decomp)
  with lineage_split [OF l this] show ?thesis by (auto elim: rooted_mono)
qed

lemma same_release_trans: "same_release q r \<Longrightarrow> same_release r s \<Longrightarrow> same_release q s"
  by (simp add: same_release_def)

text \<open>What the checks leave of a row with an external status.\<close>

lemma external_prior:
  assumes "release_refusal w es p st ev prior i = None" "is_external st"
  shows "\<exists>r. prior = Some r \<and> same_identity i r \<and> st \<in> set (allowedAfter (rl_status r))
    \<and> (st \<in> {RL_SUBMITTED, RL_RELEASED} \<longrightarrow> is_sha256 (lowercase (re_submissionReceipt ev)))
    \<and> (st = RL_RELEASED \<longrightarrow> is_sha256 (lowercase (re_releaseReceipt ev))
         \<and> lowercase (re_submissionReceipt ev) = receipt r)"
  using assms by (cases prior) (auto simp: release_refusal_def is_external_def split: if_splits)

lemma external_verified:
  "verified_evidence w p b st i ev prior = Inr ev' \<Longrightarrow> is_external st \<Longrightarrow>
    re_verification ev' \<noteq> None \<and> re_submissionReceipt ev' = re_submissionReceipt ev
    \<and> re_releaseReceipt ev' = re_releaseReceipt ev"
  by (auto simp: verified_evidence_def split: option.splits)

lemma external_before:
  assumes "st \<in> set (allowedAfter st')" "is_external st"
  shows "st' = RL_READY \<and> st \<noteq> RL_RELEASED \<or> is_external st' \<and> (st = RL_RELEASED \<longrightarrow> st' \<in> {RL_SUBMITTED, RL_RELEASED})"
  using assms by (cases st') (auto simp: is_external_def)

lemma accepted_rooted:
  assumes l: "lineage (es_releases es)" and a: "accepted w es rid who pid q p b st ev"
    and r: "es_releases (snd (save_release rid who q st p b ev t es)) = es_releases es @ [r]"
  shows "rooted (set (es_releases es)) r"
proof (cases "is_external st")
  case False
  with r show ?thesis by (auto simp: save_release_rows rooted_def is_external_def)
next
  case True
  let ?i = "(ro_platform q, ro_packageId q, ro_versionName q, ro_versionCode q)"
  let ?prior = "latest_release es p (ro_platform q)"
  have row: "project_row (es_store es) pid who = Some p" and build: "build_row (es_store es) p (gp_activeBuildId p) = Some b"
    and ok: "release_refusal w es p st (ro_evidence q) ?prior ?i = None"
    and v: "verified_evidence w p b st ?i (ro_evidence q) ?prior = Inr ev"
    using a by (simp_all add: accepted_def Let_def)
  obtain x where x: "?prior = Some x" "same_identity ?i x" "st \<in> set (allowedAfter (rl_status x))"
    and rc: "st \<in> {RL_SUBMITTED, RL_RELEASED} \<Longrightarrow> is_sha256 (lowercase (re_submissionReceipt (ro_evidence q)))"
    and rel: "st = RL_RELEASED \<Longrightarrow> is_sha256 (lowercase (re_releaseReceipt (ro_evidence q)))
         \<and> lowercase (re_submissionReceipt (ro_evidence q)) = receipt x"
    using external_prior [OF ok True] by blast
  have ev: "re_verification ev \<noteq> None" "re_submissionReceipt ev = re_submissionReceipt (ro_evidence q)"
    "re_releaseReceipt ev = re_releaseReceipt (ro_evidence q)"
    using external_verified [OF v True] by simp_all
  have mem: "x \<in> set (es_releases es)" and key: "same_release x r"
    using latest_release_Some [OF x(1)] x(2) r project_row_Some [OF row] build_row_Some [OF build]
    by (auto simp: save_release_rows same_release_def same_identity_def)
  have rs: "rl_status r = st" "rl_evidence r = ev" using r by (auto simp: save_release_rows)
  have old: "rooted (set (es_releases es)) x" by (rule lineage_member [OF l mem])
  note before = external_before [OF x(3) True]
  have "\<exists>y \<in> set (es_releases es). same_release y r \<and> rl_status y = RL_READY"
    using before old mem key same_release_trans by (fastforce simp: rooted_def)
  moreover have "\<exists>y \<in> set (es_releases es). same_release y r \<and> rl_status y = RL_SUBMITTED \<and> receipt y = receipt r"
    if d: "st = RL_RELEASED"
  proof -
    have "receipt r = receipt x" using rel [OF d] rs ev by (simp add: receipt_def)
    moreover have "rl_status x = RL_SUBMITTED \<or> rl_status x = RL_RELEASED" using before d by auto
    ultimately show ?thesis using old mem key same_release_trans unfolding rooted_def by metis
  qed
  ultimately show ?thesis using ev rc rel rs by (auto simp: rooted_def receipt_def)
qed

lemma lineage_step: "lineage (es_releases es) \<Longrightarrow> lineage (es_releases (estep w digest es (t, x)))"
proof (cases x)
  case (RecordRelease rid who pid q)
  assume l: "lineage (es_releases es)"
  show ?thesis using recordRelease_cases [of w rid who pid q t es]
  proof (elim disjE exE conjE)
    fix p b st ev
    assume a: "accepted w es rid who pid q p b st ev"
      and e: "snd (recordRelease w rid who pid q t es) = snd (save_release rid who q st p b ev t es)"
    obtain r where r: "es_releases (snd (save_release rid who q st p b ev t es)) = es_releases es @ [r]"
      by (simp add: save_release_rows)
    from lineage_snoc [OF l accepted_rooted [OF l a r]] r e RecordRelease show ?thesis by simp
  qed (use l RecordRelease in simp)
qed auto

lemma lineage_run: "lineage (es_releases es) \<Longrightarrow> lineage (es_releases (erun w digest es ops))"
  unfolding erun_def by (induction ops arbitrary: es) (auto intro: lineage_step)

section \<open>Well-formed tables\<close>

definition has_build :: "gstore \<Rightarrow> string \<Rightarrow> string \<Rightarrow> string \<Rightarrow> bool" where
  "has_build s bid pid uid \<longleftrightarrow> (bid, pid, uid) \<in> build_keys s"

definition has_game :: "gstore \<Rightarrow> string \<Rightarrow> string \<Rightarrow> bool" where
  "has_game s pid uid \<longleftrightarrow> (pid, uid) \<in> project_key ` set (gs_projects s)"

definition wf_artifact :: "gstore \<Rightarrow> artifact_row \<Rightarrow> bool" where
  "wf_artifact s a \<longleftrightarrow> has_game s (ar_projectId a) (ar_uid a) \<and> is_sha256 (ar_sha256 a) \<and> 1 \<le> ar_version a \<and> 0 \<le> ar_bytes a"

definition wf_copy :: "artifact_row list \<Rightarrow> copy_row \<Rightarrow> bool" where
  "wf_copy as c \<longleftrightarrow> cp_backend c \<in> {''primary'', ''google_drive''}
     \<and> (\<exists>a \<in> set as. ar_id a = cp_artifactId c
          \<and> (cp_status c = ''VERIFIED'' \<and> cp_algorithm c = ''sha256'' \<longrightarrow> cp_fingerprint c = ar_sha256 a))"

definition wf_test :: "gstore \<Rightarrow> test_row \<Rightarrow> bool" where
  "wf_test s t \<longleftrightarrow> has_game s (tr_projectId t) (tr_uid t) \<and> tr_suite t \<in> set QA_REQUIRED_SUITES
     \<and> (tr_buildId t \<noteq> [] \<longrightarrow> has_build s (tr_buildId t) (tr_projectId t) (tr_uid t))"

definition wf_release :: "gstore \<Rightarrow> release_row \<Rightarrow> bool" where
  "wf_release s r \<longleftrightarrow> has_game s (rl_projectId r) (rl_uid r) \<and> has_build s (rl_buildId r) (rl_projectId r) (rl_uid r)
     \<and> rl_platform r \<in> set PLATFORMS \<and> rl_packageId r \<noteq> [] \<and> rl_versionName r \<noteq> [] \<and> 1 \<le> rl_versionCode r"

definition artifact_key :: "artifact_row \<Rightarrow> string \<times> string \<times> nat" where
  "artifact_key a = (ar_projectId a, ar_key a, ar_version a)"

definition copy_key :: "copy_row \<Rightarrow> string \<times> string" where
  "copy_key c = (cp_artifactId c, cp_backend c)"

definition wf_evidence :: "estore \<Rightarrow> bool" where
  "wf_evidence es \<longleftrightarrow>
     distinct (map ar_id (es_artifacts es)) \<and> distinct (map artifact_key (es_artifacts es))
     \<and> distinct (map copy_key (es_copies es)) \<and> distinct (map tr_id (es_tests es)) \<and> distinct (map rl_id (es_releases es))
     \<and> (\<forall>a \<in> set (es_artifacts es). wf_artifact (es_store es) a)
     \<and> (\<forall>c \<in> set (es_copies es). wf_copy (es_artifacts es) c)
     \<and> (\<forall>t \<in> set (es_tests es). wf_test (es_store es) t)
     \<and> (\<forall>r \<in> set (es_releases es). wf_release (es_store es) r)"

text \<open>A store in which every game and every build is still there.\<close>

definition keeps :: "gstore \<Rightarrow> gstore \<Rightarrow> bool" where
  "keeps s s' \<longleftrightarrow> build_keys s \<subseteq> build_keys s' \<and> project_key ` set (gs_projects s) \<subseteq> project_key ` set (gs_projects s')"

lemma keeps_rows:
  assumes "keeps s s'"
  shows "wf_artifact s a \<Longrightarrow> wf_artifact s' a" "wf_test s t \<Longrightarrow> wf_test s' t" "wf_release s r \<Longrightarrow> wf_release s' r"
  using assms by (auto simp: keeps_def wf_artifact_def wf_test_def wf_release_def has_game_def has_build_def)

lemma wf_keeps: "wf_evidence es \<Longrightarrow> keeps (es_store es) s \<Longrightarrow> wf_evidence (es\<lparr>es_store := s\<rparr>)"
  by (auto simp: wf_evidence_def dest: keeps_rows)

lemma estep_keeps: "keeps (es_store es) (es_store (estep w digest es (t, x)))"
  unfolding keeps_def
proof (intro conjI subsetI)
  show "k \<in> project_key ` set (gs_projects (es_store (estep w digest es (t, x))))"
    if "k \<in> project_key ` set (gs_projects (es_store es))" for k
    using that by (rule games.estep_safe) simp
qed (use builds_stay in blast)

lemma project_row_game: "project_row s pid who = Some p \<Longrightarrow> has_game s (gp_id p) who \<and> gp_uid p = who"
  using project_row_Some by (fastforce simp: has_game_def project_key_def)

lemma build_row_has: "build_row s p bid = Some b \<Longrightarrow> has_build s bid (gp_id p) (gp_uid p)"
  using build_row_Some by (fastforce simp: has_build_def build_keys_def)

lemma max_bound: "(v::nat) \<in> set vs \<Longrightarrow> v \<le> foldr max vs 0"
  by (induction vs) auto

lemma wf_recordArtifact:
  assumes wf: "wf_evidence es" and k: "keeps (es_store es) (es_store es')"
    and e: "es' = snd (recordArtifact aid who pid key hash bytes mime t es)"
  shows "wf_evidence es'"
proof (cases "es' = es")
  case False
  then obtain p where p: "is_sha256 hash" "project_row (es_store es) pid who = Some p" "aid \<notin> ar_id ` set (es_artifacts es)"
    using e by (auto simp: recordArtifact_def list_ex_iff split: option.splits if_splits)
  define prior where "prior = map ar_version (filter (\<lambda>a. ar_projectId a = gp_id p \<and> ar_key a = key) (es_artifacts es))"
  define row where "row = \<lparr>ar_id = aid, ar_projectId = gp_id p, ar_uid = who, ar_key = key,
      ar_version = foldr max prior 0 + 1, ar_sha256 = hash, ar_bytes = max bytes 0, ar_mimeType = mime, ar_createdAt = t\<rparr>"
  have t: "es_artifacts es' = es_artifacts es @ [row]" "es_copies es' = es_copies es" "es_tests es' = es_tests es"
    "es_releases es' = es_releases es"
    using e p False by (auto simp: recordArtifact_def Let_def row_def prior_def list_ex_iff split: if_splits)
  have "artifact_key row \<notin> artifact_key ` set (es_artifacts es)"
  proof
    assume "artifact_key row \<in> artifact_key ` set (es_artifacts es)"
    then have "ar_version row \<in> set prior" by (auto simp: artifact_key_def prior_def row_def)
    with max_bound show False by (fastforce simp: row_def)
  qed
  moreover have "wf_artifact (es_store es') row"
    by (rule keeps_rows(1) [OF k]) (use p project_row_game [OF p(2)] in \<open>simp add: wf_artifact_def row_def\<close>)
  moreover have "aid = ar_id row" by (simp add: row_def)
  moreover have "wf_copy (es_artifacts es') c" if "wf_copy (es_artifacts es) c" for c
    using that by (auto simp: wf_copy_def t)
  ultimately show ?thesis using wf_keeps [OF wf k] p(3) by (simp add: wf_evidence_def t)
qed (use wf in simp)

lemma put_copy_key: "copy_key ` set (put_copy c cs) \<subseteq> insert (copy_key c) (copy_key ` set cs)"
  "distinct (map copy_key cs) \<Longrightarrow> distinct (map copy_key (put_copy c cs))"
proof -
  let ?same = "\<lambda>r. cp_artifactId r = cp_artifactId c \<and> cp_backend r = cp_backend c"
  have "map copy_key (upd ?same (\<lambda>r. c\<lparr>cp_attempts := cp_attempts r + 1\<rparr>) xs) = map copy_key xs" for xs
    by (induction xs) (auto simp: copy_key_def)
  then show "distinct (map copy_key cs) \<Longrightarrow> distinct (map copy_key (put_copy c cs))"
    by (auto simp: put_copy_def Let_def list_ex_iff copy_key_def)
  show "copy_key ` set (put_copy c cs) \<subseteq> insert (copy_key c) (copy_key ` set cs)"
    by (auto simp: put_copy_def Let_def set_upd copy_key_def)
qed

lemma wf_recordCopy:
  assumes wf: "wf_evidence es" and k: "keeps (es_store es) (es_store es')"
    and e: "es' = snd (recordArtifactCopy who aid backend loc st fp alg err t es)"
  shows "wf_evidence es'"
proof (cases "es' = es")
  case False
  then obtain a where a: "backend \<in> set KNOWN_ARTIFACT_BACKENDS" "backend \<noteq> ''chatgpt_project''"
    "find (\<lambda>a. ar_id a = aid \<and> ar_uid a = who) (es_artifacts es) = Some a"
    using e by (auto simp: recordArtifactCopy_def split: option.splits if_splits)
  obtain c where t: "es_copies es' = put_copy c (es_copies es)" and c: "cp_artifactId c = aid" "cp_backend c = backend"
    "cp_status c = copy_verdict st (cp_algorithm c) (cp_fingerprint c) a"
    using e a False by (auto simp: recordArtifactCopy_def Let_def split: option.splits)
  have s: "es_artifacts es' = es_artifacts es" "es_tests es' = es_tests es" "es_releases es' = es_releases es"
    using e by (auto simp: recordArtifactCopy_def Let_def split: option.splits)
  have "a \<in> set (es_artifacts es)" "ar_id a = aid" using a(3) by (auto simp: find_Some_iff)
  then have "wf_copy (es_artifacts es) (c\<lparr>cp_attempts := n\<rparr>)" "wf_copy (es_artifacts es) c" for n
    using a(1,2) c by (auto simp: wf_copy_def KNOWN_ARTIFACT_BACKENDS_def MANDATORY_ARTIFACT_BACKENDS_def copy_verdict_def
        Let_def intro!: bexI [of _ a])
  then have "\<forall>x \<in> set (put_copy c (es_copies es)). wf_copy (es_artifacts es) x"
    using wf by (auto simp: put_copy_def Let_def set_upd wf_evidence_def)
  with wf_keeps [OF wf k] put_copy_key(2) show ?thesis by (simp add: wf_evidence_def t s)
qed (use wf in simp)

lemma wf_recordTest:
  assumes wf: "wf_evidence es" and k: "keeps (es_store es) (es_store es')"
    and e: "es' = snd (recordTestRun rid who pid bid suite target tst src t es)"
  shows "wf_evidence es'"
proof (cases "es' = es")
  case False
  have su: "suite \<in> set QA_REQUIRED_SUITES" using e False by (intro ccontr [of "suite \<in> set QA_REQUIRED_SUITES"]) (simp add: recordTestRun_def)
  have "tst \<noteq> None" "project_row (es_store es) pid who \<noteq> None"
    using e False su by (cases tst; simp add: recordTestRun_def split: option.splits)+
  then obtain st p where p: "suite \<in> set QA_REQUIRED_SUITES" "tst = Some st" "project_row (es_store es) pid who = Some p"
    using su by blast
  have b: "\<not> (text_or bid (gp_activeBuildId p) \<noteq> [] \<and> build_row (es_store es) p (text_or bid (gp_activeBuildId p)) = None)"
    and n: "\<not> list_ex (\<lambda>t. tr_id t = rid) (es_tests es)"
    using e False p by (simp_all add: recordTestRun_def Let_def split: if_splits)
  define row where "row = \<lparr>tr_id = rid, tr_projectId = gp_id p, tr_buildId = text_or bid (gp_activeBuildId p), tr_uid = who,
      tr_suite = suite, tr_target = target, tr_status = st, tr_sourceHash = src, tr_createdAt = t\<rparr>"
  have t: "es_tests es' = es_tests es @ [row]" "es_copies es' = es_copies es" "es_artifacts es' = es_artifacts es"
    "es_releases es' = es_releases es"
    using e p b n by (simp_all add: recordTestRun_def Let_def row_def)
  have "wf_test (es_store es') row"
    by (rule keeps_rows(2) [OF k])
       (use p(1) b project_row_game [OF p(3)] build_row_has in \<open>auto simp: wf_test_def row_def\<close>)
  moreover have "rid = tr_id row" by (simp add: row_def)
  ultimately show ?thesis using wf_keeps [OF wf k] n
    by (simp add: wf_evidence_def t list_ex_iff image_iff eq_commute)
qed (use wf in simp)

lemma wf_recordRelease:
  assumes wf: "wf_evidence es" and k: "keeps (es_store es) (es_store es')"
    and e: "es' = snd (recordRelease w rid who pid q t es)"
  shows "wf_evidence es'"
  using recordRelease_cases [of w rid who pid q t es]
proof (elim disjE exE conjE)
  fix p b st ev
  assume a: "accepted w es rid who pid q p b st ev"
    and s: "snd (recordRelease w rid who pid q t es) = snd (save_release rid who q st p b ev t es)"
  obtain row where row: "es_releases (snd (save_release rid who q st p b ev t es)) = es_releases es @ [row]"
    by (simp add: save_release_rows)
  have p: "project_row (es_store es) pid who = Some p" and b: "build_row (es_store es) p (gp_activeBuildId p) = Some b"
    and i: "rid \<notin> rl_id ` set (es_releases es)" "ro_platform q \<in> set PLATFORMS" "ro_packageId q \<noteq> []"
      "ro_versionName q \<noteq> []" "1 \<le> ro_versionCode q"
    using a by (simp_all add: accepted_def Let_def)
  have t: "es_tests es' = es_tests es" "es_copies es' = es_copies es" "es_artifacts es' = es_artifacts es"
    "es_releases es' = es_releases es @ [row]"
    using e s row by (simp_all add: save_release_def Let_def)
  have "wf_release (es_store es') row"
    by (rule keeps_rows(3) [OF k])
       (use row i build_row_Some [OF b] build_row_has [OF b] project_row_game [OF p] in
         \<open>auto simp: wf_release_def save_release_rows\<close>)
  moreover have "rl_id row = rid" using row by (auto simp: save_release_rows)
  ultimately show ?thesis using wf_keeps [OF wf k] i(1) by (simp add: wf_evidence_def t)
qed (use wf e in simp)

lemma wf_evidence_step: assumes "wf_evidence es" shows "wf_evidence (estep w digest es (t, x))"
proof (cases x)
  case (Store op)
  then show ?thesis using wf_keeps [OF assms] estep_keeps [of es w digest t x] by simp
next
  case (NativeEvidence who aid c)
  let ?es = "native_evidence who aid c t es"
  have "es_artifacts ?es = es_artifacts es" "es_copies ?es = es_copies es" "es_tests ?es = es_tests es"
    by (simp_all add: native_evidence_def Let_def split: option.split)
  then show ?thesis using estep_keeps [of es w digest t x] assms NativeEvidence
    by (auto simp: wf_evidence_def dest: keeps_rows)
next
  case RecordArtifact
  then show ?thesis by (intro wf_recordArtifact [OF assms estep_keeps]) simp
next
  case RecordCopy
  then show ?thesis by (intro wf_recordCopy [OF assms estep_keeps]) simp
next
  case RecordTest
  then show ?thesis by (intro wf_recordTest [OF assms estep_keeps]) simp
next
  case RecordRelease
  then show ?thesis by (intro wf_recordRelease [OF assms estep_keeps]) simp
qed

lemma wf_evidence_run: "wf_evidence es \<Longrightarrow> wf_evidence (erun w digest es ops)"
  unfolding erun_def by (induction ops arbitrary: es) (auto intro: wf_evidence_step)

end
