(* ===== verification/GameLaunch.thy ===== *)
theory GameLaunch
  imports GameApprovals GameReleases GameProps
begin

text \<open>
  The launch of a game in the game factory, from the evidence to the deployed state, and the properties of the
  evidence tables.
\<close>

section \<open>The launch command\<close>

text \<open>Operation \<open>n\<close> of a run is a command on the game \<open>k\<close>, given in store preparation with the evidence for a launch,
  and it launches the game; \<open>row\<close> is the game as the command found it.\<close>

definition launched_at ::
  "world \<Rightarrow> (request \<Rightarrow> string) \<Rightarrow> estore \<Rightarrow> (ms \<times> eop) list \<Rightarrow> nat \<Rightarrow> string \<times> string \<Rightarrow> gproject \<Rightarrow> bool" where
  "launched_at w digest es0 ops n k row \<longleftrightarrow>
     n < length ops \<and> (let es = erun w digest es0 (take n ops) in
       (\<exists>t aid who key rq. ops ! n = (t, Store (Command aid who key rq))
          \<and> project_row (es_store es) (rq_projectId rq) who = Some row)
       \<and> project_key row = k \<and> gp_state row = STORE_PREP \<and> gate_evidence LaunchGate (evidenceFor w es row)
       \<and> (\<forall>q \<in> set (gs_projects (es_store es)). project_key q = k \<longrightarrow> \<not> late (behind LaunchGate) q)
       \<and> (\<exists>q \<in> set (gs_projects (es_store (erun w digest es0 (take (Suc n) ops)))).
            project_key q = k \<and> late (behind LaunchGate) q))"

lemma launched_at_append: "launched_at w digest es0 ops n k row \<Longrightarrow> launched_at w digest es0 (ops @ xs) n k row"
  by (auto simp: launched_at_def Let_def nth_append)

lemma readers_of_now: "rd_evidenceFor (readers_of w es) (es_store es) p = evidenceFor w es p"
  by (simp add: readers_of_def evidence_now_def)

lemma late_was_launched:
  assumes "\<forall>p \<in> set (gs_projects (es_store es0)). \<not> late (behind LaunchGate) p"
  shows "p \<in> set (gs_projects (es_store (erun w digest es0 ops))) \<Longrightarrow> late (behind LaunchGate) p \<Longrightarrow>
    \<exists>n row. launched_at w digest es0 ops n (project_key p) row"
proof (induction ops arbitrary: p rule: rev_induct)
  case Nil
  with assms show ?case by (simp add: erun_def)
next
  case (snoc x ops)
  let ?es = "erun w digest es0 ops"
  obtain t y where x: "x = (t, y)" by (cases x)
  define E where "E = {project_key row | row. \<exists>aid who key rq. y = Store (Command aid who key rq)
      \<and> project_row (es_store ?es) (rq_projectId rq) who = Some row
      \<and> gp_state row = STORE_PREP \<and> gate_evidence LaunchGate (evidenceFor w ?es row)}"
  define D where "D = {project_key q | q. q \<in> set (gs_projects (es_store ?es)) \<and> late (behind LaunchGate) q} \<union> E"
  have "late_within (behind LaunchGate) D (es_store (estep w digest ?es (t, y)))"
  proof (rule game_late.estep_safe)
    show "late_within (behind LaunchGate) D (es_store ?es)" by (auto simp: late_within_def D_def)
    show "st \<in> behind LaunchGate \<or> None \<in> Some ` behind LaunchGate \<longrightarrow> late (behind LaunchGate) row \<or> project_key row \<in> D"
      if c: "y = Store (Command aid who key rq)" "project_row (es_store ?es) (rq_projectId rq) who = Some row"
        "enters (behind LaunchGate) (readers_of w ?es) (es_store ?es) row (rq_command rq) st" for aid who key rq row st
    proof -
      from enters_gate [OF c(3)] have "gp_state row = STORE_PREP" "gate_evidence LaunchGate (evidenceFor w ?es row)"
        by (simp_all only: gate_from.simps readers_of_now)
      with c(1,2) show ?thesis by (auto simp: D_def E_def)
    qed
  qed
  with snoc.prems x have "project_key p \<in> D" by (auto simp: late_within_def erun_def)
  then have D: "(\<exists>q \<in> set (gs_projects (es_store ?es)). late (behind LaunchGate) q \<and> project_key q = project_key p)
      \<or> project_key p \<in> E"
    by (auto simp: D_def)
  show ?case
  proof (cases "\<exists>q \<in> set (gs_projects (es_store ?es)). late (behind LaunchGate) q \<and> project_key q = project_key p")
    case True
    then show ?thesis using snoc.IH launched_at_append by metis
  next
    case False
    with D obtain row aid who key rq where c: "y = Store (Command aid who key rq)"
      "project_row (es_store ?es) (rq_projectId rq) who = Some row" "gp_state row = STORE_PREP"
      "gate_evidence LaunchGate (evidenceFor w ?es row)" "project_key row = project_key p"
      unfolding E_def by auto
    have "launched_at w digest es0 (ops @ [x]) (length ops) (project_key p) row"
      using c False snoc.prems x unfolding launched_at_def Let_def by auto
    then show ?thesis by blast
  qed
qed

lemma no_refusal_copies:
  "subject_refusal es p g = None \<Longrightarrow> store_gate g \<Longrightarrow> missing_artifacts es p = []"
  by (auto simp: subject_refusal_def Let_def split: if_splits)

lemma current_not_refused: "approvalIsCurrent w es g p \<Longrightarrow> subject_refusal es p g = None"
  by (auto simp: approvalIsCurrent_def approvalSubject_def split: option.splits)

text \<open>What a launch finds.\<close>

lemma launch_evidence:
  assumes "gate_evidence LaunchGate (evidenceFor w es row)"
  shows "approvalIsCurrent w es G_STORE_SUBMISSION row" "approvalIsCurrent w es G_PRODUCTION_RELEASE row"
    "missing_artifacts es row = []" "pf \<in> set PLATFORMS \<Longrightarrow> \<exists>r. latest_release es row pf = Some r \<and> rl_status r = RL_RELEASED"
proof -
  show c: "approvalIsCurrent w es G_STORE_SUBMISSION row" "approvalIsCurrent w es G_PRODUCTION_RELEASE row"
    using assms by (simp_all add: evidenceFor_def)
  show "missing_artifacts es row = []"
    by (rule no_refusal_copies [OF current_not_refused [OF c(1)]]) (simp add: store_gate_def)
  show "\<exists>r. latest_release es row pf = Some r \<and> rl_status r = RL_RELEASED" if "pf \<in> set PLATFORMS"
    by (rule released_platform) (use assms that in \<open>simp add: evidenceFor_def list_all_iff\<close>)
qed

text \<open>No external status without a verifier.\<close>

lemma unverified_step:
  assumes "w_verify w = None" "\<forall>r \<in> set (es_releases es). \<not> is_external (rl_status r)"
  shows "\<forall>r \<in> set (es_releases (estep w digest es (t, x))). \<not> is_external (rl_status r)"
proof (cases x)
  case (RecordRelease rid who pid q)
  show ?thesis using recordRelease_cases [of w rid who pid q t es]
  proof (elim disjE exE conjE)
    fix p b st ev
    assume a: "accepted w es rid who pid q p b st ev"
      and e: "snd (recordRelease w rid who pid q t es) = snd (save_release rid who q st p b ev t es)"
    have "\<not> is_external st" using a assms(1) by (auto simp: accepted_def Let_def verified_evidence_def split: if_splits)
    with e assms(2) RecordRelease show ?thesis by (simp add: save_release_rows)
  qed (use assms(2) RecordRelease in simp)
qed (use assms(2) in auto)

lemma unverified_run:
  "w_verify w = None \<Longrightarrow> \<forall>r \<in> set (es_releases es). \<not> is_external (rl_status r) \<Longrightarrow>
    \<forall>r \<in> set (es_releases (erun w digest es ops)). \<not> is_external (rl_status r)"
proof (induction ops arbitrary: es)
  case (Cons x ops)
  obtain t y where x: "x = (t, y)" by (cases x)
  note step = unverified_step [OF Cons.prems, of digest t y]
  show ?case using Cons.IH [OF Cons.prems(1) step] x by (simp add: erun_def)
qed (simp add: erun_def)

text \<open>The gate that stands in front of an external status, and the operation that recorded a row.\<close>

definition consent_gate :: "release_status \<Rightarrow> approval_gate_name" where
  "consent_gate st = (if st = RL_RELEASED then G_PRODUCTION_RELEASE else G_STORE_SUBMISSION)"

definition recorded_at ::
  "world \<Rightarrow> (request \<Rightarrow> string) \<Rightarrow> estore \<Rightarrow> (ms \<times> eop) list \<Rightarrow> nat \<Rightarrow> release_row \<Rightarrow> gproject \<Rightarrow> bool" where
  "recorded_at w digest es0 ops n r row \<longleftrightarrow>
     n < length ops \<and> (let es = erun w digest es0 (take n ops) in
       (\<exists>t rid who pid q. ops ! n = (t, RecordRelease rid who pid q) \<and> project_row (es_store es) pid who = Some row)
       \<and> es_releases (erun w digest es0 (take (Suc n) ops)) = es_releases es @ [r])"

lemma recorded_at_append: "recorded_at w digest es0 ops n r row \<Longrightarrow> recorded_at w digest es0 (ops @ xs) n r row"
  by (auto simp: recorded_at_def Let_def nth_append)

lemma accepted_current:
  assumes "accepted w es rid who pid q p b st ev" "is_external st"
  shows "approvalIsCurrent w es (consent_gate st) p"
  using assms by (auto simp: accepted_def Let_def release_refusal_def consent_gate_def is_external_def split: if_splits)

lemma external_was_recorded:
  assumes "\<forall>r \<in> set (es_releases es0). \<not> is_external (rl_status r)"
  shows "r \<in> set (es_releases (erun w digest es0 ops)) \<Longrightarrow> is_external (rl_status r) \<Longrightarrow>
    \<exists>n row. recorded_at w digest es0 ops n r row \<and> project_key row = (rl_projectId r, rl_uid r)
      \<and> approvalIsCurrent w (erun w digest es0 (take n ops)) (consent_gate (rl_status r)) row"
proof (induction ops rule: rev_induct)
  case Nil
  with assms show ?case by (simp add: erun_def)
next
  case (snoc x ops)
  let ?es = "erun w digest es0 ops"
  obtain t y where x: "x = (t, y)" by (cases x)
  have run: "erun w digest es0 (ops @ [x]) = estep w digest ?es (t, y)" by (simp add: erun_def x)
  show ?case
  proof (cases "r \<in> set (es_releases ?es)")
    case True
    with snoc.IH snoc.prems(2) obtain n row where n: "recorded_at w digest es0 ops n r row"
      "project_key row = (rl_projectId r, rl_uid r)"
      "approvalIsCurrent w (erun w digest es0 (take n ops)) (consent_gate (rl_status r)) row" by blast
    then have "n \<le> length ops" by (simp add: recorded_at_def)
    with n recorded_at_append [OF n(1)] show ?thesis by (intro exI [of _ n] exI [of _ row]) simp
  next
    case False
    then obtain rid who pid q where y: "y = RecordRelease rid who pid q" using snoc.prems(1) run by (cases y) auto
    with False snoc.prems(1) run recordRelease_cases [of w rid who pid q t ?es] obtain p b st ev where
      a: "accepted w ?es rid who pid q p b st ev"
      and e: "estep w digest ?es (t, y) = snd (save_release rid who q st p b ev t ?es)" by auto
    have rs: "es_releases (estep w digest ?es (t, y)) = es_releases ?es @ [r]"
      using False snoc.prems(1) run e by (auto simp: save_release_rows)
    have p: "project_row (es_store ?es) pid who = Some p" using a by (simp add: accepted_def Let_def)
    have st: "rl_status r = st" and k: "project_key p = (rl_projectId r, rl_uid r)"
      using rs e project_row_Some [OF p] by (auto simp: save_release_rows project_key_def)
    have "recorded_at w digest es0 (ops @ [x]) (length ops) r p"
      using p rs y x run by (auto simp: recorded_at_def Let_def)
    with accepted_current [OF a] snoc.prems(2) st k show ?thesis
      by (intro exI [of _ "length ops"] exI [of _ p]) simp
  qed
qed

section \<open>Properties\<close>

text \<open>C8: no release without the owner's consent to exactly this release.  In a run from a store without approvals and
  without external release rows, each row that says uploaded, submitted or released was recorded by an operation
  before which the game's own user had approved the subject as it stood at the recording: the store submission for
  the first two, the production release for the last.\<close>

theorem no_release_without_consent:
  assumes "\<forall>r \<in> set (es_releases es0). \<not> is_external (rl_status r)" "given_approvals (es_store es0) = {}" "collision_free w"
    and "r \<in> set (es_releases (erun w digest es0 ops))" "is_external (rl_status r)"
  shows "\<exists>n row. recorded_at w digest es0 ops n r row \<and> project_key row = (rl_projectId r, rl_uid r)
    \<and> (\<exists>m < n. approved_at w digest es0 ops m (rl_projectId r, rl_uid r) (consent_gate (rl_status r))
          (subject_of w (erun w digest es0 (take n ops)) row (consent_gate (rl_status r))))"
proof -
  obtain n row where n: "recorded_at w digest es0 ops n r row" "project_key row = (rl_projectId r, rl_uid r)"
    "approvalIsCurrent w (erun w digest es0 (take n ops)) (consent_gate (rl_status r)) row"
    using external_was_recorded [OF assms(1,4,5)] by blast
  with current_approval_given [OF assms(2,3) n(3)] approved_at_take show ?thesis by metis
qed

text \<open>C7: a launch rests on what the owner approved.  In a run from a store that holds no approvals and no launched
  game, with all operations of the factory on its queue and its evidence in any order, a deployed game has been
  launched by a command at which: the newest release of the active build was released on Android and on iOS; no
  required artifact lacked its verified copy; and the submission and the production release had each been approved
  earlier, by a command of the game's own user, for exactly the subject that stood at the launch (the artifacts with
  their digests and copies, the build, the test runs, the package identities, and for the production release the
  receipts of the stores).\<close>

theorem launch_rests_on_what_was_approved:
  assumes "\<forall>p \<in> set (gs_projects (es_store es0)). \<not> late (behind LaunchGate) p" "given_approvals (es_store es0) = {}"
    and "collision_free w"
    and "p \<in> set (gs_projects (es_store (erun w digest es0 ops)))" "gp_state p = DEPLOYED"
  shows "\<exists>n row. launched_at w digest es0 ops n (project_key p) row
    \<and> (let es = erun w digest es0 (take n ops) in
        missing_artifacts es row = []
        \<and> (\<forall>pf \<in> {''android'', ''ios''}. \<exists>r. latest_release es row pf = Some r \<and> rl_status r = RL_RELEASED)
        \<and> (\<forall>g \<in> {G_STORE_SUBMISSION, G_PRODUCTION_RELEASE}.
             \<exists>m < n. approved_at w digest es0 ops m (project_key p) g (subject_of w es row g)))"
proof -
  have "late (behind LaunchGate) p" using assms(5) by (simp add: late_def)
  then obtain n row where l: "launched_at w digest es0 ops n (project_key p) row"
    using late_was_launched [OF assms(1,4)] by blast
  let ?es = "erun w digest es0 (take n ops)"
  have ev: "gate_evidence LaunchGate (evidenceFor w ?es row)" and k: "project_key row = project_key p"
    using l by (simp_all add: launched_at_def Let_def)
  have "\<exists>m < n. approved_at w digest es0 ops m (project_key p) g (subject_of w ?es row g)"
    if "approvalIsCurrent w ?es g row" for g
    using current_approval_given [OF assms(2,3) that] approved_at_take k by metis
  with launch_evidence [OF ev] l show ?thesis
    by (intro exI [of _ n] exI [of _ row]) (simp add: Let_def PLATFORMS_def)
qed

text \<open>C9: a release has a history.  Every row of the release table with an external status carries the verifier's
  answer and stands behind an earlier row of the same platform, build and package identity that had passed the
  preflight; a submitted or released row carries the receipt of its submission; and a released row has a release
  receipt and stands behind an earlier submitted row with the same submission receipt.\<close>

theorem a_release_was_submitted_first:
  assumes "lineage (es_releases es0)" "es_releases (erun w digest es0 ops) = xs @ r # ys"
  shows "(is_external (rl_status r) \<longrightarrow> re_verification (rl_evidence r) \<noteq> None
        \<and> (\<exists>q \<in> set xs. same_release q r \<and> rl_status q = RL_READY))
     \<and> (rl_status r \<in> {RL_SUBMITTED, RL_RELEASED} \<longrightarrow> is_sha256 (receipt r))
     \<and> (rl_status r = RL_RELEASED \<longrightarrow> is_sha256 (lowercase (re_releaseReceipt (rl_evidence r)))
        \<and> (\<exists>q \<in> set xs. same_release q r \<and> rl_status q = RL_SUBMITTED \<and> receipt q = receipt r))"
  using lineage_split [OF lineage_run [OF assms(1)] assms(2)] by (simp only: rooted_def)

text \<open>C11: the evidence tables stay well formed.  Whatever is recorded and whatever the queue does: identifiers are not
  used twice, an artifact has one row per version and a full digest, an artifact has one copy per backend, a copy
  marked verified under SHA-256 has the digest of its artifact, tests are of known suites, releases are of known
  platforms with a package identity, and every row belongs to a game, and to a build of that game, that exist.\<close>

theorem evidence_tables_well_formed:
  assumes "wf_evidence es"
  shows "wf_evidence (erun w digest es ops)"
  using assms by (rule wf_evidence_run)

text \<open>C10: without a verifier nothing is launched.  The server builds the store without a verifier of store receipts;
  then no release row ever gets an external status, and no game is ever deployed.\<close>

theorem nothing_launches_without_a_verifier:
  assumes "w_verify w = None" "\<forall>r \<in> set (es_releases es0). \<not> is_external (rl_status r)"
    and "\<forall>p \<in> set (gs_projects (es_store es0)). \<not> late (behind LaunchGate) p"
  shows "(\<forall>r \<in> set (es_releases (erun w digest es0 ops)). \<not> is_external (rl_status r))
    \<and> (\<forall>p \<in> set (gs_projects (es_store (erun w digest es0 ops))). gp_state p \<noteq> DEPLOYED)"
proof (intro conjI ballI notI)
  fix p assume p: "p \<in> set (gs_projects (es_store (erun w digest es0 ops)))" "gp_state p = DEPLOYED"
  then have "late (behind LaunchGate) p" by (simp add: late_def)
  then obtain n row where "launched_at w digest es0 ops n (project_key p) row"
    using late_was_launched [OF assms(3) p(1)] by blast
  then have "gate_evidence LaunchGate (evidenceFor w (erun w digest es0 (take n ops)) row)"
    by (simp add: launched_at_def Let_def)
  from launch_evidence(4) [OF this, of "''android''"] obtain r where
    r: "latest_release (erun w digest es0 (take n ops)) row ''android'' = Some r" "rl_status r = RL_RELEASED"
    by (auto simp: PLATFORMS_def)
  with latest_release_Some [OF r(1)] unverified_run [OF assms(1,2), of digest "take n ops"]
  show False by (auto simp: is_external_def)
qed (use unverified_run [OF assms(1,2)] in blast)

end
