(* ===== verification/GameLaunchWitness.thy ===== *)
theory GameLaunchWitness
  imports GameLaunch "HOL-Library.Countable"
begin

text \<open>
  One launch, from store preparation to the deployed state, for the properties of the evidence tables: the
  hashes are left open while it runs, and closed with functions that have no collisions.
\<close>

section \<open>A game in store preparation\<close>

definition l_sha :: "char \<Rightarrow> string" where "l_sha c = replicate 64 c"

definition l_game :: gproject where
  "l_game = \<lparr>gp_id = ''g'', gp_uid = ''u'', gp_slug = ''g'', gp_order = 1, gp_state = STORE_PREP, gp_resumeState = None,
     gp_operation = NoOperation, gp_activeBuildId = ''b'', gp_workspaceId = [], gp_workspaceRoot = [], gp_version = 1,
     gp_blocker = [], gp_updatedAt = 1\<rparr>"

definition l_store :: gstore where
  "l_store = \<lparr>gs_projects = [l_game], gs_tasks = [], gs_checkpoints = [],
     gs_builds = [\<lparr>gb_id = ''b'', gb_projectId = ''g'', gb_uid = ''u'', gb_sourceCommit = ''c'', gb_status = ''TESTED'',
       gb_createdAt = 1\<rparr>],
     gs_approvals = [], gs_events = [], gs_outbox = [], gs_commands = []\<rparr>"

definition l_artifact :: "string \<Rightarrow> char \<Rightarrow> string \<Rightarrow> artifact_row" where
  "l_artifact sha c key = \<lparr>ar_id = [c], ar_projectId = ''g'', ar_uid = ''u'', ar_key = key, ar_version = 1,
     ar_sha256 = sha, ar_bytes = 9, ar_mimeType = ''text/plain'', ar_createdAt = 1\<rparr>"

definition l_copy :: "string \<Rightarrow> char \<Rightarrow> copy_row" where
  "l_copy sha c = \<lparr>cp_artifactId = [c], cp_backend = ''google_drive'', cp_locator = [], cp_status = ''VERIFIED'',
     cp_fingerprint = sha, cp_algorithm = ''sha256'', cp_attempts = 1, cp_lastError = [],
     cp_verifiedAt = 2, cp_updatedAt = 2\<rparr>"

definition l_evidence :: "string \<Rightarrow> string \<Rightarrow> release_evidence" where
  "l_evidence s r = \<lparr>re_submissionReceipt = s, re_releaseReceipt = r, re_rest = [], re_verification = None\<rparr>"

definition l_row :: "release_status \<Rightarrow> string \<Rightarrow> release_row" where
  "l_row st pf = \<lparr>rl_id = pf, rl_projectId = ''g'', rl_buildId = ''b'', rl_uid = ''u'', rl_platform = pf,
     rl_packageId = ''p'', rl_versionName = ''v'', rl_versionCode = 1, rl_status = st, rl_storeLocator = [],
     rl_evidence = l_evidence (l_sha CHR ''b'') (l_sha CHR ''c''), rl_createdAt = 3, rl_updatedAt = 3\<rparr>"

text \<open>The digest of the artifacts and the status of the two releases at the start.\<close>

definition l_start :: "string \<Rightarrow> release_status \<Rightarrow> release_status \<Rightarrow> estore" where
  "l_start sha android ios = \<lparr>es_store = l_store,
     es_artifacts = map2 (l_artifact sha) ''abcdefghijk'' REQUIRED_GAME_ARTIFACTS,
     es_copies = map (l_copy sha) ''abcdefghijk'', es_native = [], es_tests = [],
     es_releases = [l_row android ''android'', l_row ios ''ios'']\<rparr>"

definition l_command :: "string \<Rightarrow> gcommand \<Rightarrow> eop" where
  "l_command key c = Store (Command key ''u'' key \<lparr>rq_projectId = ''g'', rq_expectedVersion = None, rq_command = c\<rparr>)"

definition l_release :: "string \<Rightarrow> string \<Rightarrow> release_status \<Rightarrow> eop" where
  "l_release rid pf st = RecordRelease rid ''u'' ''g'' \<lparr>ro_buildId = ''b'', ro_platform = pf, ro_packageId = ''p'',
     ro_versionName = ''v'', ro_versionCode = 1, ro_status = Some st, ro_storeLocator = [],
     ro_evidence = l_evidence (l_sha CHR ''b'') (l_sha CHR ''c'')\<rparr>"

definition l_launch :: "(ms \<times> eop) list" where
  "l_launch =
     [(4, l_command ''k1'' (Decide True (Some G_STORE_SUBMISSION) [])),
      (5, l_command ''k2'' (Decide True (Some G_PRODUCTION_RELEASE) [])), (6, l_command ''k3'' Advance)]"

definition l_submit :: "(ms \<times> eop) list" where
  "l_submit =
     [(4, l_command ''k1'' (Decide True (Some G_STORE_SUBMISSION) [])), (5, l_release ''r'' ''ios'' RL_SUBMITTED)]"

section \<open>Fingerprints without collisions\<close>

instance test_status :: countable
  by (rule countable_classI [of "\<lambda>s. case s of TS_PASSED \<Rightarrow> 0 | TS_FAILED \<Rightarrow> 1 | TS_BLOCKED \<Rightarrow> 2 | TS_SKIPPED \<Rightarrow> 3"])
     (simp split: test_status.splits)

definition l_hash :: "'a :: countable \<Rightarrow> string" where
  "l_hash x = replicate (Suc (to_nat x)) CHR ''x''"

lemma l_hash_inj: "inj l_hash"
  by (auto simp: l_hash_def inj_def dest: arg_cong [where f = length])

lemma l_hash_some: "[] \<notin> range l_hash"
  by (auto simp: l_hash_def)

fun l_gate :: "approval_gate_name \<Rightarrow> nat" where
  "l_gate G_SPECIFICATION = 0"
| "l_gate G_VISUAL_SYSTEM = 1"
| "l_gate G_PLAYTEST = 2"
| "l_gate G_RELEASE_CANDIDATE = 3"
| "l_gate G_LEGAL_AND_PRIVACY = 4"
| "l_gate G_STORE_SUBMISSION = 5"
| "l_gate G_PRODUCTION_RELEASE = 6"

lemma l_gate_inj: "l_gate g = l_gate h \<Longrightarrow> g = h"
  by (cases g; cases h) simp_all

definition l_descriptor :: "descriptor \<Rightarrow> string" where
  "l_descriptor d = l_hash (l_gate (ds_gate d), ds_projectId d, ds_policyVersion d, ds_artifactSetHash d,
     ds_relevantArtifacts d, map_option (\<lambda>(a, b, c, t, v, n). ((a, b, c), (t, v), n)) (ds_build d), ds_testSetHash d,
     (ds_releaseSetHash d, ds_submissionSetHash d, ds_copySetHash d))"

lemma l_descriptor_inj: "inj l_descriptor"
proof (rule injI)
  fix x y assume "l_descriptor x = l_descriptor y"
  then have "l_gate (ds_gate x) = l_gate (ds_gate y)" and r: "ds_projectId x = ds_projectId y"
    "ds_policyVersion x = ds_policyVersion y" "ds_artifactSetHash x = ds_artifactSetHash y"
    "ds_relevantArtifacts x = ds_relevantArtifacts y" "ds_testSetHash x = ds_testSetHash y"
    "ds_releaseSetHash x = ds_releaseSetHash y" "ds_submissionSetHash x = ds_submissionSetHash y"
    "ds_copySetHash x = ds_copySetHash y"
    and b: "map_option (\<lambda>(a, b, c, t, v, n). ((a, b, c), (t, v), n)) (ds_build x)
        = map_option (\<lambda>(a, b, c, t, v, n). ((a, b, c), (t, v), n)) (ds_build y)"
    unfolding l_descriptor_def by (auto dest!: injD [OF l_hash_inj])
  moreover have "ds_build x = ds_build y"
    using b by (cases "ds_build x"; cases "ds_build y") (auto split: prod.splits)
  ultimately show "x = y" using l_gate_inj by simp
qed

definition l_world :: "(string \<Rightarrow> string) \<Rightarrow> (artifact_ident list \<Rightarrow> string) \<Rightarrow> (test_ident list \<Rightarrow> string)
    \<Rightarrow> (release_ident list \<Rightarrow> string) \<Rightarrow> ((string \<times> string) list \<Rightarrow> string) \<Rightarrow> (copy_ident list \<Rightarrow> string)
    \<Rightarrow> (descriptor \<Rightarrow> string) \<Rightarrow> (release_evidence \<Rightarrow> string) \<Rightarrow> world" where
  "l_world h1 h2 h3 h4 h5 h6 h7 h8 =
     \<lparr>w_rank = \<lambda>s. of_char (hd s),
      w_detail = \<lambda>_. \<lparr>bd_toolchain = ''{}'', bd_targets = ''[]'', bd_versionName = ''v'', bd_versionCode = 1\<rparr>,
      w_hashText = h1, w_hashArtifacts = h2, w_hashTests = h3, w_hashIdentities = h4, w_hashSubmissions = h5,
      w_hashCopies = h6, w_hashDescriptor = h7, w_hashEvidence = h8,
      w_verify = Some (\<lambda>p b st i ev r. Some ''ok'')\<rparr>"

definition l_world0 :: world where
  "l_world0 = l_world id l_hash l_hash l_hash l_hash l_hash l_descriptor (\<lambda>e. re_rest e)"

lemma l_world0_free: "collision_free l_world0"
  unfolding collision_free_def l_world0_def l_world_def
  by (simp add: l_hash_inj l_descriptor_inj) (simp add: l_hash_def image_iff)

section \<open>Runs\<close>

lemma l_submit_run:
  "let es = erun (l_world h1 h2 h3 h4 h5 h6 h7 h8) (\<lambda>_. []) (l_start sha RL_READY RL_READY) l_submit
   in map rl_status (es_releases es) = [RL_READY, RL_READY, RL_SUBMITTED]"
  by code_simp

text \<open>The subjects depend on the evidence tables, the builds and the active build only.\<close>

definition same_evidence :: "estore \<Rightarrow> gproject \<Rightarrow> estore \<Rightarrow> gproject \<Rightarrow> bool" where
  "same_evidence es p es' p' \<longleftrightarrow>
     es_artifacts es = es_artifacts es' \<and> es_copies es = es_copies es' \<and> es_native es = es_native es'
     \<and> es_tests es = es_tests es' \<and> es_releases es = es_releases es' \<and> gs_builds (es_store es) = gs_builds (es_store es')
     \<and> gp_id p = gp_id p' \<and> gp_uid p = gp_uid p' \<and> gp_activeBuildId p = gp_activeBuildId p'"

lemma same_artifacts:
  assumes "same_evidence es p es' p'"
  shows "latest_artifacts es p = latest_artifacts es' p'" "copies_of es = copies_of es'"
    "artifact_lacking es = artifact_lacking es'" "missing_artifacts es p = missing_artifacts es' p'"
proof -
  show l: "latest_artifacts es p = latest_artifacts es' p'" and c: "copies_of es = copies_of es'"
    using assms by (auto simp: same_evidence_def latest_artifacts_def copies_of_def stored_copies_def nativeEvidenceCopy_def)
  show k: "artifact_lacking es = artifact_lacking es'"
    by (auto simp: artifact_lacking_def artifact_complete_def c fun_eq_iff split: option.split)
  show "missing_artifacts es p = missing_artifacts es' p'" by (simp add: missing_artifacts_def l k)
qed

lemma same_build_evidence:
  assumes "same_evidence es p es' p'"
  shows "active_build (es_store es) p = active_build (es_store es') p'" "latest_tests es p = latest_tests es' p'"
    "latest_releases es p = latest_releases es' p'" "latest_release es p pf = latest_release es' p' pf"
    "passed_suites es p = passed_suites es' p'" "qa_missing es p = qa_missing es' p'"
proof -
  show b: "active_build (es_store es) p = active_build (es_store es') p'" and t: "latest_tests es p = latest_tests es' p'"
    and r: "latest_releases es p = latest_releases es' p'"
    using assms by (auto simp: same_evidence_def active_build_def build_row_def latest_tests_def latest_releases_def
        releases_of_def)
  show "latest_release es p pf = latest_release es' p' pf" by (simp add: latest_release_def r)
  show s: "passed_suites es p = passed_suites es' p'" by (simp add: passed_suites_def b t)
  show "qa_missing es p = qa_missing es' p'" by (simp add: qa_missing_def s)
qed

lemma same_subject:
  assumes "same_evidence es p es' p'" shows "approvalSubject w es p g = approvalSubject w es' p' g"
proof -
  note same = same_artifacts [OF assms] same_build_evidence [OF assms]
  have "ident_of_copy w es = ident_of_copy w es'" by (simp add: ident_of_copy_def same fun_eq_iff)
  moreover have "gp_id p = gp_id p'" using assms by (simp add: same_evidence_def)
  ultimately have "subject_of w es p g = subject_of w es' p' g"
    by (simp only: subject_of_def artifact_rows_def release_rows_def same)
  moreover have "subject_refusal es p g = subject_refusal es' p' g" by (simp only: subject_refusal_def same)
  ultimately show ?thesis by (simp only: approvalSubject_def)
qed

lemma l_subjects:
  "subject_refusal (l_start sha RL_RELEASED RL_RELEASED) l_game G_STORE_SUBMISSION = None"
  "subject_refusal (l_start sha RL_RELEASED RL_RELEASED) l_game G_PRODUCTION_RELEASE = None"
  by code_simp+

lemma l_released:
  "map (\<lambda>r. (rl_platform r, rl_status r)) (latest_releases (l_start sha RL_RELEASED RL_RELEASED) l_game)
     = [(''ios'', RL_RELEASED), (''android'', RL_RELEASED)]"
  by code_simp

text \<open>The store after some decisions: the game has a new version, the approvals and the answered commands have grown.\<close>

definition l_row_of :: "nat \<Rightarrow> ms \<Rightarrow> gproject" where
  "l_row_of v t = l_game\<lparr>gp_version := v, gp_updatedAt := t\<rparr>"

definition l_given :: "string \<Rightarrow> approval_gate_name \<Rightarrow> string \<Rightarrow> ms \<Rightarrow> approval" where
  "l_given aid g h t = \<lparr>ap_id = aid, ap_projectId = ''g'', ap_buildId = ''b'', ap_uid = ''u'', ap_gate = g, ap_approved = True,
     ap_subjectHash = h, ap_createdAt = t, ap_invalidatedAt = 0\<rparr>"

definition l_stands :: "gstore \<Rightarrow> nat \<Rightarrow> ms \<Rightarrow> approval list \<Rightarrow> string list \<Rightarrow> bool" where
  "l_stands s v t as keys \<longleftrightarrow>
     gs_projects s = [l_row_of v t] \<and> gs_builds s = gs_builds l_store \<and> gs_approvals s = as
     \<and> map fst (gs_commands s) = map (Pair ''u'') keys"

lemma l_not_answered: "l_stands s v t as keys \<Longrightarrow> key \<notin> set keys \<Longrightarrow> map_of (gs_commands s) (''u'', key) = None"
proof -
  assume s: "l_stands s v t as keys" "key \<notin> set keys"
  then have "(''u'', key) \<notin> set (map fst (gs_commands s))" by (auto simp: l_stands_def simp del: list.set_map)
  then show ?thesis by (simp add: map_of_eq_None_iff)
qed

lemma l_decide:
  assumes "l_stands (es_store es) v u as keys" "key \<notin> set keys" "key \<noteq> []" "store_gate g" "g \<notin> ap_gate ` set as"
    and "approvalSubject w es (l_row_of v u) g = Inr h"
  shows "l_stands (es_store (estep w (\<lambda>_. []) es (t, l_command key (Decide True (Some g) [])))) (v + 1) t
      (as @ [l_given key g h t]) (keys @ [key])"
    "\<exists>s. estep w (\<lambda>_. []) es (t, l_command key (Decide True (Some g) [])) = es\<lparr>es_store := s\<rparr>"
proof -
  have row: "project_row (es_store es) ''g'' ''u'' = Some (l_row_of v u)"
    using assms(1) by (simp add: l_stands_def project_row_def l_row_of_def l_game_def)
  have keep: "upd (\<lambda>a. ap_projectId a = ''g'' \<and> ap_uid a = ''u'' \<and> ap_gate a = g \<and> ap_invalidatedAt a = 0)
      (\<lambda>a. a\<lparr>ap_invalidatedAt := t\<rparr>) as = as"
    using assms(5) by (induction as) auto
  have b: "bound_build (l_row_of v u) g = ''b''" "approvalAllowed STORE_PREP g"
    using assms(4) by (auto simp: bound_build_def BUILD_BOUND_GATES_def store_gate_def approvalAllowed_def l_row_of_def l_game_def)
  show "l_stands (es_store (estep w (\<lambda>_. []) es (t, l_command key (Decide True (Some g) [])))) (v + 1) t
      (as @ [l_given key g h t]) (keys @ [key])"
    using assms(1,3,6) l_not_answered [OF assms(1,2)] row keep b
    by (simp add: l_stands_def l_command_def executeCommand_def run_command_def cmd_decide_def readers_of_def subject_now_def
        saveCommand_def Let_def invalidate_approvals_def emit_event_def on_project_def is_row_def l_row_of_def l_game_def
        l_given_def)
  show "\<exists>s. estep w (\<lambda>_. []) es (t, l_command key (Decide True (Some g) [])) = es\<lparr>es_store := s\<rparr>"
    by (auto simp: l_command_def)
qed

lemma l_approved_twice:
  assumes "es0 = l_start sha RL_RELEASED RL_RELEASED"
  shows "\<exists>as. l_stands (es_store (erun w (\<lambda>_. []) es0 (take 2 l_launch))) 3 5 as [''k1'', ''k2'']"
    "gate_evidence LaunchGate (evidenceFor w (erun w (\<lambda>_. []) es0 (take 2 l_launch)) (l_row_of 3 5))"
proof -
  let ?e = "\<lambda>es t key c. estep w (\<lambda>_. []) es (t, l_command key c)"
  let ?H = "\<lambda>g. subject_hash w (subject_of w es0 l_game g)"
  define e1 where "e1 = ?e es0 4 ''k1'' (Decide True (Some G_STORE_SUBMISSION) [])"
  define e2 where "e2 = ?e e1 5 ''k2'' (Decide True (Some G_PRODUCTION_RELEASE) [])"
  have subject: "approvalSubject w es (l_row_of v u) g = Inr (?H g)"
    if "\<exists>s. es = es0\<lparr>es_store := s\<rparr> \<and> gs_builds s = gs_builds l_store" "store_gate g" for es v u g
  proof -
    have "same_evidence es (l_row_of v u) es0 l_game"
      using that(1) assms by (auto simp: same_evidence_def l_start_def l_row_of_def)
    from same_subject [OF this, of w g] show ?thesis
      using that(2) l_subjects [of sha] assms by (auto simp: approvalSubject_def store_gate_def)
  qed
  have s0: "l_stands (es_store es0) 1 1 [] []" using assms by (simp add: l_stands_def l_start_def l_store_def l_row_of_def l_game_def)
  have "es0 = es0\<lparr>es_store := es_store es0\<rparr>" by simp
  then have h1: "approvalSubject w es0 (l_row_of 1 1) G_STORE_SUBMISSION = Inr (?H G_STORE_SUBMISSION)"
    using s0 by (intro subject) (auto simp: l_stands_def store_gate_def intro!: exI [of _ "es_store es0"])
  note d1 = l_decide [OF s0 _ _ _ _ h1, of "''k1''" 4, folded e1_def]
  have s1: "l_stands (es_store e1) 2 4 [l_given ''k1'' G_STORE_SUBMISSION (?H G_STORE_SUBMISSION) 4] [''k1'']"
    using d1(1) by (simp add: store_gate_def numeral_2_eq_2)
  obtain t1 where e1: "e1 = es0\<lparr>es_store := t1\<rparr>" using d1(2) by (auto simp: store_gate_def)
  then have h2: "approvalSubject w e1 (l_row_of 2 4) G_PRODUCTION_RELEASE = Inr (?H G_PRODUCTION_RELEASE)"
    using s1 by (intro subject) (auto simp: l_stands_def store_gate_def)
  note d2 = l_decide [OF s1 _ _ _ _ h2, of "''k2''" 5, folded e2_def]
  have s2: "l_stands (es_store e2) 3 5 [l_given ''k1'' G_STORE_SUBMISSION (?H G_STORE_SUBMISSION) 4,
      l_given ''k2'' G_PRODUCTION_RELEASE (?H G_PRODUCTION_RELEASE) 5] [''k1'', ''k2'']"
    using d2(1) by (simp add: store_gate_def l_given_def)
  obtain t2 where e2: "e2 = es0\<lparr>es_store := t2\<rparr>" using d2(2) e1 by (auto simp: store_gate_def l_given_def)
  have "\<exists>s. e2 = es0\<lparr>es_store := s\<rparr> \<and> gs_builds s = gs_builds l_store" using e2 s2 by (auto simp: l_stands_def)
  from subject [OF this] have h3: "approvalSubject w e2 (l_row_of 3 5) G_STORE_SUBMISSION = Inr (?H G_STORE_SUBMISSION)"
    "approvalSubject w e2 (l_row_of 3 5) G_PRODUCTION_RELEASE = Inr (?H G_PRODUCTION_RELEASE)"
    by (simp_all add: store_gate_def)
  have r: "latest_releases e2 (l_row_of 3 5) = latest_releases es0 l_game"
    by (rule same_build_evidence(3)) (use e2 s2 assms in \<open>auto simp: same_evidence_def l_start_def l_row_of_def l_stands_def\<close>)
  have "(''ios'', RL_RELEASED) \<in> (\<lambda>r. (rl_platform r, rl_status r)) ` set (latest_releases es0 l_game)"
    "(''android'', RL_RELEASED) \<in> (\<lambda>r. (rl_platform r, rl_status r)) ` set (latest_releases es0 l_game)"
    using arg_cong [OF l_released [of sha], of set] assms by simp_all
  then have ev: "gate_evidence LaunchGate (evidenceFor w e2 (l_row_of 3 5))"
    using s2 h3 r
    by (auto simp: evidenceFor_def approvalIsCurrent_def l_stands_def l_given_def l_row_of_def l_game_def bound_build_def
        BUILD_BOUND_GATES_def PLATFORMS_def image_iff)
  have "erun w (\<lambda>_. []) es0 (take 2 l_launch) = e2" by (simp add: erun_def l_launch_def e1_def e2_def)
  with s2 ev show "\<exists>as. l_stands (es_store (erun w (\<lambda>_. []) es0 (take 2 l_launch))) 3 5 as [''k1'', ''k2'']"
    "gate_evidence LaunchGate (evidenceFor w (erun w (\<lambda>_. []) es0 (take 2 l_launch)) (l_row_of 3 5))" by auto
qed

lemma l_launched:
  assumes "es0 = l_start sha RL_RELEASED RL_RELEASED"
  shows "\<exists>p. gs_projects (es_store (erun w (\<lambda>_. []) es0 l_launch)) = [p] \<and> gp_state p = DEPLOYED"
proof -
  define e2 where "e2 = erun w (\<lambda>_. []) es0 (take 2 l_launch)"
  obtain as where s2: "l_stands (es_store e2) 3 5 as [''k1'', ''k2'']"
    and ev: "gate_evidence LaunchGate (evidenceFor w e2 (l_row_of 3 5))"
    using l_approved_twice [OF assms] e2_def by blast
  have row: "project_row (es_store e2) ''g'' ''u'' = Some (l_row_of 3 5)"
    using s2 by (simp add: l_stands_def project_row_def l_row_of_def l_game_def)
  have m: "map_of (gs_commands (es_store e2)) (''u'', ''k3'') = None" by (rule l_not_answered [OF s2]) simp
  have g: "transitionDecision STORE_PREP None DEPLOYED (evidenceFor w e2 (l_row_of 3 5)) = Granted"
    using ev by (simp add: Granted_iff allowedTransitions_def gate_refusal_def)
  have st: "gp_state (l_row_of 3 5) = STORE_PREP" "gp_resumeState (l_row_of 3 5) = None" "gp_id (l_row_of 3 5) = ''g''"
    "gp_uid (l_row_of 3 5) = ''u''" by (simp_all add: l_row_of_def l_game_def)
  have "erun w (\<lambda>_. []) es0 l_launch = estep w (\<lambda>_. []) e2 (6, l_command ''k3'' Advance)"
    by (simp add: erun_def l_launch_def e2_def)
  moreover have "\<exists>p. gs_projects (es_store (estep w (\<lambda>_. []) e2 (6, l_command ''k3'' Advance))) = [p] \<and> gp_state p = DEPLOYED"
    using row m g s2 st
    by (simp add: l_stands_def l_command_def executeCommand_def run_command_def cmd_transition_def readers_of_def
        evidence_now_def saveCommand_def Let_def emit_event_def move_project_def on_project_def is_row_def
        defaultNextState_def HAPPY_PATH_def)
  ultimately show ?thesis by simp
qed

section \<open>Witnesses\<close>

definition l_before :: "release_status \<Rightarrow> estore" where
  "l_before st = l_start (l_sha CHR ''a'') st st"

lemma l_before_fresh:
  "\<forall>p \<in> set (gs_projects (es_store (l_before st))). \<not> late (behind LaunchGate) p" "given_approvals (es_store (l_before st)) = {}"
  "es_releases (l_before st) = [l_row st ''android'', l_row st ''ios'']"
  by (simp_all add: l_before_def l_start_def l_store_def l_game_def late_def given_approvals_def)

theorem launch_rests_on_what_was_approved_witness:
  "\<exists>n row m. launched_at l_world0 (\<lambda>_. []) (l_before RL_RELEASED) l_launch n (''g'', ''u'') row \<and> m < n
     \<and> approved_at l_world0 (\<lambda>_. []) (l_before RL_RELEASED) l_launch m (''g'', ''u'') G_PRODUCTION_RELEASE
         (subject_of l_world0 (erun l_world0 (\<lambda>_. []) (l_before RL_RELEASED) (take n l_launch)) row G_PRODUCTION_RELEASE)"
proof -
  let ?run = "erun l_world0 (\<lambda>_. []) (l_before RL_RELEASED) l_launch"
  obtain p where p: "gs_projects (es_store ?run) = [p]" "gp_state p = DEPLOYED"
    using l_launched [OF l_before_def] by blast
  have "(''g'', ''u'') \<in> project_key ` set (gs_projects (es_store ?run))"
    unfolding l_launch_def erun_def foldl.simps
    by (intro games.estep_safe) (simp_all add: l_before_def l_start_def l_store_def l_game_def project_key_def)
  then have k: "project_key p = (''g'', ''u'')" using p(1) by simp
  have "p \<in> set (gs_projects (es_store ?run))" using p(1) by simp
  from launch_rests_on_what_was_approved [OF l_before_fresh(1,2) l_world0_free this p(2)] k
  show ?thesis by (auto simp: Let_def)
qed

lemma l_submitted:
  "\<exists>a b c. es_releases (erun l_world0 (\<lambda>_. []) (l_before RL_READY) l_submit) = [a, b, c] \<and> rl_status c = RL_SUBMITTED"
  using l_submit_run [of id l_hash l_hash l_hash l_hash l_hash l_descriptor "\<lambda>e. re_rest e" "l_sha CHR ''a''"]
  by (auto simp: l_world0_def l_before_def Let_def map_eq_Cons_conv)

theorem no_release_without_consent_witness:
  "\<exists>r n row m. r \<in> set (es_releases (erun l_world0 (\<lambda>_. []) (l_before RL_READY) l_submit)) \<and> rl_status r = RL_SUBMITTED
     \<and> recorded_at l_world0 (\<lambda>_. []) (l_before RL_READY) l_submit n r row \<and> m < n
     \<and> approved_at l_world0 (\<lambda>_. []) (l_before RL_READY) l_submit m (rl_projectId r, rl_uid r) G_STORE_SUBMISSION
         (subject_of l_world0 (erun l_world0 (\<lambda>_. []) (l_before RL_READY) (take n l_submit)) row G_STORE_SUBMISSION)"
proof -
  obtain a b c where r: "es_releases (erun l_world0 (\<lambda>_. []) (l_before RL_READY) l_submit) = [a, b, c]"
    "rl_status c = RL_SUBMITTED" using l_submitted by blast
  then have c: "c \<in> set (es_releases (erun l_world0 (\<lambda>_. []) (l_before RL_READY) l_submit))" "is_external (rl_status c)"
    by (simp_all add: is_external_def)
  have "\<forall>r \<in> set (es_releases (l_before RL_READY)). \<not> is_external (rl_status r)"
    by (simp add: l_before_fresh l_row_def is_external_def)
  from no_release_without_consent [OF this l_before_fresh(2) l_world0_free c] c(1) r(2)
  show ?thesis by (auto simp: consent_gate_def)
qed

lemma l_lineage: "lineage (es_releases (l_before RL_READY))"
proof -
  have r: "rooted A (l_row RL_READY pf)" for A pf by (simp add: rooted_def l_row_def is_external_def)
  show ?thesis using lineage_snoc [OF lineage_snoc [OF lineage_Nil r] r] by (simp add: l_before_fresh)
qed

theorem a_release_was_submitted_first_witness:
  "\<exists>a b c. es_releases (erun l_world0 (\<lambda>_. []) (l_before RL_READY) l_submit) = [a, b, c] \<and> rl_status c = RL_SUBMITTED
     \<and> re_verification (rl_evidence c) \<noteq> None \<and> (\<exists>q \<in> {a, b}. same_release q c \<and> rl_status q = RL_READY)"
proof -
  obtain a b c where r: "es_releases (erun l_world0 (\<lambda>_. []) (l_before RL_READY) l_submit) = [a, b, c]"
    "rl_status c = RL_SUBMITTED" using l_submitted by blast
  then have "es_releases (erun l_world0 (\<lambda>_. []) (l_before RL_READY) l_submit) = [a, b] @ c # []" by simp
  from a_release_was_submitted_first [OF l_lineage this] r show ?thesis by (auto simp: is_external_def)
qed

theorem evidence_tables_well_formed_witness:
  "wf_evidence (l_before RL_READY) \<and> wf_evidence (erun l_world0 (\<lambda>_. []) (l_before RL_READY) l_submit)"
proof -
  have "wf_evidence (l_before RL_READY)" by code_simp
  with evidence_tables_well_formed show ?thesis by blast
qed

theorem nothing_launches_without_a_verifier_witness:
  "let es = erun (l_world0\<lparr>w_verify := None\<rparr>) (\<lambda>_. []) (l_before RL_READY) (l_submit @ l_launch)
   in filter (\<lambda>r. is_external (rl_status r)) (es_releases es) = []
      \<and> DEPLOYED \<notin> gp_state ` set (gs_projects (es_store es))"
proof -
  have "\<forall>r \<in> set (es_releases (l_before RL_READY)). \<not> is_external (rl_status r)"
    by (simp add: l_before_fresh l_row_def is_external_def)
  note run = nothing_launches_without_a_verifier [where w = "l_world0\<lparr>w_verify := None\<rparr>" and digest = "\<lambda>_. []"
      and ops = "l_submit @ l_launch", OF _ this l_before_fresh(1), simplified]
  show ?thesis using run unfolding Let_def filter_empty_conv image_iff by metis
qed

end
