(* ===== verification/Spec2Isabelle.thy ===== *)
theory Spec2Isabelle
  imports Prelude Tenancy Billing_Props SessionBudget VideoMeter KeyLock VideoBilling LongRunBilling
    ChatJobs ChatLive IdeTasks_Facts RoadmapText IdePool LongRun
    WorkSorter_Facts WorkOrders WorkOrderRunner ChatSync_Facts UsageLimits IdeJobs_Follow AltanaMoney_Props
    AltanaGate_Props TarStream GameWitness GameLaunchWitness
begin

text \<open>
  MiniPC Chat is a Node.js server (\<open>src/server.mjs\<close>) with a browser client.  Around its request handler
  stand modules that keep state of their own: who is who, what they paid, what they may spend, which
  turns and builds are running, and what the devices of a user have seen.  This library models those
  modules one theory each, operation by operation, and proves what makes them correct.  Every mapped
  definition is translated from the JavaScript it names; names follow the source.

  \<^bold>\<open>Shared vocabulary.\<close>  \<open>Prelude\<close>: numbers (\<open>jsnum\<close>, exact rationals; \<open>Math.round\<close> and its relatives),
  ASCII strings, tables with a primary key as association lists, and the locale \<open>keyed_store\<close> with the
  laws of such a table, interpreted on the list operations.  Errors are sum or option values.  A result
  that a function returns beside a changed state is a pair.  Time is an argument (\<open>ms\<close>).

  \<^bold>\<open>Identity and money.\<close>
  \<^item> \<open>Tenancy\<close> (\<open>tenancy.mjs\<close>): user rows, roles, consent and the sponsored monthly cap.
  \<^item> \<open>Billing\<close>, \<open>Billing_Facts\<close>, \<open>Billing_Props\<close> (\<open>billing.mjs\<close>): the credit ledger, paid Checkout sessions,
    turn charging, auto-recharge with back-off and lock, invite and free codes.  \<open>money_op\<close> lists every
    operation of the module; the locale \<open>money_invariant\<close> reduces "all operations keep \<open>I\<close>" to the
    primitive writes and is interpreted for the ledger, the paid sessions, the spent codes and the opt-out.
  \<^item> \<open>SessionBudget\<close> (\<open>sessionbudget.mjs\<close> and the budget gate of the chat handler): holds of sessions.
  \<^item> \<open>VideoMeter\<close> (\<open>video-meter.mjs\<close>): the at-most-once settlement table, with crashes between claim and
    record as steps of \<open>meter_step\<close>.
  \<^item> \<open>KeyLock\<close>, \<open>VideoBilling\<close> (\<open>video-billing.mjs\<close>): the promise chain per account as a transition system,
    and the settlement that funds the whole price before one exact debit.  At every \<open>await\<close> an arbitrary
    environment function changes the money; the locale \<open>exact_debit\<close> states what the settlement needs
    of the ledger and is interpreted on the model of \<open>billing.mjs\<close>.
  \<^item> \<open>LongRunBilling\<close> (\<open>longrunbilling.mjs\<close>): the budget fuse of long jobs, an append-only file and its fold.
  \<^item> \<open>AltanaMoney\<close>, \<open>AltanaMoney_Props\<close> (\<open>altana-money.mjs\<close>, the confirmation and purchase rows of
    \<open>altana.mjs\<close>, \<open>handleAltanaTyped\<close> in \<open>server.mjs\<close>): reading a typed amount, five digit codes, and the desk
    that moves money only on a typed answer.  A request to the card processor and its answer are two
    operations of a run.
  \<^item> \<open>JsRegex\<close>, \<open>AltanaGate\<close>, \<open>AltanaGate_Props\<close> (\<open>altana.mjs\<close>): the excluded zones, written as patterns for a
    backtracking matcher whose answers are those of an inductive relation, the check of a toolset at load,
    the adaptation of the app's tools, and the screening of every call a model writes.

  \<^bold>\<open>Running work.\<close>
  \<^item> \<open>ChatJobs\<close> (\<open>chatjobs.mjs\<close>) and \<open>ChatLive\<close> (the \<open>liveJobs\<close> half in \<open>server.mjs\<close>): durable chat turns,
    batched flushing, attach and catch-up, the boot sweep, retention.
  \<^item> \<open>IdeTasks\<close>, \<open>IdeTasks_Facts\<close>, \<open>RoadmapText\<close> (\<open>idetasks.mjs\<close>, the approved plan in \<open>server.mjs\<close>): parsing a
    roadmap, the completion order, stored splits, and printing with reparsing.
  \<^item> \<open>IdePool\<close> (\<open>idepool.mjs\<close>): the concurrency gate and the task pool, a step relation whose labels are
    the verdicts, the user's answers and aborts.
  \<^item> \<open>IdeJobs\<close>, \<open>IdeJobs_Facts\<close>, \<open>IdeJobs_Props\<close>, \<open>IdeJobs_Follow\<close> (\<open>idejobs.mjs\<close>): build journals, the index
    rebuilt from them, followers of a journal another instance writes, resumption and sealing.  The
    locale \<open>spine_invariant\<close> carries an invariant of the spine through every operation.
  \<^item> \<open>LongRun\<close> (\<open>longrun.mjs\<close>): ledger, screens, watchdog and segment runner of long jobs.
  \<^item> \<open>WorkSorter\<close>, \<open>WorkSorter_Facts\<close>, \<open>WorkOrders\<close>, \<open>WorkOrderRunner\<close> (\<open>worksorter.mjs\<close>, \<open>workorders.mjs\<close>,
    \<open>workorderrunner.mjs\<close>): the generated sort and undo scripts over a table of places, schedule
    arithmetic with calendars written out, the order store and the runner.
  \<^item> \<open>ChatSync\<close>, \<open>ChatSync_Facts\<close> (\<open>chatsync.mjs\<close>): merging the copies of a conversation by component.
  \<^item> \<open>UsageLimits\<close> (\<open>usage-limits.mjs\<close>): the log of used token ceilings and the suggestion drawn from it.

  \<^bold>\<open>The game factory.\<close>
  \<^item> \<open>GameRules\<close> (\<open>gamefactory.mjs\<close>): the states of a game, the transitions and their gates.
  \<^item> \<open>GameStore\<close>, \<open>GameTasks\<close> (\<open>gamefactorystore.mjs\<close>): the tables, the commands of an owner, and the queue of tasks
    with its leases; \<open>gstep\<close> is one operation, \<open>grun\<close> a run of them.
  \<^item> \<open>GameSafety\<close>, \<open>GameFacts\<close>: the locale \<open>store_safety\<close> names what an invariant must allow of the primitive
    writes and carries it through every operation; it is interpreted for the well-formed store, for the
    late states of a launch and for attempts that are over.  \<open>GameProps\<close>, \<open>GameCommands\<close>, \<open>GameWitness\<close>: the
    properties and their runs.
  \<^item> \<open>GameEvidence\<close> (\<open>gamefactorystore.mjs\<close>): artifacts, copies, tests and releases, the subject of an approval, and
    the \<open>readers\<close> that the commands look through; \<open>estep\<close> is one operation on the whole store.  What the store is
    built on is the record \<open>world\<close>: the collation of texts, the hashes, the verifier of receipts.  \<open>GameFrame\<close>: the
    locale \<open>table_frame\<close>, for readings of the store that most operations leave alone.  \<open>GameApprovals\<close>,
    \<open>GameReleases\<close>, \<open>GameLaunch\<close>, \<open>GameLaunchWitness\<close>: where approvals come from, how releases descend from each
    other, what a launch rests on, and one launch.

  \<^bold>\<open>Archives.\<close>
  \<^item> \<open>TarLite\<close>, \<open>TarLite_Facts\<close> (\<open>tarlite.mjs\<close>): the ustar header over 8 bit words, packing, unpacking (a
    \<open>partial_function\<close>, because a hostile header can keep the loop going for ever) and the containment
    check of extracted paths.
  \<^item> \<open>TarStream\<close> (\<open>tarstream.mjs\<close>): the streamed archive of a backup, written from files that change while
    they are read, and read back through a rolling buffer; it refines reading the archive in one piece.

  \<^bold>\<open>How the parts meet.\<close>  \<open>SessionBudget\<close>, \<open>VideoBilling\<close>, \<open>LongRunBilling\<close>, \<open>AltanaMoney\<close> work on the billing state of
  \<open>Billing\<close>; \<open>VideoBilling\<close> runs under the chains of \<open>KeyLock\<close> and reports to \<open>VideoMeter\<close>.  \<open>ChatLive\<close> writes
  to the store of \<open>ChatJobs\<close>.  \<open>RoadmapText\<close> and \<open>IdePool\<close> take the tasks of \<open>IdeTasks\<close>.  \<open>WorkOrderRunner\<close>
  drives the store of \<open>WorkOrders\<close> and reads the result lines of \<open>WorkSorter\<close>.

  \<^bold>\<open>What the lemmas show.\<close>  Per component: a well-formedness or accounting invariant kept by every
  operation (ledgers, spines, stores, step relations by rule induction); the value of the operation on
  each branch; single use of what may happen once (paid sessions, codes, settlement keys,
  confirmations); round trips (plans, sorts and undos, journals); that loops end and pools drain; and,
  for what follows another process, that following agrees with reading afresh.  A property stands after
  a text block that carries its number; the lemma ending in \<open>_witness\<close> beside it applies it to a concrete
  run.

  \<^bold>\<open>Bounds and fuel.\<close>  The search for the next run of a schedule looks at 370 days (a weekly or daily rule
  meets a day within 8), a zone's offset is corrected 4 times; both are the code's own loop bounds.  A
  sorter tries 999 numbered names per collision, a log rewrites itself to \<open>KEEP\<close> 2000 lines, as the source
  says.  A run of a long job consumes a list of rounds, and the theorem that it returns asks for more
  rounds than the plan has units left.  The follower's timer is iterated for as many ticks as milliseconds
  are left of the lease, plus one.  The one loop of the code that need not end
  (\<open>unpack\<close>) is a \<open>partial_function\<close> whose value \<open>None\<close> is not returning; everything else that may not end is
  a transition system or consumes its input.

  \<^bold>\<open>Parameters.\<close>  SHA-256, the card processor, the machines of work orders, the platform's time-zone
  database, JSON text and its parser where only its length or its inverse law matters, language models.
  What is assumed of them is a premise of the theorem that needs it.

  \<^bold>\<open>Not modelled.\<close>  Routing and I/O of \<open>server.mjs\<close>, the browser client, adapters to providers, prompts and
  heuristics on natural language, the game factory's orchestration of containers, the remote hands, the
  document writers, gzip, and scripts for operation.  They are I/O, third-party protocols, or text for models.
  Binary rounding of IEEE doubles is outside the number model, as is text outside ASCII.
\<close>

end
